(* ===== verification/Prelude.thy ===== *)
theory Prelude
  imports Main "HOL-Library.Multiset" "HOL-Library.Sublist"
begin

text \<open>
  The vocabulary shared by the component theories: the simplification
  collections of the development, machine sizes (\<open>size_t\<close> arithmetic on
  \<open>nat\<close> with the 64 bit wrap-around written out), the C character classes and
  string comparisons that the sources take from the C library (in the "C"
  locale, with a signed \<open>char\<close>), and the outcome script of the memory
  allocator.
\<close>

named_theorems heap_simps \<open>reading a pointer field after a pointer write\<close>

named_theorems size_simps \<open>size_t arithmetic inside its range\<close>

section \<open>Unsigned 64 bit arithmetic\<close>

text \<open>
  A \<open>size_t\<close> is a natural number below \<open>2 ^ 64\<close>. Addition and subtraction
  wrap; the two lemmas in \<open>size_simps\<close> remove the wrap-around where the exact
  result is in range.
\<close>

definition SIZE_MOD :: nat where
  "SIZE_MOD = 2 ^ 64"

definition sz_add :: "nat \<Rightarrow> nat \<Rightarrow> nat" where
  "sz_add a b = (a + b) mod SIZE_MOD"

definition sz_sub :: "nat \<Rightarrow> nat \<Rightarrow> nat" where
  "sz_sub a b = (a + (SIZE_MOD - b mod SIZE_MOD)) mod SIZE_MOD"

lemma SIZE_MOD_pos [simp]: "0 < SIZE_MOD"
  by (simp add: SIZE_MOD_def)

lemma sz_add_exact [size_simps]: "a + b < SIZE_MOD \<Longrightarrow> sz_add a b = a + b"
  by (simp add: sz_add_def)

lemma sz_sub_exact [size_simps]:
  assumes "b \<le> a" and "a < SIZE_MOD"
  shows "sz_sub a b = a - b"
proof -
  have "a + (SIZE_MOD - b mod SIZE_MOD) = (a - b) + SIZE_MOD"
    using assms by simp
  then have "sz_sub a b = ((a - b) + SIZE_MOD) mod SIZE_MOD"
    by (simp only: sz_sub_def)
  also have "\<dots> = (a - b) mod SIZE_MOD"
    by (rule mod_add_self2)
  also have "\<dots> = a - b"
    using assms by simp
  finally show ?thesis .
qed

lemma sz_add_less [simp]: "sz_add a b < SIZE_MOD"
  by (simp add: sz_add_def)

lemma sz_sub_less [simp]: "sz_sub a b < SIZE_MOD"
  by (simp add: sz_sub_def)

lemma sz_sub_sub:
  assumes "a < SIZE_MOD" and "b < SIZE_MOD"
  shows "sz_sub a (sz_sub a b) = b"
proof (cases "b \<le> a")
  case True
  then show ?thesis
    using assms by (simp add: sz_sub_exact)
next
  case False
  then have e: "sz_sub a b = a + (SIZE_MOD - b)"
    using assms by (simp add: sz_sub_def)
  have "a + (SIZE_MOD - (a + (SIZE_MOD - b))) = b"
    using False assms by simp
  moreover have "a + (SIZE_MOD - b) < SIZE_MOD"
    using False assms by simp
  ultimately show ?thesis
    using assms by (simp add: e) (simp add: sz_sub_def)
qed

section \<open>Outcomes of the allocator\<close>

text \<open>
  Whether a call of \<open>malloc\<close> or \<open>realloc\<close> for a byte buffer succeeds, and which
  bytes the new memory holds, is decided by the environment. A script lists
  the outcomes of the coming calls in order (\<open>None\<close> is a failed call, \<open>Some g\<close>
  a successful one whose fresh byte number \<open>i\<close> is \<open>g i\<close>); past its end every
  call succeeds.
\<close>

type_synonym alloc_script = "(nat \<Rightarrow> char) option list"

fun next_alloc :: "alloc_script \<Rightarrow> (nat \<Rightarrow> char) option \<times> alloc_script" where
  "next_alloc [] = (Some (\<lambda>_. CHR 0x00), [])"
| "next_alloc (r # rs) = (r, rs)"

text \<open>Where only success matters, the script is a list of truth values.\<close>

type_synonym ok_script = "bool list"

fun next_ok :: "ok_script \<Rightarrow> bool \<times> ok_script" where
  "next_ok [] = (True, [])"
| "next_ok (b # bs) = (b, bs)"

section \<open>Characters of the C library\<close>

text \<open>The value of a byte as an \<open>unsigned char\<close> and as a (signed) \<open>char\<close>.\<close>

abbreviation uc :: "char \<Rightarrow> nat" where
  "uc c \<equiv> of_char c"

definition sc :: "char \<Rightarrow> int" where
  "sc c = (if uc c < 128 then int (uc c) else int (uc c) - 256)"

abbreviation NUL :: char where
  "NUL \<equiv> CHR 0x00"

definition isdigit :: "char \<Rightarrow> bool" where
  "isdigit c \<longleftrightarrow> 48 \<le> uc c \<and> uc c \<le> 57"

definition isupper :: "char \<Rightarrow> bool" where
  "isupper c \<longleftrightarrow> 65 \<le> uc c \<and> uc c \<le> 90"

definition islower :: "char \<Rightarrow> bool" where
  "islower c \<longleftrightarrow> 97 \<le> uc c \<and> uc c \<le> 122"

definition isalpha :: "char \<Rightarrow> bool" where
  "isalpha c \<longleftrightarrow> isupper c \<or> islower c"

definition isalnum :: "char \<Rightarrow> bool" where
  "isalnum c \<longleftrightarrow> isalpha c \<or> isdigit c"

definition isxdigit :: "char \<Rightarrow> bool" where
  "isxdigit c \<longleftrightarrow> isdigit c \<or> (65 \<le> uc c \<and> uc c \<le> 70) \<or> (97 \<le> uc c \<and> uc c \<le> 102)"

definition isspace :: "char \<Rightarrow> bool" where
  "isspace c \<longleftrightarrow> uc c = 32 \<or> (9 \<le> uc c \<and> uc c \<le> 13)"

definition tolower :: "char \<Rightarrow> char" where
  "tolower c = (if isupper c then char_of (uc c + 32) else c)"

lemmas ctype_defs = isdigit_def isupper_def islower_def isalpha_def isalnum_def
  isxdigit_def isspace_def

text \<open>
  \<open>strchr (set, c)\<close> also finds the terminator of \<open>set\<close>, so the test
  succeeds on the NUL character.
\<close>

definition strchr_hit :: "string \<Rightarrow> char \<Rightarrow> bool" where
  "strchr_hit cs c \<longleftrightarrow> c \<in> set cs \<or> c = NUL"

section \<open>C strings\<close>

text \<open>
  A C string is the part of a byte list before its first NUL.
  \<open>strncmp_sgn n\<close> and \<open>strncasecmp_sgn n\<close> give the sign of the comparison of
  at most \<open>n\<close> bytes; the end of either list stands for the terminating NUL.
\<close>

definition c_str :: "string \<Rightarrow> string" where
  "c_str = takeWhile (\<lambda>c. c \<noteq> NUL)"

definition cmp_sgn :: "nat \<Rightarrow> nat \<Rightarrow> int" where
  "cmp_sgn a b = (if a < b then -1 else if b < a then 1 else 0)"

fun strncmp_by :: "(char \<Rightarrow> nat) \<Rightarrow> nat \<Rightarrow> string \<Rightarrow> string \<Rightarrow> int" where
  "strncmp_by f 0 xs ys = 0"
| "strncmp_by f (Suc n) [] [] = 0"
| "strncmp_by f (Suc n) [] (y # ys) = (if y = NUL then 0 else -1)"
| "strncmp_by f (Suc n) (x # xs) [] = (if x = NUL then 0 else 1)"
| "strncmp_by f (Suc n) (x # xs) (y # ys) =
     (if f x \<noteq> f y then cmp_sgn (f x) (f y)
      else if x = NUL then 0 else strncmp_by f n xs ys)"

definition strncmp_sgn :: "nat \<Rightarrow> string \<Rightarrow> string \<Rightarrow> int" where
  "strncmp_sgn = strncmp_by of_char"

definition strncasecmp_sgn :: "nat \<Rightarrow> string \<Rightarrow> string \<Rightarrow> int" where
  "strncasecmp_sgn = strncmp_by (\<lambda>c. of_char (tolower c))"

abbreviation no_nul :: "string \<Rightarrow> bool" where
  "no_nul s \<equiv> NUL \<notin> set s"

lemma c_str_no_nul [simp]: "no_nul s \<Longrightarrow> c_str s = s"
  unfolding c_str_def by (simp add: takeWhile_eq_all_conv) metis

lemma no_nul_c_str [simp]: "no_nul (c_str s)"
  unfolding c_str_def by (auto dest: set_takeWhileD)

lemma c_str_append_NUL: "no_nul s \<Longrightarrow> c_str (s @ NUL # t) = s"
  by (induction s) (auto simp: c_str_def)

lemma c_str_drop: "k \<le> length (c_str s) \<Longrightarrow> c_str (drop k s) = drop k (c_str s)"
proof (induction k arbitrary: s)
  case (Suc k)
  then show ?case
    by (cases s) (auto simp: c_str_def split: if_splits)
qed simp

lemma tolower_NUL_iff [simp]: "tolower c = NUL \<longleftrightarrow> c = NUL"
proof (cases "isupper c")
  case True
  then have "uc c + 32 < 256" "uc c + 32 \<noteq> 0" and n: "c \<noteq> NUL"
    by (auto simp: isupper_def)
  then have "uc (char_of (uc c + 32 :: nat)) \<noteq> uc NUL"
    by simp
  then have "char_of (uc c + 32 :: nat) \<noteq> NUL"
    by metis
  then show ?thesis
    using True n by (simp add: tolower_def)
next
  case False
  then show ?thesis by (simp add: tolower_def)
qed

end
