(* ===== verification/FreeList.thy ===== *)
theory FreeList
  imports Prelude
begin

text \<open>
  The heap of list nodes and the free list of
  \<^verbatim>\<open>compa/src/threadutil/FreeList.cpp\<close>. A block of the heap has three machine
  words; its first word is \<open>ListNode.prev\<close> while the block is a list node and
  \<open>FreeListNode.next\<close> while it waits in a free list, exactly the aliasing of the
  C structures. The addresses the C allocator hands out are scripted by the
  environment in \<open>mallocs\<close> (NULL, a live address or the end of the script
  stand for a failed call), so the theorems hold for every allocator.
  Freeing a block that is not live sets \<open>bad_free\<close>.
\<close>

type_synonym addr = nat

abbreviation NULL :: addr where
  "NULL \<equiv> 0"

record heap =
  word0 :: "addr \<Rightarrow> addr"
  nxt :: "addr \<Rightarrow> addr"
  itm :: "addr \<Rightarrow> addr"
  live :: "addr set"
  mallocs :: "addr list"
  bad_free :: bool
  free_calls :: "(addr \<times> addr) list"

abbreviation set_word0 :: "heap \<Rightarrow> addr \<Rightarrow> addr \<Rightarrow> heap" where
  "set_word0 h a v \<equiv> h\<lparr>word0 := (word0 h)(a := v)\<rparr>"

abbreviation set_nxt :: "heap \<Rightarrow> addr \<Rightarrow> addr \<Rightarrow> heap" where
  "set_nxt h a v \<equiv> h\<lparr>nxt := (nxt h)(a := v)\<rparr>"

abbreviation set_itm :: "heap \<Rightarrow> addr \<Rightarrow> addr \<Rightarrow> heap" where
  "set_itm h a v \<equiv> h\<lparr>itm := (itm h)(a := v)\<rparr>"

definition malloc :: "heap \<Rightarrow> heap \<times> addr" where
  "malloc h =
     (case mallocs h of
        [] \<Rightarrow> (h, NULL)
      | a # as \<Rightarrow>
          (if a = NULL \<or> a \<in> live h then (h\<lparr>mallocs := as\<rparr>, NULL)
           else (h\<lparr>mallocs := as, live := insert a (live h)\<rparr>, a)))"

definition free :: "heap \<Rightarrow> addr \<Rightarrow> heap" where
  "free h a =
     (if a = NULL then h
      else if a \<in> live h then h\<lparr>live := live h - {a}\<rparr>
      else h\<lparr>bad_free := True\<rparr>)"

section \<open>The structure and its operations\<close>

record free_list =
  fl_head :: addr
  element_size :: nat
  maxFreeListLength :: int
  freeListLength :: int

definition EINVAL :: int where
  "EINVAL = 22"

definition FreeListInit :: "free_list option \<Rightarrow> nat \<Rightarrow> int \<Rightarrow> free_list option \<times> int" where
  "FreeListInit fl elementSize maxLength =
     (case fl of
        None \<Rightarrow> (None, EINVAL)
      | Some f \<Rightarrow>
          (Some (f\<lparr>element_size := elementSize, maxFreeListLength := maxLength,
                   fl_head := NULL, freeListLength := 0\<rparr>), 0))"

definition FreeListAlloc :: "heap \<Rightarrow> free_list option \<Rightarrow> heap \<times> free_list option \<times> addr" where
  "FreeListAlloc h fl =
     (case fl of
        None \<Rightarrow> (h, None, NULL)
      | Some f \<Rightarrow>
          if fl_head f \<noteq> NULL then
            (h, Some (f\<lparr>fl_head := word0 h (fl_head f),
                       freeListLength := freeListLength f - 1\<rparr>), fl_head f)
          else
            (case malloc h of (h', a) \<Rightarrow> (h', Some f, a)))"

definition FreeListFree ::
    "heap \<Rightarrow> free_list option \<Rightarrow> addr \<Rightarrow> heap \<times> free_list option \<times> int" where
  "FreeListFree h fl element =
     (case fl of
        None \<Rightarrow> (h, None, EINVAL)
      | Some f \<Rightarrow>
          if element \<noteq> NULL \<and> freeListLength f + 1 < maxFreeListLength f then
            (set_word0 h element (fl_head f),
             Some (f\<lparr>freeListLength := freeListLength f + 1, fl_head := element\<rparr>), 0)
          else (free h element, Some f, 0))"

partial_function (option) FreeListDestroy_loop :: "heap \<Rightarrow> free_list \<Rightarrow> (heap \<times> free_list) option" where
  "FreeListDestroy_loop h f =
     (if fl_head f = NULL then Some (h, f)
      else
        (let temp = word0 h (fl_head f);
             h' = free h (fl_head f)
         in FreeListDestroy_loop h' (f\<lparr>fl_head := temp\<rparr>)))"

definition FreeListDestroy ::
    "heap \<Rightarrow> free_list option \<Rightarrow> (heap \<times> free_list option \<times> int) option" where
  "FreeListDestroy h fl =
     (case fl of
        None \<Rightarrow> Some (h, None, EINVAL)
      | Some f \<Rightarrow>
          (case FreeListDestroy_loop h f of
             None \<Rightarrow> None
           | Some (h', f') \<Rightarrow> Some (h', Some (f'\<lparr>freeListLength := 0\<rparr>), 0)))"

section \<open>Representation\<close>

text \<open>\<open>fchain h p ys\<close>: the free list that starts at \<open>p\<close> consists of the blocks \<open>ys\<close>.\<close>

fun fchain :: "heap \<Rightarrow> addr \<Rightarrow> addr list \<Rightarrow> bool" where
  "fchain h p [] \<longleftrightarrow> p = NULL"
| "fchain h p (y # ys) \<longleftrightarrow> p = y \<and> y \<noteq> NULL \<and> fchain h (word0 h y) ys"

definition free_list_inv :: "heap \<Rightarrow> free_list \<Rightarrow> addr list \<Rightarrow> bool" where
  "free_list_inv h f ys \<longleftrightarrow>
     fchain h (fl_head f) ys \<and> distinct ys \<and> NULL \<notin> set ys \<and> set ys \<subseteq> live h \<and>
     freeListLength f = int (length ys) \<and> int (length ys) \<le> max 0 (maxFreeListLength f - 1)"

lemma fchain_cong:
  "(\<And>y. y \<in> set ys \<Longrightarrow> word0 h y = word0 h' y) \<Longrightarrow> fchain h p ys = fchain h' p ys"
  by (induction ys arbitrary: p) auto

lemma fchain_upd [simp]:
  "fchain (h\<lparr>live := L\<rparr>) p ys = fchain h p ys"
  "fchain (h\<lparr>mallocs := M\<rparr>) p ys = fchain h p ys"
  "fchain (h\<lparr>nxt := N\<rparr>) p ys = fchain h p ys"
  "fchain (h\<lparr>itm := I\<rparr>) p ys = fchain h p ys"
  "fchain (h\<lparr>free_calls := C\<rparr>) p ys = fchain h p ys"
  by (rule fchain_cong; simp)+

lemma fchain_set_word0 [heap_simps]:
  "a \<notin> set ys \<Longrightarrow> fchain (h\<lparr>word0 := (word0 h)(a := v)\<rparr>) p ys = fchain h p ys"
  by (rule fchain_cong) auto

lemma malloc_cases:
  obtains (failed) ms where "malloc h = (h\<lparr>mallocs := ms\<rparr>, NULL)"
    | (ok) ms a where "malloc h = (h\<lparr>mallocs := ms, live := insert a (live h)\<rparr>, a)"
        and "a \<noteq> NULL" and "a \<notin> live h"
proof (cases "mallocs h")
  case Nil
  then have "malloc h = (h\<lparr>mallocs := []\<rparr>, NULL)"
    by (simp add: malloc_def)
  then show ?thesis by (rule failed)
next
  case (Cons a ms)
  then show ?thesis
    using failed [of ms] ok [of a ms] by (cases "a = NULL \<or> a \<in> live h") (auto simp: malloc_def)
qed

text \<open>
  Two heaps that differ at most in the set of live blocks and in the script of
  the allocator.
\<close>

definition same_words :: "heap \<Rightarrow> heap \<Rightarrow> bool" where
  "same_words h h' \<longleftrightarrow> word0 h' = word0 h \<and> nxt h' = nxt h \<and> itm h' = itm h \<and>
     bad_free h' = bad_free h \<and> free_calls h' = free_calls h"

text \<open>
  Allocation: the block comes from the free list or from \<open>malloc\<close>, it is live
  and none of the remaining free blocks, and no word of the heap changes.
\<close>

lemma FreeListAlloc_inv:
  assumes "free_list_inv h f ys" and "FreeListAlloc h (Some f) = (h', fl', a)"
  shows "\<exists>f' ys'. fl' = Some f' \<and> free_list_inv h' f' ys' \<and> same_words h h' \<and>
           set ys' \<subseteq> set ys \<and> live h' = (if a = NULL then live h else insert a (live h)) \<and>
           (a \<noteq> NULL \<longrightarrow> a \<notin> set ys' \<and> (a \<in> set ys \<or> a \<notin> live h))"
proof (cases ys)
  case Nil
  then have e: "fl_head f = NULL"
    using assms(1) by (simp add: free_list_inv_def)
  show ?thesis
  proof (cases rule: malloc_cases [of h])
    case (failed ms)
    then have "h' = h\<lparr>mallocs := ms\<rparr>" "fl' = Some f" "a = NULL"
      using assms(2) e by (auto simp: FreeListAlloc_def)
    then show ?thesis
      using assms(1) Nil
      by (intro exI [of _ f] exI [of _ "[]"]) (simp add: free_list_inv_def same_words_def)
  next
    case (ok ms a')
    then have "h' = h\<lparr>mallocs := ms, live := insert a (live h)\<rparr>" "fl' = Some f" "a \<notin> live h" "a \<noteq> NULL"
      using assms(2) e by (auto simp: FreeListAlloc_def)
    then show ?thesis
      using assms(1) Nil
      by (intro exI [of _ f] exI [of _ "[]"]) (simp add: free_list_inv_def same_words_def)
  qed
next
  case (Cons y ys')
  then have e: "fl_head f = y" "y \<noteq> NULL" "fchain h (word0 h y) ys'"
    using assms(1) by (auto simp: free_list_inv_def)
  let ?f = "f\<lparr>fl_head := word0 h y, freeListLength := freeListLength f - 1\<rparr>"
  have r: "h' = h" "fl' = Some ?f" "a = y"
    using assms(2) e by (auto simp: FreeListAlloc_def)
  have "free_list_inv h ?f ys'"
    using assms(1) e Cons by (auto simp: free_list_inv_def)
  then show ?thesis
    using assms(1) Cons e(2) r
    by (intro exI [of _ ?f] exI [of _ ys']) (auto simp: free_list_inv_def same_words_def)
qed

text \<open>
  Release: a live block outside the free list either joins the free list (its
  first word becomes the link) or goes back to the allocator; nothing is freed
  twice.
\<close>

lemma FreeListFree_inv:
  assumes "free_list_inv h f ys" and "FreeListFree h (Some f) a = (h', fl', r)"
    and "a \<in> live h" and "a \<notin> set ys" and "a \<noteq> NULL"
  shows "\<exists>f' ys'. fl' = Some f' \<and> r = 0 \<and> free_list_inv h' f' ys' \<and>
           (\<exists>v. same_words (set_word0 h a v) h') \<and> mallocs h' = mallocs h \<and>
           (set ys' = insert a (set ys) \<and> live h' = live h \<or> ys' = ys \<and> live h' = live h - {a})"
proof (cases "freeListLength f + 1 < maxFreeListLength f")
  case True
  let ?f = "f\<lparr>freeListLength := freeListLength f + 1, fl_head := a\<rparr>"
  have e: "h' = set_word0 h a (fl_head f)" "fl' = Some ?f" "r = 0"
    using assms(2,5) True by (auto simp: FreeListFree_def)
  have "free_list_inv h' ?f (a # ys)"
    using assms(1,3,4,5) True by (simp add: e free_list_inv_def heap_simps)
  then show ?thesis
    using e
    by (intro exI [of _ ?f] exI [of _ "a # ys"] conjI exI [of _ "fl_head f"])
      (auto simp: same_words_def)
next
  case False
  then have e: "h' = h\<lparr>live := live h - {a}\<rparr>" "fl' = Some f" "r = 0"
    using assms(2,3,5) by (auto simp: FreeListFree_def free_def)
  have "free_list_inv h' f ys"
    using assms(1,4) by (auto simp: e free_list_inv_def)
  then show ?thesis
    using e
    by (intro exI [of _ f] exI [of _ ys] conjI exI [of _ "word0 h a"])
      (auto simp: same_words_def)
qed

text \<open>The destroy loop ends on every well-formed free list and frees each of its blocks once.\<close>

lemma FreeListDestroy_loop_ok:
  assumes "fchain h (fl_head f) ys" and "distinct ys" and "set ys \<subseteq> live h"
  shows "FreeListDestroy_loop h f =
           Some (h\<lparr>live := live h - set ys\<rparr>, f\<lparr>fl_head := NULL\<rparr>)"
  using assms
proof (induction ys arbitrary: h f)
  case Nil
  then show ?case
    by (subst FreeListDestroy_loop.simps) simp
next
  case (Cons y ys)
  then have y: "fl_head f = y" "y \<noteq> NULL" "y \<in> live h" "y \<notin> set ys"
    and c: "fchain h (word0 h y) ys"
    by auto
  let ?h = "h\<lparr>live := live h - {y}\<rparr>"
  have "FreeListDestroy_loop ?h (f\<lparr>fl_head := word0 h y\<rparr>) =
          Some (?h\<lparr>live := live ?h - set ys\<rparr>, f\<lparr>fl_head := NULL\<rparr>)"
    using Cons.IH [of ?h "f\<lparr>fl_head := word0 h y\<rparr>"] Cons.prems c y(4)
    by auto
  moreover have "live h - {y} - set ys = live h - set (y # ys)"
    by auto
  ultimately show ?case
    using y by (subst FreeListDestroy_loop.simps) (simp add: free_def)
qed

end
