(* ===== verification/LinkedList.thy ===== *)
theory LinkedList
  imports FreeList
begin

text \<open>
  The doubly linked list of \<^verbatim>\<open>compa/src/threadutil/LinkedList.cpp\<close> on the
  explicit heap of \<open>FreeList\<close>. The embedded sentinels \<open>head\<close> and \<open>tail\<close> of the
  C structure are two fixed addresses; nodes come from and return to the
  list's own free list, so a node's \<open>prev\<close> word is reused as the free-list link.
  The second half relates the pointer operations to operations on a plain
  sequence of node addresses (\<open>list_inv\<close>), and states that contract as the
  locale \<open>node_sequence\<close>, interpreted on the pointer operations.
\<close>

record linked_list =
  lhead :: addr
  ltail :: addr
  lsize :: int
  freeNodeList :: free_list
  free_func :: addr
  cmp_func :: "(addr \<Rightarrow> addr \<Rightarrow> bool) option"

definition FREELISTSIZE :: int where
  "FREELISTSIZE = 100"

definition sizeof_ListNode :: nat where
  "sizeof_ListNode = 24"

section \<open>Operations\<close>

definition freeListNode :: "heap \<Rightarrow> linked_list \<Rightarrow> addr \<Rightarrow> heap \<times> linked_list \<times> int" where
  "freeListNode h l node =
     (case FreeListFree h (Some (freeNodeList l)) node of
        (h', fl, r) \<Rightarrow> (h', l\<lparr>freeNodeList := the fl\<rparr>, r))"

definition CreateListNode :: "heap \<Rightarrow> addr \<Rightarrow> linked_list \<Rightarrow> heap \<times> linked_list \<times> addr" where
  "CreateListNode h item l =
     (case FreeListAlloc h (Some (freeNodeList l)) of
        (h1, fl, temp) \<Rightarrow>
          let l' = l\<lparr>freeNodeList := the fl\<rparr> in
          if temp \<noteq> NULL
          then (set_itm (set_nxt (set_word0 h1 temp NULL) temp NULL) temp item, l', temp)
          else (h1, l', NULL))"

definition ListInit ::
    "heap \<Rightarrow> linked_list option \<Rightarrow> (addr \<Rightarrow> addr \<Rightarrow> bool) option \<Rightarrow> addr \<Rightarrow>
     heap \<times> linked_list option \<times> int" where
  "ListInit h list cmp ff =
     (case list of
        None \<Rightarrow> (h, None, EINVAL)
      | Some l \<Rightarrow>
          (case FreeListInit (Some (freeNodeList l)) sizeof_ListNode FREELISTSIZE of
             (fl, retCode) \<Rightarrow>
               (let h1 = set_itm h (lhead l) NULL;
                    h2 = set_nxt h1 (lhead l) (ltail l);
                    h3 = set_word0 h2 (lhead l) NULL;
                    h4 = set_itm h3 (ltail l) NULL;
                    h5 = set_word0 h4 (ltail l) (lhead l);
                    h6 = set_nxt h5 (ltail l) NULL
                in (h6, Some (l\<lparr>lsize := 0, cmp_func := cmp, free_func := ff,
                               freeNodeList := the fl\<rparr>), retCode))))"

definition ListAddAfter ::
    "heap \<Rightarrow> linked_list option \<Rightarrow> addr \<Rightarrow> addr \<Rightarrow> heap \<times> linked_list option \<times> addr" where
  "ListAddAfter h list item bnode =
     (case list of
        None \<Rightarrow> (h, None, NULL)
      | Some l \<Rightarrow>
          if bnode = NULL then (h, Some l, NULL)
          else
            (case CreateListNode h item l of
               (h0, l0, newNode) \<Rightarrow>
                 if newNode \<noteq> NULL then
                   (let temp = nxt h0 bnode;
                        h1 = set_nxt h0 bnode newNode;
                        h2 = set_word0 h1 newNode bnode;
                        h3 = set_nxt h2 newNode temp;
                        h4 = set_word0 h3 temp newNode
                    in (h4, Some (l0\<lparr>lsize := lsize l0 + 1\<rparr>), newNode))
                 else (h0, Some l0, NULL)))"

definition ListAddBefore ::
    "heap \<Rightarrow> linked_list option \<Rightarrow> addr \<Rightarrow> addr \<Rightarrow> heap \<times> linked_list option \<times> addr" where
  "ListAddBefore h list item anode =
     (case list of
        None \<Rightarrow> (h, None, NULL)
      | Some l \<Rightarrow>
          if anode = NULL then (h, Some l, NULL)
          else
            (case CreateListNode h item l of
               (h0, l0, newNode) \<Rightarrow>
                 if newNode \<noteq> NULL then
                   (let temp = word0 h0 anode;
                        h1 = set_word0 h0 anode newNode;
                        h2 = set_nxt h1 newNode anode;
                        h3 = set_word0 h2 newNode temp;
                        h4 = set_nxt h3 temp newNode
                    in (h4, Some (l0\<lparr>lsize := lsize l0 + 1\<rparr>), newNode))
                 else (h0, Some l0, NULL)))"

definition ListAddHead ::
    "heap \<Rightarrow> linked_list option \<Rightarrow> addr \<Rightarrow> heap \<times> linked_list option \<times> addr" where
  "ListAddHead h list item =
     (case list of None \<Rightarrow> (h, None, NULL) | Some l \<Rightarrow> ListAddAfter h list item (lhead l))"

definition ListAddTail ::
    "heap \<Rightarrow> linked_list option \<Rightarrow> addr \<Rightarrow> heap \<times> linked_list option \<times> addr" where
  "ListAddTail h list item =
     (case list of None \<Rightarrow> (h, None, NULL) | Some l \<Rightarrow> ListAddBefore h list item (ltail l))"

definition ListDelNode ::
    "heap \<Rightarrow> linked_list option \<Rightarrow> addr \<Rightarrow> bool \<Rightarrow> heap \<times> linked_list option \<times> addr" where
  "ListDelNode h list dnode freeItem =
     (case list of
        None \<Rightarrow> (h, None, NULL)
      | Some l \<Rightarrow>
          if dnode = lhead l \<or> dnode = ltail l \<or> dnode = NULL then (h, Some l, NULL)
          else
            (let temp = itm h dnode;
                 h1 = set_nxt h (word0 h dnode) (nxt h dnode);
                 h2 = set_word0 h1 (nxt h1 dnode) (word0 h1 dnode)
             in case freeListNode h2 l dnode of
                  (h3, l3, _) \<Rightarrow>
                    let l4 = l3\<lparr>lsize := lsize l3 - 1\<rparr> in
                    if freeItem \<and> free_func l4 \<noteq> NULL
                    then (h3\<lparr>free_calls := free_calls h3 @ [(free_func l4, temp)]\<rparr>, Some l4, NULL)
                    else (h3, Some l4, temp)))"

partial_function (option) ListDestroy_loop ::
    "heap \<Rightarrow> linked_list \<Rightarrow> addr \<Rightarrow> bool \<Rightarrow> (heap \<times> linked_list) option" where
  "ListDestroy_loop h l dnode freeItem =
     (if dnode = ltail l then Some (h, l)
      else
        (let temp = nxt h dnode;
             r = ListDelNode h (Some l) dnode freeItem
         in ListDestroy_loop (fst r) (the (fst (snd r))) temp freeItem))"

definition ListDestroy ::
    "heap \<Rightarrow> linked_list option \<Rightarrow> bool \<Rightarrow> (heap \<times> linked_list option \<times> int) option" where
  "ListDestroy h list freeItem =
     (case list of
        None \<Rightarrow> Some (h, None, EINVAL)
      | Some l \<Rightarrow>
          (case ListDestroy_loop h l (nxt h (lhead l)) freeItem of
             None \<Rightarrow> None
           | Some (h1, l1) \<Rightarrow>
               (case FreeListDestroy h1 (Some (freeNodeList l1)) of
                  None \<Rightarrow> None
                | Some (h2, fl, _) \<Rightarrow>
                    Some (h2, Some (l1\<lparr>lsize := 0, freeNodeList := the fl\<rparr>), 0))))"

definition ListHead :: "heap \<Rightarrow> linked_list option \<Rightarrow> addr" where
  "ListHead h list =
     (case list of
        None \<Rightarrow> NULL
      | Some l \<Rightarrow> if lsize l = 0 then NULL else nxt h (lhead l))"

definition ListTail :: "heap \<Rightarrow> linked_list option \<Rightarrow> addr" where
  "ListTail h list =
     (case list of
        None \<Rightarrow> NULL
      | Some l \<Rightarrow> if lsize l = 0 then NULL else word0 h (ltail l))"

definition ListNext :: "heap \<Rightarrow> linked_list option \<Rightarrow> addr \<Rightarrow> addr" where
  "ListNext h list node =
     (case list of
        None \<Rightarrow> NULL
      | Some l \<Rightarrow>
          if node = NULL then NULL
          else if nxt h node = ltail l then NULL else nxt h node)"

definition ListPrev :: "heap \<Rightarrow> linked_list option \<Rightarrow> addr \<Rightarrow> addr" where
  "ListPrev h list node =
     (case list of
        None \<Rightarrow> NULL
      | Some l \<Rightarrow>
          if node = NULL then NULL
          else if word0 h node = lhead l then NULL else word0 h node)"

partial_function (option) ListFind_loop :: "heap \<Rightarrow> linked_list \<Rightarrow> addr \<Rightarrow> addr \<Rightarrow> addr option" where
  "ListFind_loop h l item finger =
     (if finger = ltail l then Some NULL
      else if (case cmp_func l of Some c \<Rightarrow> c item (itm h finger) | None \<Rightarrow> item = itm h finger)
      then Some finger
      else ListFind_loop h l item (nxt h finger))"

definition ListFind :: "heap \<Rightarrow> linked_list option \<Rightarrow> addr \<Rightarrow> addr \<Rightarrow> addr option" where
  "ListFind h list start item =
     (case list of
        None \<Rightarrow> Some NULL
      | Some l \<Rightarrow>
          ListFind_loop h l item (nxt h (if start = NULL then lhead l else start)))"

definition ListSize :: "linked_list option \<Rightarrow> int" where
  "ListSize list = (case list of None \<Rightarrow> EINVAL | Some l \<Rightarrow> lsize l)"

section \<open>Chains of nodes\<close>

text \<open>
  \<open>linked h ns\<close>: in the sequence \<open>ns\<close> every node points forward to its successor
  and every successor points back.
\<close>

fun linked :: "heap \<Rightarrow> addr list \<Rightarrow> bool" where
  "linked h (x # y # zs) \<longleftrightarrow> nxt h x = y \<and> word0 h y = x \<and> linked h (y # zs)"
| "linked h _ \<longleftrightarrow> True"

lemma linked_append:
  "linked h (as @ x # bs) \<longleftrightarrow> linked h (as @ [x]) \<and> linked h (x # bs)"
  by (induction as rule: linked.induct [of _ h for h]) auto

lemma linked_cong:
  assumes "\<And>x. x \<in> set (butlast ns) \<Longrightarrow> nxt h' x = nxt h x"
    and "\<And>x. x \<in> set (tl ns) \<Longrightarrow> word0 h' x = word0 h x"
  shows "linked h' ns = linked h ns"
  using assms by (induction ns rule: linked.induct [of _ h for h]) auto

lemma linked_same_words: "same_words h h' \<Longrightarrow> linked h' ns = linked h ns"
  by (rule linked_cong) (auto simp: same_words_def)

lemma linked_front:
  assumes "linked h (as @ [b])" and "\<forall>x\<in>set as. nxt h' x = nxt h x"
    and "\<forall>x\<in>set (as @ [b]). word0 h' x = word0 h x"
  shows "linked h' (as @ [b])"
proof -
  have "x \<in> set (as @ [b])" if "x \<in> set (tl (as @ [b]))" for x
    using that by (cases as) auto
  then have "linked h' (as @ [b]) = linked h (as @ [b])"
    using assms(2,3) by (intro linked_cong) auto
  then show ?thesis
    using assms(1) by simp
qed

lemma linked_back:
  assumes "linked h (c # bs)" and "\<forall>x\<in>set (c # bs). nxt h' x = nxt h x"
    and "\<forall>x\<in>set bs. word0 h' x = word0 h x"
  shows "linked h' (c # bs)"
proof -
  have "linked h' (c # bs) = linked h (c # bs)"
    using assms(2,3) by (intro linked_cong) (auto dest: in_set_butlastD split: if_splits)
  then show ?thesis
    using assms(1) by simp
qed

text \<open>Splicing a new node between two neighbours, and taking a node out.\<close>

lemma linked_insert:
  assumes "linked h (as @ b # c # bs)" and "distinct (as @ b # c # bs)"
    and "n \<notin> set (as @ b # c # bs)"
    and "nxt h' = (nxt h)(b := n, n := c)" and "word0 h' = (word0 h)(n := b, c := n)"
  shows "linked h' (as @ b # n # c # bs)"
proof -
  have h: "linked h (as @ [b])" "linked h (c # bs)"
    using assms(1) linked_append [of h as b "c # bs"] by auto
  have "linked h' (as @ [b])"
    by (rule linked_front [OF h(1)]) (use assms(2-5) in auto)
  moreover have "linked h' (c # bs)"
    by (rule linked_back [OF h(2)]) (use assms(2-5) in auto)
  ultimately show ?thesis
    using assms(2-5) by (subst linked_append) auto
qed

lemma linked_remove:
  assumes "linked h (as @ b # d # c # bs)" and "distinct (as @ b # d # c # bs)"
    and "nxt h' = (nxt h)(b := c)" and "\<And>x. x \<noteq> d \<Longrightarrow> word0 h' x = ((word0 h)(c := b)) x"
  shows "linked h' (as @ b # c # bs)"
proof -
  have h: "linked h (as @ [b])" "linked h (c # bs)"
    using assms(1) linked_append [of h as b "d # c # bs"] by auto
  have w: "word0 h' x = word0 h x" if "x \<in> set (as @ b # bs)" for x
  proof -
    have "x \<noteq> d" "x \<noteq> c"
      using that assms(2) by auto
    then show ?thesis
      using assms(4) by simp
  qed
  have "linked h' (as @ [b])"
    by (rule linked_front [OF h(1)]) (use assms(2,3) w in auto)
  moreover have "linked h' (c # bs)"
    by (rule linked_back [OF h(2)]) (use assms(2,3) w in auto)
  ultimately show ?thesis
    using assms(2-4) by (subst linked_append) auto
qed

lemma linked_adjacent:
  assumes "linked h (as @ b # c # bs)"
  shows "nxt h b = c" and "word0 h c = b"
  using assms linked_append [of h as b "c # bs"] by simp_all

lemma linked_neighbours:
  assumes "linked h (as @ b # d # c # bs)"
  shows "word0 h d = b" and "nxt h d = c"
  using assms by (simp_all add: linked_append [of h as b "d # c # bs"])

section \<open>The representation invariant\<close>

text \<open>
  \<open>list_inv h l xs ys\<close>: between the sentinels lie the nodes \<open>xs\<close>, the blocks
  \<open>ys\<close> wait in the free list, all of them are live and pairwise different, the
  stored size is right and no block was freed twice.
\<close>

definition list_inv :: "heap \<Rightarrow> linked_list \<Rightarrow> addr list \<Rightarrow> addr list \<Rightarrow> bool" where
  "list_inv h l xs ys \<longleftrightarrow>
     linked h (lhead l # xs @ [ltail l]) \<and> distinct (lhead l # xs @ ltail l # ys) \<and>
     NULL \<notin> set (lhead l # xs @ ltail l # ys) \<and>
     set (lhead l # xs @ ltail l # ys) \<subseteq> live h \<and>
     lsize l = int (length xs) \<and> free_list_inv h (freeNodeList l) ys \<and> \<not> bad_free h"

lemma list_inv_node:
  assumes "list_inv h l (as @ d # bs) ys"
  obtains a' p n b' where "lhead l # (as @ d # bs) @ [ltail l] = a' @ p # d # n # b'"
    and "lhead l # (as @ bs) @ [ltail l] = a' @ p # n # b'"
    and "word0 h d = p" and "nxt h d = n" and "d \<notin> set (a' @ p # n # b')"
    and "distinct (a' @ p # n # b')"
proof -
  obtain a' p where a: "lhead l # as = a' @ [p]"
    by (cases "lhead l # as" rule: rev_cases) auto
  obtain n b' where b: "bs @ [ltail l] = n # b'"
    by (cases "bs @ [ltail l]") auto
  have "lhead l # (as @ d # bs) @ [ltail l] = (lhead l # as) @ d # (bs @ [ltail l])"
    by simp
  also have "\<dots> = a' @ p # d # n # b'"
    unfolding a b by simp
  finally have e: "lhead l # (as @ d # bs) @ [ltail l] = a' @ p # d # n # b'" .
  have "lhead l # (as @ bs) @ [ltail l] = (lhead l # as) @ (bs @ [ltail l])"
    by simp
  also have "\<dots> = a' @ p # n # b'"
    unfolding a b by simp
  finally have e2: "lhead l # (as @ bs) @ [ltail l] = a' @ p # n # b'" .
  have l: "linked h (a' @ p # d # n # b')"
    using assms e by (simp add: list_inv_def)
  have "distinct (lhead l # (as @ d # bs) @ [ltail l])"
    using assms by (auto simp: list_inv_def)
  then have "distinct (a' @ p # d # n # b')"
    by (simp only: e)
  then show ?thesis
    using that [OF e e2 linked_neighbours [OF l]] by auto
qed

lemma CreateListNode_inv:
  assumes "list_inv h l xs ys" and "CreateListNode h item l = (h', l', n)"
  shows "\<exists>ys'. list_inv h' l' xs ys' \<and> set ys' \<subseteq> set ys \<and> lhead l' = lhead l \<and> ltail l' = ltail l \<and>
           free_func l' = free_func l \<and> cmp_func l' = cmp_func l \<and> free_calls h' = free_calls h \<and>
           (\<forall>x. x \<noteq> n \<longrightarrow> word0 h' x = word0 h x \<and> nxt h' x = nxt h x \<and> itm h' x = itm h x) \<and>
           (if n = NULL then same_words h h' \<and> live h' = live h
            else itm h' n = item \<and> n \<in> live h' \<and> live h \<subseteq> live h' \<and>
                 n \<notin> set (lhead l # xs @ ltail l # ys'))"
proof -
  obtain h1 fl a where r: "FreeListAlloc h (Some (freeNodeList l)) = (h1, fl, a)"
    by (cases "FreeListAlloc h (Some (freeNodeList l))") auto
  have fi: "free_list_inv h (freeNodeList l) ys"
    using assms(1) by (simp add: list_inv_def)
  obtain f' ys' where f: "fl = Some f'" "free_list_inv h1 f' ys'" "same_words h h1" "set ys' \<subseteq> set ys"
      "live h1 = (if a = NULL then live h else insert a (live h))"
      "a \<noteq> NULL \<Longrightarrow> a \<notin> set ys' \<and> (a \<in> set ys \<or> a \<notin> live h)"
    using FreeListAlloc_inv [OF fi r] by blast
  have d: "distinct ys'"
    using f(2) by (simp add: free_list_inv_def)
  show ?thesis
  proof (cases "a = NULL")
    case True
    then have e: "h' = h1" "l' = l\<lparr>freeNodeList := f'\<rparr>" "n = NULL"
      using assms(2) r f(1) by (auto simp: CreateListNode_def)
    have "linked h1 (lhead l # xs @ [ltail l])"
      using assms(1) linked_same_words [OF f(3)] by (simp add: list_inv_def)
    then have "list_inv h' l' xs ys'"
      using assms(1) f True d e by (auto simp: list_inv_def same_words_def)
    then show ?thesis
      using e f True by (intro exI [of _ ys']) (auto simp: same_words_def)
  next
    case False
    let ?h = "set_itm (set_nxt (set_word0 h1 a NULL) a NULL) a item"
    have e: "h' = ?h" "l' = l\<lparr>freeNodeList := f'\<rparr>" "n = a"
      using assms(2) r f(1) False by (auto simp: CreateListNode_def)
    have a: "a \<notin> set (lhead l # xs @ ltail l # ys')" "a \<notin> set ys'"
      using assms(1) f(4) f(6) [OF False] by (auto simp: list_inv_def)
    have "linked ?h (lhead l # xs @ [ltail l])"
      using assms(1) a f(3) by (subst linked_cong [of _ _ h])
        (auto simp: list_inv_def same_words_def dest: in_set_butlastD split: if_splits)
    moreover have "free_list_inv ?h f' ys'"
      using f(2) a(2) by (simp add: free_list_inv_def fchain_set_word0)
    ultimately have "list_inv h' l' xs ys'"
      using assms(1) f False d e by (auto simp: list_inv_def same_words_def)
    then show ?thesis
      using e f a False by (intro exI [of _ ys']) (auto simp: same_words_def)
  qed
qed

definition same_list :: "linked_list \<Rightarrow> linked_list \<Rightarrow> bool" where
  "same_list l l' \<longleftrightarrow> lhead l' = lhead l \<and> ltail l' = ltail l \<and> free_func l' = free_func l \<and>
     cmp_func l' = cmp_func l"

text \<open>
  The part common to \<open>ListAddAfter\<close> and \<open>ListAddBefore\<close>: a fresh node linked in
  between two neighbours of the chain.
\<close>

lemma link_in_inv:
  assumes "list_inv h0 l0 xs ys" and "n \<notin> set (lhead l0 # xs @ ltail l0 # ys)"
    and "n \<in> live h0" and "n \<noteq> NULL"
    and "lhead l0 # xs @ [ltail l0] = a' @ p # c # b'"
    and "lhead l0 # xs' @ [ltail l0] = a' @ p # n # c # b'"
    and "h4 = h0\<lparr>nxt := (nxt h0)(p := n, n := c), word0 := (word0 h0)(n := p, c := n)\<rparr>"
  shows "list_inv h4 (l0\<lparr>lsize := lsize l0 + 1\<rparr>) xs' ys"
proof -
  have dn: "distinct (a' @ p # c # b')" and nn: "n \<notin> set (a' @ p # c # b')"
    and "set ys \<inter> set (a' @ p # c # b') = {}"
    using assms(1,2) unfolding assms(5) [symmetric] list_inv_def by auto
  have "linked h4 (a' @ p # n # c # b')"
    using assms(1,5,7) dn nn by (intro linked_insert [of h0]) (auto simp: list_inv_def)
  then have lk: "linked h4 (lhead l0 # xs' @ [ltail l0])"
    by (simp only: assms(6))
  have "mset (lhead l0 # xs' @ [ltail l0]) = add_mset n (mset (lhead l0 # xs @ [ltail l0]))"
    unfolding assms(5,6) by simp
  then have m: "mset xs' = add_mset n (mset xs)"
    by simp
  then have st: "set xs' = insert n (set xs)" and ln: "length xs' = Suc (length xs)"
    using mset_eq_setD [of xs' "n # xs"] mset_eq_length [of xs' "n # xs"] by auto
  have di: "distinct xs'"
    using assms(1,2) m distinct_count_atmost_1 [of xs'] mset_eq_imp_distinct_iff [of xs' "n # xs"]
    by (auto simp: list_inv_def)
  have "c \<notin> set ys" "n \<notin> set ys"
    using \<open>set ys \<inter> _ = {}\<close> assms(2) by auto
  then have "fchain h4 (fl_head (freeNodeList l0)) ys"
    using assms(1,7) by (subst fchain_cong [of _ _ h0]) (auto simp: list_inv_def free_list_inv_def)
  then have "free_list_inv h4 (freeNodeList l0) ys"
    using assms(1,7) by (auto simp: list_inv_def free_list_inv_def)
  then show ?thesis
    using assms(1-4,7) lk st ln di by (auto simp: list_inv_def)
qed

lemma ListAddBefore_inv:
  assumes "list_inv h l (as @ bs) ys" and "anode = hd (bs @ [ltail l])"
    and "ListAddBefore h (Some l) item anode = (h', list', n)"
  shows "\<exists>l' ys'. list' = Some l' \<and> same_list l l' \<and> free_calls h' = free_calls h \<and>
           (\<forall>x. x \<noteq> n \<longrightarrow> itm h' x = itm h x) \<and>
           (if n = NULL then list_inv h' l' (as @ bs) ys'
            else list_inv h' l' (as @ n # bs) ys' \<and> itm h' n = item \<and> n \<notin> set (as @ bs))"
proof -
  let ?xs = "as @ bs"
  obtain h0 l0 n0 where r: "CreateListNode h item l = (h0, l0, n0)"
    by (cases "CreateListNode h item l") auto
  from CreateListNode_inv [OF assms(1) r] obtain ys' where y:
      "list_inv h0 l0 ?xs ys'" "same_list l l0" "free_calls h0 = free_calls h"
      "\<forall>x. x \<noteq> n0 \<longrightarrow> itm h0 x = itm h x"
      "n0 \<noteq> NULL \<Longrightarrow> itm h0 n0 = item \<and> n0 \<in> live h0 \<and> n0 \<notin> set (lhead l # ?xs @ ltail l # ys')"
    unfolding same_list_def by (metis (full_types))
  obtain p a' where pa: "lhead l # as = a' @ [p]"
    by (cases "lhead l # as" rule: rev_cases) auto
  obtain b' where b: "bs @ [ltail l] = anode # b'"
    using assms(2) by (cases "bs @ [ltail l]") auto
  have "lhead l # ?xs @ [ltail l] = (lhead l # as) @ (bs @ [ltail l])"
    by simp
  then have e: "lhead l # ?xs @ [ltail l] = a' @ p # anode # b'"
    unfolding pa b by simp
  have "lhead l # (as @ n0 # bs) @ [ltail l] = (lhead l # as) @ n0 # (bs @ [ltail l])"
    by simp
  then have e': "lhead l # (as @ n0 # bs) @ [ltail l] = a' @ p # n0 # anode # b'"
    unfolding pa b by simp
  have an: "anode \<in> set (lhead l # ?xs @ [ltail l])"
    unfolding e by simp
  then have nz: "anode \<noteq> NULL"
    using assms(1) by (auto simp: list_inv_def)
  show ?thesis
  proof (cases "n0 = NULL")
    case True
    then have "h' = h0" "list' = Some l0" "n = NULL"
      using assms(3) r nz by (auto simp: ListAddBefore_def)
    then show ?thesis
      using y True by auto
  next
    case False
    have "linked h0 (a' @ p # anode # b')"
      using y(1,2) e by (simp add: list_inv_def same_list_def)
    then have pv: "word0 h0 anode = p"
      by (rule linked_adjacent(2))
    have ne: "n0 \<noteq> anode" "n0 \<noteq> p" "anode \<noteq> p"
    proof -
      have "n0 \<notin> set (lhead l # ?xs @ [ltail l])"
        using y(5) [OF False] by auto
      then show "n0 \<noteq> anode" "n0 \<noteq> p"
        unfolding e by auto
      have "distinct (lhead l # ?xs @ [ltail l])"
        using assms(1) by (auto simp: list_inv_def)
      then show "anode \<noteq> p"
        unfolding e by auto
    qed
    let ?h = "h0\<lparr>nxt := (nxt h0)(p := n0, n0 := anode), word0 := (word0 h0)(n0 := p, anode := n0)\<rparr>"
    have res: "h' = ?h" "list' = Some (l0\<lparr>lsize := lsize l0 + 1\<rparr>)" "n = n0"
      using assms(3) r nz False pv ne
      by (auto simp: ListAddBefore_def Let_def fun_upd_twist)
    have "list_inv ?h (l0\<lparr>lsize := lsize l0 + 1\<rparr>) (as @ n0 # bs) ys'"
      using y(2) y(5) [OF False] False e e'
      by (intro link_in_inv [OF y(1), of n0 a' p anode b']) (auto simp: same_list_def)
    then show ?thesis
      using res y(2-5) False by (auto simp: same_list_def)
  qed
qed

lemma ListAddAfter_inv:
  assumes "list_inv h l (as @ bs) ys" and "bnode = last (lhead l # as)"
    and "ListAddAfter h (Some l) item bnode = (h', list', n)"
  shows "\<exists>l' ys'. list' = Some l' \<and> same_list l l' \<and> free_calls h' = free_calls h \<and>
           (\<forall>x. x \<noteq> n \<longrightarrow> itm h' x = itm h x) \<and>
           (if n = NULL then list_inv h' l' (as @ bs) ys'
            else list_inv h' l' (as @ n # bs) ys' \<and> itm h' n = item \<and> n \<notin> set (as @ bs))"
proof -
  let ?xs = "as @ bs"
  obtain h0 l0 n0 where r: "CreateListNode h item l = (h0, l0, n0)"
    by (cases "CreateListNode h item l") auto
  from CreateListNode_inv [OF assms(1) r] obtain ys' where y:
      "list_inv h0 l0 ?xs ys'" "same_list l l0" "free_calls h0 = free_calls h"
      "\<forall>x. x \<noteq> n0 \<longrightarrow> itm h0 x = itm h x"
      "n0 \<noteq> NULL \<Longrightarrow> itm h0 n0 = item \<and> n0 \<in> live h0 \<and> n0 \<notin> set (lhead l # ?xs @ ltail l # ys')"
    unfolding same_list_def by (metis (full_types))
  obtain a' where pa: "lhead l # as = a' @ [bnode]"
    using assms(2) by (metis append_butlast_last_id list.discI)
  obtain c b' where b: "bs @ [ltail l] = c # b'"
    by (cases "bs @ [ltail l]") auto
  have "lhead l # ?xs @ [ltail l] = (lhead l # as) @ (bs @ [ltail l])"
    by simp
  then have e: "lhead l # ?xs @ [ltail l] = a' @ bnode # c # b'"
    unfolding pa b by simp
  have "lhead l # (as @ n0 # bs) @ [ltail l] = (lhead l # as) @ n0 # (bs @ [ltail l])"
    by simp
  then have e': "lhead l # (as @ n0 # bs) @ [ltail l] = a' @ bnode # n0 # c # b'"
    unfolding pa b by simp
  have "bnode \<in> set (lhead l # ?xs @ [ltail l])"
    unfolding e by simp
  then have nz: "bnode \<noteq> NULL"
    using assms(1) by (auto simp: list_inv_def)
  show ?thesis
  proof (cases "n0 = NULL")
    case True
    then have "h' = h0" "list' = Some l0" "n = NULL"
      using assms(3) r nz by (auto simp: ListAddAfter_def)
    then show ?thesis
      using y True by auto
  next
    case False
    have "linked h0 (a' @ bnode # c # b')"
      using y(1,2) e by (simp add: list_inv_def same_list_def)
    then have pv: "nxt h0 bnode = c"
      by (rule linked_adjacent(1))
    have "n0 \<notin> set (lhead l # ?xs @ [ltail l])"
      using y(5) [OF False] by auto
    then have ne: "n0 \<noteq> bnode" "n0 \<noteq> c"
      unfolding e by auto
    let ?h = "h0\<lparr>nxt := (nxt h0)(bnode := n0, n0 := c), word0 := (word0 h0)(n0 := bnode, c := n0)\<rparr>"
    have res: "h' = ?h" "list' = Some (l0\<lparr>lsize := lsize l0 + 1\<rparr>)" "n = n0"
      using assms(3) r nz False pv ne
      by (auto simp: ListAddAfter_def Let_def fun_upd_twist)
    have "list_inv ?h (l0\<lparr>lsize := lsize l0 + 1\<rparr>) (as @ n0 # bs) ys'"
      using y(2) y(5) [OF False] False e e'
      by (intro link_in_inv [OF y(1), of n0 a' bnode c b']) (auto simp: same_list_def)
    then show ?thesis
      using res y(2-5) False by (auto simp: same_list_def)
  qed
qed

lemma ListDelNode_inv:
  assumes "list_inv h l (as @ d # bs) ys"
    and "ListDelNode h (Some l) d freeItem = (h', list', r)"
  shows "\<exists>l' ys'. list' = Some l' \<and> same_list l l' \<and> list_inv h' l' (as @ bs) ys' \<and> itm h' = itm h \<and>
           live h' - set ys' = live h - insert d (set ys) \<and>
           (if freeItem \<and> free_func l \<noteq> NULL
            then r = NULL \<and> free_calls h' = free_calls h @ [(free_func l, itm h d)]
            else r = itm h d \<and> free_calls h' = free_calls h)"
proof -
  have d: "d \<noteq> lhead l" "d \<noteq> ltail l" "d \<noteq> NULL" "d \<in> live h" "d \<notin> set (as @ bs @ ys)"
    using assms(1) by (auto simp: list_inv_def)
  from list_inv_node [OF assms(1)] obtain a' p n b' where c:
      "lhead l # (as @ d # bs) @ [ltail l] = a' @ p # d # n # b'"
      "lhead l # (as @ bs) @ [ltail l] = a' @ p # n # b'"
      "word0 h d = p" "nxt h d = n" "d \<notin> set (a' @ p # n # b')" "distinct (a' @ p # n # b')"
    by metis
  have "n \<in> set (lhead l # (as @ bs) @ [ltail l])"
    unfolding c(2) by simp
  then have n: "n \<notin> set ys"
    using assms(1) by (auto simp: list_inv_def)
  let ?h2 = "h\<lparr>nxt := (nxt h)(p := n), word0 := (word0 h)(n := p)\<rparr>"
  obtain h3 fl rr where r: "FreeListFree ?h2 (Some (freeNodeList l)) d = (h3, fl, rr)"
    by (cases "FreeListFree ?h2 (Some (freeNodeList l)) d") auto
  have "fchain ?h2 q ys = fchain h q ys" for q
    by (rule fchain_cong) (use n in auto)
  then have "free_list_inv ?h2 (freeNodeList l) ys"
    using assms(1) by (auto simp: list_inv_def free_list_inv_def)
  then have "\<exists>f' ys'. fl = Some f' \<and> rr = 0 \<and> free_list_inv h3 f' ys' \<and>
      (\<exists>v. same_words (set_word0 ?h2 d v) h3) \<and> mallocs h3 = mallocs ?h2 \<and>
      (set ys' = insert d (set ys) \<and> live h3 = live ?h2 \<or> ys' = ys \<and> live h3 = live ?h2 - {d})"
    by (rule FreeListFree_inv [OF _ r]) (use d in simp_all)
  then obtain f' ys' v where f:
      "fl = Some f'" "free_list_inv h3 f' ys'" "same_words (set_word0 ?h2 d v) h3"
      "set ys' = insert d (set ys) \<and> live h3 = live ?h2 \<or> ys' = ys \<and> live h3 = live ?h2 - {d}"
    by blast
  have "linked h (lhead l # (as @ d # bs) @ [ltail l])"
    using assms(1) by (simp add: list_inv_def)
  then have "linked h (a' @ p # d # n # b')"
    by (simp only: c(1))
  then have "linked h3 (a' @ p # n # b')"
    using c(5,6) f(3) by (elim linked_remove) (auto simp: same_words_def)
  then have lk: "linked h3 (lhead l # (as @ bs) @ [ltail l])"
    by (simp only: c(2))
  have dy: "distinct ys'"
    using f(2) by (simp add: free_list_inv_def)
  let ?l = "l\<lparr>freeNodeList := f', lsize := lsize l - 1\<rparr>"
  have inv: "list_inv h3 ?l (as @ bs) ys'"
    using assms(1) d lk dy f(2-4) by (auto simp: list_inv_def same_words_def)
  have fc: "free_calls h3 = free_calls h" "itm h3 = itm h"
    using f(3) by (auto simp: same_words_def)
  have lv: "live h3 - set ys' = live h - insert d (set ys)"
    using f(4) by auto
  have np: "p \<noteq> d" "n \<noteq> d"
    using c(5) by auto
  have fr: "freeListNode ?h2 l d = (h3, l\<lparr>freeNodeList := f'\<rparr>, rr)"
    using r f(1) by (simp add: freeListNode_def)
  have invC: "list_inv (h3\<lparr>free_calls := C\<rparr>) ?l (as @ bs) ys'" for C
    using inv linked_cong [of "lhead l # (as @ bs) @ [ltail l]" "h3\<lparr>free_calls := C\<rparr>" h3]
    by (simp add: list_inv_def free_list_inv_def)
  have "list' = Some ?l \<and>
      (if freeItem \<and> free_func l \<noteq> NULL
       then h' = h3\<lparr>free_calls := free_calls h @ [(free_func l, itm h d)]\<rparr> \<and> r = NULL
       else h' = h3 \<and> r = itm h d)"
    using assms(2) d c(3,4) np fr fc by (auto simp: ListDelNode_def Let_def split: if_splits)
  then show ?thesis
    using inv invC fc lv
    by (intro exI [of _ ?l] exI [of _ ys']) (simp add: same_list_def split: if_splits)
qed

text \<open>A freshly initialised list is empty and well formed.\<close>

lemma ListInit_inv:
  assumes "ListInit h (Some l) cmp ff = (h', list', r)" and "lhead l \<noteq> ltail l"
    and "lhead l \<noteq> NULL" and "ltail l \<noteq> NULL" and "{lhead l, ltail l} \<subseteq> live h" and "\<not> bad_free h"
  shows "\<exists>l'. list' = Some l' \<and> r = 0 \<and> list_inv h' l' [] [] \<and> cmp_func l' = cmp \<and>
           free_func l' = ff \<and> lhead l' = lhead l \<and> ltail l' = ltail l"
  using assms by (auto simp: ListInit_def FreeListInit_def Let_def list_inv_def free_list_inv_def
      FREELISTSIZE_def)

section \<open>Traversal\<close>

lemma list_inv_first:
  assumes "list_inv h l xs ys"
  shows "nxt h (lhead l) = hd (xs @ [ltail l])" and "word0 h (ltail l) = last (lhead l # xs)"
proof -
  have lk: "linked h (lhead l # xs @ [ltail l])"
    using assms by (simp add: list_inv_def)
  then show "nxt h (lhead l) = hd (xs @ [ltail l])"
    by (cases xs) auto
  obtain a' p where "lhead l # xs = a' @ [p]"
    by (cases "lhead l # xs" rule: rev_cases) auto
  then show "word0 h (ltail l) = last (lhead l # xs)"
    using lk linked_adjacent(2) [of h a' p "ltail l" "[]"] by (metis append.assoc append_Cons
      append_Nil last_snoc)
qed

lemma ListHead_inv: "list_inv h l xs ys \<Longrightarrow> ListHead h (Some l) = (case xs of [] \<Rightarrow> NULL | x # _ \<Rightarrow> x)"
  using list_inv_first(1) [of h l xs ys] by (cases xs) (auto simp: ListHead_def list_inv_def)

lemma ListTail_inv: "list_inv h l xs ys \<Longrightarrow> ListTail h (Some l) = (if xs = [] then NULL else last xs)"
  using list_inv_first(2) [of h l xs ys] by (auto simp: ListTail_def list_inv_def)

lemma list_inv_nxt:
  assumes "list_inv h l (as @ d # bs) ys"
  shows "nxt h d = hd (bs @ [ltail l])" and "word0 h d = last (lhead l # as)"
proof -
  have "linked h ((lhead l # as) @ d # (bs @ [ltail l]))"
    using assms by (simp add: list_inv_def)
  then have l1: "linked h ((lhead l # as) @ [d])" and l2: "linked h (d # (bs @ [ltail l]))"
    using linked_append by blast+
  then show "nxt h d = hd (bs @ [ltail l])"
    by (cases bs) auto
  obtain a' p where "lhead l # as = a' @ [p]"
    by (cases "lhead l # as" rule: rev_cases) auto
  then show "word0 h d = last (lhead l # as)"
    using l1 linked_adjacent(2) [of h a' p d "[]"] by simp
qed

lemma ListNext_inv:
  assumes "list_inv h l (as @ d # bs) ys"
  shows "ListNext h (Some l) d = (case bs of [] \<Rightarrow> NULL | b # _ \<Rightarrow> b)"
  using assms list_inv_nxt(1) [OF assms] by (cases bs) (auto simp: ListNext_def list_inv_def)

lemma ListPrev_inv:
  assumes "list_inv h l (as @ d # bs) ys"
  shows "ListPrev h (Some l) d = (if as = [] then NULL else last as)"
proof (cases as rule: rev_cases)
  case Nil
  then show ?thesis
    using assms list_inv_nxt(2) [OF assms] by (auto simp: ListPrev_def list_inv_def)
next
  case (snoc a' p)
  then show ?thesis
    using assms list_inv_nxt(2) [OF assms] by (auto simp: ListPrev_def list_inv_def)
qed

definition item_matches :: "linked_list \<Rightarrow> addr \<Rightarrow> addr \<Rightarrow> bool" where
  "item_matches l item x =
     (case cmp_func l of Some c \<Rightarrow> c item x | None \<Rightarrow> item = x)"

lemma ListFind_loop_inv:
  assumes "list_inv h l (as @ bs) ys"
  shows "ListFind_loop h l item (hd (bs @ [ltail l])) =
           Some (case find (\<lambda>x. item_matches l item (itm h x)) bs of None \<Rightarrow> NULL | Some x \<Rightarrow> x)"
  using assms
proof (induction bs arbitrary: as)
  case Nil
  show ?case
    by (subst ListFind_loop.simps) simp
next
  case (Cons b bs)
  have nb: "b \<noteq> ltail l"
    using Cons.prems by (auto simp: list_inv_def)
  have "nxt h b = hd (bs @ [ltail l])"
    using Cons.prems by (rule list_inv_nxt)
  moreover have "ListFind_loop h l item (hd (bs @ [ltail l])) =
      Some (case find (\<lambda>x. item_matches l item (itm h x)) bs of None \<Rightarrow> NULL | Some x \<Rightarrow> x)"
    using Cons.prems by (intro Cons.IH [of "as @ [b]"]) simp
  ultimately show ?case
    using nb by (subst ListFind_loop.simps) (simp add: item_matches_def [symmetric])
qed

lemma ListFind_inv:
  assumes "list_inv h l xs ys"
  shows "ListFind h (Some l) NULL item =
           Some (case find (\<lambda>x. item_matches l item (itm h x)) xs of None \<Rightarrow> NULL | Some x \<Rightarrow> x)"
  using ListFind_loop_inv [of h l "[]" xs ys item] assms list_inv_first(1) [OF assms]
  by (simp add: ListFind_def)

lemma ListDestroy_loop_inv:
  assumes "list_inv h l xs ys"
  shows "\<exists>h' l' ys'. ListDestroy_loop h l (hd (xs @ [ltail l])) freeItem = Some (h', l') \<and>
           list_inv h' l' [] ys' \<and> same_list l l' \<and> itm h' = itm h \<and>
           live h' - set ys' = live h - (set xs \<union> set ys) \<and>
           free_calls h' = free_calls h @
             (if freeItem \<and> free_func l \<noteq> NULL then map (\<lambda>x. (free_func l, itm h x)) xs else [])"
  using assms
proof (induction xs arbitrary: h l ys)
  case Nil
  then show ?case
    by (subst ListDestroy_loop.simps) (auto simp: same_list_def)
next
  case (Cons x xs)
  obtain h1 list1 r where d: "ListDelNode h (Some l) x freeItem = (h1, list1, r)"
    by (cases "ListDelNode h (Some l) x freeItem") auto
  from ListDelNode_inv [of h l "[]" x xs ys freeItem h1 list1 r] Cons.prems d
  obtain l1 ys1 where i: "list1 = Some l1" "same_list l l1" "list_inv h1 l1 xs ys1" "itm h1 = itm h"
      "live h1 - set ys1 = live h - insert x (set ys)"
      "free_calls h1 = free_calls h @
         (if freeItem \<and> free_func l \<noteq> NULL then [(free_func l, itm h x)] else [])"
    by (auto split: if_splits)
  from Cons.IH [OF i(3)] obtain h2 l2 ys2 where j:
      "ListDestroy_loop h1 l1 (hd (xs @ [ltail l1])) freeItem = Some (h2, l2)"
      "list_inv h2 l2 [] ys2" "same_list l1 l2" "itm h2 = itm h1"
      "live h2 - set ys2 = live h1 - (set xs \<union> set ys1)"
      "free_calls h2 = free_calls h1 @
         (if freeItem \<and> free_func l1 \<noteq> NULL then map (\<lambda>x. (free_func l1, itm h1 x)) xs else [])"
    by blast
  have "x \<noteq> ltail l" "nxt h x = hd (xs @ [ltail l])"
    using Cons.prems list_inv_nxt(1) [of h l "[]" x xs ys] by (auto simp: list_inv_def)
  then have "ListDestroy_loop h l x freeItem = Some (h2, l2)"
    using d i(1,2) j(1) by (subst ListDestroy_loop.simps) (simp add: same_list_def)
  moreover have "live h2 - set ys2 = live h - (set (x # xs) \<union> set ys)"
    using i(5) j(5) by auto
  ultimately show ?case
    using i(2,4,6) j(2-4,6) by (intro exI [of _ h2] exI [of _ l2] exI [of _ ys2])
      (auto simp: same_list_def)
qed

section \<open>The contract of a node sequence\<close>

text \<open>
  What the clients of the list (the job queues of the thread pool, the event
  queue of the timer, the header list of an HTTP message) rely on: a state
  that represents a sequence of items, appending that either adds the item at
  the end or leaves the sequence alone, and taking out the first item.
\<close>

fun push_all :: "('s \<Rightarrow> 'a \<Rightarrow> 's \<times> bool) \<Rightarrow> 's \<Rightarrow> 'a list \<Rightarrow> 's option" where
  "push_all add s [] = Some s"
| "push_all add s (x # xs) = (case add s x of (s', ok) \<Rightarrow> if ok then push_all add s' xs else None)"

fun drain :: "('s \<Rightarrow> 's \<times> 'a) \<Rightarrow> nat \<Rightarrow> 's \<Rightarrow> 'a list \<times> 's" where
  "drain pop 0 s = ([], s)"
| "drain pop (Suc n) s =
     (case pop s of (s', x) \<Rightarrow> case drain pop n s' of (xs, s'') \<Rightarrow> (x # xs, s''))"

locale node_sequence =
  fixes repr :: "'s \<Rightarrow> 'a list \<Rightarrow> bool"
    and add_tail :: "'s \<Rightarrow> 'a \<Rightarrow> 's \<times> bool"
    and pop_head :: "'s \<Rightarrow> 's \<times> 'a"
  assumes add_tail_ok: "repr s xs \<Longrightarrow> add_tail s x = (s', True) \<Longrightarrow> repr s' (xs @ [x])"
    and add_tail_failed: "repr s xs \<Longrightarrow> add_tail s x = (s', False) \<Longrightarrow> repr s' xs"
    and pop_head_ok: "repr s (x # xs) \<Longrightarrow> \<exists>s'. pop_head s = (s', x) \<and> repr s' xs"
begin

lemma push_all_repr: "repr s xs \<Longrightarrow> push_all add_tail s zs = Some s' \<Longrightarrow> repr s' (xs @ zs)"
proof (induction zs arbitrary: s xs)
  case Nil
  then show ?case by simp
next
  case (Cons z zs)
  then obtain s1 where s1: "add_tail s z = (s1, True)" "push_all add_tail s1 zs = Some s'"
    by (auto split: prod.splits if_splits)
  then have "repr s1 (xs @ [z])"
    using Cons.prems(1) add_tail_ok by blast
  then have "repr s' ((xs @ [z]) @ zs)"
    using s1(2) by (rule Cons.IH)
  then show ?case by simp
qed

lemma drain_repr:
  "repr s (xs @ ys) \<Longrightarrow> \<exists>s'. drain pop_head (length xs) s = (xs, s') \<and> repr s' ys"
proof (induction xs arbitrary: s)
  case Nil
  then show ?case by simp
next
  case (Cons x xs)
  then obtain s1 where s1: "pop_head s = (s1, x)" "repr s1 (xs @ ys)"
    using pop_head_ok [of s x "xs @ ys"] by auto
  then show ?case
    using Cons.IH [of s1] by auto
qed

lemma fifo:
  assumes "repr s xs" and "push_all add_tail s zs = Some s'"
  shows "\<exists>s''. drain pop_head (length xs + length zs) s' = (xs @ zs, s'') \<and> repr s'' []"
  using drain_repr [of s' "xs @ zs" "[]"] push_all_repr [OF assms] by simp

end

text \<open>
  The pointer list as such a sequence. \<open>list_pop\<close> is the pattern of the
  clients: \<open>ListHead\<close>, read the item, \<open>ListDelNode\<close> without freeing the item.
\<close>

definition list_repr :: "heap \<times> linked_list \<Rightarrow> addr list \<Rightarrow> bool" where
  "list_repr s items \<longleftrightarrow>
     (\<exists>xs ys. list_inv (fst s) (snd s) xs ys \<and> map (itm (fst s)) xs = items)"

definition list_push :: "heap \<times> linked_list \<Rightarrow> addr \<Rightarrow> (heap \<times> linked_list) \<times> bool" where
  "list_push s item =
     (case ListAddTail (fst s) (Some (snd s)) item of
        (h', list', n) \<Rightarrow> ((h', the list'), n \<noteq> NULL))"

definition list_pop :: "heap \<times> linked_list \<Rightarrow> (heap \<times> linked_list) \<times> addr" where
  "list_pop s =
     (case ListDelNode (fst s) (Some (snd s)) (ListHead (fst s) (Some (snd s))) False of
        (h', list', item) \<Rightarrow> ((h', the list'), item))"

lemma ListAddTail_inv:
  assumes "list_inv h l xs ys" and "ListAddTail h (Some l) item = (h', list', n)"
  shows "\<exists>l' ys'. list' = Some l' \<and> same_list l l' \<and> free_calls h' = free_calls h \<and>
           (\<forall>x. x \<noteq> n \<longrightarrow> itm h' x = itm h x) \<and>
           (if n = NULL then list_inv h' l' xs ys'
            else list_inv h' l' (xs @ [n]) ys' \<and> itm h' n = item \<and> n \<notin> set xs)"
proof -
  have "ListAddBefore h (Some l) item (ltail l) = (h', list', n)"
    using assms(2) by (simp add: ListAddTail_def)
  from ListAddBefore_inv [of h l xs "[]" ys "ltail l", OF _ _ this] assms(1) show ?thesis
    unfolding append_Nil2 append_Nil list.sel by blast
qed

lemma list_push_repr:
  assumes "list_repr s items" and "list_push s item = (s', ok)"
  shows "list_repr s' (if ok then items @ [item] else items)"
proof -
  obtain h l where s: "s = (h, l)"
    by (cases s)
  obtain h' list' n where r: "ListAddTail h (Some l) item = (h', list', n)"
    by (cases "ListAddTail h (Some l) item") auto
  obtain xs ys where i: "list_inv h l xs ys" "map (itm h) xs = items"
    using assms(1) s by (auto simp: list_repr_def)
  then have z: "NULL \<notin> set xs"
    by (simp add: list_inv_def)
  from ListAddTail_inv [OF i(1) r] obtain l' ys' where l': "list' = Some l'"
      "\<forall>x. x \<noteq> n \<longrightarrow> itm h' x = itm h x"
      "if n = NULL then list_inv h' l' xs ys'
       else list_inv h' l' (xs @ [n]) ys' \<and> itm h' n = item \<and> n \<notin> set xs"
    by blast
  have s': "s' = (h', l')" "ok = (n \<noteq> NULL)"
    using assms(2) s r l'(1) by (auto simp: list_push_def)
  have "itm h' x = itm h x" if "x \<in> set xs" for x
    using that l'(2,3) z by (cases "x = n") (auto split: if_splits)
  then have "map (itm h') xs = items"
    using i(2) by auto
  then show ?thesis
    using l'(3) s' unfolding list_repr_def
    by (cases "n = NULL") (auto intro: exI [of _ xs] exI [of _ "xs @ [n]"])
qed

lemma list_pop_repr:
  assumes "list_repr s (item # items)"
  shows "\<exists>s'. list_pop s = (s', item) \<and> list_repr s' items"
proof -
  obtain h l where s: "s = (h, l)"
    by (cases s)
  obtain x xs ys where i: "list_inv h l (x # xs) ys" "itm h x = item" "map (itm h) xs = items"
    using assms s by (auto simp: list_repr_def Cons_eq_map_conv map_eq_Cons_conv)
  obtain h' list' r where d: "ListDelNode h (Some l) x False = (h', list', r)"
    by (cases "ListDelNode h (Some l) x False") auto
  from ListDelNode_inv [of h l "[]" x xs ys False h' list' r] i(1) d
  obtain l' ys' where l': "list' = Some l'" "list_inv h' l' xs ys'" "itm h' = itm h" "r = itm h x"
    by auto
  then show ?thesis
    using i d s ListHead_inv [OF i(1)] by (auto simp: list_pop_def list_repr_def)
qed

interpretation jobq: node_sequence list_repr list_push list_pop
proof unfold_locales
  show "list_repr s' (xs @ [x])" if "list_repr s xs" "list_push s x = (s', True)" for s xs x s'
    using list_push_repr [OF that] by simp
  show "list_repr s' xs" if "list_repr s xs" "list_push s x = (s', False)" for s xs x s'
    using list_push_repr [OF that] by simp
  show "\<exists>s'. list_pop s = (s', x) \<and> list_repr s' xs" if "list_repr s (x # xs)" for s x xs
    using that by (rule list_pop_repr)
qed

section \<open>Properties\<close>

text \<open>
  Property C21. The pointer list is a first-in first-out queue for its clients:
  whatever it held, after a series of successful \<open>ListAddTail\<close> calls, taking the
  head node out again and again yields exactly the old items followed by the
  added ones, in order, and leaves a well-formed empty list.
\<close>

theorem linked_list_fifo:
  assumes "list_repr s items" and "push_all list_push s added = Some s'"
  shows "\<exists>s''. drain list_pop (length items + length added) s' = (items @ added, s'') \<and>
           list_repr s'' []"
  using assms by (rule jobq.fifo)

definition demo_heap :: heap where
  "demo_heap = \<lparr>word0 = (\<lambda>_. 0), nxt = (\<lambda>_. 0), itm = (\<lambda>_. 0), live = {1, 2},
     mallocs = [10, 11, 12], bad_free = False, free_calls = []\<rparr>"

definition demo_list :: linked_list where
  "demo_list = \<lparr>lhead = 1, ltail = 2, lsize = 7, freeNodeList = \<lparr>fl_head = 9, element_size = 0,
     maxFreeListLength = 0, freeListLength = 3\<rparr>, free_func = 0, cmp_func = None\<rparr>"

definition demo_state :: "heap \<times> linked_list" where
  "demo_state = (case ListInit demo_heap (Some demo_list) None 5 of (h, l, _) \<Rightarrow> (h, the l))"

lemma demo_inv: "list_inv (fst demo_state) (snd demo_state) [] []"
  by (simp add: demo_state_def demo_heap_def demo_list_def ListInit_def FreeListInit_def Let_def
      list_inv_def free_list_inv_def FREELISTSIZE_def)

lemmas demo_simps = demo_state_def demo_heap_def demo_list_def ListInit_def FreeListInit_def
  list_push_def list_pop_def ListAddTail_def ListAddBefore_def CreateListNode_def FreeListAlloc_def
  malloc_def FREELISTSIZE_def

definition demo_state2 :: "heap \<times> linked_list" where
  "demo_state2 = fst (list_push (fst (list_push demo_state 70)) 80)"

lemma demo_inv2: "list_inv (fst demo_state2) (snd demo_state2) [10, 11] []"
  by (simp add: demo_state2_def demo_simps list_inv_def free_list_inv_def)

lemma demo_push: "\<exists>s'. push_all list_push demo_state [70, 80] = Some s'"
  by (simp add: demo_simps)

theorem linked_list_fifo_witness:
  "\<exists>s' s''. push_all list_push demo_state [70, 80] = Some s' \<and>
     drain list_pop 2 s' = ([70, 80], s'') \<and> list_repr s'' []"
proof -
  have "list_repr demo_state []"
    using demo_inv by (auto simp: list_repr_def)
  moreover obtain s' where "push_all list_push demo_state [70, 80] = Some s'"
    using demo_push by blast
  ultimately show ?thesis
    using linked_list_fifo [of demo_state "[]" "[70, 80]" s'] by (simp add: numeral_2_eq_2)
qed

text \<open>
  Property C35. \<open>ListDestroy\<close> returns on every well-formed list. It gives every node
  back to the allocator exactly once (the nodes of the list and those waiting
  in its free list, and nothing else), runs the free function on each item in
  list order when that is asked for, and leaves the size 0.
\<close>

theorem ListDestroy_releases:
  assumes "list_inv h l xs ys"
  shows "\<exists>h' l'. ListDestroy h (Some l) freeItem = Some (h', Some l', 0) \<and>
           live h' = live h - (set xs \<union> set ys) \<and> \<not> bad_free h' \<and> lsize l' = 0 \<and>
           free_calls h' = free_calls h @
             (if freeItem \<and> free_func l \<noteq> NULL then map (\<lambda>x. (free_func l, itm h x)) xs else [])"
proof -
  have first: "nxt h (lhead l) = hd (xs @ [ltail l])"
    using assms by (rule list_inv_first)
  obtain h1 l1 ys1 where r: "ListDestroy_loop h l (hd (xs @ [ltail l])) freeItem = Some (h1, l1)"
      "list_inv h1 l1 [] ys1" "live h1 - set ys1 = live h - (set xs \<union> set ys)"
      "free_calls h1 = free_calls h @
         (if freeItem \<and> free_func l \<noteq> NULL then map (\<lambda>x. (free_func l, itm h x)) xs else [])"
    using ListDestroy_loop_inv [OF assms, of freeItem] by blast
  then have "FreeListDestroy_loop h1 (freeNodeList l1) =
      Some (h1\<lparr>live := live h1 - set ys1\<rparr>, (freeNodeList l1)\<lparr>fl_head := NULL\<rparr>)"
    by (intro FreeListDestroy_loop_ok) (auto simp: list_inv_def free_list_inv_def)
  moreover have "\<not> bad_free h1"
    using r(2) by (simp add: list_inv_def)
  ultimately show ?thesis
    using r first by (simp add: ListDestroy_def FreeListDestroy_def)
qed

theorem ListDestroy_releases_witness:
  "\<exists>h' l'. ListDestroy (fst demo_state2) (Some (snd demo_state2)) True = Some (h', Some l', 0) \<and>
     live h' = {1, 2} \<and> \<not> bad_free h' \<and> free_calls h' = [(5, 70), (5, 80)]"
proof -
  have "live (fst demo_state2) - {10, 11} = {1, 2}" "free_calls (fst demo_state2) = []"
    "free_func (snd demo_state2) = 5" "itm (fst demo_state2) 10 = 70" "itm (fst demo_state2) 11 = 80"
    by (auto simp: demo_state2_def demo_simps)
  then show ?thesis
    using ListDestroy_releases [OF demo_inv2, of True] by auto
qed

text \<open>
  \<open>ListAddBefore\<close> puts the new item directly in front of the chosen
  node (or at the end, for the tail sentinel) and keeps every other item and
  the order; deleting the new node restores the old sequence of nodes and
  returns the item.
\<close>

lemma ListAddBefore_ListDelNode:
  assumes "list_inv h l (as @ bs) ys" and "anode = hd (bs @ [ltail l])"
    and "ListAddBefore h (Some l) item anode = (h', Some l', n)" and "n \<noteq> NULL"
  shows "(\<exists>ys'. list_inv h' l' (as @ n # bs) ys') \<and>
         map (itm h') (as @ n # bs) = map (itm h) as @ item # map (itm h) bs \<and>
         (\<exists>h'' l'' ys''. ListDelNode h' (Some l') n False = (h'', Some l'', item) \<and>
            list_inv h'' l'' (as @ bs) ys'' \<and> map (itm h'') (as @ bs) = map (itm h) (as @ bs))"
proof -
  obtain ys' where i: "list_inv h' l' (as @ n # bs) ys'" "itm h' n = item" "n \<notin> set (as @ bs)"
      "\<forall>x. x \<noteq> n \<longrightarrow> itm h' x = itm h x"
    using ListAddBefore_inv [OF assms(1,2,3)] assms(4) by auto
  then have m: "map (itm h') (as @ bs) = map (itm h) (as @ bs)"
    by auto
  obtain h'' list'' r where d: "ListDelNode h' (Some l') n False = (h'', list'', r)"
    by (cases "ListDelNode h' (Some l') n False") auto
  then obtain l'' ys'' where "list'' = Some l''" "list_inv h'' l'' (as @ bs) ys''" "itm h'' = itm h'"
      "r = item"
    using ListDelNode_inv [OF i(1) d] i(2) by auto
  then show ?thesis
    using d i m by (intro conjI exI [of _ ys'] exI [of _ h''] exI [of _ l''] exI [of _ ys'']) auto
qed

text \<open>
  \<open>ListFind\<close> from the head returns for every well-formed list: it is the
  first node whose item the comparison function accepts (pointer equality
  when there is none), and NULL exactly when no item is accepted.
\<close>

lemma ListFind_first_match:
  assumes "list_inv h l xs ys"
  shows "\<exists>n. ListFind h (Some l) NULL item = Some n \<and>
           (if n = NULL then \<forall>x\<in>set xs. \<not> item_matches l item (itm h x)
            else \<exists>as bs. xs = as @ n # bs \<and> item_matches l item (itm h n) \<and>
                   (\<forall>x\<in>set as. \<not> item_matches l item (itm h x)))"
proof (cases "find (\<lambda>x. item_matches l item (itm h x)) xs")
  case None
  then have "ListFind h (Some l) NULL item = Some NULL"
    using ListFind_inv [OF assms, of item] by simp
  then show ?thesis
    using None by (simp add: find_None_iff)
next
  case (Some n)
  then obtain i where i: "i < length xs" "item_matches l item (itm h (xs ! i))" "n = xs ! i"
      "\<forall>j<i. \<not> item_matches l item (itm h (xs ! j))"
    by (auto simp: find_Some_iff)
  have "xs = take i xs @ n # drop (Suc i) xs"
    using i(1,3) by (simp add: id_take_nth_drop)
  moreover have "\<forall>x\<in>set (take i xs). \<not> item_matches l item (itm h x)"
    using i(4) by (auto simp: in_set_conv_nth)
  moreover have "n \<noteq> NULL"
  proof -
    have "n \<in> set xs"
      using i(1,3) by simp
    then show ?thesis
      using assms by (auto simp: list_inv_def)
  qed
  ultimately show ?thesis
    using ListFind_inv [OF assms, of item] Some i(2,3) by auto
qed

end
