(* ===== verification/Membuffer.thy ===== *)
theory Membuffer
  imports Prelude
begin

text \<open>
  The growing byte buffer of \<^verbatim>\<open>compa/src/genlib/util/membuffer.cpp\<close>. The
  memory behind \<open>buf\<close> is a list of bytes, so that every \<open>memcpy\<close>, \<open>memmove\<close> and
  store is checked against its bounds: an operation whose result is \<open>None\<close> would
  have touched memory outside its block. All sizes are \<open>size_t\<close> and wrap.
  The contract that clients use is the locale \<open>byte_string\<close>.
\<close>

record membuffer =
  buf :: "string option"
  mlength :: nat
  capacity :: nat
  size_inc :: nat

definition MEMBUF_DEF_SIZE_INC :: nat where
  "MEMBUF_DEF_SIZE_INC = 5"

definition UPNP_E_OUTOF_MEMORY :: int where
  "UPNP_E_OUTOF_MEMORY = -104"

definition UPNP_E_OUTOF_BOUNDS :: int where
  "UPNP_E_OUTOF_BOUNDS = -506"

section \<open>Memory blocks\<close>

definition realloc_block :: "string option \<Rightarrow> nat \<Rightarrow> (nat \<Rightarrow> char) \<Rightarrow> string" where
  "realloc_block b n g =
     (let old = (case b of None \<Rightarrow> [] | Some bs \<Rightarrow> bs)
      in take n old @ map g [length old..<n])"

definition blk_write :: "nat \<Rightarrow> string \<Rightarrow> string option \<Rightarrow> string option option" where
  "blk_write i xs b =
     (if xs = [] then Some b
      else case b of
        None \<Rightarrow> None
      | Some bs \<Rightarrow>
          if i + length xs \<le> length bs
          then Some (Some (take i bs @ xs @ drop (i + length xs) bs)) else None)"

definition blk_read :: "nat \<Rightarrow> nat \<Rightarrow> string option \<Rightarrow> string option" where
  "blk_read i n b =
     (if n = 0 then Some []
      else case b of
        None \<Rightarrow> None
      | Some bs \<Rightarrow> if i + n \<le> length bs then Some (take n (drop i bs)) else None)"

definition memmove :: "nat \<Rightarrow> nat \<Rightarrow> nat \<Rightarrow> string option \<Rightarrow> string option option" where
  "memmove dst src n b =
     (case blk_read src n b of None \<Rightarrow> None | Some xs \<Rightarrow> blk_write dst xs b)"

section \<open>Operations\<close>

definition str_alloc :: "alloc_script \<Rightarrow> string \<Rightarrow> nat \<Rightarrow> (alloc_script \<times> string option) option" where
  "str_alloc ms str str_len =
     (case next_alloc ms of
        (None, ms') \<Rightarrow> Some (ms', None)
      | (Some g, ms') \<Rightarrow>
          let s = realloc_block None (sz_add str_len 1) g in
          (case blk_read 0 str_len (Some str) of
             None \<Rightarrow> None
           | Some xs \<Rightarrow>
               (case blk_write 0 xs (Some s) of
                  None \<Rightarrow> None
                | Some s1 \<Rightarrow>
                    (case blk_write str_len [NUL] s1 of
                       None \<Rightarrow> None
                     | Some s2 \<Rightarrow> Some (ms', s2)))))"

definition memptr_cmp :: "string \<Rightarrow> nat \<Rightarrow> string \<Rightarrow> int" where
  "memptr_cmp mbuf mlen s =
     (let cmp = strncmp_sgn mlen mbuf s in
      if cmp = 0 \<and> mlen < length (c_str s) then -1 else cmp)"

definition memptr_cmp_nocase :: "string \<Rightarrow> nat \<Rightarrow> string \<Rightarrow> int" where
  "memptr_cmp_nocase mbuf mlen s =
     (let cmp = strncasecmp_sgn mlen mbuf s in
      if cmp = 0 \<and> mlen < length (c_str s) then -1 else cmp)"

definition membuffer_initialize :: "membuffer \<Rightarrow> membuffer" where
  "membuffer_initialize m = m\<lparr>buf := None, mlength := 0, capacity := 0\<rparr>"

definition membuffer_set_size ::
    "alloc_script \<Rightarrow> membuffer \<Rightarrow> nat \<Rightarrow> alloc_script \<times> membuffer \<times> int" where
  "membuffer_set_size ms m new_length =
     (let alloc_len =
        (if mlength m \<le> new_length then
           (if new_length \<le> capacity m then None
            else Some (sz_add (max (size_inc m) (sz_sub new_length (mlength m))) (capacity m)))
         else
           (if sz_sub (capacity m) new_length \<le> size_inc m then None
            else Some (sz_add new_length (size_inc m))))
      in case alloc_len of
           None \<Rightarrow> (ms, m, 0)
         | Some al \<Rightarrow>
             (case next_alloc ms of
                (Some g, ms1) \<Rightarrow>
                  (ms1, m\<lparr>buf := Some (realloc_block (buf m) (sz_add al 1) g), capacity := al\<rparr>, 0)
              | (None, ms1) \<Rightarrow>
                  (case next_alloc ms1 of
                     (Some g, ms2) \<Rightarrow>
                       (ms2, m\<lparr>buf := Some (realloc_block (buf m) (sz_add new_length 1) g),
                               capacity := new_length\<rparr>, 0)
                   | (None, ms2) \<Rightarrow> (ms2, m, UPNP_E_OUTOF_MEMORY))))"

definition membuffer_init :: "membuffer \<Rightarrow> membuffer" where
  "membuffer_init m = membuffer_initialize (m\<lparr>size_inc := MEMBUF_DEF_SIZE_INC\<rparr>)"

definition membuffer_destroy :: "membuffer \<Rightarrow> membuffer" where
  "membuffer_destroy m = membuffer_init m"

definition membuffer_assign ::
    "alloc_script \<Rightarrow> membuffer \<Rightarrow> string option \<Rightarrow> nat \<Rightarrow>
     (alloc_script \<times> membuffer \<times> int) option" where
  "membuffer_assign ms m src buf_len =
     (case src of
        None \<Rightarrow> Some (ms, membuffer_destroy m, 0)
      | Some bs \<Rightarrow>
          (case membuffer_set_size ms m buf_len of
             (ms1, m1, return_code) \<Rightarrow>
               if return_code \<noteq> 0 then Some (ms1, m1, return_code)
               else if buf_len \<noteq> 0 then
                 (case blk_read 0 buf_len (Some bs) of
                    None \<Rightarrow> None
                  | Some xs \<Rightarrow>
                      (case blk_write 0 xs (buf m1) of
                         None \<Rightarrow> None
                       | Some b1 \<Rightarrow>
                           (case blk_write buf_len [NUL] b1 of
                              None \<Rightarrow> None
                            | Some b2 \<Rightarrow> Some (ms1, m1\<lparr>buf := b2, mlength := buf_len\<rparr>, 0))))
               else Some (ms1, m1\<lparr>mlength := buf_len\<rparr>, 0)))"

definition membuffer_assign_str ::
    "alloc_script \<Rightarrow> membuffer \<Rightarrow> string \<Rightarrow> (alloc_script \<times> membuffer \<times> int) option" where
  "membuffer_assign_str ms m s = membuffer_assign ms m (Some s) (length (c_str s))"

definition membuffer_insert ::
    "alloc_script \<Rightarrow> membuffer \<Rightarrow> string option \<Rightarrow> nat \<Rightarrow> nat \<Rightarrow>
     (alloc_script \<times> membuffer \<times> int) option" where
  "membuffer_insert ms m src buf_len index =
     (if mlength m < index then Some (ms, m, UPNP_E_OUTOF_BOUNDS)
      else if src = None \<or> buf_len = 0 then Some (ms, m, 0)
      else
        (case membuffer_set_size ms m (sz_add (mlength m) buf_len) of
           (ms1, m1, return_code) \<Rightarrow>
             if return_code \<noteq> 0 then Some (ms1, m1, return_code)
             else
               (case memmove (index + buf_len) index (sz_sub (mlength m1) index) (buf m1) of
                  None \<Rightarrow> None
                | Some b1 \<Rightarrow>
                    (case blk_read 0 buf_len src of
                       None \<Rightarrow> None
                     | Some xs \<Rightarrow>
                         (case blk_write index xs b1 of
                            None \<Rightarrow> None
                          | Some b2 \<Rightarrow>
                              let len = sz_add (mlength m1) buf_len in
                              (case blk_write len [NUL] b2 of
                                 None \<Rightarrow> None
                               | Some b3 \<Rightarrow> Some (ms1, m1\<lparr>buf := b3, mlength := len\<rparr>, 0)))))))"

definition membuffer_append ::
    "alloc_script \<Rightarrow> membuffer \<Rightarrow> string option \<Rightarrow> nat \<Rightarrow>
     (alloc_script \<times> membuffer \<times> int) option" where
  "membuffer_append ms m src buf_len = membuffer_insert ms m src buf_len (mlength m)"

definition membuffer_append_str ::
    "alloc_script \<Rightarrow> membuffer \<Rightarrow> string \<Rightarrow> (alloc_script \<times> membuffer \<times> int) option" where
  "membuffer_append_str ms m s =
     membuffer_insert ms m (Some s) (length (c_str s)) (mlength m)"

definition membuffer_delete ::
    "alloc_script \<Rightarrow> membuffer \<Rightarrow> nat \<Rightarrow> nat \<Rightarrow> (alloc_script \<times> membuffer) option" where
  "membuffer_delete ms m index num_bytes =
     (if mlength m = 0 then Some (ms, m)
      else
        (let beyond = mlength m < sz_add index num_bytes;
             num = (if beyond then sz_sub (mlength m) index else num_bytes);
             copy_len = (if beyond then 0 else sz_sub (mlength m) (sz_add index num_bytes))
         in case memmove index (index + num) copy_len (buf m) of
              None \<Rightarrow> None
            | Some b1 \<Rightarrow>
                let new_length = sz_sub (mlength m) num in
                (case membuffer_set_size ms (m\<lparr>buf := b1\<rparr>) new_length of
                   (ms1, m1, return_value) \<Rightarrow>
                     if return_value \<noteq> 0 then Some (ms1, m1)
                     else
                       (case blk_write new_length [NUL] (buf m1) of
                          None \<Rightarrow> None
                        | Some b2 \<Rightarrow> Some (ms1, m1\<lparr>buf := b2, mlength := new_length\<rparr>)))))"

definition membuffer_detach :: "membuffer \<Rightarrow> membuffer \<times> string option" where
  "membuffer_detach m = (membuffer_initialize m, buf m)"

definition membuffer_attach :: "membuffer \<Rightarrow> string option \<Rightarrow> nat \<Rightarrow> membuffer" where
  "membuffer_attach m new_buf buf_len =
     (membuffer_destroy m)\<lparr>buf := new_buf, mlength := buf_len, capacity := buf_len\<rparr>"

section \<open>Contents and invariant\<close>

definition contents :: "membuffer \<Rightarrow> string" where
  "contents m = (case buf m of None \<Rightarrow> [] | Some bs \<Rightarrow> take (mlength m) bs)"

definition SIZE_LIMIT :: nat where
  "SIZE_LIMIT = 2 ^ 62"

definition mb_inv :: "membuffer \<Rightarrow> bool" where
  "mb_inv m \<longleftrightarrow>
     mlength m \<le> capacity m \<and> capacity m < SIZE_LIMIT \<and> 0 < size_inc m \<and> size_inc m < SIZE_LIMIT \<and>
     (case buf m of None \<Rightarrow> capacity m = 0 | Some bs \<Rightarrow> capacity m < length bs)"

definition terminated :: "membuffer \<Rightarrow> bool" where
  "terminated m \<longleftrightarrow>
     (case buf m of None \<Rightarrow> True | Some bs \<Rightarrow> mlength m < length bs \<and> bs ! mlength m = NUL)"

definition block :: "membuffer \<Rightarrow> string" where
  "block m = (case buf m of None \<Rightarrow> [] | Some bs \<Rightarrow> bs)"

lemma contents_block: "contents m = take (mlength m) (block m)"
  by (simp add: contents_def block_def split: option.splits)

lemma SIZE_LIMIT_less [simp]: "SIZE_LIMIT < SIZE_MOD" "n < SIZE_LIMIT \<Longrightarrow> n < SIZE_MOD"
  "n < SIZE_LIMIT \<Longrightarrow> sz_add n 1 = Suc n" "n < SIZE_LIMIT \<Longrightarrow> sz_add n (Suc 0) = Suc n"
  by (simp_all add: SIZE_LIMIT_def SIZE_MOD_def sz_add_def)

lemma length_realloc_block [simp]: "length (realloc_block b n g) = n"
  by (simp add: realloc_block_def Let_def split: option.splits)

lemma take_realloc_block:
  "k \<le> n \<Longrightarrow> k \<le> length (block m) \<Longrightarrow> take k (realloc_block (buf m) n g) = take k (block m)"
  by (cases "buf m") (auto simp: realloc_block_def block_def Let_def)

text \<open>
  What the size change guarantees: room for the new length, the old bytes up to
  it unchanged; or, when the allocator refuses twice, an untouched buffer.
\<close>

definition fits :: "membuffer \<Rightarrow> nat \<Rightarrow> bool" where
  "fits m n \<longleftrightarrow> n \<le> capacity m \<and> capacity m < SIZE_LIMIT \<and>
     (case buf m of None \<Rightarrow> capacity m = 0 | Some bs \<Rightarrow> capacity m < length bs)"

lemma set_size_realloc:
  assumes "mb_inv m" and "n \<le> al" and "al < SIZE_LIMIT"
  shows "fits (m\<lparr>buf := Some (realloc_block (buf m) (sz_add al 1) g), capacity := al\<rparr>) n \<and>
         (\<forall>k. k \<le> mlength m \<longrightarrow> k \<le> n \<longrightarrow>
            take k (block (m\<lparr>buf := Some (realloc_block (buf m) (sz_add al 1) g), capacity := al\<rparr>))
              = take k (block m))"
proof -
  have "mlength m \<le> length (block m)"
    using assms(1) by (auto simp: mb_inv_def block_def split: option.splits)
  then have "take k (realloc_block (buf m) (Suc al) g) = take k (block m)" if "k \<le> mlength m" "k \<le> n" for k
    using that assms(2) by (intro take_realloc_block) auto
  then show ?thesis
    using assms by (simp add: fits_def) (simp add: block_def)
qed

lemma set_size_ok:
  assumes "mb_inv m" and "new_length + size_inc m + capacity m < SIZE_LIMIT"
    and "membuffer_set_size ms m new_length = (ms1, m1, rc)"
  shows "mlength m1 = mlength m" and "size_inc m1 = size_inc m"
    and "rc = 0 \<or> rc = UPNP_E_OUTOF_MEMORY \<and> m1 = m"
    and "rc = 0 \<Longrightarrow> fits m1 new_length"
    and "rc = 0 \<Longrightarrow> k \<le> mlength m \<Longrightarrow> k \<le> new_length \<Longrightarrow> take k (block m1) = take k (block m)"
    and "buf m \<noteq> None \<Longrightarrow> buf m1 \<noteq> None"
proof -
  define al where "al = (if mlength m \<le> new_length
      then max (size_inc m) (new_length - mlength m) + capacity m else new_length + size_inc m)"
  have al: "al < SIZE_LIMIT" "new_length \<le> al"
    using assms(1,2) by (auto simp: al_def mb_inv_def)
  have nl: "new_length < SIZE_LIMIT" "capacity m < SIZE_LIMIT" "mlength m \<le> capacity m"
    using assms(1,2) by (auto simp: mb_inv_def)
  consider (same) "ms1 = ms" "m1 = m" "rc = 0" "fits m new_length"
    | (grown) a g where "rc = 0" "new_length \<le> a" "a < SIZE_LIMIT"
        "m1 = m\<lparr>buf := Some (realloc_block (buf m) (sz_add a 1) g), capacity := a\<rparr>"
    | (failed) "rc = UPNP_E_OUTOF_MEMORY" "m1 = m"
  proof (cases "if mlength m \<le> new_length then new_length \<le> capacity m
                else capacity m - new_length \<le> size_inc m")
    case True
    then have "membuffer_set_size ms m new_length = (ms, m, 0)"
      using nl by (simp add: membuffer_set_size_def sz_sub_exact split: if_splits)
    moreover have "fits m new_length"
      using True nl assms(1) by (auto simp: fits_def mb_inv_def split: if_splits)
    ultimately show ?thesis
      using assms(3) same by simp
  next
    case False
    have "sz_add (max (size_inc m) (sz_sub new_length (mlength m))) (capacity m) = al"
      if "mlength m \<le> new_length"
      using that al(1) nl by (simp add: al_def sz_sub_exact sz_add_exact)
    moreover have "sz_add new_length (size_inc m) = al" if "\<not> mlength m \<le> new_length"
      using that al(1) by (simp add: al_def sz_add_exact)
    ultimately have "membuffer_set_size ms m new_length =
      (case next_alloc ms of
         (Some g, ms1) \<Rightarrow> (ms1, m\<lparr>buf := Some (realloc_block (buf m) (sz_add al 1) g), capacity := al\<rparr>, 0)
       | (None, ms1) \<Rightarrow>
           (case next_alloc ms1 of
              (Some g, ms2) \<Rightarrow>
                (ms2, m\<lparr>buf := Some (realloc_block (buf m) (sz_add new_length 1) g),
                        capacity := new_length\<rparr>, 0)
            | (None, ms2) \<Rightarrow> (ms2, m, UPNP_E_OUTOF_MEMORY)))"
      using False nl by (auto simp: membuffer_set_size_def Let_def sz_sub_exact split: if_splits)
    then show ?thesis
      using assms(3) al nl(1) grown [of al] grown [of new_length] failed by (auto split: prod.splits option.splits)
  qed
  note split3 = this
  have ne: "UPNP_E_OUTOF_MEMORY \<noteq> 0"
    by (simp add: UPNP_E_OUTOF_MEMORY_def)
  note grow = set_size_realloc [OF assms(1)]
  show "mlength m1 = mlength m"
    by (cases rule: split3) simp_all
  show "size_inc m1 = size_inc m"
    by (cases rule: split3) simp_all
  show "rc = 0 \<or> rc = UPNP_E_OUTOF_MEMORY \<and> m1 = m"
    by (cases rule: split3) simp_all
  show "fits m1 new_length" if "rc = 0"
    by (cases rule: split3) (use that ne grow in auto)
  show "take k (block m1) = take k (block m)" if "rc = 0" "k \<le> mlength m" "k \<le> new_length"
    by (cases rule: split3) (use that ne grow in auto)
  show "buf m1 \<noteq> None" if "buf m \<noteq> None"
    by (cases rule: split3) (use that in simp_all)
qed

lemma set_size_succeeds:
  assumes "fst (next_alloc ms) \<noteq> None"
  shows "snd (snd (membuffer_set_size ms m n)) = 0"
proof -
  obtain g ms' where "next_alloc ms = (Some g, ms')"
    using assms by (cases "next_alloc ms") auto
  then show ?thesis
    by (simp add: membuffer_set_size_def Let_def split: option.splits)
qed

lemma blk_write_ok:
  "i + length xs \<le> length bs \<Longrightarrow>
     blk_write i xs (Some bs) = Some (Some (take i bs @ xs @ drop (i + length xs) bs))"
  by (simp add: blk_write_def)

lemma blk_read_ok: "i + n \<le> length bs \<Longrightarrow> blk_read i n (Some bs) = Some (take n (drop i bs))"
  by (simp add: blk_read_def)

lemma memmove_ok:
  "s + n \<le> length bs \<Longrightarrow> d + n \<le> length bs \<Longrightarrow>
     memmove d s n (Some bs) = Some (Some (take d bs @ take n (drop s bs) @ drop (d + n) bs))"
  by (simp add: memmove_def blk_read_ok blk_write_ok)

lemmas blk_ok = blk_write_ok blk_read_ok memmove_ok

lemma fits_block:
  assumes "fits m n" and "0 < n \<or> buf m \<noteq> None"
  obtains bs where "buf m = Some bs" and "block m = bs" and "n < length bs"
  using assms that by (cases "buf m") (auto simp: fits_def block_def)

lemma mb_inv_updated:
  assumes "fits m1 n" and "mb_inv m" and "size_inc m1 = size_inc m" and "buf m1 = Some bs0"
    and "length bs = length bs0" and "bs ! n = NUL" and "n < length bs"
  shows "mb_inv (m1\<lparr>buf := Some bs, mlength := n\<rparr>)" and "terminated (m1\<lparr>buf := Some bs, mlength := n\<rparr>)"
  using assms by (auto simp: mb_inv_def fits_def terminated_def)

lemma take_length_prefix: "n = length (xs @ ys) \<Longrightarrow> take n (xs @ ys @ zs) = xs @ ys"
  by simp

lemma membuffer_insert_ok:
  assumes inv: "mb_inv m" and i: "index \<le> mlength m" and src: "buf_len \<le> length src" "0 < buf_len"
    and room: "mlength m + buf_len + size_inc m + capacity m < SIZE_LIMIT"
    and r: "membuffer_insert ms m (Some src) buf_len index = res"
  shows "\<exists>ms' m' rc. res = Some (ms', m', rc) \<and> size_inc m' = size_inc m \<and>
           (rc = UPNP_E_OUTOF_MEMORY \<and> m' = m \<or>
            rc = 0 \<and> mb_inv m' \<and> terminated m' \<and> mlength m' = mlength m + buf_len \<and>
            contents m' = take index (contents m) @ take buf_len src @ drop index (contents m))"
proof -
  let ?n = "mlength m + buf_len"
  have n: "sz_add (mlength m) buf_len = ?n"
    using room by (intro sz_add_exact) (simp add: SIZE_LIMIT_def SIZE_MOD_def)
  obtain ms1 m1 rc where s: "membuffer_set_size ms m ?n = (ms1, m1, rc)"
    by (cases "membuffer_set_size ms m ?n") auto
  note ok = set_size_ok [OF inv room s]
  show ?thesis
  proof (cases "rc = 0")
    case False
    then show ?thesis
      using r ok(1-3) s n i src by (auto simp: membuffer_insert_def)
  next
    case True
    obtain bs where bs: "buf m1 = Some bs" "block m1 = bs" "?n < length bs"
      using fits_block [OF ok(4) [OF True]] src(2) by auto
    have c: "take (mlength m) bs = contents m"
      using ok(5) [OF True, of "mlength m"] bs(2) by (simp add: contents_block)
    have sub: "sz_sub (mlength m) index = mlength m - index"
      using inv i by (intro sz_sub_exact) (auto simp: mb_inv_def)
    define b1 where "b1 = take (index + buf_len) bs @ take (mlength m - index) (drop index bs) @ drop ?n bs"
    define b2 where "b2 = take index b1 @ take buf_len src @ drop (index + buf_len) b1"
    define b3 where "b3 = take ?n b2 @ [NUL] @ drop (?n + 1) b2"
    have l1: "length b1 = length bs"
      using bs(3) i src by (simp add: b1_def)
    then have l2: "length b2 = length bs"
      using bs(3) i src by (simp add: b2_def)
    then have l3: "length b3 = length bs" "b3 ! ?n = NUL" "take ?n b3 = take ?n b2"
      using bs(3) by (simp_all add: b3_def nth_append)
    have e: "index + buf_len + (mlength m - index) = ?n"
      using i by simp
    have "memmove (index + buf_len) index (mlength m - index) (Some bs) = Some (Some
        (take (index + buf_len) bs @ take (mlength m - index) (drop index bs)
           @ drop (index + buf_len + (mlength m - index)) bs))"
      using bs(3) i by (intro memmove_ok) simp_all
    then have mv: "memmove (index + buf_len) index (mlength m - index) (buf m1) = Some (Some b1)"
      unfolding e bs(1) b1_def .
    have w2: "blk_write index (take buf_len src) (Some b1) = Some (Some b2)"
      using l1 bs(3) i src by (simp add: blk_write_ok b2_def)
    have w3: "blk_write ?n [NUL] (Some b2) = Some (Some b3)"
      using l2 bs(3) by (simp add: blk_write_ok b3_def)
    have rd: "blk_read 0 buf_len (Some src) = Some (take buf_len src)"
      using src by (simp add: blk_read_ok)
    have res: "res = Some (ms1, m1\<lparr>buf := Some b3, mlength := ?n\<rparr>, 0)"
      using r i src s n True ok(1) sub mv w2 w3 rd by (simp add: membuffer_insert_def Let_def)
    have t1: "take index b1 = take index bs" and d1: "drop (index + buf_len) (take ?n b1) = take (mlength m - index) (drop index bs)"
      using bs(3) i by (simp_all add: b1_def)
    have "take ?n b2 = take index bs @ take buf_len src @ take (mlength m - index) (drop index bs)"
      using bs(3) i src l1 t1 d1 by (simp add: b2_def drop_take)
    also have "\<dots> = take index (contents m) @ take buf_len src @ drop index (contents m)"
      using i by (simp add: c [symmetric] take_drop min_absorb1)
    finally have "take ?n b3 = take index (contents m) @ take buf_len src @ drop index (contents m)"
      by (simp only: l3(3))
    then show ?thesis
      using res mb_inv_updated [OF ok(4) [OF True] inv ok(2) bs(1) l3(1,2)] bs(3) l3(1) ok(2)
      by (simp add: contents_def)
  qed
qed

lemma membuffer_assign_ok:
  assumes inv: "mb_inv m" and src: "buf_len \<le> length src"
    and room: "buf_len + size_inc m + capacity m < SIZE_LIMIT"
    and r: "membuffer_assign ms m (Some src) buf_len = res"
  shows "\<exists>ms' m' rc. res = Some (ms', m', rc) \<and> size_inc m' = size_inc m \<and>
           (rc = UPNP_E_OUTOF_MEMORY \<and> m' = m \<or>
            rc = 0 \<and> mb_inv m' \<and> (0 < buf_len \<longrightarrow> terminated m') \<and> mlength m' = buf_len \<and>
            contents m' = take buf_len src)"
proof -
  obtain ms1 m1 rc where s: "membuffer_set_size ms m buf_len = (ms1, m1, rc)"
    by (cases "membuffer_set_size ms m buf_len") auto
  note ok = set_size_ok [OF inv room s]
  show ?thesis
  proof (cases "rc = 0 \<and> buf_len \<noteq> 0")
    case False
    have "mb_inv (m1\<lparr>mlength := 0\<rparr>)" if "rc = 0" "buf_len = 0"
      using ok(2) ok(4) [OF that(1)] inv by (cases "buf m1") (auto simp: fits_def mb_inv_def)
    moreover have "contents (m1\<lparr>mlength := 0\<rparr>) = []"
      by (simp add: contents_def split: option.splits)
    moreover have "res = Some (ms1, if rc = 0 then m1\<lparr>mlength := 0\<rparr> else m1, rc)"
      using r s False by (auto simp: membuffer_assign_def)
    ultimately show ?thesis
      using ok(2,3) False by (cases "rc = 0") auto
  next
    case True
    then obtain bs where bs: "buf m1 = Some bs" "block m1 = bs" "buf_len < length bs"
      using fits_block [OF ok(4)] by auto
    let ?b1 = "take buf_len src @ drop buf_len bs"
    let ?b2 = "take buf_len ?b1 @ [NUL] @ drop (buf_len + 1) ?b1"
    have l: "length ?b1 = length bs" "length ?b2 = length bs" "?b2 ! buf_len = NUL"
      using bs(3) src by (simp_all add: nth_append)
    have "blk_write 0 (take buf_len src) (Some bs) = Some (Some ?b1)"
      using bs(3) src by (simp add: blk_write_ok)
    moreover have "blk_write buf_len [NUL] (Some ?b1) = Some (Some ?b2)"
      using bs(3) l(1) by (simp add: blk_write_ok del: take_append drop_append)
    ultimately have res: "res = Some (ms1, m1\<lparr>buf := Some ?b2, mlength := buf_len\<rparr>, 0)"
      using r s True src bs(1)
      by (simp add: membuffer_assign_def blk_read_ok del: take_append drop_append)
    have "take buf_len ?b2 = take buf_len src"
      using src by simp
    then show ?thesis
      using res mb_inv_updated [OF ok(4) inv ok(2) bs(1) l(2,3)] bs(3) l(2) ok(2) True
      by (simp add: contents_def del: take_append drop_append append_Cons append_Nil)
  qed
qed

lemma membuffer_delete_ok:
  assumes inv: "mb_inv m" "terminated m" and i: "index \<le> mlength m" "index + num < SIZE_MOD"
    and room: "mlength m + size_inc m + capacity m < SIZE_LIMIT"
    and r: "membuffer_delete ms m index num = res"
  shows "\<exists>ms' m'. res = Some (ms', m') \<and> size_inc m' = size_inc m \<and> mb_inv m' \<and>
           (fst (next_alloc ms) \<noteq> None \<longrightarrow>
              terminated m' \<and> mlength m' = length (contents m') \<and>
              contents m' = take index (contents m) @ drop (index + num) (contents m))"
proof (cases "mlength m = 0")
  case True
  then have "contents m = []"
    by (simp add: contents_def split: option.splits)
  moreover have "res = Some (ms, m)"
    using r True by (simp add: membuffer_delete_def)
  ultimately show ?thesis
    using inv True by simp
next
  case False
  obtain bs0 where bs0: "buf m = Some bs0" "mlength m < length bs0" "capacity m < length bs0"
    using inv False by (cases "buf m") (auto simp: mb_inv_def)
  have lc: "length (contents m) = mlength m" and c0: "contents m = take (mlength m) bs0"
    using bs0 by (auto simp: contents_def)
  have le: "mlength m < SIZE_MOD"
    using inv by (auto simp: mb_inv_def)
  define k where "k = min num (mlength m - index)"
  define cl where "cl = mlength m - (index + k)"
  have b: "sz_add index num = index + num"
    using i(2) by (rule sz_add_exact)
  have num: "(if mlength m < sz_add index num then sz_sub (mlength m) index else num) = k"
    using b i(1) le by (auto simp: k_def sz_sub_exact)
  have cp: "(if mlength m < sz_add index num then 0 else sz_sub (mlength m) (sz_add index num)) = cl"
    using b i(1) le by (auto simp: k_def cl_def sz_sub_exact)
  let ?b1 = "take index bs0 @ take cl (drop (index + k) bs0) @ drop (index + cl) bs0"
  let ?n = "mlength m - k"
  have mv: "memmove index (index + k) cl (buf m) = Some (Some ?b1)"
    using bs0 i(1) by (simp add: memmove_ok cl_def k_def)
  have nl: "sz_sub (mlength m) k = ?n"
    using le by (intro sz_sub_exact) (auto simp: k_def)
  let ?m = "m\<lparr>buf := Some ?b1\<rparr>"
  have l1: "length ?b1 = length bs0"
    using bs0 i(1) by (auto simp: cl_def k_def)
  then have inv1: "mb_inv ?m"
    using inv bs0 by (simp add: mb_inv_def)
  obtain ms1 m1 rc where s: "membuffer_set_size ms ?m ?n = (ms1, m1, rc)"
    by (cases "membuffer_set_size ms ?m ?n") auto
  have room1: "?n + size_inc ?m + capacity ?m < SIZE_LIMIT"
    using room by simp
  note ok = set_size_ok [OF inv1 room1 s]
  have res0: "res = (if rc \<noteq> 0 then Some (ms1, m1)
      else case blk_write ?n [NUL] (buf m1) of None \<Rightarrow> None
           | Some b2 \<Rightarrow> Some (ms1, m1\<lparr>buf := b2, mlength := ?n\<rparr>))"
    using r False num cp mv nl s by (simp add: membuffer_delete_def Let_def del: append_assoc)
  show ?thesis
  proof (cases "rc = 0")
    case False
    then have "fst (next_alloc ms) = None"
      using set_size_succeeds [of ms ?m ?n] s by (cases "fst (next_alloc ms)") auto
    then show ?thesis
      using res0 ok(1-3) inv1 False by auto
  next
    case True
    obtain bs where bs: "buf m1 = Some bs" "block m1 = bs" "?n < length bs"
      using fits_block [OF ok(4) [OF True]] ok(6) by auto
    define b2 where "b2 = take ?n bs @ [NUL] @ drop (?n + 1) bs"
    have l: "length b2 = length bs" "b2 ! ?n = NUL" "take ?n b2 = take ?n bs"
      using bs(3) by (auto simp: b2_def nth_append)
    have res: "res = Some (ms1, m1\<lparr>buf := Some b2, mlength := ?n\<rparr>)"
      using res0 True bs(1,3) by (simp add: blk_write_ok b2_def)
    have "take ?n bs = take ?n ?b1"
      using ok(5) [OF True, of ?n] bs(2) by (simp add: block_def)
    also have "\<dots> = take index bs0 @ take cl (drop (index + k) bs0)"
    proof -
      have "?n = length (take index bs0 @ take cl (drop (index + k) bs0))"
      proof -
        have "length (take index bs0) = index" "length (take cl (drop (index + k) bs0)) = cl"
          using bs0(2) i(1) by (auto simp: cl_def k_def)
        moreover have "?n = index + cl"
          using i(1) by (auto simp: cl_def k_def)
        ultimately show ?thesis
          by (simp only: length_append)
      qed
      then show ?thesis
        by (rule take_length_prefix)
    qed
    also have "\<dots> = take index (contents m) @ drop (index + num) (contents m)"
    proof -
      have "drop (index + num) (contents m) = take (mlength m - (index + num)) (drop (index + num) bs0)"
        by (simp only: c0 drop_take)
      also have "\<dots> = take cl (drop (index + k) bs0)"
        by (cases "num \<le> mlength m - index") (simp_all add: cl_def k_def)
      finally show ?thesis
        using i(1) by (simp add: c0 min_absorb1)
    qed
    finally have cn: "take ?n b2 = take index (contents m) @ drop (index + num) (contents m)"
      by (simp only: l(3))
    have cm: "contents (m1\<lparr>buf := Some b2, mlength := ?n\<rparr>) = take ?n b2"
      by (simp add: contents_def)
    have ln: "length (take ?n b2) = ?n"
      using bs(3) l(1) by simp
    have inv': "mb_inv (m1\<lparr>buf := Some b2, mlength := ?n\<rparr>)" "terminated (m1\<lparr>buf := Some b2, mlength := ?n\<rparr>)"
      using mb_inv_updated [OF ok(4) [OF True] inv1 ok(2) bs(1) l(1,2)] bs(3) l(1) by auto
    show ?thesis
      by (intro exI [of _ ms1] exI [of _ "m1\<lparr>buf := Some b2, mlength := ?n\<rparr>"])
         (use res inv' ok(2) cm cn ln in simp)
  qed
qed


section \<open>The contract of a growing byte string\<close>

text \<open>
  A client that assembles a message appends piece after piece and gives up at
  the first error, as \<^verbatim>\<open>http_MakeMessage\<close> does. What it relies on is the
  law \<open>app\<close>: an append either adds exactly the given bytes or reports an error
  and leaves the bytes alone; \<open>cost\<close> bounds the memory in use.
\<close>

locale byte_string =
  fixes good :: "'b \<Rightarrow> bool"
    and view :: "'b \<Rightarrow> string"
    and cost :: "'b \<Rightarrow> nat"
    and step :: nat
    and limit :: nat
    and app :: "'b \<Rightarrow> string \<Rightarrow> 'b \<times> int"
  assumes app: "good b \<Longrightarrow> cost b + length s + step < limit \<Longrightarrow> app b s = (b', rc) \<Longrightarrow>
      good b' \<and> cost b' \<le> cost b + length s + step \<and>
      view b' = (if rc = 0 then view b @ s else view b)"
begin

fun appends :: "'b \<Rightarrow> string list \<Rightarrow> 'b \<times> int" where
  "appends b [] = (b, 0)"
| "appends b (s # ss) = (case app b s of (b', rc) \<Rightarrow> if rc = 0 then appends b' ss else (b', rc))"

lemma appends_prefix:
  assumes "good b" and "cost b + (\<Sum>s\<leftarrow>ss. length s + step) < limit"
    and "appends b ss = (b', rc)"
  shows "good b' \<and> (\<exists>k\<le>length ss. view b' = view b @ concat (take k ss) \<and> (rc = 0 \<longrightarrow> k = length ss))"
  using assms
proof (induction ss arbitrary: b)
  case Nil
  then show ?case by simp
next
  case (Cons s ss)
  obtain b1 r1 where a: "app b s = (b1, r1)"
    by (cases "app b s") auto
  have l: "good b1" "cost b1 \<le> cost b + length s + step"
      "view b1 = (if r1 = 0 then view b @ s else view b)"
    using app [OF Cons.prems(1) _ a] Cons.prems(2) by auto
  show ?case
  proof (cases "r1 = 0")
    case True
    then have "appends b1 ss = (b', rc)"
      using Cons.prems(3) a by simp
    then obtain k where "good b'" "k \<le> length ss" "view b' = view b1 @ concat (take k ss)"
        "rc = 0 \<longrightarrow> k = length ss"
      using Cons.IH [OF l(1)] l(2) Cons.prems(2) by auto
    then show ?thesis
      using l(3) True by (intro conjI exI [of _ "Suc k"]) simp_all
  next
    case False
    then show ?thesis
      using Cons.prems(3) a l by (auto intro: exI [of _ 0])
  qed
qed

end

text \<open>
  The instance: a state is the buffer with the allocator's script, an append is
  \<open>membuffer_append\<close> of the whole piece. An out-of-bounds access would give
  the code \<open>1\<close> and an empty buffer; the law shows that it does not occur.
\<close>

definition mb_append :: "alloc_script \<times> membuffer \<Rightarrow> string \<Rightarrow> (alloc_script \<times> membuffer) \<times> int" where
  "mb_append st s =
     (case membuffer_append (fst st) (snd st) (Some s) (length s) of
        None \<Rightarrow> ((fst st, membuffer_destroy (snd st)), 1)
      | Some (ms, m, rc) \<Rightarrow> ((ms, m), rc))"

primrec mb_appends :: "alloc_script \<times> membuffer \<Rightarrow> string list \<Rightarrow> (alloc_script \<times> membuffer) \<times> int" where
  "mb_appends st [] = (st, 0)"
| "mb_appends st (s # ss) =
     (case mb_append st s of (st', rc) \<Rightarrow> if rc = 0 then mb_appends st' ss else (st', rc))"

lemma set_size_capacity:
  assumes "mb_inv m" and "mlength m \<le> n" and "n < SIZE_MOD"
    and "membuffer_set_size ms m n = (ms1, m1, rc)"
  shows "capacity m1 \<le> capacity m + size_inc m + (n - mlength m)"
proof -
  have "sz_sub n (mlength m) = n - mlength m"
    using assms(2,3) by (rule sz_sub_exact)
  moreover have "sz_add (max a b) c \<le> c + a + b" for a b c
    unfolding sz_add_def by (rule order_trans [OF mod_less_eq_dividend]) simp
  ultimately have "sz_add (max (size_inc m) (sz_sub n (mlength m))) (capacity m)
      \<le> capacity m + size_inc m + (n - mlength m)"
    by simp
  moreover have "n \<le> capacity m + size_inc m + (n - mlength m)"
    using assms(1) by (auto simp: mb_inv_def)
  ultimately show ?thesis
    using assms(2,4) by (auto simp: membuffer_set_size_def Let_def split: if_splits prod.splits option.splits)
qed

lemma insert_capacity:
  assumes "mb_inv m" and "mlength m + n < SIZE_LIMIT"
    and "membuffer_insert ms m src n i = Some (ms', m', rc)"
  shows "capacity m' \<le> capacity m + size_inc m + n"
proof -
  have e: "sz_add (mlength m) n = mlength m + n"
    using assms(2) by (intro sz_add_exact) simp
  obtain ms1 m1 rc1 where s: "membuffer_set_size ms m (mlength m + n) = (ms1, m1, rc1)"
    by (cases "membuffer_set_size ms m (mlength m + n)") auto
  have "capacity m1 \<le> capacity m + size_inc m + n"
    using set_size_capacity [OF assms(1) _ _ s] assms(2) by simp
  moreover have "m' = m \<or> capacity m' = capacity m1"
    using assms(3) s e by (auto simp: membuffer_insert_def Let_def split: if_splits option.splits)
  ultimately show ?thesis
    by auto
qed

lemma membuffer_append_law:
  assumes "mb_inv m" and "mlength m + length s + size_inc m + capacity m < SIZE_LIMIT"
    and "mb_append (ms, m) s = ((ms', m'), rc)"
  shows "mb_inv m' \<and> size_inc m' = size_inc m \<and> capacity m' \<le> capacity m + size_inc m + length s \<and>
    contents m' = (if rc = 0 then contents m @ s else contents m)"
proof (cases "s = []")
  case True
  then show ?thesis
    using assms by (simp add: mb_append_def membuffer_append_def membuffer_insert_def)
next
  case False
  let ?r = "membuffer_insert ms m (Some s) (length s) (mlength m)"
  obtain ms2 m2 r2 where r: "?r = Some (ms2, m2, r2)" and sz: "size_inc m2 = size_inc m" and
    d: "r2 = UPNP_E_OUTOF_MEMORY \<and> m2 = m \<or> r2 = 0 \<and> mb_inv m2 \<and> terminated m2 \<and>
      mlength m2 = mlength m + length s \<and>
      contents m2 = take (mlength m) (contents m) @ take (length s) s @ drop (mlength m) (contents m)"
    using membuffer_insert_ok [OF assms(1) order_refl order_refl _ assms(2) refl, of ms] False by auto
  have "(ms', m', rc) = (ms2, m2, r2)"
    using assms(3) r by (simp add: mb_append_def membuffer_append_def)
  moreover have "length (contents m) \<le> mlength m"
    by (simp add: contents_block)
  moreover have "capacity m2 \<le> capacity m + size_inc m + length s"
    using insert_capacity [OF assms(1) _ r] assms(2) by simp
  ultimately show ?thesis
    using d sz assms(1) by (auto simp: UPNP_E_OUTOF_MEMORY_def)
qed

interpretation mb: byte_string
  "\<lambda>st. mb_inv (snd st) \<and> size_inc (snd st) = MEMBUF_DEF_SIZE_INC"
  "\<lambda>st. contents (snd st)" "\<lambda>st. capacity (snd st)" MEMBUF_DEF_SIZE_INC "2 ^ 61" mb_append
proof (unfold_locales, goal_cases)
  case (1 b s b' rc)
  then have "mlength (snd b) + length s + size_inc (snd b) + capacity (snd b) < SIZE_LIMIT"
    by (auto simp: SIZE_LIMIT_def mb_inv_def)
  then show ?case
    using membuffer_append_law [of "snd b" s "fst b" "fst b'" "snd b'" rc] 1 by (cases b, cases b') auto
qed

lemma mb_appends_eq: "mb_appends st ss = mb.appends st ss"
  by (induction ss arbitrary: st) (auto split: prod.splits)


section \<open>Properties\<close>

definition mb_hello :: membuffer where
  "mb_hello = \<lparr>buf = Some (''Hello'' @ [NUL, NUL, NUL]), mlength = 5, capacity = 7, size_inc = 5\<rparr>"

lemma mb_hello_ok: "mb_inv mb_hello" "terminated mb_hello" "contents mb_hello = ''Hello''"
  by (simp_all add: mb_hello_def mb_inv_def terminated_def contents_def SIZE_LIMIT_def)

text \<open>
  Property C27. \<open>membuffer_insert\<close> never touches memory outside the buffer and the source
  block. An index past the end is refused, nothing to insert is a success that
  changes nothing, running out of memory leaves the buffer as it was; otherwise
  the bytes appear at the index, the rest keeps its order, and the buffer is
  terminated by a NUL byte.
\<close>

theorem membuffer_insert_contents:
  assumes "mb_inv m" and "mlength m + buf_len + size_inc m + capacity m < SIZE_LIMIT"
    and "\<forall>bs. src = Some bs \<longrightarrow> buf_len \<le> length bs"
  shows "\<exists>ms' m' rc. membuffer_insert ms m src buf_len index = Some (ms', m', rc) \<and>
    (if mlength m < index then rc = UPNP_E_OUTOF_BOUNDS \<and> m' = m
     else if src = None \<or> buf_len = 0 then rc = 0 \<and> m' = m
     else rc = UPNP_E_OUTOF_MEMORY \<and> m' = m \<or>
          rc = 0 \<and> mb_inv m' \<and> terminated m' \<and> mlength m' = mlength m + buf_len \<and>
          contents m' = take index (contents m) @ take buf_len (the src) @ drop index (contents m))"
proof (cases "mlength m < index \<or> src = None \<or> buf_len = 0")
  case True
  then show ?thesis by (auto simp: membuffer_insert_def)
next
  case False
  then obtain bs where "src = Some bs" by auto
  then show ?thesis
    using membuffer_insert_ok [OF assms(1) _ _ _ assms(2) refl, of index bs ms] assms(3) False by auto
qed

theorem membuffer_insert_contents_witness:
  "mb_inv mb_hello \<and>
   (\<exists>ms' m' rc. membuffer_insert [None] mb_hello (Some '', big'') 5 5 = Some (ms', m', rc) \<and>
      (rc = UPNP_E_OUTOF_MEMORY \<and> m' = mb_hello \<or> rc = 0 \<and> contents m' = ''Hello, big''))"
  using membuffer_insert_contents [of mb_hello 5 "Some '', big''" "[None]" 5] mb_hello_ok
  by (auto simp: mb_hello_def SIZE_LIMIT_def)

text \<open>
  \<open>membuffer_delete\<close> at an index inside the buffer never touches memory
  outside it and keeps the invariant; when the allocator grants the shrinking
  \<open>realloc\<close>, exactly the bytes from the index on (at most the given number, and
  no more than there are) are gone and the buffer is terminated again.
\<close>

lemma membuffer_delete_contents:
  assumes "mb_inv m" and "terminated m" and "index \<le> mlength m" and "index + num < SIZE_MOD"
    and "mlength m + size_inc m + capacity m < SIZE_LIMIT"
  shows "\<exists>ms' m'. membuffer_delete ms m index num = Some (ms', m') \<and> mb_inv m' \<and>
           (fst (next_alloc ms) \<noteq> None \<longrightarrow>
              terminated m' \<and> mlength m' = length (contents m') \<and>
              contents m' = take index (contents m) @ drop (index + num) (contents m))"
  using membuffer_delete_ok [OF assms refl] by blast

text \<open>
  A message assembled piece by piece with \<open>membuffer_append\<close>, stopping at the
  first error, never leaves the bounds of its memory and holds exactly the
  pieces appended so far, in order: all of them when no call failed.
\<close>

lemma membuffer_appends_message:
  assumes "mb_inv m" and "size_inc m = MEMBUF_DEF_SIZE_INC"
    and "capacity m + (\<Sum>s\<leftarrow>ss. length s + MEMBUF_DEF_SIZE_INC) < 2 ^ 61"
    and "mb_appends (ms, m) ss = ((ms', m'), rc)"
  shows "mb_inv m' \<and> (\<exists>k\<le>length ss. contents m' = contents m @ concat (take k ss) \<and>
                        (rc = 0 \<longrightarrow> k = length ss))"
  using mb.appends_prefix [of "(ms, m)" ss "(ms', m')" rc] assms by (simp add: mb_appends_eq)

lemma membuffer_appends_message_example:
  "\<exists>ms' m'. mb_appends ([], mb_hello) ['', '', ''World''] = ((ms', m'), 0) \<and>
      mb_inv m' \<and> contents m' = ''Hello, World''"
proof -
  obtain ms' m' rc where r: "mb_appends ([], mb_hello) ['', '', ''World''] = ((ms', m'), rc)"
    by (metis surj_pair)
  have "rc = 0"
    using r by (auto simp: mb_append_def membuffer_append_def membuffer_insert_def Let_def
      membuffer_set_size_def mb_hello_def sz_add_def sz_sub_def SIZE_MOD_def memmove_def blk_read_def
      blk_write_def realloc_block_def)
  then show ?thesis
    using membuffer_appends_message [of mb_hello "['', '', ''World'']" "[]" ms' m' rc] mb_hello_ok r
    by (auto simp: mb_hello_def MEMBUF_DEF_SIZE_INC_def)
qed

text \<open>
  Deleting at an index beyond the end does not leave the buffer alone: the
  clamped count wraps around, and a non-empty buffer grows to the length
  \<open>index\<close>, the bytes after the old end being whatever the memory held.
\<close>

lemma membuffer_delete_beyond_grows:
  assumes "mb_inv m" and "0 < mlength m" and "mlength m < index" and "index + num < SIZE_MOD"
    and "index + size_inc m + capacity m < SIZE_LIMIT"
  shows "\<exists>ms' m'. membuffer_delete (Some g # ms) m index num = Some (ms', m') \<and>
           mlength m' = index \<and> take (mlength m) (contents m') = contents m"
proof -
  have lt: "mlength m < SIZE_MOD" "index < SIZE_MOD"
    using assms by (auto simp: mb_inv_def)
  have b: "mlength m < sz_add index num"
    using assms(3,4) by (simp add: sz_add_exact)
  have z: "sz_sub (mlength m) (sz_sub (mlength m) index) = index"
    using lt by (rule sz_sub_sub)
  have mv: "memmove i j 0 (buf m) = Some (buf m)" for i j
    by (simp add: memmove_def blk_read_def blk_write_def)
  obtain ms1 m1 rc where s: "membuffer_set_size (Some g # ms) m index = (ms1, m1, rc)"
    by (cases "membuffer_set_size (Some g # ms) m index") auto
  note ok = set_size_ok [OF assms(1,5) s]
  have rc: "rc = 0"
    using set_size_succeeds [of "Some g # ms" m index] s by simp
  obtain bs where bs: "buf m1 = Some bs" "block m1 = bs" "index < length bs"
    using fits_block [OF ok(4) [OF rc]] assms(3) by auto
  have "membuffer_delete (Some g # ms) m index num =
      Some (ms1, m1\<lparr>buf := Some (take index bs @ NUL # drop (index + 1) bs), mlength := index\<rparr>)"
    using assms(2) b z mv s rc bs by (simp add: membuffer_delete_def Let_def blk_write_ok)
  moreover have "take (mlength m) bs = contents m"
    using ok(5) [OF rc, of "mlength m"] assms(3) bs(2) by (simp add: contents_block)
  ultimately show ?thesis
    using assms(3) bs(3) by (simp add: contents_def min_absorb1)
qed

end
