(* ===== verification/StrIntMap.thy ===== *)
theory StrIntMap
  imports Membuffer "HOL-Library.List_Lexorder"
begin

text \<open>
  The string/number tables of \<^verbatim>\<open>compa/src/genlib/util/strintmap.cpp\<close>: the binary
  search \<open>map_str_to_int\<close> and the linear search \<open>map_int_to_str\<close>. The search
  relies on a three-way comparison whose sign follows a linear order; the
  locale \<open>ordered_lookup\<close> states that, and both comparisons of
  \<^verbatim>\<open>membuffer.cpp\<close> (with and without case) are instances of it.
\<close>

record str_int_entry =
  name :: string
  id :: int

text \<open>
  The loop of the search. \<open>tp\<close>, \<open>bt\<close> (\<^verbatim>\<open>top\<close> and \<^verbatim>\<open>bot\<close>) and \<open>mid\<close> are the variables of the
  code; \<open>None\<close> is a read outside the table.
\<close>

function map_str_to_int_loop ::
    "(string \<Rightarrow> int) \<Rightarrow> str_int_entry list \<Rightarrow> int \<Rightarrow> int \<Rightarrow> int option" where
  "map_str_to_int_loop cmp table tp bt =
     (if tp \<le> bt then
        (let mid = (tp + bt) div 2 in
         if mid < 0 \<or> int (length table) \<le> mid then None
         else
           (let c = cmp (name (table ! nat mid)) in
            if 0 < c then map_str_to_int_loop cmp table (mid + 1) bt
            else if c < 0 then map_str_to_int_loop cmp table tp (mid - 1)
            else Some mid))
      else Some (-1))"
  by pat_completeness auto
termination
  by (relation "measure (\<lambda>(cmp, table, tp, bt). nat (bt - tp + 1))") auto

definition map_str_to_int ::
    "string \<Rightarrow> nat \<Rightarrow> str_int_entry list \<Rightarrow> int \<Rightarrow> int \<Rightarrow> int option" where
  "map_str_to_int nm name_len table num_entries case_sensitive =
     map_str_to_int_loop
       (if case_sensitive \<noteq> 0 then memptr_cmp nm name_len else memptr_cmp_nocase nm name_len)
       table 0 (num_entries - 1)"

function map_int_to_str_loop :: "int \<Rightarrow> str_int_entry list \<Rightarrow> int \<Rightarrow> int \<Rightarrow> int option" where
  "map_int_to_str_loop k table num_entries i =
     (if i < num_entries then
        (if i < 0 \<or> int (length table) \<le> i then None
         else if id (table ! nat i) = k then Some i
         else map_int_to_str_loop k table num_entries (i + 1))
      else Some (-1))"
  by pat_completeness auto
termination
  by (relation "measure (\<lambda>(k, table, num_entries, i). nat (num_entries - i))") auto

definition map_int_to_str :: "int \<Rightarrow> str_int_entry list \<Rightarrow> int \<Rightarrow> int option" where
  "map_int_to_str k table num_entries = map_int_to_str_loop k table num_entries 0"

declare map_str_to_int_loop.simps [simp del] map_int_to_str_loop.simps [simp del]

section \<open>Comparison as an order\<close>

text \<open>
  For a name without NUL bytes the comparison of a counted string with a C
  string is the lexicographic order of the byte values (after folding the
  case, for the variant without case).
\<close>

lemma strncmp_by_order:
  assumes "\<And>c. f c = f NUL \<longleftrightarrow> c = NUL" and "no_nul xs" and "no_nul ys"
  shows "(let c = strncmp_by f (length xs) xs ys
          in if c = 0 \<and> length xs < length ys then - 1 else c) =
         (if map f xs = map f ys then 0 else if map f xs < map f ys then - 1 else 1 :: int)"
  using assms(2,3)
proof (induction xs arbitrary: ys)
  case Nil
  then show ?case by (cases ys) auto
next
  case (Cons x xs)
  show ?case
  proof (cases ys)
    case Nil
    then show ?thesis using Cons.prems by auto
  next
    case (Cons y zs)
    then show ?thesis
      using Cons.IH [of zs] Cons.prems by (auto simp: cmp_sgn_def Let_def split: if_splits)
  qed
qed

definition fold_case :: "char \<Rightarrow> nat" where
  "fold_case c = of_char (tolower c)"

lemma memptr_cmp_order:
  assumes "no_nul xs" and "no_nul ys"
  shows "memptr_cmp xs (length xs) ys =
    (if xs = ys then 0 else if map uc xs < map uc ys then - 1 else 1)"
proof -
  have "map uc xs = map uc ys \<longleftrightarrow> xs = ys"
    by (simp add: inj_map_eq_map inj_def)
  moreover have h: "uc c = uc NUL \<longleftrightarrow> c = NUL" for c
    by (rule of_char_eq_iff)
  ultimately show ?thesis
    using strncmp_by_order [OF h assms]
    by (simp only: memptr_cmp_def strncmp_sgn_def c_str_no_nul [OF assms(2)])
qed

lemma memptr_cmp_nocase_order:
  assumes "no_nul xs" and "no_nul ys"
  shows "memptr_cmp_nocase xs (length xs) ys =
    (if map fold_case xs = map fold_case ys then 0
     else if map fold_case xs < map fold_case ys then - 1 else 1)"
proof -
  have t: "tolower NUL = NUL"
    by simp
  have h: "fold_case c = fold_case NUL \<longleftrightarrow> c = NUL" for c
    unfolding fold_case_def t of_char_eq_iff by (rule tolower_NUL_iff)
  then show ?thesis
    using strncmp_by_order [OF h assms]
    by (simp only: memptr_cmp_nocase_def strncasecmp_sgn_def fold_case_def [abs_def, symmetric]
      c_str_no_nul [OF assms(2)])
qed

section \<open>Lookup in an ordered table\<close>

locale ordered_lookup =
  fixes cmp :: "string \<Rightarrow> string \<Rightarrow> int"
    and key :: "string \<Rightarrow> nat list"
  assumes cmp_pos: "no_nul k \<Longrightarrow> no_nul s \<Longrightarrow> 0 < cmp k s \<longleftrightarrow> key s < key k"
    and cmp_neg: "no_nul k \<Longrightarrow> no_nul s \<Longrightarrow> cmp k s < 0 \<longleftrightarrow> key k < key s"
begin

lemma loop_found:
  assumes "map_str_to_int_loop (cmp k) table tp bt = Some i" and "i \<noteq> -1"
    and "no_nul k" and "\<forall>e\<in>set table. no_nul (name e)"
  shows "0 \<le> i \<and> i < int (length table) \<and> key (name (table ! nat i)) = key k"
  using assms
proof (induction "cmp k" table tp bt rule: map_str_to_int_loop.induct)
  case (1 table tp bt)
  let ?mid = "(tp + bt) div 2"
  have t: "tp \<le> bt" "0 \<le> ?mid" "?mid < int (length table)"
    using 1(3,4) by (auto simp: map_str_to_int_loop.simps [of _ _ tp] Let_def split: if_splits)
  have n: "no_nul (name (table ! nat ?mid))"
    using 1(6) t by auto
  let ?s = "name (table ! nat ?mid)"
  consider "0 < cmp k ?s" | "cmp k ?s < 0" | "cmp k ?s = 0"
    by linarith
  then show ?case
  proof cases
    case 1
    then show ?thesis
      using "1.hyps"(1) [OF t(1) refl _ refl] "1.prems" t
      by (simp add: map_str_to_int_loop.simps [of _ _ tp] Let_def)
  next
    case 2
    then show ?thesis
      using "1.hyps"(2) [OF t(1) refl _ refl] "1.prems" t
      by (simp add: map_str_to_int_loop.simps [of _ _ tp] Let_def)
  next
    case 3
    then have "i = ?mid"
      using "1.prems"(1) t by (simp add: map_str_to_int_loop.simps [of _ _ tp] Let_def)
    moreover have "key ?s = key k"
      using 3 cmp_pos [OF "1.prems"(3) n] cmp_neg [OF "1.prems"(3) n] by auto
    ultimately show ?thesis
      using t by auto
  qed
qed

lemma loop_total:
  assumes "0 \<le> tp" and "bt < int (length table)"
  shows "\<exists>i. map_str_to_int_loop c table tp bt = Some i"
  using assms
proof (induction c table tp bt rule: map_str_to_int_loop.induct)
  case (1 c table tp bt)
  show ?case
  proof (cases "tp \<le> bt")
    case True
    then have "0 \<le> (tp + bt) div 2" "(tp + bt) div 2 < int (length table)"
      using "1.prems" by auto
    then show ?thesis
      using "1.IH"(1) [OF True refl _ refl] "1.IH"(2) [OF True refl _ refl] "1.prems"
      by (subst map_str_to_int_loop.simps) (simp add: Let_def)
  qed (simp add: map_str_to_int_loop.simps)
qed

lemma loop_complete:
  assumes "sorted_wrt (<) (map (key \<circ> name) table)" and "no_nul k"
    and "\<forall>e\<in>set table. no_nul (name e)"
    and "0 \<le> tp" and "bt < int (length table)" and "tp \<le> int j" and "int j \<le> bt"
    and "key (name (table ! j)) = key k"
  shows "map_str_to_int_loop (cmp k) table tp bt = Some (int j)"
  using assms
proof (induction "cmp k" table tp bt rule: map_str_to_int_loop.induct)
  case (1 table tp bt)
  let ?mid = "(tp + bt) div 2"
  let ?s = "name (table ! nat ?mid)"
  have t: "tp \<le> bt" "0 \<le> ?mid" "?mid < int (length table)"
    using "1.prems" by auto
  have n: "no_nul ?s"
    using "1.prems"(3) t by auto
  have mono: "key (name (table ! a)) < key (name (table ! b))" if "a < b" "b < length table" for a b
    using sorted_wrt_nth_less [OF "1.prems"(1), of a b] that by simp
  have j: "j < length table"
    using "1.prems"(5,7) by linarith
  note unfold = map_str_to_int_loop.simps [of "cmp k" table tp bt]
  consider "?mid < int j" | "int j < ?mid" | "nat ?mid = j"
    using t by linarith
  then show ?case
  proof cases
    case 1
    then have "0 < cmp k ?s"
      using mono [of "nat ?mid" j] j t "1.prems"(2,8) n cmp_pos by (simp add: nat_less_iff)
    then show ?thesis
      using "1.hyps"(1) [OF t(1) refl _ refl] "1.prems" t 1 by (simp add: unfold Let_def)
  next
    case 2
    then have "cmp k ?s < 0"
      using mono [of j "nat ?mid"] j t "1.prems"(2,8) n cmp_neg by (simp add: nat_less_iff less_nat_zero_code zless_nat_eq_int_zless)
    then show ?thesis
      using "1.hyps"(2) [OF t(1) refl _ refl] "1.prems" t 2 by (simp add: unfold Let_def)
  next
    case 3
    then have "\<not> 0 < cmp k ?s" "\<not> cmp k ?s < 0"
      using "1.prems"(2,8) n cmp_pos cmp_neg by simp_all
    then show ?thesis
      using t 3 by (simp add: unfold Let_def)
  qed
qed

theorem lookup_iff:
  assumes "sorted_wrt (<) (map (key \<circ> name) table)" and "no_nul k"
    and "\<forall>e\<in>set table. no_nul (name e)"
  shows "\<exists>i. map_str_to_int_loop (cmp k) table 0 (int (length table) - 1) = Some i \<and>
    (if i = -1 then \<forall>e\<in>set table. key (name e) \<noteq> key k
     else 0 \<le> i \<and> i < int (length table) \<and> key (name (table ! nat i)) = key k)"
proof -
  obtain i where i: "map_str_to_int_loop (cmp k) table 0 (int (length table) - 1) = Some i"
    using loop_total [of 0 "int (length table) - 1" table "cmp k"] by auto
  have "key (name e) \<noteq> key k" if "i = -1" "e \<in> set table" for e
  proof
    assume "key (name e) = key k"
    moreover obtain j where "j < length table" "e = table ! j"
      using \<open>e \<in> set table\<close> by (metis in_set_conv_nth)
    ultimately have "i = int j"
      using loop_complete [OF assms, of 0 "int (length table) - 1" j] i by simp
    then show False
      using \<open>i = -1\<close> by simp
  qed
  then show ?thesis
    using i loop_found [OF i _ assms(2,3)] by auto
qed

end

interpretation exact: ordered_lookup "\<lambda>k. memptr_cmp k (length k)" "map uc"
proof unfold_locales
  fix k s
  assume n: "no_nul k" "no_nul s"
  have "map uc k = map uc s \<longleftrightarrow> k = s"
    by (simp add: inj_map_eq_map inj_def)
  then show "0 < memptr_cmp k (length k) s \<longleftrightarrow> map uc s < map uc k"
    and "memptr_cmp k (length k) s < 0 \<longleftrightarrow> map uc k < map uc s"
    using n by (auto simp: memptr_cmp_order not_less_iff_gr_or_eq)
qed

interpretation folded: ordered_lookup "\<lambda>k. memptr_cmp_nocase k (length k)" "map fold_case"
  by unfold_locales (auto simp: memptr_cmp_nocase_order not_less_iff_gr_or_eq)


section \<open>Properties\<close>

text \<open>
  On a table sorted by name, \<open>map_str_to_int\<close> always returns: the index of
  an entry with the given name (equal up to case when the search ignores the
  case), and -1 exactly when no entry has it.
\<close>

lemma map_str_to_int_sorted:
  assumes "no_nul nm" and "\<forall>e\<in>set table. no_nul (name e)"
    and "key = (if case_sensitive \<noteq> 0 then map uc else map fold_case)"
    and "sorted_wrt (<) (map (key \<circ> name) table)"
  shows "\<exists>i. map_str_to_int nm (length nm) table (int (length table)) case_sensitive = Some i \<and>
    (if i = -1 then \<forall>e\<in>set table. key (name e) \<noteq> key nm
     else 0 \<le> i \<and> i < int (length table) \<and> key (name (table ! nat i)) = key nm)"
proof (cases "case_sensitive = 0")
  case True
  then have k: "key = map fold_case"
    using assms(3) by simp
  show ?thesis
    using folded.lookup_iff [OF assms(4) [unfolded k] assms(1,2)] True
    by (simp only: map_str_to_int_def k) simp
next
  case False
  then have k: "key = map uc"
    using assms(3) by simp
  show ?thesis
    using exact.lookup_iff [OF assms(4) [unfolded k] assms(1,2)] False
    by (simp only: map_str_to_int_def k) simp
qed

lemma map_int_to_str_loop_spec:
  assumes "n \<le> length table" and "i \<le> n"
  shows "map_int_to_str_loop k table (int n) (int i) =
    Some (case find (\<lambda>j. id (table ! j) = k) [i..<n] of None \<Rightarrow> -1 | Some j \<Rightarrow> int j)"
  using assms(2)
proof (induction i rule: inc_induct)
  case base
  then show ?case by (simp add: map_int_to_str_loop.simps)
next
  case (step i)
  then show ?case
    using assms(1) by (simp add: map_int_to_str_loop.simps [of k table "int n" "int i"] upt_conv_Cons
      add.commute)
qed

end
