(* ===== verification/HttpScanner.thy ===== *)
theory HttpScanner
  imports StrIntMap
begin

text \<open>
  The scanner of \<^verbatim>\<open>compa/src/genlib/net/http/httpparser.cpp\<close>: tokens, and the
  matchers built on them (blank lines, linear white space, strings, raw header
  values, numbers). A \<open>memptr\<close> into the message is a start offset and a
  length. A matcher that gives no result returns its status on the left.
\<close>

datatype token_type =
    TT_IDENTIFIER | TT_WHITESPACE | TT_CRLF | TT_CTRL | TT_SEPARATOR | TT_QUOTEDSTRING

datatype parse_status =
    PARSE_SUCCESS | PARSE_INCOMPLETE | PARSE_INCOMPLETE_ENTITY | PARSE_FAILURE | PARSE_OK
  | PARSE_NO_MATCH | PARSE_CONTINUE_1

record memptr =
  mp_buf :: nat
  mp_length :: nat

text \<open>
  \<open>msg\<close> holds the \<open>length\<close> bytes of the scanned buffer; the byte after them is
  its terminating NUL. The cursor is at most the length of the message, which
  every operation keeps; \<open>entire_msg_loaded\<close> is the flag of that name.
\<close>

record scanner =
  smsg :: string
  cursor :: nat
  entire_msg_loaded :: bool

definition mp_text :: "string \<Rightarrow> memptr \<Rightarrow> string" where
  "mp_text msg p = take (mp_length p) (drop (mp_buf p) msg)"

abbreviation CR :: char where "CR \<equiv> CHR 0x0D"
abbreviation LF :: char where "LF \<equiv> CHR 0x0A"
abbreviation TAB :: char where "TAB \<equiv> CHR 0x09"
abbreviation QUOTE :: char where "QUOTE \<equiv> CHR 0x22"
abbreviation BACKSLASH :: char where "BACKSLASH \<equiv> CHR 0x5C"

section \<open>Tokens\<close>

definition is_separator_char :: "char \<Rightarrow> bool" where
  "is_separator_char c =
     strchr_hit ('' '' @ [TAB] @ ''()<>@,;:'' @ [BACKSLASH, QUOTE] @ ''/[]?={}'') c"

definition is_identifier_char :: "char \<Rightarrow> bool" where
  "is_identifier_char c \<longleftrightarrow> 32 \<le> sc c \<and> sc c \<le> 126 \<and> \<not> is_separator_char c"

definition is_control_char :: "char \<Rightarrow> bool" where
  "is_control_char c \<longleftrightarrow> (0 \<le> sc c \<and> sc c \<le> 31) \<or> sc c = 127"

definition is_qdtext_char :: "char \<Rightarrow> bool" where
  "is_qdtext_char c \<longleftrightarrow>
     (32 \<le> sc c \<and> sc c \<noteq> 127) \<or> sc c < 0 \<or> c = CR \<or> c = LF \<or> c = TAB"

abbreviation is_ws_char :: "char \<Rightarrow> bool" where
  "is_ws_char c \<equiv> c = CHR '' '' \<or> c = TAB"

text \<open>The two character loops: \<open>while (cursor < null_terminator && P (*cursor)) cursor++\<close>
  and the body of a quoted string. The latter gives the position after the
  closing quote, or the status of the two error exits.\<close>

function scan_while :: "(char \<Rightarrow> bool) \<Rightarrow> string \<Rightarrow> nat \<Rightarrow> nat" where
  "scan_while P msg i =
     (if i < length msg \<and> P (msg ! i) then scan_while P msg (i + 1) else i)"
  by pat_completeness auto
termination
  by (relation "measure (\<lambda>(P, msg, i). length msg - i)") auto

function scan_quoted :: "string \<Rightarrow> nat \<Rightarrow> parse_status + nat" where
  "scan_quoted msg i =
     (if i < length msg then
        (let c = msg ! i in
         if c = QUOTE then Inr (i + 1)
         else if c = BACKSLASH then
           (if i + 1 < length msg then scan_quoted msg (i + 2) else scan_quoted msg (i + 1))
         else if is_qdtext_char c then scan_quoted msg (i + 1)
         else Inl PARSE_FAILURE)
      else Inl PARSE_INCOMPLETE)"
  by pat_completeness auto
termination
  by (relation "measure (\<lambda>(msg, i). length msg - i)") auto

declare scan_while.simps [simp del] scan_quoted.simps [simp del]

text \<open>The classification of the next token: its type and the position after it.\<close>

definition token_at :: "bool \<Rightarrow> string \<Rightarrow> nat \<Rightarrow> parse_status + token_type \<times> nat" where
  "token_at entire msg start =
     (if length msg \<le> start then Inl PARSE_INCOMPLETE
      else
        (let c = msg ! start in
         if is_identifier_char c then
           (let stop = scan_while is_identifier_char msg (start + 1) in
            if \<not> entire \<and> stop = length msg then Inl PARSE_INCOMPLETE
            else Inr (TT_IDENTIFIER, stop))
         else if is_ws_char c then
           (let stop = scan_while is_ws_char msg (start + 1) in
            if \<not> entire \<and> stop = length msg then Inl PARSE_INCOMPLETE
            else Inr (TT_WHITESPACE, stop))
         else if c = CR then
           (if start + 1 = length msg then Inl PARSE_INCOMPLETE
            else if msg ! (start + 1) \<noteq> LF then Inr (TT_CTRL, start + 1)
            else Inr (TT_CRLF, start + 2))
         else if c = LF then Inr (TT_CRLF, start + 1)
         else if c = QUOTE then
           (case scan_quoted msg (start + 1) of
              Inl e \<Rightarrow> Inl e
            | Inr stop \<Rightarrow> Inr (TT_QUOTEDSTRING, stop))
         else if is_separator_char c then Inr (TT_SEPARATOR, start + 1)
         else if is_control_char c then Inr (TT_CTRL, start + 1)
         else Inl PARSE_FAILURE))"

definition scanner_get_token :: "scanner \<Rightarrow> parse_status + memptr \<times> token_type \<times> scanner" where
  "scanner_get_token s =
     (case token_at (entire_msg_loaded s) (smsg s) (cursor s) of
        Inl e \<Rightarrow> Inl e
      | Inr (ty, stop) \<Rightarrow>
          let tok = \<lparr>mp_buf = cursor s, mp_length = stop - cursor s\<rparr> in
          Inr (tok, ty, s\<lparr>cursor := cursor s + mp_length tok\<rparr>))"

lemma scan_while_run:
  assumes "i \<le> length msg"
  shows "scan_while P msg i = i + length (takeWhile P (drop i msg))"
  using assms
proof (induction P msg i rule: scan_while.induct)
  case (1 P msg i)
  then show ?case
    by (cases "i < length msg")
       (subst scan_while.simps, simp add: Cons_nth_drop_Suc [symmetric], simp add: scan_while.simps)
qed

lemma scan_while_bounds:
  assumes "i \<le> length msg"
  shows "i \<le> scan_while P msg i" and "scan_while P msg i \<le> length msg"
  using length_takeWhile_le [of P "drop i msg"] assms by (simp_all add: scan_while_run)

lemma scan_quoted_bounds: "scan_quoted msg i = Inr j \<Longrightarrow> i < j \<and> j \<le> length msg"
proof (induction msg i rule: scan_quoted.induct)
  case (1 msg i)
  then show ?case
    by (subst (asm) (3) scan_quoted.simps) (fastforce simp: Let_def split: if_splits)
qed

lemma token_at_bounds:
  assumes "token_at entire msg i = Inr (ty, stop)"
  shows "i < stop \<and> stop \<le> length msg"
proof -
  have lt: "i < length msg"
    using assms by (auto simp: token_at_def split: if_splits)
  then show ?thesis
    using assms scan_while_bounds [of "i + 1" msg is_identifier_char]
      scan_while_bounds [of "i + 1" msg is_ws_char] scan_quoted_bounds [of msg "i + 1"]
    by (auto simp: token_at_def Let_def split: if_splits sum.splits)
qed

text \<open>What every caller relies on: a token is a non-empty piece of the message at the cursor.\<close>

lemma scanner_get_token_progress:
  assumes "scanner_get_token s = Inr (tok, ty, s')"
  shows "mp_buf tok = cursor s" and "0 < mp_length tok" and "cursor s' = cursor s + mp_length tok"
    and "cursor s' \<le> length (smsg s)" and "s' = s\<lparr>cursor := cursor s'\<rparr>"
    and "smsg s' = smsg s" and "entire_msg_loaded s' = entire_msg_loaded s"
proof -
  obtain stop where "token_at (entire_msg_loaded s) (smsg s) (cursor s) = Inr (ty, stop)"
    and "tok = \<lparr>mp_buf = cursor s, mp_length = stop - cursor s\<rparr>" "s' = s\<lparr>cursor := cursor s + mp_length tok\<rparr>"
    using assms by (auto simp: scanner_get_token_def Let_def split: sum.splits)
  then show "mp_buf tok = cursor s" and "0 < mp_length tok" and "cursor s' = cursor s + mp_length tok"
    and "cursor s' \<le> length (smsg s)" and "s' = s\<lparr>cursor := cursor s'\<rparr>"
    and "smsg s' = smsg s" and "entire_msg_loaded s' = entire_msg_loaded s"
    using token_at_bounds by fastforce+
qed


lemma scanner_get_token_less:
  "scanner_get_token s = Inr (tok, ty, s') \<Longrightarrow>
     length (smsg s') - cursor s' < length (smsg s) - cursor s"
  using scanner_get_token_progress [of s tok ty s'] by simp

section \<open>Matchers\<close>

text \<open>
  Each matcher returns its status with the scanner after it, and the value it
  stores through its pointer argument when it stores one.
\<close>

function skip_blank_lines :: "scanner \<Rightarrow> parse_status \<times> scanner" where
  "skip_blank_lines s =
     (case scanner_get_token s of
        Inl status \<Rightarrow> (status, s)
      | Inr (token, tok_type, s1) \<Rightarrow>
          if tok_type = TT_WHITESPACE \<or> tok_type = TT_CRLF then skip_blank_lines s1
          else (PARSE_OK, s1\<lparr>cursor := cursor s1 - mp_length token\<rparr>))"
  by pat_completeness auto
termination
  by (relation "measure (\<lambda>s. length (smsg s) - cursor s)") (auto dest: scanner_get_token_less)

text \<open>One round of the loop of \<open>skip_lws\<close>: the status, whether white space was matched, the scanner.\<close>

definition skip_lws_step :: "scanner \<Rightarrow> parse_status \<times> bool \<times> scanner" where
  "skip_lws_step s =
     (case scanner_get_token s of
        Inl status \<Rightarrow> (status, False, s)
      | Inr (token, tok_type, s1) \<Rightarrow>
          if tok_type = TT_CRLF then
            (case scanner_get_token s1 of
               Inl status \<Rightarrow> (status, False, s)
             | Inr (token', tok_type', s2) \<Rightarrow>
                 if tok_type' = TT_WHITESPACE then (PARSE_OK, True, s2) else (PARSE_OK, False, s))
          else if tok_type = TT_WHITESPACE then (PARSE_OK, True, s1)
          else (PARSE_OK, False, s))"

lemma skip_lws_step_less:
  "skip_lws_step s = (st, True, s') \<Longrightarrow> length (smsg s') - cursor s' < length (smsg s) - cursor s"
  by (auto simp: skip_lws_step_def dest!: scanner_get_token_less split: sum.splits if_splits)

function skip_lws_loop :: "scanner \<Rightarrow> parse_status \<times> scanner" where
  "skip_lws_loop s =
     (case skip_lws_step s of
        (status, matched, s1) \<Rightarrow> if matched then skip_lws_loop s1 else (status, s1))"
  by pat_completeness auto
termination
  by (relation "measure (\<lambda>s. length (smsg s) - cursor s)") (auto dest!: skip_lws_step_less [OF sym])

definition skip_lws :: "scanner \<Rightarrow> parse_status \<times> scanner" where
  "skip_lws s =
     (case skip_lws_loop s of
        (status, s1) \<Rightarrow>
          (if status = PARSE_INCOMPLETE \<and> entire_msg_loaded s1 then PARSE_OK else status, s1))"

text \<open>
  The loop of \<open>match_non_ws_string\<close> gives the status of the last token, the
  length collected and the scanner, white space put back.
\<close>

function match_non_ws_string_loop :: "scanner \<Rightarrow> nat \<Rightarrow> parse_status \<times> nat \<times> scanner" where
  "match_non_ws_string_loop s len =
     (case scanner_get_token s of
        Inl status \<Rightarrow> (status, len, s)
      | Inr (token, tok_type, s1) \<Rightarrow>
          if tok_type \<noteq> TT_WHITESPACE \<and> tok_type \<noteq> TT_CRLF
          then match_non_ws_string_loop s1 (len + mp_length token)
          else (PARSE_OK, len, s1\<lparr>cursor := cursor s1 - mp_length token\<rparr>))"
  by pat_completeness auto
termination
  by (relation "measure (\<lambda>(s, len). length (smsg s) - cursor s)") (auto dest: scanner_get_token_less)

definition match_non_ws_string :: "scanner \<Rightarrow> parse_status \<times> memptr \<times> scanner" where
  "match_non_ws_string s =
     (case match_non_ws_string_loop s 0 of
        (status, len, s1) \<Rightarrow>
          let str = \<lparr>mp_buf = cursor s, mp_length = len\<rparr> in
          if status = PARSE_OK \<or> status = PARSE_INCOMPLETE \<and> entire_msg_loaded s1
          then (if len = 0 then PARSE_NO_MATCH else PARSE_OK, str, s1)
          else (status, str, s1\<lparr>cursor := cursor s\<rparr>))"

text \<open>
  \<open>crlf\<close> is \<open>None\<close> until a line end was seen, then its position
  (\<open>saw_crlf\<close> with \<open>pos_at_crlf\<close>).
\<close>

function match_raw_value_loop :: "nat \<Rightarrow> scanner \<Rightarrow> nat option \<Rightarrow> nat \<Rightarrow> parse_status \<times> nat \<times> scanner" where
  "match_raw_value_loop save_pos s crlf len =
     (case scanner_get_token s of
        Inl status \<Rightarrow> (status, len, s\<lparr>cursor := save_pos\<rparr>)
      | Inr (token, tok_type, s1) \<Rightarrow>
          (case crlf of
             None \<Rightarrow>
               match_raw_value_loop save_pos s1
                 (if tok_type = TT_CRLF then Some (cursor s1 - mp_length token) else None)
                 (len + mp_length token)
           | Some pos_at_crlf \<Rightarrow>
               if tok_type = TT_WHITESPACE
               then match_raw_value_loop save_pos s1 None (len + mp_length token)
               else (PARSE_OK, len, s1\<lparr>cursor := pos_at_crlf\<rparr>)))"
  by pat_completeness auto
termination
  by (relation "measure (\<lambda>(p, s, c, len). length (smsg s) - cursor s)") (auto dest: scanner_get_token_less)

text \<open>Trimming on the right: the new length of the value that starts at \<open>i\<close>.\<close>

primrec trim_right :: "string \<Rightarrow> nat \<Rightarrow> nat \<Rightarrow> nat" where
  "trim_right msg i 0 = 0"
| "trim_right msg i (Suc n) =
     (let c = msg ! (i + n) in
      if c \<noteq> CHR '' '' \<and> c \<noteq> TAB \<and> c \<noteq> CR \<and> c \<noteq> LF then Suc n else trim_right msg i n)"

definition match_raw_value :: "scanner \<Rightarrow> parse_status \<times> memptr \<times> scanner" where
  "match_raw_value s =
     (case match_raw_value_loop (cursor s) s None 0 of
        (status, len, s1) \<Rightarrow>
          (status,
           \<lparr>mp_buf = cursor s,
            mp_length = (if status = PARSE_OK then trim_right (smsg s) (cursor s) len else len)\<rparr>, s1))"

section \<open>Numbers\<close>

text \<open>
  \<open>strtol\<close> on a 64 bit \<open>long\<close>: white space, a sign, for base 16 an optional
  prefix \<open>0x\<close>, then digits. The result is the value (clamped to the range of
  \<open>long\<close>), the number of characters read, and whether the range was left.
\<close>

definition digit_val :: "char \<Rightarrow> nat" where
  "digit_val c =
     (if isdigit c then uc c - 48
      else if isupper c then uc c - 55
      else if islower c then uc c - 87 else 255)"

definition digits_of :: "nat \<Rightarrow> string \<Rightarrow> string" where
  "digits_of base s = takeWhile (\<lambda>c. digit_val c < base) s"

definition digits_val :: "nat \<Rightarrow> string \<Rightarrow> nat" where
  "digits_val base ds = foldl (\<lambda>v c. v * base + digit_val c) 0 ds"

definition LONG_MAX :: int where "LONG_MAX = 2 ^ 63 - 1"
definition LONG_MIN :: int where "LONG_MIN = - (2 ^ 63)"

definition sign_len :: "string \<Rightarrow> nat" where
  "sign_len s = (if s \<noteq> [] \<and> (hd s = CHR ''-'' \<or> hd s = CHR ''+'') then 1 else 0)"

definition hex_prefix :: "nat \<Rightarrow> string \<Rightarrow> nat" where
  "hex_prefix base s =
     (if base = 16 \<and> 2 < length s \<and> s ! 0 = CHR ''0'' \<and>
         (s ! 1 = CHR ''x'' \<or> s ! 1 = CHR ''X'') \<and> digit_val (s ! 2) < 16
      then 2 else 0)"

definition strtol_result :: "bool \<Rightarrow> nat \<Rightarrow> string \<Rightarrow> nat \<Rightarrow> int \<times> nat \<times> bool" where
  "strtol_result neg base ds skipped =
     (let v = (if neg then - int (digits_val base ds) else int (digits_val base ds)) in
      if ds = [] then (0, 0, False)
      else if v < LONG_MIN then (LONG_MIN, skipped + length ds, True)
      else if LONG_MAX < v then (LONG_MAX, skipped + length ds, True)
      else (v, skipped + length ds, False))"

definition strtol :: "nat \<Rightarrow> string \<Rightarrow> int \<times> nat \<times> bool" where
  "strtol base s =
     (let ws = length (takeWhile isspace s);
          s1 = drop ws s;
          s2 = drop (sign_len s1) s1;
          pre = hex_prefix base s2
      in strtol_result (s1 \<noteq> [] \<and> hd s1 = CHR ''-'') base (digits_of base (drop pre s2))
           (ws + sign_len s1 + pre))"

text \<open>The conversion of a \<open>long\<close> to a 32 bit \<open>int\<close>.\<close>

definition to_int :: "int \<Rightarrow> int" where
  "to_int n = (n + 2 ^ 31) mod 2 ^ 32 - 2 ^ 31"

text \<open>The value \<open>match_int\<close> stores is \<open>None\<close> when it stores nothing.\<close>

definition match_int :: "scanner \<Rightarrow> nat \<Rightarrow> parse_status \<times> int option \<times> scanner" where
  "match_int s base =
     (case scanner_get_token s of
        Inl status \<Rightarrow> (status, None, s)
      | Inr (token, tok_type, s1) \<Rightarrow>
          if tok_type = TT_IDENTIFIER then
            (case strtol base (drop (mp_buf token) (smsg s)) of
               (num, consumed, erange) \<Rightarrow>
                 if num < 0 \<or> consumed \<noteq> mp_length token \<or>
                    ((num = LONG_MIN \<or> num = LONG_MAX) \<and> erange)
                 then (PARSE_NO_MATCH, Some (to_int num), s)
                 else (PARSE_OK, Some (to_int num), s1))
          else (PARSE_NO_MATCH, None, s))"

function read_until_crlf_loop :: "scanner \<Rightarrow> parse_status \<times> scanner" where
  "read_until_crlf_loop s =
     (case scanner_get_token s of
        Inl status \<Rightarrow> (status, s)
      | Inr (token, tok_type, s1) \<Rightarrow>
          if tok_type \<noteq> TT_CRLF then read_until_crlf_loop s1
          else (PARSE_OK, s1\<lparr>cursor := cursor s1 - mp_length token\<rparr>))"
  by pat_completeness auto
termination
  by (relation "measure (\<lambda>s. length (smsg s) - cursor s)") (auto dest: scanner_get_token_less)

text \<open>On failure the length behind the pointer is not written.\<close>

definition read_until_crlf :: "scanner \<Rightarrow> parse_status \<times> memptr option \<times> scanner" where
  "read_until_crlf s =
     (case read_until_crlf_loop s of
        (status, s1) \<Rightarrow>
          (status,
           if status = PARSE_OK
           then Some \<lparr>mp_buf = cursor s, mp_length = cursor s1 - cursor s\<rparr> else None, s1))"

definition match_char :: "scanner \<Rightarrow> char \<Rightarrow> bool \<Rightarrow> parse_status \<times> scanner" where
  "match_char s c case_sensitive =
     (if length (smsg s) \<le> cursor s then (PARSE_INCOMPLETE, s)
      else
        (let scan_char = smsg s ! cursor s; s1 = s\<lparr>cursor := cursor s + 1\<rparr> in
         if case_sensitive then (if c = scan_char then PARSE_OK else PARSE_NO_MATCH, s1)
         else (if tolower c = tolower scan_char then PARSE_OK else PARSE_NO_MATCH, s1)))"

declare skip_blank_lines.simps [simp del] skip_lws_loop.simps [simp del]
  match_non_ws_string_loop.simps [simp del] match_raw_value_loop.simps [simp del]
  read_until_crlf_loop.simps [simp del]


section \<open>The contract of a matcher\<close>

text \<open>
  All matchers share one contract. They leave the message alone, keep the
  cursor inside it and never move it back; and on a message that is still being received, an answer
  other than \<open>PARSE_INCOMPLETE\<close> is final: it does not depend on what follows.
\<close>

definition grow :: "string \<Rightarrow> scanner \<Rightarrow> scanner" where
  "grow rest s = s\<lparr>smsg := smsg s @ rest\<rparr>"

lemma grow_simps [simp]:
  "smsg (grow rest s) = smsg s @ rest" "cursor (grow rest s) = cursor s"
  "entire_msg_loaded (grow rest s) = entire_msg_loaded s"
  "grow rest (s\<lparr>cursor := i\<rparr>) = (grow rest s)\<lparr>cursor := i\<rparr>"
  by (simp_all add: grow_def)

locale matcher =
  fixes m :: "scanner \<Rightarrow> parse_status \<times> 'a \<times> scanner"
  assumes frame: "m s = (st, v, s') \<Longrightarrow> smsg s' = smsg s \<and> entire_msg_loaded s' = entire_msg_loaded s"
    and inside: "m s = (st, v, s') \<Longrightarrow> cursor s \<le> length (smsg s) \<Longrightarrow> cursor s' \<le> length (smsg s)"
    and decided: "m s = (st, v, s') \<Longrightarrow> \<not> entire_msg_loaded s \<Longrightarrow> cursor s \<le> length (smsg s) \<Longrightarrow>
      st \<noteq> PARSE_INCOMPLETE \<Longrightarrow> m (grow rest s) = (st, v, grow rest s')"
    and forward: "m s = (st, v, s') \<Longrightarrow> cursor s \<le> cursor s'"

text \<open>Tokens first: a complete token stays what it is.\<close>

lemma scan_while_extend:
  assumes "scan_while P msg i \<noteq> length msg" and "i \<le> length msg"
  shows "scan_while P (msg @ rest) i = scan_while P msg i"
proof -
  have "\<not> (\<forall>c\<in>set (drop i msg). P c)"
  proof
    assume "\<forall>c\<in>set (drop i msg). P c"
    then have e: "takeWhile P (drop i msg) = drop i msg"
      by (simp add: takeWhile_eq_all_conv)
    have "scan_while P msg i = length msg"
      unfolding scan_while_run [OF assms(2)] e using assms(2) by simp
    then show False
      using assms(1) by simp
  qed
  then show ?thesis
    using assms(2) by (auto simp: scan_while_run)
qed

lemma scan_quoted_extend:
  "scan_quoted msg i \<noteq> Inl PARSE_INCOMPLETE \<Longrightarrow> scan_quoted (msg @ rest) i = scan_quoted msg i"
proof (induction msg i rule: scan_quoted.induct)
  case (1 msg i)
  then show ?case
  proof (cases "i < length msg")
    case True
    then show ?thesis
      using 1 by (simp add: scan_quoted.simps [of _ i] Let_def nth_append split: if_splits)
        (simp add: scan_quoted.simps [of _ "Suc i"])
  qed (simp add: scan_quoted.simps [of msg i])
qed

lemma token_at_extend:
  assumes "token_at False msg i \<noteq> Inl PARSE_INCOMPLETE"
  shows "token_at False (msg @ rest) i = token_at False msg i"
proof -
  have lt: "i < length msg"
    using assms by (cases "length msg \<le> i") (simp_all add: token_at_def)
  have w: "scan_while P (msg @ rest) (i + 1) = scan_while P msg (i + 1) \<and>
      scan_while P msg (i + 1) < length (msg @ rest)" if "scan_while P msg (i + 1) \<noteq> length msg" for P
    using scan_while_extend [of P msg "i + 1" rest] scan_while_bounds [of "i + 1" msg P] lt that by simp
  have q: "scan_quoted (msg @ rest) (i + 1) = scan_quoted msg (i + 1)"
    if "scan_quoted msg (i + 1) \<noteq> Inl PARSE_INCOMPLETE"
    using that by (rule scan_quoted_extend)
  let ?c = "msg ! i"
  consider "is_identifier_char ?c" | "\<not> is_identifier_char ?c" "is_ws_char ?c"
    | "\<not> is_identifier_char ?c" "?c = CR" | "\<not> is_identifier_char ?c" "?c = QUOTE"
    | "\<not> is_identifier_char ?c" "\<not> is_ws_char ?c" "?c \<noteq> CR" "?c \<noteq> QUOTE"
    by blast
  then show ?thesis
  proof cases
    case 1
    then have "scan_while is_identifier_char msg (i + 1) \<noteq> length msg"
      using assms lt by (auto simp: token_at_def Let_def)
    then show ?thesis
      using 1 lt w [of is_identifier_char] by (simp add: token_at_def nth_append Let_def)
  next
    case 2
    then have "scan_while is_ws_char msg (i + 1) \<noteq> length msg"
      using assms lt by (auto simp: token_at_def Let_def)
    then show ?thesis
      using 2 lt w [of is_ws_char] by (simp add: token_at_def nth_append Let_def)
  next
    case 3
    then show ?thesis
      using assms lt by (auto simp: token_at_def nth_append Let_def split: if_splits)
  next
    case 4
    then show ?thesis
      using assms lt q by (auto simp: token_at_def nth_append Let_def split: sum.splits)
  next
    case 5
    then show ?thesis
      using assms lt by (simp add: token_at_def nth_append Let_def)
  qed
qed

lemma scanner_get_token_extend:
  assumes "scanner_get_token s \<noteq> Inl PARSE_INCOMPLETE" and "\<not> entire_msg_loaded s"
  shows "scanner_get_token (grow rest s) =
    (case scanner_get_token s of Inl e \<Rightarrow> Inl e | Inr (tok, ty, s') \<Rightarrow> Inr (tok, ty, grow rest s'))"
proof -
  have "token_at False (smsg s @ rest) (cursor s) = token_at False (smsg s) (cursor s)"
    using assms by (intro token_at_extend) (auto simp: scanner_get_token_def)
  then show ?thesis
    using assms(2) by (auto simp: scanner_get_token_def Let_def split: sum.splits)
qed


lemma token_step:
  assumes "scanner_get_token s = Inr (tok, ty, s')"
  shows "smsg s' = smsg s" "entire_msg_loaded s' = entire_msg_loaded s" "cursor s < cursor s'"
    "cursor s' \<le> length (smsg s)" "cursor s' - mp_length tok = cursor s" "mp_buf tok = cursor s"
    "mp_length tok = cursor s' - cursor s" "s'\<lparr>cursor := cursor s\<rparr> = s"
    "\<not> entire_msg_loaded s \<Longrightarrow> scanner_get_token (grow rest s) = Inr (tok, ty, grow rest s')"
    "cursor s \<le> cursor s'" "cursor s \<le> cursor s' - (cursor s' - cursor s)"
proof -
  note p = scanner_get_token_progress [OF assms]
  show "smsg s' = smsg s" "entire_msg_loaded s' = entire_msg_loaded s" "cursor s < cursor s'"
    "cursor s' \<le> length (smsg s)" "cursor s' - mp_length tok = cursor s" "mp_buf tok = cursor s"
    "mp_length tok = cursor s' - cursor s" "cursor s \<le> cursor s'"
    "cursor s \<le> cursor s' - (cursor s' - cursor s)"
    using p by simp_all
  show "s'\<lparr>cursor := cursor s\<rparr> = s"
    using p(5) by (metis (no_types) scanner.surjective scanner.update_convs(2))
  show "scanner_get_token (grow rest s) = Inr (tok, ty, grow rest s')" if "\<not> entire_msg_loaded s"
    using scanner_get_token_extend [of s rest] assms that by simp
qed

lemma token_error_extend:
  "scanner_get_token s = Inl st \<Longrightarrow> st \<noteq> PARSE_INCOMPLETE \<Longrightarrow> \<not> entire_msg_loaded s \<Longrightarrow>
     scanner_get_token (grow rest s) = Inl st"
  using scanner_get_token_extend [of s rest] by simp

definition no_value :: "parse_status \<times> scanner \<Rightarrow> parse_status \<times> unit \<times> scanner" where
  "no_value r = (case r of (st, s) \<Rightarrow> (st, (), s))"

definition get_token_result :: "scanner \<Rightarrow> parse_status \<times> (memptr \<times> token_type) option \<times> scanner" where
  "get_token_result s =
     (case scanner_get_token s of
        Inl st \<Rightarrow> (st, None, s) | Inr (tok, ty, s') \<Rightarrow> (PARSE_OK, Some (tok, ty), s'))"

interpretation token: matcher get_token_result
  by unfold_locales
     (auto simp: get_token_result_def token_step token_error_extend split: sum.splits)

lemma skip_blank_lines_extend:
  "skip_blank_lines s = (st, s') \<Longrightarrow> smsg s' = smsg s \<and> entire_msg_loaded s' = entire_msg_loaded s \<and>
     cursor s \<le> cursor s' \<and>
     (cursor s \<le> length (smsg s) \<longrightarrow> cursor s' \<le> length (smsg s)) \<and>
     (\<not> entire_msg_loaded s \<longrightarrow> st \<noteq> PARSE_INCOMPLETE \<longrightarrow>
        skip_blank_lines (grow rest s) = (st, grow rest s'))"
proof (induction s rule: skip_blank_lines.induct)
  case (1 s)
  show ?case
  proof (cases "scanner_get_token s")
    case (Inl e)
    then show ?thesis
      using 1(2) by (auto simp: skip_blank_lines.simps [of s] skip_blank_lines.simps [of "grow rest _"]
        token_error_extend)
  next
    case (Inr r)
    then obtain tok ty s1 where t: "scanner_get_token s = Inr (tok, ty, s1)"
      by (cases r) auto
    note st = token_step [OF t]
    show ?thesis
    proof (cases "ty = TT_WHITESPACE \<or> ty = TT_CRLF")
      case True
      then have "skip_blank_lines s1 = (st, s')"
        using 1(2) t by (simp add: skip_blank_lines.simps [of s])
      moreover have "\<not> entire_msg_loaded s \<Longrightarrow>
          skip_blank_lines (grow rest s) = skip_blank_lines (grow rest s1)"
        using True st(9) by (subst skip_blank_lines.simps) simp
      ultimately show ?thesis
        using 1(1) [OF t refl refl True] st(1-4) by simp
    next
      case False
      then have "st = PARSE_OK" "s' = s"
        using 1(2) t st(5,8) by (auto simp: skip_blank_lines.simps [of s])
      moreover have "\<not> entire_msg_loaded s \<Longrightarrow> skip_blank_lines (grow rest s) = (PARSE_OK, grow rest s)"
        using False st(5,8,9) by (subst skip_blank_lines.simps) (simp flip: grow_simps(4))
      ultimately show ?thesis
        by simp
    qed
  qed
qed


interpretation blank_lines: matcher "\<lambda>s. no_value (skip_blank_lines s)"
  using skip_blank_lines_extend by unfold_locales (fastforce simp: no_value_def split: prod.splits)+

lemma skip_lws_step_extend:
  assumes "skip_lws_step s = (st, matched, s')"
  shows "smsg s' = smsg s \<and> entire_msg_loaded s' = entire_msg_loaded s \<and>
     (cursor s \<le> length (smsg s) \<longrightarrow> cursor s' \<le> length (smsg s)) \<and> cursor s \<le> cursor s' \<and>
     (\<not> entire_msg_loaded s \<longrightarrow> st \<noteq> PARSE_INCOMPLETE \<longrightarrow>
        skip_lws_step (grow rest s) = (st, matched, grow rest s'))"
proof (cases "scanner_get_token s")
  case (Inl e)
  then show ?thesis
    using assms by (auto simp: skip_lws_step_def token_error_extend)
next
  case (Inr r)
  then obtain tok ty s1 where t: "scanner_get_token s = Inr (tok, ty, s1)"
    by (cases r) auto
  note st = token_step [OF t]
  show ?thesis
  proof (cases "ty = TT_CRLF")
    case False
    then show ?thesis
      using assms t st(1-4) st(9) [of rest] by (auto simp: skip_lws_step_def split: if_splits)
  next
    case True
    show ?thesis
    proof (cases "scanner_get_token s1")
      case (Inl e)
      then show ?thesis
        using assms t st(1-4) st(9) [of rest] True token_error_extend [OF Inl, of rest]
        by (auto simp: skip_lws_step_def)
    next
      case (Inr r)
      then obtain tok2 ty2 s2 where t2: "scanner_get_token s1 = Inr (tok2, ty2, s2)"
        by (cases r) auto
      note st2 = token_step [OF t2]
      show ?thesis
        using assms t st(1-4) st(9) [of rest] True t2 st2(1-4) st2(9) [of rest]
        by (auto simp: skip_lws_step_def split: if_splits)
    qed
  qed
qed

lemma skip_lws_loop_extend:
  "skip_lws_loop s = (st, s') \<Longrightarrow> smsg s' = smsg s \<and> entire_msg_loaded s' = entire_msg_loaded s \<and>
     (cursor s \<le> length (smsg s) \<longrightarrow> cursor s' \<le> length (smsg s)) \<and> cursor s \<le> cursor s' \<and>
     (\<not> entire_msg_loaded s \<longrightarrow> st \<noteq> PARSE_INCOMPLETE \<longrightarrow>
        skip_lws_loop (grow rest s) = (st, grow rest s'))"
proof (induction s rule: skip_lws_loop.induct)
  case (1 s)
  obtain st1 matched s1 where r: "skip_lws_step s = (st1, matched, s1)"
    by (cases "skip_lws_step s") auto
  note e = skip_lws_step_extend [OF r, of rest]
  show ?case
  proof (cases matched)
    case True
    then have ok: "st1 = PARSE_OK"
      using r by (auto simp: skip_lws_step_def split: sum.splits if_splits)
    have "skip_lws_loop s1 = (st, s')"
      using 1(2) r True by (simp add: skip_lws_loop.simps [of s])
    moreover have "\<not> entire_msg_loaded s \<Longrightarrow> skip_lws_loop (grow rest s) = skip_lws_loop (grow rest s1)"
      using e True ok by (subst skip_lws_loop.simps) simp
    ultimately show ?thesis
      using 1(1) [OF r [symmetric] refl True] e by simp
  next
    case False
    then have "st = st1" "s' = s1"
      using 1(2) r by (auto simp: skip_lws_loop.simps [of s])
    moreover have "\<not> entire_msg_loaded s \<Longrightarrow> st1 \<noteq> PARSE_INCOMPLETE \<Longrightarrow>
        skip_lws_loop (grow rest s) = (st1, grow rest s1)"
      using e False by (subst skip_lws_loop.simps) simp
    ultimately show ?thesis
      using e by simp
  qed
qed

interpretation lws: matcher "\<lambda>s. no_value (skip_lws s)"
  using skip_lws_loop_extend
  by unfold_locales (fastforce simp: no_value_def skip_lws_def split: prod.splits if_splits)+

lemma match_non_ws_string_loop_extend:
  "match_non_ws_string_loop s len = (st, n, s') \<Longrightarrow>
     smsg s' = smsg s \<and> entire_msg_loaded s' = entire_msg_loaded s \<and>
     (cursor s \<le> length (smsg s) \<longrightarrow> cursor s' \<le> length (smsg s)) \<and>
     cursor s' + len = cursor s + n \<and> cursor s \<le> cursor s' \<and>
     (\<not> entire_msg_loaded s \<longrightarrow> st \<noteq> PARSE_INCOMPLETE \<longrightarrow>
        match_non_ws_string_loop (grow rest s) len = (st, n, grow rest s'))"
proof (induction s len rule: match_non_ws_string_loop.induct)
  case (1 s len)
  show ?case
  proof (cases "scanner_get_token s")
    case (Inl e)
    then show ?thesis
      using 1(2) by (auto simp: match_non_ws_string_loop.simps [of s]
        match_non_ws_string_loop.simps [of "grow rest _"] token_error_extend)
  next
    case (Inr r)
    then obtain tok ty s1 where t: "scanner_get_token s = Inr (tok, ty, s1)"
      by (cases r) auto
    note st = token_step [OF t]
    show ?thesis
    proof (cases "ty \<noteq> TT_WHITESPACE \<and> ty \<noteq> TT_CRLF")
      case True
      then have "match_non_ws_string_loop s1 (len + mp_length tok) = (st, n, s')"
        using 1(2) t by (simp add: match_non_ws_string_loop.simps [of s])
      moreover have "\<not> entire_msg_loaded s \<Longrightarrow> match_non_ws_string_loop (grow rest s) len =
          match_non_ws_string_loop (grow rest s1) (len + mp_length tok)"
        using True st(9) by (subst match_non_ws_string_loop.simps) simp
      ultimately show ?thesis
        using 1(1) [OF t refl refl True] st(1-4,7) by auto
    next
      case False
      then have "st = PARSE_OK" "n = len" "s' = s"
        using 1(2) t st(5,8) by (auto simp: match_non_ws_string_loop.simps [of s])
      moreover have "\<not> entire_msg_loaded s \<Longrightarrow>
          match_non_ws_string_loop (grow rest s) len = (PARSE_OK, len, grow rest s)"
        using False st(5,8,9) by (subst match_non_ws_string_loop.simps) (auto simp flip: grow_simps(4))
      ultimately show ?thesis
        by simp
    qed
  qed
qed

interpretation non_ws: matcher match_non_ws_string
  using match_non_ws_string_loop_extend
  by unfold_locales (fastforce simp: match_non_ws_string_def Let_def split: prod.splits if_splits)+

lemma read_until_crlf_loop_extend:
  "read_until_crlf_loop s = (st, s') \<Longrightarrow> smsg s' = smsg s \<and> entire_msg_loaded s' = entire_msg_loaded s \<and>
     (cursor s \<le> length (smsg s) \<longrightarrow> cursor s' \<le> length (smsg s)) \<and> cursor s \<le> cursor s' \<and>
     (\<not> entire_msg_loaded s \<longrightarrow> st \<noteq> PARSE_INCOMPLETE \<longrightarrow>
        read_until_crlf_loop (grow rest s) = (st, grow rest s'))"
proof (induction s rule: read_until_crlf_loop.induct)
  case (1 s)
  show ?case
  proof (cases "scanner_get_token s")
    case (Inl e)
    then show ?thesis
      using 1(2) by (auto simp: read_until_crlf_loop.simps [of s]
        read_until_crlf_loop.simps [of "grow rest _"] token_error_extend)
  next
    case (Inr r)
    then obtain tok ty s1 where t: "scanner_get_token s = Inr (tok, ty, s1)"
      by (cases r) auto
    note st = token_step [OF t]
    show ?thesis
    proof (cases "ty \<noteq> TT_CRLF")
      case True
      then have "read_until_crlf_loop s1 = (st, s')"
        using 1(2) t by (simp add: read_until_crlf_loop.simps [of s])
      moreover have "\<not> entire_msg_loaded s \<Longrightarrow>
          read_until_crlf_loop (grow rest s) = read_until_crlf_loop (grow rest s1)"
        using True st(9) by (subst read_until_crlf_loop.simps) simp
      ultimately show ?thesis
        using 1(1) [OF t refl refl True] st(1-4) by simp
    next
      case False
      then have "st = PARSE_OK" "s' = s"
        using 1(2) t st(5,8) by (auto simp: read_until_crlf_loop.simps [of s])
      moreover have "\<not> entire_msg_loaded s \<Longrightarrow> read_until_crlf_loop (grow rest s) = (PARSE_OK, grow rest s)"
        using False st(5,8,9) by (subst read_until_crlf_loop.simps) (simp flip: grow_simps(4))
      ultimately show ?thesis
        by simp
    qed
  qed
qed

interpretation line: matcher read_until_crlf
  using read_until_crlf_loop_extend
  by unfold_locales (fastforce simp: read_until_crlf_def split: prod.splits if_splits)+

interpretation literal: matcher "\<lambda>s. no_value (match_char s c cs)" for c cs
  by unfold_locales (auto simp: no_value_def match_char_def Let_def nth_append split: if_splits)


lemma match_raw_value_loop_extend:
  "match_raw_value_loop p s crlf len = (st, n, s') \<Longrightarrow> cursor s \<le> length (smsg s) \<Longrightarrow>
     p + len \<le> cursor s \<Longrightarrow> (\<forall>k. crlf = Some k \<longrightarrow> k \<le> length (smsg s)) \<Longrightarrow>
     smsg s' = smsg s \<and> entire_msg_loaded s' = entire_msg_loaded s \<and>
     cursor s' \<le> length (smsg s) \<and> p + n \<le> length (smsg s) \<and>
     (\<not> entire_msg_loaded s \<longrightarrow> st \<noteq> PARSE_INCOMPLETE \<longrightarrow>
        match_raw_value_loop p (grow rest s) crlf len = (st, n, grow rest s'))"
proof (induction p s crlf len rule: match_raw_value_loop.induct)
  case (1 p s crlf len)
  show ?case
  proof (cases "scanner_get_token s")
    case (Inl e)
    then show ?thesis
      using "1.prems" by (auto simp: match_raw_value_loop.simps [of p s]
        match_raw_value_loop.simps [of p "grow rest _"] token_error_extend)
  next
    case (Inr r)
    then obtain tok ty s1 where t: "scanner_get_token s = Inr (tok, ty, s1)"
      by (cases r) auto
    note st = token_step [OF t]
    note unfold = match_raw_value_loop.simps [of p s crlf len]
    note unfold' = match_raw_value_loop.simps [of p "grow rest s" crlf len]
    show ?thesis
    proof (cases crlf)
      case None
      then show ?thesis
        using 1(1) [OF t refl refl None] "1.prems" st(1-7) st(9) [of rest] t unfold unfold'
        by (auto split: if_splits)
    next
      case (Some k)
      show ?thesis
      proof (cases "ty = TT_WHITESPACE")
        case True
        then show ?thesis
          using 1(2) [OF t refl refl Some True] "1.prems" st(1-7) st(9) [of rest] t Some unfold unfold'
          by auto
      next
        case False
        then show ?thesis
          using "1.prems" st(1-7) st(9) [of rest] t Some unfold unfold' by auto
      qed
    qed
  qed
qed

lemma trim_right_extend: "i + n \<le> length msg \<Longrightarrow> trim_right (msg @ rest) i n = trim_right msg i n"
  by (induction n) (auto simp: Let_def nth_append)

lemma match_raw_value_frame:
  "match_raw_value_loop p s crlf len = (st, n, s') \<Longrightarrow>
     smsg s' = smsg s \<and> entire_msg_loaded s' = entire_msg_loaded s \<and>
     (p \<le> cursor s \<longrightarrow> (\<forall>k. crlf = Some k \<longrightarrow> p \<le> k) \<longrightarrow> p \<le> cursor s')"
proof (induction p s crlf len rule: match_raw_value_loop.induct)
  case (1 p s crlf len)
  show ?case
  proof (cases "scanner_get_token s")
    case (Inl e)
    then show ?thesis
      using "1.prems" by (auto simp: match_raw_value_loop.simps [of p s])
  next
    case (Inr r)
    then obtain tok ty s1 where t: "scanner_get_token s = Inr (tok, ty, s1)"
      by (cases r) auto
    show ?thesis
      using 1 token_step(1-5) [OF t] t
      by (cases crlf) (auto simp: match_raw_value_loop.simps [of p s] split: if_splits)
  qed
qed

interpretation raw_value: matcher match_raw_value
proof (unfold_locales, goal_cases)
  case (1 s st v s')
  then show ?case
    using match_raw_value_frame [of "cursor s" s None 0] by (auto simp: match_raw_value_def split: prod.splits)
next
  case (2 s st v s')
  then obtain n where n: "match_raw_value_loop (cursor s) s None 0 = (st, n, s')"
    by (auto simp: match_raw_value_def split: prod.splits)
  show ?case
    using match_raw_value_loop_extend [OF n] 2(2) by simp
next
  case (3 s st v s' rest)
  then obtain n where n: "match_raw_value_loop (cursor s) s None 0 = (st, n, s')"
    by (auto simp: match_raw_value_def split: prod.splits)
  then show ?case
    using match_raw_value_loop_extend [OF n, of rest] 3 trim_right_extend [of "cursor s" n "smsg s" rest]
    by (auto simp: match_raw_value_def)
next
  case (4 s st v s')
  then show ?case
    using match_raw_value_frame [of "cursor s" s None 0] by (auto simp: match_raw_value_def split: prod.splits)
qed

section \<open>Numbers do not depend on what follows their token\<close>

lemma takeWhile_stop: "\<not> P c \<Longrightarrow> takeWhile P (xs @ c # t) = takeWhile P xs"
  by (induction xs) auto

lemma digit_is_identifier: "digit_val c < 16 \<Longrightarrow> is_identifier_char c"
  by (auto simp: digit_val_def ctype_defs is_identifier_char_def is_separator_char_def strchr_hit_def
    sc_def split: if_splits)

lemma x_is_identifier: "is_identifier_char CHR ''x''" "is_identifier_char CHR ''X''" "is_identifier_char CHR ''0''"
  by (simp_all add: is_identifier_char_def is_separator_char_def strchr_hit_def sc_def)

lemma uc_32: "uc c = 32 \<Longrightarrow> c = CHR '' ''"
  using of_char_eq_iff [where ?'a = nat, of c "CHR '' ''"] by simp

lemma identifier_not_space: "is_identifier_char c \<Longrightarrow> \<not> isspace c"
proof
  assume i: "is_identifier_char c" and "isspace c"
  then have "uc c = 32"
    by (auto simp: is_identifier_char_def isspace_def sc_def split: if_splits)
  then show False
    using i uc_32 [of c] by (simp add: is_identifier_char_def is_separator_char_def strchr_hit_def)
qed

lemma list3_cases:
  obtains "b = []" | x where "b = [x]" | x y where "b = [x, y]" | x y z u where "b = x # y # z # u"
  by (metis neq_Nil_conv)

lemma hex_prefix_stop:
  assumes "\<not> is_identifier_char c"
  shows "hex_prefix base (b @ c # u) = hex_prefix base b"
proof -
  have nd: "\<not> digit_val c < 16"
    using assms digit_is_identifier [of c] by auto
  have nx: "c \<noteq> CHR ''x''" "c \<noteq> CHR ''X''" "c \<noteq> CHR ''0''"
    using assms x_is_identifier by auto
  show ?thesis
  proof (cases b rule: list3_cases)
    case (3 x y)
    then show ?thesis using nd by (simp add: hex_prefix_def)
  qed (use nx in \<open>simp_all add: hex_prefix_def\<close>)
qed

lemma strtol_token:
  assumes "a \<noteq> []" and "is_identifier_char (hd a)" and "\<not> is_identifier_char c" and "base \<le> 16"
  shows "strtol base (a @ c # t) =
    strtol_result (hd a = CHR ''-'') base
      (digits_of base (drop (hex_prefix base (drop (sign_len a) a)) (drop (sign_len a) a)))
      (sign_len a + hex_prefix base (drop (sign_len a) a))"
proof -
  have ws: "takeWhile isspace (a @ c # t) = []"
    using assms(1,2) identifier_not_space by (cases a) auto
  have nd: "\<not> digit_val c < base"
    using assms(3,4) digit_is_identifier [of c] by auto
  have sg: "sign_len (a @ c # t) = sign_len a"
    using assms(1) by (simp add: sign_len_def)
  define b where "b = drop (sign_len a) a"
  have dr: "drop (sign_len a) (a @ c # t) = b @ c # t"
    using assms(1) by (cases a) (auto simp: b_def sign_len_def)
  define pre where "pre = hex_prefix base b"
  have "pre \<le> length b"
    by (simp add: pre_def hex_prefix_def)
  then have ds: "digits_of base (drop pre (b @ c # t)) = digits_of base (drop pre b)"
    using nd by (simp add: digits_of_def takeWhile_stop)
  show ?thesis
    using assms(1) hex_prefix_stop [OF assms(3), of base b t] ds
    by (simp add: strtol_def ws sg dr b_def [symmetric] pre_def [symmetric] del: drop_append drop_drop)
qed

lemma match_int_extend:
  assumes "match_int s base = (st, v, s')" and "\<not> entire_msg_loaded s" and "st \<noteq> PARSE_INCOMPLETE"
    and "base \<le> 16"
  shows "match_int (grow rest s) base = (st, v, grow rest s')"
proof (cases "scanner_get_token s")
  case (Inl e)
  then show ?thesis
    using assms by (auto simp: match_int_def token_error_extend)
next
  case (Inr r)
  then obtain tok ty s1 where t: "scanner_get_token s = Inr (tok, ty, s1)"
    by (cases r) auto
  note st = token_step [OF t]
  have "strtol base (drop (cursor s) (smsg s @ rest)) = strtol base (drop (cursor s) (smsg s))"
    if "ty = TT_IDENTIFIER"
  proof -
    let ?msg = "smsg s" and ?i = "cursor s"
    have tk: "token_at False ?msg ?i = Inr (TT_IDENTIFIER, cursor s1)"
      using t that assms(2) st(3,7) by (auto simp: scanner_get_token_def Let_def split: sum.splits)
    then have lt: "?i < length ?msg" and id: "is_identifier_char (?msg ! ?i)"
      and stop: "cursor s1 = scan_while is_identifier_char ?msg (?i + 1)" "cursor s1 \<noteq> length ?msg"
      by (auto simp: token_at_def Let_def split: if_splits sum.splits)
    let ?a = "takeWhile is_identifier_char (drop ?i ?msg)"
    have ne: "?a \<noteq> []" "is_identifier_char (hd ?a)"
      using lt id by (simp_all add: Cons_nth_drop_Suc [symmetric])
    have "dropWhile is_identifier_char (drop ?i ?msg) \<noteq> []"
    proof
      assume "dropWhile is_identifier_char (drop ?i ?msg) = []"
      then have "takeWhile is_identifier_char (drop (?i + 1) ?msg) = drop (?i + 1) ?msg"
        using lt id by (simp add: Cons_nth_drop_Suc [symmetric] takeWhile_eq_all_conv)
      then have "scan_while is_identifier_char ?msg (?i + 1) = ?i + 1 + length (drop (?i + 1) ?msg)"
        using lt by (simp only: scan_while_run)
      then show False
        using stop lt by simp
    qed
    then obtain c u where cu: "drop ?i ?msg = ?a @ c # u" "\<not> is_identifier_char c"
      by (metis hd_dropWhile list.exhaust_sel takeWhile_dropWhile_id)
    then have "drop ?i (?msg @ rest) = ?a @ c # u @ rest"
      using lt by simp
    then show ?thesis
      using cu(1) strtol_token [OF ne cu(2) assms(4), of u] strtol_token [OF ne cu(2) assms(4), of "u @ rest"]
      by simp
  qed
  then show ?thesis
    using assms(1,2) t st(6,9) by (auto simp: match_int_def split: prod.splits if_splits)
qed

interpretation dec: matcher "\<lambda>s. match_int s 10"
proof (unfold_locales, goal_cases)
  case (3 s st v s' rest)
  then show ?case by (intro match_int_extend) simp_all
qed (auto simp: match_int_def token_step split: sum.splits prod.splits if_splits)

interpretation hex: matcher "\<lambda>s. match_int s 16"
proof (unfold_locales, goal_cases)
  case (3 s st v s' rest)
  then show ?case by (intro match_int_extend) simp_all
qed (auto simp: match_int_def token_step split: sum.splits prod.splits if_splits)


section \<open>Properties\<close>

text \<open>The text of a token of each type.\<close>

fun token_text_ok :: "token_type \<Rightarrow> string \<Rightarrow> bool" where
  "token_text_ok TT_IDENTIFIER t = list_all is_identifier_char t"
| "token_text_ok TT_WHITESPACE t = list_all (\<lambda>c. is_ws_char c) t"
| "token_text_ok TT_CRLF t = (t = [CR, LF] \<or> t = [LF])"
| "token_text_ok TT_QUOTEDSTRING t = (2 \<le> length t \<and> hd t = QUOTE \<and> last t = QUOTE)"
| "token_text_ok TT_SEPARATOR t = (length t = 1 \<and> is_separator_char (hd t))"
| "token_text_ok TT_CTRL t = (length t = 1 \<and> is_control_char (hd t))"

lemma scan_while_text:
  assumes "i < length msg" and "P (msg ! i)" and "stop = scan_while P msg (i + 1)"
  shows "list_all P (take (stop - i) (drop i msg))"
proof -
  have "stop - i = Suc (length (takeWhile P (drop (Suc i) msg)))"
    using assms by (simp add: scan_while_run)
  moreover have "take (length (takeWhile P xs)) xs = takeWhile P xs" for xs
    by (rule takeWhile_eq_take [symmetric])
  ultimately show ?thesis
    using assms(1,2) by (auto simp: Cons_nth_drop_Suc [symmetric] list_all_iff dest: set_takeWhileD)
qed

lemma scan_quoted_last: "scan_quoted msg i = Inr j \<Longrightarrow> msg ! (j - 1) = QUOTE"
proof (induction msg i rule: scan_quoted.induct)
  case (1 msg i)
  then show ?case
    by (subst (asm) (3) scan_quoted.simps) (auto simp: Let_def split: if_splits)
qed

lemma take_drop_ends:
  assumes "i < j" and "j \<le> length msg"
  shows "hd (take (j - i) (drop i msg)) = msg ! i" and "last (take (j - i) (drop i msg)) = msg ! (j - 1)"
    and "length (take (j - i) (drop i msg)) = j - i"
  using assms by (simp_all add: hd_drop_conv_nth hd_take last_conv_nth)

lemma token_at_text:
  assumes "token_at entire msg i = Inr (ty, stop)"
  shows "token_text_ok ty (take (stop - i) (drop i msg))"
proof -
  note b = token_at_bounds [OF assms]
  have lt: "i < length msg"
    using b by simp
  have two: "take 2 (drop i msg) = [msg ! i, msg ! (i + 1)]" if "i + 1 < length msg"
    using that lt by (simp add: Cons_nth_drop_Suc [symmetric] numeral_2_eq_2)
  have one: "take 1 (drop i msg) = [msg ! i]"
    using lt by (simp add: Cons_nth_drop_Suc [symmetric])
  show ?thesis
  proof (cases "is_identifier_char (msg ! i) \<or> is_ws_char (msg ! i)")
    case True
    then show ?thesis
      using assms scan_while_text [OF lt, of is_identifier_char stop]
        scan_while_text [OF lt, of is_ws_char stop] lt
      by (auto simp: token_at_def Let_def split: if_splits)
  next
    case False
    show ?thesis
    proof (cases "msg ! i = QUOTE")
      case True
      then have "scan_quoted msg (i + 1) = Inr stop" "ty = TT_QUOTEDSTRING"
        using assms False lt by (auto simp: token_at_def split: sum.splits)
      then show ?thesis
        using scan_quoted_last [of msg "i + 1" stop] scan_quoted_bounds [of msg "i + 1" stop]
          take_drop_ends [of i stop msg] b True by simp
    next
      case nq: False
      then show ?thesis
        using assms False lt one two b
        by (auto simp: token_at_def Let_def hd_drop_conv_nth is_control_char_def sc_def split: if_splits)
    qed
  qed
qed

text \<open>
  A token that \<open>scanner_get_token\<close> delivers is a non-empty piece of the
  message at the cursor, lies inside the message, its characters are those of
  its type, and the cursor moves exactly behind it.
\<close>

lemma scanner_get_token_sound:
  assumes "scanner_get_token s = Inr (tok, ty, s')"
  shows "mp_buf tok = cursor s \<and> 0 < mp_length tok \<and> cursor s + mp_length tok \<le> length (smsg s) \<and>
    token_text_ok ty (mp_text (smsg s) tok) \<and> s' = s\<lparr>cursor := cursor s + mp_length tok\<rparr>"
proof -
  obtain stop where t: "token_at (entire_msg_loaded s) (smsg s) (cursor s) = Inr (ty, stop)"
    and k: "tok = \<lparr>mp_buf = cursor s, mp_length = stop - cursor s\<rparr>"
    using assms by (auto simp: scanner_get_token_def Let_def split: sum.splits)
  show ?thesis
    using scanner_get_token_progress [OF assms] token_at_text [OF t] k by (simp add: mp_text_def)
qed

definition demo_scanner :: scanner where
  "demo_scanner = \<lparr>smsg = ''GET /index'', cursor = 0, entire_msg_loaded = False\<rparr>"

lemma demo_token:
  "scanner_get_token demo_scanner = Inr (\<lparr>mp_buf = 0, mp_length = 3\<rparr>, TT_IDENTIFIER, demo_scanner\<lparr>cursor := 3\<rparr>)"
  by (simp add: scanner_get_token_def token_at_def demo_scanner_def Let_def scan_while.simps
    is_identifier_char_def is_separator_char_def strchr_hit_def sc_def)

text \<open>
  While a message is still arriving, the scanner's answer is final unless it
  asks for more input: whatever bytes follow, the same token, or the same
  failure, is reported.
\<close>

lemma scanner_get_token_final:
  assumes "\<not> entire_msg_loaded s" and "scanner_get_token s \<noteq> Inl PARSE_INCOMPLETE"
  shows "scanner_get_token (s\<lparr>smsg := smsg s @ rest\<rparr>) =
    (case scanner_get_token s of
       Inl e \<Rightarrow> Inl e | Inr (tok, ty, s') \<Rightarrow> Inr (tok, ty, s'\<lparr>smsg := smsg s @ rest\<rparr>))"
proof (cases "scanner_get_token s")
  case (Inl e)
  then show ?thesis
    using scanner_get_token_extend [OF assms(2,1), of rest] by (simp add: grow_def)
next
  case (Inr r)
  then obtain tok ty s' where t: "scanner_get_token s = Inr (tok, ty, s')"
    by (cases r) auto
  show ?thesis
    using scanner_get_token_extend [OF assms(2,1), of rest] token_step(1) [OF t] t by (simp add: grow_def)
qed

end
