(* ===== verification/UriEscape.thy ===== *)
theory UriEscape
  imports HttpScanner
begin

text \<open>
  Characters and escapes of \<^verbatim>\<open>compa/src/genlib/net/uri/uri.cpp\<close>. A \<open>char*\<close> argument is
  the list of the bytes that may be accessed from it (the terminating NUL
  included); \<open>None\<close> is an access outside of it.
\<close>

definition rd :: "string \<Rightarrow> nat \<Rightarrow> char option" where
  "rd mem i = (if i < length mem then Some (mem ! i) else None)"

definition wr :: "string \<Rightarrow> nat \<Rightarrow> char \<Rightarrow> string option" where
  "wr mem i c = (if i < length mem then Some (mem[i := c]) else None)"

section \<open>Character classes\<close>

definition RESERVED :: string where
  "RESERVED = '';/?:@&=+$,{}''"

definition MARK :: string where
  "MARK = ''-_.!~*'' @ [CHR 0x27] @ ''()''"

definition is_reserved :: "char \<Rightarrow> bool" where
  "is_reserved c = strchr_hit RESERVED c"

definition is_mark :: "char \<Rightarrow> bool" where
  "is_mark c = strchr_hit MARK c"

definition is_unreserved :: "char \<Rightarrow> bool" where
  "is_unreserved c \<longleftrightarrow> isalnum c \<or> is_mark c"

text \<open>The three characters are read from left to right and only as far as needed.\<close>

definition is_escaped :: "string \<Rightarrow> nat \<Rightarrow> bool option" where
  "is_escaped mem i =
     (case rd mem i of
        None \<Rightarrow> None
      | Some c0 \<Rightarrow>
          if c0 \<noteq> CHR ''%'' then Some False
          else
            (case rd mem (i + 1) of
               None \<Rightarrow> None
             | Some c1 \<Rightarrow>
                 if \<not> isxdigit c1 then Some False
                 else
                   (case rd mem (i + 2) of
                      None \<Rightarrow> None
                    | Some c2 \<Rightarrow> Some (isxdigit c2))))"

section \<open>Decoding\<close>

text \<open>
  The copying loop: \<open>j\<close> is written with \<open>tempChar\<close>, the next one is read from
  \<open>i\<close> as long as that is below \<open>max\<close>.
\<close>

function replace_escaped_loop :: "string \<Rightarrow> nat \<Rightarrow> nat \<Rightarrow> nat \<Rightarrow> char \<Rightarrow> string option" where
  "replace_escaped_loop mem mx i j tempChar =
     (if j < mx then
        (case wr mem j tempChar of
           None \<Rightarrow> None
         | Some mem1 \<Rightarrow>
             if i < mx then
               (case rd mem1 i of
                  None \<Rightarrow> None
                | Some c \<Rightarrow> replace_escaped_loop mem1 mx (i + 1) (j + 1) c)
             else replace_escaped_loop mem1 mx (i + 1) (j + 1) NUL)
      else Some mem)"
  by pat_completeness auto
termination
  by (relation "measure (\<lambda>(mem, mx, i, j, c). mx - j)") auto

definition replace_escaped :: "string \<Rightarrow> nat \<Rightarrow> nat \<Rightarrow> (string \<times> nat \<times> int) option" where
  "replace_escaped mem index mx =
     (case is_escaped mem index of
        None \<Rightarrow> None
      | Some False \<Rightarrow> Some (mem, mx, 0)
      | Some True \<Rightarrow>
          let tempInt = 16 * digit_val (mem ! (index + 1)) + digit_val (mem ! (index + 2)) in
          (case replace_escaped_loop mem mx (index + 3) index (char_of tempInt) of
             None \<Rightarrow> None
           | Some mem1 \<Rightarrow> Some (mem1, sz_sub mx 2, 1)))"

partial_function (option) remove_escaped_chars_loop ::
    "string \<Rightarrow> nat \<Rightarrow> nat \<Rightarrow> (string \<times> nat) option" where
  "remove_escaped_chars_loop mem i sz =
     (if i < sz then
        (case replace_escaped mem i sz of
           None \<Rightarrow> None
         | Some (mem1, sz1, ret) \<Rightarrow> remove_escaped_chars_loop mem1 (i + 1) sz1)
      else Some (mem, sz))"

definition UPNP_E_SUCCESS :: int where
  "UPNP_E_SUCCESS = 0"

definition remove_escaped_chars :: "string \<Rightarrow> nat \<Rightarrow> (string \<times> nat \<times> int) option" where
  "remove_escaped_chars mem sz =
     (case remove_escaped_chars_loop mem 0 sz of
        None \<Rightarrow> None
      | Some (mem1, sz1) \<Rightarrow> Some (mem1, sz1, UPNP_E_SUCCESS))"

declare replace_escaped_loop.simps [simp del]

section \<open>The reference decoder\<close>

fun decode :: "string \<Rightarrow> string" where
  "decode (c # h # l # s) =
     (if c = CHR ''%'' \<and> isxdigit h \<and> isxdigit l
      then char_of (16 * digit_val h + digit_val l) # decode s
      else c # decode (h # l # s))"
| "decode s = s"

lemma length_decode: "length (decode s) \<le> length s"
  by (induction s rule: decode.induct) auto

lemma wr_middle: "length pre = j \<Longrightarrow> wr (pre @ m # rest) j c = Some ((pre @ [c]) @ rest)"
  by (auto simp: wr_def list_update_append)

lemma replace_escaped_loop_fill:
  "length pre = j \<Longrightarrow> mx = j + length mid \<Longrightarrow> mx \<le> i \<Longrightarrow>
     replace_escaped_loop (pre @ mid @ post) mx i j c =
       Some (pre @ take (length mid) (c # replicate (length mid) NUL) @ post)"
proof (induction mid arbitrary: pre i j c)
  case Nil
  then show ?case by (simp add: replace_escaped_loop.simps)
next
  case (Cons m mid)
  have "wr (pre @ (m # mid) @ post) j c = Some ((pre @ [c]) @ mid @ post)"
    using wr_middle [OF Cons.prems(1), of m "mid @ post" c] by simp
  then show ?case
    using Cons.IH [of "pre @ [c]" "j + 1" "i + 1" NUL] Cons.prems
    by (subst replace_escaped_loop.simps) (cases mid, auto)
qed

lemma replace_escaped_loop_shift:
  "length pre = j \<Longrightarrow> i = j + length mid \<Longrightarrow> mx = i + length post \<Longrightarrow> mid \<noteq> [] \<Longrightarrow>
     replace_escaped_loop (pre @ mid @ post @ t) mx i j c =
       Some (pre @ c # post @ replicate (length mid - 1) NUL @ t)"
proof (induction post arbitrary: pre mid i j c)
  case Nil
  then show ?case
    using replace_escaped_loop_fill [of pre j mx mid i t c]
    by (cases mid) (auto simp flip: replicate_Suc)
next
  case (Cons p post)
  then obtain m mid' where mid: "mid = m # mid'"
    by (cases mid) auto
  have w: "wr (pre @ mid @ (p # post) @ t) j c = Some ((pre @ [c]) @ (mid' @ [p]) @ post @ t)"
    using wr_middle [OF Cons.prems(1), of m "mid' @ p # post @ t" c] mid by simp
  have r: "rd ((pre @ [c]) @ (mid' @ [p]) @ post @ t) i = Some p"
    using Cons.prems mid by (simp add: rd_def nth_append)
  have "replace_escaped_loop ((pre @ [c]) @ (mid' @ [p]) @ post @ t) mx (i + 1) (j + 1) p =
      Some ((pre @ [c]) @ p # post @ replicate (length (mid' @ [p]) - 1) NUL @ t)"
    using Cons.prems mid by (intro Cons.IH) simp_all
  then show ?case
    using w r Cons.prems mid by (subst replace_escaped_loop.simps) simp
qed

lemma is_escaped_at:
  assumes "length pre = i"
  shows "is_escaped (pre @ c # h # l # t) i = Some (c = CHR ''%'' \<and> isxdigit h \<and> isxdigit l)"
  using assms by (auto simp: is_escaped_def rd_def nth_append)

lemma replace_escaped_hit:
  assumes "isxdigit h" and "isxdigit l" and "mx = length pre + 3 + length post" and "mx < SIZE_MOD"
  shows "replace_escaped (pre @ CHR ''%'' # h # l # post @ t) (length pre) mx =
    Some (pre @ char_of (16 * digit_val h + digit_val l) # post @ [NUL, NUL] @ t, mx - 2, 1)"
proof -
  have "sz_sub mx 2 = mx - 2"
    using assms by (intro sz_sub_exact) auto
  moreover have "replicate 2 NUL = [NUL, NUL]"
    by (simp add: numeral_2_eq_2)
  ultimately show ?thesis
    using assms is_escaped_at [OF refl, of pre "CHR ''%''" h l "post @ t"]
      replace_escaped_loop_shift [of pre "length pre" "length pre + 3" "[CHR ''%'', h, l]" mx post t]
    by (simp add: replace_escaped_def Let_def nth_append numeral_2_eq_2 numeral_3_eq_3)
qed


lemma replace_escaped_miss:
  assumes "s = c # s'" and "\<not> (\<exists>h l u. s = CHR ''%'' # h # l # u \<and> isxdigit h \<and> isxdigit l)"
  shows "replace_escaped (pre @ s @ NUL # t) (length pre) mx = Some (pre @ s @ NUL # t, mx, 0)"
proof -
  have nx: "\<not> isxdigit NUL"
    by (simp add: ctype_defs)
  have "is_escaped (pre @ s @ NUL # t) (length pre) = Some False"
  proof (cases s rule: list3_cases)
    case (4 x y z u)
    then show ?thesis
      using assms(2) is_escaped_at [OF refl, of pre x y z "u @ NUL # t"] by auto
  qed (use assms(1) nx in \<open>auto simp: is_escaped_def rd_def nth_append\<close>)
  then show ?thesis
    by (simp add: replace_escaped_def)
qed

lemma remove_escaped_chars_loop_decodes:
  "length pre + length s < SIZE_MOD \<Longrightarrow>
   remove_escaped_chars_loop (pre @ s @ NUL # t) (length pre) (length pre + length s) =
     Some (pre @ decode s @ replicate (length s - length (decode s)) NUL @ NUL # t,
           length pre + length (decode s))"
proof (induction "length s" arbitrary: s pre t rule: less_induct)
  case less
  show ?case
  proof (cases s)
    case Nil
    then show ?thesis by (simp add: remove_escaped_chars_loop.simps)
  next
    case (Cons c s')
    show ?thesis
    proof (cases "\<exists>h l u. s = CHR ''%'' # h # l # u \<and> isxdigit h \<and> isxdigit l")
      case True
      then obtain h l u where s: "s = CHR ''%'' # h # l # u" "isxdigit h" "isxdigit l"
        by blast
      let ?d = "char_of (16 * digit_val h + digit_val l) :: char"
      have "replace_escaped (pre @ s @ NUL # t) (length pre) (length pre + length s) =
          Some ((pre @ [?d]) @ u @ NUL # NUL # NUL # t, length (pre @ [?d]) + length u, 1)"
        using replace_escaped_hit [OF s(2,3), of "length pre + length s" pre u "NUL # t"] less.prems s(1)
        by simp
      moreover have "remove_escaped_chars_loop ((pre @ [?d]) @ u @ NUL # NUL # NUL # t)
          (length (pre @ [?d])) (length (pre @ [?d]) + length u) =
        Some ((pre @ [?d]) @ decode u @ replicate (length u - length (decode u)) NUL @ NUL # NUL # NUL # t,
              length (pre @ [?d]) + length (decode u))"
        using less.prems s(1) by (intro less.hyps) simp_all
      moreover have "replicate (n - k) NUL @ NUL # NUL # v = replicate (Suc (Suc n) - k) NUL @ v"
        if "k \<le> n" for n k :: nat and v
        using that by (simp add: Suc_diff_le replicate_app_Cons_same)
      ultimately show ?thesis
        using s length_decode [of u] by (subst remove_escaped_chars_loop.simps) simp
    next
      case False
      have "decode s = c # decode s'"
        using False Cons by (cases s' rule: list3_cases) auto
      moreover have "remove_escaped_chars_loop ((pre @ [c]) @ s' @ NUL # t) (length (pre @ [c]))
          (length (pre @ [c]) + length s') =
        Some ((pre @ [c]) @ decode s' @ replicate (length s' - length (decode s')) NUL @ NUL # t,
              length (pre @ [c]) + length (decode s'))"
        using less.prems Cons by (intro less.hyps) simp_all
      ultimately show ?thesis
        using replace_escaped_miss [OF Cons False, of pre t "length pre + length s"] Cons
        by (subst remove_escaped_chars_loop.simps) simp
    qed
  qed
qed

section \<open>Properties\<close>

text \<open>
  Property C36. On a NUL terminated string, \<open>remove_escaped_chars\<close> returns and computes the
  percent decoding in place: the buffer starts with the decoded string, the
  size is its length, and what the string occupied before is filled with NUL
  bytes; no byte outside the string is read or written, and a decoded
  percent sign is not decoded again.
\<close>

theorem remove_escaped_chars_decodes:
  assumes "length s < SIZE_MOD"
  shows "remove_escaped_chars (s @ NUL # t) (length s) =
    Some (decode s @ replicate (length s - length (decode s)) NUL @ NUL # t,
          length (decode s), UPNP_E_SUCCESS)"
  using remove_escaped_chars_loop_decodes [of "[]" s t] assms by (simp add: remove_escaped_chars_def)

theorem remove_escaped_chars_decodes_witness:
  "remove_escaped_chars (''a%2541%zz'' @ NUL # []) 9 =
     Some (''a%41%zz'' @ [NUL, NUL] @ NUL # [], 7, UPNP_E_SUCCESS)"
proof -
  have d: "decode ''a%2541%zz'' = ''a%41%zz''"
    by (simp add: ctype_defs digit_val_def char_of_def bit_0)
  have l: "length ''a%2541%zz'' = 9" "length ''a%41%zz'' = 7"
    by simp_all
  have "replicate (9 - 7) NUL = [NUL, NUL]" "(9 :: nat) < SIZE_MOD"
    by (simp_all add: numeral_2_eq_2) (simp add: SIZE_MOD_def)
  then show ?thesis
    using remove_escaped_chars_decodes [of "''a%2541%zz''" "[]"] by (simp only: d l simp_thms)
qed

text \<open>
  The bound passed to \<open>replace_escaped\<close> does not protect the look-ahead: when the
  two characters after the given size are hexadecimal digits, the escape is
  decoded across the end and the size wraps around to an enormous value.
\<close>

lemma replace_escaped_crosses_end:
  assumes "isxdigit h" and "isxdigit l"
  shows "\<exists>mem'. replace_escaped (CHR ''%'' # h # l # t) 0 1 = Some (mem', SIZE_MOD - 1, 1)"
proof -
  have "replace_escaped_loop (CHR ''%'' # h # l # t) 1 3 0 c = Some (c # h # l # t)" for c
    by (simp add: replace_escaped_loop.simps wr_def)
  then show ?thesis
    using assms is_escaped_at [of "[]" 0 "CHR ''%''" h l t]
    by (simp add: replace_escaped_def Let_def sz_sub_def SIZE_MOD_def)
qed

end
