(* ===== verification/Uri.thy ===== *)
theory Uri
  imports UriEscape
begin

text \<open>
  The URI parser of \<^verbatim>\<open>compa/src/genlib/net/uri/uri.cpp\<close>: tokens, scheme, host and port,
  \<open>parse_uri\<close>, and the copy of a URL list. A token points into the parsed string
  by an offset. The name service and the address conversion of the system are
  the record \<open>net_env\<close>; the interface index is the global \<open>gIF_INDEX\<close>.
  Strings are shorter than \<open>2 ^ 31\<close>, so that the \<open>int\<close> offsets of the code are exact.
\<close>

record token =
  buff :: "nat option"
  tsize :: nat

datatype af = AF_UNSPEC | AF_INET | AF_INET6 | AF_OTHER

record sockaddr =
  ss_family :: af
  sin_port :: nat
  sin_addr :: "nat list"
  scope_id :: nat

record hostport_type =
  htext :: token
  IPaddress :: sockaddr

datatype uriType = ABSOLUTE | RELATIVE

datatype pathType = ABS_PATH | REL_PATH | OPAQUE_PART

record uri_type =
  utype :: uriType
  scheme :: token
  path_type :: pathType
  pathquery :: token
  fragment :: token
  hostport :: hostport_type

text \<open>\<open>getaddrinfo\<close> yields \<open>None\<close> on failure; \<open>inet_pton\<close> yields the address bytes when the text is valid.\<close>

record net_env =
  getaddrinfo :: "string \<Rightarrow> sockaddr list option"
  inet_pton :: "af \<Rightarrow> string \<Rightarrow> nat list option"
  gIF_INDEX :: nat

definition HTTP_SUCCESS :: int where
  "HTTP_SUCCESS = 1"

definition UPNP_E_INVALID_URL :: int where
  "UPNP_E_INVALID_URL = -108"

definition null_token :: token where
  "null_token = \<lparr>buff = None, tsize = 0\<rparr>"

definition zero_sockaddr :: sockaddr where
  "zero_sockaddr = \<lparr>ss_family = AF_UNSPEC, sin_port = 0, sin_addr = [], scope_id = 0\<rparr>"

definition zero_hostport :: hostport_type where
  "zero_hostport = \<lparr>htext = null_token, IPaddress = zero_sockaddr\<rparr>"

definition token_text :: "string \<Rightarrow> token \<Rightarrow> string" where
  "token_text mem t = (case buff t of None \<Rightarrow> [] | Some i \<Rightarrow> take (tsize t) (drop i mem))"

section \<open>Tokens\<close>

function parse_uric_loop :: "string \<Rightarrow> nat \<Rightarrow> nat \<Rightarrow> nat \<Rightarrow> nat option" where
  "parse_uric_loop mem base mx i =
     (if i < mx then
        (case rd mem (base + i) of
           None \<Rightarrow> None
         | Some c \<Rightarrow>
             if is_unreserved c \<or> is_reserved c then parse_uric_loop mem base mx (i + 1)
             else if i + 2 < mx then
               (case is_escaped mem (base + i) of
                  None \<Rightarrow> None
                | Some e \<Rightarrow> if e then parse_uric_loop mem base mx (i + 1) else Some i)
             else Some i)
      else Some i)"
  by pat_completeness auto
termination
  by (relation "measure (\<lambda>(mem, base, mx, i). mx - i)") auto

definition parse_uric :: "string \<Rightarrow> nat \<Rightarrow> nat \<Rightarrow> (nat \<times> token) option" where
  "parse_uric mem base mx =
     (case parse_uric_loop mem base mx 0 of
        None \<Rightarrow> None
      | Some i \<Rightarrow> Some (i, \<lparr>buff = Some base, tsize = i\<rparr>))"

text \<open>A token relative to \<open>in_base\<close> becomes one relative to \<open>out_base\<close> with the same offset.\<close>

definition copy_token :: "token \<Rightarrow> token" where
  "copy_token t = \<lparr>buff = buff t, tsize = tsize t\<rparr>"

record URL_list =
  usize :: nat
  URLs :: "string option"
  parsedURLs :: "uri_type list option"

definition copy_uri :: "uri_type \<Rightarrow> uri_type" where
  "copy_uri u =
     \<lparr>utype = utype u, scheme = copy_token (scheme u), path_type = path_type u,
      pathquery = copy_token (pathquery u), fragment = copy_token (fragment u),
      hostport = \<lparr>htext = copy_token (htext (hostport u)), IPaddress = IPaddress (hostport u)\<rparr>\<rparr>"

text \<open>
  The two booleans are the outcomes of the two \<open>malloc\<close> calls. On failure of
  one of them the block of the other stays allocated.
\<close>

definition copy_URL_list :: "bool \<Rightarrow> bool \<Rightarrow> URL_list \<Rightarrow> (URL_list \<times> int) option" where
  "copy_URL_list ok1 ok2 inl =
     (case (URLs inl, parsedURLs inl) of
        (Some us, Some ps) \<Rightarrow>
          if \<not> ok1 \<or> \<not> ok2 then
            Some (\<lparr>usize = 0, URLs = (if ok1 then Some [] else None),
                   parsedURLs = (if ok2 then Some [] else None)\<rparr>, UPNP_E_OUTOF_MEMORY)
          else if usize inl \<le> length ps then
            Some (\<lparr>usize = usize inl, URLs = Some (c_str us @ [NUL]),
                   parsedURLs = Some (map copy_uri (take (usize inl) ps))\<rparr>, HTTP_SUCCESS)
          else None
      | _ \<Rightarrow> None)"

definition free_URL_list :: "URL_list \<Rightarrow> URL_list" where
  "free_URL_list l = l\<lparr>usize := 0\<rparr>"

definition token_string_casecmp :: "string \<Rightarrow> token \<Rightarrow> string \<Rightarrow> int" where
  "token_string_casecmp mem in1 in2 =
     (if tsize in1 \<noteq> length (c_str in2) then 1
      else strncasecmp_sgn (tsize in1) (token_text mem in1) in2)"

text \<open>\<open>memcmp\<close> of two blocks of the same size.\<close>

fun memcmp :: "string \<Rightarrow> string \<Rightarrow> int" where
  "memcmp (x # xs) (y # ys) = (if x = y then memcmp xs ys else cmp_sgn (uc x) (uc y))"
| "memcmp _ _ = 0"

definition token_cmp :: "string \<Rightarrow> token \<Rightarrow> string \<Rightarrow> token \<Rightarrow> int" where
  "token_cmp mem1 in1 mem2 in2 =
     (if tsize in1 \<noteq> tsize in2 then 1 else memcmp (token_text mem1 in1) (token_text mem2 in2))"

section \<open>Host and port\<close>

definition at :: "string \<Rightarrow> nat \<Rightarrow> char" where
  "at w i = (if i < length w then w ! i else NUL)"

definition host_char :: "char \<Rightarrow> bool" where
  "host_char c \<longleftrightarrow> c \<noteq> CHR '':'' \<and> c \<noteq> CHR ''/'' \<and> (isalnum c \<or> c = CHR ''.'' \<or> c = CHR ''-'')"

text \<open>
  The host part: on success the address family, the host name, the address
  found by name when there was one, whether a port follows, and the position
  of \<open>c\<close>. \<open>w\<close> is the zero-filled work buffer.
\<close>

definition parse_host ::
    "net_env \<Rightarrow> string \<Rightarrow> int + af \<times> string \<times> sockaddr \<times> bool \<times> nat" where
  "parse_host net w =
     (if at w 0 = CHR ''['' then
        (let c = scan_while (\<lambda>x. x \<noteq> CHR '']'') w 1 in
         if length w \<le> c then Inl UPNP_E_INVALID_URL
         else
           (let srvname = take (c - 1) (drop 1 w); has_port = (at w (c + 1) = CHR '':'') in
            Inr (AF_INET6, srvname, zero_sockaddr, has_port, if has_port then c + 2 else c + 1)))
      else
        (let c = scan_while host_char w 0; srvname = take c w;
             has_port = (at w c = CHR '':'');
             dots = filter (\<lambda>i. srvname ! i = CHR ''.'') [0..<c];
             c' = (if has_port then c + 1 else c)
         in if dots \<noteq> [] \<and> last dots + 1 < c \<and> isdigit (srvname ! (last dots + 1))
            then Inr (AF_INET, srvname, zero_sockaddr, has_port, c')
            else
              (case getaddrinfo net srvname of
                 None \<Rightarrow> Inl UPNP_E_INVALID_URL
               | Some res0 \<Rightarrow>
                   (case find (\<lambda>r. ss_family r = AF_INET \<or> ss_family r = AF_INET6) res0 of
                      None \<Rightarrow> Inl UPNP_E_INVALID_URL
                    | Some r \<Rightarrow> Inr (AF_UNSPEC, srvname, r, has_port, c')))))"

definition parse_hostport :: "net_env \<Rightarrow> string \<Rightarrow> nat \<Rightarrow> nat \<Rightarrow> int + hostport_type" where
  "parse_hostport net mem base defaultPort =
     (let w = take 255 (c_str (drop base mem)) in
      case parse_host net w of
        Inl e \<Rightarrow> Inl e
      | Inr (af, srvname, addr, has_port, c0) \<Rightarrow>
          let c = (if has_port then scan_while isdigit w c0 else c0);
              port = (if has_port then nat (to_int (fst (strtol 10 (drop c0 w))) mod 65536) else defaultPort)
          in if has_port \<and> port = 0 then Inl UPNP_E_INVALID_URL
             else
               (let ip =
                  (case af of
                     AF_INET \<Rightarrow>
                       map_option (\<lambda>a. \<lparr>ss_family = af, sin_port = port, sin_addr = a, scope_id = 0\<rparr>)
                         (inet_pton net AF_INET srvname)
                   | AF_INET6 \<Rightarrow>
                       map_option (\<lambda>a. \<lparr>ss_family = af, sin_port = port, sin_addr = a, scope_id = gIF_INDEX net\<rparr>)
                         (inet_pton net AF_INET6 srvname)
                   | _ \<Rightarrow> Some (addr\<lparr>sin_port := port\<rparr>))
                in case ip of
                     None \<Rightarrow> Inl UPNP_E_INVALID_URL
                   | Some a \<Rightarrow> Inr \<lparr>htext = \<lparr>buff = Some base, tsize = c\<rparr>, IPaddress = a\<rparr>))"

section \<open>Scheme and URI\<close>

function parse_scheme_loop :: "string \<Rightarrow> nat \<Rightarrow> nat \<Rightarrow> nat option" where
  "parse_scheme_loop mem mx i =
     (if i < mx then
        (case rd mem i of
           None \<Rightarrow> None
         | Some c \<Rightarrow>
             if c = CHR '':'' then Some i
             else if isalnum c \<or> c = CHR ''+'' \<or> c = CHR ''-'' \<or> c = CHR ''.''
             then parse_scheme_loop mem mx (i + 1)
             else Some 0)
      else Some 0)"
  by pat_completeness auto
termination
  by (relation "measure (\<lambda>(mem, mx, i). mx - i)") auto

definition parse_scheme :: "string \<Rightarrow> nat \<Rightarrow> (nat \<times> token) option" where
  "parse_scheme mem mx =
     (if mx = 0 then Some (0, null_token)
      else
        (case rd mem 0 of
           None \<Rightarrow> None
         | Some c \<Rightarrow>
             if \<not> isalpha c then Some (0, null_token)
             else
               (case parse_scheme_loop mem mx 1 of
                  None \<Rightarrow> None
                | Some i \<Rightarrow>
                    if i = 0 then Some (0, null_token)
                    else Some (i, \<lparr>buff = Some 0, tsize = i\<rparr>))))"

text \<open>
  \<open>Inl\<close> is an error code, \<open>Inr\<close> the result with the status \<open>HTTP_SUCCESS\<close>. The
  remaining length \<open>max - begin_path\<close> is an unsigned difference.
\<close>

definition parse_uri :: "net_env \<Rightarrow> string \<Rightarrow> nat \<Rightarrow> (int + uri_type) option" where
  "parse_uri net mem mx =
     (case parse_scheme mem mx of
        None \<Rightarrow> None
      | Some (sch, stok) \<Rightarrow>
          let absolute = (sch \<noteq> 0);
              begin_hostport = (if absolute then sch + 1 else 0);
              ty = (if absolute then ABSOLUTE else RELATIVE);
              pt = (if absolute then OPAQUE_PART else REL_PATH);
              authority = (begin_hostport + 1 < mx \<and> at mem begin_hostport = CHR ''/'' \<and>
                           at mem (begin_hostport + 1) = CHR ''/'');
              hp = (if authority then
                      parse_hostport net mem (begin_hostport + 2)
                        (if token_string_casecmp mem stok ''https'' = 0 then 443 else 80)
                    else Inr zero_hostport)
          in case hp of
               Inl e \<Rightarrow> Some (Inl e)
             | Inr h \<Rightarrow>
                 let begin_path = (if authority then tsize (htext h) + (begin_hostport + 2) else begin_hostport)
                 in case parse_uric mem begin_path (sz_sub mx begin_path) of
                      None \<Rightarrow> None
                    | Some (n, pq) \<Rightarrow>
                        let begin_fragment = n + begin_path;
                            pt' = (if n \<noteq> 0 \<and> at mem begin_path = CHR ''/'' then ABS_PATH else pt)
                        in if begin_fragment < mx \<and> at mem begin_fragment = CHR ''#'' then
                             (case parse_uric mem (begin_fragment + 1) (sz_sub mx (begin_fragment + 1)) of
                                None \<Rightarrow> None
                              | Some (k, fr) \<Rightarrow>
                                  Some (Inr \<lparr>utype = ty, scheme = stok, path_type = pt', pathquery = pq,
                                             fragment = fr, hostport = h\<rparr>))
                           else
                             Some (Inr \<lparr>utype = ty, scheme = stok, path_type = pt', pathquery = pq,
                                        fragment = null_token, hostport = h\<rparr>))"

declare parse_uric_loop.simps [simp del] parse_scheme_loop.simps [simp del]


section \<open>Runs of URI characters\<close>

definition uric_text :: "string \<Rightarrow> bool" where
  "uric_text u \<longleftrightarrow> (\<forall>i<length u. is_unreserved (u ! i) \<or> is_reserved (u ! i) \<or>
     (i + 2 < length u \<and> u ! i = CHR ''%'' \<and> isxdigit (u ! (i + 1)) \<and> isxdigit (u ! (i + 2))))"

lemma is_escaped_total: "i + 2 < length mem \<Longrightarrow> \<exists>e. is_escaped mem i = Some e"
  by (auto simp: is_escaped_def rd_def)

lemma parse_uric_loop_total:
  assumes "base + mx \<le> length mem" and "i \<le> mx"
  shows "\<exists>k. parse_uric_loop mem base mx i = Some k \<and> i \<le> k \<and> k \<le> mx"
  using assms
proof (induction mem base mx i rule: parse_uric_loop.induct)
  case (1 mem base mx i)
  show ?case
  proof (cases "i < mx")
    case True
    then have r: "rd mem (base + i) = Some (mem ! (base + i))"
      using "1.prems" by (simp add: rd_def)
    have e: "\<exists>e. is_escaped mem (base + i) = Some e" if "i + 2 < mx"
      using is_escaped_total [of "base + i" mem] that "1.prems" by simp
    have ih: "\<exists>k. parse_uric_loop mem base mx (i + 1) = Some k \<and> i + 1 \<le> k \<and> k \<le> mx"
      if "is_unreserved (mem ! (base + i)) \<or> is_reserved (mem ! (base + i)) \<or>
        (i + 2 < mx \<and> is_escaped mem (base + i) = Some True)"
      using "1.IH"(1) [OF True r] "1.IH"(2) [OF True r] that "1.prems" True
      by (cases "is_unreserved (mem ! (base + i)) \<or> is_reserved (mem ! (base + i))") auto
    show ?thesis
      using r e ih True by (subst parse_uric_loop.simps) (auto split: option.splits)
  next
    case False
    then show ?thesis
      using "1.prems" by (subst parse_uric_loop.simps) simp
  qed
qed

lemma parse_uric_loop_run:
  assumes "uric_text u" and "i \<le> length u" and "length u \<le> mx"
    and "length u < mx \<longrightarrow> (\<exists>r. rest = CHR ''#'' # r)"
  shows "parse_uric_loop (pre @ u @ rest) (length pre) mx i = Some (length u)"
  using assms(2)
proof (induction i rule: inc_induct)
  case base
  have "\<not> is_unreserved CHR ''#''" "\<not> is_reserved CHR ''#''"
    by (simp_all add: is_unreserved_def is_reserved_def is_mark_def RESERVED_def MARK_def
      strchr_hit_def ctype_defs)
  then show ?case
    using assms(3,4) by (subst parse_uric_loop.simps) (auto simp: rd_def nth_append is_escaped_def)
next
  case (step i)
  have r: "rd (pre @ u @ rest) (length pre + i) = Some (u ! i)"
    using step.hyps by (simp add: rd_def nth_append)
  have "is_unreserved (u ! i) \<or> is_reserved (u ! i) \<or>
      (i + 2 < mx \<and> is_escaped (pre @ u @ rest) (length pre + i) = Some True)"
    using assms(1,3) step.hyps
    by (auto simp: uric_text_def is_escaped_def rd_def nth_append add.assoc)
  then show ?case
    using r step assms(3) by (subst parse_uric_loop.simps) auto
qed

lemma parse_scheme_loop_run:
  assumes "list_all (\<lambda>c. isalnum c \<or> c = CHR ''+'' \<or> c = CHR ''-'' \<or> c = CHR ''.'') s"
    and "i \<le> length s" and "length s < mx"
  shows "parse_scheme_loop (s @ CHR '':'' # rest) mx i = Some (length s)"
  using assms(2)
proof (induction i rule: inc_induct)
  case base
  then show ?case
    using assms(3) by (subst parse_scheme_loop.simps) (simp add: rd_def nth_append)
next
  case (step i)
  then have "s ! i \<in> set s"
    by simp
  then have "isalnum (s ! i) \<or> s ! i = CHR ''+'' \<or> s ! i = CHR ''-'' \<or> s ! i = CHR ''.''" "s ! i \<noteq> CHR '':''"
    using assms(1) by (auto simp: list_all_iff ctype_defs)
  then show ?case
    using step assms(3) by (subst parse_scheme_loop.simps) (auto simp: rd_def nth_append)
qed

lemma parse_scheme_loop_total:
  assumes "mx \<le> length mem"
  shows "\<exists>k. parse_scheme_loop mem mx i = Some k \<and> (k = 0 \<or> k < mx)"
  using assms
proof (induction mem mx i rule: parse_scheme_loop.induct)
  case (1 mem mx i)
  then show ?case
    by (subst parse_scheme_loop.simps) (auto simp: rd_def)
qed


section \<open>Host and port on well-formed input\<close>

text \<open>A dotted numeric address: the character after the last dot is a digit.\<close>

definition ipv4_literal :: "string \<Rightarrow> bool" where
  "ipv4_literal h \<longleftrightarrow>
     (let dots = filter (\<lambda>i. h ! i = CHR ''.'') [0..<length h]
      in dots \<noteq> [] \<and> last dots + 1 < length h \<and> isdigit (h ! (last dots + 1)))"

lemma scan_while_prefix:
  assumes "list_all P u" and "rest = [] \<or> \<not> P (hd rest)"
  shows "scan_while P (pre @ u @ rest) (length pre) = length pre + length u"
proof -
  have "takeWhile P (u @ rest) = u"
    using assms by (cases rest) (auto simp: list_all_iff takeWhile_append)
  then show ?thesis
    by (simp add: scan_while_run)
qed

lemma list_all_no_nul:
  assumes "list_all P h" and "\<not> P NUL"
  shows "no_nul h"
  using assms by (auto simp: list_all_iff)

lemma host_char_no_nul: "list_all host_char h \<Longrightarrow> no_nul h"
  by (erule list_all_no_nul) (simp add: host_char_def ctype_defs)

lemma digits_no_nul: "list_all isdigit ds \<Longrightarrow> no_nul ds"
  by (erule list_all_no_nul) (simp add: ctype_defs)

lemma parse_host_ipv4:
  assumes "list_all host_char h" and "ipv4_literal h" and "rest \<noteq> []" "hd rest = CHR '':''"
  shows "parse_host net (h @ rest) = Inr (AF_INET, h, zero_sockaddr, True, length h + 1)"
proof -
  have ne: "h \<noteq> []"
    using assms(2) by (auto simp: ipv4_literal_def)
  have "at (h @ rest) 0 \<noteq> CHR ''[''"
    using ne assms(1) by (cases h) (auto simp: at_def host_char_def ctype_defs)
  moreover have "scan_while host_char (h @ rest) 0 = length h"
    using scan_while_prefix [of host_char h rest "[]"] assms by (simp add: host_char_def)
  moreover have "at (h @ rest) (length h) = CHR '':''"
    using assms(3,4) by (cases rest) (simp_all add: at_def nth_append)
  moreover have "filter (\<lambda>i. take (length h) (h @ rest) ! i = CHR ''.'') [0..<length h] =
      filter (\<lambda>i. h ! i = CHR ''.'') [0..<length h]"
    by simp
  ultimately show ?thesis
    using assms(2) by (simp add: parse_host_def Let_def ipv4_literal_def)
qed

lemma to_int_mod: "to_int n mod 65536 = n mod 65536"
proof -
  have "to_int n = n - 2 ^ 32 * ((n + 2 ^ 31) div 2 ^ 32)"
    by (simp add: to_int_def minus_mult_div_eq_mod [symmetric])
  also have "\<dots> = n + 65536 * (- 65536 * ((n + 2 ^ 31) div 2 ^ 32))"
    by simp
  finally show ?thesis
    by (metis mod_mult_self2)
qed

lemma strtol_digits:
  assumes "list_all isdigit ds" and "ds \<noteq> []" and "rest = [] \<or> \<not> isdigit (hd rest)"
    and "int (digits_val 10 ds) \<le> LONG_MAX"
  shows "fst (strtol 10 (ds @ rest)) = int (digits_val 10 ds)"
proof -
  obtain d u where d: "ds = d # u" "isdigit d"
    using assms(1,2) by (cases ds) auto
  have dv: "digit_val c < 10 \<longleftrightarrow> isdigit c" for c
    by (auto simp: digit_val_def ctype_defs)
  have ws: "takeWhile isspace (ds @ rest) = []"
    using d by (auto simp: ctype_defs)
  have sg: "sign_len (ds @ rest) = 0" and ng: "hd (ds @ rest) \<noteq> CHR ''-''"
    using d by (auto simp: sign_len_def ctype_defs)
  have "digits_of 10 (ds @ rest) = ds"
    using assms(1,3) by (cases rest) (auto simp: digits_of_def dv list_all_iff takeWhile_append)
  moreover have "LONG_MIN \<le> int n" for n
    by (simp add: LONG_MIN_def)
  ultimately show ?thesis
    using assms(2,4) ws sg ng
    by (simp add: strtol_def Let_def hex_prefix_def strtol_result_def not_less)
qed

lemma parse_hostport_ipv4:
  assumes h: "list_all host_char h" "ipv4_literal h" and ds: "list_all isdigit ds" "ds \<noteq> []"
    and fit: "length h + 1 + length ds < 255" and rest: "rest = [] \<or> \<not> isdigit (hd rest)"
    and v: "int (digits_val 10 ds) \<le> LONG_MAX" and a: "inet_pton net AF_INET h = Some a"
    and port: "digits_val 10 ds mod 65536 \<noteq> 0"
  shows "parse_hostport net (pre @ h @ CHR '':'' # ds @ rest) (length pre) dflt =
    Inr \<lparr>htext = \<lparr>buff = Some (length pre), tsize = length h + 1 + length ds\<rparr>,
         IPaddress = \<lparr>ss_family = AF_INET, sin_port = digits_val 10 ds mod 65536, sin_addr = a, scope_id = 0\<rparr>\<rparr>"
proof -
  define rest' where "rest' = take (255 - (length h + 1 + length ds)) (c_str rest)"
  have "c_str (h @ CHR '':'' # ds @ rest) = h @ CHR '':'' # ds @ c_str rest"
    using host_char_no_nul [OF h(1)] digits_no_nul [OF ds(1)] by (simp add: c_str_def takeWhile_append)
  moreover define q where "q = h @ [CHR '':''] @ ds"
  moreover have "length q = length h + 1 + length ds"
    by (simp add: q_def)
  moreover from this have "take 255 (q @ c_str rest) = q @ rest'"
    using fit by (simp add: rest'_def)
  ultimately have w: "take 255 (c_str (h @ CHR '':'' # ds @ rest)) = (h @ [CHR '':'']) @ ds @ rest'"
    by simp
  have r': "rest' = [] \<or> \<not> isdigit (hd rest')"
    using rest fit by (cases rest) (auto simp: rest'_def c_str_def)
  have "scan_while isdigit ((h @ [CHR '':'']) @ ds @ rest') (length h + 1) = length h + 1 + length ds"
    using scan_while_prefix [OF ds(1) r', of "h @ [CHR '':'']"] by simp
  moreover have "fst (strtol 10 (drop (length h + 1) ((h @ [CHR '':'']) @ ds @ rest'))) = int (digits_val 10 ds)"
    using strtol_digits [OF ds r' v] by simp
  moreover have "parse_host net ((h @ [CHR '':'']) @ ds @ rest') = Inr (AF_INET, h, zero_sockaddr, True, length h + 1)"
    using parse_host_ipv4 [OF h, of "CHR '':'' # ds @ rest'"] by simp
  moreover have "to_int (int n) mod 65536 = int (n mod 65536)" for n
    by (simp add: to_int_mod zmod_int)
  ultimately show ?thesis
    using a port by (simp add: parse_hostport_def w Let_def del: append_assoc)
qed


lemma parse_uric_run:
  assumes "uric_text u" and "length u \<le> mx" and "length u < mx \<longrightarrow> (\<exists>r. rest = CHR ''#'' # r)"
  shows "parse_uric (pre @ u @ rest) (length pre) mx =
    Some (length u, \<lparr>buff = Some (length pre), tsize = length u\<rparr>)"
  using parse_uric_loop_run [OF assms(1) _ assms(2,3), of 0 pre] by (simp add: parse_uric_def)

lemma parse_scheme_run:
  assumes "s \<noteq> []" and "isalpha (hd s)"
    and "list_all (\<lambda>c. isalnum c \<or> c = CHR ''+'' \<or> c = CHR ''-'' \<or> c = CHR ''.'') s"
    and "length s < mx"
  shows "parse_scheme (s @ CHR '':'' # rest) mx = Some (length s, \<lparr>buff = Some 0, tsize = length s\<rparr>)"
proof -
  have "rd (s @ CHR '':'' # rest) 0 = Some (hd s)"
    using assms(1) by (cases s) (simp_all add: rd_def)
  moreover have "parse_scheme_loop (s @ CHR '':'' # rest) mx 1 = Some (length s)"
    using parse_scheme_loop_run [OF assms(3) _ assms(4), of 1] assms(1) by (cases s) auto
  ultimately show ?thesis
    using assms by (simp add: parse_scheme_def)
qed

lemma token_text_at: "token_text (pre @ u @ rest) \<lparr>buff = Some (length pre), tsize = length u\<rparr> = u"
  by (simp add: token_text_def)

section \<open>Properties\<close>

text \<open>
  Property C20. \<open>parse_uri\<close> undoes the composition of a URL: for a scheme, a numeric host with
  a port, an absolute path with query and a fragment, the tokens are exactly
  these parts, the URI is absolute, and the address is the one the system
  gives for the host, with the port taken modulo 65536.
\<close>

theorem parse_uri_components:
  assumes s: "s \<noteq> []" "isalpha (hd s)"
      "list_all (\<lambda>c. isalnum c \<or> c = CHR ''+'' \<or> c = CHR ''-'' \<or> c = CHR ''.'') s"
    and h: "list_all host_char h" "ipv4_literal h" "inet_pton net AF_INET h = Some a"
    and ds: "list_all isdigit ds" "ds \<noteq> []" "int (digits_val 10 ds) \<le> LONG_MAX"
      "digits_val 10 ds mod 65536 \<noteq> 0"
    and fit: "length h + 1 + length ds < 255"
    and p: "uric_text p" "p \<noteq> []" "hd p = CHR ''/''" and f: "uric_text f"
    and url: "url = s @ ''://'' @ h @ '':'' @ ds @ p @ ''#'' @ f" and len: "length url < SIZE_MOD"
  shows "\<exists>u. parse_uri net (url @ [NUL]) (length url) = Some (Inr u) \<and>
    utype u = ABSOLUTE \<and> path_type u = ABS_PATH \<and> token_text url (scheme u) = s \<and>
    token_text url (htext (hostport u)) = h @ '':'' @ ds \<and> token_text url (pathquery u) = p \<and>
    token_text url (fragment u) = f \<and>
    IPaddress (hostport u) =
      \<lparr>ss_family = AF_INET, sin_port = digits_val 10 ds mod 65536, sin_addr = a, scope_id = 0\<rparr>"
proof -
  define mem where "mem = url @ [NUL]"
  define pre1 where "pre1 = s @ ''://''"
  define pre2 where "pre2 = pre1 @ h @ '':'' @ ds"
  define pre3 where "pre3 = pre2 @ p @ ''#''"
  define ht where "ht = \<lparr>buff = Some (length pre1), tsize = length h + 1 + length ds\<rparr>"
  define hp where "hp = \<lparr>htext = ht, IPaddress =
    \<lparr>ss_family = AF_INET, sin_port = digits_val 10 ds mod 65536, sin_addr = a, scope_id = 0\<rparr>\<rparr>"
  have sch: "parse_scheme mem (length url) = Some (length s, \<lparr>buff = Some 0, tsize = length s\<rparr>)"
    using parse_scheme_run [OF s, of "length url"] by (simp add: mem_def url)
  have au: "length s + 2 < length url" "at mem (length s + 1) = CHR ''/''" "at mem (length s + 2) = CHR ''/''"
    by (simp_all add: mem_def url at_def nth_append)
  have b1: "length s + 1 + 2 = length pre1"
    by (simp add: pre1_def)
  have hd_rest: "p @ ''#'' @ f @ [NUL] = [] \<or> \<not> isdigit (hd (p @ ''#'' @ f @ [NUL]))"
    using p(2,3) by (simp add: ctype_defs)
  have hpr: "parse_hostport net mem (length pre1) dflt = Inr hp" for dflt
    using parse_hostport_ipv4 [OF h(1,2) ds(1,2) fit hd_rest ds(3) h(3) ds(4), of pre1 dflt]
    by (simp add: mem_def url pre1_def hp_def ht_def)
  have b2: "length h + 1 + length ds + length pre1 = length pre2"
    by (simp add: pre2_def)
  have l2: "sz_sub (length url) (length pre2) = length p + 1 + length f"
    using len sz_sub_exact [of "length pre2" "length url"] by (simp add: url pre1_def pre2_def)
  have pq: "parse_uric mem (length pre2) (length p + 1 + length f) =
      Some (length p, \<lparr>buff = Some (length pre2), tsize = length p\<rparr>)"
    using parse_uric_run [OF p(1), of "length p + 1 + length f" "''#'' @ f @ [NUL]" pre2]
    by (simp add: mem_def url pre1_def pre2_def)
  have a2: "at mem (length pre2) = CHR ''/''" "length p \<noteq> 0"
    using p(2,3) by (cases p; simp add: mem_def url pre1_def pre2_def at_def nth_append)+
  have b3: "length p + length pre2 < length url" "at mem (length p + length pre2) = CHR ''#''"
    "length p + length pre2 + 1 = length pre3"
    by (simp_all add: mem_def url pre1_def pre2_def pre3_def at_def nth_append)
  have l3: "sz_sub (length url) (length pre3) = length f"
    using len sz_sub_exact [of "length pre3" "length url"] by (simp add: url pre1_def pre2_def pre3_def)
  have fr: "parse_uric mem (length pre3) (length f) = Some (length f, \<lparr>buff = Some (length pre3), tsize = length f\<rparr>)"
    using parse_uric_run [OF f, of "length f" "[NUL]" pre3]
    by (simp add: mem_def url pre1_def pre2_def pre3_def)
  let ?u = "\<lparr>utype = ABSOLUTE, scheme = \<lparr>buff = Some 0, tsize = length s\<rparr>, path_type = ABS_PATH,
    pathquery = \<lparr>buff = Some (length pre2), tsize = length p\<rparr>,
    fragment = \<lparr>buff = Some (length pre3), tsize = length f\<rparr>, hostport = hp\<rparr>"
  have "parse_uri net mem (length url) = Some (Inr ?u)"
    using s(1) sch au b1 hpr b2 l2 pq a2 b3 l3 fr
    by (simp add: parse_uri_def Let_def hp_def ht_def add.commute add.left_commute)
  moreover have "token_text url ht = h @ '':'' @ ds"
    by (simp add: token_text_def ht_def url pre1_def)
  moreover have "url = pre2 @ p @ ''#'' @ f" "url = pre3 @ f @ []" "url = [] @ s @ ''://'' @ h @ '':'' @ ds @ p @ ''#'' @ f"
    by (simp_all add: url pre1_def pre2_def pre3_def)
  then have "token_text url \<lparr>buff = Some (length pre2), tsize = length p\<rparr> = p"
    "token_text url \<lparr>buff = Some (length pre3), tsize = length f\<rparr> = f"
    "token_text url \<lparr>buff = Some 0, tsize = length s\<rparr> = s"
    by (metis token_text_at list.size(3))+
  ultimately show ?thesis
    by (intro exI [of _ ?u]) (simp add: mem_def hp_def)
qed

definition demo_net :: net_env where
  "demo_net = \<lparr>getaddrinfo = (\<lambda>_. None), inet_pton = (\<lambda>f t. if t = ''10.0.0.1'' then Some [10, 0, 0, 1] else None),
     gIF_INDEX = 0\<rparr>"

theorem parse_uri_components_witness:
  "\<exists>u. parse_uri demo_net (''http://10.0.0.1:65616/d.xml#f'' @ [NUL])
         (length ''http://10.0.0.1:65616/d.xml#f'') = Some (Inr u) \<and>
     sin_port (IPaddress (hostport u)) = 80"
proof -
  have ok: "isalpha (hd ''http'')" "list_all host_char ''10.0.0.1''" "ipv4_literal ''10.0.0.1''"
    "list_all isdigit ''65616''" "uric_text ''/d.xml''" "uric_text ''f''" "digits_val 10 ''65616'' = 65616"
    "list_all (\<lambda>c. isalnum c \<or> c = CHR ''+'' \<or> c = CHR ''-'' \<or> c = CHR ''.'') ''http''"
    by (simp_all add: ctype_defs host_char_def ipv4_literal_def uric_text_def is_unreserved_def is_reserved_def
      is_mark_def strchr_hit_def RESERVED_def MARK_def digits_val_def digit_val_def less_Suc_eq upt_conv_Cons)
  show ?thesis
    using parse_uri_components [OF _ ok(1,8,2,3) _ ok(4) _ _ _ _ ok(5) _ _ ok(6) refl, of demo_net "[10, 0, 0, 1]"] ok(7)
    by (auto simp: demo_net_def LONG_MAX_def SIZE_MOD_def)
qed


lemma parse_host_inside:
  assumes "parse_host net w = Inr (f, n, ad, has_port, c)"
  shows "c \<le> length w"
proof (cases "at w 0 = CHR ''[''")
  case True
  then show ?thesis
    using assms by (auto simp: parse_host_def Let_def at_def split: if_splits)
next
  case False
  have "scan_while host_char w 0 \<le> length w"
    by (rule scan_while_bounds) simp
  then show ?thesis
    using assms False by (auto simp: parse_host_def Let_def at_def split: if_splits option.splits)
qed

lemma length_c_str_NUL: "length (c_str (s @ [NUL])) \<le> length s"
  by (induction s) (simp_all add: c_str_def)

lemma parse_hostport_inside:
  assumes "parse_hostport net (s @ [NUL]) base dflt = Inr h" and "base \<le> length s"
  shows "base + tsize (htext h) \<le> length s"
proof -
  define w where "w = take 255 (c_str (drop base (s @ [NUL])))"
  have lw: "length w \<le> length s - base"
    using length_c_str_NUL [of "drop base s"] assms(2) by (simp add: w_def)
  obtain f n ad hp c0 where ph: "parse_host net w = Inr (f, n, ad, hp, c0)"
    using assms(1) by (auto simp: parse_hostport_def w_def Let_def split: sum.splits)
  have c0: "c0 \<le> length w"
    using parse_host_inside [OF ph] .
  have "tsize (htext h) = (if hp then scan_while isdigit w c0 else c0)"
    using assms(1) ph
    by (auto simp: parse_hostport_def w_def [symmetric] Let_def simp del: drop_append split: if_splits option.splits)
  then show ?thesis
    using scan_while_bounds(2) [OF c0, of isdigit] c0 lw assms(2) by auto
qed

definition token_inside :: "nat \<Rightarrow> token \<Rightarrow> bool" where
  "token_inside n t \<longleftrightarrow> (case buff t of None \<Rightarrow> tsize t = 0 | Some i \<Rightarrow> i + tsize t \<le> n)"

lemma token_inside_simps [simp]:
  "token_inside n \<lparr>buff = Some i, tsize = k\<rparr> \<longleftrightarrow> i + k \<le> n" "token_inside n null_token"
  by (simp_all add: token_inside_def null_token_def)

lemma parse_scheme_total:
  assumes "mx \<le> length mem"
  shows "\<exists>k t. parse_scheme mem mx = Some (k, t) \<and> (k = 0 \<and> t = null_token \<or>
    k < mx \<and> t = \<lparr>buff = Some 0, tsize = k\<rparr>)"
proof -
  obtain k where "parse_scheme_loop mem mx 1 = Some k" "k = 0 \<or> k < mx"
    using parse_scheme_loop_total [OF assms, of 1] by auto
  then show ?thesis
    using assms by (auto simp: parse_scheme_def rd_def)
qed

lemma parse_uric_total:
  assumes "base + mx \<le> length mem"
  shows "\<exists>k. parse_uric mem base mx = Some (k, \<lparr>buff = Some base, tsize = k\<rparr>) \<and> k \<le> mx"
  using parse_uric_loop_total [OF assms, of 0] by (auto simp: parse_uric_def)

lemma parse_uri_tail_total:
  assumes "bp \<le> mx" and "mx \<le> length mem" and "mx < SIZE_MOD"
  shows "\<exists>n fr. parse_uric mem bp (sz_sub mx bp) = Some (n, \<lparr>buff = Some bp, tsize = n\<rparr>) \<and> n + bp \<le> mx \<and>
    (n + bp < mx \<longrightarrow> parse_uric mem (n + bp + 1) (sz_sub mx (n + bp + 1)) =
       Some (fr, \<lparr>buff = Some (n + bp + 1), tsize = fr\<rparr>) \<and> n + bp + 1 + fr \<le> mx)"
proof -
  have "sz_sub mx bp = mx - bp"
    using assms by (intro sz_sub_exact)
  then obtain n where n: "parse_uric mem bp (sz_sub mx bp) = Some (n, \<lparr>buff = Some bp, tsize = n\<rparr>)" "n \<le> mx - bp"
    using parse_uric_total [of bp "mx - bp" mem] assms by auto
  have "\<exists>fr. parse_uric mem (n + bp + 1) (sz_sub mx (n + bp + 1)) =
      Some (fr, \<lparr>buff = Some (n + bp + 1), tsize = fr\<rparr>) \<and> n + bp + 1 + fr \<le> mx" if "n + bp < mx"
    using parse_uric_total [of "n + bp + 1" "mx - (n + bp + 1)" mem] sz_sub_exact [of "n + bp + 1" mx] assms that
    by (auto simp: le_diff_conv)
  then show ?thesis
    using n assms(1) by (cases "n + bp < mx") auto
qed

lemma parse_uri_inside':
  assumes "length s < SIZE_MOD"
  shows "\<exists>r. parse_uri net (s @ [NUL]) (length s) = Some r \<and>
    (\<forall>u. r = Inr u \<longrightarrow> (\<forall>t \<in> {scheme u, pathquery u, fragment u, htext (hostport u)}. token_inside (length s) t))"
proof -
  let ?mem = "s @ [NUL]" and ?mx = "length s"
  obtain k st where ps: "parse_scheme ?mem ?mx = Some (k, st)"
    and k: "k = 0 \<and> st = null_token \<or> k < ?mx \<and> st = \<lparr>buff = Some 0, tsize = k\<rparr>"
    using parse_scheme_total [of ?mx ?mem] by auto
  define bh where "bh = (if k \<noteq> 0 then k + 1 else 0)"
  have bh: "bh \<le> ?mx" and st: "token_inside ?mx st"
    using k by (auto simp: bh_def)
  define au where "au \<longleftrightarrow> bh + 1 < ?mx \<and> at ?mem bh = CHR ''/'' \<and> at ?mem (bh + 1) = CHR ''/''"
  define hp where "hp = (if au then parse_hostport net ?mem (bh + 2)
    (if token_string_casecmp ?mem st ''https'' = 0 then 443 else 80) else Inr zero_hostport)"
  note pu = parse_uri_def [of net ?mem ?mx, unfolded Let_def ps option.case prod.case,
    folded bh_def, folded au_def, folded hp_def]
  show ?thesis
  proof (cases hp)
    case (Inl e)
    then show ?thesis
      by (simp add: pu)
  next
    case (Inr h)
    define bp where "bp = (if au then tsize (htext h) + (bh + 2) else bh)"
    have bp: "bp \<le> ?mx" and th: "token_inside ?mx (htext h)"
    proof -
      have "bh + 2 + tsize (htext h) \<le> ?mx \<and> buff (htext h) = Some (bh + 2)" if au
        using that Inr parse_hostport_inside [of net s "bh + 2" _ h]
        by (auto simp: hp_def au_def parse_hostport_def Let_def split: sum.splits prod.splits option.splits if_splits)
      moreover have "htext h = null_token" if "\<not> au"
        using that Inr by (auto simp: hp_def zero_hostport_def)
      ultimately show "bp \<le> ?mx" "token_inside ?mx (htext h)"
        using bh by (cases au; simp add: bp_def token_inside_def null_token_def)+
    qed
    obtain n fr where n: "parse_uric ?mem bp (sz_sub ?mx bp) = Some (n, \<lparr>buff = Some bp, tsize = n\<rparr>)" "n + bp \<le> ?mx"
      and fr: "n + bp < ?mx \<longrightarrow> parse_uric ?mem (n + bp + 1) (sz_sub ?mx (n + bp + 1)) =
       Some (fr, \<lparr>buff = Some (n + bp + 1), tsize = fr\<rparr>) \<and> n + bp + 1 + fr \<le> ?mx"
      using parse_uri_tail_total [OF bp, of ?mem] assms by auto
    show ?thesis
      using Inr n fr st th
      by (auto simp: pu bp_def [symmetric] add.commute)
  qed
qed



text \<open>
  The length argument does not bound the host: when the host text continues past
  it, the remaining length of the path wraps around and \<open>parse_uri\<close> reads on
  past the terminating NUL (which counts as a URI character) to the end of
  the accessible memory.
\<close>

lemma parse_uri_past_length:
  assumes "list_all (\<lambda>c. is_unreserved c \<or> is_reserved c) t" and "inet_pton net AF_INET ''1.2.3.4'' \<noteq> None"
    and "length t < 2 ^ 63"
  shows "parse_uri net (''//1.2.3.4'' @ NUL # t) 3 = None"
proof -
  let ?mem = "''//1.2.3.4'' @ NUL # t"
  have sch: "parse_scheme ?mem 3 = Some (0, null_token)"
    by (simp add: parse_scheme_def rd_def ctype_defs)
  have hp: "\<exists>h. parse_hostport net ?mem 2 d = Inr h \<and> tsize (htext h) = 7" for d
  proof -
    have "parse_host net ''1.2.3.4'' = Inr (AF_INET, ''1.2.3.4'', zero_sockaddr, False, 7)"
      by (simp add: parse_host_def Let_def at_def scan_while.simps host_char_def ctype_defs upt_conv_Cons)
    then show ?thesis
      using assms(2) by (auto simp: parse_hostport_def c_str_def Let_def)
  qed
  have "parse_uric_loop ?mem 9 mx i = None" if "length t + 1 < mx" "i \<le> length t + 1" for mx i
    using that(2)
  proof (induction i rule: inc_induct)
    case base
    then show ?case
      using that(1) by (subst parse_uric_loop.simps) (auto simp: rd_def)
  next
    case (step i)
    have c: "rd ?mem (9 + i) = Some ((NUL # t) ! i)"
      using step.hyps by (simp add: rd_def nth_append)
    have "is_unreserved ((NUL # t) ! i) \<or> is_reserved ((NUL # t) ! i)"
      using assms(1) step.hyps by (cases i) (auto simp: list_all_length is_reserved_def strchr_hit_def)
    then show ?case
      using c step that(1) by (subst parse_uric_loop.simps) simp
  qed
  moreover have at0: "at ?mem 0 = CHR ''/''" and at1: "at ?mem 1 = CHR ''/''"
    by (simp_all add: at_def)
  moreover have "sz_sub 3 9 = SIZE_MOD - 6"
    by (simp add: sz_sub_def SIZE_MOD_def)
  moreover have "length t + 1 < SIZE_MOD - 6"
    using assms(3) by (simp add: SIZE_MOD_def)
  ultimately have "parse_uric ?mem 9 (sz_sub 3 9) = None"
    by (simp add: parse_uric_def)
  moreover obtain h where "parse_hostport net ?mem 2 80 = Inr h" "tsize (htext h) = 7"
    using hp by blast
  moreover have "token_string_casecmp mem null_token ''https'' = 1" for mem
    by (simp add: token_string_casecmp_def null_token_def c_str_def)
  moreover define mem where "mem = ?mem"
  ultimately show ?thesis
    using sch at0 at1 unfolding mem_def [symmetric] by (simp add: parse_uri_def eval_nat_numeral)
qed

end
