(* ===== verification/HttpMatch.thy ===== *)
theory HttpMatch
  imports Uri
begin

text \<open>
  The pattern matcher \<open>vfmatch\<close> of \<^verbatim>\<open>compa/src/genlib/net/http/httpparser.cpp\<close> with its
  wrappers \<open>match\<close> and \<open>matchstr\<close>. The values stored through the pointer
  arguments are collected in the order of the directives; the outer \<open>None\<close> is a
  URI directive whose parser leaves its memory.
\<close>

datatype match_out =
    OMem "memptr option"
  | OInt "int option"
  | OUri "uri_type option"

section \<open>Directives\<close>

text \<open>A matcher that must give a token of one type.\<close>

definition expect_token :: "token_type \<Rightarrow> scanner \<Rightarrow> parse_status \<times> memptr option \<times> scanner" where
  "expect_token ty s =
     (case scanner_get_token s of
        Inl status \<Rightarrow> (status, None, s)
      | Inr (token, tok_type, s1) \<Rightarrow>
          (if tok_type = ty then PARSE_OK else PARSE_NO_MATCH, Some token, s1))"

text \<open>The optional white space of the directive \<open>%w\<close>.\<close>

definition optional_ws :: "scanner \<Rightarrow> parse_status \<times> scanner" where
  "optional_ws s =
     (case scanner_get_token s of
        Inl status \<Rightarrow> (status, s)
      | Inr (token, tok_type, s1) \<Rightarrow>
          (PARSE_OK,
           if tok_type \<noteq> TT_WHITESPACE then s1\<lparr>cursor := cursor s1 - mp_length token\<rparr> else s1))"

definition directive ::
    "net_env \<Rightarrow> char \<Rightarrow> bool \<Rightarrow> scanner \<Rightarrow> (parse_status \<times> match_out list \<times> bool \<times> scanner) option" where
  "directive net c case_sensitive s =
     (if c = CHR ''R'' then
        (case match_raw_value s of (st, v, s1) \<Rightarrow> Some (st, [OMem (Some v)], case_sensitive, s1))
      else if c = CHR ''s'' then
        (case expect_token TT_IDENTIFIER s of (st, v, s1) \<Rightarrow> Some (st, [OMem v], case_sensitive, s1))
      else if c = CHR ''c'' then
        (case expect_token TT_CRLF s of (st, v, s1) \<Rightarrow> Some (st, [], case_sensitive, s1))
      else if c = CHR ''d'' \<or> c = CHR ''x'' then
        (case match_int s (if c = CHR ''d'' then 10 else 16) of
           (st, v, s1) \<Rightarrow> Some (st, [OInt v], case_sensitive, s1))
      else if c = CHR ''S'' then
        (case match_non_ws_string s of (st, v, s1) \<Rightarrow> Some (st, [OMem (Some v)], case_sensitive, s1))
      else if c = CHR ''U'' then
        (case match_non_ws_string s of
           (st, v, s1) \<Rightarrow>
             if st = PARSE_OK then
               (case parse_uri net (drop (mp_buf v) (smsg s) @ [NUL]) (mp_length v) of
                  None \<Rightarrow> None
                | Some (Inl e) \<Rightarrow> Some (PARSE_NO_MATCH, [OUri None], case_sensitive, s1)
                | Some (Inr u) \<Rightarrow> Some (PARSE_OK, [OUri (Some u)], case_sensitive, s1))
             else Some (st, [], case_sensitive, s1))
      else if c = CHR ''L'' then
        (case read_until_crlf s of (st, v, s1) \<Rightarrow> Some (st, [OMem v], case_sensitive, s1))
      else if c = CHR '' '' \<or> c = CHR ''%'' then
        (case match_char s c case_sensitive of (st, s1) \<Rightarrow> Some (st, [], case_sensitive, s1))
      else if c = CHR ''n'' then Some (PARSE_OK, [], True, s)
      else if c = CHR ''i'' then Some (PARSE_OK, [], False, s)
      else if c = CHR ''q'' then
        (case expect_token TT_QUOTEDSTRING s of (st, v, s1) \<Rightarrow> Some (st, [OMem v], case_sensitive, s1))
      else if c = CHR ''w'' then
        (case optional_ws s of (st, s1) \<Rightarrow> Some (st, [], case_sensitive, s1))
      else if c = CHR ''P'' then Some (PARSE_OK, [OInt (Some (to_int (int (cursor s))))], case_sensitive, s)
      else if c = CHR ''0'' then
        Some (if cursor s = length (smsg s) then PARSE_OK else PARSE_NO_MATCH, [], case_sensitive, s)
      else Some (PARSE_OK, [], case_sensitive, s))"

definition plain_char :: "char \<Rightarrow> bool \<Rightarrow> scanner \<Rightarrow> parse_status \<times> scanner" where
  "plain_char c case_sensitive s =
     (if c = CHR '' '' then skip_lws s
      else if c = TAB then (case expect_token TT_WHITESPACE s of (st, v, s1) \<Rightarrow> (st, s1))
      else match_char s c case_sensitive)"

section \<open>The format loop\<close>

fun vfmatch_loop ::
    "net_env \<Rightarrow> string \<Rightarrow> parse_status \<Rightarrow> bool \<Rightarrow> scanner \<Rightarrow> match_out list \<Rightarrow>
     (parse_status \<times> match_out list \<times> scanner) option" where
  "vfmatch_loop net [] status cs s outs = Some (status, outs, s)"
| "vfmatch_loop net [c] status cs s outs =
     (if status \<noteq> PARSE_OK then Some (status, outs, s)
      else if c = CHR ''%'' then Some (PARSE_OK, outs, s)
      else (case plain_char c cs s of (st, s1) \<Rightarrow> Some (st, outs, s1)))"
| "vfmatch_loop net (c # d # fmt) status cs s outs =
     (if status \<noteq> PARSE_OK then Some (status, outs, s)
      else if c = CHR ''%'' then
        (case directive net d cs s of
           None \<Rightarrow> None
         | Some (st, vs, cs1, s1) \<Rightarrow> vfmatch_loop net fmt st cs1 s1 (outs @ vs))
      else (case plain_char c cs s of (st, s1) \<Rightarrow> vfmatch_loop net (d # fmt) st cs s1 outs))"

definition vfmatch :: "net_env \<Rightarrow> scanner \<Rightarrow> string \<Rightarrow> (parse_status \<times> match_out list \<times> scanner) option" where
  "vfmatch net s fmt =
     (case vfmatch_loop net fmt PARSE_OK True s [] of
        None \<Rightarrow> None
      | Some (status, outs, s1) \<Rightarrow>
          Some (status, outs, if status \<noteq> PARSE_OK then s1\<lparr>cursor := cursor s\<rparr> else s1))"

text \<open>\<open>matchstr\<close> scans a string that is completely there.\<close>

definition matchstr :: "net_env \<Rightarrow> string \<Rightarrow> nat \<Rightarrow> string \<Rightarrow> (parse_status \<times> match_out list) option" where
  "matchstr net str slen fmt =
     (if length str < slen then None
      else map_option (\<lambda>(st, outs, s). (st, outs))
             (vfmatch net \<lparr>smsg = take slen str, cursor = 0, entire_msg_loaded = True\<rparr> fmt))"

section \<open>Contracts\<close>

interpretation expected: matcher "expect_token ty" for ty
  by unfold_locales (auto simp: expect_token_def token_step token_error_extend split: sum.splits)

interpretation opt_ws: matcher "\<lambda>s. no_value (optional_ws s)"
proof (unfold_locales, goal_cases)
  case (3 s st v s' rest)
  show ?case
  proof (cases "scanner_get_token s")
    case (Inl e)
    then show ?thesis
      using 3 token_error_extend [OF Inl] by (auto simp: no_value_def optional_ws_def)
  next
    case (Inr r)
    then obtain tok ty s1 where t: "scanner_get_token s = Inr (tok, ty, s1)"
      by (cases r) auto
    show ?thesis
      using 3 t token_step [OF t] by (auto simp: no_value_def optional_ws_def)
  qed
qed (auto simp: no_value_def optional_ws_def token_step split: sum.splits if_splits)

text \<open>Formats of the streaming parser: no \<open>%U\<close>, \<open>%0\<close>.\<close>

fun stream_format :: "string \<Rightarrow> bool" where
  "stream_format (c # d # fmt) \<longleftrightarrow>
     (if c = CHR ''%'' then d \<noteq> CHR ''U'' \<and> d \<noteq> CHR ''0'' \<and> stream_format fmt else stream_format (d # fmt))"
| "stream_format _ \<longleftrightarrow> True"

definition good_step :: "scanner \<Rightarrow> parse_status \<Rightarrow> scanner \<Rightarrow> bool" where
  "good_step s st s' \<longleftrightarrow> smsg s' = smsg s \<and> entire_msg_loaded s' = entire_msg_loaded s \<and> cursor s \<le> cursor s' \<and>
     (cursor s \<le> length (smsg s) \<longrightarrow> cursor s' \<le> length (smsg s))"

lemma good_step_trans: "good_step s st s1 \<Longrightarrow> good_step s1 st' s2 \<Longrightarrow> good_step s st' s2"
  by (simp add: good_step_def)

text \<open>The contract in the form the loop needs, for every matcher of the format language.\<close>

lemma matcher_good:
  assumes "matcher m" and "m s = (st, v, s')"
  shows "good_step s st s'"
    and "\<not> entire_msg_loaded s \<Longrightarrow> cursor s \<le> length (smsg s) \<Longrightarrow> st \<noteq> PARSE_INCOMPLETE \<Longrightarrow>
      m (grow rest s) = (st, v, grow rest s')"
  using matcher.frame [OF assms] matcher.inside [OF assms] matcher.decided [OF assms] matcher.forward [OF assms]
  by (auto simp: good_step_def)

lemma plain_char_matcher: "matcher (\<lambda>s. no_value (plain_char c cs s))"
proof -
  consider "c = CHR '' ''" | "c = TAB" | "c \<noteq> CHR '' ''" "c \<noteq> TAB"
    by blast
  then show ?thesis
  proof cases
    case 1
    then show ?thesis
      using lws.matcher_axioms by (simp add: plain_char_def)
  next
    case 2
    then have e: "no_value (plain_char c cs s) =
        (case expect_token TT_WHITESPACE s of (st, v, s1) \<Rightarrow> (st, (), s1))" for s
      by (simp add: plain_char_def no_value_def split: prod.splits)
    show ?thesis
      unfolding e
    proof (unfold_locales, goal_cases)
      case (1 s st v s')
      then show ?case
        using expected.frame [of TT_WHITESPACE s st _ s'] by (auto split: prod.splits)
    next
      case (2 s st v s')
      then show ?case
        using expected.inside [of TT_WHITESPACE s st _ s'] by (auto split: prod.splits)
    next
      case (3 s st v s' rest)
      then obtain w where "expect_token TT_WHITESPACE s = (st, w, s')"
        by (auto split: prod.splits)
      then show ?case
        using expected.decided [of TT_WHITESPACE s st w s' rest] 3 by simp
    next
      case (4 s st v s')
      then show ?case
        using expected.forward [of TT_WHITESPACE s st _ s'] by (auto split: prod.splits)
    qed
  next
    case 3
    then show ?thesis
      using literal.matcher_axioms by (simp add: plain_char_def)
  qed
qed

lemma plain_char_good:
  assumes "plain_char c cs s = (st, s')"
  shows "good_step s st s'"
    and "\<not> entire_msg_loaded s \<Longrightarrow> cursor s \<le> length (smsg s) \<Longrightarrow> st \<noteq> PARSE_INCOMPLETE \<Longrightarrow>
      plain_char c cs (grow rest s) = (st, grow rest s')"
proof -
  have v: "no_value (plain_char c cs s) = (st, (), s')"
    using assms by (simp add: no_value_def)
  show "good_step s st s'"
    using matcher_good(1) [OF plain_char_matcher v] .
  show "plain_char c cs (grow rest s) = (st, grow rest s')"
    if "\<not> entire_msg_loaded s" "cursor s \<le> length (smsg s)" "st \<noteq> PARSE_INCOMPLETE"
    using matcher_good(2) [OF plain_char_matcher v that, of rest] by (auto simp: no_value_def split: prod.splits)
qed

text \<open>A directive is one of the matchers, up to how its result is wrapped.\<close>

definition directive_of ::
    "(scanner \<Rightarrow> parse_status \<times> 'a \<times> scanner) \<Rightarrow> ('a \<Rightarrow> match_out list) \<Rightarrow> bool \<Rightarrow> scanner \<Rightarrow>
     (parse_status \<times> match_out list \<times> bool \<times> scanner) option" where
  "directive_of m f cs s = (case m s of (st, v, s1) \<Rightarrow> Some (st, f v, cs, s1))"

lemma directive_of_good:
  assumes "matcher m" and "directive_of m f cs s = Some (st, vs, cs', s')"
  shows "good_step s st s'"
    and "\<not> entire_msg_loaded s \<Longrightarrow> cursor s \<le> length (smsg s) \<Longrightarrow> st \<noteq> PARSE_INCOMPLETE \<Longrightarrow>
      directive_of m f cs (grow rest s) = Some (st, vs, cs', grow rest s')"
proof -
  obtain v where v: "m s = (st, v, s')" "vs = f v" "cs' = cs"
    using assms(2) by (auto simp: directive_of_def split: prod.splits)
  show "good_step s st s'"
    by (rule matcher_good(1) [OF assms(1) v(1)])
  show "directive_of m f cs (grow rest s) = Some (st, vs, cs', grow rest s')"
    if "\<not> entire_msg_loaded s" "cursor s \<le> length (smsg s)" "st \<noteq> PARSE_INCOMPLETE"
    using matcher_good(2) [OF assms(1) v(1) that, of rest] v by (simp add: directive_of_def)
qed


definition final_directive :: "net_env \<Rightarrow> char \<Rightarrow> bool \<Rightarrow> bool" where
  "final_directive net d cs \<longleftrightarrow>
     (\<forall>s st vs cs' s' rest. directive net d cs s = Some (st, vs, cs', s') \<longrightarrow>
        good_step s st s' \<and> (\<not> entire_msg_loaded s \<longrightarrow> cursor s \<le> length (smsg s) \<longrightarrow> st \<noteq> PARSE_INCOMPLETE \<longrightarrow>
          directive net d cs (grow rest s) = Some (st, vs, cs', grow rest s')))"

lemma final_directive_of:
  assumes "matcher m" and "\<And>s. directive net d cs s = directive_of m f cs s"
  shows "final_directive net d cs"
  using directive_of_good [OF assms(1)] unfolding final_directive_def assms(2) by blast

lemma final_directive_const:
  assumes "\<And>s. directive net d cs s = Some (PARSE_OK, k s, cs', s)" and "\<And>rest s. k (grow rest s) = k s"
  shows "final_directive net d cs"
  unfolding final_directive_def assms(1) using assms(2) by (simp add: good_step_def)

lemma directive_final:
  assumes "d \<noteq> CHR ''U''" and "d \<noteq> CHR ''0''"
  shows "final_directive net d cs"
proof -
  consider "d = CHR ''R''" | "d = CHR ''s''" | "d = CHR ''c''" | "d = CHR ''q''" | "d = CHR ''d''" | "d = CHR ''x''"
    | "d = CHR ''S''" | "d = CHR ''L''" | "d = CHR '' ''" | "d = CHR ''w''"
    | "d = CHR ''n''" | "d = CHR ''i''" | "d = CHR ''P''"
    | "d = CHR ''%''" | "d \<notin> set ''RscqdxSL %wniPU0''"
    using assms by auto
  then show ?thesis
  proof cases
    case 1
    then show ?thesis
      by (intro final_directive_of [OF raw_value.matcher_axioms, where f = "\<lambda>v. [OMem (Some v)]"])
         (simp add: directive_def directive_of_def)
  next
    case 2
    then show ?thesis
      by (intro final_directive_of [OF expected.matcher_axioms, where f = "\<lambda>v. [OMem v]"])
         (simp add: directive_def directive_of_def)
  next
    case 3
    then show ?thesis
      by (intro final_directive_of [OF expected.matcher_axioms, where f = "\<lambda>v. []"])
         (simp add: directive_def directive_of_def)
  next
    case 4
    then show ?thesis
      by (intro final_directive_of [OF expected.matcher_axioms, where f = "\<lambda>v. [OMem v]"])
         (simp add: directive_def directive_of_def)
  next
    case 5
    then show ?thesis
      by (intro final_directive_of [OF dec.matcher_axioms, where f = "\<lambda>v. [OInt v]"])
         (simp add: directive_def directive_of_def)
  next
    case 6
    then show ?thesis
      by (intro final_directive_of [OF hex.matcher_axioms, where f = "\<lambda>v. [OInt v]"])
         (simp add: directive_def directive_of_def)
  next
    case 7
    then show ?thesis
      by (intro final_directive_of [OF non_ws.matcher_axioms, where f = "\<lambda>v. [OMem (Some v)]"])
         (simp add: directive_def directive_of_def)
  next
    case 8
    then show ?thesis
      by (intro final_directive_of [OF line.matcher_axioms, where f = "\<lambda>v. [OMem v]"])
         (simp add: directive_def directive_of_def)
  next
    case 9
    then show ?thesis
      by (intro final_directive_of [OF literal.matcher_axioms [of d cs], where f = "\<lambda>v. []"])
         (simp add: directive_def directive_of_def no_value_def split: prod.splits)
  next
    case 10
    then show ?thesis
      by (intro final_directive_of [OF opt_ws.matcher_axioms, where f = "\<lambda>v. []"])
         (simp add: directive_def directive_of_def no_value_def split: prod.splits)
  next
    case 11
    then show ?thesis
      by (intro final_directive_const [where k = "\<lambda>_. []" and cs' = True]) (simp_all add: directive_def)
  next
    case 12
    then show ?thesis
      by (intro final_directive_const [where k = "\<lambda>_. []" and cs' = False]) (simp_all add: directive_def)
  next
    case 13
    then show ?thesis
      by (intro final_directive_const [where k = "\<lambda>s. [OInt (Some (to_int (int (cursor s))))]"])
         (simp_all add: directive_def)
  next
    case 14
    then show ?thesis
      by (intro final_directive_of [OF literal.matcher_axioms [of d cs], where f = "\<lambda>v. []"])
         (simp add: directive_def directive_of_def no_value_def split: prod.splits)
  next
    case 15
    then show ?thesis
      by (intro final_directive_const [where k = "\<lambda>_. []"]) (simp_all add: directive_def)
  qed
qed

lemma vfmatch_loop_final:
  "stream_format fmt \<Longrightarrow> vfmatch_loop net fmt st0 cs s outs = Some (st, outs', s') \<Longrightarrow>
     good_step s st s' \<and> (\<not> entire_msg_loaded s \<longrightarrow> cursor s \<le> length (smsg s) \<longrightarrow> st \<noteq> PARSE_INCOMPLETE \<longrightarrow>
       vfmatch_loop net fmt st0 cs (grow rest s) outs = Some (st, outs', grow rest s'))"
proof (induction net fmt st0 cs s outs rule: vfmatch_loop.induct)
  case (1 net status cs s outs)
  then show ?case by (simp add: good_step_def)
next
  case (2 net c status cs s outs)
  obtain st1 s1 where "plain_char c cs s = (st1, s1)"
    by fastforce
  with 2 show ?case
    using plain_char_good [of c cs s st1 s1] by (auto simp: good_step_def split: if_splits)
next
  case (3 net c d fmt status cs s outs)
  show ?case
  proof (cases "status = PARSE_OK")
    case False
    then show ?thesis
      using 3 by (auto simp: good_step_def)
  next
    case True
    show ?thesis
    proof (cases "c = CHR ''%''")
      case pc: True
      then have d: "d \<noteq> CHR ''U''" "d \<noteq> CHR ''0''" "stream_format fmt"
        using 3(3) by auto
      obtain st1 vs cs1 s1 where x: "directive net d cs s = Some (st1, vs, cs1, s1)"
        using 3(4) True pc by (auto split: option.splits)
      have g: "good_step s st1 s1" "\<not> entire_msg_loaded s \<Longrightarrow> cursor s \<le> length (smsg s) \<Longrightarrow> st1 \<noteq> PARSE_INCOMPLETE \<Longrightarrow>
          directive net d cs (grow rest s) = Some (st1, vs, cs1, grow rest s1)"
        using directive_final [OF d(1,2), of net cs] x unfolding final_directive_def by blast+
      have l: "vfmatch_loop net fmt st1 cs1 s1 (outs @ vs) = Some (st, outs', s')"
        using 3(4) True pc x by simp
      have inc: "st1 = PARSE_INCOMPLETE \<Longrightarrow> st = PARSE_INCOMPLETE"
        using l by (cases fmt rule: list3_cases) auto
      show ?thesis
        using 3(1) [OF _ pc x refl refl refl d(3) l] True g inc pc
        by (cases "st1 = PARSE_INCOMPLETE") (auto simp: good_step_def)
    next
      case npc: False
      obtain st1 s1 where x: "plain_char c cs s = (st1, s1)"
        by fastforce
      have l: "vfmatch_loop net (d # fmt) st1 cs s1 outs = Some (st, outs', s')"
        using 3(4) True npc x by simp
      have inc: "st1 = PARSE_INCOMPLETE \<Longrightarrow> st = PARSE_INCOMPLETE"
        using l by (cases fmt) auto
      show ?thesis
        using 3(2) [OF _ npc x [symmetric] _ l] 3(3) True plain_char_good [OF x] inc npc
        by (cases "st1 = PARSE_INCOMPLETE") (auto simp: good_step_def)
    qed
  qed
qed

text \<open>
  Property C29. While a message is arriving, the result of matching one of the parser's
  formats is final unless it is \<open>PARSE_INCOMPLETE\<close>: with more bytes appended,
  the status, the stored values and the cursor are the same. The message is
  not changed and the cursor stays inside it.
\<close>

theorem vfmatch_final:
  assumes "stream_format fmt" and "vfmatch net s fmt = Some (st, outs, s')"
    and "\<not> entire_msg_loaded s" and "cursor s \<le> length (smsg s)"
  shows "smsg s' = smsg s \<and> cursor s' \<le> length (smsg s) \<and>
    (st \<noteq> PARSE_INCOMPLETE \<longrightarrow>
       vfmatch net (s\<lparr>smsg := smsg s @ rest\<rparr>) fmt = Some (st, outs, s'\<lparr>smsg := smsg s @ rest\<rparr>))"
proof -
  obtain s1 where s1: "vfmatch_loop net fmt PARSE_OK True s [] = Some (st, outs, s1)"
    "s' = (if st \<noteq> PARSE_OK then s1\<lparr>cursor := cursor s\<rparr> else s1)"
    using assms(2) by (auto simp: vfmatch_def split: option.splits)
  note f = vfmatch_loop_final [OF assms(1) s1(1), of rest]
  have "vfmatch net (grow rest s) fmt = Some (st, outs, grow rest s')" if "st \<noteq> PARSE_INCOMPLETE"
    using f assms(3,4) that s1(2) by (simp add: vfmatch_def)
  then show ?thesis
    using f s1(2) assms(4) by (auto simp: good_step_def grow_def)
qed

definition demo_hdr :: scanner where
  "demo_hdr = \<lparr>smsg = ''HOST : a'' @ [CR, LF] @ ''X'', cursor = 4, entire_msg_loaded = False\<rparr>"

theorem vfmatch_final_witness:
  "\<exists>s'. vfmatch demo_net demo_hdr '' :'' = Some (PARSE_OK, [], s') \<and>
     vfmatch demo_net (demo_hdr\<lparr>smsg := smsg demo_hdr @ ''-Y''\<rparr>) '' :'' =
       Some (PARSE_OK, [], s'\<lparr>smsg := smsg demo_hdr @ ''-Y''\<rparr>)"
proof -
  have "vfmatch demo_net demo_hdr '' :'' = Some (PARSE_OK, [], demo_hdr\<lparr>cursor := 6\<rparr>)"
    by (simp add: vfmatch_def plain_char_def skip_lws_def skip_lws_loop.simps skip_lws_step_def
      scanner_get_token_def token_at_def demo_hdr_def scan_while.simps match_char_def
      is_identifier_char_def is_separator_char_def strchr_hit_def sc_def Let_def)
  then show ?thesis
    using vfmatch_final [of "'' :''" demo_net demo_hdr PARSE_OK "[]" _ "''-Y''"]
    by (auto simp: demo_hdr_def)
qed

end
