(* ===== verification/HttpParser.thy ===== *)
theory HttpParser
  imports HttpMatch
begin

text \<open>
  The message parser of \<^verbatim>\<open>compa/src/genlib/net/http/httpparser.cpp\<close>: tables, message and
  parser state, request line, response line, headers and the three ways to
  read an entity, up to \<open>parser_parse\<close> and \<open>parser_append\<close>. The message buffer and
  the header values are memory buffers of the theory \<open>Membuffer\<close>; the header list
  is a list, which the queue refinement of \<open>LinkedList\<close> justifies. Every operation
  takes and returns the allocator's script; the outer \<open>None\<close> is an access
  outside of memory, or a loop that does not end.
\<close>

section \<open>Tables\<close>

definition HTTPMETHOD_PUT :: int where "HTTPMETHOD_PUT = 0"
definition HTTPMETHOD_DELETE :: int where "HTTPMETHOD_DELETE = 1"
definition HTTPMETHOD_GET :: int where "HTTPMETHOD_GET = 2"
definition HTTPMETHOD_HEAD :: int where "HTTPMETHOD_HEAD = 3"
definition HTTPMETHOD_POST :: int where "HTTPMETHOD_POST = 4"
definition HTTPMETHOD_MPOST :: int where "HTTPMETHOD_MPOST = 5"
definition HTTPMETHOD_SUBSCRIBE :: int where "HTTPMETHOD_SUBSCRIBE = 6"
definition HTTPMETHOD_UNSUBSCRIBE :: int where "HTTPMETHOD_UNSUBSCRIBE = 7"
definition HTTPMETHOD_NOTIFY :: int where "HTTPMETHOD_NOTIFY = 8"
definition HTTPMETHOD_MSEARCH :: int where "HTTPMETHOD_MSEARCH = 9"
definition HTTPMETHOD_UNKNOWN :: int where "HTTPMETHOD_UNKNOWN = 10"
definition SOAPMETHOD_POST :: int where "SOAPMETHOD_POST = 11"
definition HTTPMETHOD_SIMPLEGET :: int where "HTTPMETHOD_SIMPLEGET = 12"

lemmas method_defs = HTTPMETHOD_PUT_def HTTPMETHOD_DELETE_def HTTPMETHOD_GET_def HTTPMETHOD_HEAD_def
  HTTPMETHOD_POST_def HTTPMETHOD_MPOST_def HTTPMETHOD_SUBSCRIBE_def HTTPMETHOD_UNSUBSCRIBE_def
  HTTPMETHOD_NOTIFY_def HTTPMETHOD_MSEARCH_def HTTPMETHOD_UNKNOWN_def SOAPMETHOD_POST_def
  HTTPMETHOD_SIMPLEGET_def

definition entry :: "string \<times> int \<Rightarrow> str_int_entry" where
  "entry e = \<lparr>name = fst e, id = snd e\<rparr>"

definition Http_Method_Table :: "str_int_entry list" where
  "Http_Method_Table = map entry
     [(''DELETE'', HTTPMETHOD_DELETE), (''GET'', HTTPMETHOD_GET), (''HEAD'', HTTPMETHOD_HEAD),
      (''M-POST'', HTTPMETHOD_MPOST), (''M-SEARCH'', HTTPMETHOD_MSEARCH), (''NOTIFY'', HTTPMETHOD_NOTIFY),
      (''POST'', HTTPMETHOD_POST), (''SUBSCRIBE'', HTTPMETHOD_SUBSCRIBE),
      (''UNSUBSCRIBE'', HTTPMETHOD_UNSUBSCRIBE), (''POST'', SOAPMETHOD_POST), (''PUT'', HTTPMETHOD_PUT)]"

definition NUM_HTTP_METHODS :: int where
  "NUM_HTTP_METHODS = 11"

definition HDR_UNKNOWN :: int where "HDR_UNKNOWN = -1"
definition HDR_CONTENT_LENGTH :: int where "HDR_CONTENT_LENGTH = 3"
definition HDR_SOAPACTION :: int where "HDR_SOAPACTION = 19"
definition HDR_TRANSFER_ENCODING :: int where "HDR_TRANSFER_ENCODING = 22"

definition Http_Header_Names :: "str_int_entry list" where
  "Http_Header_Names = map entry
     [(''ACCEPT'', 25), (''ACCEPT-CHARSET'', 27), (''ACCEPT-ENCODING'', 26), (''ACCEPT-LANGUAGE'', 28),
      (''ACCEPT-RANGES'', 29), (''CACHE-CONTROL'', 1), (''CALLBACK'', 2), (''CONTENT-ENCODING'', 30),
      (''CONTENT-LANGUAGE'', 31), (''CONTENT-LENGTH'', HDR_CONTENT_LENGTH), (''CONTENT-LOCATION'', 32),
      (''CONTENT-RANGE'', 33), (''CONTENT-TYPE'', 4), (''DATE'', 5), (''EXT'', 6), (''HOST'', 7),
      (''IF-RANGE'', 34), (''LOCATION'', 11), (''MAN'', 12), (''MX'', 13), (''NT'', 14), (''NTS'', 15),
      (''RANGE'', 35), (''SEQ'', 17), (''SERVER'', 16), (''SID'', 18), (''SOAPACTION'', HDR_SOAPACTION),
      (''ST'', 20), (''TE'', 36), (''TIMEOUT'', 21), (''TRANSFER-ENCODING'', HDR_TRANSFER_ENCODING),
      (''USER-AGENT'', 24), (''USN'', 23)]"

definition NUM_HTTP_HEADER_NAMES :: int where
  "NUM_HTTP_HEADER_NAMES = 33"

definition HTTP_BAD_REQUEST :: int where "HTTP_BAD_REQUEST = 400"
definition HTTP_LENGTH_REQUIRED :: int where "HTTP_LENGTH_REQUIRED = 411"
definition HTTP_INTERNAL_SERVER_ERROR :: int where "HTTP_INTERNAL_SERVER_ERROR = 500"
definition HTTP_NOT_IMPLEMENTED :: int where "HTTP_NOT_IMPLEMENTED = 501"
definition HTTP_HTTP_VERSION_NOT_SUPPORTED :: int where "HTTP_HTTP_VERSION_NOT_SUPPORTED = 505"

section \<open>State\<close>

datatype parser_pos = POS_REQUEST_LINE | POS_RESPONSE_LINE | POS_HEADERS | POS_ENTITY | POS_COMPLETE

datatype ent_pos =
    ENTREAD_DETERMINE_READ_METHOD | ENTREAD_USING_CLEN | ENTREAD_USING_CHUNKED
  | ENTREAD_UNTIL_CLOSE | ENTREAD_CHUNKY_BODY | ENTREAD_CHUNKY_HEADERS

record http_header =
  name_buf :: membuffer
  name_id :: int
  hvalue :: membuffer

text \<open>The parser record extends the message record; \<open>entity_buf\<close> is an offset into the message buffer.\<close>

record http_message =
  initialized :: bool
  pmethod :: int
  puri :: "uri_type option"
  request_method :: int
  status_code :: int
  status_msg :: membuffer
  amount_discarded :: nat
  is_request :: bool
  major_version :: int
  minor_version :: int
  headers :: "http_header list"
  entity_buf :: "nat option"
  entity_length :: nat
  msg :: membuffer
  urlbuf :: "string option"

record http_parser = http_message +
  http_error_code :: int
  valid_ssdp_notify_hack :: bool
  position :: parser_pos
  ent_position :: ent_pos
  content_length :: nat
  chunk_size :: nat
  entity_start_position :: nat
  pcursor :: nat
  pentire :: bool

definition empty_membuffer :: membuffer where
  "empty_membuffer = membuffer_init \<lparr>buf = None, mlength = 0, capacity = 0, size_inc = 0\<rparr>"

text \<open>\<open>parser_init\<close>: everything zero, then \<open>httpmsg_init\<close> and \<open>scanner_init\<close>.\<close>

definition parser_init :: http_parser where
  "parser_init =
     \<lparr>initialized = True, pmethod = 0, puri = None, request_method = 0, status_code = 0,
      status_msg = empty_membuffer, amount_discarded = 0, is_request = False, major_version = 0,
      minor_version = 0, headers = [], entity_buf = None, entity_length = 0, msg = empty_membuffer,
      urlbuf = None, http_error_code = HTTP_BAD_REQUEST, valid_ssdp_notify_hack = False,
      position = POS_REQUEST_LINE, ent_position = ENTREAD_DETERMINE_READ_METHOD, content_length = 0,
      chunk_size = 0, entity_start_position = 0, pcursor = 0, pentire = False\<rparr>"

definition parser_request_init :: http_parser where
  "parser_request_init = parser_init\<lparr>is_request := True, position := POS_REQUEST_LINE\<rparr>"

definition parser_response_init :: "int \<Rightarrow> http_parser" where
  "parser_response_init req =
     parser_init\<lparr>is_request := False, request_method := req, amount_discarded := 0,
                 position := POS_RESPONSE_LINE\<rparr>"

definition httpmsg_destroy :: "http_parser \<Rightarrow> http_parser" where
  "httpmsg_destroy p =
     (if initialized p then
        p\<lparr>headers := [], msg := membuffer_destroy (msg p), status_msg := membuffer_destroy (status_msg p),
          initialized := False\<rparr>
      else p)"

definition scan_of :: "http_parser \<Rightarrow> scanner" where
  "scan_of p = \<lparr>smsg = contents (msg p), cursor = pcursor p, entire_msg_loaded = pentire p\<rparr>"

abbreviation set_scan :: "http_parser \<Rightarrow> scanner \<Rightarrow> http_parser" where
  "set_scan p s \<equiv> p\<lparr>pcursor := cursor s\<rparr>"

abbreviation fail_with :: "http_parser \<Rightarrow> int \<Rightarrow> http_parser \<times> parse_status" where
  "fail_with p code \<equiv> (p\<lparr>http_error_code := code\<rparr>, PARSE_FAILURE)"

section \<open>Headers\<close>

definition httpmsg_find_hdr :: "http_parser \<Rightarrow> int \<Rightarrow> nat option" where
  "httpmsg_find_hdr p k = find (\<lambda>i. name_id (headers p ! i) = k) [0..<length (headers p)]"

definition httpmsg_find_hdr_str :: "http_parser \<Rightarrow> string \<Rightarrow> nat option" where
  "httpmsg_find_hdr_str p nm =
     find (\<lambda>i. let n = name_buf (headers p ! i) in memptr_cmp_nocase (contents n) (mlength n) nm = 0)
       [0..<length (headers p)]"

definition raw_to_int :: "string \<Rightarrow> nat \<Rightarrow> int" where
  "raw_to_int v base =
     (if v = [] then -1
      else
        (case strtol base v of
           (num, consumed, erange) \<Rightarrow>
             if num < 0 \<or> consumed \<noteq> length v \<or> ((num = LONG_MIN \<or> num = LONG_MAX) \<and> erange)
             then -1 else to_int num))"

text \<open>\<open>strstr\<close>: the position of the first occurrence.\<close>

definition strstr :: "string \<Rightarrow> string \<Rightarrow> nat option" where
  "strstr hay needle = find (\<lambda>i. prefix needle (drop i hay)) [0..<Suc (length hay)]"

text \<open>The buffer is changed to lower case up to its first NUL; the result is the new buffer and the index.\<close>

definition raw_find_str :: "string \<Rightarrow> string \<Rightarrow> string \<times> int" where
  "raw_find_str v str =
     (let v' = map tolower (c_str v) @ drop (length (c_str v)) v in
      (v', case strstr (c_str v') str of None \<Rightarrow> -1 | Some i \<Rightarrow> int i))"

definition method_to_str :: "int \<Rightarrow> string option" where
  "method_to_str m =
     (case map_int_to_str m Http_Method_Table NUM_HTTP_METHODS of
        None \<Rightarrow> None
      | Some i \<Rightarrow> if i = -1 then None else Some (name (Http_Method_Table ! nat i)))"

section \<open>Request line\<close>

fun strip_slashes :: "string \<Rightarrow> string" where
  "strip_slashes (a # b # u) =
     (if a = CHR ''/'' \<and> b = CHR ''/'' then strip_slashes (b # u) else a # b # u)"
| "strip_slashes u = u"

text \<open>\<open>sscanf\<close> with \<open>%d\<close> directives: the value and the rest of the text.\<close>

definition scan_int :: "string \<Rightarrow> (int \<times> string) option" where
  "scan_int t = (case strtol 10 t of (v, n, e) \<Rightarrow> if n = 0 then None else Some (to_int v, drop n t))"

definition sscanf_version :: "string \<Rightarrow> int \<Rightarrow> int \<Rightarrow> int \<times> int \<times> int \<times> string" where
  "sscanf_version t major minor =
     (case scan_int t of
        None \<Rightarrow> (0, major, minor, t)
      | Some (a, r) \<Rightarrow>
          (case dropWhile isspace r of
             [] \<Rightarrow> (1, a, minor, [])
           | c # r2 \<Rightarrow>
               if c \<noteq> CHR ''.'' then (1, a, minor, r2)
               else
                 (case scan_int r2 of
                    None \<Rightarrow> (1, a, minor, r2)
                  | Some (b, r3) \<Rightarrow> (2, a, b, r3))))"

text \<open>Store the URL and parse it; the status \<open>PARSE_OK\<close> stands for going on.\<close>

definition store_url ::
    "net_env \<Rightarrow> alloc_script \<Rightarrow> http_parser \<Rightarrow> string \<Rightarrow> (alloc_script \<times> http_parser \<times> parse_status) option" where
  "store_url net ms p url =
     (case str_alloc ms url (length url) of
        None \<Rightarrow> None
      | Some (ms1, None) \<Rightarrow> Some (ms1, fail_with (p\<lparr>urlbuf := None\<rparr>) HTTP_INTERNAL_SERVER_ERROR)
      | Some (ms1, Some b) \<Rightarrow>
          let p1 = p\<lparr>urlbuf := Some b\<rparr> in
          (case parse_uri net b (length url) of
             None \<Rightarrow> None
           | Some (Inl e) \<Rightarrow> Some (ms1, p1, PARSE_FAILURE)
           | Some (Inr u) \<Rightarrow> Some (ms1, p1\<lparr>puri := Some u\<rparr>, PARSE_OK)))"

definition mem_out :: "match_out list \<Rightarrow> nat \<Rightarrow> memptr" where
  "mem_out outs i = (case outs ! i of OMem (Some v) \<Rightarrow> v | _ \<Rightarrow> \<lparr>mp_buf = 0, mp_length = 0\<rparr>)"

definition simple_get ::
    "net_env \<Rightarrow> alloc_script \<Rightarrow> http_parser \<Rightarrow> string \<Rightarrow> string \<Rightarrow>
     (alloc_script \<times> http_parser \<times> parse_status) option" where
  "simple_get net ms p meth url =
     (case map_str_to_int meth (length meth) Http_Method_Table NUM_HTTP_METHODS 1 of
        None \<Rightarrow> None
      | Some index \<Rightarrow>
          if index < 0 then Some (ms, fail_with p HTTP_NOT_IMPLEMENTED)
          else if id (Http_Method_Table ! nat index) \<noteq> HTTPMETHOD_GET then Some (ms, fail_with p HTTP_BAD_REQUEST)
          else
            (case store_url net ms (p\<lparr>pmethod := HTTPMETHOD_SIMPLEGET\<rparr>) (strip_slashes url) of
               None \<Rightarrow> None
             | Some (ms1, p1, st) \<Rightarrow>
                 if st \<noteq> PARSE_OK then Some (ms1, p1, st)
                 else Some (ms1, p1\<lparr>position := POS_COMPLETE\<rparr>, PARSE_SUCCESS)))"

definition full_request ::
    "net_env \<Rightarrow> alloc_script \<Rightarrow> http_parser \<Rightarrow> string \<Rightarrow> string \<Rightarrow> string \<Rightarrow>
     (alloc_script \<times> http_parser \<times> parse_status) option" where
  "full_request net ms p meth url version =
     (case store_url net ms p (strip_slashes url) of
        None \<Rightarrow> None
      | Some (ms1, p1, st) \<Rightarrow>
          if st \<noteq> PARSE_OK then Some (ms1, p1, st)
          else
            (case map_str_to_int meth (length meth) Http_Method_Table NUM_HTTP_METHODS 1 of
               None \<Rightarrow> None
             | Some index \<Rightarrow>
                 if index < 0 then Some (ms1, fail_with p1 HTTP_NOT_IMPLEMENTED)
                 else
                   (case sscanf_version (c_str version) (major_version p1) (minor_version p1) of
                      (num_scanned, major, minor, r) \<Rightarrow>
                        let p2 = p1\<lparr>major_version := major, minor_version := minor\<rparr>;
                            k = id (Http_Method_Table ! nat index)
                        in if num_scanned \<noteq> 2 \<or> major < 0 \<or> (major = 1 \<and> minor < 1 \<and> k = HTTPMETHOD_MSEARCH)
                           then Some (ms1, fail_with p2 HTTP_HTTP_VERSION_NOT_SUPPORTED)
                           else Some (ms1, p2\<lparr>pmethod := k, position := POS_HEADERS\<rparr>, PARSE_OK))))"

definition fmt_simple :: string where
  "fmt_simple = ''%s'' @ [TAB] @ ''%S%w%c''"

definition fmt_request :: string where
  "fmt_request = ''%s'' @ [TAB] @ ''%S'' @ [TAB] @ ''%ihttp%w/%w%L%c''"

definition parser_parse_requestline ::
    "net_env \<Rightarrow> alloc_script \<Rightarrow> http_parser \<Rightarrow> (alloc_script \<times> http_parser \<times> parse_status) option" where
  "parser_parse_requestline net ms p =
     (case skip_blank_lines (scan_of p) of
        (status, s0) \<Rightarrow>
          let p0 = set_scan p s0 in
          if status \<noteq> PARSE_OK then Some (ms, p0, status)
          else
            (case vfmatch net s0 fmt_simple of
               None \<Rightarrow> None
             | Some (st1, outs1, s1) \<Rightarrow>
                 if st1 = PARSE_OK then
                   simple_get net ms (set_scan p0 s1) (mp_text (smsg s1) (mem_out outs1 0))
                     (mp_text (smsg s1) (mem_out outs1 1))
                 else
                   (case vfmatch net s1 fmt_request of
                      None \<Rightarrow> None
                    | Some (st2, outs2, s2) \<Rightarrow>
                        if st2 \<noteq> PARSE_OK then Some (ms, set_scan p0 s2, st2)
                        else
                          full_request net ms (set_scan p0 s2) (mp_text (smsg s2) (mem_out outs2 0))
                            (mp_text (smsg s2) (mem_out outs2 1)) (mp_text (smsg s2) (mem_out outs2 2)))))"

section \<open>Response line\<close>

text \<open>\<open>sscanf\<close> with the format \<open>%d . %d %d\<close>: how many numbers were stored, and the three numbers.\<close>

definition sscanf_status :: "string \<Rightarrow> int \<Rightarrow> int \<Rightarrow> int \<Rightarrow> int \<times> int \<times> int \<times> int" where
  "sscanf_status t major minor code =
     (case sscanf_version t major minor of
        (n, a, b, r) \<Rightarrow>
          if n < 2 then (n, a, b, code)
          else (case scan_int r of None \<Rightarrow> (2, a, b, code) | Some (c, r2) \<Rightarrow> (3, a, b, c)))"

text \<open>Go to the start of the next number and skip it; the argument is the memory from \<open>p\<close> on.\<close>

definition skip_number :: "string \<Rightarrow> string option" where
  "skip_number t =
     (case dropWhile isdigit (dropWhile (\<lambda>c. \<not> isdigit c) t) of [] \<Rightarrow> None | u \<Rightarrow> Some u)"

definition skip_numbers3 :: "string \<Rightarrow> string option" where
  "skip_numbers3 t =
     (case skip_number t of
        None \<Rightarrow> None
      | Some t1 \<Rightarrow> (case skip_number t1 of None \<Rightarrow> None | Some t2 \<Rightarrow> skip_number t2))"

abbreviation is_blank :: "char \<Rightarrow> bool" where
  "is_blank c \<equiv> c = CHR '' '' \<or> c = TAB"

definition store_status_msg ::
    "alloc_script \<Rightarrow> http_parser \<Rightarrow> memptr \<Rightarrow> (alloc_script \<times> http_parser \<times> parse_status) option" where
  "store_status_msg ms p line =
     (let mem = drop (mp_buf line) (block (msg p)) in
      case skip_numbers3 mem of
        None \<Rightarrow> None
      | Some t \<Rightarrow>
          if \<not> is_blank (hd t) then Some (ms, p, PARSE_FAILURE)
          else
            (case dropWhile is_blank t of
               [] \<Rightarrow> None
             | u \<Rightarrow>
                 let n = sz_sub (mp_length line) (length mem - length u) in
                 (case membuffer_assign ms (status_msg p) (Some u) n of
                    None \<Rightarrow> None
                  | Some (ms1, m1, rc) \<Rightarrow>
                      let p1 = p\<lparr>status_msg := m1\<rparr> in
                      if rc \<noteq> 0 then Some (ms1, fail_with p1 HTTP_INTERNAL_SERVER_ERROR)
                      else Some (ms1, p1\<lparr>position := POS_HEADERS\<rparr>, PARSE_OK))))"

definition fmt_response :: string where
  "fmt_response = ''%ihttp%w/%w%L%c''"

definition parser_parse_responseline ::
    "net_env \<Rightarrow> alloc_script \<Rightarrow> http_parser \<Rightarrow> (alloc_script \<times> http_parser \<times> parse_status) option" where
  "parser_parse_responseline net ms p =
     (case skip_blank_lines (scan_of p) of
        (status, s0) \<Rightarrow>
          let p0 = set_scan p s0 in
          if status \<noteq> PARSE_OK then Some (ms, p0, status)
          else
            (case vfmatch net s0 fmt_response of
               None \<Rightarrow> None
             | Some (st, outs, s1) \<Rightarrow>
                 let p1 = set_scan p0 s1; line = mem_out outs 0 in
                 if st \<noteq> PARSE_OK then Some (ms, p1, st)
                 else
                   (case sscanf_status (c_str (mp_text (smsg s1) line)) (major_version p1) (minor_version p1)
                           (status_code p1) of
                      (num_scanned, major, minor, code) \<Rightarrow>
                        let p2 = p1\<lparr>major_version := major, minor_version := minor, status_code := code\<rparr> in
                        if num_scanned \<noteq> 3 \<or> major < 0 \<or> minor < 0 \<or> code < 0 then Some (ms, p2, PARSE_FAILURE)
                        else store_status_msg ms p2 line)))"

section \<open>Header lines\<close>

text \<open>
  A new header: one \<open>malloc\<close> for the header, the two buffers, one \<open>malloc\<close> for the
  list node. An empty value is stored as one NUL byte. The flag tells whether there was memory for all.
\<close>

definition new_header ::
    "alloc_script \<Rightarrow> http_parser \<Rightarrow> memptr \<Rightarrow> memptr \<Rightarrow> int \<Rightarrow> (alloc_script \<times> http_parser \<times> bool) option" where
  "new_header ms p token v header_id =
     (case next_alloc ms of
        (None, ms1) \<Rightarrow> Some (ms1, p, False)
      | (Some g, ms1) \<Rightarrow>
          let (vbuf, vlen) = (if mp_length v = 0 then ([NUL], 1) else (drop (mp_buf v) (block (msg p)), mp_length v)) in
          (case membuffer_assign ms1 empty_membuffer (Some (drop (mp_buf token) (block (msg p)))) (mp_length token) of
             None \<Rightarrow> None
           | Some (ms2, nb, rc1) \<Rightarrow>
               if rc1 \<noteq> 0 then Some (ms2, p, False)
               else
                 (case membuffer_assign ms2 empty_membuffer (Some vbuf) vlen of
                    None \<Rightarrow> None
                  | Some (ms3, vb, rc2) \<Rightarrow>
                      if rc2 \<noteq> 0 then Some (ms3, p, False)
                      else
                        (case next_alloc ms3 of
                           (None, ms4) \<Rightarrow> Some (ms4, p, False)
                         | (Some g2, ms4) \<Rightarrow>
                             Some (ms4, p\<lparr>headers := headers p @
                                     [\<lparr>name_buf = nb, name_id = header_id, hvalue = vb\<rparr>]\<rparr>, True)))))"

text \<open>A header seen before: both parts are appended, the result is looked at afterwards.\<close>

definition extend_header ::
    "alloc_script \<Rightarrow> http_parser \<Rightarrow> nat \<Rightarrow> memptr \<Rightarrow> (alloc_script \<times> http_parser \<times> bool) option" where
  "extend_header ms p i v =
     (case membuffer_append_str ms (hvalue (headers p ! i)) '', '' of
        None \<Rightarrow> None
      | Some (ms1, m1, ret) \<Rightarrow>
          (case membuffer_append ms1 m1 (Some (drop (mp_buf v) (block (msg p)))) (mp_length v) of
             None \<Rightarrow> None
           | Some (ms2, m2, ret2) \<Rightarrow>
               Some (ms2, p\<lparr>headers := (headers p)[i := (headers p ! i)\<lparr>hvalue := m2\<rparr>]\<rparr>,
                     \<not> (ret = UPNP_E_OUTOF_MEMORY \<or> ret2 = UPNP_E_OUTOF_MEMORY))))"

definition store_header ::
    "alloc_script \<Rightarrow> http_parser \<Rightarrow> memptr \<Rightarrow> memptr \<Rightarrow> (alloc_script \<times> http_parser \<times> bool) option" where
  "store_header ms p token v =
     (let nm = mp_text (contents (msg p)) token in
      case map_str_to_int nm (length nm) Http_Header_Names NUM_HTTP_HEADER_NAMES 0 of
        None \<Rightarrow> None
      | Some index \<Rightarrow>
          let header_id = (if index \<noteq> -1 then id (Http_Header_Names ! nat index) else HDR_UNKNOWN);
              p1 = (if index \<noteq> -1 \<and> header_id = HDR_SOAPACTION then p\<lparr>pmethod := SOAPMETHOD_POST\<rparr> else p);
              orig = (if index \<noteq> -1 then httpmsg_find_hdr p1 header_id else httpmsg_find_hdr_str p1 (c_str nm))
          in (case orig of
                None \<Rightarrow> new_header ms p1 token v header_id
              | Some i \<Rightarrow> if 0 < mp_length v then extend_header ms p1 i v else Some (ms, p1, True)))"

definition fmt_header :: string where
  "fmt_header = '' : %R%c''"

text \<open>One round of the header loop: a status to return, or \<open>None\<close> to go on.\<close>

definition header_step ::
    "net_env \<Rightarrow> alloc_script \<Rightarrow> http_parser \<Rightarrow> (alloc_script \<times> http_parser \<times> parse_status option) option" where
  "header_step net ms p =
     (case scanner_get_token (scan_of p) of
        Inl status \<Rightarrow> Some (ms, p, Some status)
      | Inr (token, tok_type, s1) \<Rightarrow>
          if tok_type = TT_CRLF then
            (let p1 = set_scan p s1 in
             if is_request p1 \<and> pmethod p1 = HTTPMETHOD_POST
             then Some (ms, p1\<lparr>position := POS_COMPLETE\<rparr>, Some PARSE_SUCCESS)
             else Some (ms, p1\<lparr>position := POS_ENTITY\<rparr>, Some PARSE_OK))
          else if tok_type = TT_IDENTIFIER then
            (case vfmatch net s1 fmt_header of
               None \<Rightarrow> None
             | Some (st, outs, s2) \<Rightarrow>
                 if st \<noteq> PARSE_OK then Some (ms, p, Some st)
                 else
                   (case store_header ms (set_scan p s2) token (mem_out outs 0) of
                      None \<Rightarrow> None
                    | Some (ms1, p1, ok) \<Rightarrow>
                        if ok then Some (ms1, p1, None)
                        else Some (ms1, p1\<lparr>http_error_code := HTTP_INTERNAL_SERVER_ERROR\<rparr>, Some PARSE_FAILURE)))
          else Some (ms, set_scan p s1, Some PARSE_FAILURE))"

lemma vfmatch_forward:
  assumes "stream_format fmt" and "vfmatch net s fmt = Some (st, outs, s')"
  shows "smsg s' = smsg s" and "cursor s \<le> cursor s'"
    and "cursor s \<le> length (smsg s) \<Longrightarrow> cursor s' \<le> length (smsg s)"
proof -
  obtain s1 where s1: "vfmatch_loop net fmt PARSE_OK True s [] = Some (st, outs, s1)"
    "s' = (if st \<noteq> PARSE_OK then s1\<lparr>cursor := cursor s\<rparr> else s1)"
    using assms(2) by (auto simp: vfmatch_def split: option.splits)
  note f = vfmatch_loop_final [OF assms(1) s1(1), of "[]"]
  show "smsg s' = smsg s" and "cursor s \<le> cursor s'"
    and "cursor s \<le> length (smsg s) \<Longrightarrow> cursor s' \<le> length (smsg s)"
    using f s1(2) by (auto simp: good_step_def)
qed

lemma fmt_header_stream [simp]: "stream_format fmt_header"
  by (simp add: fmt_header_def)

text \<open>Storing a header changes the headers and the method only.\<close>

lemma store_header_frame:
  assumes "store_header ms p token v = Some (ms1, p1, ok)"
  shows "msg p1 = msg p" and "pcursor p1 = pcursor p" and "pentire p1 = pentire p"
  using assms
  by (auto simp: store_header_def new_header_def extend_header_def Let_def split: option.splits prod.splits if_splits)

lemma header_step_progress:
  assumes "header_step net ms p = Some (ms1, p1, None)"
  shows "msg p1 = msg p" and "pcursor p < pcursor p1" and "pcursor p1 \<le> length (contents (msg p))"
proof -
  obtain token s1 outs s2 where t: "scanner_get_token (scan_of p) = Inr (token, TT_IDENTIFIER, s1)"
    and v: "vfmatch net s1 fmt_header = Some (PARSE_OK, outs, s2)"
    and h: "store_header ms (set_scan p s2) token (mem_out outs 0) = Some (ms1, p1, True)"
    using assms by (auto simp: header_step_def Let_def split: sum.splits prod.splits option.splits if_splits)
  note st = token_step(1-4) [OF t]
  note fw = vfmatch_forward [OF fmt_header_stream v]
  note fr = store_header_frame [OF h]
  show "msg p1 = msg p"
    using fr(1) by simp
  show "pcursor p < pcursor p1"
    using fr(2) fw(2) st(3) by (simp add: scan_of_def)
  show "pcursor p1 \<le> length (contents (msg p))"
    using fr(2) fw(3) st(1,4) by (simp add: scan_of_def)
qed

lemma header_step_less:
  "header_step net ms p = Some (ms1, p1, None) \<Longrightarrow>
     length (contents (msg p1)) - pcursor p1 < length (contents (msg p)) - pcursor p"
  using header_step_progress [of net ms p ms1 p1] by simp

function parser_parse_headers ::
    "net_env \<Rightarrow> alloc_script \<Rightarrow> http_parser \<Rightarrow> (alloc_script \<times> http_parser \<times> parse_status) option" where
  "parser_parse_headers net ms p =
     (case header_step net ms p of
        None \<Rightarrow> None
      | Some (ms1, p1, Some status) \<Rightarrow> Some (ms1, p1, status)
      | Some (ms1, p1, None) \<Rightarrow> parser_parse_headers net ms1 p1)"
  by pat_completeness auto
termination
  by (relation "measure (\<lambda>(net, ms, p). length (contents (msg p)) - pcursor p)")
     (auto dest: header_step_less)

declare parser_parse_headers.simps [simp del]

section \<open>Entities\<close>

definition parser_parse_entity_using_clen :: "http_parser \<Rightarrow> (http_parser \<times> parse_status) option" where
  "parser_parse_entity_using_clen p =
     (let len = sz_add (sz_sub (mlength (msg p)) (entity_start_position p)) (amount_discarded p);
          p1 = p\<lparr>entity_length := len\<rparr>
      in if len < content_length p then Some (p1, PARSE_INCOMPLETE)
         else
           (case (if content_length p < len
                  then blk_write (sz_sub (sz_add (entity_start_position p) (content_length p)) (amount_discarded p))
                         [NUL] (buf (msg p))
                  else Some (buf (msg p))) of
              None \<Rightarrow> None
            | Some b \<Rightarrow>
                Some (p1\<lparr>msg := (msg p)\<lparr>buf := b\<rparr>, entity_length := content_length p,
                         entity_buf := Some (entity_start_position p), position := POS_COMPLETE\<rparr>,
                      PARSE_SUCCESS)))"

text \<open>Remove the bytes from \<open>save_pos\<close> to the cursor and put the cursor back there.\<close>

definition cut_back ::
    "alloc_script \<Rightarrow> http_parser \<Rightarrow> nat \<Rightarrow> (alloc_script \<times> http_parser) option" where
  "cut_back ms p save_pos =
     (case membuffer_delete ms (msg p) save_pos (sz_sub (pcursor p) save_pos) of
        None \<Rightarrow> None
      | Some (ms1, m1) \<Rightarrow> Some (ms1, p\<lparr>msg := m1, pcursor := save_pos\<rparr>))"

definition parser_parse_chunky_body ::
    "net_env \<Rightarrow> alloc_script \<Rightarrow> http_parser \<Rightarrow> (alloc_script \<times> http_parser \<times> parse_status) option" where
  "parser_parse_chunky_body net ms p =
     (if chunk_size p \<le> sz_sub (mlength (msg p)) (pcursor p) then
        (let save_pos = sz_add (pcursor p) (chunk_size p); p1 = p\<lparr>pcursor := save_pos\<rparr> in
         case vfmatch net (scan_of p1) ''%c'' of
           None \<Rightarrow> None
         | Some (status, outs, s1) \<Rightarrow>
             if status \<noteq> PARSE_OK
             then Some (ms, p1\<lparr>pcursor := sz_sub (cursor s1) (chunk_size p)\<rparr>, status)
             else
               (case cut_back ms (set_scan p1 s1) save_pos of
                  None \<Rightarrow> None
                | Some (ms1, p2) \<Rightarrow>
                    Some (ms1, p2\<lparr>entity_length := sz_add (entity_length p2) (chunk_size p2),
                                  ent_position := ENTREAD_USING_CHUNKED\<rparr>, PARSE_CONTINUE_1)))
      else Some (ms, p, PARSE_INCOMPLETE))"

definition parser_parse_chunky_headers ::
    "net_env \<Rightarrow> alloc_script \<Rightarrow> http_parser \<Rightarrow> (alloc_script \<times> http_parser \<times> parse_status) option" where
  "parser_parse_chunky_headers net ms p =
     (let save_pos = pcursor p in
      case parser_parse_headers net ms p of
        None \<Rightarrow> None
      | Some (ms1, p1, status) \<Rightarrow>
          if status = PARSE_OK then
            (case cut_back ms1 (p1\<lparr>position := POS_COMPLETE\<rparr>) save_pos of
               None \<Rightarrow> None
             | Some (ms2, p2) \<Rightarrow> Some (ms2, p2\<lparr>entity_buf := Some (entity_start_position p2)\<rparr>, PARSE_SUCCESS))
          else Some (ms1, p1, status))"

text \<open>
  The directive \<open>%x\<close> stores an \<open>int\<close> through the address of the \<open>size_t\<close>
  \<open>chunk_size\<close>: on a little endian machine with a 64 bit \<open>size_t\<close> the lower half is replaced.
\<close>

definition store_low_int :: "nat \<Rightarrow> match_out \<Rightarrow> nat" where
  "store_low_int old out =
     (case out of OInt (Some v) \<Rightarrow> (old div 2 ^ 32) * 2 ^ 32 + nat (v mod 2 ^ 32) | _ \<Rightarrow> old)"

definition fmt_chunk :: string where
  "fmt_chunk = ''%x%L%c''"

definition parser_parse_chunky_entity ::
    "net_env \<Rightarrow> alloc_script \<Rightarrow> http_parser \<Rightarrow> (alloc_script \<times> http_parser \<times> parse_status) option" where
  "parser_parse_chunky_entity net ms p =
     (let save_pos = pcursor p in
      case vfmatch net (scan_of p) fmt_chunk of
        None \<Rightarrow> None
      | Some (status, outs, s1) \<Rightarrow>
          let p1 = p\<lparr>chunk_size := store_low_int (chunk_size p) (outs ! 0)\<rparr> in
          if status \<noteq> PARSE_OK then Some (ms, p1\<lparr>pcursor := save_pos\<rparr>, status)
          else
            (case cut_back ms (set_scan p1 s1) save_pos of
               None \<Rightarrow> None
             | Some (ms1, p2) \<Rightarrow>
                 if chunk_size p2 = 0 then
                   Some (ms1, p2\<lparr>entity_length := sz_add (sz_sub (pcursor p2) (entity_start_position p2))
                                                    (amount_discarded p2),
                                 ent_position := ENTREAD_CHUNKY_HEADERS\<rparr>, PARSE_CONTINUE_1)
                 else Some (ms1, p2\<lparr>ent_position := ENTREAD_CHUNKY_BODY\<rparr>, PARSE_CONTINUE_1)))"

definition parser_parse_entity_until_close :: "http_parser \<Rightarrow> http_parser \<times> parse_status" where
  "parser_parse_entity_until_close p =
     (let c = mlength (msg p) in
      (p\<lparr>entity_length := sz_add (sz_sub c (entity_start_position p)) (amount_discarded p),
         entity_buf := Some (entity_start_position p), pcursor := c\<rparr>, PARSE_INCOMPLETE_ENTITY))"

definition no_body_request :: "int \<Rightarrow> bool" where
  "no_body_request m \<longleftrightarrow>
     m \<in> {HTTPMETHOD_HEAD, HTTPMETHOD_GET, HTTPMETHOD_SUBSCRIBE, HTTPMETHOD_UNSUBSCRIBE, HTTPMETHOD_MSEARCH}"

definition no_body_response :: "int \<Rightarrow> int \<Rightarrow> bool" where
  "no_body_response code req \<longleftrightarrow>
     code = 204 \<or> code = 304 \<or> (100 \<le> code \<and> code \<le> 199) \<or>
     req \<in> {HTTPMETHOD_HEAD, HTTPMETHOD_MSEARCH, HTTPMETHOD_SUBSCRIBE, HTTPMETHOD_UNSUBSCRIBE, HTTPMETHOD_NOTIFY}"

text \<open>The search for \<open>chunked\<close> changes the header value to lower case.\<close>

definition lower_header :: "http_parser \<Rightarrow> nat \<Rightarrow> string \<Rightarrow> http_parser" where
  "lower_header p i v =
     (let h = headers p ! i; m = hvalue h in
      p\<lparr>headers := (headers p)[i := h\<lparr>hvalue := m\<lparr>buf := Some (v @ drop (length v) (block m))\<rparr>\<rparr>]\<rparr>)"

definition use_length :: "http_parser \<Rightarrow> http_parser \<times> parse_status" where
  "use_length p =
     (case httpmsg_find_hdr p HDR_CONTENT_LENGTH of
        Some i \<Rightarrow>
          (p\<lparr>content_length := nat (raw_to_int (contents (hvalue (headers p ! i))) 10 mod 2 ^ 32),
             ent_position := ENTREAD_USING_CLEN\<rparr>, PARSE_CONTINUE_1)
      | None \<Rightarrow>
          if is_request p then
            fail_with (if pmethod p = HTTPMETHOD_NOTIFY then p\<lparr>valid_ssdp_notify_hack := True\<rparr> else p)
              HTTP_LENGTH_REQUIRED
          else (p\<lparr>ent_position := ENTREAD_UNTIL_CLOSE\<rparr>, PARSE_CONTINUE_1))"

definition parser_get_entity_read_method :: "http_parser \<Rightarrow> http_parser \<times> parse_status" where
  "parser_get_entity_read_method p =
     (let p1 = p\<lparr>entity_buf := Some (pcursor p), entity_length := 0, entity_start_position := pcursor p\<rparr> in
      if (if is_request p then no_body_request (pmethod p) else no_body_response (status_code p) (request_method p))
      then (p1\<lparr>position := POS_COMPLETE\<rparr>, PARSE_SUCCESS)
      else
        (case httpmsg_find_hdr p1 HDR_TRANSFER_ENCODING of
           None \<Rightarrow> use_length p1
         | Some i \<Rightarrow>
             (case raw_find_str (contents (hvalue (headers p1 ! i))) ''chunked'' of
                (v, k) \<Rightarrow>
                  let p2 = lower_header p1 i v in
                  if 0 \<le> k then (p2\<lparr>ent_position := ENTREAD_USING_CHUNKED\<rparr>, PARSE_CONTINUE_1)
                  else use_length p2)))"

section \<open>The parser\<close>

definition entity_step ::
    "net_env \<Rightarrow> alloc_script \<Rightarrow> http_parser \<Rightarrow> (alloc_script \<times> http_parser \<times> parse_status) option" where
  "entity_step net ms p =
     (case ent_position p of
        ENTREAD_USING_CLEN \<Rightarrow> map_option (\<lambda>r. (ms, r)) (parser_parse_entity_using_clen p)
      | ENTREAD_USING_CHUNKED \<Rightarrow> parser_parse_chunky_entity net ms p
      | ENTREAD_CHUNKY_BODY \<Rightarrow> parser_parse_chunky_body net ms p
      | ENTREAD_CHUNKY_HEADERS \<Rightarrow> parser_parse_chunky_headers net ms p
      | ENTREAD_UNTIL_CLOSE \<Rightarrow> Some (ms, parser_parse_entity_until_close p)
      | ENTREAD_DETERMINE_READ_METHOD \<Rightarrow> Some (ms, parser_get_entity_read_method p))"

partial_function (option) parser_parse_entity ::
    "net_env \<Rightarrow> alloc_script \<Rightarrow> http_parser \<Rightarrow> (alloc_script \<times> http_parser \<times> parse_status) option" where
  "parser_parse_entity net ms p =
     (case entity_step net ms p of
        None \<Rightarrow> None
      | Some (ms1, p1, status) \<Rightarrow>
          if status = PARSE_CONTINUE_1 then parser_parse_entity net ms1 p1 else Some (ms1, p1, status))"

text \<open>In the last position the assertion of the source is taken as compiled out.\<close>

definition parse_step ::
    "net_env \<Rightarrow> alloc_script \<Rightarrow> http_parser \<Rightarrow> (alloc_script \<times> http_parser \<times> parse_status) option" where
  "parse_step net ms p =
     (case position p of
        POS_ENTITY \<Rightarrow> parser_parse_entity net ms p
      | POS_HEADERS \<Rightarrow> parser_parse_headers net ms p
      | POS_REQUEST_LINE \<Rightarrow> parser_parse_requestline net ms p
      | POS_RESPONSE_LINE \<Rightarrow> parser_parse_responseline net ms p
      | POS_COMPLETE \<Rightarrow> Some (ms, p, PARSE_FAILURE))"

partial_function (option) parser_parse ::
    "net_env \<Rightarrow> alloc_script \<Rightarrow> http_parser \<Rightarrow> (alloc_script \<times> http_parser \<times> parse_status) option" where
  "parser_parse net ms p =
     (case parse_step net ms p of
        None \<Rightarrow> None
      | Some (ms1, p1, status) \<Rightarrow>
          if status = PARSE_OK then parser_parse net ms1 p1 else Some (ms1, p1, status))"

definition parser_append ::
    "net_env \<Rightarrow> alloc_script \<Rightarrow> http_parser \<Rightarrow> string \<Rightarrow> nat \<Rightarrow>
     (alloc_script \<times> http_parser \<times> parse_status) option" where
  "parser_append net ms p data buf_length =
     (case membuffer_append ms (msg p) (Some data) buf_length of
        None \<Rightarrow> None
      | Some (ms1, m1, ret_code) \<Rightarrow>
          let p1 = p\<lparr>msg := m1\<rparr> in
          if ret_code \<noteq> 0 then Some (ms1, fail_with p1 HTTP_INTERNAL_SERVER_ERROR)
          else parser_parse net ms1 p1)"

end
