(* ===== verification/HttpHeaders.thy ===== *)
theory HttpHeaders
  imports HttpParser
begin

text \<open>
  Header lines arrive in pieces. The lemmas show that one round of the header loop gives
  the same headers, statuses and cursors when more of the message is there, so that the loop
  can stop at \<open>PARSE_INCOMPLETE\<close> and go on later. The names are found in the sorted table.
\<close>

section \<open>Storing a header from a longer message\<close>

lemma blk_read_prefix:
  assumes "n \<le> length xs" and "take n xs = take n ys" and "n \<le> length ys"
  shows "blk_read 0 n (Some xs) = blk_read 0 n (Some ys)"
  using assms by (simp add: blk_read_def)

lemma assign_prefix:
  assumes "n \<le> length xs" and "take n xs = take n ys" and "n \<le> length ys"
  shows "membuffer_assign ms m (Some xs) n = membuffer_assign ms m (Some ys) n"
  unfolding membuffer_assign_def option.case blk_read_prefix [OF assms] ..

lemma append_prefix:
  assumes "n \<le> length xs" and "take n xs = take n ys" and "n \<le> length ys"
  shows "membuffer_append ms m (Some xs) n = membuffer_append ms m (Some ys) n"
  unfolding membuffer_append_def membuffer_insert_def blk_read_prefix [OF assms] by simp

definition mp_inside :: "http_parser \<Rightarrow> memptr \<Rightarrow> bool" where
  "mp_inside p v \<longleftrightarrow> mp_buf v + mp_length v \<le> length (contents (msg p))"

lemma take_drop_contents:
  assumes "i + n \<le> length (contents m)"
  shows "n \<le> length (drop i (block m))" and "take n (drop i (block m)) = take n (drop i (contents m))"
  using assms by (auto simp: contents_block take_drop min_def split: if_splits)

lemma extends_source:
  assumes "contents m' = contents m @ rest" and "i + n \<le> length (contents m)"
  shows "n \<le> length (drop i (block m))" "take n (drop i (block m)) = take n (drop i (block m'))"
    "n \<le> length (drop i (block m'))"
  using take_drop_contents [OF assms(2)] take_drop_contents [of i n m'] assms by simp_all

lemma new_header_extends:
  assumes "contents m' = contents (msg p) @ rest" and "mp_inside p token" and "mp_inside p v"
  shows "new_header ms (p\<lparr>msg := m'\<rparr>) token v k =
    map_option (\<lambda>(ms1, p1, ok). (ms1, p1\<lparr>msg := m'\<rparr>, ok)) (new_header ms p token v k)"
proof -
  note src = extends_source [OF assms(1)]
  have a: "membuffer_assign ms1 m (Some (drop (mp_buf u) (block m'))) (mp_length u) =
     membuffer_assign ms1 m (Some (drop (mp_buf u) (block (msg p)))) (mp_length u)" if "mp_inside p u" for u ms1 m
    using that src [of "mp_buf u" "mp_length u"] by (intro assign_prefix) (simp_all add: mp_inside_def)
  show ?thesis
    using a [OF assms(2)] a [OF assms(3)]
    by (auto simp: new_header_def Let_def split: option.splits prod.splits)
qed

lemma extend_header_extends:
  assumes "contents m' = contents (msg p) @ rest" and "mp_inside p v"
  shows "extend_header ms (p\<lparr>msg := m'\<rparr>) i v =
    map_option (\<lambda>(ms1, p1, ok). (ms1, p1\<lparr>msg := m'\<rparr>, ok)) (extend_header ms p i v)"
proof -
  note src = extends_source [OF assms(1)]
  have a: "membuffer_append ms1 m (Some (drop (mp_buf v) (block m'))) (mp_length v) =
     membuffer_append ms1 m (Some (drop (mp_buf v) (block (msg p)))) (mp_length v)" for ms1 m
    using assms(2) src [of "mp_buf v" "mp_length v"] by (intro append_prefix) (simp_all add: mp_inside_def)
  show ?thesis
    using a by (auto simp: extend_header_def split: option.splits prod.splits)
qed

lemma find_hdr_msg [simp]:
  "httpmsg_find_hdr (p\<lparr>msg := m\<rparr>) k = httpmsg_find_hdr p k"
  "httpmsg_find_hdr_str (p\<lparr>msg := m\<rparr>) nm = httpmsg_find_hdr_str p nm"
  "httpmsg_find_hdr (p\<lparr>pmethod := a\<rparr>) k = httpmsg_find_hdr p k"
  "httpmsg_find_hdr_str (p\<lparr>pmethod := a\<rparr>) nm = httpmsg_find_hdr_str p nm"
  by (simp_all add: httpmsg_find_hdr_def httpmsg_find_hdr_str_def)

lemma mp_text_append: "mp_buf v + mp_length v \<le> length xs \<Longrightarrow> mp_text (xs @ rest) v = mp_text xs v"
  by (simp add: mp_text_def)

lemma store_header_extends:
  assumes "contents m' = contents (msg p) @ rest" and "mp_inside p token" and "mp_inside p v"
  shows "store_header ms (p\<lparr>msg := m'\<rparr>) token v =
    map_option (\<lambda>(ms1, p1, ok). (ms1, p1\<lparr>msg := m'\<rparr>, ok)) (store_header ms p token v)"
proof -
  have nm: "mp_text (contents m') token = mp_text (contents (msg p)) token"
    using assms(1,2) by (simp add: mp_text_append mp_inside_def)
  have up: "p\<lparr>msg := m', pmethod := a\<rparr> = (p\<lparr>pmethod := a\<rparr>)\<lparr>msg := m'\<rparr>" for a
    by simp
  have ext: "contents m' = contents (msg (p\<lparr>pmethod := a\<rparr>)) @ rest" "mp_inside (p\<lparr>pmethod := a\<rparr>) token"
    "mp_inside (p\<lparr>pmethod := a\<rparr>) v" for a
    using assms by (simp_all add: mp_inside_def)
  show ?thesis
    unfolding store_header_def
    using nm new_header_extends [OF assms] new_header_extends [OF ext] extend_header_extends [OF assms(1,3)]
      extend_header_extends [OF ext(1,3)]
    by (simp add: Let_def up del: http_message.update_convs split: option.split)
qed


section \<open>One round of the loop\<close>

lemma trim_right_le: "trim_right t i n \<le> n"
  by (induction n) (auto simp: Let_def)

lemma raw_value_inside:
  assumes "match_raw_value s = (st, v, s')" and "cursor s \<le> length (smsg s)"
  shows "mp_buf v + mp_length v \<le> length (smsg s)"
proof -
  obtain n where n: "match_raw_value_loop (cursor s) s None 0 = (st, n, s')"
    and v: "mp_buf v = cursor s" "mp_length v \<le> n"
    using assms(1) trim_right_le by (fastforce simp: match_raw_value_def split: prod.splits if_splits)
  show ?thesis
    using match_raw_value_loop_extend [OF n, of "[]"] assms(2) v by simp
qed

text \<open>The value of a header line lies inside the message.\<close>

lemma fmt_header_value:
  assumes "vfmatch net s fmt_header = Some (PARSE_OK, outs, s')" and "cursor s \<le> length (smsg s)"
  shows "mp_buf (mem_out outs 0) + mp_length (mem_out outs 0) \<le> length (smsg s)"
proof -
  obtain s1 s2 s3 s4 v where r: "plain_char CHR '' '' True s = (PARSE_OK, s1)"
    "plain_char CHR '':'' True s1 = (PARSE_OK, s2)"
    "plain_char CHR '' '' True s2 = (PARSE_OK, s3)" "match_raw_value s3 = (PARSE_OK, v, s4)"
    "outs = [OMem (Some v)]"
    using assms(1) by (auto simp: vfmatch_def fmt_header_def directive_def split: option.splits prod.splits if_splits)
  have "smsg s3 = smsg s \<and> cursor s3 \<le> length (smsg s)"
    using r(1-3) [THEN plain_char_good(1)] assms(2) by (auto simp: good_step_def)
  then show ?thesis
    using raw_value_inside [OF r(4)] r(5) by (simp add: mem_out_def)
qed


lemma vfmatch_grow:
  assumes "stream_format fmt" and "vfmatch net s fmt = Some (st, outs, s')"
    and "\<not> entire_msg_loaded s" and "cursor s \<le> length (smsg s)" and "st \<noteq> PARSE_INCOMPLETE"
  shows "vfmatch net (grow rest s) fmt = Some (st, outs, grow rest s')"
proof -
  obtain s1 where s1: "vfmatch_loop net fmt PARSE_OK True s [] = Some (st, outs, s1)"
    "s' = (if st \<noteq> PARSE_OK then s1\<lparr>cursor := cursor s\<rparr> else s1)"
    using assms(2) by (auto simp: vfmatch_def split: option.splits)
  then show ?thesis
    using vfmatch_loop_final [OF assms(1) s1(1), of rest] assms(3-5) by (simp add: vfmatch_def)
qed

lemma scan_of_grow: "contents m' = contents (msg p) @ rest \<Longrightarrow> scan_of (p\<lparr>msg := m'\<rparr>) = grow rest (scan_of p)"
  by (simp add: scan_of_def grow_def)

lemma set_scan_msg: "p\<lparr>msg := m, pcursor := c\<rparr> = p\<lparr>pcursor := c, msg := m\<rparr>"
  by (cases p) (simp add: http_message.defs http_parser.defs)

lemma header_step_extends:
  assumes "contents m' = contents (msg p) @ rest" and "\<not> pentire p" and "pcursor p \<le> length (contents (msg p))"
    and "header_step net ms p = Some (ms1, p1, r)" and "r \<noteq> Some PARSE_INCOMPLETE"
  shows "header_step net ms (p\<lparr>msg := m'\<rparr>) = Some (ms1, p1\<lparr>msg := m'\<rparr>, r)"
proof (cases "scanner_get_token (scan_of p)")
  case (Inl e)
  then have "e \<noteq> PARSE_INCOMPLETE"
    using assms(4,5) by (auto simp: header_step_def)
  then have "scanner_get_token (scan_of (p\<lparr>msg := m'\<rparr>)) = Inl e"
    using token_error_extend [OF Inl] assms(2) unfolding scan_of_grow [OF assms(1)] by (simp add: scan_of_def)
  then show ?thesis
    using Inl assms(4) by (auto simp: header_step_def)
next
  case (Inr q)
  then obtain token ty s1 where t: "scanner_get_token (scan_of p) = Inr (token, ty, s1)"
    by (cases q) auto
  note st = token_step [OF t]
  have s1: "smsg s1 = contents (msg p)" "\<not> entire_msg_loaded s1" "cursor s1 \<le> length (smsg s1)"
    using st(1,2,4) assms(2) by (simp_all add: scan_of_def)
  have t': "scanner_get_token (scan_of (p\<lparr>msg := m'\<rparr>)) = Inr (token, ty, grow rest s1)"
    using st(9) [of rest] assms(2) unfolding scan_of_grow [OF assms(1)] by (simp add: scan_of_def)
  have tok: "mp_inside p token"
    using st(3,4,6,7) by (simp add: mp_inside_def scan_of_def)
  show ?thesis
  proof (cases "ty = TT_IDENTIFIER")
    case False
    then show ?thesis
      using assms(4) t t' by (auto simp: header_step_def Let_def split: if_splits)
  next
    case True
    obtain st outs s2 where v: "vfmatch net s1 fmt_header = Some (st, outs, s2)"
      using assms(4) t True by (auto simp: header_step_def split: option.splits)
    have ni: "st \<noteq> PARSE_INCOMPLETE"
      using assms(4,5) t True v by (auto simp: header_step_def)
    note v' = vfmatch_grow [OF fmt_header_stream v s1(2,3) ni, of rest]
    have h': "store_header ms (set_scan (p\<lparr>msg := m'\<rparr>) (grow rest s2)) token (mem_out outs 0) =
        map_option (\<lambda>(ms1, p1, ok). (ms1, p1\<lparr>msg := m'\<rparr>, ok))
          (store_header ms (set_scan p s2) token (mem_out outs 0))" if "st = PARSE_OK"
      using store_header_extends [of m' "set_scan p s2" rest token "mem_out outs 0" ms] assms(1) tok
        fmt_header_value [of net s1 outs s2] v that s1 by (simp add: mp_inside_def set_scan_msg)
    show ?thesis
      using assms(4) t t' True v v' h'
      by (auto simp: header_step_def split: option.splits if_splits)
  qed
qed

lemma header_step_incomplete:
  "header_step net ms p = Some (ms1, p1, Some PARSE_INCOMPLETE) \<Longrightarrow> ms1 = ms \<and> p1 = p"
  by (auto simp: header_step_def Let_def split: sum.splits prod.splits option.splits if_splits)


section \<open>The loop\<close>

lemma parser_parse_headers_extends:
  assumes "contents m' = contents (msg p) @ rest" and "\<not> pentire p" and "pcursor p \<le> length (contents (msg p))"
    and "parser_parse_headers net ms p = Some (ms1, p1, st)"
  shows "parser_parse_headers net ms (p\<lparr>msg := m'\<rparr>) =
    (if st = PARSE_INCOMPLETE then parser_parse_headers net ms1 (p1\<lparr>msg := m'\<rparr>)
     else Some (ms1, p1\<lparr>msg := m'\<rparr>, st))"
  using assms
proof (induction net ms p rule: parser_parse_headers.induct)
  case (1 net ms p)
  note unfold = parser_parse_headers.simps [of net ms p]
  obtain ms2 p2 r where r: "header_step net ms p = Some (ms2, p2, r)"
    using 1(5) by (auto simp: unfold split: option.splits)
  show ?case
  proof (cases r)
    case None
    note pr = header_step_progress [OF r [unfolded None]]
    have e: "pentire p2 = pentire p"
      using r None by (auto simp: header_step_def Let_def dest: store_header_frame(3)
        split: sum.splits prod.splits option.splits if_splits)
    have "parser_parse_headers net ms (p\<lparr>msg := m'\<rparr>) = parser_parse_headers net ms2 (p2\<lparr>msg := m'\<rparr>)"
      using header_step_extends [OF 1(2-4) r] None by (subst parser_parse_headers.simps) simp
    moreover have "parser_parse_headers net ms2 p2 = Some (ms1, p1, st)"
      using 1(5) r None by (simp add: unfold)
    ultimately show ?thesis
      using 1(1) [OF r refl refl None] 1(2,3) pr e by simp
  next
    case (Some s)
    then have s: "ms1 = ms2" "p1 = p2" "st = s"
      using 1(5) r by (simp_all add: unfold)
    show ?thesis
    proof (cases "s = PARSE_INCOMPLETE")
      case True
      then show ?thesis
        using header_step_incomplete [of net ms p ms2 p2] r Some s by simp
    next
      case False
      then show ?thesis
        using header_step_extends [OF 1(2-4) r] Some s by (subst parser_parse_headers.simps) simp
    qed
  qed
qed

lemma header_step_frame:
  assumes "header_step net ms p = Some (ms1, p1, r)" and "pcursor p \<le> length (contents (msg p))"
  shows "msg p1 = msg p \<and> pcursor p \<le> pcursor p1 \<and> pcursor p1 \<le> length (contents (msg p))"
proof (cases "scanner_get_token (scan_of p)")
  case (Inl e)
  then show ?thesis
    using assms by (auto simp: header_step_def)
next
  case (Inr q)
  then obtain token ty s1 where t: "scanner_get_token (scan_of p) = Inr (token, ty, s1)"
    by (cases q) auto
  have st: "smsg s1 = contents (msg p)" "pcursor p < cursor s1" "cursor s1 \<le> length (contents (msg p))"
    using token_step(1,3,4) [OF t] by (simp_all add: scan_of_def)
  show ?thesis
  proof (cases "ty = TT_IDENTIFIER")
    case False
    then show ?thesis
      using assms(1) t st by (auto simp: header_step_def Let_def split: if_splits)
  next
    case True
    obtain s outs s2 where v: "vfmatch net s1 fmt_header = Some (s, outs, s2)"
      using assms(1) t True by (auto simp: header_step_def split: option.splits)
    note fw = vfmatch_forward [OF fmt_header_stream v]
    show ?thesis
    proof (cases "s = PARSE_OK")
      case False
      then show ?thesis
        using assms t True v by (auto simp: header_step_def)
    next
      case ok: True
      obtain ms2 p2 b where h: "store_header ms (set_scan p s2) token (mem_out outs 0) = Some (ms2, p2, b)"
        using assms(1) t True v ok by (auto simp: header_step_def split: option.splits)
      have "msg p1 = msg p2" "pcursor p1 = pcursor p2"
        using assms(1) t True v ok h by (auto simp: header_step_def split: if_splits)
      then show ?thesis
        using store_header_frame [OF h] fw st by simp
    qed
  qed
qed

lemma parser_parse_headers_frame:
  "parser_parse_headers net ms p = Some (ms1, p1, st) \<Longrightarrow> pcursor p \<le> length (contents (msg p)) \<Longrightarrow>
     msg p1 = msg p \<and> pcursor p \<le> pcursor p1 \<and> pcursor p1 \<le> length (contents (msg p))"
proof (induction net ms p rule: parser_parse_headers.induct)
  case (1 net ms p)
  note unfold = parser_parse_headers.simps [of net ms p]
  obtain ms2 p2 r where r: "header_step net ms p = Some (ms2, p2, r)"
    using 1(2) by (auto simp: unfold split: option.splits)
  show ?case
  proof (cases r)
    case None
    note pr = header_step_progress [OF r [unfolded None]]
    then show ?thesis
      using 1(1) [OF r refl refl None] 1(2) r None by (simp add: unfold)
  next
    case (Some s)
    then have "p1 = p2"
      using 1(2) r by (simp add: unfold)
    then show ?thesis
      using header_step_frame [OF r 1(3)] by simp
  qed
qed


definition demo_msg :: "string \<Rightarrow> membuffer" where
  "demo_msg t = \<lparr>buf = Some (t @ [NUL]), mlength = length t, capacity = length t, size_inc = 5\<rparr>"

definition demo_headers :: "string \<Rightarrow> http_parser" where
  "demo_headers t = parser_request_init\<lparr>position := POS_HEADERS, pmethod := HTTPMETHOD_GET, msg := demo_msg t\<rparr>"


lemma demo_msg_simps [simp]: "contents (demo_msg t) = t" "block (demo_msg t) = t @ [NUL]" "mlength (demo_msg t) = length t"
  by (simp_all add: demo_msg_def contents_def block_def)

text \<open>
  Property C5. Header parsing does not depend on how the message was cut into pieces. If the loop stops for
  lack of data, going on after more data has arrived gives the same result (headers, their order and
  values, status, cursor, use of the allocator) as parsing everything at once; every other status is
  final. The message itself is not changed and the cursor stays inside.
\<close>

theorem headers_incremental:
  assumes "contents m' = contents (msg p) @ rest" and "\<not> pentire p" and "pcursor p \<le> length (contents (msg p))"
    and "parser_parse_headers net ms p = Some (ms1, p1, st)"
  shows "msg p1 = msg p \<and> pcursor p1 \<le> length (contents (msg p)) \<and>
    parser_parse_headers net ms (p\<lparr>msg := m'\<rparr>) =
      (if st = PARSE_INCOMPLETE then parser_parse_headers net ms1 (p1\<lparr>msg := m'\<rparr>)
       else Some (ms1, p1\<lparr>msg := m'\<rparr>, st))"
  using parser_parse_headers_extends [OF assms] parser_parse_headers_frame [OF assms(4,3)] by simp

lemma demo_end_of_headers:
  "parser_parse_headers demo_net [] (demo_headers [CR, LF]) =
     Some ([], (demo_headers [CR, LF])\<lparr>pcursor := 2, position := POS_ENTITY\<rparr>, PARSE_OK)"
  by (subst parser_parse_headers.simps)
     (simp add: header_step_def scanner_get_token_def token_at_def scan_of_def demo_headers_def
       parser_request_init_def parser_init_def method_defs Let_def is_identifier_char_def is_separator_char_def strchr_hit_def sc_def)

theorem headers_incremental_witness:
  "parser_parse_headers demo_net [] (demo_headers [CR, LF]\<lparr>msg := demo_msg ([CR, LF] @ ''Hi'')\<rparr>) =
     Some ([], (demo_headers [CR, LF])\<lparr>pcursor := 2, position := POS_ENTITY, msg := demo_msg ([CR, LF] @ ''Hi'')\<rparr>, PARSE_OK)"
  using headers_incremental [OF _ _ _ demo_end_of_headers, of "demo_msg ([CR, LF] @ ''Hi'')" "''Hi''"]
  by (simp add: demo_headers_def parser_request_init_def parser_init_def)

section \<open>Names\<close>

lemma header_names_sorted:
  "sorted_wrt (<) (map (map fold_case \<circ> name) Http_Header_Names)" "\<forall>e\<in>set Http_Header_Names. no_nul (name e)"
  "NUM_HTTP_HEADER_NAMES = int (length Http_Header_Names)"
proof -
  have "successively (<) (map (map fold_case \<circ> name) Http_Header_Names)"
    by (simp add: Http_Header_Names_def entry_def fold_case_def tolower_def isupper_def)
  then show "sorted_wrt (<) (map (map fold_case \<circ> name) Http_Header_Names)"
    using successively_conv_sorted_wrt [of "(<) :: nat list \<Rightarrow> nat list \<Rightarrow> bool"] by (simp add: transp_def)
  show "\<forall>e\<in>set Http_Header_Names. no_nul (name e)" "NUM_HTTP_HEADER_NAMES = int (length Http_Header_Names)"
    by (simp_all add: Http_Header_Names_def entry_def NUM_HTTP_HEADER_NAMES_def)
qed

text \<open>
  The table of header names is searched correctly: a name is found, whatever its case, exactly
  when the table has it, and the index is the one of that name.
\<close>

lemma header_name_lookup:
  assumes "no_nul nm"
  shows "\<exists>i. map_str_to_int nm (length nm) Http_Header_Names NUM_HTTP_HEADER_NAMES 0 = Some i \<and>
    (if i = -1 then \<forall>e\<in>set Http_Header_Names. map tolower (name e) \<noteq> map tolower nm
     else 0 \<le> i \<and> i < NUM_HTTP_HEADER_NAMES \<and> map tolower (name (Http_Header_Names ! nat i)) = map tolower nm)"
proof -
  have f: "map fold_case xs = map fold_case ys \<longleftrightarrow> map tolower xs = map tolower ys" for xs ys
    using inj_map_eq_map [of uc "map tolower xs" "map tolower ys"] by (simp add: fold_case_def [abs_def] inj_def comp_def)
  show ?thesis
    using folded.lookup_iff [OF header_names_sorted(1) assms header_names_sorted(2)]
    by (simp only: map_str_to_int_def header_names_sorted(3) f simp_thms if_False)
qed

lemma header_name_lookup_example:
  "\<exists>i. map_str_to_int ''Host'' (length ''Host'') Http_Header_Names NUM_HTTP_HEADER_NAMES 0 = Some i \<and> i \<noteq> -1"
proof -
  have "char_of (111 :: nat) = CHR ''o''" "char_of (115 :: nat) = CHR ''s''" "char_of (116 :: nat) = CHR ''t''"
    by (simp_all add: char_of_def bit_iff_odd_drop_bit drop_bit_eq_div)
  then have "\<exists>e\<in>set Http_Header_Names. map tolower (name e) = map tolower ''Host''" "no_nul ''Host''"
    by (simp_all add: Http_Header_Names_def entry_def tolower_def isupper_def)
  then show ?thesis
    using header_name_lookup [of "''Host''"] by metis
qed

text \<open>
  The table of the methods is not sorted, and the binary search cannot find one of its
  entries: a request with the method PUT is refused with the status 501, although the table has it.
  All other entries are found.
\<close>

lemma put_is_refused:
  "filter (\<lambda>e. map_str_to_int (name e) (length (name e)) Http_Method_Table NUM_HTTP_METHODS 1 = Some (-1))
     Http_Method_Table = [\<lparr>name = ''PUT'', id = HTTPMETHOD_PUT\<rparr>] \<and>
   simple_get net ms p ''PUT'' url = Some (ms, p\<lparr>http_error_code := 501\<rparr>, PARSE_FAILURE) \<and>
   full_request net ms p ''PUT'' url v =
     map_option (\<lambda>(ms1, p1, st). if st = PARSE_OK then (ms1, p1\<lparr>http_error_code := 501\<rparr>, PARSE_FAILURE)
                                  else (ms1, p1, st)) (store_url net ms p (strip_slashes url))"
proof (intro conjI)
  have l: "map_str_to_int ''PUT'' (length ''PUT'') Http_Method_Table NUM_HTTP_METHODS 1 = Some (-1)"
    by code_simp
  show "filter (\<lambda>e. map_str_to_int (name e) (length (name e)) Http_Method_Table NUM_HTTP_METHODS 1 = Some (-1))
     Http_Method_Table = [\<lparr>name = ''PUT'', id = HTTPMETHOD_PUT\<rparr>]"
    by code_simp
  show "simple_get net ms p ''PUT'' url = Some (ms, p\<lparr>http_error_code := 501\<rparr>, PARSE_FAILURE)"
    using l by (simp add: simple_get_def HTTP_NOT_IMPLEMENTED_def)
  show "full_request net ms p ''PUT'' url v =
     map_option (\<lambda>(ms1, p1, st). if st = PARSE_OK then (ms1, p1\<lparr>http_error_code := 501\<rparr>, PARSE_FAILURE)
                                  else (ms1, p1, st)) (store_url net ms p (strip_slashes url))"
    using l by (auto simp: full_request_def HTTP_NOT_IMPLEMENTED_def split: option.split)
qed

end
