(* ===== verification/HttpEntity.thy ===== *)
theory HttpEntity
  imports HttpParser
begin

text \<open>
  How the message parser reads an entity: the entity of a given length and the
  chunked transfer encoding. The lemmas follow one round of the entity loop
  each: the line with the size of a chunk, its data, the empty line at the end.
\<close>

section \<open>Tokens and numbers in a chunk\<close>

lemma nth_at_length: "i = length xs \<Longrightarrow> (xs @ c # ys) ! i = c"
  by simp

lemma CR_not_identifier: "\<not> is_identifier_char CR" and LF_not_identifier: "\<not> is_identifier_char LF"
  by (simp_all add: is_identifier_char_def is_separator_char_def strchr_hit_def sc_def)

lemma token_crlf:
  assumes "smsg s = pre @ CR # LF # post" and "cursor s = length pre"
  shows "scanner_get_token s = Inr (\<lparr>mp_buf = cursor s, mp_length = 2\<rparr>, TT_CRLF, s\<lparr>cursor := cursor s + 2\<rparr>)"
proof -
  have "smsg s ! cursor s = CR" "smsg s ! (cursor s + 1) = LF"
    using assms by (simp_all add: nth_append)
  then have "token_at (entire_msg_loaded s) (smsg s) (cursor s) = Inr (TT_CRLF, cursor s + 2)"
    using assms CR_not_identifier by (simp add: token_at_def)
  then show ?thesis
    by (simp add: scanner_get_token_def)
qed

lemma token_identifier:
  assumes "smsg s = pre @ w @ c # post" and "cursor s = length pre" and "w \<noteq> []"
    and "\<forall>x\<in>set w. is_identifier_char x" and "\<not> is_identifier_char c"
  shows "scanner_get_token s =
    Inr (\<lparr>mp_buf = cursor s, mp_length = length w\<rparr>, TT_IDENTIFIER, s\<lparr>cursor := cursor s + length w\<rparr>)"
proof -
  obtain a v where w: "w = a # v"
    using assms(3) by (cases w) auto
  have "scan_while is_identifier_char (smsg s) (cursor s + 1) =
      cursor s + 1 + length (takeWhile is_identifier_char (drop (cursor s + 1) (smsg s)))"
    using assms(1,2) w by (intro scan_while_run) simp
  moreover have "drop (cursor s + 1) (smsg s) = v @ c # post"
    using assms(1,2) w by simp
  moreover have "takeWhile is_identifier_char (v @ c # post) = v"
    using assms(4,5) w by (simp add: takeWhile_append2 takeWhile_tail)
  ultimately have "scan_while is_identifier_char (smsg s) (cursor s + 1) = cursor s + length w"
    using w by simp
  moreover have "smsg s ! cursor s = a" "is_identifier_char a"
    using assms(1,2,4) w by (simp_all add: nth_append)
  moreover have "cursor s + length w < length (smsg s)"
    using assms(1,2) by simp
  ultimately have "token_at (entire_msg_loaded s) (smsg s) (cursor s) = Inr (TT_IDENTIFIER, cursor s + length w)"
    by (simp add: token_at_def Let_def)
  then show ?thesis
    by (simp add: scanner_get_token_def)
qed

definition hex_word :: "string \<Rightarrow> bool" where
  "hex_word w \<longleftrightarrow> w \<noteq> [] \<and> (\<forall>x\<in>set w. digit_val x < 16)"

lemma hex_not_sign: "digit_val c < 16 \<Longrightarrow> c \<noteq> CHR ''-'' \<and> c \<noteq> CHR ''+'' \<and> c \<noteq> CHR ''x'' \<and> c \<noteq> CHR ''X''"
  by (auto simp: digit_val_def ctype_defs split: if_splits)

lemma hex_strtol:
  assumes "hex_word w" and "digits_val 16 w < 2 ^ 31"
  shows "strtol 16 (w @ CR # post) = (int (digits_val 16 w), length w, False)"
proof -
  have w: "w \<noteq> []" "\<And>x. x \<in> set w \<Longrightarrow> digit_val x < 16"
    using assms(1) by (simp_all add: hex_word_def)
  then have hd: "digit_val (hd w) < 16"
    by simp
  have sl: "sign_len w = 0" "hd w \<noteq> CHR ''-''"
    using hex_not_sign [OF hd] by (simp_all add: sign_len_def)
  have "hex_prefix 16 w = 0"
  proof (cases "2 < length w")
    case True
    then have "w ! 1 \<in> set w"
      by simp
    then show ?thesis
      using hex_not_sign [OF w(2)] by (simp add: hex_prefix_def)
  qed (simp add: hex_prefix_def)
  moreover have "digits_of 16 w = w"
    using w(2) by (simp add: digits_of_def takeWhile_eq_all_conv)
  ultimately show ?thesis
    using strtol_token [OF w(1) digit_is_identifier [OF hd] CR_not_identifier, of 16 post] sl w(1) assms(2)
    by (simp add: strtol_result_def LONG_MAX_def LONG_MIN_def)
qed

lemma match_hex:
  assumes "smsg s = pre @ w @ CR # post" and "cursor s = length pre"
    and "hex_word w" and "digits_val 16 w < 2 ^ 31"
  shows "match_int s 16 = (PARSE_OK, Some (int (digits_val 16 w)), s\<lparr>cursor := cursor s + length w\<rparr>)"
proof -
  have "w \<noteq> []" "\<forall>x\<in>set w. is_identifier_char x"
    using assms(3) digit_is_identifier by (auto simp: hex_word_def)
  note t = token_identifier [OF assms(1,2) this CR_not_identifier]
  have "drop (cursor s) (smsg s) = w @ CR # post"
    using assms(1,2) by simp
  then have "strtol 16 (drop (cursor s) (smsg s)) = (int (digits_val 16 w), length w, False)"
    using hex_strtol [OF assms(3,4)] by simp
  moreover have "to_int (int (digits_val 16 w)) = int (digits_val 16 w)"
    using assms(4) by (simp add: to_int_def)
  ultimately show ?thesis
    by (simp add: match_int_def t)
qed

text \<open>The line with the size of a chunk.\<close>

lemma match_chunk_line:
  assumes "smsg s = pre @ w @ CR # LF # post" and "cursor s = length pre"
    and "hex_word w" and "digits_val 16 w < 2 ^ 31"
  shows "\<exists>v. vfmatch net s fmt_chunk =
    Some (PARSE_OK, [OInt (Some (int (digits_val 16 w))), v], s\<lparr>cursor := cursor s + length w + 2\<rparr>)"
proof -
  define s1 where "s1 = s\<lparr>cursor := cursor s + length w\<rparr>"
  have m: "match_int s 16 = (PARSE_OK, Some (int (digits_val 16 w)), s1)"
    using match_hex [OF assms] by (simp add: s1_def)
  have e: "smsg s1 = (pre @ w) @ CR # LF # post" "cursor s1 = length (pre @ w)"
    using assms(1,2) by (simp_all add: s1_def)
  note t = token_crlf [OF e]
  have "read_until_crlf_loop s1 = (PARSE_OK, s1)"
    by (subst read_until_crlf_loop.simps) (simp add: t)
  then obtain v where r: "read_until_crlf s1 = (PARSE_OK, v, s1)"
    by (simp add: read_until_crlf_def)
  have "expect_token TT_CRLF s1 = (PARSE_OK, Some \<lparr>mp_buf = cursor s1, mp_length = 2\<rparr>, s1\<lparr>cursor := cursor s1 + 2\<rparr>)"
    by (simp add: expect_token_def t)
  then show ?thesis
    using m r by (simp add: vfmatch_def fmt_chunk_def directive_def) (simp add: s1_def)
qed

lemma match_crlf:
  assumes "smsg s = pre @ CR # LF # post" and "cursor s = length pre"
  shows "vfmatch net s ''%c'' = Some (PARSE_OK, [], s\<lparr>cursor := cursor s + 2\<rparr>)"
  by (simp add: vfmatch_def directive_def expect_token_def token_crlf [OF assms])


section \<open>Cutting the encoding out of the message\<close>

text \<open>A message buffer with room to work in.\<close>

definition buffer_ok :: "membuffer \<Rightarrow> bool" where
  "buffer_ok m \<longleftrightarrow> mb_inv m \<and> terminated m \<and> mlength m + size_inc m + capacity m < SIZE_LIMIT"

lemma length_contents: "mb_inv m \<Longrightarrow> length (contents m) = mlength m"
  by (auto simp: mb_inv_def contents_def split: option.splits)

lemma set_size_shrink:
  assumes "membuffer_set_size ms m n = (ms1, m1, rc)" and "n \<le> mlength m" and "mb_inv m"
    and "mlength m + size_inc m + capacity m < SIZE_LIMIT"
  shows "capacity m1 \<le> capacity m" and "ms = [] \<Longrightarrow> ms1 = []"
proof -
  have e: "sz_sub (capacity m) n = capacity m - n" "sz_add n (size_inc m) = n + size_inc m"
    using assms(2-4) by (auto simp: mb_inv_def SIZE_LIMIT_def SIZE_MOD_def intro!: sz_sub_exact sz_add_exact)
  show "capacity m1 \<le> capacity m" and "ms = [] \<Longrightarrow> ms1 = []"
    using assms(1-3) by (auto simp: membuffer_set_size_def e mb_inv_def split: if_splits prod.splits option.splits)
qed

lemma delete_shrinks:
  assumes "membuffer_delete [] m i n = Some (ms1, m1)" and "mb_inv m" and "i + n \<le> mlength m"
    and "mlength m + size_inc m + capacity m < SIZE_LIMIT"
  shows "capacity m1 \<le> capacity m" and "ms1 = []"
proof -
  have lt: "mlength m < SIZE_MOD" "i + n < SIZE_MOD"
    using assms(3,4) SIZE_LIMIT_less by auto
  have e: "sz_add i n = i + n" "sz_sub (mlength m) n = mlength m - n"
    using assms(3) lt by (auto intro!: sz_sub_exact sz_add_exact)
  have "ms1 = [] \<and> capacity m1 \<le> capacity m"
  proof (cases "mlength m = 0")
    case True
    then show ?thesis
      using assms(1) by (simp add: membuffer_delete_def)
  next
    case False
    obtain b ms2 m2 rc where s: "membuffer_set_size [] (m\<lparr>buf := b\<rparr>) (mlength m - n) = (ms2, m2, rc)"
      and mm: "memmove i (i + n) (sz_sub (mlength m) (i + n)) (buf m) = Some b"
      using assms(1,3) e False by (auto simp: membuffer_delete_def Let_def split: option.splits prod.splits)
    have inv: "mb_inv (m\<lparr>buf := b\<rparr>)"
      using assms(2) mm
      by (auto simp: mb_inv_def memmove_def blk_read_def blk_write_def split: option.splits if_splits)
    have "ms1 = ms2" "capacity m1 = capacity m2"
      using assms(1,3) e False s mm by (auto simp: membuffer_delete_def Let_def split: option.splits if_splits)
    then show ?thesis
      using set_size_shrink [OF s _ inv] assms(4) by simp
  qed
  then show "capacity m1 \<le> capacity m" and "ms1 = []"
    by simp_all
qed

lemma cut_back_ok:
  assumes "buffer_ok (msg p)" and "contents (msg p) = pre @ mid @ post" and "pcursor p = length pre + length mid"
  shows "\<exists>m1. cut_back [] p (length pre) = Some ([], p\<lparr>msg := m1, pcursor := length pre\<rparr>) \<and>
    buffer_ok m1 \<and> contents m1 = pre @ post"
proof -
  let ?m = "msg p" and ?i = "length pre" and ?n = "length mid"
  have inv: "mb_inv ?m" "terminated ?m" "mlength ?m + size_inc ?m + capacity ?m < SIZE_LIMIT"
    using assms(1) by (simp_all add: buffer_ok_def)
  have len: "mlength ?m = ?i + ?n + length post"
    using length_contents [OF inv(1)] assms(2) by simp
  then have sz: "?i + ?n < SIZE_MOD" "sz_sub (pcursor p) ?i = ?n"
    using inv(3) SIZE_LIMIT_less by (auto simp: assms(3) sz_sub_exact)
  obtain ms1 m1 where d: "membuffer_delete [] ?m ?i ?n = Some (ms1, m1)" "size_inc m1 = size_inc ?m" "mb_inv m1"
    "terminated m1" "contents m1 = take ?i (contents ?m) @ drop (?i + ?n) (contents ?m)"
    using membuffer_delete_ok [OF inv(1,2) _ sz(1) inv(3) refl, of "[]"] len by auto
  note sh = delete_shrinks [OF d(1) inv(1) _ inv(3)]
  have c: "contents m1 = pre @ post"
    using d(5) assms(2) by simp
  then have "mlength m1 \<le> mlength ?m"
    using length_contents [OF d(3)] len by simp
  then have "buffer_ok m1"
    using d sh len inv(3) by (simp add: buffer_ok_def)
  then show ?thesis
    using d(1) sh len sz c by (intro exI [of _ m1]) (simp add: cut_back_def)
qed


section \<open>The rounds of the entity loop\<close>

declare parser_parse_entity.simps [simp del]

lemma low_int: "old < 2 ^ 32 \<Longrightarrow> v < 2 ^ 31 \<Longrightarrow> store_low_int old (OInt (Some (int v))) = v"
  by (simp add: store_low_int_def)

text \<open>The line before the data: it is cut out and its number becomes the size of the chunk.\<close>

lemma chunk_line_step:
  assumes "buffer_ok (msg p)" and "contents (msg p) = pre @ w @ CR # LF # post" and "pcursor p = length pre"
    and "hex_word w" and "digits_val 16 w < 2 ^ 31" and "chunk_size p < 2 ^ 32"
  shows "\<exists>m1. buffer_ok m1 \<and> contents m1 = pre @ post \<and>
    parser_parse_chunky_entity net [] p =
      Some ([], if digits_val 16 w = 0
                then p\<lparr>chunk_size := 0, msg := m1,
                       entity_length := sz_add (sz_sub (length pre) (entity_start_position p)) (amount_discarded p),
                       ent_position := ENTREAD_CHUNKY_HEADERS\<rparr>
                else p\<lparr>chunk_size := digits_val 16 w, msg := m1, ent_position := ENTREAD_CHUNKY_BODY\<rparr>,
            PARSE_CONTINUE_1)"
proof -
  let ?p1 = "p\<lparr>chunk_size := digits_val 16 w, pcursor := length pre + length w + 2\<rparr>"
  obtain v where v: "vfmatch net (scan_of p) fmt_chunk =
      Some (PARSE_OK, [OInt (Some (int (digits_val 16 w))), v], (scan_of p)\<lparr>cursor := length pre + length w + 2\<rparr>)"
    using match_chunk_line [of "scan_of p" pre w post net] assms by (auto simp: scan_of_def)
  obtain m1 where m1: "cut_back [] ?p1 (length pre) = Some ([], ?p1\<lparr>msg := m1, pcursor := length pre\<rparr>)"
    "buffer_ok m1" "contents m1 = pre @ post"
    using cut_back_ok [of ?p1 pre "w @ [CR, LF]" post] assms(1,2) by auto
  show ?thesis
    using v m1 low_int [OF assms(6,5)] assms(3)
    by (intro exI [of _ m1]) (simp add: parser_parse_chunky_entity_def)
qed


lemma chunk_body_step:
  assumes "buffer_ok (msg p)" and "contents (msg p) = pre @ d @ CR # LF # post" and "pcursor p = length pre"
    and "chunk_size p = length d"
  shows "\<exists>m1. buffer_ok m1 \<and> contents m1 = pre @ d @ post \<and>
    parser_parse_chunky_body net [] p =
      Some ([], p\<lparr>msg := m1, pcursor := length pre + length d,
                  entity_length := sz_add (entity_length p) (length d), ent_position := ENTREAD_USING_CHUNKED\<rparr>,
            PARSE_CONTINUE_1)"
proof -
  have len: "mlength (msg p) = length pre + length d + 2 + length post" "mlength (msg p) < SIZE_MOD"
    using length_contents [of "msg p"] assms(1,2) by (auto simp: buffer_ok_def SIZE_LIMIT_def SIZE_MOD_def)
  then have sz: "sz_add (pcursor p) (chunk_size p) = length pre + length d"
    "chunk_size p \<le> sz_sub (mlength (msg p)) (pcursor p)"
    using assms(3,4) by (simp_all add: sz_add_exact sz_sub_exact)
  let ?p1 = "p\<lparr>pcursor := length pre + length d\<rparr>"
  have v: "vfmatch net (scan_of ?p1) ''%c'' = Some (PARSE_OK, [], (scan_of ?p1)\<lparr>cursor := length pre + length d + 2\<rparr>)"
    using match_crlf [of "scan_of ?p1" "pre @ d" post net] assms(2) by (simp add: scan_of_def)
  obtain m1 where m1: "cut_back [] (?p1\<lparr>pcursor := length pre + length d + 2\<rparr>) (length (pre @ d)) =
      Some ([], ?p1\<lparr>pcursor := length pre + length d + 2, msg := m1, pcursor := length (pre @ d)\<rparr>)"
    "buffer_ok m1" "contents m1 = (pre @ d) @ post"
    using cut_back_ok [of "?p1\<lparr>pcursor := length pre + length d + 2\<rparr>" "pre @ d" "[CR, LF]" post] assms(1,2) by auto
  show ?thesis
    using v m1 sz assms(4)
    by (intro exI [of _ m1]) (simp add: parser_parse_chunky_body_def)
qed

lemma chunk_end_step:
  assumes "buffer_ok (msg p)" and "contents (msg p) = pre @ CR # LF # post" and "pcursor p = length pre"
    and "\<not> (is_request p \<and> pmethod p = HTTPMETHOD_POST)"
  shows "\<exists>m1. buffer_ok m1 \<and> contents m1 = pre @ post \<and>
    parser_parse_chunky_headers net [] p =
      Some ([], p\<lparr>position := POS_COMPLETE, msg := m1, entity_buf := Some (entity_start_position p)\<rparr>, PARSE_SUCCESS)"
proof -
  let ?p1 = "p\<lparr>pcursor := length pre + 2, position := POS_ENTITY\<rparr>"
  have "parser_parse_headers net [] p = Some ([], ?p1, PARSE_OK)"
    using token_crlf [of "scan_of p" pre post] assms(2-4)
    by (subst parser_parse_headers.simps) (auto simp: header_step_def scan_of_def)
  moreover obtain m1 where "cut_back [] (?p1\<lparr>position := POS_COMPLETE\<rparr>) (length pre) =
      Some ([], ?p1\<lparr>position := POS_COMPLETE, msg := m1, pcursor := length pre\<rparr>)"
    "buffer_ok m1" "contents m1 = pre @ post"
    using cut_back_ok [of "?p1\<lparr>position := POS_COMPLETE\<rparr>" pre "[CR, LF]" post] assms(1,2) by auto
  ultimately show ?thesis
    using assms(3) by (intro exI [of _ m1]) (simp add: parser_parse_chunky_headers_def)
qed

definition chunk_ok :: "string \<times> string \<Rightarrow> bool" where
  "chunk_ok c \<longleftrightarrow> (case c of (w, d) \<Rightarrow> hex_word w \<and> digits_val 16 w = length d \<and> d \<noteq> [] \<and> length d < 2 ^ 31)"

definition chunk_text :: "string \<times> string \<Rightarrow> string" where
  "chunk_text c = (case c of (w, d) \<Rightarrow> w @ [CR, LF] @ d @ [CR, LF])"

lemma chunk_text_pair [simp]: "chunk_text (w, d) = w @ [CR, LF] @ d @ [CR, LF]"
  by (simp add: chunk_text_def)

lemma parse_entity_continue:
  "entity_step net ms p = Some (ms1, p1, PARSE_CONTINUE_1) \<Longrightarrow>
     parser_parse_entity net ms p = parser_parse_entity net ms1 p1"
  by (subst parser_parse_entity.simps) simp

lemma parse_entity_stop:
  "entity_step net ms p = Some (ms1, p1, st) \<Longrightarrow> st \<noteq> PARSE_CONTINUE_1 \<Longrightarrow>
     parser_parse_entity net ms p = Some (ms1, p1, st)"
  by (subst parser_parse_entity.simps) simp

text \<open>The parser before the size of a chunk: \<open>pre\<close> is decoded, \<open>rest\<close> is not.\<close>

definition chunk_state :: "http_parser \<Rightarrow> string \<Rightarrow> string \<Rightarrow> bool" where
  "chunk_state p pre rest \<longleftrightarrow>
     buffer_ok (msg p) \<and> ent_position p = ENTREAD_USING_CHUNKED \<and> chunk_size p < 2 ^ 32 \<and>
     contents (msg p) = pre @ rest \<and> pcursor p = length pre"

definition same_message :: "http_parser \<Rightarrow> http_parser \<Rightarrow> bool" where
  "same_message p q \<longleftrightarrow>
     is_request q = is_request p \<and> pmethod q = pmethod p \<and> entity_start_position q = entity_start_position p \<and>
     amount_discarded q = amount_discarded p"

lemma chunk_round:
  assumes "chunk_ok c" and "chunk_state p pre (chunk_text c @ rest)"
  shows "\<exists>p1. parser_parse_entity net [] p = parser_parse_entity net [] p1 \<and> chunk_state p1 (pre @ snd c) rest \<and>
    same_message p p1"
proof -
  obtain u d where c: "c = (u, d)" "hex_word u" "digits_val 16 u = length d" "d \<noteq> []" "length d < 2 ^ 31"
    using assms(1) by (cases c) (auto simp: chunk_ok_def)
  have st: "buffer_ok (msg p)" "ent_position p = ENTREAD_USING_CHUNKED" "chunk_size p < 2 ^ 32" "pcursor p = length pre"
    and cont: "contents (msg p) = pre @ u @ CR # LF # d @ CR # LF # rest"
    using assms(2) c(1) by (simp_all add: chunk_state_def)
  obtain m1 where m1: "buffer_ok m1" "contents m1 = pre @ d @ CR # LF # rest" and
    s1: "parser_parse_chunky_entity net [] p =
      Some ([], p\<lparr>chunk_size := length d, msg := m1, ent_position := ENTREAD_CHUNKY_BODY\<rparr>, PARSE_CONTINUE_1)"
      (is "_ = Some ([], ?p1, _)")
    using chunk_line_step [OF st(1) cont st(4) c(2) _ st(3), of net] c by auto
  obtain m2 where m2: "buffer_ok m2" "contents m2 = pre @ d @ rest" and
    s2: "parser_parse_chunky_body net [] ?p1 =
      Some ([], ?p1\<lparr>msg := m2, pcursor := length pre + length d,
          entity_length := sz_add (entity_length ?p1) (length d), ent_position := ENTREAD_USING_CHUNKED\<rparr>,
          PARSE_CONTINUE_1)" (is "_ = Some ([], ?p2, _)")
    using chunk_body_step [of ?p1 pre d rest net] m1 st(4) by auto
  have "entity_step net [] p = Some ([], ?p1, PARSE_CONTINUE_1)" "entity_step net [] ?p1 = Some ([], ?p2, PARSE_CONTINUE_1)"
    using s1 s2 st(2) by (simp_all add: entity_step_def)
  then have "parser_parse_entity net [] p = parser_parse_entity net [] ?p2"
    using parse_entity_continue by metis
  moreover have "chunk_state ?p2 (pre @ snd c) rest" "same_message p ?p2"
    using m2 c(1,5) by (simp_all add: chunk_state_def same_message_def)
  ultimately show ?thesis
    by blast
qed

lemma chunks_advance:
  assumes "\<forall>c\<in>set cs. chunk_ok c" and "chunk_state p pre (concat (map chunk_text cs) @ rest)"
  shows "\<exists>p1. parser_parse_entity net [] p = parser_parse_entity net [] p1 \<and>
    chunk_state p1 (pre @ concat (map snd cs)) rest \<and> same_message p p1"
  using assms
proof (induction cs arbitrary: p pre)
  case (Cons c cs)
  obtain p1 where p1: "parser_parse_entity net [] p = parser_parse_entity net [] p1" "same_message p p1"
    "chunk_state p1 (pre @ snd c) (concat (map chunk_text cs) @ rest)"
    using chunk_round [of c p pre _ net] Cons.prems by auto
  then show ?case
    using Cons.IH [OF _ p1(3)] Cons.prems(1) by (auto simp: same_message_def)
qed (auto simp: same_message_def)

lemma last_chunk_round:
  assumes "hex_word w" and "digits_val 16 w = 0" and "chunk_state p pre (w @ [CR, LF, CR, LF] @ post)"
    and "\<not> (is_request p \<and> pmethod p = HTTPMETHOD_POST)"
  shows "\<exists>p1. parser_parse_entity net [] p = Some ([], p1, PARSE_SUCCESS) \<and> position p1 = POS_COMPLETE \<and>
      contents (msg p1) = pre @ post \<and> entity_buf p1 = Some (entity_start_position p) \<and>
      entity_length p1 = sz_add (sz_sub (length pre) (entity_start_position p)) (amount_discarded p)"
proof -
  have st: "buffer_ok (msg p)" "ent_position p = ENTREAD_USING_CHUNKED" "chunk_size p < 2 ^ 32" "pcursor p = length pre"
    "contents (msg p) = pre @ w @ CR # LF # CR # LF # post"
    using assms(3) by (simp_all add: chunk_state_def)
  obtain m1 where m1: "buffer_ok m1" "contents m1 = pre @ CR # LF # post" and
    s1: "parser_parse_chunky_entity net [] p =
      Some ([], p\<lparr>chunk_size := 0, msg := m1,
                       entity_length := sz_add (sz_sub (length pre) (entity_start_position p)) (amount_discarded p),
                       ent_position := ENTREAD_CHUNKY_HEADERS\<rparr>, PARSE_CONTINUE_1)" (is "_ = Some ([], ?p1, _)")
    using chunk_line_step [OF st(1,5,4) assms(1) _ st(3), of net] assms(2) by auto
  obtain m2 where m2: "contents m2 = pre @ post" and
    s2: "parser_parse_chunky_headers net [] ?p1 = Some ([], ?p1\<lparr>position := POS_COMPLETE, msg := m2,
        entity_buf := Some (entity_start_position ?p1)\<rparr>, PARSE_SUCCESS)" (is "_ = Some ([], ?p2, _)")
    using chunk_end_step [of ?p1 pre post net] m1 st(4) assms(4) by auto
  have "entity_step net [] p = Some ([], ?p1, PARSE_CONTINUE_1)" "entity_step net [] ?p1 = Some ([], ?p2, PARSE_SUCCESS)"
    using s1 s2 st(2) by (simp_all add: entity_step_def)
  then have "parser_parse_entity net [] p = Some ([], ?p2, PARSE_SUCCESS)"
    using parse_entity_continue [of net "[]" p] parse_entity_stop [of net "[]" ?p1] by simp
  then show ?thesis
    using m2 by simp
qed

definition entity_text :: "http_parser \<Rightarrow> string" where
  "entity_text p =
     (case entity_buf p of None \<Rightarrow> [] | Some i \<Rightarrow> take (entity_length p) (drop i (contents (msg p))))"

lemma chunks_decoded:
  assumes "\<forall>c\<in>set cs. chunk_ok c" and "hex_word w" and "digits_val 16 w = 0"
    and "chunk_state p pre (concat (map chunk_text cs) @ w @ [CR, LF, CR, LF] @ post)"
    and "entity_start_position p = length pre" and "amount_discarded p = 0"
    and "\<not> (is_request p \<and> pmethod p = HTTPMETHOD_POST)"
  shows "\<exists>p1. parser_parse_entity net [] p = Some ([], p1, PARSE_SUCCESS) \<and> position p1 = POS_COMPLETE \<and>
    entity_text p1 = concat (map snd cs) \<and> contents (msg p1) = pre @ concat (map snd cs) @ post"
proof -
  obtain p0 where p0: "parser_parse_entity net [] p = parser_parse_entity net [] p0" "same_message p p0"
    "chunk_state p0 (pre @ concat (map snd cs)) (w @ [CR, LF, CR, LF] @ post)"
    using chunks_advance [OF assms(1,4), of net] by blast
  obtain p1 where p1: "parser_parse_entity net [] p = Some ([], p1, PARSE_SUCCESS)" "position p1 = POS_COMPLETE"
      "contents (msg p1) = pre @ concat (map snd cs) @ post" "entity_buf p1 = Some (length pre)"
      "entity_length p1 = sz_add (sz_sub (length pre + length (concat (map snd cs))) (length pre)) 0"
    using last_chunk_round [OF assms(2,3) p0(3), of net] p0(1,2) assms(5-7) by (auto simp: same_message_def)
  have "length (concat (map snd cs)) \<le> length (concat (map chunk_text cs))"
    by (induction cs) auto
  then have "length pre + length (concat (map snd cs)) < SIZE_MOD"
    using assms(4) length_contents [of "msg p"] SIZE_LIMIT_less(1) by (auto simp: chunk_state_def buffer_ok_def)
  then have "entity_length p1 = length (concat (map snd cs))"
    by (simp add: p1(5) sz_sub_exact sz_add_exact)
  then show ?thesis
    using p1 by (simp add: entity_text_def)
qed

text \<open>Without a last chunk the parser waits for more.\<close>

lemma chunks_waiting:
  assumes "\<forall>c\<in>set cs. chunk_ok c" and "chunk_state p pre (concat (map chunk_text cs))"
  shows "\<exists>p1. parser_parse_entity net [] p = Some ([], p1, PARSE_INCOMPLETE)"
proof -
  obtain p0 where p0: "parser_parse_entity net [] p = parser_parse_entity net [] p0"
    "chunk_state p0 (pre @ concat (map snd cs)) []"
    using chunks_advance [OF assms(1), of p pre "[]" net] assms(2) by auto
  have "scanner_get_token (scan_of p0) = Inl PARSE_INCOMPLETE"
    using p0(2) by (simp add: scanner_get_token_def token_at_def scan_of_def chunk_state_def)
  then have "vfmatch net (scan_of p0) fmt_chunk = Some (PARSE_INCOMPLETE, [OInt None], scan_of p0)"
    by (simp add: vfmatch_def fmt_chunk_def directive_def match_int_def)
  then have "\<exists>p1. entity_step net [] p0 = Some ([], p1, PARSE_INCOMPLETE)"
    using p0(2) by (simp add: entity_step_def parser_parse_chunky_entity_def chunk_state_def Let_def)
  then show ?thesis
    using p0(1) parse_entity_stop by (metis parse_status.distinct)
qed

section \<open>Properties\<close>

text \<open>
  Property C11. The chunked transfer encoding is decoded: for any chunks (a size in hexadecimal digits of
  either case, the data, line ends), the last chunk of size 0 and the empty line after it, the
  entity loop ends with \<open>PARSE_SUCCESS\<close>, the entity is the concatenation of the data, and what
  was around the encoded body is unchanged in the buffer. (The allocator grants the shrinking reallocations;
  POST requests take another path.)
\<close>

theorem chunked_body_decoded:
  assumes "\<forall>c\<in>set cs. chunk_ok c" and "hex_word w" and "digits_val 16 w = 0"
    and "buffer_ok (msg p)" and "ent_position p = ENTREAD_USING_CHUNKED" and "chunk_size p < 2 ^ 32"
    and "contents (msg p) = pre @ concat (map chunk_text cs) @ w @ [CR, LF, CR, LF] @ post"
    and "pcursor p = length pre" and "entity_start_position p = length pre" and "amount_discarded p = 0"
    and "\<not> (is_request p \<and> pmethod p = HTTPMETHOD_POST)"
  shows "\<exists>p1. parser_parse_entity net [] p = Some ([], p1, PARSE_SUCCESS) \<and> position p1 = POS_COMPLETE \<and>
    entity_text p1 = concat (map snd cs) \<and> contents (msg p1) = pre @ concat (map snd cs) @ post"
  using chunks_decoded [OF assms(1-3), of p pre post net] assms(4-11) by (simp add: chunk_state_def)

definition demo_chunked :: http_parser where
  "demo_chunked = (parser_response_init HTTPMETHOD_GET)
     \<lparr>position := POS_ENTITY, ent_position := ENTREAD_USING_CHUNKED,
      msg := \<lparr>buf = Some (''2'' @ [CR, LF] @ ''Hi'' @ [CR, LF] @ ''0'' @ [CR, LF, CR, LF] @ [NUL]),
              mlength = 12, capacity = 12, size_inc = 5\<rparr>\<rparr>"

theorem chunked_body_decoded_witness:
  "\<exists>p1. parser_parse_entity demo_net [] demo_chunked = Some ([], p1, PARSE_SUCCESS) \<and>
     position p1 = POS_COMPLETE \<and> entity_text p1 = ''Hi'' \<and> contents (msg p1) = ''Hi''"
proof -
  have "\<exists>p1. parser_parse_entity demo_net [] demo_chunked = Some ([], p1, PARSE_SUCCESS) \<and> position p1 = POS_COMPLETE \<and>
    entity_text p1 = concat (map snd [(''2'', ''Hi'')]) \<and>
    contents (msg p1) = [] @ concat (map snd [(''2'', ''Hi'')]) @ []"
    by (rule chunked_body_decoded [where w = "''0''"])
       (simp_all add: demo_chunked_def parser_response_init_def parser_init_def chunk_ok_def hex_word_def
         digit_val_def ctype_defs digits_val_def buffer_ok_def mb_inv_def terminated_def SIZE_LIMIT_def
         contents_def)
  then show ?thesis
    by simp
qed

text \<open>
  An entity with a content length: as long as fewer bytes of it are there, the parser asks
  for more; as soon as they are there it succeeds, the entity is exactly the first bytes of that
  number after the headers, and bytes behind it do not count.
\<close>

lemma content_length_exact:
  assumes "buffer_ok (msg p)" and "entity_start_position p \<le> mlength (msg p)" and "amount_discarded p = 0"
    and "ent_position p = ENTREAD_USING_CLEN"
  shows "if mlength (msg p) - entity_start_position p < content_length p
    then \<exists>p1. parser_parse_entity net ms p = Some (ms, p1, PARSE_INCOMPLETE) \<and> msg p1 = msg p
    else \<exists>p1. parser_parse_entity net ms p = Some (ms, p1, PARSE_SUCCESS) \<and> position p1 = POS_COMPLETE \<and>
      entity_text p1 = take (content_length p) (drop (entity_start_position p) (contents (msg p)))"
proof -
  let ?m = "msg p" and ?i = "entity_start_position p" and ?n = "content_length p"
  have inv: "mb_inv ?m" "mlength ?m < SIZE_MOD"
    using assms(1) by (auto simp: buffer_ok_def SIZE_LIMIT_def SIZE_MOD_def)
  have len: "sz_add (sz_sub (mlength ?m) ?i) (amount_discarded p) = mlength ?m - ?i"
    using assms(2,3) inv(2) by (simp add: sz_sub_exact sz_add_exact)
  have step: "entity_step net ms p = map_option (\<lambda>r. (ms, r)) (parser_parse_entity_using_clen p)"
    using assms(4) by (simp add: entity_step_def)
  show ?thesis
  proof (cases "mlength ?m - ?i < ?n")
    case True
    then have "entity_step net ms p = Some (ms, p\<lparr>entity_length := mlength ?m - ?i\<rparr>, PARSE_INCOMPLETE)"
      using step len by (simp add: parser_parse_entity_using_clen_def)
    then show ?thesis
      using True by (simp add: parse_entity_stop)
  next
    case False
    then have ix: "sz_sub (sz_add ?i ?n) (amount_discarded p) = ?i + ?n" "?i + ?n \<le> mlength ?m"
      using assms(2,3) inv(2) by (simp_all add: sz_sub_exact sz_add_exact)
    obtain b where b: "(if ?n < mlength ?m - ?i then blk_write (?i + ?n) [NUL] (buf ?m) else Some (buf ?m)) = Some b"
      "take ?n (drop ?i (take (mlength ?m) (case b of None \<Rightarrow> [] | Some bs \<Rightarrow> bs))) = take ?n (drop ?i (contents ?m))"
    proof (cases "?n < mlength ?m - ?i")
      case True
      then obtain bs where bs: "buf ?m = Some bs" "mlength ?m < length bs"
        using inv(1) by (auto simp: mb_inv_def split: option.splits)
      let ?b = "take (?i + ?n) bs @ NUL # drop (?i + ?n + 1) bs"
      have "take ?n (drop ?i (take (mlength ?m) ?b)) = take ?n (drop ?i (take (mlength ?m) bs))"
        using True bs unfolding take_drop by simp
      then show ?thesis
        using that [of "Some ?b"] True bs by (simp add: blk_write_def contents_def)
    next
      case False
      then show ?thesis
        using that [of "buf ?m"] by (auto simp: contents_def split: option.splits)
    qed
    have "entity_step net ms p = Some (ms, p\<lparr>msg := ?m\<lparr>buf := b\<rparr>, entity_length := ?n,
        entity_buf := Some ?i, position := POS_COMPLETE\<rparr>, PARSE_SUCCESS)"
      using False b(1) len unfolding step parser_parse_entity_using_clen_def ix(1) Let_def by (simp split: if_splits)
    then show ?thesis
      using False b(2) by (auto simp: parse_entity_stop entity_text_def contents_def split: option.splits)
  qed
qed

end
