(* ===== verification/Sock.thy ===== *)
theory Sock
  imports HttpMatch
begin

text \<open>
  Reading from and writing to a connected socket, \<^verbatim>\<open>compa/src/genlib/net/sock.cpp\<close>. What the operating system does is
  an argument: the record \<open>os\<close> lists the outcomes of the coming calls of \<open>select\<close>, \<open>recv\<close> and \<open>send\<close> (with
  TLS: of \<open>SSL_read\<close> and \<open>SSL_write\<close>) and the seconds each transfer takes, and collects the bytes that were sent. Past
  the end of its list \<open>select\<close> reports a ready socket, \<open>recv\<close> the end of the stream, and \<open>send\<close> takes everything.
\<close>

section \<open>The operating system\<close>

definition UPNP_E_SUCCESS :: int where "UPNP_E_SUCCESS = 0"
definition UPNP_E_INVALID_PARAM :: int where "UPNP_E_INVALID_PARAM = -101"
definition UPNP_E_SOCKET_WRITE :: int where "UPNP_E_SOCKET_WRITE = -201"
definition UPNP_E_SOCKET_CONNECT :: int where "UPNP_E_SOCKET_CONNECT = -204"
definition UPNP_E_TIMEDOUT :: int where "UPNP_E_TIMEDOUT = -207"
definition UPNP_E_SOCKET_ERROR :: int where "UPNP_E_SOCKET_ERROR = -208"

lemmas sock_errors = UPNP_E_SUCCESS_def UPNP_E_INVALID_PARAM_def UPNP_E_SOCKET_WRITE_def UPNP_E_SOCKET_CONNECT_def
  UPNP_E_TIMEDOUT_def UPNP_E_SOCKET_ERROR_def

datatype select_result = Sel_ready | Sel_timeout | Sel_interrupted | Sel_error

text \<open>A segment that does not fit into the buffer is given out in parts; \<open>None\<close> is a failing call.\<close>

record os =
  selects :: "select_result list"
  segments :: "string option list"
  send_counts :: "nat option list"
  elapsed :: "int list"
  sent :: string

fun recv :: "nat \<Rightarrow> string option list \<Rightarrow> string option \<times> string option list" where
  "recv n [] = (Some [], [])"
| "recv n (None # r) = (None, r)"
| "recv n (Some d # r) = (Some (take n d), if length d \<le> n then r else Some (drop n d) # r)"

definition next_elapsed :: "os \<Rightarrow> int \<times> os" where
  "next_elapsed w = (case elapsed w of [] \<Rightarrow> (0, w) | t # ts \<Rightarrow> (t, w\<lparr>elapsed := ts\<rparr>))"

section \<open>Sockets\<close>

record SOCKINFO =
  sock_fd :: int
  foreign_sockaddr :: sockaddr
  ssl :: bool

definition INVALID_SOCKET :: int where "INVALID_SOCKET = -1"

definition g_response_timeout :: int where "g_response_timeout = 30"

text \<open>A null \<open>info\<close> is \<open>None\<close>.\<close>

definition sock_init :: "SOCKINFO option \<Rightarrow> int \<Rightarrow> SOCKINFO option \<times> int" where
  "sock_init info sockfd =
     (case info of
        None \<Rightarrow> (None, UPNP_E_INVALID_PARAM)
      | Some i \<Rightarrow> (Some \<lparr>sock_fd = sockfd, foreign_sockaddr = zero_sockaddr, ssl = False\<rparr>, UPNP_E_SUCCESS))"

definition sock_init_with_ip :: "SOCKINFO option \<Rightarrow> int \<Rightarrow> sockaddr option \<Rightarrow> SOCKINFO option \<times> int" where
  "sock_init_with_ip info sockfd addr =
     (case addr of
        None \<Rightarrow> (info, UPNP_E_INVALID_PARAM)
      | Some a \<Rightarrow>
          (case sock_init info sockfd of
             (i, ret) \<Rightarrow>
               if ret \<noteq> UPNP_E_SUCCESS then (i, ret)
               else (map_option (\<lambda>x. x\<lparr>foreign_sockaddr := a\<rparr>) i, UPNP_E_SUCCESS)))"

datatype shutdown_result = Shut_ok | Shut_not_connected | Shut_failed

definition sock_close :: "bool \<Rightarrow> int \<Rightarrow> int" where
  "sock_close close_ok sock = (if sock = INVALID_SOCKET then -1 else if close_ok then 0 else -1)"

definition sock_destroy :: "shutdown_result \<Rightarrow> bool \<Rightarrow> SOCKINFO \<Rightarrow> SOCKINFO \<times> int" where
  "sock_destroy shut close_ok info =
     (if sock_fd info \<noteq> INVALID_SOCKET then
        (let ret1 = (if shut = Shut_failed then UPNP_E_SOCKET_ERROR else UPNP_E_SUCCESS);
             ret2 = (if sock_close close_ok (sock_fd info) \<noteq> 0 then UPNP_E_SOCKET_ERROR else ret1)
         in (info\<lparr>ssl := False, sock_fd := INVALID_SOCKET\<rparr>, ret2))
      else (info, UPNP_E_SUCCESS))"

section \<open>Transfers\<close>

text \<open>The loop around \<open>select\<close>: an interrupted call is repeated. The result is an error code to return, or \<open>None\<close>.\<close>

fun select_loop :: "select_result list \<Rightarrow> select_result list \<times> int option" where
  "select_loop [] = ([], None)"
| "select_loop (Sel_ready # r) = (r, None)"
| "select_loop (Sel_timeout # r) = (r, Some UPNP_E_TIMEDOUT)"
| "select_loop (Sel_interrupted # r) = select_loop r"
| "select_loop (Sel_error # r) = (r, Some UPNP_E_SOCKET_ERROR)"

text \<open>The time used is subtracted from the caller's timeout, if there is one and it is not 0.\<close>

definition charge :: "os \<Rightarrow> int option \<Rightarrow> os \<times> int option" where
  "charge w timeoutSecs =
     (case next_elapsed w of
        (t, w1) \<Rightarrow> (w1, map_option (\<lambda>s. if s \<noteq> 0 then s - t else s) timeoutSecs))"

text \<open>
  The result of a read: the state of the system, the timeout, the bytes stored in the buffer, the return
  value. The functions for plain and for TLS sockets have the same text up to the system call.
\<close>

definition sock_read_unprotected ::
    "os \<Rightarrow> SOCKINFO option \<Rightarrow> bool \<Rightarrow> nat \<Rightarrow> int option \<Rightarrow> os \<times> int option \<times> string \<times> int" where
  "sock_read_unprotected w info have_buf bufsize timeoutSecs =
     (if info = None \<or> \<not> have_buf then (w, timeoutSecs, [], UPNP_E_SOCKET_ERROR)
      else if bufsize = 0 then (w, timeoutSecs, [], 0)
      else
        (case select_loop (selects w) of
           (sel, Some err) \<Rightarrow> (w\<lparr>selects := sel\<rparr>, timeoutSecs, [], err)
         | (sel, None) \<Rightarrow>
             (case recv bufsize (segments w) of
                (None, segs) \<Rightarrow> (w\<lparr>selects := sel, segments := segs\<rparr>, timeoutSecs, [], UPNP_E_SOCKET_ERROR)
              | (Some d, segs) \<Rightarrow>
                  (case charge (w\<lparr>selects := sel, segments := segs\<rparr>) timeoutSecs of
                     (w1, timeoutSecs1) \<Rightarrow> (w1, timeoutSecs1, d, to_int (int (length d)))))))"

definition sock_read_ssl ::
    "os \<Rightarrow> SOCKINFO option \<Rightarrow> bool \<Rightarrow> nat \<Rightarrow> int option \<Rightarrow> os \<times> int option \<times> string \<times> int" where
  "sock_read_ssl = sock_read_unprotected"

definition sock_read ::
    "os \<Rightarrow> SOCKINFO option \<Rightarrow> bool \<Rightarrow> nat \<Rightarrow> int option \<Rightarrow> os \<times> int option \<times> string \<times> int" where
  "sock_read w info have_buf bufsize timeoutSecs =
     (case info of
        None \<Rightarrow> (w, timeoutSecs, [], UPNP_E_SOCKET_ERROR)
      | Some i \<Rightarrow>
          if ssl i then sock_read_ssl w info have_buf bufsize timeoutSecs
          else sock_read_unprotected w info have_buf bufsize timeoutSecs)"

text \<open>
  The loop around \<open>send\<close>: it goes on until all bytes are taken, also when a call takes none. \<open>False\<close> is a call that
  returned -1.
\<close>

fun send_loop :: "nat option list \<Rightarrow> string \<Rightarrow> nat option list \<times> string \<times> bool" where
  "send_loop cs [] = (cs, [], True)"
| "send_loop [] bs = ([], bs, True)"
| "send_loop (None # cs) bs = (cs, [], False)"
| "send_loop (Some k # cs) bs =
     (case send_loop cs (drop k bs) of (cs1, out, ok) \<Rightarrow> (cs1, take k bs @ out, ok))"

definition sock_write_unprotected ::
    "os \<Rightarrow> SOCKINFO option \<Rightarrow> string option \<Rightarrow> nat \<Rightarrow> int option \<Rightarrow> os \<times> int option \<times> int" where
  "sock_write_unprotected w info buffer bufsize timeoutSecs =
     (if info = None \<or> buffer = None then (w, timeoutSecs, UPNP_E_SOCKET_ERROR)
      else if bufsize = 0 then (w, timeoutSecs, 0)
      else
        (case select_loop (selects w) of
           (sel, Some err) \<Rightarrow> (w\<lparr>selects := sel\<rparr>, timeoutSecs, err)
         | (sel, None) \<Rightarrow>
             (case send_loop (send_counts w) (take bufsize (the buffer)) of
                (cs, out, ok) \<Rightarrow>
                  let w1 = w\<lparr>selects := sel, send_counts := cs, sent := sent w @ out\<rparr> in
                  if \<not> ok then (w1, timeoutSecs, UPNP_E_SOCKET_WRITE)
                  else (case charge w1 timeoutSecs of (w2, t) \<Rightarrow> (w2, t, to_int (int bufsize))))))"

definition sock_write_ssl ::
    "os \<Rightarrow> SOCKINFO option \<Rightarrow> string option \<Rightarrow> nat \<Rightarrow> int option \<Rightarrow> os \<times> int option \<times> int" where
  "sock_write_ssl = sock_write_unprotected"

definition sock_write ::
    "os \<Rightarrow> SOCKINFO option \<Rightarrow> string option \<Rightarrow> nat \<Rightarrow> int option \<Rightarrow> os \<times> int option \<times> int" where
  "sock_write w info buffer bufsize timeoutSecs =
     (case info of
        None \<Rightarrow> (w, timeoutSecs, UPNP_E_SOCKET_ERROR)
      | Some i \<Rightarrow>
          if ssl i then sock_write_ssl w info buffer bufsize timeoutSecs
          else sock_write_unprotected w info buffer bufsize timeoutSecs)"

section \<open>What a transfer does\<close>

lemma select_loop_codes:
  "select_loop sel = (sel1, r) \<Longrightarrow> r \<in> {None, Some UPNP_E_TIMEDOUT, Some UPNP_E_SOCKET_ERROR}"
  by (induction sel rule: select_loop.induct) auto

lemma send_loop_prefix:
  "send_loop cs bs = (cs1, out, ok) \<Longrightarrow> \<exists>rest. bs = out @ rest \<and> (ok \<longrightarrow> rest = [])"
proof (induction cs bs arbitrary: cs1 out ok rule: send_loop.induct)
  case (4 k cs v vs)
  obtain cs2 out2 ok2 where r: "send_loop cs (drop k (v # vs)) = (cs2, out2, ok2)"
    by (metis prod_cases3)
  then obtain rest where "drop k (v # vs) = out2 @ rest" "ok2 \<longrightarrow> rest = []"
    using 4(1) by blast
  then show ?case
    using 4(2) r append_take_drop_id [of k "v # vs"] by (metis append.assoc case_prod_conv send_loop.simps(4) Pair_inject)
qed auto

text \<open>
  A successful write sends exactly the bytes of the buffer, a failing one a prefix of them. What is on the
  wire never depends on how the system splits the transfer.
\<close>

lemma sock_write_sends:
  assumes "sock_write w (Some i) (Some bs) (length bs) t = (w1, t1, rc)" and "length bs < 2 ^ 31"
  shows "\<exists>out rest. sent w1 = sent w @ out \<and> bs = out @ rest \<and> (0 \<le> rc \<longrightarrow> rc = int (length bs) \<and> rest = []) \<and>
    rc \<in> {int (length bs), UPNP_E_TIMEDOUT, UPNP_E_SOCKET_ERROR, UPNP_E_SOCKET_WRITE}"
proof -
  have e: "sock_write_unprotected w (Some i) (Some bs) (length bs) t = (w1, t1, rc)"
    using assms(1) by (auto simp: sock_write_def sock_write_ssl_def split: if_splits)
  show ?thesis
  proof (cases "bs = []")
    case True
    then show ?thesis
      using e by (simp add: sock_write_unprotected_def)
  next
    case False
    obtain sel r where s: "select_loop (selects w) = (sel, r)"
      by (metis surj_pair)
    obtain cs out ok where o: "send_loop (send_counts w) bs = (cs, out, ok)"
      by (metis prod_cases3)
    obtain rest where rest: "bs = out @ rest" "ok \<longrightarrow> rest = []"
      using send_loop_prefix [OF o] by blast
    have l: "to_int (int (length bs)) = int (length bs)"
      using assms(2) by (simp add: to_int_def)
    have "sent (fst (charge w0 t0)) = sent w0" for w0 t0
      by (auto simp: charge_def next_elapsed_def split: list.splits)
    then have c: "charge w0 t0 = (w2, t2) \<Longrightarrow> sent w2 = sent w0" for w0 t0 w2 t2
      by (metis fst_conv)
    show ?thesis
    proof (cases r)
      case (Some err)
      then show ?thesis
        using e s False select_loop_codes [OF s] by (auto simp: sock_write_unprotected_def sock_errors)
    next
      case None
      obtain w2 t2 where c2: "charge (w\<lparr>selects := sel, send_counts := cs, sent := sent w @ out\<rparr>) t = (w2, t2)"
        by (metis surj_pair)
      have "rc = (if ok then int (length bs) else UPNP_E_SOCKET_WRITE) \<and> sent w1 = sent w @ out"
        using e s o False l None c2 c [OF c2] by (auto simp: sock_write_unprotected_def Let_def split: if_splits)
      then show ?thesis
        using rest by (auto simp: sock_errors split: if_splits)
    qed
  qed
qed

text \<open>A read gives the next bytes of the stream, at most as many as the buffer holds.\<close>

definition stream :: "os \<Rightarrow> string" where
  "stream w = concat (map (\<lambda>s. case s of None \<Rightarrow> [] | Some d \<Rightarrow> d) (segments w))"

lemma recv_stream:
  "recv n ss = (Some d, ss1) \<Longrightarrow>
     concat (map (\<lambda>s. case s of None \<Rightarrow> [] | Some d \<Rightarrow> d) ss) =
       d @ concat (map (\<lambda>s. case s of None \<Rightarrow> [] | Some d \<Rightarrow> d) ss1) \<and> length d \<le> n"
  by (induction n ss rule: recv.induct) auto

lemma sock_read_stream:
  assumes "sock_read w (Some i) True n t = (w1, t1, d, rc)" and "n < 2 ^ 31" and "0 \<le> rc"
  shows "stream w = d @ stream w1 \<and> rc = int (length d) \<and> length d \<le> n"
proof -
  have e: "sock_read_unprotected w (Some i) True n t = (w1, t1, d, rc)"
    using assms(1) by (auto simp: sock_read_def sock_read_ssl_def split: if_splits)
  have c: "charge w0 t0 = (w2, t2) \<Longrightarrow> segments w2 = segments w0" for w0 t0 w2 t2
    by (auto simp: charge_def next_elapsed_def split: list.splits)
  obtain sel r where s: "select_loop (selects w) = (sel, r)"
    by (metis surj_pair)
  obtain dd ss where rv: "recv n (segments w) = (dd, ss)"
    by (metis surj_pair)
  have l: "to_int (int k) = int k" if "k \<le> n" for k
    using assms(2) that by (simp add: to_int_def)
  show ?thesis
    using e s rv assms(3) select_loop_codes [OF s] recv_stream [of n "segments w" d ss] c l
    by (auto simp: sock_read_unprotected_def stream_def sock_errors split: if_splits option.splits prod.splits)
qed

end
