(* ===== verification/HttpMessage.thy ===== *)
theory HttpMessage
  imports HttpEntity Sock
begin

text \<open>
  The message maker of \<^verbatim>\<open>compa/src/genlib/net/http/httpreadwrite.cpp\<close> and the table of status texts of
  \<^verbatim>\<open>statcodes.cpp\<close>. A message is described by a format string, one letter per part, with a list of typed
  arguments for the variadic ones. Date, system name, version and content language come from the record \<open>msg_env\<close>. \<open>None\<close> is a
  use of a null pointer or a missing argument; assertions are taken as compiled out.
\<close>

section \<open>Numbers as text\<close>

definition digit_char :: "nat \<Rightarrow> char" where
  "digit_char d = ''0123456789abcdef'' ! d"

fun num_text :: "nat \<Rightarrow> nat \<Rightarrow> string" where
  "num_text b n =
     (if b < 2 \<or> n < b then [digit_char n] else num_text b (n div b) @ [digit_char (n mod b)])"

declare num_text.simps [simp del]

text \<open>The conversions \<open>%d\<close> (of an \<open>int\<close> or \<open>int64_t\<close>), \<open>%lu\<close> and \<open>%lx\<close>.\<close>

definition dec_text :: "int \<Rightarrow> string" where
  "dec_text n = (if n < 0 then ''-'' @ num_text 10 (nat (- n)) else num_text 10 (nat n))"

definition hex_text :: "nat \<Rightarrow> string" where
  "hex_text n = num_text 16 n"

lemma digit_char_val: "d < 16 \<Longrightarrow> digit_val (digit_char d) = d"
proof -
  have "\<forall>d<16. digit_val (digit_char d) = d"
    by code_simp
  then show "d < 16 \<Longrightarrow> digit_val (digit_char d) = d"
    by simp
qed

lemma digit_char_mod: "0 < b \<Longrightarrow> b \<le> 16 \<Longrightarrow> digit_val (digit_char (n mod b)) = n mod b"
  using mod_less_divisor [of b n] by (intro digit_char_val) linarith

lemma num_text_digits:
  assumes "1 < b" and "b \<le> 16"
  shows "num_text b n \<noteq> [] \<and> (\<forall>x\<in>set (num_text b n). digit_val x < b)"
  using assms
proof (induction b n rule: num_text.induct)
  case (1 b n)
  then show ?case
    by (subst (1 2) num_text.simps) (auto simp: digit_char_val digit_char_mod)
qed

lemma digits_val_snoc: "digits_val b (ds @ [c]) = digits_val b ds * b + digit_val c"
  by (simp add: digits_val_def)

lemma digits_val_num_text:
  assumes "1 < b" and "b \<le> 16"
  shows "digits_val b (num_text b n) = n"
  using assms
proof (induction b n rule: num_text.induct)
  case (1 b n)
  then show ?case
    by (subst num_text.simps) (auto simp: digits_val_snoc digit_char_mod, simp add: digits_val_def digit_char_val)
qed

lemma length_num_text: "1 < b \<Longrightarrow> n < b ^ Suc k \<Longrightarrow> length (num_text b n) \<le> Suc k"
proof (induction k arbitrary: n)
  case 0
  then show ?case
    by (subst num_text.simps) simp
next
  case (Suc k)
  have "n div b < b ^ Suc k"
    using Suc.prems by (simp add: less_mult_imp_div_less mult.commute)
  then show ?case
    using Suc by (subst num_text.simps) auto
qed

section \<open>Status texts\<close>

text \<open>The texts of a table are one string with a NUL after each; \<open>init_table\<close> finds their beginnings.\<close>

definition encoded :: "string list \<Rightarrow> string" where
  "encoded ts = concat (map (\<lambda>t. t @ [NUL]) ts)"

definition Http1xxStr :: string where
  "Http1xxStr = encoded [''Continue'', ''Switching Protocols'']"

definition Http2xxStr :: string where
  "Http2xxStr = encoded [''OK'', ''Created'', ''Accepted'', ''Non-Authoratative Information'', ''No Content'',
     ''Reset Content'', ''Partial Content'']"

definition Http3xxStr :: string where
  "Http3xxStr = encoded [''Multiple Choices'', ''Moved Permanently'', ''Found'', ''See Other'', ''Not Modified'',
     ''Use Proxy'', [], ''Temporary Redirect'']"

definition Http4xxStr :: string where
  "Http4xxStr = encoded [''Bad Request'', ''Unauthorized'', ''Payment Required'', ''Forbidden'', ''Not Found'',
     ''Method Not Allowed'', ''Not Acceptable'', ''Proxy Authentication Required'', ''Request Timeout'', ''Conflict'',
     ''Gone'', ''Length Required'', ''Precondition Failed'', ''Request Entity Too Large'', ''Request-URI Too Long'',
     ''Unsupported Media Type'', ''Requested Range Not Satisfiable'', ''Expectation Failed'']"

definition Http5xxStr :: string where
  "Http5xxStr = encoded [''Internal Server Error'', ''Not Implemented'', ''Bad Gateway'', ''Service Unavailable'',
     ''Gateway Timeout'', ''HTTP Version Not Supported'', ''Variant Also Negotiates'', ''Insufficient Storage'',
     ''Loop Detected'', [], ''Not Extended'']"

fun init_table :: "string \<Rightarrow> nat \<Rightarrow> string list" where
  "init_table s 0 = []"
| "init_table s (Suc n) = c_str s # init_table (drop (length (c_str s) + 1) s) n"

definition http_get_code_text :: "int \<Rightarrow> string option" where
  "http_get_code_text statusCode =
     (if statusCode < 100 \<or> 600 \<le> statusCode then None
      else
        (let index = nat (statusCode mod 100); table_num = statusCode div 100 in
         if table_num = 1 \<and> index < 2 then Some (init_table Http1xxStr 2 ! index)
         else if table_num = 2 \<and> index < 7 then Some (init_table Http2xxStr 7 ! index)
         else if table_num = 3 \<and> index < 8 then Some (init_table Http3xxStr 8 ! index)
         else if table_num = 4 \<and> index < 18 then Some (init_table Http4xxStr 18 ! index)
         else if table_num = 5 \<and> index < 11 then Some (init_table Http5xxStr 11 ! index)
         else None))"

section \<open>URLs of requests\<close>

text \<open>A fixed URL: the parts of the URL, and the text of its path, which may be the constant \<open>/\<close>.\<close>

record fixed_url =
  furl :: uri_type
  fpath :: string

definition http_FixUrl :: "string \<Rightarrow> uri_type \<Rightarrow> fixed_url \<times> int" where
  "http_FixUrl mem url =
     (let f = \<lparr>furl = url, fpath = token_text mem (pathquery url)\<rparr> in
      if token_string_casecmp mem (scheme url) ''http'' \<noteq> 0 \<and> token_string_casecmp mem (scheme url) ''https'' \<noteq> 0
      then (f, UPNP_E_INVALID_URL)
      else if tsize (htext (hostport url)) = 0 then (f, UPNP_E_INVALID_URL)
      else (if tsize (pathquery url) = 0 then f\<lparr>fpath := ''/''\<rparr> else f, UPNP_E_SUCCESS))"

definition http_FixStrUrl :: "net_env \<Rightarrow> string \<Rightarrow> nat \<Rightarrow> (fixed_url option \<times> int) option" where
  "http_FixStrUrl net mem len =
     (case parse_uri net mem len of
        None \<Rightarrow> None
      | Some (Inl e) \<Rightarrow> Some (None, UPNP_E_INVALID_URL)
      | Some (Inr url) \<Rightarrow> (case http_FixUrl mem url of (f, rc) \<Rightarrow> Some (Some f, rc)))"

text \<open>The host: what stands between the first \<open>//\<close> and the next \<open>/\<close>.\<close>

definition get_hoststr :: "string \<Rightarrow> string option" where
  "get_hoststr url_str =
     (case strstr url_str ''//'' of
        None \<Rightarrow> None
      | Some i \<Rightarrow> Some (takeWhile (\<lambda>c. c \<noteq> CHR ''/'') (drop (i + 2) url_str)))"

section \<open>Dates\<close>

record tm =
  tm_wday :: nat
  tm_mday :: int
  tm_mon :: nat
  tm_year :: int
  tm_hour :: int
  tm_min :: int
  tm_sec :: int

text \<open>
  \<open>gmtime_r\<close>: the proleptic Gregorian calendar in periods of 400 years that begin on the first of March; a year that does not fit
  into an \<open>int\<close> is an error.
\<close>

definition gmtime_r :: "int \<Rightarrow> tm option" where
  "gmtime_r t =
     (let days = t div 86400; secs = t mod 86400;
          z = days + 719468; era = z div 146097; doe = z mod 146097;
          yoe = (doe - doe div 1460 + doe div 36524 - doe div 146096) div 365;
          doy = doe - (365 * yoe + yoe div 4 - yoe div 100);
          mp = (5 * doy + 2) div 153;
          month = (if mp < 10 then mp + 3 else mp - 9);
          year = yoe + era * 400 + (if month \<le> 2 then 1 else 0)
      in if - (2 ^ 31) \<le> year - 1900 \<and> year - 1900 < 2 ^ 31 then
           Some \<lparr>tm_wday = nat ((days + 4) mod 7), tm_mday = doy - (153 * mp + 2) div 5 + 1, tm_mon = nat (month - 1),
                 tm_year = year - 1900, tm_hour = secs div 3600, tm_min = (secs div 60) mod 60, tm_sec = secs mod 60\<rparr>
         else None)"

definition two_digits :: "int \<Rightarrow> string" where
  "two_digits n = (if 0 \<le> n \<and> n < 10 then ''0'' @ dec_text n else dec_text n)"

definition date_text :: "tm \<Rightarrow> string" where
  "date_text d =
     [''Sun'', ''Mon'', ''Tue'', ''Wed'', ''Thu'', ''Fri'', ''Sat''] ! tm_wday d @ '', '' @ two_digits (tm_mday d) @ '' '' @
     [''Jan'', ''Feb'', ''Mar'', ''Apr'', ''May'', ''Jun'', ''Jul'', ''Aug'', ''Sep'', ''Oct'', ''Nov'', ''Dec''] ! tm_mon d @
     '' '' @ dec_text (tm_year d + 1900) @ '' '' @ two_digits (tm_hour d) @ '':'' @ two_digits (tm_min d) @ '':'' @
     two_digits (tm_sec d) @ '' GMT''"

section \<open>Making a message\<close>

record SendInstruction =
  IsVirtualFile :: bool
  IsChunkActive :: bool
  IsRangeActive :: bool
  RangeHeader :: string
  AcceptLanguageHeader :: string
  RangeOffset :: int
  ReadSendSize :: int

text \<open>The seconds since 1970, the answer of \<open>uname\<close>, the version string of the build, the configured content language.\<close>

record msg_env =
  curr_time :: int
  uname :: "(string \<times> string) option"
  version_string :: string
  web_server_content_language :: string

definition get_sdk_info :: "msg_env \<Rightarrow> string" where
  "get_sdk_info env =
     take 199
       (case uname env of
          None \<Rightarrow> ''Unspecified, UPnP/1.0, Portable SDK for UPnP devices/'' @ version_string env @ [CR, LF]
        | Some (sysname, release) \<Rightarrow>
            sysname @ ''/'' @ release @ '', UPnP/1.0, Portable SDK for UPnP devices/'' @ version_string env @ [CR, LF])"

text \<open>A string pointer (maybe null), a pointer with a length, numbers, a point in time, an instruction, a URL in memory, extra headers.\<close>

datatype msg_arg =
    AStr "string option" | ABuf "string option" nat | AInt int | AOff int | ATime int
  | AInstr SendInstruction | AUri string uri_type | AExtra "string option list option"

text \<open>
  What one letter does: append some pieces, make up to two nested calls with their own format and arguments, stop with an
  error code, or something undefined.
\<close>

datatype msg_step = Put "string list" | Call string "msg_arg list" string "msg_arg list" | Fail int | Undefined

definition one_call :: "string \<Rightarrow> msg_arg list \<Rightarrow> msg_step" where
  "one_call f as = Call f as [] []"

definition str_piece :: "string option \<Rightarrow> (string \<Rightarrow> msg_step) \<Rightarrow> msg_step" where
  "str_piece s k = (case s of None \<Rightarrow> Undefined | Some t \<Rightarrow> k (c_str t))"

definition date_step :: "string \<Rightarrow> string \<Rightarrow> int \<Rightarrow> msg_step" where
  "date_step start_str end_str t =
     (case gmtime_r t of None \<Rightarrow> Fail UPNP_E_OUTOF_MEMORY | Some d \<Rightarrow> Put [start_str @ date_text d @ end_str])"

definition extra_pieces :: "string option list option \<Rightarrow> string list" where
  "extra_pieces head =
     (case head of
        None \<Rightarrow> []
      | Some es \<Rightarrow> concat (map (\<lambda>e. case e of None \<Rightarrow> [] | Some resp \<Rightarrow> [c_str resp, [CR, LF]]) es))"

text \<open>The letters without arguments.\<close>

definition plain_letter :: "msg_env \<Rightarrow> int \<Rightarrow> int \<Rightarrow> char \<Rightarrow> msg_step option" where
  "plain_letter env major minor c =
     (if c = CHR ''K'' then Some (Put [''TRANSFER-ENCODING: chunked'' @ [CR, LF]])
      else if c = CHR ''c'' then Some (Put [[CR, LF]])
      else if c = CHR ''D'' then Some (date_step ''DATE: '' [CR, LF] (curr_time env))
      else if c = CHR ''C'' then
        Some (Put (if 1 < major \<or> major = 1 \<and> minor = 1 then [''CONNECTION: close'' @ [CR, LF]] else []))
      else if c = CHR ''S'' then Some (one_call ''ss'' [AStr (Some ''SERVER: ''), AStr (Some (get_sdk_info env))])
      else if c = CHR ''U'' then Some (one_call ''ss'' [AStr (Some ''USER-AGENT: ''), AStr (Some (get_sdk_info env))])
      else None)"

definition start_line :: "int \<Rightarrow> int \<Rightarrow> int \<Rightarrow> string" where
  "start_line major minor code =
     ''HTTP/'' @ dec_text major @ ''.'' @ dec_text minor @ '' '' @ dec_text code @ '' ''"

definition body_text :: "int \<Rightarrow> string \<Rightarrow> string" where
  "body_text code text = ''<html><body><h1>'' @ dec_text code @ '' '' @ text @ ''</h1></body></html>''"

text \<open>The letters with arguments: what to do, and the remaining arguments.\<close>

fun letter_args :: "msg_env \<Rightarrow> int \<Rightarrow> int \<Rightarrow> char \<Rightarrow> msg_arg list \<Rightarrow> msg_step \<times> msg_arg list" where
  "letter_args env major minor c (AStr s # as) =
     (if c = CHR ''s'' then (str_piece s (\<lambda>t. Put [t]), as)
      else if c = CHR ''X'' then (str_piece s (\<lambda>t. Put [''X-User-Agent: '', t]), as)
      else if c = CHR ''T'' then (one_call ''ssc'' [AStr (Some ''CONTENT-TYPE: ''), AStr s], as)
      else (Undefined, as))"
| "letter_args env major minor c (ABuf b n # as) =
     (if c = CHR ''b'' then
        (case b of None \<Rightarrow> Undefined | Some t \<Rightarrow> if length t < n then Undefined else Put [take n t], as)
      else (Undefined, as))"
| "letter_args env major minor c (AOff n # as) =
     (if c = CHR ''h'' then (Put [dec_text n], as)
      else if c = CHR ''N'' then
        (Call ''shc'' [AStr (Some ''CONTENT-LENGTH: ''), AOff n] ''sc'' [AStr (Some ''Accept-Ranges: bytes'')], as)
      else (Undefined, as))"
| "letter_args env major minor c (ATime t # as) =
     (if c = CHR ''t'' then (date_step [] [] t, as) else (Undefined, as))"
| "letter_args env major minor c (AInstr i # as) =
     (if c = CHR ''G'' then (Put [c_str (RangeHeader i)], as)
      else if c = CHR ''L'' then
        (if c_str (AcceptLanguageHeader i) \<noteq> [] \<and> web_server_content_language env \<noteq> []
         then one_call ''ssc'' [AStr (Some ''CONTENT-LANGUAGE: ''), AStr (Some (web_server_content_language env))]
         else Put [], as)
      else (Undefined, as))"
| "letter_args env major minor c (AExtra h # as) =
     (if c = CHR ''E'' then (Put (extra_pieces h), as) else (Undefined, as))"
| "letter_args env major minor c (AInt n # as) =
     (if c = CHR ''d'' then (Put [num_text 10 (nat (n mod 2 ^ 64))], as)
      else if c = CHR ''R'' then
        (one_call ''ssc'' [AStr (Some (start_line major minor n)), AStr (http_get_code_text n)], as)
      else if c = CHR ''B'' then
        (case http_get_code_text n of
           None \<Rightarrow> Undefined
         | Some t \<Rightarrow>
             let tempbuf = body_text n t in
             one_call ''NTcs'' [AOff (int (length tempbuf)), AStr (Some ''text/html''), AStr (Some tempbuf)], as)
      else if c = CHR ''Q'' then
        (case as of
           ABuf url num # as1 \<Rightarrow>
             (one_call ''ssbsdsdc''
                [AStr (method_to_str n), AStr (Some '' ''), ABuf url num, AStr (Some '' HTTP/''), AInt major,
                 AStr (Some ''.''), AInt minor], as1)
         | _ \<Rightarrow> (Undefined, as))
      else if c = CHR ''q'' then
        (case as of
           AUri mem u # as1 \<Rightarrow>
             (case http_FixUrl mem u of
                (f, rc) \<Rightarrow>
                  if rc \<noteq> 0 then (Fail UPNP_E_INVALID_URL, as1)
                  else
                    (one_call ''Qsbc''
                       [AInt n, ABuf (Some (fpath f)) (length (fpath f)), AStr (Some ''HOST: ''),
                        ABuf (Some (token_text mem (htext (hostport u)))) (tsize (htext (hostport u)))], as1))
         | _ \<Rightarrow> (Undefined, as))
      else (Undefined, as))"
| "letter_args env major minor c as = (Undefined, as)"

definition msg_letters :: string where
  "msg_letters = ''EsKGbcdhtDLCNSUXRBQqT''"

text \<open>A letter the format language does not have only trips the assertion.\<close>

definition msg_step :: "msg_env \<Rightarrow> int \<Rightarrow> int \<Rightarrow> char \<Rightarrow> msg_arg list \<Rightarrow> msg_step \<times> msg_arg list" where
  "msg_step env major minor c as =
     (if c \<notin> set msg_letters then (Put [], as)
      else (case plain_letter env major minor c of Some r \<Rightarrow> (r, as) | None \<Rightarrow> letter_args env major minor c as))"

text \<open>How deep the calls nest: a letter weighs more than the formats it calls.\<close>

definition letter_weight :: "char \<Rightarrow> nat" where
  "letter_weight c = (if c \<in> set ''Bq'' then 30 else if c \<in> set ''NSURQTL'' then 10 else 1)"

definition fmt_weight :: "string \<Rightarrow> nat" where
  "fmt_weight f = sum_list (map letter_weight f)"

lemma fmt_weight_simps [simp]:
  "fmt_weight [] = 0" "fmt_weight (c # f) = letter_weight c + fmt_weight f" "0 < letter_weight c"
  by (simp_all add: fmt_weight_def letter_weight_def)

lemma plain_letter_weight:
  "plain_letter env major minor c = Some (Call f1 a1 f2 a2) \<Longrightarrow> fmt_weight f1 + fmt_weight f2 < letter_weight c"
  by (auto simp: plain_letter_def one_call_def date_step_def letter_weight_def split: if_splits option.splits)

lemma letter_args_weight:
  "letter_args env major minor c as = (Call f1 a1 f2 a2, rest) \<Longrightarrow> fmt_weight f1 + fmt_weight f2 < letter_weight c"
  by (induction env major minor c as rule: letter_args.induct)
     (auto simp: one_call_def date_step_def str_piece_def letter_weight_def Let_def
        split: if_splits option.splits list.splits msg_arg.splits prod.splits)

lemma msg_step_weight:
  "msg_step env major minor c as = (Call f1 a1 f2 a2, rest) \<Longrightarrow> fmt_weight f1 + fmt_weight f2 < letter_weight c"
  using plain_letter_weight letter_args_weight by (fastforce simp: msg_step_def split: if_splits option.splits)

fun put_all :: "alloc_script \<Rightarrow> membuffer \<Rightarrow> string list \<Rightarrow> (alloc_script \<times> membuffer \<times> int) option" where
  "put_all ms b [] = Some (ms, b, 0)"
| "put_all ms b (s # ss) =
     (case membuffer_append ms b (Some s) (length s) of
        None \<Rightarrow> None
      | Some (ms1, b1, rc) \<Rightarrow> if rc \<noteq> 0 then Some (ms1, b1, rc) else put_all ms1 b1 ss)"

text \<open>On an error the buffer is destroyed; a nested failure becomes \<open>UPNP_E_OUTOF_MEMORY\<close>.\<close>

function http_MakeMessage ::
    "msg_env \<Rightarrow> alloc_script \<Rightarrow> membuffer \<Rightarrow> int \<Rightarrow> int \<Rightarrow> string \<Rightarrow> msg_arg list \<Rightarrow>
     (alloc_script \<times> membuffer \<times> int) option" where
  "http_MakeMessage env ms b major minor [] as = Some (ms, b, 0)"
| "http_MakeMessage env ms b major minor (c # fmt) as =
     (case msg_step env major minor c as of
        (Undefined, rest) \<Rightarrow> None
      | (Fail code, rest) \<Rightarrow> Some (ms, membuffer_destroy b, code)
      | (Put ss, rest) \<Rightarrow>
          (case put_all ms b ss of
             None \<Rightarrow> None
           | Some (ms1, b1, rc) \<Rightarrow>
               if rc \<noteq> 0 then Some (ms1, membuffer_destroy b1, UPNP_E_OUTOF_MEMORY)
               else http_MakeMessage env ms1 b1 major minor fmt rest)
      | (Call f1 a1 f2 a2, rest) \<Rightarrow>
          (case http_MakeMessage env ms b major minor f1 a1 of
             None \<Rightarrow> None
           | Some (ms1, b1, rc) \<Rightarrow>
               if rc \<noteq> 0 then Some (ms1, membuffer_destroy b1, UPNP_E_OUTOF_MEMORY)
               else
                 (case http_MakeMessage env ms1 b1 major minor f2 a2 of
                    None \<Rightarrow> None
                  | Some (ms2, b2, rc2) \<Rightarrow>
                      if rc2 \<noteq> 0 then Some (ms2, membuffer_destroy b2, UPNP_E_OUTOF_MEMORY)
                      else http_MakeMessage env ms2 b2 major minor fmt rest)))"
  by pat_completeness auto
termination
  by (relation "measure (\<lambda>(env, ms, b, major, minor, fmt, as). fmt_weight fmt)")
     (auto dest!: msg_step_weight [OF sym])

declare http_MakeMessage.simps(2) [simp del]

section \<open>The text of a message\<close>

text \<open>The text each letter stands for, without nesting; \<open>None\<close> when an argument does not fit or a URL cannot be used.\<close>

abbreviation crlf :: string where "crlf \<equiv> [CR, LF]"

definition header_line :: "string \<Rightarrow> string \<Rightarrow> string" where
  "header_line nm v = nm @ '': '' @ v @ crlf"

definition length_lines :: "int \<Rightarrow> string" where
  "length_lines n = header_line ''CONTENT-LENGTH'' (dec_text n) @ header_line ''Accept-Ranges'' ''bytes''"

definition request_line :: "string \<Rightarrow> string \<Rightarrow> int \<Rightarrow> int \<Rightarrow> string" where
  "request_line meth url major minor =
     meth @ '' '' @ url @ '' HTTP/'' @ num_text 10 (nat (major mod 2 ^ 64)) @ ''.'' @
     num_text 10 (nat (minor mod 2 ^ 64)) @ crlf"

definition plain_text :: "msg_env \<Rightarrow> int \<Rightarrow> int \<Rightarrow> char \<Rightarrow> string option option" where
  "plain_text env major minor c =
     (if c = CHR ''K'' then Some (Some (header_line ''TRANSFER-ENCODING'' ''chunked''))
      else if c = CHR ''c'' then Some (Some crlf)
      else if c = CHR ''D'' then Some (map_option (\<lambda>d. header_line ''DATE'' (date_text d)) (gmtime_r (curr_time env)))
      else if c = CHR ''C'' then
        Some (Some (if 1 < major \<or> major = 1 \<and> minor = 1 then header_line ''CONNECTION'' ''close'' else []))
      else if c = CHR ''S'' then Some (Some (''SERVER: '' @ c_str (get_sdk_info env)))
      else if c = CHR ''U'' then Some (Some (''USER-AGENT: '' @ c_str (get_sdk_info env)))
      else None)"

fun args_text :: "msg_env \<Rightarrow> int \<Rightarrow> int \<Rightarrow> char \<Rightarrow> msg_arg list \<Rightarrow> (string \<times> msg_arg list) option" where
  "args_text env major minor c (AStr (Some s) # as) =
     (if c = CHR ''s'' then Some (c_str s, as)
      else if c = CHR ''X'' then Some (''X-User-Agent: '' @ c_str s, as)
      else if c = CHR ''T'' then Some (header_line ''CONTENT-TYPE'' (c_str s), as) else None)"
| "args_text env major minor c (ABuf (Some s) n # as) =
     (if c = CHR ''b'' \<and> n \<le> length s then Some (take n s, as) else None)"
| "args_text env major minor c (AOff n # as) =
     (if c = CHR ''h'' then Some (dec_text n, as) else if c = CHR ''N'' then Some (length_lines n, as) else None)"
| "args_text env major minor c (ATime t # as) =
     (if c = CHR ''t'' then map_option (\<lambda>d. (date_text d, as)) (gmtime_r t) else None)"
| "args_text env major minor c (AInstr i # as) =
     (if c = CHR ''G'' then Some (c_str (RangeHeader i), as)
      else if c = CHR ''L'' then
        Some (if c_str (AcceptLanguageHeader i) \<noteq> [] \<and> web_server_content_language env \<noteq> []
              then header_line ''CONTENT-LANGUAGE'' (c_str (web_server_content_language env)) else [], as)
      else None)"
| "args_text env major minor c (AExtra h # as) =
     (if c = CHR ''E'' then Some (concat (extra_pieces h), as) else None)"
| "args_text env major minor c (AInt n # as) =
     (if c = CHR ''d'' then Some (num_text 10 (nat (n mod 2 ^ 64)), as)
      else if c = CHR ''R'' then
        map_option (\<lambda>t. (start_line major minor n @ t @ crlf, as)) (http_get_code_text n)
      else if c = CHR ''B'' then
        map_option (\<lambda>t. (length_lines (int (length (body_text n t))) @ header_line ''CONTENT-TYPE'' ''text/html'' @ crlf @
                         body_text n t, as)) (http_get_code_text n)
      else if c = CHR ''Q'' then
        (case (method_to_str n, as) of
           (Some m, ABuf (Some url) num # as1) \<Rightarrow>
             if num \<le> length url then Some (request_line m (take num url) major minor, as1) else None
         | _ \<Rightarrow> None)
      else if c = CHR ''q'' then
        (case (method_to_str n, as) of
           (Some m, AUri mem u # as1) \<Rightarrow>
             let f = fst (http_FixUrl mem u); host = token_text mem (htext (hostport u)) in
             if snd (http_FixUrl mem u) = 0 \<and> tsize (htext (hostport u)) \<le> length host
             then Some (request_line m (fpath f) major minor @ header_line ''HOST'' (take (tsize (htext (hostport u))) host), as1)
             else None
         | _ \<Rightarrow> None)
      else None)"
| "args_text env major minor c as = None"

definition letter_text :: "msg_env \<Rightarrow> int \<Rightarrow> int \<Rightarrow> char \<Rightarrow> msg_arg list \<Rightarrow> (string \<times> msg_arg list) option" where
  "letter_text env major minor c as =
     (if c \<notin> set msg_letters then Some ([], as)
      else
        (case plain_text env major minor c of
           Some t \<Rightarrow> map_option (\<lambda>u. (u, as)) t
         | None \<Rightarrow> args_text env major minor c as))"

fun message_text :: "msg_env \<Rightarrow> int \<Rightarrow> int \<Rightarrow> string \<Rightarrow> msg_arg list \<Rightarrow> string option" where
  "message_text env major minor [] as = Some []"
| "message_text env major minor (c # fmt) as =
     (case letter_text env major minor c as of
        None \<Rightarrow> None
      | Some (t, rest) \<Rightarrow> map_option (\<lambda>u. t @ u) (message_text env major minor fmt rest))"

text \<open>What one step of the maker does agrees with the text of its letter.\<close>

definition step_agrees :: "msg_env \<Rightarrow> int \<Rightarrow> int \<Rightarrow> string \<times> msg_arg list \<Rightarrow> msg_step \<times> msg_arg list \<Rightarrow> bool" where
  "step_agrees env major minor t r \<longleftrightarrow>
     (case r of
        (Put ss, rest) \<Rightarrow> t = (concat ss, rest)
      | (Call f1 a1 f2 a2, rest) \<Rightarrow>
          \<exists>t1 t2. message_text env major minor f1 a1 = Some t1 \<and> message_text env major minor f2 a2 = Some t2 \<and>
            t = (t1 @ t2, rest)
      | _ \<Rightarrow> False)"

lemma no_nul_num_text: "1 < b \<Longrightarrow> b \<le> 16 \<Longrightarrow> no_nul (num_text b n)"
  using num_text_digits [of b n] by (auto simp: digit_val_def ctype_defs)

lemma no_nul_dec_text [simp]: "no_nul (dec_text n)"
  by (simp add: dec_text_def no_nul_num_text)

lemma init_table_no_nul: "i < n \<Longrightarrow> no_nul (init_table s n ! i)"
  by (induction s n arbitrary: i rule: init_table.induct) (auto simp: nth_Cons split: nat.split)

lemma code_text_no_nul: "http_get_code_text n = Some t \<Longrightarrow> no_nul t"
  by (auto simp: http_get_code_text_def Let_def init_table_no_nul simp del: init_table.simps split: if_splits)

lemma method_no_nul: "method_to_str m = Some s \<Longrightarrow> no_nul s"
proof -
  have t: "\<forall>i<11. no_nul (name (Http_Method_Table ! i))"
    by (simp add: Http_Method_Table_def entry_def All_less_Suc numeral_eq_Suc)
  have l: "map_int_to_str m Http_Method_Table NUM_HTTP_METHODS =
      Some (case find (\<lambda>j. id (Http_Method_Table ! j) = m) [0..<11] of None \<Rightarrow> -1 | Some j \<Rightarrow> int j)"
    using map_int_to_str_loop_spec [of 11 Http_Method_Table 0 m]
    by (simp add: map_int_to_str_def NUM_HTTP_METHODS_def Http_Method_Table_def)
  show "method_to_str m = Some s \<Longrightarrow> no_nul s"
    using t by (auto simp: method_to_str_def l find_Some_iff split: option.splits if_splits)
qed

lemma plain_agrees:
  assumes "plain_text env major minor c = Some (Some t)"
  shows "\<exists>r. plain_letter env major minor c = Some r \<and> step_agrees env major minor (t, as) (r, as)"
  using assms
  by (auto simp: plain_text_def plain_letter_def step_agrees_def one_call_def date_step_def header_line_def
      letter_text_def msg_letters_def split: if_splits option.splits)

lemma plain_none: "plain_text env major minor c = None \<longleftrightarrow> plain_letter env major minor c = None"
  by (auto simp: plain_text_def plain_letter_def split: if_splits)

lemma start_line_no_nul [simp]: "no_nul (start_line major minor n)"
  by (simp add: start_line_def)

lemma body_text_no_nul: "no_nul t \<Longrightarrow> no_nul (body_text n t)"
  by (simp add: body_text_def)

lemmas fmt_simps = letter_text_def msg_letters_def plain_text_def header_line_def one_call_def str_piece_def
  date_step_def length_lines_def request_line_def

lemma body_agrees:
  assumes "http_get_code_text n = Some t"
  shows "message_text env major minor ''NTcs''
      [AOff (int (length (body_text n t))), AStr (Some ''text/html''), AStr (Some (body_text n t))] =
    Some (length_lines (int (length (body_text n t))) @ header_line ''CONTENT-TYPE'' ''text/html'' @ crlf @ body_text n t)"
  using body_text_no_nul [OF code_text_no_nul [OF assms], of n] by (simp add: letter_text_def msg_letters_def plain_text_def)

lemma request_agrees:
  assumes "method_to_str n = Some m" and "num \<le> length url"
  shows "message_text env major minor ''ssbsdsdc''
      [AStr (Some m), AStr (Some '' ''), ABuf (Some url) num, AStr (Some '' HTTP/''), AInt major, AStr (Some ''.''), AInt minor] =
    Some (request_line m (take num url) major minor)"
  using assms method_no_nul [OF assms(1)] by (simp add: fmt_simps)

lemma int_agrees:
  assumes "args_text env major minor c (AInt n # as) = Some tr"
  shows "step_agrees env major minor tr (letter_args env major minor c (AInt n # as))"
proof -
  consider "c = CHR ''d''" | "c = CHR ''R''" | "c = CHR ''B''" | "c = CHR ''Q''" | "c = CHR ''q''"
    using assms by (auto split: if_splits)
  then show ?thesis
  proof cases
    case 1
    then show ?thesis
      using assms by (auto simp: step_agrees_def)
  next
    case 2
    then show ?thesis
      using assms by (auto simp: step_agrees_def fmt_simps c_str_no_nul [OF code_text_no_nul])
  next
    case 3
    then show ?thesis
      using assms by (auto simp: step_agrees_def one_call_def Let_def body_agrees simp del: message_text.simps(2))
  next
    case 4
    then show ?thesis
      using assms
      by (auto simp: step_agrees_def one_call_def request_agrees simp del: message_text.simps(2)
        split: option.splits list.splits msg_arg.splits if_splits)
  next
    case 5
    then obtain m mem u as1 where a: "method_to_str n = Some m" "as = AUri mem u # as1"
      "snd (http_FixUrl mem u) = 0" "tsize (htext (hostport u)) \<le> length (token_text mem (htext (hostport u)))"
      "tr = (request_line m (fpath (fst (http_FixUrl mem u))) major minor @
        header_line ''HOST'' (take (tsize (htext (hostport u))) (token_text mem (htext (hostport u)))), as1)"
      using assms by (auto simp: Let_def split: option.splits list.splits msg_arg.splits if_splits)
    obtain f where f: "http_FixUrl mem u = (f, 0)"
      using a(3) by (metis prod.collapse)
    show ?thesis
      using a f 5 by (simp add: step_agrees_def one_call_def letter_text_def msg_letters_def plain_text_def header_line_def)
  qed
qed

lemma args_agrees:
  "args_text env major minor c as = Some tr \<Longrightarrow> step_agrees env major minor tr (letter_args env major minor c as)"
proof (induction env major minor c as rule: args_text.induct)
  case (7 env major minor c n as)
  then show ?case
    by (rule int_agrees)
qed (auto simp: step_agrees_def fmt_simps split: if_splits option.splits)

lemma letter_agrees:
  assumes "letter_text env major minor c as = Some tr"
  shows "step_agrees env major minor tr (msg_step env major minor c as)"
proof (cases "c \<in> set msg_letters")
  case False
  then show ?thesis
    using assms by (simp add: letter_text_def msg_step_def step_agrees_def)
next
  case True
  show ?thesis
  proof (cases "plain_text env major minor c")
    case None
    then show ?thesis
      using assms True args_agrees plain_none [of env major minor c] by (simp add: letter_text_def msg_step_def)
  next
    case (Some t)
    then obtain u where u: "t = Some u" "tr = (u, as)"
      using assms True by (auto simp: letter_text_def)
    show ?thesis
      using plain_agrees [OF Some [unfolded u(1)], of as] True u(2) by (auto simp: msg_step_def)
  qed
qed

section \<open>The maker makes this text\<close>

text \<open>
  Room for \<open>n\<close> more bytes: every append may grow the block by its size increment. \<open>made\<close> is the result of appending the
  text \<open>t\<close> with room for \<open>n\<close> bytes left: everything was appended, or there was no memory.
\<close>

definition grow :: "membuffer \<Rightarrow> nat \<Rightarrow> nat" where
  "grow m n = (size_inc m + 1) * n"

lemma grow_add: "grow m (a + b) = grow m a + grow m b"
  by (simp add: grow_def algebra_simps)

lemma grow_piece: "s \<noteq> [] \<Longrightarrow> size_inc m + length s \<le> grow m (length s)"
  by (cases s) (simp_all add: grow_def)

definition room_for :: "membuffer \<Rightarrow> nat \<Rightarrow> bool" where
  "room_for m n \<longleftrightarrow> mb_inv m \<and> 2 * (capacity m + grow m n) + size_inc m < SIZE_LIMIT"

definition made :: "alloc_script \<Rightarrow> (alloc_script \<times> membuffer \<times> int) option \<Rightarrow> string \<Rightarrow> string \<Rightarrow> nat \<Rightarrow> bool" where
  "made ms r old t n \<longleftrightarrow>
     (\<exists>ms1 b1. r = Some (ms1, b1, 0) \<and> room_for b1 n \<and> contents b1 = old @ t \<and> (ms = [] \<longrightarrow> ms1 = [])) \<or>
     ms \<noteq> [] \<and> (\<exists>ms1 b1. r = Some (ms1, b1, UPNP_E_OUTOF_MEMORY))"

lemma insert_no_failure:
  assumes "membuffer_insert [] m src n i = Some (ms1, m1, rc)"
  shows "ms1 = [] \<and> rc \<noteq> UPNP_E_OUTOF_MEMORY"
  using assms
  by (auto simp: membuffer_insert_def membuffer_set_size_def Let_def UPNP_E_OUTOF_MEMORY_def UPNP_E_OUTOF_BOUNDS_def
      split: if_splits option.splits)

lemma append_made:
  assumes "room_for m (length s + n)"
  shows "made ms (membuffer_append ms m (Some s) (length s)) (contents m) s n"
proof (cases "s = []")
  case True
  then show ?thesis
    using assms by (simp add: made_def membuffer_append_def membuffer_insert_def)
next
  case False
  have inv: "mb_inv m" and lim: "2 * (capacity m + (grow m (length s) + grow m n)) + size_inc m < SIZE_LIMIT"
    using assms by (simp_all add: room_for_def grow_add)
  have le: "mlength m \<le> capacity m"
    using inv by (auto simp: mb_inv_def)
  note g = grow_piece [OF False, of m]
  have small: "mlength m + length s + size_inc m + capacity m < SIZE_LIMIT"
    using lim le g by (simp add: distrib_left)
  obtain ms1 m1 rc where r: "membuffer_insert ms m (Some s) (length s) (mlength m) = Some (ms1, m1, rc)"
    and sz: "size_inc m1 = size_inc m" and
    ok: "rc = UPNP_E_OUTOF_MEMORY \<and> m1 = m \<or> rc = 0 \<and> mb_inv m1 \<and> contents m1 =
      take (mlength m) (contents m) @ take (length s) s @ drop (mlength m) (contents m)"
    using membuffer_insert_ok [OF inv order_refl order_refl _ small refl, of ms] False by auto
  have "capacity m1 \<le> capacity m + size_inc m + length s"
    using insert_capacity [OF inv _ r] small by simp
  then have "capacity m1 + grow m n \<le> capacity m + (grow m (length s) + grow m n)"
    using g by linarith
  then have "room_for m1 n" if "mb_inv m1"
    using that lim sz unfolding room_for_def grow_def by simp
  moreover have "length (contents m) \<le> mlength m"
    by (simp add: contents_block)
  ultimately show ?thesis
    using ok r insert_no_failure [of m "Some s" "length s" "mlength m" ms1 m1 rc]
    by (cases "ms = []") (auto simp: membuffer_append_def made_def)
qed

lemma out_of_memory_nz [simp]: "UPNP_E_OUTOF_MEMORY \<noteq> 0"
  by (simp add: UPNP_E_OUTOF_MEMORY_def)

lemma put_all_made:
  "room_for b (length (concat ss) + n) \<Longrightarrow> made ms (put_all ms b ss) (contents b) (concat ss) n"
proof (induction ss arbitrary: ms b)
  case (Cons s ss)
  have a: "made ms (membuffer_append ms b (Some s) (length s)) (contents b) s (length (concat ss) + n)"
    by (rule append_made) (use Cons.prems in \<open>simp add: add.assoc\<close>)
  show ?case
    using a [unfolded made_def]
  proof (elim disjE exE conjE)
    fix ms1 b1
    assume "membuffer_append ms b (Some s) (length s) = Some (ms1, b1, 0)" "contents b1 = contents b @ s"
      and "room_for b1 (length (concat ss) + n)" "ms = [] \<longrightarrow> ms1 = []"
    then show ?thesis
      using Cons.IH [of b1 ms1] by (auto simp: made_def)
  qed (auto simp: made_def)
qed (simp add: made_def)

lemma make_message_made:
  "message_text env major minor fmt as = Some t \<Longrightarrow> room_for b (length t + n) \<Longrightarrow>
   made ms (http_MakeMessage env ms b major minor fmt as) (contents b) t n"
proof (induction env ms b major minor fmt as arbitrary: t n rule: http_MakeMessage.induct)
  case (1 env ms b major minor as)
  then show ?case by (simp add: made_def)
next
  case (2 env ms b major minor c fmt as)
  obtain t1 rest t2 where t: "letter_text env major minor c as = Some (t1, rest)"
    "message_text env major minor fmt rest = Some t2" "t = t1 @ t2"
    using "2.prems"(1) by (auto split: option.splits)
  note unfold = http_MakeMessage.simps(2) [of env ms b major minor c fmt as]
  obtain st where st: "msg_step env major minor c as = (st, rest)" "step_agrees env major minor (t1, rest) (st, rest)"
    using letter_agrees [OF t(1)]
    by (cases "msg_step env major minor c as") (auto simp: step_agrees_def split: msg_step.splits)
  show ?case
  proof (cases st)
    case (Put ss)
    then have t1: "t1 = concat ss"
      using st(2) by (simp add: step_agrees_def)
    have "made ms (put_all ms b ss) (contents b) t1 (length t2 + n)"
      using put_all_made [of b ss "length t2 + n" ms] "2.prems"(2) t(3) t1 by (simp add: add.assoc)
    then show ?thesis
      unfolding made_def [of ms "put_all ms b ss"]
    proof (elim disjE exE conjE)
      fix ms1 b1
      assume p: "put_all ms b ss = Some (ms1, b1, 0)" "room_for b1 (length t2 + n)" "contents b1 = contents b @ t1"
        "ms = [] \<longrightarrow> ms1 = []"
      have "made ms1 (http_MakeMessage env ms1 b1 major minor fmt rest) (contents b1) t2 n"
        by (rule "2.IH"(1) [OF st(1) [symmetric] Put p(1) refl refl _ t(2) p(2)]) simp
      then show ?thesis
        using p st(1) Put t(3) by (auto simp: unfold made_def)
    qed (use st(1) Put in \<open>simp add: unfold made_def\<close>)
  next
    case (Call f1 a1 f2 a2)
    then obtain u1 u2 where u: "message_text env major minor f1 a1 = Some u1" "message_text env major minor f2 a2 = Some u2"
      "t1 = u1 @ u2"
      using st(2) by (auto simp: step_agrees_def)
    have "made ms (http_MakeMessage env ms b major minor f1 a1) (contents b) u1 (length u2 + (length t2 + n))"
      by (rule "2.IH"(2) [OF st(1) [symmetric] Call u(1)]) (use "2.prems"(2) t(3) u(3) in \<open>simp add: add.assoc\<close>)
    then show ?thesis
      unfolding made_def [of ms "http_MakeMessage env ms b major minor f1 a1"]
    proof (elim disjE exE conjE)
      fix ms1 b1
      assume p: "http_MakeMessage env ms b major minor f1 a1 = Some (ms1, b1, 0)"
        "room_for b1 (length u2 + (length t2 + n))" "contents b1 = contents b @ u1" "ms = [] \<longrightarrow> ms1 = []"
      have "made ms1 (http_MakeMessage env ms1 b1 major minor f2 a2) (contents b1) u2 (length t2 + n)"
        by (rule "2.IH"(3) [OF st(1) [symmetric] Call p(1) refl refl _ u(2) p(2)]) simp
      then show ?thesis
        unfolding made_def [of ms1 "http_MakeMessage env ms1 b1 major minor f2 a2"]
      proof (elim disjE exE conjE)
        fix ms2 b2
        assume q: "http_MakeMessage env ms1 b1 major minor f2 a2 = Some (ms2, b2, 0)"
          "room_for b2 (length t2 + n)" "contents b2 = contents b1 @ u2" "ms1 = [] \<longrightarrow> ms2 = []"
        have "made ms2 (http_MakeMessage env ms2 b2 major minor fmt rest) (contents b2) t2 n"
          by (rule "2.IH"(4) [OF st(1) [symmetric] Call p(1) refl refl _ q(1) refl refl _ t(2) q(2)]) simp_all
        then show ?thesis
          using p q st(1) Call t(3) u(3) by (auto simp: unfold made_def)
      qed (use p st(1) Call in \<open>auto simp: unfold made_def\<close>)
    qed (use st(1) Call in \<open>simp add: unfold made_def\<close>)
  qed (use st in \<open>simp_all add: step_agrees_def\<close>)
qed

lemma make_message_error:
  "http_MakeMessage env ms b major minor fmt as = Some (ms1, b1, rc) \<Longrightarrow> rc \<noteq> 0 \<Longrightarrow> contents b1 = []"
proof (induction env ms b major minor fmt as rule: http_MakeMessage.induct)
  case (2 env ms b major minor c fmt as)
  have "contents (membuffer_destroy m) = []" for m
    by (simp add: membuffer_destroy_def membuffer_init_def membuffer_initialize_def contents_def)
  then show ?case
    using 2 by (auto simp: http_MakeMessage.simps(2) split: msg_step.splits prod.splits option.splits if_splits)
qed simp

definition demo_env :: msg_env where
  "demo_env = \<lparr>curr_time = 1700000000, uname = Some (''Linux'', ''6.1''), version_string = ''1.14.18'',
     web_server_content_language = []\<rparr>"

text \<open>
  Property C28. Whatever the format and its arguments, \<open>http_MakeMessage\<close> with its nested calls appends exactly the text
  the letters stand for, stays inside its memory, and returns 0; when the allocator fails it returns
  \<open>UPNP_E_OUTOF_MEMORY\<close> and leaves an empty buffer. It never fails when the allocator does not.
\<close>

theorem http_MakeMessage_text:
  assumes "message_text env major minor fmt as = Some t" and "room_for b (length t)"
  shows "\<exists>ms1 b1 rc. http_MakeMessage env ms b major minor fmt as = Some (ms1, b1, rc) \<and>
    (rc = 0 \<and> mb_inv b1 \<and> contents b1 = contents b @ t \<or>
     rc = UPNP_E_OUTOF_MEMORY \<and> contents b1 = [] \<and> ms \<noteq> [])"
  using make_message_made [OF assms(1), of b 0 ms] assms(2) make_message_error [of env ms b major minor fmt as]
  by (auto simp: made_def room_for_def)

theorem http_MakeMessage_text_witness:
  "\<exists>ms1 b1. http_MakeMessage demo_env [] empty_membuffer 1 1 ''RCc'' [AInt 404] = Some (ms1, b1, 0) \<and>
     contents b1 = ''HTTP/1.1 404 Not Found'' @ crlf @ ''CONNECTION: close'' @ crlf @ crlf"
proof -
  have t: "message_text demo_env 1 1 ''RCc'' [AInt 404] =
      Some (''HTTP/1.1 404 Not Found'' @ crlf @ ''CONNECTION: close'' @ crlf @ crlf)"
    by code_simp
  have "room_for empty_membuffer (length (''HTTP/1.1 404 Not Found'' @ crlf @ ''CONNECTION: close'' @ crlf @ crlf))"
    by (simp add: room_for_def grow_def empty_membuffer_def membuffer_init_def membuffer_initialize_def mb_inv_def
        SIZE_LIMIT_def MEMBUF_DEF_SIZE_INC_def)
  moreover have "contents empty_membuffer = []"
    by (simp add: empty_membuffer_def membuffer_init_def membuffer_initialize_def contents_def)
  ultimately show ?thesis
    using http_MakeMessage_text [OF t, of empty_membuffer "[]"] by auto
qed

end
