(* ===== verification/HttpTransfer.thy ===== *)
theory HttpTransfer
  imports HttpMessage
begin

text \<open>
  Sending and receiving HTTP messages, \<^verbatim>\<open>compa/src/genlib/net/http/httpreadwrite.cpp\<close>, on the sockets of the theory \<open>Sock\<close>:
  \<open>http_SendMessage\<close> with buffers and files (plain or chunked), \<open>http_RecvMessage\<close> around the parser, connecting, status
  responses. Files are an argument: a file that opens is its data with the outcomes of the coming reads (past the
  end of the list a read gives as much as was asked for, while there is data).
\<close>

section \<open>Connecting\<close>

text \<open>The outcomes of the system calls of one connection attempt.\<close>

record conn_env =
  new_socket :: int
  no_blocking_ok :: bool
  connect_ok :: bool
  in_progress :: bool
  connect_select :: select_result
  getsockopt_ok :: bool
  so_error :: int
  blocking_ok :: bool
  shutdown_rc :: shutdown_result
  close_rc :: bool

definition Check_Connect_And_Wait_Connection :: "conn_env \<Rightarrow> int" where
  "Check_Connect_And_Wait_Connection c =
     (if connect_ok c then 0
      else if \<not> in_progress c then -1
      else if connect_select c \<noteq> Sel_ready then -1
      else if \<not> getsockopt_ok c then -1
      else if so_error c \<noteq> 0 then -1
      else 0)"

definition private_connect :: "bool \<Rightarrow> conn_env \<Rightarrow> int" where
  "private_connect unblock c =
     (if unblock then
        (if no_blocking_ok c
         then (if Check_Connect_And_Wait_Connection c = 0 \<and> blocking_ok c then 0 else -1)
         else -1)
      else if connect_ok c then 0 else -1)"

definition UPNP_E_OUTOF_SOCKET :: int where "UPNP_E_OUTOF_SOCKET = -205"
definition UPNP_E_FILE_READ_ERROR :: int where "UPNP_E_FILE_READ_ERROR = -503"
definition UPNP_E_INTERNAL_ERROR :: int where "UPNP_E_INTERNAL_ERROR = -911"
definition UPNP_E_BAD_HTTPMSG :: int where "UPNP_E_BAD_HTTPMSG = -119"
definition HTTP_REQ_ENTITY_TOO_LARGE :: int where "HTTP_REQ_ENTITY_TOO_LARGE = 413"
definition HTTP_DEFAULT_TIMEOUT :: int where "HTTP_DEFAULT_TIMEOUT = 30"

text \<open>The result of \<open>http_FixUrl\<close> is not looked at.\<close>

definition http_Connect :: "bool \<Rightarrow> conn_env \<Rightarrow> string \<Rightarrow> uri_type \<Rightarrow> fixed_url \<times> int" where
  "http_Connect unblock c mem destination_url =
     (let url = fst (http_FixUrl mem destination_url) in
      if new_socket c = INVALID_SOCKET then (url, UPNP_E_OUTOF_SOCKET)
      else if private_connect unblock c = -1 then (url, UPNP_E_SOCKET_CONNECT)
      else (url, new_socket c))"

section \<open>Sending\<close>

record vfile =
  fdata :: string
  fread_counts :: "int list"
  seek_ok :: bool

definition file_read :: "nat \<Rightarrow> vfile \<Rightarrow> vfile \<times> int \<times> string" where
  "file_read n f =
     (case fread_counts f of
        [] \<Rightarrow> (f\<lparr>fdata := drop n (fdata f)\<rparr>, int (length (take n (fdata f))), take n (fdata f))
      | k # ks \<Rightarrow>
          if k < 0 then (f\<lparr>fread_counts := ks\<rparr>, k, [])
          else
            (let m = min (nat k) n in
             (f\<lparr>fdata := drop m (fdata f), fread_counts := ks\<rparr>, int (length (take m (fdata f))), take m (fdata f))))"

definition WEB_SERVER_BUF_SIZE :: nat where "WEB_SERVER_BUF_SIZE = 1024 * 1024"
definition CHUNK_HEADER_SIZE :: nat where "CHUNK_HEADER_SIZE = 10"

definition last_chunk :: string where
  "last_chunk = ''0'' @ crlf @ crlf"

text \<open>One piece of a file: as a chunk or plain. The flag tells whether the loop goes on.\<close>

definition send_piece ::
    "SOCKINFO \<Rightarrow> SendInstruction \<Rightarrow> os \<Rightarrow> int \<Rightarrow> string \<Rightarrow> os \<times> int \<times> int \<times> bool" where
  "send_piece info i w t d =
     (let header = hex_text (length d) @ crlf in
      if IsChunkActive i \<and> CHUNK_HEADER_SIZE \<le> length header then (w, t, UPNP_E_INTERNAL_ERROR, False)
      else
        (let bytes = (if IsChunkActive i then header @ d @ crlf else d) in
         case sock_write w (Some info) (Some bytes) (length bytes) (Some t) of
           (w1, t1, nw) \<Rightarrow> (w1, the t1, UPNP_E_SUCCESS, 0 < nw \<and> nw = int (length bytes))))"

lemma file_read_shrinks:
  "file_read n f = (f1, nr, d) \<Longrightarrow> 0 < nr \<Longrightarrow> length (fdata f1) < length (fdata f)"
  by (auto simp: file_read_def Let_def split: list.splits if_splits)

text \<open>
  The loop over a file. A negative read count makes the code write behind its buffer (\<open>None\<close>). The
  instruction is always there when something is to be read.
\<close>

function file_loop ::
    "SOCKINFO \<Rightarrow> SendInstruction option \<Rightarrow> nat \<Rightarrow> os \<Rightarrow> int \<Rightarrow> vfile \<Rightarrow> int \<Rightarrow> (os \<times> int \<times> int) option" where
  "file_loop info instr bufsz w t f amount =
     (if amount = 0 then Some (w, t, UPNP_E_SUCCESS)
      else
        (case instr of
           None \<Rightarrow> None
         | Some i \<Rightarrow>
             (case file_read (if int bufsz \<le> amount then bufsz else nat amount) f of
                (f1, nr, d) \<Rightarrow>
                  if nr < 0 then None
                  else if nr = 0 then
                    (if IsChunkActive i then
                       (case sock_write w (Some info) (Some last_chunk) (length last_chunk) (Some t) of
                          (w1, t1, nw) \<Rightarrow> Some (w1, the t1, UPNP_E_SUCCESS))
                     else Some (w, t, UPNP_E_FILE_READ_ERROR))
                  else
                    (case send_piece info i w t d of
                       (w1, t1, ret, go_on) \<Rightarrow>
                         if \<not> go_on then Some (w1, t1, ret)
                         else file_loop info instr bufsz w1 t1 f1
                                (if ReadSendSize i < 0 then int bufsz else amount - nr)))))"
  by pat_completeness auto
termination
  by (relation "measure (\<lambda>(info, instr, bufsz, w, t, f, amount). length (fdata f))") (auto dest!: file_read_shrinks [OF sym])

declare file_loop.simps [simp del]

datatype send_arg = SInstr SendInstruction | SName string | SBuf "string option" nat

type_synonym file_system = "string \<Rightarrow> bool \<Rightarrow> vfile option"

record send_state =
  s_instr :: "SendInstruction option"
  s_bufsz :: nat
  s_amount :: int

definition send_file ::
    "file_system \<Rightarrow> SOCKINFO \<Rightarrow> send_state \<Rightarrow> os \<Rightarrow> int \<Rightarrow> string \<Rightarrow> (os \<times> int \<times> int) option" where
  "send_file fs info st w t filename =
     (let virtual = (case s_instr st of None \<Rightarrow> False | Some i \<Rightarrow> IsVirtualFile i) in
      case fs filename virtual of
        None \<Rightarrow> Some (w, t, UPNP_E_FILE_READ_ERROR)
      | Some f \<Rightarrow>
          (case s_instr st of
             None \<Rightarrow> file_loop info None (s_bufsz st) w t f (s_amount st)
           | Some i \<Rightarrow>
               if IsRangeActive i then
                 (if \<not> seek_ok f then Some (w, t, UPNP_E_FILE_READ_ERROR)
                  else file_loop info (Some i) (s_bufsz st) w t (f\<lparr>fdata := drop (nat (RangeOffset i)) (fdata f)\<rparr>) (s_amount st))
               else file_loop info (Some i) (s_bufsz st) w t f (s_amount st)))"

fun send_fmt ::
    "file_system \<Rightarrow> SOCKINFO \<Rightarrow> ok_script \<Rightarrow> send_state \<Rightarrow> os \<Rightarrow> int \<Rightarrow> string \<Rightarrow> send_arg list \<Rightarrow>
     (os \<times> int \<times> int) option" where
  "send_fmt fs info ms st w t [] as = Some (w, t, UPNP_E_SUCCESS)"
| "send_fmt fs info ms st w t (c # fmt) as =
     (if c = CHR ''I'' \<and> s_instr st = None then
        (case as of
           SInstr i # as1 \<Rightarrow>
             let amount = (if 0 \<le> ReadSendSize i then ReadSendSize i else int (s_bufsz st));
                 bufsz = (if amount < int WEB_SERVER_BUF_SIZE then nat amount else s_bufsz st)
             in (case next_ok ms of
                   (False, ms1) \<Rightarrow> Some (w, t, UPNP_E_OUTOF_MEMORY)
                 | (True, ms1) \<Rightarrow>
                     send_fmt fs info ms1 \<lparr>s_instr = Some i, s_bufsz = bufsz, s_amount = amount\<rparr> w t fmt as1)
         | _ \<Rightarrow> None)
      else if c = CHR ''f'' then (case as of SName nm # as1 \<Rightarrow> send_file fs info st w t nm | _ \<Rightarrow> None)
      else if c = CHR ''b'' then
        (case as of
           SBuf b n # as1 \<Rightarrow>
             if 0 < n then
               (case sock_write w (Some info) b n (Some t) of
                  (w1, t1, nw) \<Rightarrow>
                    if nw < 0 then Some (w1, the t1, nw)
                    else if nw \<noteq> int n then Some (w1, the t1, UPNP_E_SOCKET_WRITE)
                    else send_fmt fs info ms st w1 (the t1) fmt as1)
             else send_fmt fs info ms st w t fmt as1
         | _ \<Rightarrow> None)
      else send_fmt fs info ms st w t fmt as)"

text \<open>The remaining timeout and the return value; \<open>fmt\<close> is one letter per argument: \<open>I\<close>, \<open>f\<close> or \<open>b\<close>.\<close>

definition http_SendMessage ::
    "file_system \<Rightarrow> ok_script \<Rightarrow> os \<Rightarrow> SOCKINFO \<Rightarrow> int \<Rightarrow> string \<Rightarrow> send_arg list \<Rightarrow> (os \<times> int \<times> int) option" where
  "http_SendMessage fs ms w info TimeOut fmt as =
     send_fmt fs info ms \<lparr>s_instr = None, s_bufsz = WEB_SERVER_BUF_SIZE, s_amount = 0\<rparr> w TimeOut fmt as"

section \<open>Receiving\<close>

definition segments_size :: "string option list \<Rightarrow> nat" where
  "segments_size ss = sum_list (map (\<lambda>s. case s of None \<Rightarrow> 1 | Some d \<Rightarrow> Suc (length d)) ss)"

lemma recv_shrinks: "recv n ss = (Some d, ss1) \<Longrightarrow> d \<noteq> [] \<Longrightarrow> segments_size ss1 < segments_size ss"
  by (induction n ss rule: recv.induct) (auto simp: segments_size_def)

lemma sock_read_shrinks:
  assumes "sock_read w (Some info) True n t = (w1, t1, d, rc)" and "0 < rc"
  shows "segments_size (segments w1) < segments_size (segments w)"
proof -
  have e: "sock_read_unprotected w (Some info) True n t = (w1, t1, d, rc)"
    using assms(1) by (auto simp: sock_read_def sock_read_ssl_def split: if_splits)
  have c: "charge w0 t0 = (w2, t2) \<Longrightarrow> segments w2 = segments w0" for w0 t0 w2 t2
    by (auto simp: charge_def next_elapsed_def split: list.splits)
  obtain sel r where s: "select_loop (selects w) = (sel, r)"
    by (metis surj_pair)
  have "0 < to_int (int (length d)) \<Longrightarrow> d \<noteq> []"
    by (auto simp: to_int_def)
  then show ?thesis
    using e assms(2) s c select_loop_codes [OF s] recv_shrinks [of n "segments w" d]
    by (auto simp: sock_read_unprotected_def sock_errors split: if_splits option.splits prod.splits)
qed

text \<open>The result: system, remaining timeout, parser, return value, the HTTP error code.\<close>

type_synonym recv_result = "(os \<times> int \<times> http_parser \<times> int \<times> int) option"

function recv_loop ::
    "net_env \<Rightarrow> nat \<Rightarrow> SOCKINFO \<Rightarrow> ok_script \<Rightarrow> alloc_script \<Rightarrow> os \<Rightarrow> int \<Rightarrow> http_parser \<Rightarrow> nat \<Rightarrow> int \<Rightarrow> bool \<Rightarrow> recv_result" where
  "recv_loop net max_len info oks ms w t p buf_len num_read ok_on_close =
     (let grow = (int buf_len \<le> num_read);
          (ok, oks1) = (if grow then next_ok oks else (True, oks));
          buf_len1 = (if grow then sz_add buf_len buf_len else buf_len)
      in if \<not> ok then Some (w, t, p, UPNP_E_OUTOF_MEMORY, HTTP_INTERNAL_SERVER_ERROR)
         else
           (case sock_read w (Some info) True buf_len1 (Some t) of
              (w1, t1, d, nr) \<Rightarrow>
                if 0 < nr then
                  (case parser_append net ms p d (nat nr) of
                     None \<Rightarrow> None
                   | Some (ms1, p1, PARSE_SUCCESS) \<Rightarrow>
                       if 0 < max_len \<and> max_len mod 2 ^ 32 < content_length p1
                       then Some (w1, the t1, p1, UPNP_E_OUTOF_BOUNDS, HTTP_REQ_ENTITY_TOO_LARGE)
                       else Some (w1, the t1, p1, 0, HTTP_INTERNAL_SERVER_ERROR)
                   | Some (ms1, p1, PARSE_FAILURE) \<Rightarrow> Some (w1, the t1, p1, UPNP_E_BAD_HTTPMSG, http_error_code p1)
                   | Some (ms1, p1, PARSE_NO_MATCH) \<Rightarrow> Some (w1, the t1, p1, UPNP_E_BAD_HTTPMSG, http_error_code p1)
                   | Some (ms1, p1, PARSE_CONTINUE_1) \<Rightarrow> Some (w1, the t1, p1, 0, HTTP_INTERNAL_SERVER_ERROR)
                   | Some (ms1, p1, PARSE_INCOMPLETE_ENTITY) \<Rightarrow>
                       recv_loop net max_len info oks1 ms1 w1 (the t1) p1 buf_len1 nr True
                   | Some (ms1, p1, _) \<Rightarrow> recv_loop net max_len info oks1 ms1 w1 (the t1) p1 buf_len1 nr ok_on_close)
                else if nr = 0 then
                  (if ok_on_close then Some (w1, the t1, p, UPNP_E_SUCCESS, HTTP_INTERNAL_SERVER_ERROR)
                   else Some (w1, the t1, p, UPNP_E_BAD_HTTPMSG, HTTP_BAD_REQUEST))
                else Some (w1, the t1, p, nr, http_error_code p)))"
  by pat_completeness auto
termination
  by (relation "measure (\<lambda>(net, max_len, info, oks, ms, w, t, p, buf_len, num_read, ok_on_close). segments_size (segments w))")
     (auto dest!: sock_read_shrinks [OF sym])

declare recv_loop.simps [simp del]

definition http_RecvMessage ::
    "net_env \<Rightarrow> nat \<Rightarrow> ok_script \<Rightarrow> alloc_script \<Rightarrow> os \<Rightarrow> SOCKINFO \<Rightarrow> http_parser \<Rightarrow> int \<Rightarrow> int \<Rightarrow> recv_result" where
  "http_RecvMessage net max_len oks ms w info p0 req_method timeout_secs =
     (case next_ok oks of
        (False, oks1) \<Rightarrow> Some (w, timeout_secs, p0, UPNP_E_OUTOF_MEMORY, HTTP_INTERNAL_SERVER_ERROR)
      | (True, oks1) \<Rightarrow>
          recv_loop net max_len info oks1 ms w timeout_secs
            (if req_method = HTTPMETHOD_UNKNOWN then parser_request_init else parser_response_init req_method) 1024 0 False)"

section \<open>Requests and responses\<close>

definition http_CalcResponseVersion :: "int \<Rightarrow> int \<Rightarrow> int \<times> int" where
  "http_CalcResponseVersion major minor = (if 1 < major \<or> major = 1 \<and> 1 \<le> minor then (1, 1) else (major, minor))"

definition no_files :: file_system where
  "no_files nm virtual = None"

definition http_SendStatusResponse ::
    "msg_env \<Rightarrow> alloc_script \<Rightarrow> os \<Rightarrow> SOCKINFO \<Rightarrow> int \<Rightarrow> int \<Rightarrow> int \<Rightarrow> (os \<times> int) option" where
  "http_SendStatusResponse env ms w info code req_major req_minor =
     (case http_CalcResponseVersion req_major req_minor of
        (major, minor) \<Rightarrow>
          (case http_MakeMessage env ms (empty_membuffer\<lparr>size_inc := 70\<rparr>) major minor ''RSCB'' [AInt code, AInt code] of
             None \<Rightarrow> None
           | Some (ms1, m, ret) \<Rightarrow>
               if ret = 0 then
                 map_option (\<lambda>(w1, t1, rc). (w1, rc))
                   (http_SendMessage no_files [] w info HTTP_DEFAULT_TIMEOUT ''b'' [SBuf (buf m) (mlength m)])
               else Some (w, ret)))"

definition http_RequestAndResponse ::
    "net_env \<Rightarrow> nat \<Rightarrow> bool \<Rightarrow> conn_env \<Rightarrow> ok_script \<Rightarrow> alloc_script \<Rightarrow> os \<Rightarrow> string \<Rightarrow> nat \<Rightarrow> int \<Rightarrow> int \<Rightarrow> http_parser \<Rightarrow>
     (os \<times> http_parser \<times> int) option" where
  "http_RequestAndResponse net max_len unblock c oks ms w request request_length req_method timeout_secs p0 =
     (if new_socket c = INVALID_SOCKET then Some (w, parser_response_init req_method, UPNP_E_SOCKET_ERROR)
      else
        (let info = \<lparr>sock_fd = new_socket c, foreign_sockaddr = zero_sockaddr, ssl = False\<rparr> in
         if private_connect unblock c = -1 then Some (w, parser_response_init req_method, UPNP_E_SOCKET_CONNECT)
         else
           (case http_SendMessage no_files [] w info timeout_secs ''b'' [SBuf (Some request) request_length] of
              None \<Rightarrow> None
            | Some (w1, t1, ret) \<Rightarrow>
                if ret \<noteq> 0 then Some (w1, parser_response_init req_method, ret)
                else
                  map_option (\<lambda>(w2, t2, p, rc, code). (w2, p, rc))
                    (http_RecvMessage net max_len oks ms w1 info p0 req_method t1))))"

section \<open>A connection that works\<close>

text \<open>No call fails or times out; calls may be interrupted, and may take or give any number of bytes.\<close>

definition link_ok :: "os \<Rightarrow> bool" where
  "link_ok w \<longleftrightarrow> set (selects w) \<subseteq> {Sel_ready, Sel_interrupted} \<and> None \<notin> set (send_counts w)"

lemma select_loop_ok:
  "set sel \<subseteq> {Sel_ready, Sel_interrupted} \<Longrightarrow> \<exists>sel1. select_loop sel = (sel1, None) \<and> set sel1 \<subseteq> {Sel_ready, Sel_interrupted}"
  by (induction sel rule: select_loop.induct) auto

lemma send_loop_ok: "None \<notin> set cs \<Longrightarrow> \<exists>cs1. send_loop cs bs = (cs1, bs, True) \<and> None \<notin> set cs1"
proof (induction cs bs rule: send_loop.induct)
  case (4 k cs v vs)
  then obtain cs1 where "send_loop cs (drop k (v # vs)) = (cs1, drop k (v # vs), True)" "None \<notin> set cs1"
    by auto
  then show ?case
    by simp
qed auto

lemma charge_frame:
  "charge w t = (w1, t1) \<Longrightarrow> sent w1 = sent w \<and> link_ok w1 = link_ok w \<and> (t1 = None \<longleftrightarrow> t = None)"
  by (auto simp: charge_def next_elapsed_def link_ok_def split: list.splits)

lemma sock_write_ok:
  assumes "link_ok w" and "length bs < 2 ^ 31"
  shows "\<exists>w1 t1. sock_write w (Some info) (Some bs) (length bs) (Some t) = (w1, Some t1, int (length bs)) \<and>
    link_ok w1 \<and> sent w1 = sent w @ bs"
proof -
  have "sock_write w (Some info) (Some bs) (length bs) (Some t) =
      sock_write_unprotected w (Some info) (Some bs) (length bs) (Some t)"
    by (simp add: sock_write_def sock_write_ssl_def)
  moreover obtain sel where s: "select_loop (selects w) = (sel, None)" "set sel \<subseteq> {Sel_ready, Sel_interrupted}"
    using select_loop_ok [of "selects w"] assms(1) by (auto simp: link_ok_def)
  moreover obtain cs where c: "send_loop (send_counts w) bs = (cs, bs, True)" "None \<notin> set cs"
    using send_loop_ok [of "send_counts w" bs] assms(1) by (auto simp: link_ok_def)
  define w0 where "w0 = w\<lparr>selects := sel, send_counts := cs, sent := sent w @ bs\<rparr>"
  have "link_ok w0" "sent w0 = sent w @ bs"
    using s(2) c(2) by (simp_all add: link_ok_def w0_def)
  moreover obtain w1 t1 where "charge w0 (Some t) = (w1, Some t1)"
    using charge_frame [of w0 "Some t"] by (cases "charge w0 (Some t)") auto
  moreover have "to_int (int (length bs)) = int (length bs)"
    using assms(2) by (simp add: to_int_def)
  ultimately show ?thesis
    using charge_frame [of w0 "Some t"] assms(1) c(1)
    by (cases "bs = []") (auto simp: sock_write_unprotected_def w0_def Let_def)
qed

section \<open>Files as chunks\<close>

lemma hex_text_word: "hex_word (hex_text n)" "digits_val 16 (hex_text n) = n"
  using num_text_digits [of 16 n] by (auto simp: hex_text_def hex_word_def digits_val_num_text)

lemma send_piece_chunk:
  assumes "IsChunkActive i" and "link_ok w" and "length d \<le> WEB_SERVER_BUF_SIZE"
  shows "\<exists>w1 t1. send_piece info i w t d = (w1, t1, UPNP_E_SUCCESS, True) \<and> link_ok w1 \<and>
    sent w1 = sent w @ chunk_text (hex_text (length d), d)"
proof -
  define bytes where "bytes = chunk_text (hex_text (length d), d)"
  have "length d < 16 ^ Suc 5"
    using assms(3) by (simp add: WEB_SERVER_BUF_SIZE_def)
  then have l: "length (hex_text (length d)) \<le> 6"
    using length_num_text [of 16 "length d" 5] by (simp add: hex_text_def)
  then have "length bytes < 2 ^ 31"
    using assms(3) by (simp add: bytes_def WEB_SERVER_BUF_SIZE_def)
  then obtain w1 t1 where "sock_write w (Some info) (Some bytes) (length bytes) (Some t) = (w1, Some t1, int (length bytes))"
    "link_ok w1" "sent w1 = sent w @ bytes"
    using sock_write_ok [OF assms(2), of bytes info t] by blast
  then show ?thesis
    using assms(1) l by (simp add: send_piece_def CHUNK_HEADER_SIZE_def bytes_def)
qed

text \<open>A file whose reads make progress until its data is at an end.\<close>

definition reads_ok :: "vfile \<Rightarrow> bool" where
  "reads_ok f \<longleftrightarrow> (\<forall>k\<in>set (fread_counts f). 0 < k)"

lemma file_read_ok:
  assumes "reads_ok f" and "0 < n"
  shows "\<exists>f1 d. file_read n f = (f1, int (length d), d) \<and> reads_ok f1 \<and> length d \<le> n \<and> fdata f = d @ fdata f1 \<and>
    (d = [] \<longleftrightarrow> fdata f = [])"
  using assms by (cases "fread_counts f") (auto simp: file_read_def reads_ok_def Let_def min_def)

text \<open>What the loop sends: the part of the file it has to send, in chunks, and at the end of the file the last chunk.\<close>

lemma file_loop_chunks:
  assumes "IsChunkActive i" and "0 < bufsz" and "bufsz \<le> WEB_SERVER_BUF_SIZE"
  shows "link_ok w \<Longrightarrow> reads_ok f \<Longrightarrow> 0 \<le> amount \<Longrightarrow> ReadSendSize i < 0 \<longrightarrow> amount = int bufsz \<Longrightarrow>
    \<exists>w1 t1 cs. file_loop info (Some i) bufsz w t f amount = Some (w1, t1, UPNP_E_SUCCESS) \<and> (\<forall>c\<in>set cs. chunk_ok c) \<and>
      concat (map snd cs) = (if ReadSendSize i < 0 then fdata f else take (nat amount) (fdata f)) \<and>
      sent w1 = sent w @ concat (map chunk_text cs) @
        (if ReadSendSize i < 0 \<or> int (length (fdata f)) < amount then last_chunk else [])"
proof (induction "length (fdata f)" arbitrary: f w t amount rule: less_induct)
  case less
  show ?case
  proof (cases "amount = 0")
    case True
    then show ?thesis
      using less.prems(4) assms(2) by (intro exI [of _ w] exI [of _ t] exI [of _ "[]"]) (simp add: file_loop.simps)
  next
    case False
    define n where "n = (if int bufsz \<le> amount then bufsz else nat amount)"
    have n: "0 < n" "n \<le> bufsz" "int n \<le> amount"
      using False less.prems(3) assms(2) by (auto simp: n_def)
    obtain f1 d where r: "file_read n f = (f1, int (length d), d)" "reads_ok f1" "length d \<le> n" "fdata f = d @ fdata f1"
      "d = [] \<longleftrightarrow> fdata f = []"
      using file_read_ok [OF less.prems(2) n(1)] by auto
    show ?thesis
    proof (cases "d = []")
      case True
      obtain w1 t1 where w: "sock_write w (Some info) (Some last_chunk) (length last_chunk) (Some t) =
          (w1, Some t1, int (length last_chunk))" "sent w1 = sent w @ last_chunk"
        using sock_write_ok [OF less.prems(1), of last_chunk info t] by (auto simp: last_chunk_def)
      have "file_loop info (Some i) bufsz w t f amount = Some (w1, t1, UPNP_E_SUCCESS)"
        using True r(1) w(1) False assms(1) by (subst file_loop.simps) (simp add: n_def [symmetric])
      then show ?thesis
        using True r(5) w(2) False less.prems(3) by (intro exI [of _ w1] exI [of _ t1] exI [of _ "[]"]) simp
    next
      case nempty: False
      define amount1 where "amount1 = (if ReadSendSize i < 0 then int bufsz else amount - int (length d))"
      obtain w1 t1 where s: "send_piece info i w t d = (w1, t1, UPNP_E_SUCCESS, True)" "link_ok w1"
        "sent w1 = sent w @ chunk_text (hex_text (length d), d)"
        using send_piece_chunk [OF assms(1) less.prems(1), of d info t] r(3) n(2) assms(3) by auto
      have step: "file_loop info (Some i) bufsz w t f amount = file_loop info (Some i) bufsz w1 t1 f1 amount1"
        using False r(1) nempty s(1) by (subst file_loop.simps) (simp add: n_def [symmetric] amount1_def)
      have "length (fdata f1) < length (fdata f)" "0 \<le> amount1" "ReadSendSize i < 0 \<longrightarrow> amount1 = int bufsz"
        using r(3,4) nempty n(3) by (auto simp: amount1_def)
      then obtain w2 t2 cs where ih: "file_loop info (Some i) bufsz w1 t1 f1 amount1 = Some (w2, t2, UPNP_E_SUCCESS)"
        "\<forall>c\<in>set cs. chunk_ok c"
        "concat (map snd cs) = (if ReadSendSize i < 0 then fdata f1 else take (nat amount1) (fdata f1))"
        "sent w2 = sent w1 @ concat (map chunk_text cs) @
          (if ReadSendSize i < 0 \<or> int (length (fdata f1)) < amount1 then last_chunk else [])"
        using less.hyps [OF _ s(2) r(2)] by blast
      have "chunk_ok (hex_text (length d), d)"
        using nempty r(3) n(2) assms(3) hex_text_word by (auto simp: chunk_ok_def WEB_SERVER_BUF_SIZE_def)
      moreover have "d @ take (nat (amount - int (length d))) (fdata f1) = take (nat amount) (fdata f)"
        using r(3,4) n(3) by (simp add: nat_diff_distrib)
      ultimately show ?thesis
        using ih s(3) step r(4) nempty
        by (intro exI [of _ w2] exI [of _ t2] exI [of _ "(hex_text (length d), d) # cs"]) (auto simp: amount1_def)
    qed
  qed
qed

lemma send_file_message:
  assumes "IsChunkActive i" and "\<not> IsRangeActive i" and "fs nm (IsVirtualFile i) = Some f" and "reads_ok f"
    and "link_ok w" and "length hdr < 2 ^ 31" and "ReadSendSize i \<noteq> 0"
  shows "\<exists>w1 t1 cs. http_SendMessage fs [] w info t ''Ibf'' [SInstr i, SBuf (Some hdr) (length hdr), SName nm] =
      Some (w1, t1, UPNP_E_SUCCESS) \<and> (\<forall>c\<in>set cs. chunk_ok c) \<and>
      concat (map snd cs) = (if ReadSendSize i < 0 then fdata f else take (nat (ReadSendSize i)) (fdata f)) \<and>
      sent w1 = sent w @ hdr @ concat (map chunk_text cs) @
        (if ReadSendSize i < 0 \<or> int (length (fdata f)) < ReadSendSize i then last_chunk else [])"
proof -
  define amount where "amount = (if 0 \<le> ReadSendSize i then ReadSendSize i else int WEB_SERVER_BUF_SIZE)"
  define bufsz where "bufsz = (if amount < int WEB_SERVER_BUF_SIZE then nat amount else WEB_SERVER_BUF_SIZE)"
  have b: "0 < bufsz" "bufsz \<le> WEB_SERVER_BUF_SIZE" "0 \<le> amount" "ReadSendSize i < 0 \<longrightarrow> amount = int bufsz"
    using assms(7) by (auto simp: amount_def bufsz_def WEB_SERVER_BUF_SIZE_def)
  obtain w1 t1 where w: "sock_write w (Some info) (Some hdr) (length hdr) (Some t) = (w1, Some t1, int (length hdr))"
    "link_ok w1" "sent w1 = sent w @ hdr"
    using sock_write_ok [OF assms(5,6), of info t] by blast
  define v where "v = (if 0 < length hdr then (w1, t1) else (w, t))"
  have v: "link_ok (fst v)" "sent (fst v) = sent w @ hdr"
    using w assms(5) by (auto simp: v_def)
  have run: "http_SendMessage fs [] w info t ''Ibf'' [SInstr i, SBuf (Some hdr) (length hdr), SName nm] =
      file_loop info (Some i) bufsz (fst v) (snd v) f amount"
    using w(1) assms(2,3)
    by (cases "hdr = []")
       (auto simp: http_SendMessage_def send_file_def v_def amount_def bufsz_def Let_def)
  show ?thesis
    using file_loop_chunks [OF assms(1) b(1,2) v(1) assms(4) b(3,4), of info "snd v"] v(2) run
    by (auto simp: amount_def split: if_splits)
qed

definition demo_file :: vfile where
  "demo_file = \<lparr>fdata = ''Hello'', fread_counts = [2], seek_ok = True\<rparr>"

definition demo_instr :: "int \<Rightarrow> SendInstruction" where
  "demo_instr n = \<lparr>IsVirtualFile = False, IsChunkActive = True, IsRangeActive = False, RangeHeader = [],
     AcceptLanguageHeader = [], RangeOffset = 0, ReadSendSize = n\<rparr>"

definition demo_os :: os where
  "demo_os = \<lparr>selects = [Sel_interrupted], segments = [], send_counts = [Some 3, Some 0, Some 1], elapsed = [1, 2], sent = []\<rparr>"

definition demo_info :: SOCKINFO where
  "demo_info = \<lparr>sock_fd = 5, foreign_sockaddr = zero_sockaddr, ssl = False\<rparr>"



text \<open>
  Property C40. A file of known length sent with the chunked coding, as the web server does for a request with a \<open>TE\<close> header,
  is never finished: \<open>http_SendMessage\<close> sends the data and returns success without the last chunk, and the receiving
  parser waits for more.
\<close>

theorem chunked_file_unterminated:
  assumes "IsChunkActive i" and "\<not> IsRangeActive i" and "0 < ReadSendSize i" and "fs nm (IsVirtualFile i) = Some f"
    and "ReadSendSize i = int (length (fdata f))" and "reads_ok f" and "link_ok w" and "length hdr < 2 ^ 31"
  shows "\<exists>w1 t1 body.
    http_SendMessage fs [] w info t ''Ibf'' [SInstr i, SBuf (Some hdr) (length hdr), SName nm] = Some (w1, t1, UPNP_E_SUCCESS) \<and>
    sent w1 = sent w @ hdr @ body \<and>
    (\<forall>net p pre. chunk_state p pre body \<longrightarrow> (\<exists>p1. parser_parse_entity net [] p = Some ([], p1, PARSE_INCOMPLETE)))"
proof -
  obtain w1 t1 cs where s: "http_SendMessage fs [] w info t ''Ibf'' [SInstr i, SBuf (Some hdr) (length hdr), SName nm] =
      Some (w1, t1, UPNP_E_SUCCESS)" "\<forall>c\<in>set cs. chunk_ok c"
      "sent w1 = sent w @ hdr @ concat (map chunk_text cs)"
    using send_file_message [of i fs nm f w hdr info t] assms by auto
  then show ?thesis
    using chunks_waiting [OF s(2)] by blast
qed

theorem chunked_file_unterminated_witness:
  "\<exists>w1 t1 body. http_SendMessage (\<lambda>nm v. Some demo_file) [] demo_os demo_info 30 ''Ibf''
     [SInstr (demo_instr 5), SBuf (Some ''H'') (length ''H''), SName ''f''] = Some (w1, t1, UPNP_E_SUCCESS) \<and>
     sent w1 = sent demo_os @ ''H'' @ body"
  using chunked_file_unterminated [of "demo_instr 5" "\<lambda>nm v. Some demo_file" "''f''" demo_file demo_os "''H''" demo_info 30]
  by (auto simp: demo_instr_def demo_file_def demo_os_def reads_ok_def link_ok_def)

end
