(* ===== verification/ThreadPool.thy ===== *)
theory ThreadPool
  imports Complex_Main Prelude
begin

text \<open>
  The thread pool of \<^verbatim>\<open>compa/src/threadutil/ThreadPool.cpp\<close>. The three job queues are
  lists (the refinement of the theory \<open>LinkedList\<close>), each with the number of nodes its free
  list keeps; the free list of jobs is its length. What \<open>malloc\<close> and \<open>pthread_create\<close> answer is given by scripts.
  A wait on a condition variable releases the mutex: other threads may then change the pool. These
  changes are a script of functions on the pool, one for each time the waiting thread is woken up; a
  script that ends before the awaited condition holds is a thread that waits for ever (\<open>None\<close>).
  The pool pointer itself is not null (each function returns \<open>EINVAL\<close> for a null pointer first). Times of type \<open>double\<close> are reals: all sums in the source are sums of whole numbers.
\<close>

section \<open>Data\<close>

definition LOW_PRIORITY :: int where "LOW_PRIORITY = 0"
definition MED_PRIORITY :: int where "MED_PRIORITY = 1"
definition HIGH_PRIORITY :: int where "HIGH_PRIORITY = 2"
abbreviation DEFAULT_PRIORITY :: int where "DEFAULT_PRIORITY \<equiv> MED_PRIORITY"

lemmas priority_defs = LOW_PRIORITY_def MED_PRIORITY_def HIGH_PRIORITY_def

text \<open>
  The error codes are written \<open>-8 & 1 << 29\<close> and so on. The shift binds stronger: the value is the bit 29 of a
  small negative number, which is set in all of them.
\<close>

definition bit29_of :: "int \<Rightarrow> int" where
  "bit29_of n = (if odd (n div 2 ^ 29) then 2 ^ 29 else 0)"

definition EMAXTHREADS :: int where "EMAXTHREADS = bit29_of (- 8)"
definition INVALID_POLICY :: int where "INVALID_POLICY = bit29_of (- 9)"
definition INVALID_JOB_ID :: int where "INVALID_JOB_ID = bit29_of (- 2)"
definition EOUTOFMEM :: int where "EOUTOFMEM = bit29_of (- 7)"

definition EAGAIN :: int where "EAGAIN = 11"
definition EINVAL :: int where "EINVAL = 22"
definition ETIMEDOUT :: int where "ETIMEDOUT = 110"

abbreviation INFINITE_THREADS :: int where "INFINITE_THREADS \<equiv> - 1"

record timeval =
  tv_sec :: int
  tv_usec :: int

record timespec =
  ts_sec :: int
  ts_nsec :: int

record ThreadPoolAttr =
  minThreads :: int
  maxThreads :: int
  stackSize :: nat
  maxIdleTime :: int
  jobsPerThread :: int
  maxJobsTotal :: int
  starvationTime :: int
  schedPolicy :: int

record ThreadPoolJob =
  func :: nat
  arg :: nat
  free_func :: "nat option"
  requestTime :: timeval
  priority :: int
  jobId :: int

record ThreadPoolStats =
  totalTimeHQ :: real
  totalJobsHQ :: int
  avgWaitHQ :: real
  totalTimeMQ :: real
  totalJobsMQ :: int
  avgWaitMQ :: real
  totalTimeLQ :: real
  totalJobsLQ :: int
  avgWaitLQ :: real
  totalWorkTime :: real
  totalIdleTime :: real
  st_workerThreads :: int
  st_idleThreads :: int
  st_persistentThreads :: int
  st_totalThreads :: int
  st_maxThreads :: int
  currentJobsHQ :: int
  currentJobsLQ :: int
  currentJobsMQ :: int

record job_queue =
  items :: "ThreadPoolJob list"
  free_nodes :: nat

record ThreadPool =
  lastJobId :: int
  shutdown :: bool
  totalThreads :: int
  pendingWorkerThreadStart :: bool
  busyThreads :: int
  persistentThreads :: int
  jobFreeList :: nat
  lowJobQ :: job_queue
  medJobQ :: job_queue
  highJobQ :: job_queue
  persistentJob :: "ThreadPoolJob option"
  attr :: ThreadPoolAttr
  stats :: ThreadPoolStats

section \<open>Memory and queues\<close>

definition JOBFREELISTSIZE :: nat where "JOBFREELISTSIZE = 100"
definition NODE_FREELISTSIZE :: nat where "NODE_FREELISTSIZE = 100"

text \<open>\<open>FreeListAlloc\<close> and \<open>FreeListFree\<close>, seen through the number of free elements.\<close>

definition pool_alloc :: "ok_script \<Rightarrow> nat \<Rightarrow> ok_script \<times> nat \<times> bool" where
  "pool_alloc ms n = (if 0 < n then (ms, n - 1, True) else (case next_ok ms of (ok, ms1) \<Rightarrow> (ms1, n, ok)))"

definition pool_free :: "nat \<Rightarrow> nat \<Rightarrow> nat" where
  "pool_free limit n = (if n < limit then Suc n else n)"

definition q_empty :: job_queue where
  "q_empty = \<lparr>items = [], free_nodes = 0\<rparr>"

definition q_add_tail :: "ok_script \<Rightarrow> job_queue \<Rightarrow> ThreadPoolJob \<Rightarrow> ok_script \<times> job_queue \<times> bool" where
  "q_add_tail ms q j =
     (case pool_alloc ms (free_nodes q) of
        (ms1, n, ok) \<Rightarrow>
          (ms1, if ok then \<lparr>items = items q @ [j], free_nodes = n\<rparr> else q\<lparr>free_nodes := n\<rparr>, ok))"

definition q_del_at :: "job_queue \<Rightarrow> nat \<Rightarrow> job_queue" where
  "q_del_at q i =
     \<lparr>items = take i (items q) @ drop (Suc i) (items q), free_nodes = pool_free NODE_FREELISTSIZE (free_nodes q)\<rparr>"

definition q_find :: "job_queue \<Rightarrow> int \<Rightarrow> nat option" where
  "q_find q k = find (\<lambda>i. jobId (items q ! i) = k) [0..<length (items q)]"

abbreviation q_size :: "job_queue \<Rightarrow> int" where
  "q_size q \<equiv> int (length (items q))"

definition FreeThreadPoolJob :: "ThreadPool \<Rightarrow> ThreadPool" where
  "FreeThreadPoolJob tp = tp\<lparr>jobFreeList := pool_free JOBFREELISTSIZE (jobFreeList tp)\<rparr>"

section \<open>Time and statistics\<close>

text \<open>The conversion of a \<open>double\<close> to \<open>long\<close> rounds towards zero.\<close>

definition trunc_div :: "int \<Rightarrow> int \<Rightarrow> int" where
  "trunc_div a b = sgn a * sgn b * (\<bar>a\<bar> div \<bar>b\<bar>)"

definition trunc_mod :: "int \<Rightarrow> int \<Rightarrow> int" where
  "trunc_mod a b = a - b * trunc_div a b"

definition DiffMillis :: "timeval \<Rightarrow> timeval \<Rightarrow> int" where
  "DiffMillis t1 t2 = trunc_div ((tv_sec t1 - tv_sec t2) * 1000000 + (tv_usec t1 - tv_usec t2)) 1000"

definition StatsInit :: "ThreadPoolStats \<Rightarrow> ThreadPoolStats" where
  "StatsInit st = st\<lparr>totalIdleTime := 0, totalJobsHQ := 0, totalJobsLQ := 0, totalJobsMQ := 0, totalTimeHQ := 0,
     totalTimeMQ := 0, totalTimeLQ := 0, totalWorkTime := 0, avgWaitHQ := 0, avgWaitMQ := 0, avgWaitLQ := 0,
     st_workerThreads := 0, st_idleThreads := 0, st_persistentThreads := 0, st_maxThreads := 0, st_totalThreads := 0\<rparr>"

abbreviation upd_stats :: "(ThreadPoolStats \<Rightarrow> ThreadPoolStats) \<Rightarrow> ThreadPool \<Rightarrow> ThreadPool" where
  "upd_stats f tp \<equiv> tp\<lparr>stats := f (stats tp)\<rparr>"

definition StatsAccountLQ :: "ThreadPool \<Rightarrow> int \<Rightarrow> ThreadPool" where
  "StatsAccountLQ tp d = upd_stats (\<lambda>s. s\<lparr>totalJobsLQ := totalJobsLQ s + 1, totalTimeLQ := totalTimeLQ s + of_int d\<rparr>) tp"

definition StatsAccountMQ :: "ThreadPool \<Rightarrow> int \<Rightarrow> ThreadPool" where
  "StatsAccountMQ tp d = upd_stats (\<lambda>s. s\<lparr>totalJobsMQ := totalJobsMQ s + 1, totalTimeMQ := totalTimeMQ s + of_int d\<rparr>) tp"

definition StatsAccountHQ :: "ThreadPool \<Rightarrow> int \<Rightarrow> ThreadPool" where
  "StatsAccountHQ tp d = upd_stats (\<lambda>s. s\<lparr>totalJobsHQ := totalJobsHQ s + 1, totalTimeHQ := totalTimeHQ s + of_int d\<rparr>) tp"

definition CalcWaitTime :: "timeval \<Rightarrow> ThreadPool \<Rightarrow> int \<Rightarrow> ThreadPoolJob \<Rightarrow> ThreadPool" where
  "CalcWaitTime now tp p job =
     (let diff = DiffMillis now (requestTime job) in
      if p = LOW_PRIORITY then StatsAccountLQ tp diff
      else if p = MED_PRIORITY then StatsAccountMQ tp diff
      else if p = HIGH_PRIORITY then StatsAccountHQ tp diff
      else tp)"

definition SetRelTimeout :: "timeval \<Rightarrow> int \<Rightarrow> timespec" where
  "SetRelTimeout now relMillis =
     \<lparr>ts_sec = tv_sec now + trunc_div relMillis 1000,
      ts_nsec = (tv_usec now div 1000 + trunc_mod relMillis 1000) * 1000000\<rparr>"

text \<open>
  The loop of \<open>BumpPriority\<close>. A node is taken from one queue and added to the tail of the next; the result of
  \<open>ListAddTail\<close> is not looked at.
\<close>

definition bump_med :: "timeval \<Rightarrow> ThreadPool \<Rightarrow> bool" where
  "bump_med now tp \<longleftrightarrow> items (medJobQ tp) \<noteq> [] \<and>
     starvationTime (attr tp) \<le> DiffMillis now (requestTime (hd (items (medJobQ tp))))"

definition bump_low :: "timeval \<Rightarrow> ThreadPool \<Rightarrow> bool" where
  "bump_low now tp \<longleftrightarrow> items (lowJobQ tp) \<noteq> [] \<and>
     maxIdleTime (attr tp) \<le> DiffMillis now (requestTime (hd (items (lowJobQ tp))))"

definition move_med :: "timeval \<Rightarrow> ok_script \<Rightarrow> ThreadPool \<Rightarrow> ok_script \<times> ThreadPool" where
  "move_med now ms tp =
     (let j = hd (items (medJobQ tp));
          tp1 = StatsAccountMQ tp (DiffMillis now (requestTime j))
      in case q_add_tail ms (highJobQ tp1) j of
           (ms1, q, ok) \<Rightarrow> (ms1, tp1\<lparr>medJobQ := q_del_at (medJobQ tp1) 0, highJobQ := q\<rparr>))"

definition move_low :: "timeval \<Rightarrow> ok_script \<Rightarrow> ThreadPool \<Rightarrow> ok_script \<times> ThreadPool" where
  "move_low now ms tp =
     (let j = hd (items (lowJobQ tp));
          tp1 = StatsAccountLQ tp (DiffMillis now (requestTime j))
      in case q_add_tail ms (medJobQ tp1) j of
           (ms1, q, ok) \<Rightarrow> (ms1, tp1\<lparr>lowJobQ := q_del_at (lowJobQ tp1) 0, medJobQ := q\<rparr>))"

abbreviation bump_measure :: "ThreadPool \<Rightarrow> nat" where
  "bump_measure tp \<equiv> 2 * length (items (lowJobQ tp)) + length (items (medJobQ tp))"

lemma move_med_less: "bump_med now tp \<Longrightarrow> bump_measure (snd (move_med now ms tp)) < bump_measure tp"
  by (auto simp: bump_med_def move_med_def Let_def StatsAccountMQ_def q_del_at_def split: prod.splits)

lemma move_low_less: "bump_low now tp \<Longrightarrow> bump_measure (snd (move_low now ms tp)) < bump_measure tp"
  by (auto simp: bump_low_def move_low_def Let_def StatsAccountLQ_def q_del_at_def q_add_tail_def
    neq_Nil_conv split: prod.splits)

function BumpPriority :: "timeval \<Rightarrow> ok_script \<Rightarrow> ThreadPool \<Rightarrow> ok_script \<times> ThreadPool" where
  "BumpPriority now ms tp =
     (if bump_med now tp then (case move_med now ms tp of (ms1, tp1) \<Rightarrow> BumpPriority now ms1 tp1)
      else if bump_low now tp then (case move_low now ms tp of (ms1, tp1) \<Rightarrow> BumpPriority now ms1 tp1)
      else (ms, tp))"
  by pat_completeness auto
termination
proof (relation "measure (\<lambda>(now, ms, tp). bump_measure tp)", goal_cases)
  case (2 now ms tp)
  then show ?case
    using move_med_less [of now tp ms] by (cases "move_med now ms tp") auto
next
  case (3 now ms tp)
  then show ?case
    using move_low_less [of now tp ms] by (cases "move_low now ms tp") auto
qed simp

declare BumpPriority.simps [simp del]

section \<open>A worker\<close>

text \<open>
  The critical sections of \<open>WorkerThread\<close>: the start of the thread; the top of the loop, where a finished job is
  put away; the test whether to wait; the choice of the next job; the end of the thread. The clock is read
  once for a critical section.
\<close>

record worker =
  wjob :: "ThreadPoolJob option"
  wpersistent :: int
  wstart :: int

definition worker_begin :: "ThreadPool \<Rightarrow> ThreadPool" where
  "worker_begin tp = tp\<lparr>totalThreads := totalThreads tp + 1, pendingWorkerThreadStart := False\<rparr>"

definition worker_new :: "timeval \<Rightarrow> worker" where
  "worker_new now = \<lparr>wjob = None, wpersistent = -1, wstart = tv_sec now\<rparr>"

definition worker_top :: "timeval \<Rightarrow> ThreadPool \<Rightarrow> worker \<Rightarrow> ThreadPool \<times> worker" where
  "worker_top now tp w =
     (let tp1 = (if wjob w \<noteq> None then FreeThreadPoolJob (tp\<lparr>busyThreads := busyThreads tp - 1\<rparr>) else tp);
          tp2 = upd_stats (\<lambda>s. s\<lparr>st_idleThreads := st_idleThreads s + 1,
                  totalWorkTime := totalWorkTime s + (of_int (tv_sec now) - of_int (wstart w))\<rparr>) tp1;
          tp3 = (if wpersistent w = 0 then upd_stats (\<lambda>s. s\<lparr>st_workerThreads := st_workerThreads s - 1\<rparr>) tp2
                 else if wpersistent w = 1 then tp2\<lparr>persistentThreads := persistentThreads tp2 - 1\<rparr>
                 else tp2)
      in (tp3, w\<lparr>wjob := None, wstart := tv_sec now\<rparr>))"

datatype worker_next = WExit | WWait timespec | WGo

definition no_jobs :: "ThreadPool \<Rightarrow> bool" where
  "no_jobs tp \<longleftrightarrow> items (lowJobQ tp) = [] \<and> items (medJobQ tp) = [] \<and> items (highJobQ tp) = [] \<and>
     persistentJob tp = None \<and> \<not> shutdown tp"

definition worker_check :: "timeval \<Rightarrow> int \<Rightarrow> ThreadPool \<Rightarrow> ThreadPool \<times> worker_next" where
  "worker_check now retCode tp =
     (if no_jobs tp then
        (if (retCode = ETIMEDOUT \<and> minThreads (attr tp) < totalThreads tp) \<or>
            (maxThreads (attr tp) \<noteq> -1 \<and> maxThreads (attr tp) < totalThreads tp)
         then (upd_stats (\<lambda>s. s\<lparr>st_idleThreads := st_idleThreads s - 1\<rparr>) tp, WExit)
         else (tp, WWait (SetRelTimeout now (maxIdleTime (attr tp)))))
      else (tp, WGo))"

text \<open>The job with the highest priority leaves its queue.\<close>

definition take_job :: "timeval \<Rightarrow> ThreadPool \<Rightarrow> ThreadPool \<times> ThreadPoolJob option" where
  "take_job now tp =
     (if items (highJobQ tp) \<noteq> [] then
        (let j = hd (items (highJobQ tp)); tp1 = CalcWaitTime now tp HIGH_PRIORITY j in
         (tp1\<lparr>highJobQ := q_del_at (highJobQ tp1) 0\<rparr>, Some j))
      else if items (medJobQ tp) \<noteq> [] then
        (let j = hd (items (medJobQ tp)); tp1 = CalcWaitTime now tp MED_PRIORITY j in
         (tp1\<lparr>medJobQ := q_del_at (medJobQ tp1) 0\<rparr>, Some j))
      else if items (lowJobQ tp) \<noteq> [] then
        (let j = hd (items (lowJobQ tp)); tp1 = CalcWaitTime now tp LOW_PRIORITY j in
         (tp1\<lparr>lowJobQ := q_del_at (lowJobQ tp1) 0\<rparr>, Some j))
      else (upd_stats (\<lambda>s. s\<lparr>st_workerThreads := st_workerThreads s - 1\<rparr>) tp, None))"

definition worker_pick ::
    "timeval \<Rightarrow> ok_script \<Rightarrow> ThreadPool \<Rightarrow> worker \<Rightarrow> ok_script \<times> ThreadPool \<times> worker \<times> ThreadPoolJob option" where
  "worker_pick now ms tp w =
     (let tp1 = upd_stats (\<lambda>s. s\<lparr>st_idleThreads := st_idleThreads s - 1,
                  totalIdleTime := totalIdleTime s + (of_int (tv_sec now) - of_int (wstart w))\<rparr>) tp;
          w1 = w\<lparr>wstart := tv_sec now\<rparr>
      in case BumpPriority now ms tp1 of
           (ms1, tp2) \<Rightarrow>
             if shutdown tp2 then (ms1, tp2, w1, None)
             else
               (case persistentJob tp2 of
                  Some j \<Rightarrow>
                    (ms1, tp2\<lparr>persistentJob := None, persistentThreads := persistentThreads tp2 + 1,
                              busyThreads := busyThreads tp2 + 1\<rparr>, w1\<lparr>wjob := Some j, wpersistent := 1\<rparr>, Some j)
                | None \<Rightarrow>
                    (case take_job now (upd_stats (\<lambda>s. s\<lparr>st_workerThreads := st_workerThreads s + 1\<rparr>) tp2) of
                       (tp3, None) \<Rightarrow> (ms1, tp3, w1\<lparr>wpersistent := 0\<rparr>, None)
                     | (tp3, Some j) \<Rightarrow>
                         (ms1, tp3\<lparr>busyThreads := busyThreads tp3 + 1\<rparr>,
                          w1\<lparr>wjob := Some j, wpersistent := 0\<rparr>, Some j))))"

definition worker_exit :: "ThreadPool \<Rightarrow> ThreadPool" where
  "worker_exit tp = tp\<lparr>totalThreads := totalThreads tp - 1\<rparr>"

section \<open>Creating workers\<close>

definition CreateThreadPoolJob ::
    "timeval \<Rightarrow> ok_script \<Rightarrow> ThreadPoolJob \<Rightarrow> int \<Rightarrow> ThreadPool \<Rightarrow> ok_script \<times> ThreadPool \<times> ThreadPoolJob option" where
  "CreateThreadPoolJob now ms job k tp =
     (case pool_alloc ms (jobFreeList tp) of
        (ms1, n, ok) \<Rightarrow>
          (ms1, tp\<lparr>jobFreeList := n\<rparr>, if ok then Some (job\<lparr>jobId := k, requestTime := now\<rparr>) else None))"

type_synonym interference = "(ThreadPool \<Rightarrow> ThreadPool) list"

fun wait_while :: "('a \<Rightarrow> bool) \<Rightarrow> ('a \<Rightarrow> 'a) list \<Rightarrow> 'a \<Rightarrow> (('a \<Rightarrow> 'a) list \<times> 'a) option" where
  "wait_while P env tp =
     (if \<not> P tp then Some (env, tp)
      else (case env of [] \<Rightarrow> None | f # env1 \<Rightarrow> wait_while P env1 (f tp)))"

declare wait_while.simps [simp del]

fun next_rc :: "int list \<Rightarrow> int \<times> int list" where
  "next_rc [] = (0, [])"
| "next_rc (r # rs) = (r, rs)"

definition note_max :: "ThreadPool \<Rightarrow> ThreadPool" where
  "note_max tp =
     (if st_maxThreads (stats tp) < totalThreads tp
      then upd_stats (\<lambda>s. s\<lparr>st_maxThreads := totalThreads tp\<rparr>) tp else tp)"

definition CreateWorker ::
    "int list \<Rightarrow> interference \<Rightarrow> ThreadPool \<Rightarrow> (int list \<times> interference \<times> ThreadPool \<times> int) option" where
  "CreateWorker cs env tp =
     (case wait_while pendingWorkerThreadStart env tp of
        None \<Rightarrow> None
      | Some (env1, tp1) \<Rightarrow>
          if maxThreads (attr tp1) \<noteq> INFINITE_THREADS \<and> maxThreads (attr tp1) < totalThreads tp1 + 1
          then Some (cs, env1, tp1, EMAXTHREADS)
          else
            (case next_rc cs of
               (rc, cs1) \<Rightarrow>
                 if rc = 0 then
                   (case wait_while pendingWorkerThreadStart env1 (tp1\<lparr>pendingWorkerThreadStart := True\<rparr>) of
                      None \<Rightarrow> None
                    | Some (env2, tp2) \<Rightarrow> Some (cs1, env2, note_max tp2, rc))
                 else Some (cs1, env1, note_max tp1, rc)))"

lemma wait_while_length: "wait_while P env tp = Some (env1, tp1) \<Longrightarrow> length env1 \<le> length env \<and> \<not> P tp1"
  by (induction P env tp rule: wait_while.induct)
     (subst (asm) (2) wait_while.simps, fastforce split: if_splits list.splits)

lemma wait_while_less:
  "wait_while P env tp = Some (env1, tp1) \<Longrightarrow> P tp \<Longrightarrow> length env1 < length env"
  by (subst (asm) wait_while.simps) (fastforce dest: wait_while_length split: list.splits)

lemma EMAXTHREADS_nz [simp]: "EMAXTHREADS \<noteq> 0"
  by (simp add: EMAXTHREADS_def bit29_of_def)

text \<open>The cases of \<open>CreateWorker\<close>: no room, no thread from the system, a new worker that has started.\<close>

lemma CreateWorker_cases:
  assumes "CreateWorker cs env tp = Some (cs1, env1, tp1, rc)"
  obtains (full) tp0 where "wait_while pendingWorkerThreadStart env tp = Some (env1, tp0)" "tp1 = tp0"
      "maxThreads (attr tp0) \<noteq> INFINITE_THREADS" "maxThreads (attr tp0) < totalThreads tp0 + 1"
      "rc = EMAXTHREADS" "cs1 = cs"
  | (refused) tp0 where "wait_while pendingWorkerThreadStart env tp = Some (env1, tp0)" "tp1 = note_max tp0"
      "rc \<noteq> 0" "next_rc cs = (rc, cs1)"
  | (started) env0 tp0 tp2 where "wait_while pendingWorkerThreadStart env tp = Some (env0, tp0)"
      "maxThreads (attr tp0) = INFINITE_THREADS \<or> totalThreads tp0 + 1 \<le> maxThreads (attr tp0)"
      "wait_while pendingWorkerThreadStart env0 (tp0\<lparr>pendingWorkerThreadStart := True\<rparr>) = Some (env1, tp2)"
      "tp1 = note_max tp2" "rc = 0" "next_rc cs = (0, cs1)"
  using assms by (auto simp: CreateWorker_def split: option.splits prod.splits if_splits)

lemma CreateWorker_less:
  assumes "CreateWorker cs env tp = Some (cs1, env1, tp1, rc)"
  shows "length env1 \<le> length env" and "rc = 0 \<Longrightarrow> length env1 < length env"
proof -
  have "length env1 \<le> length env \<and> (rc = 0 \<longrightarrow> length env1 < length env)"
    using assms
  proof (cases rule: CreateWorker_cases)
    case (started env0 tp0 tp2)
    then show ?thesis
      using wait_while_length [OF started(1)] wait_while_less [OF started(3)] by simp
  qed (auto dest: wait_while_length)
  then show "length env1 \<le> length env" and "rc = 0 \<Longrightarrow> length env1 < length env"
    by simp_all
qed

function add_worker_loop ::
    "int \<Rightarrow> int \<Rightarrow> int list \<Rightarrow> interference \<Rightarrow> ThreadPool \<Rightarrow> (int list \<times> interference \<times> ThreadPool) option" where
  "add_worker_loop jobs threads cs env tp =
     (if threads = 0 \<or> jobsPerThread (attr tp) \<le> trunc_div jobs threads \<or> totalThreads tp = busyThreads tp then
        (case CreateWorker cs env tp of
           None \<Rightarrow> None
         | Some (cs1, env1, tp1, rc) \<Rightarrow>
             if rc \<noteq> 0 then Some (cs1, env1, tp1) else add_worker_loop jobs (threads + 1) cs1 env1 tp1)
      else Some (cs, env, tp))"
  by pat_completeness auto
termination
  by (relation "measure (\<lambda>(jobs, threads, cs, env, tp). length env)") (auto dest: CreateWorker_less)

declare add_worker_loop.simps [simp del]

definition total_jobs :: "ThreadPool \<Rightarrow> int" where
  "total_jobs tp = q_size (highJobQ tp) + q_size (lowJobQ tp) + q_size (medJobQ tp)"

definition AddWorker :: "int list \<Rightarrow> interference \<Rightarrow> ThreadPool \<Rightarrow> (int list \<times> interference \<times> ThreadPool) option" where
  "AddWorker cs env tp = add_worker_loop (total_jobs tp) (totalThreads tp - persistentThreads tp) cs env tp"

fun create_workers ::
    "nat \<Rightarrow> int list \<Rightarrow> interference \<Rightarrow> ThreadPool \<Rightarrow> (int list \<times> interference \<times> ThreadPool \<times> int) option" where
  "create_workers 0 cs env tp = Some (cs, env, tp, 0)"
| "create_workers (Suc n) cs env tp =
     (case CreateWorker cs env tp of
        None \<Rightarrow> None
      | Some (cs1, env1, tp1, rc) \<Rightarrow>
          if rc \<noteq> 0 then Some (cs1, env1, tp1, rc) else create_workers n cs1 env1 tp1)"

section \<open>The interface\<close>

definition TPAttrInit :: ThreadPoolAttr where
  "TPAttrInit =
     \<lparr>minThreads = 1, maxThreads = 10, stackSize = 0, maxIdleTime = 10 * 1000, jobsPerThread = 10,
      maxJobsTotal = 100, starvationTime = 500, schedPolicy = 0\<rparr>"

text \<open>Calls of the free functions, in order.\<close>

type_synonym free_calls = "(nat \<times> nat) list"

definition free_call :: "ThreadPoolJob \<Rightarrow> free_calls" where
  "free_call j = (case free_func j of None \<Rightarrow> [] | Some f \<Rightarrow> [(f, arg j)])"

fun drain :: "ThreadPoolJob list \<Rightarrow> ThreadPool \<Rightarrow> free_calls \<times> ThreadPool" where
  "drain [] tp = ([], tp)"
| "drain (j # js) tp = (case drain js (FreeThreadPoolJob tp) of (calls, tp1) \<Rightarrow> (free_call j @ calls, tp1))"

definition ThreadPoolShutdown :: "interference \<Rightarrow> ThreadPool \<Rightarrow> (free_calls \<times> interference \<times> ThreadPool \<times> int) option" where
  "ThreadPoolShutdown env tp =
     (case drain (items (highJobQ tp)) tp of
        (c1, tp1) \<Rightarrow>
          (case drain (items (medJobQ tp)) (tp1\<lparr>highJobQ := q_empty\<rparr>) of
             (c2, tp2) \<Rightarrow>
               (case drain (items (lowJobQ tp)) (tp2\<lparr>medJobQ := q_empty\<rparr>) of
                  (c3, tp3) \<Rightarrow>
                    (case drain (case persistentJob tp of None \<Rightarrow> [] | Some j \<Rightarrow> [j]) (tp3\<lparr>lowJobQ := q_empty\<rparr>) of
                       (c4, tp4) \<Rightarrow>
                         (case wait_while (\<lambda>t. 0 < totalThreads t) env (tp4\<lparr>persistentJob := None, shutdown := True\<rparr>) of
                            None \<Rightarrow> None
                          | Some (env1, tp5) \<Rightarrow> Some (c1 @ c2 @ c3 @ c4, env1, tp5\<lparr>jobFreeList := 0\<rparr>, 0))))))"

text \<open>
  \<open>init_rc\<close> is the sum of the results of the mutex and condition initialisers, \<open>policy_rc\<close> the result of
  \<open>SetPolicyType\<close>, which asks the operating system.
\<close>

definition ThreadPoolInit ::
    "int \<Rightarrow> int \<Rightarrow> int list \<Rightarrow> interference \<Rightarrow> ThreadPool \<Rightarrow> ThreadPoolAttr option \<Rightarrow> (ThreadPool \<times> int) option" where
  "ThreadPoolInit init_rc policy_rc cs env tp a =
     (if init_rc \<noteq> 0 then Some (tp, EAGAIN)
      else
        (let tp1 = tp\<lparr>attr := (case a of Some x \<Rightarrow> x | None \<Rightarrow> TPAttrInit)\<rparr> in
         if policy_rc \<noteq> 0 then Some (tp1, INVALID_POLICY)
         else
           (let tp2 = tp1\<lparr>jobFreeList := 0, stats := StatsInit (stats tp1), highJobQ := q_empty, medJobQ := q_empty,
                          lowJobQ := q_empty, persistentJob := None, lastJobId := 0, shutdown := False,
                          totalThreads := 0, busyThreads := 0, persistentThreads := 0,
                          pendingWorkerThreadStart := False\<rparr>
            in case create_workers (nat (minThreads (attr tp2))) cs env tp2 of
                 None \<Rightarrow> None
               | Some (cs1, env1, tp3, rc) \<Rightarrow>
                   if rc \<noteq> 0 then map_option (\<lambda>(calls, env2, tp4, r). (tp4, rc)) (ThreadPoolShutdown env1 tp3)
                   else Some (tp3, rc))))"

definition ThreadPoolAddPersistent ::
    "timeval \<Rightarrow> ok_script \<Rightarrow> int list \<Rightarrow> interference \<Rightarrow> ThreadPool \<Rightarrow> ThreadPoolJob \<Rightarrow>
     (ThreadPool \<times> int \<times> int) option" where
  "ThreadPoolAddPersistent now ms cs env tp job =
     (case (if totalThreads tp < maxThreads (attr tp)
            then map_option (\<lambda>(cs1, env1, tp1, rc). (env1, tp1, 0)) (CreateWorker cs env tp)
            else Some (env, tp, if totalThreads tp - persistentThreads tp - 1 = 0 then EMAXTHREADS else 0)) of
        None \<Rightarrow> None
      | Some (env1, tp1, ret) \<Rightarrow>
          if ret \<noteq> 0 then Some (tp1, INVALID_JOB_ID, ret)
          else
            (case CreateThreadPoolJob now ms job (lastJobId tp1) tp1 of
               (ms1, tp2, None) \<Rightarrow> Some (tp2, INVALID_JOB_ID, EOUTOFMEM)
             | (ms1, tp2, Some temp) \<Rightarrow>
                 (case wait_while (\<lambda>t. persistentJob t \<noteq> None) env1 (tp2\<lparr>persistentJob := Some temp\<rparr>) of
                    None \<Rightarrow> None
                  | Some (env2, tp3) \<Rightarrow> Some (tp3\<lparr>lastJobId := lastJobId tp3 + 1\<rparr>, lastJobId tp3, 0))))"

text \<open>The new job is put into the queue of its priority; the flag tells whether there was memory for the node.\<close>

definition enqueue :: "ok_script \<Rightarrow> ThreadPool \<Rightarrow> ThreadPoolJob \<Rightarrow> ok_script \<times> ThreadPool \<times> bool" where
  "enqueue ms tp j =
     (if priority j = HIGH_PRIORITY then
        (case q_add_tail ms (highJobQ tp) j of (ms1, q, ok) \<Rightarrow> (ms1, tp\<lparr>highJobQ := q\<rparr>, ok))
      else if priority j = MED_PRIORITY then
        (case q_add_tail ms (medJobQ tp) j of (ms1, q, ok) \<Rightarrow> (ms1, tp\<lparr>medJobQ := q\<rparr>, ok))
      else
        (case q_add_tail ms (lowJobQ tp) j of (ms1, q, ok) \<Rightarrow> (ms1, tp\<lparr>lowJobQ := q\<rparr>, ok)))"

text \<open>The result: the pool, what is stored through \<open>jobId\<close> (\<open>None\<close>: nothing), the return code.\<close>

definition ThreadPoolAdd ::
    "timeval \<Rightarrow> ok_script \<Rightarrow> int list \<Rightarrow> interference \<Rightarrow> ThreadPool \<Rightarrow> ThreadPoolJob \<Rightarrow>
     (ThreadPool \<times> int option \<times> int) option" where
  "ThreadPoolAdd now ms cs env tp job =
     (if maxJobsTotal (attr tp) \<le> total_jobs tp then Some (tp, None, EOUTOFMEM)
      else
        (case CreateThreadPoolJob now ms job (lastJobId tp) tp of
           (ms1, tp1, None) \<Rightarrow> Some (tp1, Some INVALID_JOB_ID, EOUTOFMEM)
         | (ms1, tp1, Some temp) \<Rightarrow>
             (case enqueue ms1 tp1 temp of
                (ms2, tp2, ok) \<Rightarrow>
                  (case AddWorker cs env tp2 of
                     None \<Rightarrow> None
                   | Some (cs1, env1, tp3) \<Rightarrow>
                       let tp4 = (if ok then tp3 else FreeThreadPoolJob tp3)
                       in Some (tp4\<lparr>lastJobId := lastJobId tp4 + 1\<rparr>, Some (lastJobId tp4),
                                if ok then 0 else EOUTOFMEM)))))"

definition ThreadPoolRemove :: "ThreadPool \<Rightarrow> int \<Rightarrow> ThreadPool \<times> ThreadPoolJob option \<times> int" where
  "ThreadPoolRemove tp k =
     (case q_find (highJobQ tp) k of
        Some i \<Rightarrow>
          (FreeThreadPoolJob (tp\<lparr>highJobQ := q_del_at (highJobQ tp) i\<rparr>), Some (items (highJobQ tp) ! i), 0)
      | None \<Rightarrow>
          (case q_find (medJobQ tp) k of
             Some i \<Rightarrow>
               (FreeThreadPoolJob (tp\<lparr>medJobQ := q_del_at (medJobQ tp) i\<rparr>), Some (items (medJobQ tp) ! i), 0)
           | None \<Rightarrow>
               (case q_find (lowJobQ tp) k of
                  Some i \<Rightarrow>
                    (FreeThreadPoolJob (tp\<lparr>lowJobQ := q_del_at (lowJobQ tp) i\<rparr>), Some (items (lowJobQ tp) ! i), 0)
                | None \<Rightarrow>
                    (case persistentJob tp of
                       Some j \<Rightarrow>
                         if jobId j = k then (FreeThreadPoolJob (tp\<lparr>persistentJob := None\<rparr>), Some j, 0)
                         else (tp, None, INVALID_JOB_ID)
                     | None \<Rightarrow> (tp, None, INVALID_JOB_ID)))))"

definition ThreadPoolGetAttr :: "ThreadPool \<Rightarrow> ThreadPoolAttr" where
  "ThreadPoolGetAttr tp = attr tp"

definition ThreadPoolSetAttr ::
    "int \<Rightarrow> int list \<Rightarrow> interference \<Rightarrow> ThreadPool \<Rightarrow> ThreadPoolAttr option \<Rightarrow> (ThreadPool \<times> int) option" where
  "ThreadPoolSetAttr policy_rc cs env tp a =
     (if policy_rc \<noteq> 0 then Some (tp, INVALID_POLICY)
      else
        (let tp1 = tp\<lparr>attr := (case a of Some x \<Rightarrow> x | None \<Rightarrow> TPAttrInit)\<rparr> in
         case create_workers (nat (minThreads (attr tp1) - totalThreads tp1)) cs env tp1 of
           None \<Rightarrow> None
         | Some (cs1, env1, tp2, rc) \<Rightarrow>
             if rc \<noteq> 0 then map_option (\<lambda>(calls, env2, tp3, r). (tp3, rc)) (ThreadPoolShutdown env1 tp2)
             else Some (tp2, rc)))"

text \<open>The setters take a pointer that may be null (\<open>None\<close>).\<close>

definition non_null :: "('a \<Rightarrow> 'a \<times> int) \<Rightarrow> 'a option \<Rightarrow> 'a option \<times> int" where
  "non_null f x = (case x of None \<Rightarrow> (None, EINVAL) | Some y \<Rightarrow> (case f y of (z, rc) \<Rightarrow> (Some z, rc)))"

definition TPJobInit :: "ThreadPoolJob option \<Rightarrow> nat option \<Rightarrow> nat \<Rightarrow> ThreadPoolJob option \<times> int" where
  "TPJobInit job f a =
     non_null (\<lambda>j. case f of
        None \<Rightarrow> (j, EINVAL)
      | Some g \<Rightarrow> (j\<lparr>func := g, arg := a, priority := DEFAULT_PRIORITY, free_func := None\<rparr>, 0)) job"

definition TPJobSetPriority :: "ThreadPoolJob option \<Rightarrow> int \<Rightarrow> ThreadPoolJob option \<times> int" where
  "TPJobSetPriority job p =
     non_null (\<lambda>j. if p = LOW_PRIORITY \<or> p = MED_PRIORITY \<or> p = HIGH_PRIORITY then (j\<lparr>priority := p\<rparr>, 0)
                   else (j, EINVAL)) job"

definition TPJobSetFreeFunction :: "ThreadPoolJob option \<Rightarrow> nat option \<Rightarrow> ThreadPoolJob option \<times> int" where
  "TPJobSetFreeFunction job f = non_null (\<lambda>j. (j\<lparr>free_func := f\<rparr>, 0)) job"

definition TPAttrSetMaxThreads :: "ThreadPoolAttr option \<Rightarrow> int \<Rightarrow> ThreadPoolAttr option \<times> int" where
  "TPAttrSetMaxThreads a n = non_null (\<lambda>x. (x\<lparr>maxThreads := n\<rparr>, 0)) a"

definition TPAttrSetMinThreads :: "ThreadPoolAttr option \<Rightarrow> int \<Rightarrow> ThreadPoolAttr option \<times> int" where
  "TPAttrSetMinThreads a n = non_null (\<lambda>x. (x\<lparr>minThreads := n\<rparr>, 0)) a"

definition TPAttrSetStackSize :: "ThreadPoolAttr option \<Rightarrow> nat \<Rightarrow> ThreadPoolAttr option \<times> int" where
  "TPAttrSetStackSize a n = non_null (\<lambda>x. (x\<lparr>stackSize := n\<rparr>, 0)) a"

definition TPAttrSetIdleTime :: "ThreadPoolAttr option \<Rightarrow> int \<Rightarrow> ThreadPoolAttr option \<times> int" where
  "TPAttrSetIdleTime a n = non_null (\<lambda>x. (x\<lparr>maxIdleTime := n\<rparr>, 0)) a"

definition TPAttrSetJobsPerThread :: "ThreadPoolAttr option \<Rightarrow> int \<Rightarrow> ThreadPoolAttr option \<times> int" where
  "TPAttrSetJobsPerThread a n = non_null (\<lambda>x. (x\<lparr>jobsPerThread := n\<rparr>, 0)) a"

definition TPAttrSetStarvationTime :: "ThreadPoolAttr option \<Rightarrow> int \<Rightarrow> ThreadPoolAttr option \<times> int" where
  "TPAttrSetStarvationTime a n = non_null (\<lambda>x. (x\<lparr>starvationTime := n\<rparr>, 0)) a"

definition TPAttrSetSchedPolicy :: "ThreadPoolAttr option \<Rightarrow> int \<Rightarrow> ThreadPoolAttr option \<times> int" where
  "TPAttrSetSchedPolicy a n = non_null (\<lambda>x. (x\<lparr>schedPolicy := n\<rparr>, 0)) a"

definition TPAttrSetMaxJobsTotal :: "ThreadPoolAttr option \<Rightarrow> int \<Rightarrow> ThreadPoolAttr option \<times> int" where
  "TPAttrSetMaxJobsTotal a n = non_null (\<lambda>x. (x\<lparr>maxJobsTotal := n\<rparr>, 0)) a"

definition average :: "real \<Rightarrow> int \<Rightarrow> real" where
  "average time n = (if 0 < n then time / of_int n else 0)"

definition ThreadPoolGetStats :: "ThreadPool \<Rightarrow> ThreadPoolStats" where
  "ThreadPoolGetStats tp =
     (let s = stats tp in
      s\<lparr>avgWaitHQ := average (totalTimeHQ s) (totalJobsHQ s), avgWaitMQ := average (totalTimeMQ s) (totalJobsMQ s),
        avgWaitLQ := average (totalTimeLQ s) (totalJobsLQ s), st_totalThreads := totalThreads tp,
        st_persistentThreads := persistentThreads tp, currentJobsHQ := q_size (highJobQ tp),
        currentJobsLQ := q_size (lowJobQ tp), currentJobsMQ := q_size (medJobQ tp)\<rparr>)"

section \<open>Jobs are kept\<close>

lemmas stats_account_defs = StatsAccountLQ_def StatsAccountMQ_def StatsAccountHQ_def

definition queued :: "ThreadPool \<Rightarrow> ThreadPoolJob multiset" where
  "queued tp = mset (items (highJobQ tp)) + mset (items (medJobQ tp)) + mset (items (lowJobQ tp))"

definition waiting :: "ThreadPool \<Rightarrow> ThreadPoolJob multiset" where
  "waiting tp = queued tp + (case persistentJob tp of None \<Rightarrow> {#} | Some j \<Rightarrow> {#j#})"

definition all_ok :: "ok_script \<Rightarrow> bool" where
  "all_ok ms \<longleftrightarrow> False \<notin> set ms"

lemma pool_alloc_all_ok:
  "all_ok ms \<Longrightarrow> pool_alloc ms n = (ms1, n1, ok) \<Longrightarrow> ok \<and> all_ok ms1"
  by (cases ms) (auto simp: pool_alloc_def all_ok_def split: if_splits)

lemma q_add_tail_all_ok:
  "all_ok ms \<Longrightarrow> q_add_tail ms q j = (ms1, q1, ok) \<Longrightarrow> ok \<and> all_ok ms1 \<and> items q1 = items q @ [j]"
  by (auto simp: q_add_tail_def dest: pool_alloc_all_ok split: prod.splits)

lemma q_del_head: "items (q_del_at q 0) = tl (items q)"
  by (simp add: q_del_at_def drop_Suc)

text \<open>What a bump does not touch.\<close>

definition same_frame :: "ThreadPool \<Rightarrow> ThreadPool \<Rightarrow> bool" where
  "same_frame tp tp1 \<longleftrightarrow> attr tp1 = attr tp \<and> persistentJob tp1 = persistentJob tp \<and> shutdown tp1 = shutdown tp \<and>
     totalThreads tp1 = totalThreads tp \<and> busyThreads tp1 = busyThreads tp \<and>
     persistentThreads tp1 = persistentThreads tp \<and> lastJobId tp1 = lastJobId tp \<and>
     pendingWorkerThreadStart tp1 = pendingWorkerThreadStart tp \<and>
     st_workerThreads (stats tp1) = st_workerThreads (stats tp) \<and> st_idleThreads (stats tp1) = st_idleThreads (stats tp)"

lemma same_frame_refl [simp]: "same_frame tp tp"
  by (simp add: same_frame_def)

lemma same_frame_trans: "same_frame a b \<Longrightarrow> same_frame b c \<Longrightarrow> same_frame a c"
  by (simp add: same_frame_def)

lemma move_frame:
  "move_med now ms tp = (ms1, tp1) \<Longrightarrow> same_frame tp tp1" "move_low now ms tp = (ms1, tp1) \<Longrightarrow> same_frame tp tp1"
  by (auto simp: move_med_def move_low_def stats_account_defs same_frame_def Let_def split: prod.splits)

lemma BumpPriority_frame: "BumpPriority now ms tp = (ms1, tp1) \<Longrightarrow> same_frame tp tp1"
proof (induction now ms tp rule: BumpPriority.induct)
  case (1 now ms tp)
  then show ?case
    by (subst (asm) (3) BumpPriority.simps)
       (auto dest: move_frame intro: same_frame_trans split: if_splits prod.splits)
qed

lemma move_med_keeps:
  assumes "all_ok ms" and "bump_med now tp" and "move_med now ms tp = (ms1, tp1)"
  shows "all_ok ms1" and "queued tp1 = queued tp" and "items (highJobQ tp1) = items (highJobQ tp) @ [hd (items (medJobQ tp))]"
  using assms q_add_tail_all_ok [OF assms(1)]
  by (auto simp: move_med_def bump_med_def stats_account_defs queued_def q_del_head neq_Nil_conv Let_def split: prod.splits)

lemma move_low_keeps:
  assumes "all_ok ms" and "bump_low now tp" and "move_low now ms tp = (ms1, tp1)"
  shows "all_ok ms1" and "queued tp1 = queued tp" and "items (highJobQ tp1) = items (highJobQ tp)"
  using assms q_add_tail_all_ok [OF assms(1)]
  by (auto simp: move_low_def bump_low_def stats_account_defs queued_def q_del_head neq_Nil_conv Let_def split: prod.splits)

lemma BumpPriority_done: "BumpPriority now ms tp = (ms1, tp1) \<Longrightarrow> \<not> bump_med now tp1 \<and> \<not> bump_low now tp1"
proof (induction now ms tp rule: BumpPriority.induct)
  case (1 now ms tp)
  then show ?case
    by (subst (asm) (3) BumpPriority.simps) (auto split: if_splits prod.splits)
qed

lemma BumpPriority_keeps:
  "BumpPriority now ms tp = (ms1, tp1) \<Longrightarrow> all_ok ms \<Longrightarrow>
     all_ok ms1 \<and> queued tp1 = queued tp \<and> prefix (items (highJobQ tp)) (items (highJobQ tp1))"
proof (induction now ms tp rule: BumpPriority.induct)
  case (1 now ms tp)
  consider "bump_med now tp" | "\<not> bump_med now tp" "bump_low now tp" | "\<not> bump_med now tp" "\<not> bump_low now tp"
    by blast
  then show ?case
  proof cases
    case 1
    obtain ms2 tp2 where m: "move_med now ms tp = (ms2, tp2)"
      by fastforce
    note k = move_med_keeps [OF "1.prems"(2) 1 m]
    have "BumpPriority now ms2 tp2 = (ms1, tp1)"
      using "1.prems"(1) 1 m by (simp add: BumpPriority.simps [of now ms tp])
    then show ?thesis
      using "1.IH"(1) [OF 1 m [symmetric]] k by (auto simp: prefix_def)
  next
    case 2
    obtain ms2 tp2 where m: "move_low now ms tp = (ms2, tp2)"
      by fastforce
    note k = move_low_keeps [OF "1.prems"(2) 2(2) m]
    have "BumpPriority now ms2 tp2 = (ms1, tp1)"
      using "1.prems"(1) 2 m by (simp add: BumpPriority.simps [of now ms tp])
    then show ?thesis
      using "1.IH"(2) [OF 2 m [symmetric]] k by simp
  next
    case 3
    then show ?thesis
      using "1.prems" by (simp add: BumpPriority.simps [of now ms tp])
  qed
qed

section \<open>The number of threads\<close>

text \<open>
  What the other threads may do while a thread waits: they leave the attributes alone, and the number of threads
  grows only when the worker that is being started takes up its work. The functions that create workers then
  never exceed the limit.
\<close>

definition room :: "ThreadPool \<Rightarrow> bool" where
  "room tp \<longleftrightarrow> maxThreads (attr tp) = INFINITE_THREADS \<or>
     totalThreads tp + (if pendingWorkerThreadStart tp then 1 else 0) \<le> maxThreads (attr tp)"

locale thread_limit =
  fixes allowed :: "(ThreadPool \<Rightarrow> ThreadPool) \<Rightarrow> bool"
  assumes attr_kept: "allowed f \<Longrightarrow> attr (f tp) = attr tp"
    and one_starts: "allowed f \<Longrightarrow> totalThreads (f tp) \<le> totalThreads tp +
      (if pendingWorkerThreadStart tp \<and> \<not> pendingWorkerThreadStart (f tp) then 1 else 0)"
    and nothing_pending: "allowed f \<Longrightarrow> \<not> pendingWorkerThreadStart tp \<Longrightarrow> \<not> pendingWorkerThreadStart (f tp)"
begin

lemma allowed_room: "allowed f \<Longrightarrow> room tp \<Longrightarrow> room (f tp)"
  using attr_kept [of f tp] one_starts [of f tp] nothing_pending [of f tp] by (auto simp: room_def split: if_splits)

lemma wait_room:
  "wait_while P env tp = Some (env1, tp1) \<Longrightarrow> \<forall>f\<in>set env. allowed f \<Longrightarrow> room tp \<Longrightarrow>
     room tp1 \<and> attr tp1 = attr tp \<and> (\<forall>f\<in>set env1. allowed f)"
proof (induction P env tp rule: wait_while.induct)
  case (1 P env tp)
  show ?case
  proof (cases "P tp")
    case True
    then obtain f env' where "env = f # env'" "wait_while P env' (f tp) = Some (env1, tp1)"
      using "1.prems"(1) by (subst (asm) wait_while.simps) (auto split: list.splits)
    then show ?thesis
      using "1.IH" [of f env'] True "1.prems"(2,3) allowed_room attr_kept by auto
  next
    case False
    then show ?thesis
      using 1 by (simp add: wait_while.simps [of P env tp])
  qed
qed

lemma note_max_room [simp]: "room (note_max tp) = room tp" "attr (note_max tp) = attr tp"
  by (simp_all add: note_max_def room_def)

lemma CreateWorker_room:
  assumes "CreateWorker cs env tp = Some (cs1, env1, tp1, rc)" and "\<forall>f\<in>set env. allowed f" and "room tp"
  shows "room tp1 \<and> attr tp1 = attr tp \<and> (\<forall>f\<in>set env1. allowed f)"
  using assms(1)
proof (cases rule: CreateWorker_cases)
  case (started env0 tp0 tp2)
  note w = wait_room [OF started(1) assms(2,3)] wait_while_length [OF started(1)]
  have "room (tp0\<lparr>pendingWorkerThreadStart := True\<rparr>)"
    using started(2) by (simp add: room_def)
  then show ?thesis
    using wait_room [OF started(3)] w started(4) by simp
qed (use assms wait_room in \<open>auto dest: wait_room\<close>)

lemma add_worker_loop_room:
  "add_worker_loop jobs threads cs env tp = Some (cs1, env1, tp1) \<Longrightarrow> \<forall>f\<in>set env. allowed f \<Longrightarrow> room tp \<Longrightarrow>
     room tp1 \<and> attr tp1 = attr tp"
proof (induction jobs threads cs env tp rule: add_worker_loop.induct)
  case (1 jobs threads cs env tp)
  then show ?case
    by (subst (asm) (2) add_worker_loop.simps)
       (auto dest!: CreateWorker_room split: if_splits option.splits)
qed

lemma create_workers_room:
  "create_workers n cs env tp = Some (cs1, env1, tp1, rc) \<Longrightarrow> \<forall>f\<in>set env. allowed f \<Longrightarrow> room tp \<Longrightarrow>
     room tp1 \<and> attr tp1 = attr tp"
proof (induction n cs env tp rule: create_workers.induct)
  case (2 n cs env tp)
  then show ?case
    by (auto dest!: CreateWorker_room split: if_splits option.splits)
qed simp

end

text \<open>The critical sections of the workers are such changes. A thread starts only when its creator waits for it.\<close>

inductive worker_section :: "(ThreadPool \<Rightarrow> ThreadPool) \<Rightarrow> bool" where
  section_begin: "worker_section (\<lambda>tp. if pendingWorkerThreadStart tp then worker_begin tp else tp)"
| section_top: "worker_section (\<lambda>tp. fst (worker_top now tp w))"
| section_check: "worker_section (\<lambda>tp. fst (worker_check now rc tp))"
| section_pick: "worker_section (\<lambda>tp. fst (snd (worker_pick now ms tp w)))"
| section_exit: "worker_section worker_exit"

lemma take_job_frame:
  assumes "take_job now tp = (tp1, r)"
  shows "attr tp1 = attr tp \<and> totalThreads tp1 = totalThreads tp \<and>
    pendingWorkerThreadStart tp1 = pendingWorkerThreadStart tp \<and> busyThreads tp1 = busyThreads tp \<and>
    persistentThreads tp1 = persistentThreads tp \<and> persistentJob tp1 = persistentJob tp \<and>
    st_idleThreads (stats tp1) = st_idleThreads (stats tp)"
  using assms by (auto simp: take_job_def CalcWaitTime_def stats_account_defs Let_def split: if_splits)

lemma worker_pick_frame:
  assumes "worker_pick now ms tp w = (ms1, tp1, w1, r)"
  shows "attr tp1 = attr tp \<and> totalThreads tp1 = totalThreads tp \<and>
    pendingWorkerThreadStart tp1 = pendingWorkerThreadStart tp"
  using assms
  by (auto simp: worker_pick_def Let_def dest!: BumpPriority_frame take_job_frame
    simp: same_frame_def split: prod.splits option.splits if_splits)

lemma section_frames [simp]:
  "attr (fst (snd (worker_pick now ms tp w))) = attr tp"
  "totalThreads (fst (snd (worker_pick now ms tp w))) = totalThreads tp"
  "pendingWorkerThreadStart (fst (snd (worker_pick now ms tp w))) = pendingWorkerThreadStart tp"
  "attr (fst (worker_top now tp w)) = attr tp" "totalThreads (fst (worker_top now tp w)) = totalThreads tp"
  "pendingWorkerThreadStart (fst (worker_top now tp w)) = pendingWorkerThreadStart tp"
  "attr (fst (worker_check now rc tp)) = attr tp" "totalThreads (fst (worker_check now rc tp)) = totalThreads tp"
  "pendingWorkerThreadStart (fst (worker_check now rc tp)) = pendingWorkerThreadStart tp"
proof -
  obtain ms1 tp1 w1 r where "worker_pick now ms tp w = (ms1, tp1, w1, r)"
    by (metis prod.collapse)
  then show "attr (fst (snd (worker_pick now ms tp w))) = attr tp"
    "totalThreads (fst (snd (worker_pick now ms tp w))) = totalThreads tp"
    "pendingWorkerThreadStart (fst (snd (worker_pick now ms tp w))) = pendingWorkerThreadStart tp"
    using worker_pick_frame [of now ms tp w] by auto
qed (simp_all add: worker_top_def worker_check_def FreeThreadPoolJob_def Let_def)

interpretation workers: thread_limit worker_section
proof (unfold_locales, goal_cases)
  case (1 f tp)
  then show ?case
    by cases (simp_all add: worker_begin_def worker_exit_def)
next
  case (2 f tp)
  then show ?case
    by cases (simp_all add: worker_begin_def worker_exit_def)
next
  case (3 f tp)
  then show ?case
    by cases (simp_all add: worker_exit_def)
qed

lemma take_job_first:
  assumes "queued tp \<noteq> {#}"
  shows "\<exists>tp1 j. take_job now tp = (tp1, Some j) \<and> queued tp = add_mset j (queued tp1) \<and>
    j = hd (items (highJobQ tp) @ items (medJobQ tp) @ items (lowJobQ tp))"
proof -
  have m: "mset xs = add_mset (hd xs) (mset (tl xs))" if "xs \<noteq> []" for xs :: "ThreadPoolJob list"
    using that by (cases xs) auto
  consider "items (highJobQ tp) \<noteq> []" | "items (highJobQ tp) = []" "items (medJobQ tp) \<noteq> []"
    | "items (highJobQ tp) = []" "items (medJobQ tp) = []" "items (lowJobQ tp) \<noteq> []"
    using assms by (auto simp: queued_def)
  then show ?thesis
    by cases (simp_all add: take_job_def CalcWaitTime_def stats_account_defs Let_def queued_def q_del_head m priority_defs)
qed

section \<open>Shutdown and removal\<close>

lemma drain_spec:
  "drain js tp = (concat (map free_call js), (FreeThreadPoolJob ^^ length js) tp)"
  by (induction js arbitrary: tp) (simp_all add: funpow_swap1)

lemma free_jobs_frame:
  "items (highJobQ ((FreeThreadPoolJob ^^ n) tp)) = items (highJobQ tp)"
  "totalThreads ((FreeThreadPoolJob ^^ n) tp) = totalThreads tp"
  by (induction n) (simp_all add: FreeThreadPoolJob_def)

lemma q_find_added:
  assumes "\<forall>j\<in>set (items q). jobId j \<noteq> k" and "items q1 = items q @ [j]" and "jobId j = k"
  shows "q_find q1 k = Some (length (items q))"
proof -
  have "find (\<lambda>i. jobId (items q1 ! i) = k) [0..<length (items q)] = None"
    using assms(1,2) by (auto simp: find_None_iff nth_append)
  moreover have "[0..<length (items q1)] = [0..<length (items q)] @ [length (items q)]"
    using assms(2) by simp
  moreover have "find P (xs @ [x]) = (if P x then Some x else None)" if "find P xs = None" for P xs and x :: nat
    using that by (induction xs) (auto split: if_splits)
  ultimately show ?thesis
    using assms(2,3) by (simp add: q_find_def nth_append del: upt_Suc)
qed

lemma q_find_absent: "\<forall>j\<in>set (items q). jobId j \<noteq> k \<Longrightarrow> q_find q k = None"
  by (simp add: q_find_def find_None_iff)

lemma q_del_added: "items q1 = items q @ [j] \<Longrightarrow> items (q_del_at q1 (length (items q))) = items q"
  by (simp add: q_del_at_def)

text \<open>With nobody to start a worker, \<open>AddWorker\<close> can only fail to create one.\<close>

lemma AddWorker_alone:
  assumes "AddWorker cs [] tp = Some (cs1, env1, tp1)" and "\<not> pendingWorkerThreadStart tp"
  shows "\<exists>s. tp1 = tp\<lparr>stats := s\<rparr>"
proof -
  have w: "wait_while pendingWorkerThreadStart [] tp = Some ([], tp)"
    using assms(2) by (simp add: wait_while.simps)
  have "\<exists>s. tp2 = tp\<lparr>stats := s\<rparr> \<and> rc \<noteq> 0" if "CreateWorker cs [] tp = Some (cs2, env2, tp2, rc)" for cs2 env2 tp2 rc
    using that
  proof (cases rule: CreateWorker_cases)
    case (full tp0)
    then show ?thesis
      using w by (intro exI [of _ "stats tp"]) simp
  next
    case (refused tp0)
    then show ?thesis
      using w by (cases "st_maxThreads (stats tp) < totalThreads tp")
        (auto simp: note_max_def intro: exI [of _ "stats tp"])
  next
    case (started env0 tp0 tp2)
    then show ?thesis
      using w by (simp add: wait_while.simps)
  qed
  then show ?thesis
    using assms(1) unfolding AddWorker_def
    by (subst (asm) add_worker_loop.simps)
       (fastforce split: if_splits option.splits intro: exI [of _ "stats tp"])
qed

text \<open>What a successful \<open>ThreadPoolAdd\<close> did when no worker interfered: the new job was put into its queue.\<close>

lemma ThreadPoolAdd_enqueued:
  assumes "ThreadPoolAdd now ms cs [] tp job = Some (tp1, Some k, 0)" and "\<not> pendingWorkerThreadStart tp"
  shows "k = lastJobId tp \<and>
    (\<exists>ms1 n ms2 tp2 s. enqueue ms1 (tp\<lparr>jobFreeList := n\<rparr>) (job\<lparr>jobId := lastJobId tp, requestTime := now\<rparr>) = (ms2, tp2, True) \<and>
       tp1 = tp2\<lparr>stats := s, lastJobId := lastJobId tp + 1\<rparr>)"
proof -
  let ?j = "job\<lparr>jobId := lastJobId tp, requestTime := now\<rparr>"
  obtain ms1 n where c: "CreateThreadPoolJob now ms job (lastJobId tp) tp = (ms1, tp\<lparr>jobFreeList := n\<rparr>, Some ?j)"
    using assms(1) by (auto simp: ThreadPoolAdd_def CreateThreadPoolJob_def EOUTOFMEM_def bit29_of_def
      split: if_splits prod.splits)
  have nf: "\<not> maxJobsTotal (attr tp) \<le> total_jobs tp"
    using assms(1) by (auto simp: ThreadPoolAdd_def)
  obtain ms2 tp2 where e: "enqueue ms1 (tp\<lparr>jobFreeList := n\<rparr>) ?j = (ms2, tp2, True)"
    using assms(1) c by (auto simp: ThreadPoolAdd_def EOUTOFMEM_def bit29_of_def Let_def
      split: if_splits prod.splits option.splits)
  have pend: "\<not> pendingWorkerThreadStart tp2" and last: "lastJobId tp2 = lastJobId tp"
    using e assms(2) by (auto simp: enqueue_def split: if_splits prod.splits)
  obtain cs1 env1 tp3 where a: "AddWorker cs [] tp2 = Some (cs1, env1, tp3)"
    and r: "tp1 = tp3\<lparr>lastJobId := lastJobId tp3 + 1\<rparr>" "k = lastJobId tp3"
  proof (cases "AddWorker cs [] tp2")
    case None
    then show ?thesis
      using assms(1) c e by (simp add: ThreadPoolAdd_def split: if_splits)
  next
    case (Some x)
    obtain cs1 env1 tp3 where x: "x = (cs1, env1, tp3)"
      by (cases x) auto
    have "Some (tp3\<lparr>lastJobId := lastJobId tp3 + 1\<rparr>, Some (lastJobId tp3), 0) = Some (tp1, Some k, 0 :: int)"
      using assms(1) nf unfolding ThreadPoolAdd_def by (simp only: c e Some x if_False prod.case option.case Let_def if_True)
    then have "tp1 = tp3\<lparr>lastJobId := lastJobId tp3 + 1\<rparr>" "k = lastJobId tp3"
      by (metis Pair_inject option.inject)+
    then show ?thesis
      by (rule that [OF Some [unfolded x]])
  qed
  obtain s where s: "tp3 = tp2\<lparr>stats := s\<rparr>"
    using AddWorker_alone [OF a pend] by blast
  have k: "k = lastJobId tp"
    using r(2) s last by simp
  have "tp1 = tp2\<lparr>stats := s, lastJobId := lastJobId tp + 1\<rparr>"
    using r(1) s last by simp
  with k e show ?thesis
    by blast
qed

section \<open>Properties\<close>

text \<open>
  Property C31. \<open>BumpPriority\<close> ends, loses no job and leaves no job waiting too long at the head of a
  lower queue: the jobs of the three queues together are the same, those in the high priority
  queue keep their places, and afterwards the first job of the medium queue has waited less than \<open>starvationTime\<close>
  and the first one of the low queue less than \<open>maxIdleTime\<close> (the limit the code uses there). Memory for the list nodes is granted.
\<close>

theorem BumpPriority_no_starvation:
  assumes "all_ok ms"
  shows "\<exists>ms1 tp1. BumpPriority now ms tp = (ms1, tp1) \<and> queued tp1 = queued tp \<and>
    prefix (items (highJobQ tp)) (items (highJobQ tp1)) \<and>
    (items (medJobQ tp1) \<noteq> [] \<longrightarrow> DiffMillis now (requestTime (hd (items (medJobQ tp1)))) < starvationTime (attr tp)) \<and>
    (items (lowJobQ tp1) \<noteq> [] \<longrightarrow> DiffMillis now (requestTime (hd (items (lowJobQ tp1)))) < maxIdleTime (attr tp))"
proof -
  obtain ms1 tp1 where b: "BumpPriority now ms tp = (ms1, tp1)"
    by fastforce
  have "attr tp1 = attr tp"
    using BumpPriority_frame [OF b] by (simp add: same_frame_def)
  then show ?thesis
    using b BumpPriority_keeps [OF b assms] BumpPriority_done [OF b] by (auto simp: bump_med_def bump_low_def)
qed

definition demo_job :: "int \<Rightarrow> int \<Rightarrow> int \<Rightarrow> ThreadPoolJob" where
  "demo_job k p t = \<lparr>func = 1, arg = 7, free_func = Some 2, requestTime = \<lparr>tv_sec = t, tv_usec = 0\<rparr>, priority = p, jobId = k\<rparr>"

definition demo_stats :: ThreadPoolStats where
  "demo_stats = \<lparr>totalTimeHQ = 0, totalJobsHQ = 0, avgWaitHQ = 0, totalTimeMQ = 0, totalJobsMQ = 0, avgWaitMQ = 0,
     totalTimeLQ = 0, totalJobsLQ = 0, avgWaitLQ = 0, totalWorkTime = 0, totalIdleTime = 0, st_workerThreads = 0,
     st_idleThreads = 0, st_persistentThreads = 0, st_totalThreads = 0, st_maxThreads = 0, currentJobsHQ = 0,
     currentJobsLQ = 0, currentJobsMQ = 0\<rparr>"

definition demo_pool :: ThreadPool where
  "demo_pool = \<lparr>lastJobId = 5, shutdown = False, totalThreads = 1, pendingWorkerThreadStart = False, busyThreads = 0,
     persistentThreads = 0, jobFreeList = 0, lowJobQ = \<lparr>items = [demo_job 3 0 100], free_nodes = 0\<rparr>,
     medJobQ = \<lparr>items = [demo_job 4 1 90], free_nodes = 0\<rparr>, highJobQ = q_empty, persistentJob = None,
     attr = TPAttrInit, stats = demo_stats\<rparr>"

theorem BumpPriority_no_starvation_witness:
  "\<exists>ms1 tp1. BumpPriority \<lparr>tv_sec = 101, tv_usec = 0\<rparr> [] demo_pool = (ms1, tp1) \<and> queued tp1 = queued demo_pool"
  using BumpPriority_no_starvation [of "[]" "\<lparr>tv_sec = 101, tv_usec = 0\<rparr>" demo_pool] by (auto simp: all_ok_def)

text \<open>
  Property C25. A worker takes the waiting persistent job if there is one, otherwise the first job of the highest
  queue that has one, after the starved jobs were moved up. If there is any job and the pool is
  not shut down, it gets one; exactly that job has left the pool, and the worker counts as busy.
\<close>

theorem worker_pick_takes_job:
  assumes "all_ok ms" and "waiting tp \<noteq> {#}" and "\<not> shutdown tp"
  shows "\<exists>ms1 tp1 w1 j s. worker_pick now ms tp w = (ms1, tp1, w1, Some j) \<and> waiting tp = add_mset j (waiting tp1) \<and>
    wjob w1 = Some j \<and> busyThreads tp1 = busyThreads tp + 1 \<and>
    (case persistentJob tp of
       Some p \<Rightarrow> j = p \<and> persistentThreads tp1 = persistentThreads tp + 1
     | None \<Rightarrow> let tp0 = snd (BumpPriority now ms (tp\<lparr>stats := s\<rparr>)) in
         j = hd (items (highJobQ tp0) @ items (medJobQ tp0) @ items (lowJobQ tp0)))"
proof -
  define s where "s = (stats tp)\<lparr>st_idleThreads := st_idleThreads (stats tp) - 1,
    totalIdleTime := totalIdleTime (stats tp) + (of_int (tv_sec now) - of_int (wstart w))\<rparr>"
  obtain ms1 tp0 where b: "BumpPriority now ms (tp\<lparr>stats := s\<rparr>) = (ms1, tp0)"
    by fastforce
  have q: "queued tp0 = queued tp"
    using BumpPriority_keeps [OF b assms(1)] by (simp add: queued_def)
  have f: "shutdown tp0 = shutdown tp" "persistentJob tp0 = persistentJob tp" "busyThreads tp0 = busyThreads tp"
    "persistentThreads tp0 = persistentThreads tp"
    using BumpPriority_frame [OF b] by (simp_all add: same_frame_def)
  show ?thesis
  proof (cases "persistentJob tp")
    case (Some p)
    then have "worker_pick now ms tp w = (ms1, tp0\<lparr>persistentJob := None, persistentThreads := persistentThreads tp0 + 1,
          busyThreads := busyThreads tp0 + 1\<rparr>, w\<lparr>wstart := tv_sec now, wjob := Some p, wpersistent := 1\<rparr>, Some p)"
      using b f assms(3) by (simp add: worker_pick_def s_def)
    then show ?thesis
      using Some f q by (simp add: waiting_def queued_def)
  next
    case None
    then have "queued (upd_stats (\<lambda>s. s\<lparr>st_workerThreads := st_workerThreads s + 1\<rparr>) tp0) \<noteq> {#}"
      using assms(2) q by (simp add: waiting_def queued_def)
    from take_job_first [OF this, of now] obtain tp1 j where
      t: "take_job now (upd_stats (\<lambda>s. s\<lparr>st_workerThreads := st_workerThreads s + 1\<rparr>) tp0) = (tp1, Some j)"
        "queued tp0 = add_mset j (queued tp1)"
        "j = hd (items (highJobQ tp0) @ items (medJobQ tp0) @ items (lowJobQ tp0))"
      by (auto simp: queued_def)
    note tf = take_job_frame [OF t(1)]
    have "worker_pick now ms tp w = (ms1, tp1\<lparr>busyThreads := busyThreads tp1 + 1\<rparr>,
        w\<lparr>wstart := tv_sec now, wjob := Some j, wpersistent := 0\<rparr>, Some j)"
      using b f assms(3) None t(1) by (simp add: worker_pick_def s_def)
    moreover have "waiting tp = add_mset j (waiting (tp1\<lparr>busyThreads := busyThreads tp1 + 1\<rparr>))"
      using None q t(2) tf f by (simp add: waiting_def queued_def)
    ultimately show ?thesis
      using None f tf t(3) b by (intro exI [of _ ms1] exI [of _ "tp1\<lparr>busyThreads := busyThreads tp1 + 1\<rparr>"]
        exI [of _ "w\<lparr>wstart := tv_sec now, wjob := Some j, wpersistent := 0\<rparr>"] exI [of _ j] exI [of _ s]) simp
  qed
qed

theorem worker_pick_takes_job_witness:
  "\<exists>ms1 tp1 w1 j. worker_pick \<lparr>tv_sec = 101, tv_usec = 0\<rparr> [] demo_pool (worker_new \<lparr>tv_sec = 90, tv_usec = 0\<rparr>) =
     (ms1, tp1, w1, Some j) \<and> waiting demo_pool = add_mset j (waiting tp1)"
proof -
  have "waiting demo_pool \<noteq> {#}" "\<not> shutdown demo_pool"
    by (simp_all add: waiting_def queued_def demo_pool_def)
  then show ?thesis
    using worker_pick_takes_job [of "[]" demo_pool "\<lparr>tv_sec = 101, tv_usec = 0\<rparr>" "worker_new \<lparr>tv_sec = 90, tv_usec = 0\<rparr>"]
    by (auto simp: all_ok_def)
qed

text \<open>
  Whatever the other workers do in between, adding workers for a job respects the limit: if the pool had
  at most \<open>maxThreads\<close> threads (one that is being started included), it has so afterwards.
\<close>

lemma AddWorker_within_limit:
  assumes "\<forall>f\<in>set env. worker_section f" and "room tp" and "AddWorker cs env tp = Some (cs1, env1, tp1)"
  shows "room tp1 \<and> attr tp1 = attr tp"
  using workers.add_worker_loop_room [OF _ assms(1,2)] assms(3) by (simp add: AddWorker_def)

text \<open>
  Adding a job and removing it by the id it was given returns the job and leaves the queues as they were (no
  queued job has the next id, and no worker interferes).
\<close>

lemma ThreadPoolAdd_Remove:
  assumes "ThreadPoolAdd now ms cs [] tp job = Some (tp1, Some k, 0)"
    and "\<forall>j\<in>#queued tp. jobId j \<noteq> lastJobId tp" and "\<not> pendingWorkerThreadStart tp"
  shows "\<exists>tp2. ThreadPoolRemove tp1 k = (tp2, Some (job\<lparr>jobId := k, requestTime := now\<rparr>), 0) \<and> k = lastJobId tp \<and>
    items (highJobQ tp2) = items (highJobQ tp) \<and> items (medJobQ tp2) = items (medJobQ tp) \<and>
    items (lowJobQ tp2) = items (lowJobQ tp)"
proof -
  let ?j = "job\<lparr>jobId := lastJobId tp, requestTime := now\<rparr>"
  obtain ms1 n ms2 tp2 s where k: "k = lastJobId tp"
    and e: "enqueue ms1 (tp\<lparr>jobFreeList := n\<rparr>) ?j = (ms2, tp2, True)"
    and r: "tp1 = tp2\<lparr>stats := s, lastJobId := lastJobId tp + 1\<rparr>"
    using ThreadPoolAdd_enqueued [OF assms(1,3)] by blast
  have q: "highJobQ tp1 = highJobQ tp2" "medJobQ tp1 = medJobQ tp2" "lowJobQ tp1 = lowJobQ tp2"
    using r by simp_all
  have fresh: "\<forall>j\<in>set (items (highJobQ tp)). jobId j \<noteq> k" "\<forall>j\<in>set (items (medJobQ tp)). jobId j \<noteq> k"
    "\<forall>j\<in>set (items (lowJobQ tp)). jobId j \<noteq> k"
    using assms(2) k by (auto simp: queued_def)
  have added: "items (fst (snd (q_add_tail ms1 q ?j))) = items q @ [?j]" if "snd (snd (q_add_tail ms1 q ?j))" for q
    using that by (auto simp: q_add_tail_def split: prod.splits if_splits)
  consider (high) q1 where "items q1 = items (highJobQ tp) @ [?j]" "tp2 = tp\<lparr>jobFreeList := n, highJobQ := q1\<rparr>"
    | (med) q1 where "items q1 = items (medJobQ tp) @ [?j]" "tp2 = tp\<lparr>jobFreeList := n, medJobQ := q1\<rparr>"
    | (low) q1 where "items q1 = items (lowJobQ tp) @ [?j]" "tp2 = tp\<lparr>jobFreeList := n, lowJobQ := q1\<rparr>"
    using e added [of "highJobQ tp"] added [of "medJobQ tp"] added [of "lowJobQ tp"]
    by (auto simp: enqueue_def split: if_splits prod.splits)
  then show ?thesis
  proof cases
    case high
    then show ?thesis
      using q_find_added [OF fresh(1) high(1)] k q
      by (simp add: ThreadPoolRemove_def FreeThreadPoolJob_def q_del_added nth_append)
  next
    case med
    then show ?thesis
      using q_find_added [OF fresh(2) med(1)] q_find_absent [OF fresh(1)] k q
      by (simp add: ThreadPoolRemove_def FreeThreadPoolJob_def q_del_added nth_append)
  next
    case low
    then show ?thesis
      using q_find_added [OF fresh(3) low(1)] q_find_absent [OF fresh(1)] q_find_absent [OF fresh(2)] k q
      by (simp add: ThreadPoolRemove_def FreeThreadPoolJob_def q_del_added nth_append)
  qed
qed

text \<open>
  Property C38. \<open>ThreadPoolShutdown\<close> returns only when no thread is left, and then every job that was queued, and
  the waiting persistent job, was given to its free function exactly once, high before medium before low.
\<close>

theorem ThreadPoolShutdown_frees_jobs:
  assumes "ThreadPoolShutdown env tp = Some (calls, env1, tp1, rc)"
  shows "rc = 0 \<and> totalThreads tp1 \<le> 0 \<and>
    calls = concat (map free_call (items (highJobQ tp) @ items (medJobQ tp) @ items (lowJobQ tp) @
      (case persistentJob tp of None \<Rightarrow> [] | Some j \<Rightarrow> [j])))"
  using assms
  by (auto simp: ThreadPoolShutdown_def drain_spec dest!: wait_while_length split: option.splits)

theorem ThreadPoolShutdown_frees_jobs_witness:
  "\<exists>env1 tp1. ThreadPoolShutdown [worker_exit] demo_pool = Some ([(2, 7), (2, 7)], env1, tp1, 0) \<and> totalThreads tp1 \<le> 0"
proof -
  obtain calls env1 tp1 rc where s: "ThreadPoolShutdown [worker_exit] demo_pool = Some (calls, env1, tp1, rc)"
    by (simp add: ThreadPoolShutdown_def demo_pool_def drain_spec wait_while.simps worker_exit_def q_empty_def
      free_jobs_frame FreeThreadPoolJob_def)
  show ?thesis
    using ThreadPoolShutdown_frees_jobs [OF s] s
    by (simp add: demo_pool_def demo_job_def q_empty_def free_call_def)
qed

text \<open>
  The error codes of the pool cannot be told apart, and they are positive: each is \<open>2 ^ 29\<close>, because \<open>&\<close> was
  written where \<open>|\<close> was meant. So is the job id that stands for no job. A pool without a
  limit (\<open>INFINITE_THREADS\<close>) takes a persistent job without creating a worker for it, and
  refuses it when one worker is free.
\<close>

lemma pool_error_codes:
  "EMAXTHREADS = 2 ^ 29 \<and> INVALID_POLICY = EMAXTHREADS \<and> INVALID_JOB_ID = EMAXTHREADS \<and> EOUTOFMEM = EMAXTHREADS \<and>
   ThreadPoolAddPersistent now ms cs env
     (tp\<lparr>attr := (attr tp)\<lparr>maxThreads := INFINITE_THREADS\<rparr>, totalThreads := 1, persistentThreads := 0\<rparr>) job =
     Some (tp\<lparr>attr := (attr tp)\<lparr>maxThreads := INFINITE_THREADS\<rparr>, totalThreads := 1, persistentThreads := 0\<rparr>,
           2 ^ 29, 2 ^ 29)"
  by (simp add: ThreadPoolAddPersistent_def EMAXTHREADS_def INVALID_POLICY_def INVALID_JOB_ID_def EOUTOFMEM_def bit29_of_def)

end
