(* ===== verification/ThreadPoolSystem.thy ===== *)
theory ThreadPoolSystem
  imports ThreadPool
begin

text \<open>
  The pool together with its workers as a transition system. A step is one critical section of one worker, the end
  of a job outside of any critical section, the creation of a worker, or a call of the interface that
  does not wait. The counters of the pool are shown to count what they name in every reachable state.
\<close>

datatype worker_state =
    Starting
  | Top worker
  | Waiting worker
  | Running worker
  | Gone

text \<open>After the top of its loop, and each time it wakes up, a worker waits, ends or takes a job.\<close>

definition worker_decide ::
    "timeval \<Rightarrow> int \<Rightarrow> ok_script \<Rightarrow> ThreadPool \<Rightarrow> worker \<Rightarrow> ThreadPool \<times> worker_state" where
  "worker_decide now rc ms tp w =
     (case worker_check now rc tp of
        (tp1, WExit) \<Rightarrow> (worker_exit tp1, Gone)
      | (tp1, WWait t) \<Rightarrow> (tp1, Waiting w)
      | (tp1, WGo) \<Rightarrow>
          (case worker_pick now ms tp1 w of
             (ms1, tp2, w1, None) \<Rightarrow> (worker_exit tp2, Gone)
           | (ms1, tp2, w1, Some j) \<Rightarrow> (tp2, Running w1)))"

inductive pool_step :: "ThreadPool \<times> worker_state list \<Rightarrow> ThreadPool \<times> worker_state list \<Rightarrow> bool" where
  step_create: "\<not> pendingWorkerThreadStart tp \<Longrightarrow>
    maxThreads (attr tp) = INFINITE_THREADS \<or> totalThreads tp + 1 \<le> maxThreads (attr tp) \<Longrightarrow>
    pool_step (tp, ws) (tp\<lparr>pendingWorkerThreadStart := True\<rparr>, ws @ [Starting])"
| step_begin: "i < length ws \<Longrightarrow> ws ! i = Starting \<Longrightarrow>
    pool_step (tp, ws) (worker_begin tp, ws[i := Top (worker_new now)])"
| step_top: "i < length ws \<Longrightarrow> ws ! i = Top w \<Longrightarrow> worker_top now tp w = (tp1, w1) \<Longrightarrow>
    worker_decide now 0 ms tp1 w1 = (tp2, s) \<Longrightarrow> pool_step (tp, ws) (tp2, ws[i := s])"
| step_wake: "i < length ws \<Longrightarrow> ws ! i = Waiting w \<Longrightarrow> worker_decide now rc ms tp w = (tp1, s) \<Longrightarrow>
    pool_step (tp, ws) (tp1, ws[i := s])"
| step_run: "i < length ws \<Longrightarrow> ws ! i = Running w \<Longrightarrow> pool_step (tp, ws) (tp, ws[i := Top w])"
| step_add: "CreateThreadPoolJob now ms job (lastJobId tp) tp = (ms1, tp1, Some j) \<Longrightarrow>
    total_jobs tp < maxJobsTotal (attr tp) \<Longrightarrow> enqueue ms1 tp1 j = (ms2, tp2, ok) \<Longrightarrow>
    pool_step (tp, ws) (tp2\<lparr>lastJobId := lastJobId tp2 + 1\<rparr>, ws)"
| step_persistent: "CreateThreadPoolJob now ms job (lastJobId tp) tp = (ms1, tp1, Some j) \<Longrightarrow>
    persistentJob tp = None \<Longrightarrow> pool_step (tp, ws) (tp1\<lparr>persistentJob := Some j\<rparr>, ws)"
| step_remove: "ThreadPoolRemove tp k = (tp1, j, rc) \<Longrightarrow> pool_step (tp, ws) (tp1, ws)"
| step_attr: "pool_step (tp, ws) (tp\<lparr>attr := a\<rparr>, ws)"
| step_note: "pool_step (tp, ws) (note_max tp, ws)"
| step_shutdown: "pool_step (tp, ws)
    (tp\<lparr>highJobQ := q_empty, medJobQ := q_empty, lowJobQ := q_empty, persistentJob := None, shutdown := True, jobFreeList := n\<rparr>, ws)"

inductive_cases pool_stepE: "pool_step st st1"

definition fresh_pool :: "ThreadPoolAttr \<Rightarrow> ThreadPoolStats \<Rightarrow> ThreadPool" where
  "fresh_pool a s =
     \<lparr>lastJobId = 0, shutdown = False, totalThreads = 0, pendingWorkerThreadStart = False, busyThreads = 0,
      persistentThreads = 0, jobFreeList = 0, lowJobQ = q_empty, medJobQ = q_empty, highJobQ = q_empty,
      persistentJob = None, attr = a, stats = StatsInit s\<rparr>"

inductive reachable :: "ThreadPool \<times> worker_state list \<Rightarrow> bool" where
  start: "reachable (fresh_pool a s, [])"
| step: "reachable st \<Longrightarrow> pool_step st st1 \<Longrightarrow> reachable st1"

section \<open>Counting workers\<close>

fun has_job :: "worker_state \<Rightarrow> worker option" where
  "has_job (Running w) = Some w"
| "has_job (Top w) = (if wjob w = None then None else Some w)"
| "has_job _ = None"

definition alive :: "worker_state \<Rightarrow> bool" where
  "alive s \<longleftrightarrow> s \<noteq> Starting \<and> s \<noteq> Gone"

definition busy :: "worker_state \<Rightarrow> bool" where
  "busy s \<longleftrightarrow> has_job s \<noteq> None"

definition busy_as :: "int \<Rightarrow> worker_state \<Rightarrow> bool" where
  "busy_as k s \<longleftrightarrow> (case has_job s of None \<Rightarrow> False | Some w \<Rightarrow> wpersistent w = k)"

fun idle :: "worker_state \<Rightarrow> bool" where
  "idle (Waiting w) = True"
| "idle _ = False"

definition count_of :: "(worker_state \<Rightarrow> bool) \<Rightarrow> worker_state list \<Rightarrow> int" where
  "count_of P ws = int (length (filter P ws))"

text \<open>
  A worker at the top of its loop without a job has just been started; one with a job, or running, has noted which
  kind of job it is.
\<close>

fun worker_ok :: "worker_state \<Rightarrow> bool" where
  "worker_ok (Top w) = (if wjob w = None then wpersistent w = -1 else wpersistent w = 0 \<or> wpersistent w = 1)"
| "worker_ok (Running w) = (wjob w \<noteq> None \<and> (wpersistent w = 0 \<or> wpersistent w = 1))"
| "worker_ok (Waiting w) = (wjob w = None)"
| "worker_ok _ = True"

definition counters_ok :: "ThreadPool \<times> worker_state list \<Rightarrow> bool" where
  "counters_ok st \<longleftrightarrow> (case st of (tp, ws) \<Rightarrow>
     totalThreads tp = count_of alive ws \<and> busyThreads tp = count_of busy ws \<and>
     persistentThreads tp = count_of (busy_as 1) ws \<and> st_workerThreads (stats tp) = count_of (busy_as 0) ws \<and>
     st_idleThreads (stats tp) = count_of idle ws \<and>
     count_of (\<lambda>s. s = Starting) ws = (if pendingWorkerThreadStart tp then 1 else 0) \<and>
     (\<forall>s\<in>set ws. worker_ok s))"

lemma count_of_append [simp]: "count_of P (ws @ [s]) = count_of P ws + (if P s then 1 else 0)"
  by (simp add: count_of_def)

lemma count_of_Nil [simp]: "count_of P [] = 0"
  by (simp add: count_of_def)

lemma count_of_update:
  assumes "i < length ws"
  shows "count_of P (ws[i := s]) = count_of P ws + (if P s then 1 else 0) - (if P (ws ! i) then 1 else 0)"
proof -
  have "ws = take i ws @ ws ! i # drop (Suc i) ws"
    using assms by (rule id_take_nth_drop)
  then have "count_of P ws = int (length (filter P (take i ws @ ws ! i # drop (Suc i) ws)))"
    by (simp add: count_of_def)
  then show ?thesis
    using assms by (simp add: count_of_def upd_conv_take_nth_drop)
qed

text \<open>The effect of one section on the counters, in terms of the state the worker is in afterwards.\<close>

lemma take_job_workers:
  "take_job now tp = (tp1, r) \<Longrightarrow>
     st_workerThreads (stats tp1) = st_workerThreads (stats tp) - (if r = None then 1 else 0)"
  by (auto simp: take_job_def CalcWaitTime_def stats_account_defs Let_def split: if_splits)

lemma worker_pick_counts:
  assumes "worker_pick now ms tp w = (ms1, tp1, w1, r)"
  shows "totalThreads tp1 = totalThreads tp" "pendingWorkerThreadStart tp1 = pendingWorkerThreadStart tp"
    "st_idleThreads (stats tp1) = st_idleThreads (stats tp) - 1"
    "busyThreads tp1 = busyThreads tp + (if r = None then 0 else 1)"
    "r \<noteq> None \<Longrightarrow> wjob w1 = r \<and> (wpersistent w1 = 0 \<or> wpersistent w1 = 1)"
    "persistentThreads tp1 = persistentThreads tp + (if r \<noteq> None \<and> wpersistent w1 = 1 then 1 else 0)"
    "st_workerThreads (stats tp1) = st_workerThreads (stats tp) + (if r \<noteq> None \<and> wpersistent w1 = 0 then 1 else 0)"
proof -
  define tp0 where "tp0 = upd_stats (\<lambda>s. s\<lparr>st_idleThreads := st_idleThreads s - 1,
    totalIdleTime := totalIdleTime s + (of_int (tv_sec now) - of_int (wstart w))\<rparr>) tp"
  obtain ms2 tp2 where b: "BumpPriority now ms tp0 = (ms2, tp2)"
    by fastforce
  note f = BumpPriority_frame [OF b, unfolded same_frame_def]
  obtain tp3 r3 where t: "take_job now (upd_stats (\<lambda>s. s\<lparr>st_workerThreads := st_workerThreads s + 1\<rparr>) tp2) = (tp3, r3)"
    by fastforce
  note tf = take_job_frame [OF t] take_job_workers [OF t]
  note r = assms [unfolded worker_pick_def Let_def, folded tp0_def, unfolded b prod.case t]
  show "totalThreads tp1 = totalThreads tp" "pendingWorkerThreadStart tp1 = pendingWorkerThreadStart tp"
    "st_idleThreads (stats tp1) = st_idleThreads (stats tp) - 1"
    "busyThreads tp1 = busyThreads tp + (if r = None then 0 else 1)"
    "r \<noteq> None \<Longrightarrow> wjob w1 = r \<and> (wpersistent w1 = 0 \<or> wpersistent w1 = 1)"
    "persistentThreads tp1 = persistentThreads tp + (if r \<noteq> None \<and> wpersistent w1 = 1 then 1 else 0)"
    "st_workerThreads (stats tp1) = st_workerThreads (stats tp) + (if r \<noteq> None \<and> wpersistent w1 = 0 then 1 else 0)"
    using r f tf by (auto simp: tp0_def split: if_splits option.splits)
qed

lemma worker_decide_counts:
  assumes "worker_decide now rc ms tp w = (tp1, s)" and "wjob w = None"
  shows "totalThreads tp1 = totalThreads tp - (if alive s then 0 else 1)"
    "busyThreads tp1 = busyThreads tp + (if busy s then 1 else 0)"
    "persistentThreads tp1 = persistentThreads tp + (if busy_as 1 s then 1 else 0)"
    "st_workerThreads (stats tp1) = st_workerThreads (stats tp) + (if busy_as 0 s then 1 else 0)"
    "st_idleThreads (stats tp1) = st_idleThreads (stats tp) - (if idle s then 0 else 1)"
    "pendingWorkerThreadStart tp1 = pendingWorkerThreadStart tp" "worker_ok s" "s \<noteq> Starting"
proof -
  obtain tp2 d where c: "worker_check now rc tp = (tp2, d)"
    by fastforce
  obtain ms1 tp3 w1 r where p: "worker_pick now ms tp2 w = (ms1, tp3, w1, r)"
    by (metis prod.collapse)
  note k = worker_pick_counts [OF p]
  note e = assms(1) [unfolded worker_decide_def c prod.case p]
  note simps = worker_exit_def alive_def busy_def busy_as_def
  have cc: "totalThreads tp2 = totalThreads tp" "busyThreads tp2 = busyThreads tp"
    "persistentThreads tp2 = persistentThreads tp" "st_workerThreads (stats tp2) = st_workerThreads (stats tp)"
    "pendingWorkerThreadStart tp2 = pendingWorkerThreadStart tp"
    "st_idleThreads (stats tp2) = st_idleThreads (stats tp) - (if d = WExit then 1 else 0)"
    using c by (auto simp: worker_check_def split: if_splits)
  consider (exit) "d = WExit" | (wait) t where "d = WWait t" | (none) "d = WGo" "r = None" | (job) j where "d = WGo" "r = Some j"
    by (cases d; cases r) auto
  then show "totalThreads tp1 = totalThreads tp - (if alive s then 0 else 1)"
    "busyThreads tp1 = busyThreads tp + (if busy s then 1 else 0)"
    "persistentThreads tp1 = persistentThreads tp + (if busy_as 1 s then 1 else 0)"
    "st_workerThreads (stats tp1) = st_workerThreads (stats tp) + (if busy_as 0 s then 1 else 0)"
    "st_idleThreads (stats tp1) = st_idleThreads (stats tp) - (if idle s then 0 else 1)"
    "pendingWorkerThreadStart tp1 = pendingWorkerThreadStart tp" "worker_ok s" "s \<noteq> Starting"
    by (atomize (full), cases) (use e cc k assms(2) in \<open>auto simp: simps\<close>)
qed

lemma worker_top_counts:
  assumes "worker_top now tp w = (tp1, w1)" and "worker_ok (Top w)"
  shows "wjob w1 = None" "totalThreads tp1 = totalThreads tp" "pendingWorkerThreadStart tp1 = pendingWorkerThreadStart tp"
    "busyThreads tp1 = busyThreads tp - (if busy (Top w) then 1 else 0)"
    "persistentThreads tp1 = persistentThreads tp - (if busy_as 1 (Top w) then 1 else 0)"
    "st_workerThreads (stats tp1) = st_workerThreads (stats tp) - (if busy_as 0 (Top w) then 1 else 0)"
    "st_idleThreads (stats tp1) = st_idleThreads (stats tp) + 1"
  using assms by (auto simp: worker_top_def FreeThreadPoolJob_def busy_def busy_as_def Let_def split: if_splits)

section \<open>The invariant\<close>

text \<open>A call of the interface changes no counter.\<close>

definition same_counters :: "ThreadPool \<Rightarrow> ThreadPool \<Rightarrow> bool" where
  "same_counters tp tp1 \<longleftrightarrow> totalThreads tp1 = totalThreads tp \<and> busyThreads tp1 = busyThreads tp \<and>
     persistentThreads tp1 = persistentThreads tp \<and> pendingWorkerThreadStart tp1 = pendingWorkerThreadStart tp \<and>
     st_workerThreads (stats tp1) = st_workerThreads (stats tp) \<and> st_idleThreads (stats tp1) = st_idleThreads (stats tp)"

lemma same_counters_ok: "same_counters tp tp1 \<Longrightarrow> counters_ok (tp, ws) \<Longrightarrow> counters_ok (tp1, ws)"
  by (simp add: same_counters_def counters_ok_def)

lemma interface_counters:
  "CreateThreadPoolJob now ms job k tp = (ms1, tp1, r) \<Longrightarrow> same_counters tp tp1"
  "enqueue ms1 tp1 j = (ms2, tp2, ok) \<Longrightarrow> same_counters tp1 tp2"
  "ThreadPoolRemove tp k = (tp1, q, rc) \<Longrightarrow> same_counters tp tp1" "same_counters tp (note_max tp)"
  by (auto simp: CreateThreadPoolJob_def enqueue_def ThreadPoolRemove_def FreeThreadPoolJob_def note_max_def
    same_counters_def split: prod.splits if_splits option.splits)

lemma set_update_worker_ok: "\<forall>s\<in>set ws. worker_ok s \<Longrightarrow> worker_ok s' \<Longrightarrow> \<forall>s\<in>set (ws[i := s']). worker_ok s"
  using set_update_subset_insert [of ws i s'] by auto

lemma update_counters:
  assumes "counters_ok (tp, ws)" and "i < length ws" and "worker_ok s"
    and "totalThreads tp1 = totalThreads tp + (if alive s then 1 else 0) - (if alive (ws ! i) then 1 else 0)"
    and "busyThreads tp1 = busyThreads tp + (if busy s then 1 else 0) - (if busy (ws ! i) then 1 else 0)"
    and "persistentThreads tp1 = persistentThreads tp + (if busy_as 1 s then 1 else 0) - (if busy_as 1 (ws ! i) then 1 else 0)"
    and "st_workerThreads (stats tp1) =
      st_workerThreads (stats tp) + (if busy_as 0 s then 1 else 0) - (if busy_as 0 (ws ! i) then 1 else 0)"
    and "st_idleThreads (stats tp1) = st_idleThreads (stats tp) + (if idle s then 1 else 0) - (if idle (ws ! i) then 1 else 0)"
    and "(if pendingWorkerThreadStart tp1 then 1 else 0) =
      (if pendingWorkerThreadStart tp then 1 else 0) + (if s = Starting then 1 else 0) - (if ws ! i = Starting then 1 else 0 :: int)"
  shows "counters_ok (tp1, ws[i := s])"
  using assms set_update_worker_ok [of ws s i] by (simp add: counters_ok_def count_of_update [OF assms(2)])

lemma starting_pending:
  assumes "counters_ok (tp, ws)" and "i < length ws" and "ws ! i = Starting"
  shows "pendingWorkerThreadStart tp"
proof (rule ccontr)
  assume "\<not> pendingWorkerThreadStart tp"
  then have "filter (\<lambda>s. s = Starting) ws = []"
    using assms(1) by (simp add: counters_ok_def count_of_def)
  moreover have "ws ! i \<in> set ws"
    using assms(2) by simp
  ultimately show False
    using assms(3) by (auto simp: filter_empty_conv)
qed

lemma pool_step_counters: "pool_step st st1 \<Longrightarrow> counters_ok st \<Longrightarrow> counters_ok st1"
proof (induction rule: pool_step.induct)
  case (step_create tp ws)
  then show ?case
    by (simp add: counters_ok_def alive_def busy_def busy_as_def)
next
  case (step_begin i ws tp now)
  then show ?case
    using starting_pending [OF step_begin(3,1,2)]
    by (intro update_counters [OF step_begin(3,1)])
       (simp_all add: worker_begin_def worker_new_def alive_def busy_def busy_as_def)
next
  case (step_top i ws w now tp tp1 w1 ms tp2 s)
  have "worker_ok (Top w)"
    using step_top(1,2,5) nth_mem [of i ws] by (auto simp: counters_ok_def)
  note t = worker_top_counts [OF step_top(3) this]
  note d = worker_decide_counts [OF step_top(4) t(1)]
  show ?case
    by (rule update_counters [OF step_top(5,1) d(7)]) (use t d step_top(2) in \<open>simp_all add: alive_def\<close>)
next
  case (step_wake i ws w now rc ms tp tp1 s)
  have "wjob w = None"
    using step_wake(1,2,4) nth_mem [of i ws] by (auto simp: counters_ok_def)
  note d = worker_decide_counts [OF step_wake(3) this]
  show ?case
    by (rule update_counters [OF step_wake(4,1) d(7)])
       (use d step_wake(2) in \<open>simp_all add: alive_def busy_def busy_as_def\<close>)
next
  case (step_run i ws w tp)
  have "worker_ok (Running w)"
    using step_run(1,2,3) nth_mem [of i ws] by (auto simp: counters_ok_def)
  then show ?case
    by (intro update_counters [OF step_run(3,1)]) (use step_run(2) in \<open>auto simp: alive_def busy_def busy_as_def\<close>)
next
  case (step_add now ms job tp ms1 tp1 j ms2 tp2 ok ws)
  have "same_counters tp (tp2\<lparr>lastJobId := lastJobId tp2 + 1\<rparr>)"
    using interface_counters(1) [OF step_add(1)] interface_counters(2) [OF step_add(3)] by (simp add: same_counters_def)
  then show ?case
    using step_add(4) by (rule same_counters_ok)
next
  case (step_persistent now ms job tp ms1 tp1 j ws)
  have "same_counters tp (tp1\<lparr>persistentJob := Some j\<rparr>)"
    using interface_counters(1) [OF step_persistent(1)] by (simp add: same_counters_def)
  then show ?case
    using step_persistent(3) by (rule same_counters_ok)
next
  case (step_remove tp k tp1 j rc ws)
  then show ?case
    using interface_counters(3) same_counters_ok by blast
next
  case (step_attr tp ws a)
  then show ?case
    by (simp add: counters_ok_def)
next
  case (step_note tp ws)
  then show ?case
    using interface_counters(4) same_counters_ok by blast
next
  case (step_shutdown tp ws n)
  then show ?case
    by (simp add: counters_ok_def)
qed

lemma reachable_counters: "reachable st \<Longrightarrow> counters_ok st"
proof (induction rule: reachable.induct)
  case (start a s)
  then show ?case
    by (simp add: counters_ok_def fresh_pool_def StatsInit_def)
next
  case (step st st1)
  then show ?case
    using pool_step_counters by blast
qed

section \<open>Properties\<close>

text \<open>
  Property C4. In every reachable state of the pool and its workers the counters count what they name: \<open>totalThreads\<close> the workers
  that have started and not ended, \<open>busyThreads\<close> those with a job, \<open>persistentThreads\<close> those with a persistent one,
  \<open>stats.workerThreads\<close> those with an ordinary one, \<open>stats.idleThreads\<close> those that wait; at most one worker is being started, and exactly
  when \<open>pendingWorkerThreadStart\<close> says so. Hence \<open>0 \<le> persistentThreads \<le> busyThreads \<le> totalThreads\<close>.
\<close>

theorem pool_counters:
  assumes "reachable (tp, ws)"
  shows "totalThreads tp = count_of alive ws \<and> busyThreads tp = count_of busy ws \<and>
    persistentThreads tp = count_of (busy_as 1) ws \<and> st_workerThreads (stats tp) = count_of (busy_as 0) ws \<and>
    st_idleThreads (stats tp) = count_of idle ws \<and>
    count_of (\<lambda>s. s = Starting) ws = (if pendingWorkerThreadStart tp then 1 else 0) \<and>
    0 \<le> persistentThreads tp \<and> persistentThreads tp \<le> busyThreads tp \<and> busyThreads tp \<le> totalThreads tp"
proof -
  have mono: "count_of P ws \<le> count_of Q ws" if "\<And>s. P s \<Longrightarrow> Q s" for P Q
    using that by (induction ws) (auto simp: count_of_def)
  have "count_of (busy_as 1) ws \<le> count_of busy ws"
    by (rule mono) (auto simp: busy_as_def busy_def split: option.splits)
  moreover have "count_of busy ws \<le> count_of alive ws"
    by (rule mono) (auto simp: busy_def alive_def)
  moreover have "0 \<le> count_of (busy_as 1) ws"
    by (simp add: count_of_def)
  ultimately show ?thesis
    using reachable_counters [OF assms] by (simp add: counters_ok_def)
qed

theorem pool_counters_witness:
  "\<exists>tp. reachable (tp, [Waiting (worker_new \<lparr>tv_sec = 0, tv_usec = 0\<rparr>)]) \<and> totalThreads tp = 1 \<and> busyThreads tp = 0"
proof -
  let ?t = "\<lparr>tv_sec = 0, tv_usec = 0\<rparr>" and ?tp = "fresh_pool TPAttrInit demo_stats"
  have "reachable (?tp\<lparr>pendingWorkerThreadStart := True\<rparr>, [] @ [Starting])"
    by (rule reachable.step [OF reachable.start step_create]) (simp_all add: fresh_pool_def TPAttrInit_def)
  then have "reachable (worker_begin (?tp\<lparr>pendingWorkerThreadStart := True\<rparr>), [Starting][0 := Top (worker_new ?t)])"
    by (intro reachable.step [OF _ step_begin]) simp_all
  moreover obtain tp1 w1 where t: "worker_top ?t (worker_begin (?tp\<lparr>pendingWorkerThreadStart := True\<rparr>)) (worker_new ?t) = (tp1, w1)"
    by fastforce
  moreover have "worker_decide ?t 0 [] tp1 w1 = (tp1, Waiting (worker_new ?t))"
    using t by (auto simp: worker_top_def worker_begin_def worker_new_def fresh_pool_def TPAttrInit_def worker_decide_def
      worker_check_def no_jobs_def q_empty_def ETIMEDOUT_def)
  ultimately have "reachable (tp1, [Top (worker_new ?t)][0 := Waiting (worker_new ?t)])"
    by (intro reachable.step [OF _ step_top]) simp_all
  then have r: "reachable (tp1, [Waiting (worker_new ?t)])"
    by simp
  show ?thesis
    using pool_counters [OF r] r by (auto simp: count_of_def alive_def busy_def)
qed

end
