(* ===== verification/TimerThread.thy ===== *)
theory TimerThread
  imports ThreadPool
begin

text \<open>
  The timer thread of \<^verbatim>\<open>compa/src/threadutil/TimerThread.cpp\<close>: a queue of events ordered by time, and a worker that
  hands the events that are due to the thread pool. One round of the worker's loop is a function; the
  mutex of the timer is held during a round. The timer pointer is not null.
\<close>

section \<open>Data\<close>

definition INVALID_EVENT_ID :: int where "INVALID_EVENT_ID = bit29_of (- 10)"

datatype TimeoutType = ABS_SEC | REL_SEC

datatype Duration = SHORT_TERM | PERSISTENT

record TimerEvent =
  job :: ThreadPoolJob
  eventTime :: int
  persistent :: Duration
  event_id :: int

record TimerThread =
  lastEventId :: int
  eventQ :: "TimerEvent list"
  queue_nodes :: nat
  timer_shutdown :: bool
  freeEvents :: nat

definition FREE_EVENTS :: nat where "FREE_EVENTS = 100"

section \<open>Operations\<close>

definition FreeTimerEvent :: "TimerThread \<Rightarrow> TimerThread" where
  "FreeTimerEvent timer = timer\<lparr>freeEvents := pool_free FREE_EVENTS (freeEvents timer)\<rparr>"

definition CalculateEventTime :: "int \<Rightarrow> int \<Rightarrow> TimeoutType \<Rightarrow> int" where
  "CalculateEventTime now timeout type = (case type of ABS_SEC \<Rightarrow> timeout | REL_SEC \<Rightarrow> timeout + now)"

definition CreateTimerEvent ::
    "ok_script \<Rightarrow> TimerThread \<Rightarrow> ThreadPoolJob \<Rightarrow> Duration \<Rightarrow> int \<Rightarrow> int \<Rightarrow> ok_script \<times> TimerThread \<times> TimerEvent option" where
  "CreateTimerEvent ms timer j d time k =
     (case pool_alloc ms (freeEvents timer) of
        (ms1, n, ok) \<Rightarrow>
          (ms1, timer\<lparr>freeEvents := n\<rparr>,
           if ok then Some \<lparr>job = j, eventTime = time, persistent = d, event_id = k\<rparr> else None))"

text \<open>The place of a new event: before the first event that is not earlier.\<close>

fun insert_event :: "TimerEvent \<Rightarrow> TimerEvent list \<Rightarrow> TimerEvent list" where
  "insert_event e [] = [e]"
| "insert_event e (x # xs) = (if eventTime e \<le> eventTime x then e # x # xs else x # insert_event e xs)"

definition TimerThreadSchedule ::
    "int \<Rightarrow> ok_script \<Rightarrow> TimerThread \<Rightarrow> int \<Rightarrow> TimeoutType \<Rightarrow> ThreadPoolJob \<Rightarrow> Duration \<Rightarrow>
     ok_script \<times> TimerThread \<times> int \<times> int" where
  "TimerThreadSchedule now ms timer timeout type j d =
     (let time = CalculateEventTime now timeout type in
      case CreateTimerEvent ms timer j d time (lastEventId timer) of
        (ms1, t1, None) \<Rightarrow> (ms1, t1, INVALID_EVENT_ID, EOUTOFMEM)
      | (ms1, t1, Some e) \<Rightarrow>
          (case pool_alloc ms1 (queue_nodes t1) of
             (ms2, n, ok) \<Rightarrow>
               let t2 = (if ok then t1\<lparr>queue_nodes := n, eventQ := insert_event e (eventQ t1)\<rparr>
                         else FreeTimerEvent (t1\<lparr>queue_nodes := n\<rparr>))
               in (ms2, t2\<lparr>lastEventId := lastEventId t2 + 1\<rparr>, lastEventId t2, if ok then 0 else EOUTOFMEM)))"

definition del_event :: "TimerThread \<Rightarrow> nat \<Rightarrow> TimerThread" where
  "del_event timer i =
     timer\<lparr>eventQ := take i (eventQ timer) @ drop (Suc i) (eventQ timer),
           queue_nodes := pool_free NODE_FREELISTSIZE (queue_nodes timer)\<rparr>"

definition TimerThreadRemove :: "TimerThread \<Rightarrow> int \<Rightarrow> TimerThread \<times> ThreadPoolJob option \<times> int" where
  "TimerThreadRemove timer k =
     (case find (\<lambda>i. event_id (eventQ timer ! i) = k) [0..<length (eventQ timer)] of
        None \<Rightarrow> (timer, None, INVALID_EVENT_ID)
      | Some i \<Rightarrow> (FreeTimerEvent (del_event timer i), Some (job (eventQ timer ! i)), 0))"

text \<open>
  Handing an event to the pool. When the pool refuses the job, its argument is freed, if both the argument and the
  free function are there (an argument of 0 is the null pointer).
\<close>

type_synonym pool_script = "timeval \<times> ok_script \<times> int list \<times> interference"

definition timer_dispatch :: "pool_script \<Rightarrow> ThreadPool \<Rightarrow> TimerEvent \<Rightarrow> (ThreadPool \<times> int \<times> free_calls) option" where
  "timer_dispatch ps tp e =
     (case ps of (pnow, ms, cs, env) \<Rightarrow>
        case (if persistent e = PERSISTENT
              then map_option (\<lambda>(tp1, k, rc). (tp1, rc)) (ThreadPoolAddPersistent pnow ms cs env tp (job e))
              else map_option (\<lambda>(tp1, k, rc). (tp1, rc)) (ThreadPoolAdd pnow ms cs env tp (job e))) of
          None \<Rightarrow> None
        | Some (tp1, rc) \<Rightarrow>
            Some (tp1, rc, if rc \<noteq> 0 \<and> arg (job e) \<noteq> 0 then free_call (job e) else []))"

datatype timer_next = TStop | TAgain | TWaitUntil int | TWait

definition timer_round ::
    "int \<Rightarrow> pool_script \<Rightarrow> TimerThread \<Rightarrow> ThreadPool \<Rightarrow> (TimerThread \<times> ThreadPool \<times> free_calls \<times> timer_next) option" where
  "timer_round now ps timer tp =
     (if timer_shutdown timer then Some (timer\<lparr>timer_shutdown := False\<rparr>, tp, [], TStop)
      else
        (case eventQ timer of
           [] \<Rightarrow> Some (timer, tp, [], TWait)
         | e # es \<Rightarrow>
             if eventTime e \<le> now then
               (case timer_dispatch ps tp e of
                  None \<Rightarrow> None
                | Some (tp1, rc, calls) \<Rightarrow> Some (FreeTimerEvent (del_event timer 0), tp1, calls, TAgain))
             else Some (timer, tp, [], TWaitUntil (eventTime e))))"

text \<open>Rounds until the worker waits or stops; each round reads the clock. The result has the handed over events.\<close>

fun TimerThreadWorker ::
    "(int \<times> pool_script) list \<Rightarrow> TimerThread \<Rightarrow> ThreadPool \<Rightarrow>
     (TimerThread \<times> ThreadPool \<times> TimerEvent list \<times> timer_next) option" where
  "TimerThreadWorker [] timer tp = Some (timer, tp, [], TAgain)"
| "TimerThreadWorker ((now, ps) # rs) timer tp =
     (case timer_round now ps timer tp of
        None \<Rightarrow> None
      | Some (t1, tp1, calls, r) \<Rightarrow>
          if r = TAgain then
            map_option (\<lambda>(t2, tp2, es, r2). (t2, tp2, hd (eventQ timer) # es, r2)) (TimerThreadWorker rs t1 tp1)
          else Some (t1, tp1, [], r))"

text \<open>\<open>init_rc\<close> is the sum of the results of the initialisers; the worker is a persistent job with high priority.\<close>

definition worker_job :: "nat \<Rightarrow> nat \<Rightarrow> ThreadPoolJob" where
  "worker_job f a = \<lparr>func = f, arg = a, free_func = None, requestTime = \<lparr>tv_sec = 0, tv_usec = 0\<rparr>,
     priority = HIGH_PRIORITY, jobId = 0\<rparr>"

definition TimerThreadInit ::
    "int \<Rightarrow> pool_script \<Rightarrow> nat \<Rightarrow> nat \<Rightarrow> ThreadPool \<Rightarrow> (TimerThread \<times> ThreadPool \<times> int) option" where
  "TimerThreadInit init_rc ps f a tp =
     (let timer = \<lparr>lastEventId = 0, eventQ = [], queue_nodes = 0, timer_shutdown = False, freeEvents = 0\<rparr> in
      if init_rc \<noteq> 0 then Some (timer, tp, EAGAIN)
      else
        (case ps of (pnow, ms, cs, env) \<Rightarrow>
           map_option (\<lambda>(tp1, k, rc). (timer, tp1, rc)) (ThreadPoolAddPersistent pnow ms cs env tp (worker_job f a))))"

definition TimerThreadShutdown ::
    "(TimerThread \<Rightarrow> TimerThread) list \<Rightarrow> TimerThread \<Rightarrow> (free_calls \<times> TimerThread \<times> int) option" where
  "TimerThreadShutdown env timer =
     (case wait_while timer_shutdown env
             (timer\<lparr>timer_shutdown := True, eventQ := [], queue_nodes := 0, freeEvents := 0\<rparr>) of
        None \<Rightarrow> None
      | Some (env1, t1) \<Rightarrow> Some (concat (map (free_call \<circ> job) (eventQ timer)), t1, 0))"

section \<open>The event queue\<close>

definition timer_inv :: "TimerThread \<Rightarrow> bool" where
  "timer_inv t \<longleftrightarrow> sorted (map eventTime (eventQ t)) \<and> distinct (map event_id (eventQ t)) \<and>
     (\<forall>e\<in>set (eventQ t). event_id e < lastEventId t)"

lemma mset_insert_event [simp]: "mset (insert_event e xs) = add_mset e (mset xs)"
  by (induction xs) auto

lemma set_insert_event [simp]: "set (insert_event e xs) = insert e (set xs)"
  by (induction xs) auto

lemma sorted_insert_event: "sorted (map eventTime xs) \<Longrightarrow> sorted (map eventTime (insert_event e xs))"
  by (induction xs) auto

lemma distinct_insert_event:
  "distinct (map event_id xs) \<Longrightarrow> event_id e \<notin> event_id ` set xs \<Longrightarrow> distinct (map event_id (insert_event e xs))"
  by (induction xs) auto

lemma insert_event_split:
  "\<exists>i. insert_event e xs = take i xs @ e # drop i xs \<and> i \<le> length xs \<and>
     (\<forall>x\<in>set (take i xs). eventTime x < eventTime e) \<and> (i < length xs \<longrightarrow> eventTime e \<le> eventTime (xs ! i))"
proof (induction xs)
  case (Cons x xs)
  then obtain i where i: "insert_event e xs = take i xs @ e # drop i xs" "i \<le> length xs"
    "\<forall>y\<in>set (take i xs). eventTime y < eventTime e" "i < length xs \<longrightarrow> eventTime e \<le> eventTime (xs ! i)"
    by blast
  show ?case
  proof (cases "eventTime e \<le> eventTime x")
    case True
    then show ?thesis
      by (intro exI [of _ 0]) simp
  next
    case False
    then show ?thesis
      using i by (intro exI [of _ "Suc i"]) auto
  qed
qed simp

text \<open>The cases of a call of \<open>TimerThreadSchedule\<close>.\<close>

lemma TimerThreadSchedule_cases:
  assumes "TimerThreadSchedule now ms timer timeout type j d = (ms1, t1, k, rc)"
  obtains (added) "rc = 0" "k = lastEventId timer" "lastEventId t1 = lastEventId timer + 1"
      "timer_shutdown t1 = timer_shutdown timer"
      "eventQ t1 = insert_event \<lparr>job = j, eventTime = CalculateEventTime now timeout type, persistent = d,
         event_id = lastEventId timer\<rparr> (eventQ timer)"
  | (failed) "rc = EOUTOFMEM" "eventQ t1 = eventQ timer" "lastEventId timer \<le> lastEventId t1"
      "timer_shutdown t1 = timer_shutdown timer"
  using assms
  by (auto simp: TimerThreadSchedule_def CreateTimerEvent_def FreeTimerEvent_def Let_def
    split: prod.splits if_splits)

lemma schedule_inv:
  assumes "TimerThreadSchedule now ms timer timeout type j d = (ms1, t1, k, rc)" and "timer_inv timer"
  shows "timer_inv t1"
  using assms(1)
proof (cases rule: TimerThreadSchedule_cases)
  case added
  have "event_id ` set (eventQ timer) \<subseteq> {..<lastEventId timer}"
    using assms(2) by (auto simp: timer_inv_def)
  then show ?thesis
    using assms(2) added sorted_insert_event distinct_insert_event by (fastforce simp: timer_inv_def)
next
  case failed
  then show ?thesis
    using assms(2) by (fastforce simp: timer_inv_def)
qed

lemma del_event_inv:
  assumes "timer_inv t"
  shows "timer_inv (FreeTimerEvent (del_event t i))"
proof (cases "i < length (eventQ t)")
  case True
  define xs x ys where "xs = take i (eventQ t)" and "x = eventQ t ! i" and "ys = drop (Suc i) (eventQ t)"
  have "eventQ t = xs @ x # ys"
    unfolding xs_def x_def ys_def using True by (rule id_take_nth_drop)
  moreover have "eventQ (FreeTimerEvent (del_event t i)) = xs @ ys" "lastEventId (FreeTimerEvent (del_event t i)) = lastEventId t"
    by (simp_all add: FreeTimerEvent_def del_event_def xs_def ys_def)
  ultimately show ?thesis
    using assms by (auto simp: timer_inv_def sorted_append)
next
  case False
  then show ?thesis
    using assms by (simp add: timer_inv_def FreeTimerEvent_def del_event_def)
qed

lemma remove_inv: "TimerThreadRemove timer k = (t1, j, rc) \<Longrightarrow> timer_inv timer \<Longrightarrow> timer_inv t1"
  using del_event_inv by (auto simp: TimerThreadRemove_def split: option.splits)

lemma round_inv: "timer_round now ps timer tp = Some (t1, tp1, calls, r) \<Longrightarrow> timer_inv timer \<Longrightarrow> timer_inv t1"
  using del_event_inv [of timer 0]
  by (auto simp: timer_round_def timer_inv_def split: if_splits list.splits option.splits)

section \<open>Properties\<close>

text \<open>The operations on a timer, in any order.\<close>

inductive timer_reachable :: "TimerThread \<Rightarrow> bool" where
  timer_new: "timer_reachable \<lparr>lastEventId = 0, eventQ = [], queue_nodes = 0, timer_shutdown = False, freeEvents = 0\<rparr>"
| timer_scheduled: "timer_reachable t \<Longrightarrow> TimerThreadSchedule now ms t timeout type j d = (ms1, t1, k, rc) \<Longrightarrow> timer_reachable t1"
| timer_removed: "timer_reachable t \<Longrightarrow> TimerThreadRemove t k = (t1, out, rc) \<Longrightarrow> timer_reachable t1"
| timer_ran: "timer_reachable t \<Longrightarrow> timer_round now ps t tp = Some (t1, tp1, calls, r) \<Longrightarrow> timer_reachable t1"

lemma timer_reachable_inv: "timer_reachable t \<Longrightarrow> timer_inv t"
  by (induction rule: timer_reachable.induct)
     (simp add: timer_inv_def, blast intro: schedule_inv, blast intro: remove_inv, blast intro: round_inv)


definition new_timer :: TimerThread where
  "new_timer = \<lparr>lastEventId = 0, eventQ = [], queue_nodes = 0, timer_shutdown = False, freeEvents = 0\<rparr>"

definition demo_timer :: TimerThread where
  "demo_timer = fst (snd (TimerThreadSchedule 100 [] (fst (snd (TimerThreadSchedule 100 [] new_timer 5 REL_SEC
     (worker_job 1 1) SHORT_TERM))) 103 ABS_SEC (worker_job 2 1) SHORT_TERM))"

lemma demo_timer_queue:
  "map eventTime (eventQ demo_timer) = [103, 105]" "map event_id (eventQ demo_timer) = [1, 0]"
  "timer_shutdown demo_timer = False"
  by (simp_all add: demo_timer_def new_timer_def TimerThreadSchedule_def CreateTimerEvent_def pool_alloc_def
    CalculateEventTime_def Let_def)



definition closed_pool :: ThreadPool where
  "closed_pool = demo_pool\<lparr>attr := TPAttrInit\<lparr>maxJobsTotal := 0\<rparr>\<rparr>"

abbreviation no_script :: pool_script where
  "no_script \<equiv> (\<lparr>tv_sec = 0, tv_usec = 0\<rparr>, [], [], [])"

lemma closed_pool_dispatch:
  "persistent e = SHORT_TERM \<Longrightarrow> \<exists>rc calls. timer_dispatch no_script closed_pool e = Some (closed_pool, rc, calls)"
  by (simp add: timer_dispatch_def ThreadPoolAdd_def closed_pool_def TPAttrInit_def total_jobs_def)


end
