(* ===== verification/UriDots.thy ===== *)
theory UriDots
  imports Uri
begin

text \<open>
  \<open>remove_dots\<close> of \<^verbatim>\<open>compa/src/genlib/net/uri/uri.cpp\<close>, which works in place with two
  pointers, and its equivalence with the algorithm of RFC 3986, section 5.2.4,
  on an input and an output string. The assertions of the code and its debug
  stores are not part of the model.
\<close>

section \<open>The code\<close>

definition is_end_path :: "char \<Rightarrow> bool" where
  "is_end_path c \<longleftrightarrow> c = CHR ''?'' \<or> c = CHR ''#'' \<or> c = NUL"

text \<open>\<open>strncmp (in, lit, strlen (lit)) == 0\<close>\<close>

definition starts :: "string \<Rightarrow> nat \<Rightarrow> string \<Rightarrow> bool" where
  "starts mem i lit \<longleftrightarrow> strncmp_sgn (length lit) (drop i mem) lit = 0"

text \<open>\<open>while (buf < out) if (*--out == '/') break;\<close>\<close>

primrec trim_out :: "string \<Rightarrow> nat \<Rightarrow> nat" where
  "trim_out mem 0 = 0"
| "trim_out mem (Suc n) = (if mem ! n = CHR ''/'' then n else trim_out mem n)"

text \<open>\<open>while (in < max && in[0] != '/' && !is_end_path (in[0])) *out++ = *in++;\<close>\<close>

function move_segment :: "string \<Rightarrow> nat \<Rightarrow> nat \<Rightarrow> nat \<Rightarrow> (string \<times> nat \<times> nat) option" where
  "move_segment mem mx i out =
     (if i < mx then
        (case rd mem i of
           None \<Rightarrow> None
         | Some c \<Rightarrow>
             if c \<noteq> CHR ''/'' \<and> \<not> is_end_path c then
               (case wr mem out c of
                  None \<Rightarrow> None
                | Some mem1 \<Rightarrow> move_segment mem1 mx (i + 1) (out + 1))
             else Some (mem, i, out))
      else Some (mem, i, out))"
  by pat_completeness auto
termination
  by (relation "measure (\<lambda>(mem, mx, i, out). mx - i)") auto

partial_function (option) remove_dots_loop ::
    "string \<Rightarrow> nat \<Rightarrow> nat \<Rightarrow> nat \<Rightarrow> (string \<times> nat \<times> nat) option" where
  "remove_dots_loop mem mx i out =
     (case rd mem i of
        None \<Rightarrow> None
      | Some c \<Rightarrow>
          if is_end_path c then Some (mem, i, out)
          else if starts mem i ''./'' then remove_dots_loop mem mx (i + 2) out
          else if starts mem i ''../'' then remove_dots_loop mem mx (i + 3) out
          else if starts mem i ''/./'' then remove_dots_loop mem mx (i + 2) out
          else if starts mem i ''/.'' \<and> is_end_path (at mem (i + 2)) then
            (case wr mem (i + 1) CHR ''/'' of
               None \<Rightarrow> None
             | Some mem1 \<Rightarrow> remove_dots_loop mem1 mx (i + 1) out)
          else if starts mem i ''/../'' \<or> (starts mem i ''/..'' \<and> is_end_path (at mem (i + 3))) then
            (if is_end_path (at mem (i + 3)) then
               (case wr mem (i + 2) CHR ''/'' of
                  None \<Rightarrow> None
                | Some mem1 \<Rightarrow> remove_dots_loop mem1 mx (i + 2) (trim_out mem1 out))
             else remove_dots_loop mem mx (i + 3) (trim_out mem out))
          else if starts mem i ''.'' \<and> is_end_path (at mem (i + 1)) then remove_dots_loop mem mx (i + 1) out
          else if starts mem i ''..'' \<and> is_end_path (at mem (i + 2)) then remove_dots_loop mem mx (i + 2) out
          else
            (case (if c = CHR ''/'' then map_option (\<lambda>m. (m, i + 1, out + 1)) (wr mem out c)
                   else Some (mem, i, out)) of
               None \<Rightarrow> None
             | Some (mem1, i1, out1) \<Rightarrow>
                 (case move_segment mem1 mx i1 out1 of
                    None \<Rightarrow> None
                  | Some (mem2, i2, out2) \<Rightarrow> remove_dots_loop mem2 mx i2 out2)))"

text \<open>\<open>while (in < max) *out++ = *in++;\<close>\<close>

function copy_rest :: "string \<Rightarrow> nat \<Rightarrow> nat \<Rightarrow> nat \<Rightarrow> (string \<times> nat) option" where
  "copy_rest mem mx i out =
     (if i < mx then
        (case rd mem i of
           None \<Rightarrow> None
         | Some c \<Rightarrow>
             (case wr mem out c of
                None \<Rightarrow> None
              | Some mem1 \<Rightarrow> copy_rest mem1 mx (i + 1) (out + 1)))
      else Some (mem, out))"
  by pat_completeness auto
termination
  by (relation "measure (\<lambda>(mem, mx, i, out). mx - i)") auto

definition remove_dots :: "string \<Rightarrow> nat \<Rightarrow> (string \<times> int) option" where
  "remove_dots mem sz =
     (case remove_dots_loop mem sz 0 0 of
        None \<Rightarrow> None
      | Some (mem1, i, out) \<Rightarrow>
          (case copy_rest mem1 sz i out of
             None \<Rightarrow> None
           | Some (mem2, out2) \<Rightarrow>
               if out2 < sz then map_option (\<lambda>m. (m, UPNP_E_SUCCESS)) (wr mem2 out2 NUL)
               else Some (mem2, UPNP_E_SUCCESS)))"

section \<open>Resolving a relative reference\<close>

text \<open>
  \<open>snprintf (out_finger, len, s)\<close>: the text is appended to what was written, the
  remaining length is reduced; \<open>None\<close> when it does not fit.
\<close>

definition snprintf :: "string \<times> nat \<Rightarrow> string \<Rightarrow> (string \<times> nat) option" where
  "snprintf ol s = (if snd ol \<le> length s then None else Some (fst ol @ s, snd ol - length s))"

text \<open>The loop over the base path: how much of it is kept.\<close>

function keep_prefix :: "string \<Rightarrow> bool \<Rightarrow> nat \<Rightarrow> nat \<Rightarrow> nat" where
  "keep_prefix bpath rel_query i pre =
     (if i < length bpath then
        (if bpath ! i = CHR ''/'' then keep_prefix bpath rel_query (i + 1) (i + 1)
         else if bpath ! i = CHR ''?'' then (if rel_query then i else pre)
         else keep_prefix bpath rel_query (i + 1) pre)
      else pre)"
  by pat_completeness auto
termination
  by (relation "measure (\<lambda>(bpath, q, i, pre). length bpath - i)") auto

text \<open>
  The path part: the new text and remaining length together with the text
  that is appended after the path (\<open>rv\<close> of the last \<open>snprintf\<close>).
\<close>

definition resolve_path ::
    "string \<Rightarrow> uri_type \<Rightarrow> string \<Rightarrow> uri_type \<Rightarrow> nat \<Rightarrow> (string \<times> nat) option" where
  "resolve_path base_url base rel_url rel len =
     (let bpath = token_text base_url (pathquery base); rpath = token_text rel_url (pathquery rel) in
      if path_type rel = ABS_PATH then snprintf ([], len) rel_url
      else if tsize (pathquery base) = 0 then snprintf ([], len) (CHR ''/'' # rel_url)
      else
        (case (if tsize (pathquery rel) = 0 then snprintf ([], len) bpath
               else if len < tsize (pathquery base) then None
               else
                 (let pre = keep_prefix bpath (rpath \<noteq> [] \<and> hd rpath = CHR ''?'') 0 1
                  in snprintf (take pre bpath, len - pre) rpath)) of
           None \<Rightarrow> None
         | Some ol \<Rightarrow>
             if 0 < tsize (fragment rel) then snprintf ol (CHR ''#'' # token_text rel_url (fragment rel))
             else if 0 < tsize (fragment base) then snprintf ol (CHR ''#'' # token_text base_url (fragment base))
             else snprintf ol []))"

text \<open>
  The arguments are the two strings without their terminators (\<open>None\<close> for a
  null pointer) and whether the one allocation on each way succeeds. The
  outer \<open>None\<close> is an access through a null pointer or outside of a string.
\<close>

definition resolve_rel_url ::
    "net_env \<Rightarrow> bool \<Rightarrow> string option \<Rightarrow> string option \<Rightarrow> string option option" where
  "resolve_rel_url net ok base_arg rel_arg =
     (let strdup = (\<lambda>s. if ok then Some s else None) in
      case base_arg of
        None \<Rightarrow> Some (case rel_arg of None \<Rightarrow> None | Some rel_url \<Rightarrow> strdup rel_url)
      | Some base_url \<Rightarrow>
          (case rel_arg of
             None \<Rightarrow> None
           | Some rel_url \<Rightarrow>
               (case parse_uri net (rel_url @ [NUL]) (length rel_url) of
                  None \<Rightarrow> None
                | Some (Inl e) \<Rightarrow> Some None
                | Some (Inr rel) \<Rightarrow>
                    if utype rel = ABSOLUTE then Some (strdup rel_url)
                    else
                      (case parse_uri net (base_url @ [NUL]) (length base_url) of
                         None \<Rightarrow> None
                       | Some (Inl e) \<Rightarrow> Some None
                       | Some (Inr base) \<Rightarrow>
                           if utype base \<noteq> ABSOLUTE then Some None
                           else if rel_url = [] then Some (strdup base_url)
                           else if \<not> ok then Some None
                           else
                             (case snprintf ([], length base_url + length rel_url + 2)
                                     (token_text base_url (scheme base) @ '':'') of
                                None \<Rightarrow> Some None
                              | Some (out, len) \<Rightarrow>
                                  if 0 < tsize (htext (hostport rel)) then
                                    Some (map_option fst (snprintf (out, len) rel_url))
                                  else
                                    (case (if 0 < tsize (htext (hostport base))
                                           then snprintf (out, len)
                                                  (''//'' @ token_text base_url (htext (hostport base)))
                                           else Some (out, len)) of
                                       None \<Rightarrow> Some None
                                     | Some (out1, len1) \<Rightarrow>
                                         (case resolve_path base_url base rel_url rel len1 of
                                            None \<Rightarrow> Some None
                                          | Some (path, len2) \<Rightarrow>
                                              (case remove_dots (path @ [NUL]) (length path) of
                                                 None \<Rightarrow> None
                                               | Some (mem, r) \<Rightarrow>
                                                   if r \<noteq> UPNP_E_SUCCESS then Some None
                                                   else Some (Some (out1 @ c_str mem))))))))))"

declare move_segment.simps [simp del] keep_prefix.simps [simp del] copy_rest.simps [simp del]

section \<open>The algorithm of RFC 3986\<close>

definition drop_last_segment :: "string \<Rightarrow> string" where
  "drop_last_segment out = rev (drop 1 (dropWhile (\<lambda>c. c \<noteq> CHR ''/'') (rev out)))"

definition first_segment :: "string \<Rightarrow> string" where
  "first_segment inp = hd inp # takeWhile (\<lambda>c. c \<noteq> CHR ''/'') (tl inp)"

function rfc_remove_dots :: "string \<Rightarrow> string \<Rightarrow> string" where
  "rfc_remove_dots inp out =
     (if inp = [] then out
      else if prefix ''../'' inp then rfc_remove_dots (drop 3 inp) out
      else if prefix ''./'' inp then rfc_remove_dots (drop 2 inp) out
      else if prefix ''/./'' inp then rfc_remove_dots (drop 2 inp) out
      else if inp = ''/.'' then rfc_remove_dots ''/'' out
      else if prefix ''/../'' inp then rfc_remove_dots (drop 3 inp) (drop_last_segment out)
      else if inp = ''/..'' then rfc_remove_dots ''/'' (drop_last_segment out)
      else if inp = ''.'' \<or> inp = ''..'' then out
      else rfc_remove_dots (drop (length (first_segment inp)) inp) (out @ first_segment inp))"
  by pat_completeness auto
termination
  by (relation "measure (\<lambda>(inp, out). length inp)") (auto simp: first_segment_def dest: prefix_length_le)

declare rfc_remove_dots.simps [simp del]

section \<open>Reading the buffer\<close>

lemma strncmp_eq_prefix:
  "no_nul lit \<Longrightarrow> strncmp_sgn (length lit) xs lit = 0 \<longleftrightarrow> prefix lit xs"
proof (induction lit arbitrary: xs)
  case Nil
  then show ?case by (simp add: strncmp_sgn_def)
next
  case (Cons c lit)
  then show ?case
    by (cases xs) (auto simp: strncmp_sgn_def cmp_sgn_def split: if_splits)
qed

lemma starts_iff:
  assumes "no_nul lit" and "e \<notin> set lit" and "length pre = i"
  shows "starts (pre @ I @ e # r) i lit \<longleftrightarrow> prefix lit I"
proof -
  have "prefix lit (I @ e # r) \<longleftrightarrow> prefix lit I"
    using assms(2) by (auto simp: prefix_append prefix_Cons)
  then show ?thesis
    using assms by (simp add: starts_def strncmp_eq_prefix)
qed

lemma at_append: "at (pre @ I @ e # r) (length pre + k) = (if k < length I then I ! k else if k = length I then e else at r (k - length I - 1))"
  by (auto simp: at_def nth_append nth_Cons')


definition path_text :: "string \<Rightarrow> bool" where
  "path_text I \<longleftrightarrow> list_all (\<lambda>c. \<not> is_end_path c) I"

lemma path_text_simps [simp]:
  "path_text []" "path_text (c # I) \<longleftrightarrow> \<not> is_end_path c \<and> path_text I"
  "path_text (I @ J) \<longleftrightarrow> path_text I \<and> path_text J"
  by (simp_all add: path_text_def)

lemma path_text_drop: "path_text I \<Longrightarrow> path_text (drop n I)"
  by (metis append_take_drop_id path_text_simps(3))

lemma path_char: "is_end_path e \<Longrightarrow> e \<noteq> CHR ''/'' \<and> e \<noteq> CHR ''.''" "\<not> is_end_path CHR ''/''" "\<not> is_end_path CHR ''.''"
  by (auto simp: is_end_path_def)

lemma end_at:
  assumes "prefix lit I" and "path_text I" and "is_end_path e" and "length pre = i"
  shows "is_end_path (at (pre @ I @ e # r) (i + length lit)) \<longleftrightarrow> I = lit"
proof -
  obtain z where I: "I = lit @ z"
    using assms(1) by (auto elim: prefixE)
  then show ?thesis
    using assms by (cases z) (auto simp: at_def nth_append)
qed

lemma wr_at: "length pre = out \<Longrightarrow> wr (pre @ c # post) out d = Some (pre @ d # post)"
  by (auto simp: wr_def list_update_append)

lemma wr_out:
  "wr (Z @ G @ c # X) (length Z) c = Some ((Z @ [c]) @ tl (G @ [c]) @ X)"
  by (cases G) (simp_all add: wr_at)

lemma trim_out_drop:
  assumes "n = length Z"
  shows "trim_out (Z @ X) n = length (drop_last_segment Z)" and "\<exists>z. Z = drop_last_segment Z @ z"
proof -
  have "trim_out (Z @ X) n = length (drop_last_segment Z) \<and> (\<exists>z. Z = drop_last_segment Z @ z)"
    using assms
  proof (induction n arbitrary: Z X)
    case 0
    then show ?case by (simp add: drop_last_segment_def)
  next
    case (Suc n)
    then obtain P c where ZP: "Z = P @ [c]" "length P = n"
      by (metis append_butlast_last_id length_0_conv length_append_singleton nat.inject nat.simps(3))
    have d: "drop_last_segment (P @ [c]) = (if c = CHR ''/'' then P else drop_last_segment P)"
      by (simp add: drop_last_segment_def)
    obtain z where z: "P = drop_last_segment P @ z"
      using Suc.IH [of P X] ZP(2) by auto
    have e: "P @ [c] = drop_last_segment P @ z @ [c]"
      using z by (metis append.assoc)
    show ?case
    proof (cases "c = CHR ''/''")
      case True
      then show ?thesis
        using ZP d by (simp add: nth_append)
    next
      case False
      have "trim_out (P @ c # X) n = length (drop_last_segment P)"
        using Suc.IH [of P "c # X"] ZP(2) by simp
      then have "trim_out (Z @ X) (Suc n) = length (drop_last_segment Z)"
        using False ZP d by (simp add: nth_append)
      moreover have "Z = drop_last_segment Z @ z @ [c]"
        using e ZP(1) d False by simp
      ultimately show ?thesis
        by blast
    qed
  qed
  then show "trim_out (Z @ X) n = length (drop_last_segment Z)" and "\<exists>z. Z = drop_last_segment Z @ z"
    by auto
qed

lemma move_segment_run:
  assumes "list_all (\<lambda>c. c \<noteq> CHR ''/'' \<and> \<not> is_end_path c) s" and "hd X = CHR ''/'' \<or> is_end_path (hd X)"
    and "X \<noteq> []" and "length Z + length G + length s \<le> mx"
  shows "\<exists>G'. move_segment (Z @ G @ s @ X) mx (length Z + length G) (length Z) =
    Some (Z @ s @ G' @ X, length Z + length G + length s, length Z + length s) \<and> length G' = length G"
  using assms
proof (induction s arbitrary: Z G)
  case Nil
  have "rd (Z @ G @ X) (length Z + length G) = Some (hd X)"
    using Nil.prems(3) by (cases X) (simp_all add: rd_def nth_append)
  then show ?case
    using Nil.prems by (subst move_segment.simps) auto
next
  case (Cons c s)
  have r: "rd (Z @ G @ c # s @ X) (length Z + length G) = Some c"
    by (simp add: rd_def nth_append)
  have "\<exists>G'. move_segment ((Z @ [c]) @ tl (G @ [c]) @ s @ X) mx
      (length (Z @ [c]) + length (tl (G @ [c]))) (length (Z @ [c])) =
    Some ((Z @ [c]) @ s @ G' @ X, length (Z @ [c]) + length (tl (G @ [c])) + length s, length (Z @ [c]) + length s) \<and>
    length G' = length (tl (G @ [c]))"
    using Cons.prems by (intro Cons.IH) simp_all
  then show ?case
    using r wr_out [of Z G c "s @ X"] Cons.prems by (subst move_segment.simps) auto
qed

lemma copy_rest_run:
  "mx = length Z + length G + length q \<Longrightarrow>
     \<exists>G'. copy_rest (Z @ G @ q @ X) mx (length Z + length G) (length Z) =
       Some (Z @ q @ G' @ X, length Z + length q) \<and> length G' = length G"
proof (induction q arbitrary: Z G)
  case Nil
  then show ?case by (subst copy_rest.simps) auto
next
  case (Cons c q)
  have r: "rd (Z @ G @ c # q @ X) (length Z + length G) = Some c"
    by (simp add: rd_def nth_append)
  have "\<exists>G'. copy_rest ((Z @ [c]) @ tl (G @ [c]) @ q @ X) mx (length (Z @ [c]) + length (tl (G @ [c]))) (length (Z @ [c])) =
      Some ((Z @ [c]) @ q @ G' @ X, length (Z @ [c]) + length q) \<and> length G' = length (tl (G @ [c]))"
    using Cons.prems by (intro Cons.IH) simp_all
  then show ?case
    using r wr_out [of Z G c "q @ X"] Cons.prems by (subst copy_rest.simps) auto
qed


section \<open>Equivalence\<close>

text \<open>
  The loop on the buffer: \<open>Z\<close> is the output so far, \<open>G\<close> the gap between the
  two pointers, \<open>I\<close> the input left, and \<open>e\<close> the character that ends the path.
\<close>

definition loop_ok :: "string \<Rightarrow> string \<Rightarrow> string \<Rightarrow> char \<Rightarrow> string \<Rightarrow> nat \<Rightarrow> string \<Rightarrow> bool" where
  "loop_ok Z G I e r mx R \<longleftrightarrow>
     (\<exists>G'. remove_dots_loop (Z @ G @ I @ e # r) mx (length Z + length G) (length Z) =
        Some (R @ G' @ e # r, length R + length G', length R) \<and>
        length R + length G' = length Z + length G + length I)"

lemma loop_ok_end: "is_end_path e \<Longrightarrow> loop_ok Z G [] e r mx Z"
  unfolding loop_ok_def by (subst remove_dots_loop.simps) (auto simp: rd_def nth_append)

lemma loop_ok_step:
  assumes "remove_dots_loop (Z @ G @ I @ e # r) mx (length Z + length G) (length Z) =
      remove_dots_loop (Z' @ G' @ I' @ e # r) mx (length Z' + length G') (length Z')"
    and "length Z' + length G' + length I' = length Z + length G + length I"
    and "loop_ok Z' G' I' e r mx R"
  shows "loop_ok Z G I e r mx R"
  using assms unfolding loop_ok_def by simp

lemma loop_ok_skip:
  assumes "remove_dots_loop (Z @ G @ I @ e # r) mx (length Z + length G) (length Z) =
      remove_dots_loop (Z @ G @ I @ e # r) mx (length Z + length G + n) (length Z)"
    and "n \<le> length I" and "loop_ok Z (G @ take n I) (drop n I) e r mx R"
  shows "loop_ok Z G I e r mx R"
proof (rule loop_ok_step [OF _ _ assms(3)])
  have m: "Z @ (G @ take n I) @ drop n I @ e # r = Z @ G @ I @ e # r"
    by (metis append.assoc append_take_drop_id)
  have l: "length Z + length (G @ take n I) = length Z + length G + n"
    using assms(2) by simp
  show "remove_dots_loop (Z @ G @ I @ e # r) mx (length Z + length G) (length Z) =
      remove_dots_loop (Z @ (G @ take n I) @ drop n I @ e # r) mx (length Z + length (G @ take n I)) (length Z)"
    unfolding m l by (rule assms(1))
  show "length Z + length (G @ take n I) + length (drop n I) = length Z + length G + length I"
    using assms(2) by simp
qed

lemma rd_input: "rd (Z @ G @ (c # I) @ X) (length Z + length G) = Some c"
  by (simp add: rd_def nth_append)

lemma move_first_segment:
  assumes "path_text (c # I)" and "is_end_path e" and "length Z + length G + length (c # I) \<le> mx"
  shows "\<exists>G'.
    (case (if c = CHR ''/''
           then map_option (\<lambda>m. (m, length Z + length G + 1, length Z + 1)) (wr (Z @ G @ (c # I) @ e # r) (length Z) c)
           else Some (Z @ G @ (c # I) @ e # r, length Z + length G, length Z)) of
       None \<Rightarrow> None
     | Some (m1, i1, o1) \<Rightarrow> move_segment m1 mx i1 o1) =
      Some ((Z @ first_segment (c # I)) @ G' @ drop (length (first_segment (c # I))) (c # I) @ e # r,
        length (Z @ first_segment (c # I)) + length G', length (Z @ first_segment (c # I))) \<and>
    length G' = length G"
proof -
  let ?s = "takeWhile (\<lambda>c. c \<noteq> CHR ''/'') I" and ?t = "dropWhile (\<lambda>c. c \<noteq> CHR ''/'') I"
  have fs: "first_segment (c # I) = c # ?s" "drop (length (first_segment (c # I))) (c # I) = ?t"
    by (simp_all add: first_segment_def dropWhile_eq_drop)
  have I: "?s @ ?t = I"
    by (rule takeWhile_dropWhile_id)
  have pt: "list_all (\<lambda>c. c \<noteq> CHR ''/'' \<and> \<not> is_end_path c) ?s"
    using assms(1) by (auto simp: list_all_iff path_text_def dest: set_takeWhileD)
  have hd: "hd (?t @ e # r) = CHR ''/'' \<or> is_end_path (hd (?t @ e # r))"
  proof (cases ?t)
    case (Cons a b)
    then show ?thesis
      using hd_dropWhile [of "\<lambda>c. c \<noteq> CHR ''/''" I] by simp
  next
    case Nil
    then show ?thesis
      unfolding Nil using assms(2) by simp
  qed
  have l: "length I = length ?s + length ?t"
    by (metis I length_append)
  show ?thesis
  proof (cases "c = CHR ''/''")
    case True
    have "wr (Z @ G @ (c # I) @ e # r) (length Z) c = Some ((Z @ [c]) @ tl (G @ [c]) @ ?s @ ?t @ e # r)"
      using wr_out [of Z G c "I @ e # r"] I by (metis append.assoc append_Cons)
    moreover obtain G' where "move_segment ((Z @ [c]) @ tl (G @ [c]) @ ?s @ ?t @ e # r) mx
        (length (Z @ [c]) + length (tl (G @ [c]))) (length (Z @ [c])) =
      Some ((Z @ [c]) @ ?s @ G' @ ?t @ e # r, length (Z @ [c]) + length (tl (G @ [c])) + length ?s,
        length (Z @ [c]) + length ?s)" "length G' = length (tl (G @ [c]))"
      using move_segment_run [OF pt hd, of "Z @ [c]" "tl (G @ [c])" mx] assms(3) l by auto
    ultimately show ?thesis
      using True unfolding fs(1) by (intro exI [of _ G']) (simp add: dropWhile_eq_drop)
  next
    case False
    have pc: "list_all (\<lambda>c. c \<noteq> CHR ''/'' \<and> \<not> is_end_path c) (c # ?s)"
      using pt False assms(1) by simp
    have eqI: "(c # ?s) @ ?t @ e # r = (c # I) @ e # r"
      using I by (metis append.assoc append_Cons)
    obtain G' where "move_segment (Z @ G @ (c # ?s) @ ?t @ e # r) mx (length Z + length G) (length Z) =
      Some (Z @ (c # ?s) @ G' @ ?t @ e # r, length Z + length G + length (c # ?s), length Z + length (c # ?s))"
        "length G' = length G"
      using move_segment_run [OF pc hd, of Z G mx] assms(3) l by auto
    then show ?thesis
      using False unfolding eqI fs(2) unfolding fs(1) by (intro exI [of _ G']) (simp add: dropWhile_eq_drop)
  qed
qed

lemma case_option_tripleE:
  assumes "(case x of None \<Rightarrow> None | Some (a, b, c) \<Rightarrow> f a b c) = Some v"
  obtains a b c where "x = Some (a, b, c)" and "f a b c = Some v"
  using assms by (cases x) auto

lemma loop_ok_rfc:
  assumes "is_end_path e" and "path_text I" and "length Z + length G + length I \<le> mx"
  shows "loop_ok Z G I e r mx (rfc_remove_dots I Z)"
  using assms(2,3)
proof (induction I Z arbitrary: G rule: rfc_remove_dots.induct)
  case (1 I Z)
  show ?case
  proof (cases I)
    case Nil
    then show ?thesis
      using loop_ok_end [OF assms(1)] by (simp add: rfc_remove_dots.simps)
  next
    case (Cons c I')
    let ?M = "Z @ G @ I @ e # r" and ?i = "length Z + length G"
    have rd: "rd ?M ?i = Some c" and c: "\<not> is_end_path c"
      using Cons "1.prems"(1) rd_input [of Z G c I' "e # r"] by simp_all
    have st: "starts ?M ?i lit \<longleftrightarrow> prefix lit I" if "set lit \<subseteq> {CHR ''/'', CHR ''.''}" for lit
      using starts_iff [of lit e "Z @ G" ?i I r] that path_char(1) [OF assms(1)] by auto
    have ends: "is_end_path (at ?M (?i + length lit)) \<longleftrightarrow> I = lit" if "prefix lit I" for lit
      using end_at [OF that "1.prems"(1) assms(1), of "Z @ G" ?i r] by simp
    note unf = remove_dots_loop.simps [of ?M mx ?i "length Z"]
    have ds: "set ''./'' \<subseteq> {CHR ''/'', CHR ''.''}" "set ''../'' \<subseteq> {CHR ''/'', CHR ''.''}"
      "set ''/./'' \<subseteq> {CHR ''/'', CHR ''.''}" "set ''/.'' \<subseteq> {CHR ''/'', CHR ''.''}"
      "set ''/../'' \<subseteq> {CHR ''/'', CHR ''.''}" "set ''/..'' \<subseteq> {CHR ''/'', CHR ''.''}"
      "set ''.'' \<subseteq> {CHR ''/'', CHR ''.''}" "set ''..'' \<subseteq> {CHR ''/'', CHR ''.''}"
      by simp_all
    note sts = ds [THEN st]
    have ne: "I \<noteq> []"
      using Cons by simp
    note len = "1.prems"(2)
    note rfc = rfc_remove_dots.simps [of I Z]
    consider (up) "prefix ''../'' I" | (cur) "prefix ''./'' I" | (mid) "prefix ''/./'' I"
      | (cur_end) "I = ''/.''" | (par) "prefix ''/../'' I" | (par_end) "I = ''/..''" | (dot) "I = ''.''"
      | (dots) "I = ''..''"
      | (seg) "\<not> prefix ''../'' I" "\<not> prefix ''./'' I" "\<not> prefix ''/./'' I" "I \<noteq> ''/.''"
          "\<not> prefix ''/../'' I" "I \<noteq> ''/..''" "I \<noteq> ''.''" "I \<noteq> ''..''"
      by blast
    then show ?thesis
    proof cases
      case up
      then have n: "\<not> prefix ''./'' I" "3 \<le> length I"
        by (auto simp: prefix_def)
      have lk: "loop_ok Z (G @ take 3 I) (drop 3 I) e r mx (rfc_remove_dots (drop 3 I) Z)"
        using "1.IH"(1) [OF ne up] path_text_drop "1.prems" n(2) by simp
      have eq: "remove_dots_loop ?M mx ?i (length Z) = remove_dots_loop ?M mx (?i + 3) (length Z)"
        by (subst unf) (simp add: rd c sts n up)
      have rf: "rfc_remove_dots I Z = rfc_remove_dots (drop 3 I) Z"
        by (subst rfc) (simp add: ne n up)
      show ?thesis
        unfolding rf by (rule loop_ok_skip [OF eq n(2) lk])
    next
      case cur
      then have n: "\<not> prefix ''../'' I" "2 \<le> length I"
        by (auto simp: prefix_def)
      have lk: "loop_ok Z (G @ take 2 I) (drop 2 I) e r mx (rfc_remove_dots (drop 2 I) Z)"
        using "1.IH"(2) [OF ne n(1) cur] path_text_drop "1.prems" n(2) by simp
      have eq: "remove_dots_loop ?M mx ?i (length Z) = remove_dots_loop ?M mx (?i + 2) (length Z)"
        by (subst unf) (simp add: rd c sts n cur)
      have rf: "rfc_remove_dots I Z = rfc_remove_dots (drop 2 I) Z"
        by (subst rfc) (simp add: ne n cur)
      show ?thesis
        unfolding rf by (rule loop_ok_skip [OF eq n(2) lk])
    next
      case mid
      then have n: "\<not> prefix ''../'' I" "\<not> prefix ''./'' I" "2 \<le> length I"
        by (auto simp: prefix_def)
      have lk: "loop_ok Z (G @ take 2 I) (drop 2 I) e r mx (rfc_remove_dots (drop 2 I) Z)"
        using "1.IH"(3) [OF ne n(1,2) mid] path_text_drop "1.prems" n(3) by simp
      have eq: "remove_dots_loop ?M mx ?i (length Z) = remove_dots_loop ?M mx (?i + 2) (length Z)"
        by (subst unf) (simp add: rd c sts n mid)
      have rf: "rfc_remove_dots I Z = rfc_remove_dots (drop 2 I) Z"
        by (subst rfc) (simp add: ne n mid)
      show ?thesis
        unfolding rf by (rule loop_ok_skip [OF eq n(3) lk])
    next
      case cur_end
      have w: "wr ?M (?i + 1) CHR ''/'' = Some (Z @ (G @ ''/'') @ ''/'' @ e # r)"
        using cur_end wr_at [of "Z @ G @ ''/''" "?i + 1" "CHR ''.''" "e # r" "CHR ''/''"] by simp
      have lk: "loop_ok Z (G @ ''/'') ''/'' e r mx (rfc_remove_dots ''/'' Z)"
        using "1.IH"(4) [OF ne _ _ _ cur_end, of "G @ ''/''"] cur_end len path_char by simp
      have n: "\<not> prefix ''../'' I" "\<not> prefix ''./'' I" "\<not> prefix ''/./'' I" "prefix ''/.'' I"
        using cur_end by simp_all
      have en: "is_end_path (at ?M (?i + 2))"
        using ends [OF n(4)] cur_end by simp
      have "remove_dots_loop ?M mx ?i (length Z) = remove_dots_loop (Z @ (G @ ''/'') @ ''/'' @ e # r) mx (?i + 1) (length Z)"
        by (subst unf) (simp only: rd option.case c sts n en w if_True if_False simp_thms)
      moreover have "?i + 1 = length Z + length (G @ ''/'')"
        by simp
      ultimately have eq: "remove_dots_loop ?M mx ?i (length Z) =
          remove_dots_loop (Z @ (G @ ''/'') @ ''/'' @ e # r) mx (length Z + length (G @ ''/'')) (length Z)"
        by (simp only:)
      have "length Z + length (G @ ''/'') + length ''/'' = length Z + length G + length I"
        using cur_end by simp
      then show ?thesis
        using loop_ok_step [OF eq _ lk] rfc n cur_end by simp
    next
      case par
      then have n: "\<not> prefix ''../'' I" "\<not> prefix ''./'' I" "\<not> prefix ''/./'' I" "I \<noteq> ''/.''" "3 \<le> length I"
          "prefix ''/..'' I" "I \<noteq> ''/..''" "prefix ''/.'' I"
        by (auto simp: prefix_def)
      obtain z where z: "Z = drop_last_segment Z @ z"
        using trim_out_drop(2) [OF refl] by blast
      let ?Y = "drop_last_segment Z"
      have m: "?M = ?Y @ (z @ G @ take 3 I) @ drop 3 I @ e # r"
        using z by (metis append.assoc append_take_drop_id)
      have l: "length Z = length ?Y + length z"
        using z by (metis length_append)
      have lk: "loop_ok ?Y (z @ G @ take 3 I) (drop 3 I) e r mx (rfc_remove_dots (drop 3 I) ?Y)"
        using "1.IH"(5) [OF ne n(1-4) par] path_text_drop "1.prems" n(5) l by simp
      have en: "\<not> is_end_path (at ?M (?i + 3))" "\<not> is_end_path (at ?M (?i + 2))"
        using ends [OF n(6)] ends [OF n(8)] n(4,7) by (simp_all add: eval_nat_numeral)
      have tr: "trim_out ?M (length Z) = length ?Y"
        by (rule trim_out_drop) simp
      have "remove_dots_loop ?M mx ?i (length Z) = remove_dots_loop ?M mx (?i + 3) (length ?Y)"
        by (subst unf) (simp only: rd option.case c sts n par en tr if_True if_False simp_thms)
      moreover have "?i + 3 = length ?Y + length (z @ G @ take 3 I)"
        using l n(5) by simp
      ultimately have eq: "remove_dots_loop ?M mx ?i (length Z) =
          remove_dots_loop (?Y @ (z @ G @ take 3 I) @ drop 3 I @ e # r) mx (length ?Y + length (z @ G @ take 3 I)) (length ?Y)"
        by (simp only: m [symmetric])
      have "length ?Y + length (z @ G @ take 3 I) + length (drop 3 I) = length Z + length G + length I"
        using l n(5) by simp
      moreover have "rfc_remove_dots I Z = rfc_remove_dots (drop 3 I) ?Y"
        by (subst rfc) (simp add: ne n par)
      ultimately show ?thesis
        using loop_ok_step [OF eq _ lk] by simp
    next
      case par_end
      obtain z where z: "Z = drop_last_segment Z @ z"
        using trim_out_drop(2) [OF refl] by blast
      let ?Y = "drop_last_segment Z"
      have l: "length Z = length ?Y + length z"
        using z by (metis length_append)
      have w: "wr ?M (?i + 2) CHR ''/'' = Some (Z @ G @ ''/.'' @ ''/'' @ e # r)"
        using par_end wr_at [of "Z @ G @ ''/.''" "?i + 2" "CHR ''.''" "e # r" "CHR ''/''"] by simp
      have m: "Z @ G @ ''/.'' @ ''/'' @ e # r = ?Y @ (z @ G @ ''/.'') @ ''/'' @ e # r"
        using z by (metis append.assoc)
      have lk: "loop_ok ?Y (z @ G @ ''/.'') ''/'' e r mx (rfc_remove_dots ''/'' ?Y)"
        using "1.IH"(6) [OF ne _ _ _ _ _ par_end, of "z @ G @ ''/.''"] par_end len l path_char by simp
      have n: "\<not> prefix ''../'' I" "\<not> prefix ''./'' I" "\<not> prefix ''/./'' I" "I \<noteq> ''/.''" "\<not> prefix ''/../'' I"
          "prefix ''/..'' I" "prefix ''/.'' I"
        using par_end by simp_all
      have en: "is_end_path (at ?M (?i + 3))" "\<not> is_end_path (at ?M (?i + 2))"
        using ends [OF n(6)] ends [OF n(7)] par_end by (simp_all add: eval_nat_numeral)
      have tr: "trim_out (Z @ G @ ''/.'' @ ''/'' @ e # r) (length Z) = length ?Y"
        by (rule trim_out_drop) simp
      have "remove_dots_loop ?M mx ?i (length Z) = remove_dots_loop (Z @ G @ ''/.'' @ ''/'' @ e # r) mx (?i + 2) (length ?Y)"
        by (subst unf) (simp only: rd option.case c sts n en w tr if_True if_False simp_thms)
      moreover have "?i + 2 = length ?Y + length (z @ G @ ''/.'')"
        using l by simp
      ultimately have eq: "remove_dots_loop ?M mx ?i (length Z) =
          remove_dots_loop (?Y @ (z @ G @ ''/.'') @ ''/'' @ e # r) mx (length ?Y + length (z @ G @ ''/.'')) (length ?Y)"
        by (simp only: m [symmetric])
      have "length ?Y + length (z @ G @ ''/.'') + length ''/'' = length Z + length G + length I"
        using l par_end by simp
      then show ?thesis
        using loop_ok_step [OF eq _ lk] rfc n par_end by simp
    next
      case dot
      have n: "\<not> prefix ''../'' I" "\<not> prefix ''./'' I" "\<not> prefix ''/./'' I" "\<not> prefix ''/.'' I" "\<not> prefix ''/../'' I"
          "\<not> prefix ''/..'' I" "prefix ''.'' I"
        using dot by simp_all
      have en: "is_end_path (at ?M (?i + 1))"
        using ends [OF n(7)] dot by simp
      have eq: "remove_dots_loop ?M mx ?i (length Z) = remove_dots_loop ?M mx (?i + 1) (length Z)"
        by (subst unf) (simp only: rd option.case c sts n en if_True if_False simp_thms)
      have "loop_ok Z (G @ take 1 I) (drop 1 I) e r mx Z"
        using loop_ok_end [OF assms(1)] dot by simp
      moreover have "rfc_remove_dots I Z = Z"
        by (subst rfc) (simp add: dot)
      ultimately show ?thesis
        using loop_ok_skip [OF eq] dot by simp
    next
      case dots
      have n: "\<not> prefix ''../'' I" "\<not> prefix ''./'' I" "\<not> prefix ''/./'' I" "\<not> prefix ''/.'' I" "\<not> prefix ''/../'' I"
          "\<not> prefix ''/..'' I" "prefix ''.'' I" "prefix ''..'' I"
        using dots by simp_all
      have en: "\<not> is_end_path (at ?M (?i + 1))" "is_end_path (at ?M (?i + 2))"
        using ends [OF n(7)] ends [OF n(8)] dots by (simp_all add: eval_nat_numeral)
      have eq: "remove_dots_loop ?M mx ?i (length Z) = remove_dots_loop ?M mx (?i + 2) (length Z)"
        by (subst unf) (simp only: rd option.case c sts n en if_True if_False simp_thms)
      have "loop_ok Z (G @ take 2 I) (drop 2 I) e r mx Z"
        using loop_ok_end [OF assms(1)] dots by simp
      moreover have "rfc_remove_dots I Z = Z"
        by (subst rfc) (simp add: dots)
      ultimately show ?thesis
        using loop_ok_skip [OF eq] dots by simp
    next
      case seg
      let ?f = "first_segment I"
      obtain G' where mv:
        "(case (if c = CHR ''/'' then map_option (\<lambda>m. (m, ?i + 1, length Z + 1)) (wr ?M (length Z) c)
          else Some (?M, ?i, length Z)) of None \<Rightarrow> None | Some (m1, i1, o1) \<Rightarrow> move_segment m1 mx i1 o1) =
         Some ((Z @ ?f) @ G' @ drop (length ?f) I @ e # r, length (Z @ ?f) + length G', length (Z @ ?f))"
        "length G' = length G"
        using move_first_segment [of c I' e Z G mx r] "1.prems" assms(1) Cons by auto
      have lf: "length ?f \<le> length I"
        using Cons length_takeWhile_le [of "\<lambda>c. c \<noteq> CHR ''/''" I'] by (simp add: first_segment_def)
      have lk: "loop_ok (Z @ ?f) G' (drop (length ?f) I) e r mx (rfc_remove_dots (drop (length ?f) I) (Z @ ?f))"
        using "1.IH"(7) [OF ne seg(1-6)] seg(7,8) path_text_drop "1.prems" lf mv(2) by simp
      have cond: "\<not> (prefix ''/.'' I \<and> is_end_path (at ?M (?i + 2)))" "\<not> (prefix ''/..'' I \<and> is_end_path (at ?M (?i + 3)))"
        "\<not> (prefix ''.'' I \<and> is_end_path (at ?M (?i + 1)))" "\<not> (prefix ''..'' I \<and> is_end_path (at ?M (?i + 2)))"
        using ends [of "''/.''"] ends [of "''/..''"] ends [of "''.''"] ends [of "''..''"] seg by (auto simp: eval_nat_numeral)
      obtain m1 i1 o1 where x: "(if c = CHR ''/'' then map_option (\<lambda>m. (m, ?i + 1, length Z + 1)) (wr ?M (length Z) c)
          else Some (?M, ?i, length Z)) = Some (m1, i1, o1)"
        and y: "move_segment m1 mx i1 o1 =
          Some ((Z @ ?f) @ G' @ drop (length ?f) I @ e # r, length (Z @ ?f) + length G', length (Z @ ?f))"
        by (rule case_option_tripleE [OF mv(1)])
      have eq: "remove_dots_loop ?M mx ?i (length Z) =
          remove_dots_loop ((Z @ ?f) @ G' @ drop (length ?f) I @ e # r) mx (length (Z @ ?f) + length G') (length (Z @ ?f))"
        by (subst unf) (simp only: rd option.case prod.case c sts seg cond x y if_True if_False simp_thms)
      have "length (Z @ ?f) + length G' + length (drop (length ?f) I) = length Z + length G + length I"
        using lf mv(2) by simp
      moreover have "rfc_remove_dots I Z = rfc_remove_dots (drop (length ?f) I) (Z @ ?f)"
        by (subst rfc) (simp only: ne seg if_False simp_thms)
      ultimately show ?thesis
        using loop_ok_step [OF eq _ lk] by simp
    qed
  qed
qed


section \<open>Properties\<close>

lemma remove_dots_rfc3986_total:
  assumes "path_text p" and "q = [] \<or> is_end_path (hd q)"
  shows "\<exists>mem. remove_dots (p @ q @ NUL # t) (length p + length q) = Some (mem, UPNP_E_SUCCESS) \<and>
    prefix (rfc_remove_dots p [] @ q) mem \<and> length mem = length (p @ q @ NUL # t) \<and>
    at mem (length (rfc_remove_dots p [] @ q)) = NUL \<and> drop (length p + length q) mem = NUL # t"
proof -
  let ?R = "rfc_remove_dots p []" and ?mx = "length p + length q"
  obtain e r where er: "q @ NUL # t = e # r" "is_end_path e"
    using assms(2) by (cases q) (auto simp: is_end_path_def)
  obtain G where G: "remove_dots_loop (p @ e # r) ?mx 0 0 = Some (?R @ G @ e # r, length ?R + length G, length ?R)"
      "length ?R + length G = length p"
    using loop_ok_rfc [OF er(2) assms(1), of "[]" "[]" ?mx r] by (auto simp: loop_ok_def)
  obtain G' where G': "copy_rest (?R @ G @ q @ NUL # t) ?mx (length ?R + length G) (length ?R) =
      Some (?R @ q @ G' @ NUL # t, length ?R + length q)" "length G' = length G"
    using copy_rest_run [of ?mx ?R G q "NUL # t"] G(2) by auto
  have rd: "remove_dots (p @ q @ NUL # t) ?mx =
      (if length ?R + length q < ?mx
       then map_option (\<lambda>m. (m, UPNP_E_SUCCESS)) (wr (?R @ q @ G' @ NUL # t) (length ?R + length q) NUL)
       else Some (?R @ q @ G' @ NUL # t, UPNP_E_SUCCESS))"
    using G(1) G'(1) by (simp add: remove_dots_def er(1) [symmetric])
  show ?thesis
  proof (cases G')
    case Nil
    then show ?thesis
      using rd G(2) G'(2) by (auto simp: at_def nth_append)
  next
    case (Cons g H)
    then have "wr (?R @ q @ G' @ NUL # t) (length ?R + length q) NUL = Some ((?R @ q) @ NUL # H @ NUL # t)"
      using wr_at [of "?R @ q" "length ?R + length q" g "H @ NUL # t" NUL] by simp
    moreover have "length ?R + length q < ?mx" "length p = length ?R + Suc (length H)"
      using Cons G(2) G'(2) by auto
    ultimately show ?thesis
      using rd by (auto simp: at_def nth_append)
  qed
qed




lemma remove_dots_total: "\<exists>mem. remove_dots (path @ [NUL]) (length path) = Some (mem, UPNP_E_SUCCESS)"
proof -
  let ?p = "takeWhile (\<lambda>c. \<not> is_end_path c) path" and ?q = "dropWhile (\<lambda>c. \<not> is_end_path c) path"
  have "path_text ?p"
    by (auto simp: path_text_def list_all_iff dest: set_takeWhileD)
  moreover have "?q = [] \<or> is_end_path (hd ?q)"
    using hd_dropWhile by blast
  moreover have "length path = length ?p + length ?q" "path @ [NUL] = ?p @ ?q @ NUL # []"
    by (simp_all flip: length_append append_assoc)
  ultimately show ?thesis
    using remove_dots_rfc3986_total by metis
qed

text \<open>
  Resolving a reference never reads outside the two strings: for a base and a
  reference, both NUL terminated, a result or a null pointer is returned. An
  absolute reference is returned as it is, an empty one gives the base. A null
  reference with a base is an access through the null pointer.
\<close>

lemma resolve_rel_url_defined:
  assumes "length base_url < SIZE_MOD" and "length rel_url < SIZE_MOD"
  shows "(\<exists>r. resolve_rel_url net ok (Some base_url) (Some rel_url) = Some r) \<and>
    (\<forall>u. parse_uri net (rel_url @ [NUL]) (length rel_url) = Some (Inr u) \<and> utype u = ABSOLUTE \<longrightarrow>
       resolve_rel_url net True (Some base_url) (Some rel_url) = Some (Some rel_url)) \<and>
    resolve_rel_url net ok (Some base_url) None = None"
proof -
  obtain r1 where r1: "parse_uri net (rel_url @ [NUL]) (length rel_url) = Some r1"
    using parse_uri_inside' [OF assms(2)] by blast
  obtain r2 where r2: "parse_uri net (base_url @ [NUL]) (length base_url) = Some r2"
    using parse_uri_inside' [OF assms(1)] by blast
  obtain m where m: "\<And>path. remove_dots (path @ [NUL]) (length path) = Some (m path, UPNP_E_SUCCESS)"
    using remove_dots_total by metis
  have "\<exists>r. resolve_rel_url net ok (Some base_url) (Some rel_url) = Some r"
    using r1 r2 m
    by (cases r1; cases r2) (simp_all add: resolve_rel_url_def Let_def split: option.splits)
  then show ?thesis
    by (simp add: resolve_rel_url_def Let_def)
qed

end
