(* ===== verification/ServiceTable.thy ===== *)
theory ServiceTable
  imports UriDots
begin

text \<open>
  The table of a device's services and their subscriptions,
  \<^verbatim>\<open>compa/src/genlib/service-table/service_table.cpp\<close>. The description document is a tree; the functions of the
  XML library that the code calls on it are written out from \<^verbatim>\<open>pupnp/ixml/src/node.cpp\<close>. The list of subscriptions of a
  service and the list of services are lists; where the code changes the links of the service list by
  hand (\<open>removeServiceTable\<close>), a heap of list cells is used. \<open>None\<close> as a result is an access through a null or
  freed pointer.
\<close>

section \<open>Documents\<close>

datatype xml = Document "xml list" | Element string "xml list" | Text string

fun children :: "xml \<Rightarrow> xml list" where
  "children (Document cs) = cs"
| "children (Element n cs) = cs"
| "children (Text v) = []"

fun is_element :: "string \<Rightarrow> xml \<Rightarrow> bool" where
  "is_element nm (Element n cs) \<longleftrightarrow> n = nm"
| "is_element nm _ \<longleftrightarrow> False"

text \<open>All elements with a tag name, the node itself included, in document order.\<close>

fun getElementsByTagName :: "string \<Rightarrow> xml \<Rightarrow> xml list" where
  "getElementsByTagName tag (Document cs) = concat (map (getElementsByTagName tag) cs)"
| "getElementsByTagName tag (Element n cs) =
     (if tag = n \<or> tag = ''*'' then [Element n cs] else []) @ concat (map (getElementsByTagName tag) cs)"
| "getElementsByTagName tag (Text v) = []"

definition getElementValue :: "ok_script \<Rightarrow> xml \<Rightarrow> ok_script \<times> string option" where
  "getElementValue ms node =
     (case children node of
        Text v # cs \<Rightarrow> (case next_ok ms of (ok, ms1) \<Rightarrow> (ms1, if ok then Some v else None))
      | _ \<Rightarrow> (ms, None))"

definition getSubElement :: "string \<Rightarrow> xml \<Rightarrow> xml option" where
  "getSubElement nm node = find (is_element nm) (children node)"

section \<open>Subscriptions\<close>

definition SID_SIZE :: nat where "SID_SIZE = 41"

record subscription =
  sid :: string
  ToSendEventKey :: int
  expireTime :: int
  active :: bool
  DeliveryURLs :: URL_list
  outgoing :: "nat list"

record service_info =
  serviceType :: "string option"
  serviceId :: "string option"
  SCPDURL :: "string option"
  controlURL :: "string option"
  eventURL :: "string option"
  UDN :: "string option"
  service_active :: bool
  TotalSubscriptions :: int
  subscriptionList :: "subscription list"

text \<open>The fields of the copy that are not written on failure keep their old values (\<open>out0\<close>).\<close>

definition copy_subscription :: "bool \<Rightarrow> bool \<Rightarrow> subscription \<Rightarrow> subscription \<Rightarrow> (subscription \<times> int) option" where
  "copy_subscription ok1 ok2 s out0 =
     (case copy_URL_list ok1 ok2 (DeliveryURLs s) of
        None \<Rightarrow> None
      | Some (us, rc) \<Rightarrow>
          let out1 = out0\<lparr>sid := take SID_SIZE (sid s), ToSendEventKey := ToSendEventKey s, expireTime := expireTime s,
                          active := active s, DeliveryURLs := us\<rparr>
          in Some (if rc \<noteq> HTTP_SUCCESS then out1 else out1\<lparr>outgoing := []\<rparr>, rc))"

fun remove_first :: "string \<Rightarrow> subscription list \<Rightarrow> subscription list \<times> int" where
  "remove_first k [] = ([], 0)"
| "remove_first k (s # ss) =
     (if sid s = k then (ss, 1) else (case remove_first k ss of (ss1, n) \<Rightarrow> (s # ss1, n)))"

definition RemoveSubscriptionSID :: "string \<Rightarrow> service_info \<Rightarrow> service_info" where
  "RemoveSubscriptionSID k service =
     (case remove_first k (subscriptionList service) of
        (ss, n) \<Rightarrow> service\<lparr>subscriptionList := ss, TotalSubscriptions := TotalSubscriptions service - n\<rparr>)"

definition expired :: "int \<Rightarrow> subscription \<Rightarrow> bool" where
  "expired now s \<longleftrightarrow> expireTime s \<noteq> 0 \<and> expireTime s < now"

definition GetSubscriptionSID :: "int \<Rightarrow> string \<Rightarrow> service_info \<Rightarrow> service_info \<times> subscription option" where
  "GetSubscriptionSID now k service =
     (case find (\<lambda>s. sid s = k) (subscriptionList service) of
        None \<Rightarrow> (service, None)
      | Some s \<Rightarrow> if expired now s then (RemoveSubscriptionSID k service, None) else (service, Some s))"

text \<open>
  The loop of \<open>GetNextSubscription\<close> over the subscriptions behind the current one: expired ones are removed, inactive ones
  skipped. The result: what is left of these subscriptions, how many were removed, and the
  place of the next active one among what is left.
\<close>

fun next_active :: "int \<Rightarrow> subscription list \<Rightarrow> subscription list \<times> int \<times> nat option" where
  "next_active now [] = ([], 0, None)"
| "next_active now (s # ss) =
     (if expired now s then (case next_active now ss of (ss1, n, r) \<Rightarrow> (ss1, n + 1, r))
      else if active s then (s # ss, 0, Some 0)
      else (case next_active now ss of (ss1, n, r) \<Rightarrow> (s # ss1, n, map_option Suc r)))"

definition GetNextSubscription :: "int \<Rightarrow> service_info \<Rightarrow> nat \<Rightarrow> service_info \<times> nat option" where
  "GetNextSubscription now service i =
     (case next_active now (drop (Suc i) (subscriptionList service)) of
        (ss, n, r) \<Rightarrow>
          (service\<lparr>subscriptionList := take (Suc i) (subscriptionList service) @ ss,
                   TotalSubscriptions := TotalSubscriptions service - n\<rparr>,
           map_option (\<lambda>k. Suc i + k) r))"

definition GetFirstSubscription :: "int \<Rightarrow> service_info \<Rightarrow> service_info \<times> nat option" where
  "GetFirstSubscription now service =
     (case next_active now (subscriptionList service) of
        (ss, n, r) \<Rightarrow>
          (service\<lparr>subscriptionList := ss, TotalSubscriptions := TotalSubscriptions service - n\<rparr>, r))"

section \<open>Searching the table\<close>

record service_table =
  URLBase :: "string option"
  serviceList :: "service_info list"

fun find_service :: "string \<Rightarrow> string \<Rightarrow> service_info list \<Rightarrow> service_info option option" where
  "find_service k u [] = Some None"
| "find_service k u (s # ss) =
     (case serviceId s of
        None \<Rightarrow> None
      | Some k1 \<Rightarrow>
          if k = k1 then
            (case UDN s of None \<Rightarrow> None | Some u1 \<Rightarrow> if u = u1 then Some (Some s) else find_service k u ss)
          else find_service k u ss)"

definition FindServiceId :: "service_table option \<Rightarrow> string \<Rightarrow> string \<Rightarrow> service_info option option" where
  "FindServiceId table k u = (case table of None \<Rightarrow> Some None | Some t \<Rightarrow> find_service k u (serviceList t))"

text \<open>Both searches by path: the first service whose URL has the given path and query.\<close>

fun find_path ::
    "net_env \<Rightarrow> (service_info \<Rightarrow> string option) \<Rightarrow> string \<Rightarrow> token \<Rightarrow> service_info list \<Rightarrow> service_info option option" where
  "find_path net url path tok [] = Some None"
| "find_path net url path tok (s # ss) =
     (case url s of
        None \<Rightarrow> find_path net url path tok ss
      | Some u \<Rightarrow>
          (case parse_uri net (u @ [NUL]) (length u) of
             None \<Rightarrow> None
           | Some (Inl e) \<Rightarrow> find_path net url path tok ss
           | Some (Inr p) \<Rightarrow>
               if token_cmp u (pathquery p) path tok = 0 then Some (Some s) else find_path net url path tok ss))"

definition find_by_path ::
    "net_env \<Rightarrow> (service_info \<Rightarrow> string option) \<Rightarrow> service_table option \<Rightarrow> string option \<Rightarrow> service_info option option" where
  "find_by_path net url table path =
     (case (table, path) of
        (Some t, Some p) \<Rightarrow>
          (case parse_uri net (p @ [NUL]) (length p) of
             None \<Rightarrow> None
           | Some (Inl e) \<Rightarrow> Some None
           | Some (Inr u) \<Rightarrow> find_path net url p (pathquery u) (serviceList t))
      | _ \<Rightarrow> Some None)"

definition FindServiceEventURLPath :: "net_env \<Rightarrow> service_table option \<Rightarrow> string option \<Rightarrow> service_info option option" where
  "FindServiceEventURLPath net = find_by_path net eventURL"

definition FindServiceControlURLPath :: "net_env \<Rightarrow> service_table option \<Rightarrow> string option \<Rightarrow> service_info option option" where
  "FindServiceControlURLPath net = find_by_path net controlURL"

section \<open>Building the table\<close>

definition sub_value :: "ok_script \<Rightarrow> string \<Rightarrow> xml \<Rightarrow> ok_script \<times> string option" where
  "sub_value ms nm node = (case getSubElement nm node of None \<Rightarrow> (ms, None) | Some e \<Rightarrow> getElementValue ms e)"

definition sub_url :: "net_env \<Rightarrow> ok_script \<Rightarrow> string option \<Rightarrow> string \<Rightarrow> xml \<Rightarrow> (ok_script \<times> string option) option" where
  "sub_url net ms base nm node =
     (case sub_value ms nm node of
        (ms1, None) \<Rightarrow> Some (ms1, None)
      | (ms1, Some t) \<Rightarrow>
          (case next_ok ms1 of (ok, ms2) \<Rightarrow> map_option (\<lambda>r. (ms2, r)) (resolve_rel_url net ok base (Some t))))"

text \<open>
  One service: the entry and the variable \<open>fail\<close> at the end. A missing control or event URL sets it back
  to 0, whatever was missing before.
\<close>

definition service_entry ::
    "net_env \<Rightarrow> string option \<Rightarrow> xml \<Rightarrow> ok_script \<Rightarrow> xml \<Rightarrow> (ok_script \<times> service_info \<times> bool) option" where
  "service_entry net base udn_node ms node =
     (case getElementValue ms udn_node of (ms1, udn) \<Rightarrow>
      case sub_value ms1 ''serviceType'' node of (ms2, ty) \<Rightarrow>
      case sub_value ms2 ''serviceId'' node of (ms3, k) \<Rightarrow>
      case sub_url net ms3 base ''SCPDURL'' node of
        None \<Rightarrow> None
      | Some (ms4, scpd) \<Rightarrow>
          (case sub_url net ms4 base ''controlURL'' node of
             None \<Rightarrow> None
           | Some (ms5, control) \<Rightarrow>
               (case sub_url net ms5 base ''eventSubURL'' node of
                  None \<Rightarrow> None
                | Some (ms6, event) \<Rightarrow>
                    let fail1 = (udn = None \<or> ty = None \<or> k = None \<or> scpd = None);
                        fail2 = (if control = None then False else fail1);
                        fail3 = (if event = None then False else fail2)
                    in Some (ms6, \<lparr>serviceType = ty, serviceId = k, SCPDURL = scpd, controlURL = control,
                                   eventURL = event, UDN = udn, service_active = True, TotalSubscriptions = 0,
                                   subscriptionList = []\<rparr>, fail3))))"

text \<open>The loop over the service elements; without memory for an entry the whole list is freed (inner \<open>None\<close>).\<close>

fun service_loop ::
    "net_env \<Rightarrow> string option \<Rightarrow> xml \<Rightarrow> xml list \<Rightarrow> ok_script \<Rightarrow> service_info list \<Rightarrow>
     (ok_script \<times> service_info list option) option" where
  "service_loop net base udn_node [] ms acc = Some (ms, Some acc)"
| "service_loop net base udn_node (s # ss) ms acc =
     (case next_ok ms of
        (False, ms1) \<Rightarrow> Some (ms1, None)
      | (True, ms1) \<Rightarrow>
          (case service_entry net base udn_node ms1 s of
             None \<Rightarrow> None
           | Some (ms2, e, fail) \<Rightarrow> service_loop net base udn_node ss ms2 (if fail then acc else acc @ [e])))"

definition getServiceList ::
    "net_env \<Rightarrow> ok_script \<Rightarrow> xml \<Rightarrow> string option \<Rightarrow> (ok_script \<times> service_info list) option" where
  "getServiceList net ms node base =
     (case (getSubElement ''UDN'' node, getSubElement ''serviceList'' node) of
        (Some u, Some l) \<Rightarrow>
          map_option (\<lambda>(ms1, r). (ms1, case r of None \<Rightarrow> [] | Some es \<Rightarrow> es))
            (service_loop net base u (getElementsByTagName ''service'' l) ms [])
      | _ \<Rightarrow> Some (ms, []))"

fun device_loop ::
    "net_env \<Rightarrow> string option \<Rightarrow> xml list \<Rightarrow> ok_script \<Rightarrow> service_info list \<Rightarrow> (ok_script \<times> service_info list) option" where
  "device_loop net base [] ms acc = Some (ms, acc)"
| "device_loop net base (d # ds) ms acc =
     (case getServiceList net ms d base of
        None \<Rightarrow> None
      | Some (ms1, es) \<Rightarrow> device_loop net base ds ms1 (acc @ es))"

definition getAllServiceList ::
    "net_env \<Rightarrow> ok_script \<Rightarrow> xml \<Rightarrow> string option \<Rightarrow> (ok_script \<times> service_info list) option" where
  "getAllServiceList net ms node base = device_loop net base (getElementsByTagName ''device'' node) ms []"

definition url_base :: "ok_script \<Rightarrow> xml \<Rightarrow> string option \<Rightarrow> ok_script \<times> string option" where
  "url_base ms root DefaultURLBase =
     (case getSubElement ''URLBase'' root of
        Some u \<Rightarrow> getElementValue ms u
      | None \<Rightarrow>
          (case next_ok ms of
             (ok, ms1) \<Rightarrow>
               (ms1, if ok then Some (case DefaultURLBase of None \<Rightarrow> [] | Some b \<Rightarrow> b) else None)))"

definition getServiceTable ::
    "net_env \<Rightarrow> ok_script \<Rightarrow> xml \<Rightarrow> service_table \<Rightarrow> string option \<Rightarrow> (service_table \<times> bool) option" where
  "getServiceTable net ms node out DefaultURLBase =
     (case getSubElement ''root'' node of
        None \<Rightarrow> Some (out, False)
      | Some root \<Rightarrow>
          (case url_base ms root DefaultURLBase of
             (ms1, base) \<Rightarrow>
               map_option (\<lambda>(ms2, es). (\<lparr>URLBase = base, serviceList = es\<rparr>, es \<noteq> []))
                 (getAllServiceList net ms1 root base)))"

text \<open>The new services are linked behind the last one of the table, which must exist.\<close>

definition addServiceTable ::
    "net_env \<Rightarrow> ok_script \<Rightarrow> xml \<Rightarrow> service_table \<Rightarrow> string option \<Rightarrow> (service_table \<times> bool) option" where
  "addServiceTable net ms node tab DefaultURLBase =
     (case getSubElement ''root'' node of
        None \<Rightarrow> Some (tab\<lparr>URLBase := None\<rparr>, False)
      | Some root \<Rightarrow>
          (case url_base ms root DefaultURLBase of
             (ms1, base) \<Rightarrow>
               (case getAllServiceList net ms1 root base of
                  None \<Rightarrow> None
                | Some (ms2, es) \<Rightarrow>
                    if serviceList tab = [] then None
                    else Some (\<lparr>URLBase = base, serviceList = serviceList tab @ es\<rparr>, es \<noteq> []))))"

section \<open>Removing a device\<close>

text \<open>
  The cells of the service list: an entry and the link to the next cell. A freed cell is \<open>None\<close>. The search loop
  sets \<open>prev_service\<close> to the cell behind the current one, as the source does.
\<close>

record service_cells =
  cells :: "nat \<Rightarrow> (service_info \<times> nat option) option"
  first_cell :: "nat option"
  end_cell :: "nat option"

partial_function (option) search_udn ::
    "(nat \<Rightarrow> (service_info \<times> nat option) option) \<Rightarrow> string \<Rightarrow> nat option \<Rightarrow> nat option \<Rightarrow> (nat option \<times> nat option) option" where
  "search_udn h u cur prev =
     (case cur of
        None \<Rightarrow> Some (None, prev)
      | Some c \<Rightarrow>
          (case h c of
             None \<Rightarrow> None
           | Some (s, nx) \<Rightarrow>
               (case UDN s of
                  None \<Rightarrow> None
                | Some u1 \<Rightarrow>
                    if u1 = u then Some (Some c, prev)
                    else
                      (case nx of
                         None \<Rightarrow> Some (None, prev)
                       | Some n \<Rightarrow>
                           (case h n of None \<Rightarrow> None | Some (s2, nx2) \<Rightarrow> search_udn h u (Some n) nx2)))))"

definition unlink_cell :: "service_cells \<Rightarrow> nat \<Rightarrow> nat option \<Rightarrow> nat option \<Rightarrow> service_cells option" where
  "unlink_cell t c nx prev =
     (case prev of
        None \<Rightarrow> Some (t\<lparr>first_cell := nx\<rparr>)
      | Some p \<Rightarrow>
          (case cells t p of
             None \<Rightarrow> None
           | Some (s, l) \<Rightarrow> Some (t\<lparr>cells := (cells t)(p \<mapsto> (s, nx))\<rparr>)))"

partial_function (option) remove_cells ::
    "string \<Rightarrow> service_cells \<Rightarrow> nat option \<Rightarrow> nat option \<Rightarrow> nat option \<Rightarrow> (service_cells \<times> nat option) option" where
  "remove_cells u t cur prev start =
     (case cur of
        None \<Rightarrow> Some (t, start)
      | Some c \<Rightarrow>
          (case cells t c of
             None \<Rightarrow> None
           | Some (s, nx) \<Rightarrow>
               (case UDN s of
                  None \<Rightarrow> None
                | Some u1 \<Rightarrow>
                    if u1 \<noteq> u then Some (t, start)
                    else
                      (case unlink_cell t c nx prev of
                         None \<Rightarrow> None
                       | Some t1 \<Rightarrow>
                           let t2 = (if end_cell t1 = Some c then t1\<lparr>end_cell := prev\<rparr> else t1);
                               next = (case cells t2 c of None \<Rightarrow> None | Some (s1, l) \<Rightarrow> l)
                           in remove_cells u (t2\<lparr>cells := (cells t2)(c := None)\<rparr>) next prev next))))"

fun remove_devices ::
    "nat \<Rightarrow> ok_script \<Rightarrow> xml \<Rightarrow> service_cells \<Rightarrow> nat option \<Rightarrow> nat option \<Rightarrow> service_cells option" where
  "remove_devices 0 ms node t start prev = Some t"
| "remove_devices (Suc n) ms node t start prev =
     (if start = None then remove_devices n ms node t start prev
      else
        (case sub_value ms ''UDN'' node of
           (ms1, None) \<Rightarrow> remove_devices n ms1 node t start prev
         | (ms1, Some u) \<Rightarrow>
             (case search_udn (cells t) u start prev of
                None \<Rightarrow> None
              | Some (cur, prev1) \<Rightarrow>
                  (case remove_cells u t cur prev1 start of
                     None \<Rightarrow> None
                   | Some (t1, start1) \<Rightarrow> remove_devices n ms1 node t1 start1 prev1))))"

definition removeServiceTable :: "ok_script \<Rightarrow> xml \<Rightarrow> service_cells \<Rightarrow> service_cells option" where
  "removeServiceTable ms node t =
     (case getSubElement ''root'' node of
        None \<Rightarrow> Some t
      | Some root \<Rightarrow> remove_devices (length (getElementsByTagName ''device'' root)) ms node t (first_cell t) None)"

section \<open>Walking through the subscriptions\<close>

definition service_ok :: "service_info \<Rightarrow> bool" where
  "service_ok s \<longleftrightarrow> TotalSubscriptions s = int (length (subscriptionList s))"

lemma remove_first_length: "remove_first k ss = (ss1, n) \<Longrightarrow> int (length ss1) = int (length ss) - n"
  by (induction ss arbitrary: ss1) (auto split: if_splits prod.splits)

lemma next_active_length: "next_active now ss = (ss1, n, r) \<Longrightarrow> int (length ss1) = int (length ss) - n"
  by (induction ss arbitrary: ss1 n r) (auto split: if_splits prod.splits)

lemma next_active_nonneg: "next_active now ss = (ss1, n, r) \<Longrightarrow> 0 \<le> n"
  by (induction ss arbitrary: ss1 n r) (auto split: if_splits prod.splits)

text \<open>A live subscription is active and not expired. The search stops at the first live one.\<close>

definition live :: "int \<Rightarrow> subscription \<Rightarrow> bool" where
  "live now s \<longleftrightarrow> active s \<and> \<not> expired now s"

lemma next_active_none:
  "next_active now ss = (ss1, n, None) \<Longrightarrow> filter (live now) ss = [] \<and> ss1 = filter (\<lambda>s. \<not> expired now s) ss"
  by (induction ss arbitrary: ss1 n) (auto simp: live_def split: if_splits prod.splits)

lemma next_active_some:
  "next_active now ss = (ss1, n, Some k) \<Longrightarrow> k < length ss1 \<and> filter (live now) ss = ss1 ! k # filter (live now) (drop (Suc k) ss1) \<and>
     (\<forall>s\<in>set (take k ss1). \<not> expired now s) \<and> filter (live now) (take k ss1) = [] \<and> live now (ss1 ! k) \<and>
     filter (\<lambda>s. \<not> expired now s) ss1 = filter (\<lambda>s. \<not> expired now s) ss"
proof (induction ss arbitrary: ss1 n k)
  case (Cons s ss)
  obtain ss2 n2 r2 where r: "next_active now ss = (ss2, n2, r2)"
    by (metis prod.collapse)
  show ?case
  proof (cases "expired now s \<or> active s")
    case True
    then show ?thesis
      using Cons r by (auto simp: live_def split: if_splits)
  next
    case False
    then obtain k2 where k2: "r2 = Some k2" "k = Suc k2" "ss1 = s # ss2"
      using Cons.prems r by auto
    then show ?thesis
      using Cons.IH [of ss2 n2 k2] r False by (simp add: live_def)
  qed
qed simp

text \<open>
  The loop the event code runs over a service: from the first subscription to the next until there is none. The
  result is the list of the subscriptions seen.
\<close>

fun visit :: "nat \<Rightarrow> int \<Rightarrow> service_info \<times> nat option \<Rightarrow> service_info \<times> subscription list" where
  "visit fuel now (service, None) = (service, [])"
| "visit 0 now (service, Some i) = (service, [])"
| "visit (Suc fuel) now (service, Some i) =
     (case visit fuel now (GetNextSubscription now service i) of
        (service1, seen) \<Rightarrow> (service1, (subscriptionList service ! i) # seen))"

lemma visit_spec:
  assumes "i < length (subscriptionList service)" and "length (subscriptionList service) \<le> fuel + i"
    and "\<forall>s\<in>set (take (Suc i) (subscriptionList service)). \<not> expired now s" and "live now (subscriptionList service ! i)"
    and "service_ok service"
  shows "\<exists>service1. visit fuel now (service, Some i) = (service1, subscriptionList service ! i #
      filter (live now) (drop (Suc i) (subscriptionList service))) \<and>
    subscriptionList service1 = filter (\<lambda>s. \<not> expired now s) (subscriptionList service) \<and> service_ok service1"
  using assms
proof (induction fuel arbitrary: service i)
  case (Suc fuel)
  let ?l = "subscriptionList service"
  obtain ss n r where nx: "next_active now (drop (Suc i) ?l) = (ss, n, r)"
    by (metis prod.collapse)
  define sv where "sv = service\<lparr>subscriptionList := take (Suc i) ?l @ ss, TotalSubscriptions := TotalSubscriptions service - n\<rparr>"
  have g: "GetNextSubscription now service i = (sv, map_option (\<lambda>k. Suc i + k) r)"
    using nx by (simp add: GetNextSubscription_def sv_def)
  have ok: "service_ok sv"
    using next_active_length [OF nx] Suc.prems(1,5) by (simp add: service_ok_def sv_def)
  have keep: "filter (\<lambda>s. \<not> expired now s) (take (Suc i) ?l) = take (Suc i) ?l"
    using Suc.prems(3) by (simp add: filter_id_conv)
  have all: "filter P ?l = filter P (take (Suc i) ?l) @ filter P (drop (Suc i) ?l)" for P
    by (metis append_take_drop_id filter_append)
  show ?case
  proof (cases r)
    case None
    then show ?thesis
      using g next_active_none [OF nx [unfolded None]] keep all [of "\<lambda>s. \<not> expired now s"] ok by (auto simp: sv_def)
  next
    case (Some k)
    note sp = next_active_some [OF nx [unfolded Some]]
    have len: "length (take (Suc i) ?l) = Suc i"
      using Suc.prems(1) by simp
    have at: "subscriptionList sv ! (Suc i + k) = ss ! k" "drop (Suc (Suc i + k)) (subscriptionList sv) = drop (Suc k) ss"
      using len by (simp_all add: sv_def nth_append)
    have "int (length ss) = int (length (drop (Suc i) ?l)) - n" "0 \<le> n"
      using next_active_length [OF nx] next_active_nonneg [OF nx] by simp_all
    then have fuel: "length (subscriptionList sv) \<le> fuel + (Suc i + k)" "Suc i + k < length (subscriptionList sv)"
      using Suc.prems(1,2) sp len by (auto simp: sv_def)
    have ne: "\<forall>s\<in>set (take (Suc (Suc i + k)) (subscriptionList sv)). \<not> expired now s"
    proof -
      have "take (Suc (Suc i + k)) (subscriptionList sv) = take (Suc i) ?l @ take k ss @ [ss ! k]"
        using len sp by (simp add: sv_def take_Suc_conv_app_nth)
      then show ?thesis
        using Suc.prems(3) sp by (auto simp: live_def)
    qed
    obtain sv1 where v: "visit fuel now (sv, Some (Suc i + k)) = (sv1, ss ! k # filter (live now) (drop (Suc k) ss))"
      "subscriptionList sv1 = filter (\<lambda>s. \<not> expired now s) (subscriptionList sv)" "service_ok sv1"
      using Suc.IH [OF fuel(2,1) ne _ ok] sp at by auto
    show ?thesis
      using g Some v sp keep all [of "\<lambda>s. \<not> expired now s"] by (auto simp: sv_def)
  qed
qed simp

lemma find_remove_first:
  "remove_first k ss = (ss1, n) \<Longrightarrow> k' \<noteq> k \<Longrightarrow> find (\<lambda>s. sid s = k') ss1 = find (\<lambda>s. sid s = k') ss"
  by (induction ss arbitrary: ss1) (auto split: if_splits prod.splits)

lemma find_removed:
  "remove_first k ss = (ss1, n) \<Longrightarrow> distinct (map sid ss) \<Longrightarrow> find (\<lambda>s. sid s = k) ss1 = None"
proof (induction ss arbitrary: ss1)
  case (Cons s ss)
  show ?case
  proof (cases "sid s = k")
    case True
    then have "k \<notin> sid ` set ss" "ss1 = ss"
      using Cons.prems by auto
    then show ?thesis
      by (auto simp: find_None_iff)
  next
    case False
    then show ?thesis
      using Cons by (auto split: prod.splits)
  qed
qed simp

section \<open>Properties\<close>

text \<open>
  Property C22. The loop that sends an event to the subscribers of a service sees exactly the subscriptions that are active and not
  expired, in their order; it removes exactly the expired ones, and the number of subscriptions kept in
  the service stays right. The fuel is the number of subscriptions: the loop ends.
\<close>

theorem subscriptions_visited:
  assumes "service_ok service"
  shows "\<exists>service1. visit (length (subscriptionList service)) now (GetFirstSubscription now service) =
      (service1, filter (live now) (subscriptionList service)) \<and>
    subscriptionList service1 = filter (\<lambda>s. \<not> expired now s) (subscriptionList service) \<and> service_ok service1"
proof -
  let ?l = "subscriptionList service"
  obtain ss n r where nx: "next_active now ?l = (ss, n, r)"
    by (metis prod.collapse)
  define sv where "sv = service\<lparr>subscriptionList := ss, TotalSubscriptions := TotalSubscriptions service - n\<rparr>"
  have g: "GetFirstSubscription now service = (sv, r)"
    using nx by (simp add: GetFirstSubscription_def sv_def)
  have ok: "service_ok sv"
    using next_active_length [OF nx] assms by (simp add: service_ok_def sv_def)
  show ?thesis
  proof (cases r)
    case None
    then show ?thesis
      using g next_active_none [OF nx [unfolded None]] ok by (simp add: sv_def)
  next
    case (Some k)
    note sp = next_active_some [OF nx [unfolded Some]]
    have len: "length (subscriptionList sv) \<le> length ?l + k"
      using next_active_length [OF nx] next_active_nonneg [OF nx] by (simp add: sv_def)
    have ne: "\<forall>s\<in>set (take (Suc k) (subscriptionList sv)). \<not> expired now s"
      using sp by (auto simp: sv_def take_Suc_conv_app_nth live_def)
    show ?thesis
      using visit_spec [OF _ len ne _ ok] sp g Some by (auto simp: sv_def)
  qed
qed

definition demo_sub :: "string \<Rightarrow> int \<Rightarrow> bool \<Rightarrow> subscription" where
  "demo_sub k t a = \<lparr>sid = k, ToSendEventKey = 0, expireTime = t, active = a,
     DeliveryURLs = \<lparr>usize = 0, URLs = None, parsedURLs = None\<rparr>, outgoing = []\<rparr>"

definition demo_service :: service_info where
  "demo_service = \<lparr>serviceType = Some ''t'', serviceId = Some ''id'', SCPDURL = None, controlURL = None, eventURL = None,
     UDN = Some ''u'', service_active = True, TotalSubscriptions = 3,
     subscriptionList = [demo_sub ''a'' 5 True, demo_sub ''b'' 0 False, demo_sub ''c'' 50 True]\<rparr>"

theorem subscriptions_visited_witness:
  "\<exists>service1. visit 3 10 (GetFirstSubscription 10 demo_service) = (service1, [demo_sub ''c'' 50 True]) \<and>
     TotalSubscriptions service1 = 2"
  using subscriptions_visited [of demo_service 10]
  by (auto simp: demo_service_def demo_sub_def service_ok_def live_def expired_def numeral_3_eq_3)

text \<open>
  After \<open>RemoveSubscriptionSID\<close> the subscription is not found any more, every other one is found as before, and the
  number of subscriptions is right; also an expired subscription that is looked up is removed and not
  returned. (The ids of the subscriptions of a service are different.)
\<close>

lemma RemoveSubscriptionSID_lookup:
  assumes "service_ok service" and "distinct (map sid (subscriptionList service))"
  shows "service_ok (RemoveSubscriptionSID k service) \<and>
    snd (GetSubscriptionSID now k (RemoveSubscriptionSID k service)) = None \<and>
    (k' \<noteq> k \<longrightarrow> snd (GetSubscriptionSID now k' (RemoveSubscriptionSID k service)) = snd (GetSubscriptionSID now k' service)) \<and>
    service_ok (fst (GetSubscriptionSID now k' service)) \<and>
    (\<forall>s. snd (GetSubscriptionSID now k' service) = Some s \<longrightarrow> s \<in> set (subscriptionList service) \<and> sid s = k' \<and> \<not> expired now s)"
proof -
  have ok: "service_ok (RemoveSubscriptionSID j service)" for j
    using assms(1) remove_first_length by (auto simp: service_ok_def RemoveSubscriptionSID_def split: prod.splits)
  obtain ss n where r: "remove_first k (subscriptionList service) = (ss, n)"
    by fastforce
  have l: "subscriptionList (RemoveSubscriptionSID k service) = ss"
    using r by (simp add: RemoveSubscriptionSID_def)
  have "snd (GetSubscriptionSID now k (RemoveSubscriptionSID k service)) = None"
    using l find_removed [OF r assms(2)] by (simp add: GetSubscriptionSID_def)
  moreover have "snd (GetSubscriptionSID now k' (RemoveSubscriptionSID k service)) = snd (GetSubscriptionSID now k' service)"
    if "k' \<noteq> k"
    using l find_remove_first [OF r that] by (auto simp: GetSubscriptionSID_def split: option.split)
  moreover have "service_ok (fst (GetSubscriptionSID now k' service))"
    using ok assms(1) by (auto simp: GetSubscriptionSID_def split: option.split)
  moreover have "s \<in> set (subscriptionList service) \<and> sid s = k' \<and> \<not> expired now s"
    if "snd (GetSubscriptionSID now k' service) = Some s" for s
    using that by (auto simp: GetSubscriptionSID_def find_Some_iff split: option.splits if_splits)
  ultimately show ?thesis
    using ok by blast
qed

text \<open>
  \<open>getServiceList\<close> accepts a service element with nothing in it: the missing control and event URLs set the failure
  back that the missing type, id and description URL had noted. The entry has no service id, and a
  search by service id in the table then compares with a null pointer.
\<close>

definition bare_device :: xml where
  "bare_device = Document [Element ''root'' [Element ''device''
     [Element ''UDN'' [Text ''u''], Element ''serviceList'' [Element ''service'' []]]]]"

lemma empty_service_accepted:
  "\<exists>tab. getServiceTable net [] bare_device out None = Some (tab, True) \<and> map serviceId (serviceList tab) = [None] \<and>
     FindServiceId (Some tab) k u = None"
  by (simp add: bare_device_def getServiceTable_def getSubElement_def url_base_def getAllServiceList_def getServiceList_def
    service_entry_def getElementValue_def sub_value_def sub_url_def FindServiceId_def)

text \<open>
  Property C39. \<open>removeServiceTable\<close> removes nothing: it looks for the UDN among the children of the document, where
  only the root element is, instead of in the device. The table is unchanged for every document with one root
  element, whatever its devices.
\<close>

theorem removeServiceTable_removes_nothing:
  "removeServiceTable ms (Document [Element ''root'' cs]) tab = Some tab"
proof -
  have "sub_value ms ''UDN'' (Document [Element ''root'' cs]) = (ms, None)" for ms
    by (simp add: sub_value_def getSubElement_def)
  then have "remove_devices n ms (Document [Element ''root'' cs]) tab start prev = Some tab" for n ms start prev
    by (induction n arbitrary: ms) auto
  then show ?thesis
    by (simp add: removeServiceTable_def getSubElement_def)
qed

end
