(* ===== verification/HandleTable.thy ===== *)
theory HandleTable
  imports ServiceTable Sock
begin

text \<open>
  The table of the registered clients and devices, \<^verbatim>\<open>compa/src/api/upnpapi.cpp\<close>, and its lock. The table has
  \<open>NUM_HANDLE\<close> places, of which place 0 is never used. The lock is one bit: locking a locked table waits for ever and unlocking
  an unlocked one is undefined, both are \<open>None\<close>. Callbacks and cookies are numbers.
\<close>

section \<open>State\<close>

definition NUM_HANDLE :: int where "NUM_HANDLE = 200"
definition UPNP_INFINITE :: int where "UPNP_INFINITE = -1"
definition DEFAULT_MAXAGE :: int where "DEFAULT_MAXAGE = 1800"

definition UPNP_E_INVALID_HANDLE :: int where "UPNP_E_INVALID_HANDLE = -100"
definition UPNP_E_OUTOF_HANDLE :: int where "UPNP_E_OUTOF_HANDLE = -102"
definition UPNP_E_INVALID_DESC :: int where "UPNP_E_INVALID_DESC = -107"
definition UPNP_E_INVALID_SID :: int where "UPNP_E_INVALID_SID = -109"
definition UPNP_E_INVALID_SERVICE :: int where "UPNP_E_INVALID_SERVICE = -111"
definition UPNP_E_FINISH :: int where "UPNP_E_FINISH = -116"
definition UPNP_E_ALREADY_REGISTERED :: int where "UPNP_E_ALREADY_REGISTERED = -120"

lemmas api_errors = UPNP_E_INVALID_HANDLE_def UPNP_E_OUTOF_HANDLE_def UPNP_E_INVALID_DESC_def UPNP_E_INVALID_SID_def
  UPNP_E_INVALID_SERVICE_def UPNP_E_FINISH_def UPNP_E_ALREADY_REGISTERED_def

datatype Upnp_Handle_Type = HND_INVALID | HND_CLIENT | HND_DEVICE

record Handle_Info =
  HType :: Upnp_Handle_Type
  Callback :: nat
  Cookie :: nat
  aliasInstalled :: int
  DescURL :: string
  LowerDescURL :: string
  MaxAge :: int
  PowerState :: int
  SleepPeriod :: int
  RegistrationState :: int
  DescDocument :: "xml option"
  ServiceTable :: service_table
  MaxSubscriptions :: int
  MaxSubscriptionTimeOut :: int
  DeviceAf :: af

record api_state =
  HandleTable :: "Handle_Info option list"
  GlobalHndRWLock :: bool
  UpnpSdkInit :: int
  UpnpSdkClientRegistered :: int
  UpnpSdkDeviceRegisteredV4 :: int
  UpnpSdkDeviceregisteredV6 :: int

definition HandleLock :: "'a api_state_scheme \<Rightarrow> 'a api_state_scheme option" where
  "HandleLock st = (if GlobalHndRWLock st then None else Some (st\<lparr>GlobalHndRWLock := True\<rparr>))"

definition HandleUnlock :: "'a api_state_scheme \<Rightarrow> 'a api_state_scheme option" where
  "HandleUnlock st = (if GlobalHndRWLock st then Some (st\<lparr>GlobalHndRWLock := False\<rparr>) else None)"

section \<open>Handles\<close>

fun free_from :: "int \<Rightarrow> Handle_Info option list \<Rightarrow> int" where
  "free_from i [] = i"
| "free_from i (x # xs) = (if x = None then i else free_from (i + 1) xs)"

text \<open>The loop from place 1 to the end of the table.\<close>

definition GetFreeHandle :: "'a api_state_scheme \<Rightarrow> int" where
  "GetFreeHandle st =
     (let i = free_from 1 (drop 1 (take (nat NUM_HANDLE) (HandleTable st)))
      in if i = NUM_HANDLE then UPNP_E_OUTOF_HANDLE else i)"

definition slot :: "int \<Rightarrow> 'a api_state_scheme \<Rightarrow> Handle_Info option" where
  "slot h st = (if h < 1 \<or> NUM_HANDLE \<le> h then None else HandleTable st ! nat h)"

definition set_slot :: "int \<Rightarrow> Handle_Info option \<Rightarrow> 'a api_state_scheme \<Rightarrow> 'a api_state_scheme" where
  "set_slot h x st = st\<lparr>HandleTable := (HandleTable st)[nat h := x]\<rparr>"

definition FreeHandle :: "int \<Rightarrow> 'a api_state_scheme \<Rightarrow> 'a api_state_scheme \<times> int" where
  "FreeHandle h st =
     (if h < 1 \<or> NUM_HANDLE \<le> h then (st, UPNP_E_INVALID_HANDLE)
      else if HandleTable st ! nat h = None then (st, UPNP_E_INVALID_HANDLE)
      else (set_slot h None st, UPNP_E_SUCCESS))"

text \<open>The type and the entry, which is stored only when there is one.\<close>

definition GetHandleInfo :: "int \<Rightarrow> 'a api_state_scheme \<Rightarrow> Upnp_Handle_Type \<times> Handle_Info option" where
  "GetHandleInfo h st = (case slot h st of None \<Rightarrow> (HND_INVALID, None) | Some x \<Rightarrow> (HType x, Some x))"

definition GetClientHandleInfo :: "'a api_state_scheme \<Rightarrow> Upnp_Handle_Type \<times> int \<times> Handle_Info option" where
  "GetClientHandleInfo st =
     (case find (\<lambda>h. fst (GetHandleInfo h st) = HND_CLIENT) [1..NUM_HANDLE - 1] of
        None \<Rightarrow> (HND_INVALID, -1, None)
      | Some h \<Rightarrow> (HND_CLIENT, h, slot h st))"

definition no_device :: "af \<Rightarrow> 'a api_state_scheme \<Rightarrow> bool" where
  "no_device f st \<longleftrightarrow>
     (f = AF_INET \<and> UpnpSdkDeviceRegisteredV4 st = 0) \<or> (f = AF_INET6 \<and> UpnpSdkDeviceregisteredV6 st = 0)"

definition device_of :: "af \<Rightarrow> int \<Rightarrow> 'a api_state_scheme \<Rightarrow> Handle_Info option" where
  "device_of f h st =
     (case GetHandleInfo h st of
        (HND_DEVICE, Some x) \<Rightarrow> if DeviceAf x = f then Some x else None
      | _ \<Rightarrow> None)"

definition GetDeviceHandleInfo :: "int \<Rightarrow> af \<Rightarrow> 'a api_state_scheme \<Rightarrow> Upnp_Handle_Type \<times> int \<times> Handle_Info option" where
  "GetDeviceHandleInfo start f st =
     (if no_device f st then (HND_INVALID, -1, None)
      else if start < 0 \<or> NUM_HANDLE - 1 \<le> start then (HND_INVALID, -1, None)
      else
        (case find (\<lambda>h. device_of f h st \<noteq> None) [start + 1..NUM_HANDLE - 1] of
           None \<Rightarrow> (HND_INVALID, -1, None)
         | Some h \<Rightarrow> (HND_DEVICE, h, device_of f h st)))"

text \<open>
  The search by path: the first device that has a service with this control path, or else one with this event path.
  The outer \<open>None\<close> is undefined behaviour of the URI parser.
\<close>

definition service_for_path :: "net_env \<Rightarrow> service_table \<Rightarrow> string option \<Rightarrow> service_info option option" where
  "service_for_path net t path =
     (case FindServiceControlURLPath net (Some t) path of
        None \<Rightarrow> None
      | Some (Some s) \<Rightarrow> Some (Some s)
      | Some None \<Rightarrow> FindServiceEventURLPath net (Some t) path)"

fun device_for_path ::
    "net_env \<Rightarrow> string option \<Rightarrow> af \<Rightarrow> 'a api_state_scheme \<Rightarrow> int list \<Rightarrow> (int \<times> Handle_Info \<times> service_info) option option" where
  "device_for_path net path f st [] = Some None"
| "device_for_path net path f st (h # hs) =
     (case device_of f h st of
        None \<Rightarrow> device_for_path net path f st hs
      | Some x \<Rightarrow>
          (case service_for_path net (ServiceTable x) path of
             None \<Rightarrow> None
           | Some (Some s) \<Rightarrow> Some (Some (h, x, s))
           | Some None \<Rightarrow> device_for_path net path f st hs))"

definition GetDeviceHandleInfoForPath ::
    "net_env \<Rightarrow> string option \<Rightarrow> af \<Rightarrow> 'a api_state_scheme \<Rightarrow> (int \<times> Handle_Info \<times> service_info) option option" where
  "GetDeviceHandleInfoForPath net path f st =
     (if no_device f st then Some None else device_for_path net path f st [1..NUM_HANDLE - 1])"

section \<open>Limits of a device\<close>

text \<open>The lock is taken and released; the state between is seen by nobody else.\<close>

definition set_limit ::
    "(Handle_Info \<Rightarrow> Handle_Info) \<Rightarrow> int \<Rightarrow> int \<Rightarrow> 'a api_state_scheme \<Rightarrow> ('a api_state_scheme \<times> int) option" where
  "set_limit upd h n st =
     (if UpnpSdkInit st \<noteq> 1 then Some (st, UPNP_E_FINISH)
      else
        (case HandleLock st of
           None \<Rightarrow> None
         | Some st1 \<Rightarrow>
             (case GetHandleInfo h st1 of
                (HND_DEVICE, Some x) \<Rightarrow>
                  if n \<noteq> UPNP_INFINITE \<and> n < 0
                  then map_option (\<lambda>st2. (st2, UPNP_E_INVALID_HANDLE)) (HandleUnlock st1)
                  else map_option (\<lambda>st2. (st2, UPNP_E_SUCCESS)) (HandleUnlock (set_slot h (Some (upd x)) st1))
              | _ \<Rightarrow> map_option (\<lambda>st2. (st2, UPNP_E_INVALID_HANDLE)) (HandleUnlock st1))))"

definition UpnpSetMaxSubscriptions :: "int \<Rightarrow> int \<Rightarrow> 'a api_state_scheme \<Rightarrow> ('a api_state_scheme \<times> int) option" where
  "UpnpSetMaxSubscriptions h n = set_limit (\<lambda>x. x\<lparr>MaxSubscriptions := n\<rparr>) h n"

definition UpnpSetMaxSubscriptionTimeOut :: "int \<Rightarrow> int \<Rightarrow> 'a api_state_scheme \<Rightarrow> ('a api_state_scheme \<times> int) option" where
  "UpnpSetMaxSubscriptionTimeOut h n = set_limit (\<lambda>x. x\<lparr>MaxSubscriptionTimeOut := n\<rparr>) h n"

section \<open>Registration\<close>

definition blank_info :: Handle_Info where
  "blank_info =
     \<lparr>HType = HND_INVALID, Callback = 0, Cookie = 0, aliasInstalled = 0, DescURL = [], LowerDescURL = [], MaxAge = 0,
      PowerState = 0, SleepPeriod = 0, RegistrationState = 0, DescDocument = None,
      ServiceTable = \<lparr>URLBase = None, serviceList = []\<rparr>, MaxSubscriptions = 0, MaxSubscriptionTimeOut = 0,
      DeviceAf = AF_UNSPEC\<rparr>"

text \<open>
  \<open>junk\<close> is what the new memory holds: the fields that the code does not set keep it. A handle that is stored in
  the caller's variable is the last component.
\<close>

definition UpnpRegisterClient ::
    "bool \<Rightarrow> Handle_Info \<Rightarrow> nat option \<Rightarrow> nat \<Rightarrow> bool \<Rightarrow> 'a api_state_scheme \<Rightarrow>
     ('a api_state_scheme \<times> int \<times> int option) option" where
  "UpnpRegisterClient mem junk Fun cookie have_hnd st =
     (if UpnpSdkInit st \<noteq> 1 then Some (st, UPNP_E_FINISH, None)
      else
        (case Fun of
           None \<Rightarrow> Some (st, UPNP_E_INVALID_PARAM, None)
         | Some f \<Rightarrow>
             if \<not> have_hnd then Some (st, UPNP_E_INVALID_PARAM, None)
             else
               (case HandleLock st of
                  None \<Rightarrow> None
                | Some st1 \<Rightarrow>
                    if NUM_HANDLE - 1 \<le> UpnpSdkClientRegistered st1 + UpnpSdkDeviceRegisteredV4 st1 + UpnpSdkDeviceregisteredV6 st1
                    then map_option (\<lambda>st2. (st2, UPNP_E_ALREADY_REGISTERED, None)) (HandleUnlock st1)
                    else
                      (let h = GetFreeHandle st1 in
                       if h = UPNP_E_OUTOF_HANDLE \<or> \<not> mem
                       then map_option (\<lambda>st2. (st2, UPNP_E_OUTOF_MEMORY, Some h)) (HandleUnlock st1)
                       else
                         (let x = junk\<lparr>HType := HND_CLIENT, Callback := f, Cookie := cookie, MaxAge := 0,
                                       MaxSubscriptions := UPNP_INFINITE, MaxSubscriptionTimeOut := UPNP_INFINITE\<rparr>;
                              st2 = set_slot h (Some x) st1
                          in map_option (\<lambda>st3. (st3, UPNP_E_SUCCESS, Some h))
                               (HandleUnlock (st2\<lparr>UpnpSdkClientRegistered := UpnpSdkClientRegistered st2 + 1\<rparr>)))))))"

end
