(* ===== verification/GenaEvents.thy ===== *)
theory GenaEvents
  imports HandleTable HttpTransfer ThreadPool "HOL-Library.Monad_Syntax"
begin

text \<open>
  The events of a device, \<^verbatim>\<open>compa/src/gena/gena_device.cpp\<close>: the property set, the queue of events of each
  subscription, the notification of one and of all subscribers, and the job of the thread pool that sends one
  event. The memory that the queues and the thread pool share is explicit: jobs, the structures of the type
  \<open>notify_thread_struct\<close> and the data of an event with its reference count. The blocks of an
  event (headers, property set, service, device, count) are allocated and freed together and are one entry. \<open>None\<close> is an access to freed
  memory, a lock used in the wrong order or a thread that waits for ever. The clock is read once for a critical section.
\<close>

section \<open>State\<close>

definition GENA_SUCCESS :: int where "GENA_SUCCESS = 0"
definition GENA_E_BAD_HANDLE :: int where "GENA_E_BAD_HANDLE = UPNP_E_INVALID_HANDLE"
definition GENA_E_BAD_SERVICE :: int where "GENA_E_BAD_SERVICE = UPNP_E_INVALID_SERVICE"
definition GENA_E_BAD_SID :: int where "GENA_E_BAD_SID = UPNP_E_INVALID_SID"
definition GENA_E_NOTIFY_UNACCEPTED :: int where "GENA_E_NOTIFY_UNACCEPTED = -303"
definition GENA_E_NOTIFY_UNACCEPTED_REMOVE_SUB :: int where "GENA_E_NOTIFY_UNACCEPTED_REMOVE_SUB = -9"
definition XML_SUCCESS :: int where "XML_SUCCESS = UPNP_E_SUCCESS"
definition STALE_JOBID :: int where "STALE_JOBID = INVALID_JOB_ID - 1"
definition MAX_CONTENT_LENGTH :: nat where "MAX_CONTENT_LENGTH = 20"
definition HTTP_OK :: int where "HTTP_OK = 200"
definition HTTP_PRECONDITION_FAILED :: int where "HTTP_PRECONDITION_FAILED = 412"
definition GENA_NOTIFICATION_SENDING_TIMEOUT :: int where "GENA_NOTIFICATION_SENDING_TIMEOUT = HTTP_DEFAULT_TIMEOUT"
definition GENA_NOTIFICATION_ANSWERING_TIMEOUT :: int where "GENA_NOTIFICATION_ANSWERING_TIMEOUT = HTTP_DEFAULT_TIMEOUT"

lemmas gena_codes = GENA_SUCCESS_def GENA_E_BAD_HANDLE_def GENA_E_BAD_SERVICE_def GENA_E_BAD_SID_def
  GENA_E_NOTIFY_UNACCEPTED_def GENA_E_NOTIFY_UNACCEPTED_REMOVE_SUB_def XML_SUCCESS_def api_errors

text \<open>The blocks all structures of one event share, with the reference count.\<close>

record event_data =
  ev_headers :: string
  ev_propertySet :: string
  ev_servId :: string
  ev_UDN :: string
  reference_count :: int

record notify_thread_struct =
  nt_event :: nat
  nt_sid :: string
  ctime :: int
  device_handle :: int

text \<open>
  The state. The last address given out is below \<open>fresh\<close>. \<open>handed\<close> is a history variable that no code reads: the
  structures of the jobs the thread pool has accepted, in order.
\<close>

record gena_state = api_state +
  jobs :: "nat \<Rightarrow> ThreadPoolJob option"
  structs :: "nat \<Rightarrow> notify_thread_struct option"
  events :: "nat \<Rightarrow> event_data option"
  fresh :: nat
  gSendThreadPool :: ThreadPool
  handed :: "nat list"
  g_UpnpSdkEQMaxLen :: int
  g_UpnpSdkEQMaxAge :: int

definition UpnpSetEventQueueLimits :: "int \<Rightarrow> int \<Rightarrow> gena_state \<Rightarrow> gena_state \<times> int" where
  "UpnpSetEventQueueLimits maxLen maxAge st =
     (st\<lparr>g_UpnpSdkEQMaxLen := maxLen, g_UpnpSdkEQMaxAge := maxAge\<rparr>, UPNP_E_SUCCESS)"

text \<open>The address of the code of \<open>genaNotifyThread\<close> and \<open>free_notify_struct\<close>.\<close>

definition notify_code :: nat where "notify_code = 1"
definition free_notify_code :: nat where "free_notify_code = 2"

definition new_event :: "event_data \<Rightarrow> gena_state \<Rightarrow> nat \<times> gena_state" where
  "new_event e st = (fresh st, st\<lparr>events := (events st)(fresh st \<mapsto> e), fresh := Suc (fresh st)\<rparr>)"

definition new_struct :: "notify_thread_struct \<Rightarrow> gena_state \<Rightarrow> nat \<times> gena_state" where
  "new_struct n st = (fresh st, st\<lparr>structs := (structs st)(fresh st \<mapsto> n), fresh := Suc (fresh st)\<rparr>)"

definition new_job :: "ThreadPoolJob \<Rightarrow> gena_state \<Rightarrow> nat \<times> gena_state" where
  "new_job j st = (fresh st, st\<lparr>jobs := (jobs st)(fresh st \<mapsto> j), fresh := Suc (fresh st)\<rparr>)"

definition free_job :: "nat \<Rightarrow> gena_state \<Rightarrow> gena_state" where
  "free_job a st = st\<lparr>jobs := (jobs st)(a := None)\<rparr>"

section \<open>The property set and the headers\<close>

definition XML_PROPERTYSET_HEADER :: string where
  "XML_PROPERTYSET_HEADER = ''<e:propertyset xmlns:e='' @ [CHR 0x22] @ ''urn:schemas-upnp-org:event-1-0'' @ [CHR 0x22] @ ''>'' @ [LF]"

definition propertyset_end :: string where
  "propertyset_end = ''</e:propertyset>'' @ [LF, LF]"

definition property_begin :: string where
  "property_begin = ''<e:property>'' @ [LF]"

definition property_end :: string where
  "property_end = ''</e:property>'' @ [LF]"

definition property_text :: "string \<times> string \<Rightarrow> string" where
  "property_text nv = (case nv of (n, v) \<Rightarrow> ''<'' @ n @ ''>'' @ v @ ''</'' @ n @ ''>'' @ [LF] @ property_end)"

definition property_size :: "string \<times> string \<Rightarrow> nat" where
  "property_size nv = (case nv of (n, v) \<Rightarrow> length property_begin + length property_end + (2 * length n + length v + 6))"

text \<open>Writing behind the text in a buffer of \<open>n\<close> bytes, terminator included.\<close>

definition put_text :: "nat \<Rightarrow> string \<Rightarrow> string \<Rightarrow> string option" where
  "put_text n t b = (if length b + length t < n then Some (b @ t) else None)"

fun put_properties :: "nat \<Rightarrow> (string \<times> string) list \<Rightarrow> string \<Rightarrow> string option" where
  "put_properties n [] b = Some b"
| "put_properties n (nv # nvs) b =
     do { b1 \<leftarrow> put_text n property_begin b;
          b2 \<leftarrow> put_text n (property_text nv) b1;
          put_properties n nvs b2 }"

text \<open>
  The two outcomes of \<open>malloc\<close>: for the buffer and for the copy. The result is the copy, null when there is no
  memory for it, and the return code; the code is success in this case too.
\<close>

definition GeneratePropertySet ::
    "bool \<Rightarrow> bool \<Rightarrow> string list \<Rightarrow> string list \<Rightarrow> int \<Rightarrow> (string option \<times> int) option" where
  "GeneratePropertySet ok1 ok2 names values cnt =
     (if length names < nat cnt \<or> length values < nat cnt then None
      else
        (let nvs = zip (take (nat cnt) names) (take (nat cnt) values);
             size = length XML_PROPERTYSET_HEADER + length propertyset_end + sum_list (map property_size nvs)
         in if \<not> ok1 then Some (None, UPNP_E_OUTOF_MEMORY)
            else
              do { b1 \<leftarrow> put_text (size + 1) XML_PROPERTYSET_HEADER [];
                   b2 \<leftarrow> put_properties (size + 1) nvs b1;
                   b3 \<leftarrow> put_text (size + 1) propertyset_end b2;
                   Some (if ok2 then Some b3 else None, XML_SUCCESS) }))"

definition HEADER_LINE_1 :: string where
  "HEADER_LINE_1 = ''CONTENT-TYPE: text/xml; charset='' @ [CHR 0x22] @ ''utf-8'' @ [CHR 0x22] @ crlf"
definition HEADER_LINE_2A :: string where "HEADER_LINE_2A = ''CONTENT-LENGTH: ''"
definition HEADER_LINE_2B :: string where "HEADER_LINE_2B = crlf"
definition HEADER_LINE_3 :: string where "HEADER_LINE_3 = ''NT: upnp:event'' @ crlf"
definition HEADER_LINE_4 :: string where "HEADER_LINE_4 = ''NTS: upnp:propchange'' @ crlf"

text \<open>\<open>strlen\<close> of a null property set is undefined; the text is cut to the size of the block.\<close>

definition AllocGenaHeaders :: "bool \<Rightarrow> string option \<Rightarrow> string option option" where
  "AllocGenaHeaders ok propertySet =
     (if \<not> ok then Some None
      else
        (case propertySet of
           None \<Rightarrow> None
         | Some ps \<Rightarrow>
             let headers_size = length HEADER_LINE_1 + length HEADER_LINE_2A + MAX_CONTENT_LENGTH +
                   length HEADER_LINE_2B + length HEADER_LINE_3 + length HEADER_LINE_4 + 1
             in Some (Some (take (headers_size - 1)
                  (HEADER_LINE_1 @ HEADER_LINE_2A @ num_text 10 (sz_add (length (c_str ps)) 2) @ HEADER_LINE_2B @
                   HEADER_LINE_3 @ HEADER_LINE_4)))))"

section \<open>Freeing\<close>

definition free_notify_struct :: "nat \<Rightarrow> gena_state \<Rightarrow> gena_state option" where
  "free_notify_struct a st =
     do { n \<leftarrow> structs st a;
          e \<leftarrow> events st (nt_event n);
          let r = reference_count e - 1;
          Some (st\<lparr>events := (events st)(nt_event n := if r = 0 then None else Some (e\<lparr>reference_count := r\<rparr>)),
                   structs := (structs st)(a := None)\<rparr>) }"

text \<open>The loop over a queue: the job of each entry is freed, and the structure of all but the first.\<close>

fun free_queue :: "bool \<Rightarrow> nat list \<Rightarrow> gena_state \<Rightarrow> gena_state option" where
  "free_queue first [] st = Some st"
| "free_queue first (a # q) st =
     do { j \<leftarrow> jobs st a;
          st1 \<leftarrow> (if first then Some st else free_notify_struct (arg j) st);
          free_queue False q (free_job a st1) }"

definition freeSubscriptionQueuedEvents :: "subscription \<Rightarrow> gena_state \<Rightarrow> (subscription \<times> gena_state) option" where
  "freeSubscriptionQueuedEvents sub st = do { st1 \<leftarrow> free_queue True (outgoing sub) st; Some (sub\<lparr>outgoing := []\<rparr>, st1) }"

definition freeSubscription :: "subscription \<Rightarrow> gena_state \<Rightarrow> gena_state option" where
  "freeSubscription sub st = do { (s, st1) \<leftarrow> freeSubscriptionQueuedEvents sub st; Some st1 }"

fun freeSubscriptionList :: "subscription list \<Rightarrow> gena_state \<Rightarrow> gena_state option" where
  "freeSubscriptionList [] st = Some st"
| "freeSubscriptionList (s # ss) st = do { st1 \<leftarrow> freeSubscription s st; freeSubscriptionList ss st1 }"

definition freeServiceTable :: "service_table \<Rightarrow> gena_state \<Rightarrow> (service_table \<times> gena_state) option" where
  "freeServiceTable t st =
     do { st1 \<leftarrow> freeSubscriptionList (concat (map subscriptionList (serviceList t))) st;
          Some (t\<lparr>serviceList := []\<rparr>, st1) }"

text \<open>
  The operations of the service table that remove subscriptions free them: the functions of the theory
  \<open>ServiceTable\<close> with the effect on the memory.
\<close>

definition with_sid :: "string \<Rightarrow> service_info \<Rightarrow> subscription list" where
  "with_sid k service = (case find (\<lambda>s. sid s = k) (subscriptionList service) of None \<Rightarrow> [] | Some s \<Rightarrow> [s])"

definition remove_sid :: "string \<Rightarrow> service_info \<Rightarrow> gena_state \<Rightarrow> (service_info \<times> gena_state) option" where
  "remove_sid k service st =
     do { st1 \<leftarrow> freeSubscriptionList (with_sid k service) st; Some (RemoveSubscriptionSID k service, st1) }"

definition get_sid :: "int \<Rightarrow> string \<Rightarrow> service_info \<Rightarrow> gena_state \<Rightarrow> (service_info \<times> subscription option \<times> gena_state) option" where
  "get_sid now k service st =
     (case GetSubscriptionSID now k service of
        (service1, s) \<Rightarrow>
          do { st1 \<leftarrow> freeSubscriptionList (filter (expired now) (with_sid k service)) st; Some (service1, s, st1) })"

definition skipped :: "int \<Rightarrow> subscription list \<Rightarrow> subscription list" where
  "skipped now ss = filter (expired now) (takeWhile (\<lambda>s. expired now s \<or> \<not> active s) ss)"

definition get_next :: "int \<Rightarrow> service_info \<Rightarrow> nat \<Rightarrow> gena_state \<Rightarrow> (service_info \<times> nat option \<times> gena_state) option" where
  "get_next now service i st =
     (case GetNextSubscription now service i of
        (service1, r) \<Rightarrow>
          do { st1 \<leftarrow> freeSubscriptionList (skipped now (drop (Suc i) (subscriptionList service))) st;
               Some (service1, r, st1) })"

definition get_first :: "int \<Rightarrow> service_info \<Rightarrow> gena_state \<Rightarrow> (service_info \<times> nat option \<times> gena_state) option" where
  "get_first now service st =
     (case GetFirstSubscription now service of
        (service1, r) \<Rightarrow>
          do { st1 \<leftarrow> freeSubscriptionList (skipped now (subscriptionList service)) st; Some (service1, r, st1) })"

section \<open>Access to the table\<close>

text \<open>
  A service found in the table is a pointer to its entry: what is changed through it is stored in the first entry that
  is equal to the one found. A subscription of a service is changed through its place.
\<close>

fun replace_first :: "'a \<Rightarrow> 'a \<Rightarrow> 'a list \<Rightarrow> 'a list" where
  "replace_first x y [] = []"
| "replace_first x y (z # zs) = (if z = x then y # zs else z # replace_first x y zs)"

definition put_service :: "int \<Rightarrow> service_info \<Rightarrow> service_info \<Rightarrow> gena_state \<Rightarrow> gena_state" where
  "put_service h old new st =
     (case slot h st of
        None \<Rightarrow> st
      | Some x \<Rightarrow>
          set_slot h (Some (x\<lparr>ServiceTable := (ServiceTable x)\<lparr>serviceList :=
            replace_first old new (serviceList (ServiceTable x))\<rparr>\<rparr>)) st)"

definition put_sub :: "nat \<Rightarrow> subscription \<Rightarrow> service_info \<Rightarrow> service_info" where
  "put_sub i s service = service\<lparr>subscriptionList := (subscriptionList service)[i := s]\<rparr>"

definition sid_index :: "string \<Rightarrow> service_info \<Rightarrow> nat option" where
  "sid_index k service = find (\<lambda>i. sid (subscriptionList service ! i) = k) [0..<length (subscriptionList service)]"

definition update_sid :: "string \<Rightarrow> subscription \<Rightarrow> service_info \<Rightarrow> service_info" where
  "update_sid k s service = (case sid_index k service of None \<Rightarrow> service | Some i \<Rightarrow> put_sub i s service)"

definition find_device :: "int \<Rightarrow> gena_state \<Rightarrow> Handle_Info option" where
  "find_device h st = (case GetHandleInfo h st of (HND_DEVICE, Some x) \<Rightarrow> Some x | _ \<Rightarrow> None)"

text \<open>\<open>Inl\<close> is the error of \<open>genaInitNotifyCommon\<close> and \<open>genaNotifyAllCommon\<close>; \<open>None\<close> a null service or device id in the table.\<close>

definition find_service_of :: "int \<Rightarrow> string \<Rightarrow> string \<Rightarrow> gena_state \<Rightarrow> (int + service_info) option" where
  "find_service_of h k u st =
     (case find_device h st of
        None \<Rightarrow> Some (Inl GENA_E_BAD_HANDLE)
      | Some x \<Rightarrow>
          (case FindServiceId (Some (ServiceTable x)) k u of
             None \<Rightarrow> None
           | Some None \<Rightarrow> Some (Inl GENA_E_BAD_SERVICE)
           | Some (Some s) \<Rightarrow> Some (Inr s)))"

definition genaUnregisterDevice :: "int \<Rightarrow> gena_state \<Rightarrow> (gena_state \<times> int) option" where
  "genaUnregisterDevice h st =
     do { st1 \<leftarrow> HandleLock st;
          (st2, ret) \<leftarrow>
            (case find_device h st1 of
               None \<Rightarrow> Some (st1, GENA_E_BAD_HANDLE)
             | Some x \<Rightarrow>
                 do { (t, st2) \<leftarrow> freeServiceTable (ServiceTable x) st1;
                      Some (set_slot h (Some (x\<lparr>ServiceTable := t\<rparr>)) st2, UPNP_E_SUCCESS) });
          st3 \<leftarrow> HandleUnlock st2;
          Some (st3, ret) }"

section \<open>The thread pool\<close>

text \<open>The surroundings of one call of \<open>ThreadPoolAdd\<close>. Past the end of a script a call is not disturbed and has memory.\<close>

record add_env =
  add_now :: timeval
  add_ms :: ok_script
  add_cs :: "int list"
  add_env :: interference

definition calm :: add_env where
  "calm = \<lparr>add_now = \<lparr>tv_sec = 0, tv_usec = 0\<rparr>, add_ms = [], add_cs = [], add_env = []\<rparr>"

fun next_add :: "add_env list \<Rightarrow> add_env \<times> add_env list" where
  "next_add [] = (calm, [])"
| "next_add (e # es) = (e, es)"

definition pool_add :: "add_env \<Rightarrow> nat \<Rightarrow> gena_state \<Rightarrow> (gena_state \<times> int) option" where
  "pool_add e a st =
     do { j \<leftarrow> jobs st a;
          (tp, k, rc) \<leftarrow> ThreadPoolAdd (add_now e) (add_ms e) (add_cs e) (add_env e) (gSendThreadPool st) j;
          Some (st\<lparr>gSendThreadPool := tp, handed := (if rc = 0 then handed st @ [arg j] else handed st)\<rparr>, rc) }"

definition mark_stale :: "nat \<Rightarrow> gena_state \<Rightarrow> gena_state" where
  "mark_stale a st = st\<lparr>jobs := (jobs st)(a := map_option (\<lambda>j. j\<lparr>jobId := STALE_JOBID\<rparr>) (jobs st a))\<rparr>"

text \<open>A job zeroed by \<open>memset\<close> and set up by \<open>TPJobInit\<close>, \<open>TPJobSetFreeFunction\<close> and \<open>TPJobSetPriority\<close>.\<close>

definition zero_job :: ThreadPoolJob where
  "zero_job = \<lparr>func = 0, arg = 0, free_func = None, requestTime = \<lparr>tv_sec = 0, tv_usec = 0\<rparr>, priority = 0, jobId = 0\<rparr>"

definition notify_job :: "nat \<Rightarrow> ThreadPoolJob" where
  "notify_job a =
     the (fst (TPJobSetPriority (fst (TPJobSetFreeFunction (fst (TPJobInit (Some zero_job) (Some notify_code) a))
       (Some free_notify_code))) MED_PRIORITY))"

definition pool_error :: "int \<Rightarrow> int" where
  "pool_error ret = (if ret = EOUTOFMEM then UPNP_E_OUTOF_MEMORY else ret)"

section \<open>The initial event\<close>

text \<open>
  \<open>genaInitNotifyCommon\<close> from the point where the structure is to be allocated: \<open>s\<close> is the subscription at place \<open>i\<close> of
  the service, already marked as active. What was allocated is freed on every error, also when the pool has
  taken over the job.
\<close>

definition init_schedule ::
    "int \<Rightarrow> ok_script \<Rightarrow> add_env \<Rightarrow> int \<Rightarrow> event_data \<Rightarrow> subscription \<Rightarrow> gena_state \<Rightarrow> (subscription \<times> gena_state \<times> int) option" where
  "init_schedule now ms pe h e s st =
     (case next_ok ms of
        (False, ms1) \<Rightarrow> Some (s, st, UPNP_E_OUTOF_MEMORY)
      | (True, ms1) \<Rightarrow>
          (case new_event (e\<lparr>reference_count := 1\<rparr>) st of
             (ev, st1) \<Rightarrow>
               (case new_struct \<lparr>nt_event = ev, nt_sid = sid s, ctime = now, device_handle = h\<rparr> st1 of
                  (a, st2) \<Rightarrow>
                    (case new_job (notify_job a) st2 of
                       (j, st3) \<Rightarrow>
                         do { (st4, rc) \<leftarrow> pool_add pe j st3;
                              let failed = (\<lambda>ret. Some (s, st4\<lparr>jobs := (jobs st4)(j := None), structs := (structs st4)(a := None),
                                                               events := (events st4)(ev := None)\<rparr>, ret));
                              if rc \<noteq> 0 then failed (pool_error rc)
                              else
                                (case next_ok ms1 of
                                   (True, ms2) \<Rightarrow> Some (s\<lparr>outgoing := outgoing s @ [j]\<rparr>, mark_stale j st4, GENA_SUCCESS)
                                 | (False, ms2) \<Rightarrow> failed UPNP_E_OUTOF_MEMORY) }))))"

text \<open>
  The scripts: \<open>pre\<close> are the outcomes for the job, the reference count and the two copies, which are allocated
  before the lock is taken; \<open>ms\<close> those for the headers, the structure and the list node. The final unlock is done on
  every path.
\<close>

definition init_locked ::
    "int \<Rightarrow> ok_script \<Rightarrow> add_env \<Rightarrow> int \<Rightarrow> string \<Rightarrow> string \<Rightarrow> string option \<Rightarrow> string \<Rightarrow> gena_state \<Rightarrow> (gena_state \<times> int) option" where
  "init_locked now ms pe h u k ps sd st =
     do { r \<leftarrow> find_service_of h k u st;
          (case r of
             Inl e \<Rightarrow> Some (st, e)
           | Inr service \<Rightarrow>
               do { (service1, sub, st1) \<leftarrow> get_sid now sd service st;
                    let st2 = put_service h service service1 st1;
                    (case sub of
                       None \<Rightarrow> Some (st2, GENA_E_BAD_SID)
                     | Some s \<Rightarrow>
                         if active s then Some (st2, GENA_E_BAD_SID)
                         else
                           (let s1 = s\<lparr>active := True\<rparr>; service2 = update_sid sd s1 service1;
                                st3 = put_service h service1 service2 st2
                            in do { hd \<leftarrow> AllocGenaHeaders (fst (next_ok ms)) ps;
                                    (case (hd, ps) of
                                       (Some hs, Some p) \<Rightarrow>
                                         do { (s2, st4, ret) \<leftarrow>
                                                init_schedule now (snd (next_ok ms)) pe h
                                                  \<lparr>ev_headers = hs, ev_propertySet = p, ev_servId = k, ev_UDN = u, reference_count = 0\<rparr>
                                                  s1 st3;
                                              Some (put_service h service2 (update_sid sd s2 service2) st4, ret) }
                                     | _ \<Rightarrow> Some (st3, UPNP_E_OUTOF_MEMORY)) })) }) }"

definition genaInitNotifyCommon ::
    "int \<Rightarrow> ok_script \<Rightarrow> ok_script \<Rightarrow> add_env \<Rightarrow> int \<Rightarrow> string \<Rightarrow> string \<Rightarrow> string option \<Rightarrow> string \<Rightarrow> gena_state \<Rightarrow>
     (gena_state \<times> int) option" where
  "genaInitNotifyCommon now pre ms pe h u k ps sd st =
     do { (st1, ret) \<leftarrow>
            (if False \<in> set (take 4 pre) then Some (st, UPNP_E_OUTOF_MEMORY)
             else do { st0 \<leftarrow> HandleLock st; init_locked now ms pe h u k ps sd st0 });
          st2 \<leftarrow> HandleUnlock st1;
          Some (st2, ret) }"

definition genaInitNotify ::
    "int \<Rightarrow> bool \<Rightarrow> bool \<Rightarrow> ok_script \<Rightarrow> ok_script \<Rightarrow> add_env \<Rightarrow> int \<Rightarrow> string \<Rightarrow> string \<Rightarrow> string list \<Rightarrow> string list \<Rightarrow> int \<Rightarrow>
     string \<Rightarrow> gena_state \<Rightarrow> (gena_state \<times> int) option" where
  "genaInitNotify now ok1 ok2 pre ms pe h u k VarNames VarValues var_count sd st =
     (if var_count \<le> 0 then Some (st, GENA_SUCCESS)
      else
        do { (ps, ret) \<leftarrow> GeneratePropertySet ok1 ok2 VarNames VarValues var_count;
             if ret \<noteq> XML_SUCCESS then Some (st, ret) else genaInitNotifyCommon now pre ms pe h u k ps sd st })"

text \<open>\<open>printed\<close> is what the XML library prints for the document (\<open>None\<close>: no memory); a null document is accepted.\<close>

definition genaInitNotifyExt ::
    "int \<Rightarrow> ok_script \<Rightarrow> ok_script \<Rightarrow> add_env \<Rightarrow> int \<Rightarrow> string \<Rightarrow> string \<Rightarrow> bool \<Rightarrow> string option \<Rightarrow> string \<Rightarrow> gena_state \<Rightarrow>
     (gena_state \<times> int) option" where
  "genaInitNotifyExt now pre ms pe h u k have_doc printed sd st =
     (if \<not> have_doc then Some (st, GENA_SUCCESS)
      else if printed = None then Some (st, UPNP_E_INVALID_PARAM)
      else genaInitNotifyCommon now pre ms pe h u k printed sd st)"

section \<open>Events for all subscribers\<close>

fun maybeDiscardEvents :: "int \<Rightarrow> nat list \<Rightarrow> gena_state \<Rightarrow> (nat list \<times> gena_state) option" where
  "maybeDiscardEvents now (h # a # q) st =
     do { j \<leftarrow> jobs st a;
          n \<leftarrow> structs st (arg j);
          if g_UpnpSdkEQMaxLen st < int (length (h # a # q)) \<or> g_UpnpSdkEQMaxAge st < now - ctime n
          then do { st1 \<leftarrow> free_notify_struct (arg j) st; maybeDiscardEvents now (h # q) (free_job a st1) }
          else Some (h # a # q, st) }"
| "maybeDiscardEvents now q st = Some (q, st)"

definition add_reference :: "nat \<Rightarrow> gena_state \<Rightarrow> gena_state option" where
  "add_reference ev st =
     do { e \<leftarrow> events st ev; Some (st\<lparr>events := (events st)(ev \<mapsto> e\<lparr>reference_count := reference_count e + 1\<rparr>)\<rparr>) }"

text \<open>
  One turn of the loop for the subscription \<open>s\<close>; the flag tells whether the loop goes on. When no list node can be allocated
  the new job stays outside the queue.
\<close>

definition notify_one ::
    "int \<Rightarrow> ok_script \<Rightarrow> add_env \<Rightarrow> int \<Rightarrow> nat \<Rightarrow> subscription \<Rightarrow> gena_state \<Rightarrow>
     (ok_script \<times> subscription \<times> gena_state \<times> int \<times> bool) option" where
  "notify_one now ms pe h ev s st =
     (case next_ok ms of
        (False, ms1) \<Rightarrow> Some (ms1, s, st, UPNP_E_OUTOF_MEMORY, False)
      | (True, ms1) \<Rightarrow>
          do { st1 \<leftarrow> add_reference ev st;
               let (a, st2) = new_struct \<lparr>nt_event = ev, nt_sid = sid s, ctime = now, device_handle = h\<rparr> st1;
               (q, st3) \<leftarrow> maybeDiscardEvents now (outgoing s) st2;
               (case next_ok ms1 of
                  (False, ms2) \<Rightarrow>
                    Some (ms2, s\<lparr>outgoing := q\<rparr>, st3\<lparr>structs := (structs st3)(a := None)\<rparr>, UPNP_E_OUTOF_MEMORY, False)
                | (True, ms2) \<Rightarrow>
                    (case new_job (notify_job a) st3 of
                       (j, st4) \<Rightarrow>
                         (case next_ok ms2 of
                            (ok, ms3) \<Rightarrow>
                              let q1 = (if ok then q @ [j] else q); s1 = s\<lparr>outgoing := q1\<rparr> in
                              if length q1 = 1 then
                                do { (st5, rc) \<leftarrow> pool_add pe j st4;
                                     Some (if rc \<noteq> 0 then (ms3, s1, st5, pool_error rc, False)
                                           else (ms3, s1, if ok then mark_stale j st5 else st5, 0, True)) }
                              else Some (ms3, s1, st4, 0, True)))) })"

lemma next_active_le: "next_active now ss = (ss1, n, r) \<Longrightarrow> length ss1 \<le> length ss"
  by (induction ss arbitrary: ss1 n r) (auto split: if_splits prod.splits)

lemma get_next_less:
  assumes "get_next now service i st = Some (service1, Some k, st1)"
  shows "i < k \<and> k < length (subscriptionList service1) \<and>
    length (subscriptionList service1) \<le> length (subscriptionList service)"
proof -
  obtain ss n r where ss: "next_active now (drop (Suc i) (subscriptionList service)) = (ss, n, r)"
    by (metis prod.collapse)
  then obtain j where j: "r = Some j" "k = Suc i + j"
    "subscriptionList service1 = take (Suc i) (subscriptionList service) @ ss"
    using assms by (auto simp: get_next_def GetNextSubscription_def Option.bind_eq_Some_conv)
  then show ?thesis
    using next_active_some [of now "drop (Suc i) (subscriptionList service)" ss n j] next_active_le [OF ss] ss
    by (auto simp: min_def)
qed

text \<open>
  The loop from the subscription at place \<open>i\<close>. The subscription is changed in place, then the next one is looked for,
  which removes the expired ones on the way.
\<close>

function notify_loop ::
    "int \<Rightarrow> ok_script \<Rightarrow> add_env list \<Rightarrow> int \<Rightarrow> nat \<Rightarrow> service_info \<Rightarrow> nat option \<Rightarrow> gena_state \<Rightarrow>
     (service_info \<times> gena_state \<times> int) option" where
  "notify_loop now ms pes h ev service None st = Some (service, st, GENA_SUCCESS)"
| "notify_loop now ms pes h ev service (Some i) st =
     (if length (subscriptionList service) \<le> i then None
      else
        (case next_add pes of
           (pe, pes1) \<Rightarrow>
             (case notify_one now ms pe h ev (subscriptionList service ! i) st of
                None \<Rightarrow> None
              | Some (ms1, s, st1, ret, go_on) \<Rightarrow>
                  let service1 = put_sub i s service in
                  if \<not> go_on then Some (service1, st1, ret)
                  else
                    (case get_next now service1 i st1 of
                       None \<Rightarrow> None
                     | Some (service2, r, st2) \<Rightarrow> notify_loop now ms1 pes1 h ev service2 r st2))))"
  by pat_completeness auto
termination
proof (relation "measure (\<lambda>(now, ms, pes, h, ev, service, r, st). case r of None \<Rightarrow> 0 | Some i \<Rightarrow> Suc (length (subscriptionList service)) - i)",
    goal_cases)
  case (2 now ms pes h ev service i st pe pes1 p1 ms1 p2 s p3 st1 p4 ret go_on service1 q1 service2 q2 r st2)
  then show ?case
    using get_next_less [of now service1 i st1 service2 _ st2] by (cases r) (auto simp: put_sub_def)
qed simp

declare notify_loop.simps [simp del]

text \<open>
  \<open>pre\<close>: the outcomes for the reference count, the two copies and the headers, allocated before the lock is
  taken. The data of the event is freed at the end when the reference count is 0.
\<close>

definition notify_locked ::
    "int \<Rightarrow> ok_script \<Rightarrow> add_env list \<Rightarrow> int \<Rightarrow> string \<Rightarrow> string \<Rightarrow> nat \<Rightarrow> gena_state \<Rightarrow> (gena_state \<times> int) option" where
  "notify_locked now ms pes h u k ev st =
     do { r \<leftarrow> find_service_of h k u st;
          (case r of
             Inl e \<Rightarrow> Some (st, e)
           | Inr service \<Rightarrow>
               do { (service1, i, st1) \<leftarrow> get_first now service st;
                    (service2, st2, ret) \<leftarrow> notify_loop now ms pes h ev service1 i st1;
                    Some (put_service h service service2 st2, ret) }) }"

definition release_event :: "nat \<Rightarrow> gena_state \<Rightarrow> gena_state" where
  "release_event ev st =
     (case events st ev of
        None \<Rightarrow> st
      | Some e \<Rightarrow> if reference_count e = 0 then st\<lparr>events := (events st)(ev := None)\<rparr> else st)"

definition genaNotifyAllCommon ::
    "int \<Rightarrow> ok_script \<Rightarrow> ok_script \<Rightarrow> add_env list \<Rightarrow> int \<Rightarrow> string \<Rightarrow> string \<Rightarrow> string option \<Rightarrow> gena_state \<Rightarrow>
     (gena_state \<times> int) option" where
  "genaNotifyAllCommon now pre ms pes h u k ps st =
     do { (st1, ret) \<leftarrow>
            (if False \<in> set (take 3 pre) then Some (st, UPNP_E_OUTOF_MEMORY)
             else
               do { hd \<leftarrow> AllocGenaHeaders (fst (next_ok (drop 3 pre))) ps;
                    (case (hd, ps) of
                       (Some hs, Some p) \<Rightarrow>
                         (case new_event \<lparr>ev_headers = hs, ev_propertySet = p, ev_servId = k, ev_UDN = u, reference_count = 0\<rparr> st of
                            (ev, st0) \<Rightarrow>
                              do { st1 \<leftarrow> HandleLock st0;
                                   (st2, ret) \<leftarrow> notify_locked now ms pes h u k ev st1;
                                   Some (release_event ev st2, ret) })
                     | _ \<Rightarrow> Some (st, UPNP_E_OUTOF_MEMORY)) });
          st2 \<leftarrow> HandleUnlock st1;
          Some (st2, ret) }"

definition genaNotifyAll ::
    "int \<Rightarrow> bool \<Rightarrow> bool \<Rightarrow> ok_script \<Rightarrow> ok_script \<Rightarrow> add_env list \<Rightarrow> int \<Rightarrow> string \<Rightarrow> string \<Rightarrow> string list \<Rightarrow> string list \<Rightarrow> int \<Rightarrow>
     gena_state \<Rightarrow> (gena_state \<times> int) option" where
  "genaNotifyAll now ok1 ok2 pre ms pes h u k VarNames VarValues var_count st =
     do { (ps, ret) \<leftarrow> GeneratePropertySet ok1 ok2 VarNames VarValues var_count;
          if ret \<noteq> XML_SUCCESS then Some (st, ret) else genaNotifyAllCommon now pre ms pes h u k ps st }"

definition genaNotifyAllExt ::
    "int \<Rightarrow> ok_script \<Rightarrow> ok_script \<Rightarrow> add_env list \<Rightarrow> int \<Rightarrow> string \<Rightarrow> string \<Rightarrow> string option \<Rightarrow> gena_state \<Rightarrow>
     (gena_state \<times> int) option" where
  "genaNotifyAllExt now pre ms pes h u k printed st =
     (if printed = None then Some (st, UPNP_E_INVALID_PARAM) else genaNotifyAllCommon now pre ms pes h u k printed st)"

section \<open>Sending one event\<close>

text \<open>
  The surroundings of one attempt: the outcomes of the calls that connect, the state of the connection, the scripts for the memory of the
  start line, of the receive buffer and of the parser. Global settings: the limit for the content length, whether connecting does
  not block, and what the message maker needs.
\<close>

record notify_env =
  n_conn :: conn_env
  n_os :: os
  n_start :: alloc_script
  n_oks :: ok_script
  n_parse :: alloc_script

record send_globals =
  sg_net :: net_env
  sg_msg :: msg_env
  sg_max :: nat
  sg_unblock :: bool

text \<open>
  The URL given to \<open>http_MakeMessage\<close> is the one completed by \<open>http_Connect\<close>; completing the original once more gives the same. The result is the
  connection, the parser and the return code.
\<close>

definition notify_send_and_recv ::
    "send_globals \<Rightarrow> notify_env \<Rightarrow> string \<Rightarrow> uri_type \<Rightarrow> membuffer \<Rightarrow> string \<Rightarrow> http_parser \<Rightarrow> (os \<times> http_parser \<times> int) option" where
  "notify_send_and_recv g e mem url mid_msg propertySet response =
     (case http_Connect (sg_unblock g) (n_conn e) mem url of
        (f, conn_fd) \<Rightarrow>
          if conn_fd < 0 then Some (n_os e, response, UPNP_E_SOCKET_CONNECT)
          else
            (case sock_init (Some \<lparr>sock_fd = 0, foreign_sockaddr = zero_sockaddr, ssl = False\<rparr>) conn_fd of
               (None, rc) \<Rightarrow> Some (n_os e, response, rc)
             | (Some info, rc) \<Rightarrow>
                 if rc \<noteq> 0 then Some (n_os e, response, rc)
                 else
                   do { (ms, start_msg, ret) \<leftarrow>
                          http_MakeMessage (sg_msg g) (n_start e) empty_membuffer 1 1 ''qs''
                            [AInt HTTPMETHOD_NOTIFY, AUri mem (furl f), AStr (buf mid_msg)];
                        if ret \<noteq> 0 then Some (n_os e, response, UPNP_E_OUTOF_MEMORY)
                        else
                          do { (w1, t1, rc1) \<leftarrow>
                                 http_SendMessage no_files [] (n_os e) info GENA_NOTIFICATION_SENDING_TIMEOUT ''bbb''
                                   [SBuf (buf start_msg) (mlength start_msg), SBuf (Some propertySet) (length (c_str propertySet)),
                                    SBuf (Some crlf) (length crlf)];
                               if rc1 \<noteq> 0 then Some (w1, response, rc1)
                               else
                                 do { (w2, t2, p, rc2, code) \<leftarrow>
                                        http_RecvMessage (sg_net g) (sg_max g) (n_oks e) (n_parse e) w1 info response
                                          HTTPMETHOD_NOTIFY GENA_NOTIFICATION_ANSWERING_TIMEOUT;
                                      Some (if rc2 \<noteq> 0 then (w2, httpmsg_destroy p, rc2) else (w2, p, UPNP_E_SUCCESS)) } } }))"

text \<open>The loop over the delivery URLs, until one attempt succeeds. \<open>att\<close> gives the surroundings of each attempt; the connections are collected.\<close>

fun notify_urls ::
    "send_globals \<Rightarrow> (nat \<Rightarrow> notify_env) \<Rightarrow> nat \<Rightarrow> string \<Rightarrow> uri_type list \<Rightarrow> membuffer \<Rightarrow> string \<Rightarrow> http_parser \<Rightarrow> int \<Rightarrow>
     (os list \<times> http_parser \<times> int) option" where
  "notify_urls g att i mem [] mid_msg ps response rc = Some ([], response, rc)"
| "notify_urls g att i mem (u # us) mid_msg ps response rc =
     do { (w, p, rc1) \<leftarrow> notify_send_and_recv g (att i) mem u mid_msg ps response;
          if rc1 = UPNP_E_SUCCESS then Some ([w], p, rc1)
          else do { (ws, p1, rc2) \<leftarrow> notify_urls g att (Suc i) mem us mid_msg ps p rc1; Some (w # ws, p1, rc2) } }"

definition delivery_code :: "http_parser \<Rightarrow> int" where
  "delivery_code p =
     (if status_code p = HTTP_OK then GENA_SUCCESS
      else if status_code p = HTTP_PRECONDITION_FAILED then GENA_E_NOTIFY_UNACCEPTED_REMOVE_SUB
      else GENA_E_NOTIFY_UNACCEPTED)"

text \<open>The response starts as a zeroed parser; nothing of it is looked at before a message was received.\<close>

definition genaNotify ::
    "send_globals \<Rightarrow> alloc_script \<Rightarrow> (nat \<Rightarrow> notify_env) \<Rightarrow> string \<Rightarrow> string \<Rightarrow> subscription \<Rightarrow> (os list \<times> int) option" where
  "genaNotify g ms att hds ps sub =
     do { (ms1, mid_msg, ret) \<leftarrow>
            http_MakeMessage (sg_msg g) ms empty_membuffer 1 1 ''ssscsdcc''
              [AStr (Some hds), AStr (Some ''SID: ''), AStr (Some (sid sub)), AStr (Some ''SEQ: ''), AInt (ToSendEventKey sub)];
          if ret \<noteq> 0 then Some ([], UPNP_E_OUTOF_MEMORY)
          else
            (let us = (case parsedURLs (DeliveryURLs sub) of None \<Rightarrow> [] | Some l \<Rightarrow> l);
                 mem = (case URLs (DeliveryURLs sub) of None \<Rightarrow> [] | Some m \<Rightarrow> m) in
             if length us < usize (DeliveryURLs sub) then None
             else
               do { (ws, p, rc) \<leftarrow>
                      notify_urls g att 0 mem (take (usize (DeliveryURLs sub)) us) mid_msg ps (parser_init\<lparr>initialized := False\<rparr>) (- 1);
                    Some (ws, if rc = UPNP_E_SUCCESS then delivery_code p else rc) }) }"

section \<open>The job of the thread pool\<close>

text \<open>
  \<open>genaNotifyThread\<close> has two critical sections, before and after the event is sent. Both begin with the same checks of the
  context: device, service and subscription of the event still exist. A failing check frees the structure.
\<close>

definition event_context ::
    "int \<Rightarrow> nat \<Rightarrow> gena_state \<Rightarrow> (gena_state \<times> (service_info \<times> subscription) option) option" where
  "event_context now a st =
     do { n \<leftarrow> structs st a;
          e \<leftarrow> events st (nt_event n);
          r \<leftarrow> find_service_of (device_handle n) (ev_servId e) (ev_UDN e) st;
          (case r of
             Inl err \<Rightarrow> Some (st, None)
           | Inr service \<Rightarrow>
               if \<not> service_active service then Some (st, None)
               else
                 do { (service1, sub, st1) \<leftarrow> get_sid now (nt_sid n) service st;
                      Some (put_service (device_handle n) service service1 st1, map_option (\<lambda>s. (service1, s)) sub) }) }"

text \<open>The copy starts with unspecified contents (\<open>junk\<close>); \<open>ok1\<close> and \<open>ok2\<close> are the outcomes of the allocations of the copy.\<close>

definition notify_begin ::
    "int \<Rightarrow> bool \<Rightarrow> bool \<Rightarrow> subscription \<Rightarrow> nat \<Rightarrow> gena_state \<Rightarrow> (gena_state \<times> subscription option) option" where
  "notify_begin now ok1 ok2 junk a st =
     do { st0 \<leftarrow> HandleLock st;
          (st1, c) \<leftarrow> event_context now a st0;
          copy \<leftarrow>
            (case c of
               None \<Rightarrow> Some None
             | Some (service, s) \<Rightarrow>
                 do { (s1, rc) \<leftarrow> copy_subscription ok1 ok2 s junk; Some (if rc = HTTP_SUCCESS then Some s1 else None) });
          st2 \<leftarrow> (if copy = None then free_notify_struct a st1 else Some st1);
          st3 \<leftarrow> HandleUnlock st2;
          Some (st3, copy) }"

text \<open>The next key; the increment of the largest \<open>int\<close> is taken to wrap around, as the code expects.\<close>

definition next_key :: "int \<Rightarrow> int" where
  "next_key k = (let k1 = to_int (k + 1) in if k1 < 0 then 1 else k1)"

text \<open>The head of the queue is deleted, and its job freed; the next event is given to the pool, the answer is not looked at.\<close>

definition advance_queue :: "add_env \<Rightarrow> nat list \<Rightarrow> gena_state \<Rightarrow> (nat list \<times> gena_state) option" where
  "advance_queue pe q st =
     (case q of
        [] \<Rightarrow> Some ([], st)
      | a # q1 \<Rightarrow>
          (let st1 = free_job a st in
           case q1 of
             [] \<Rightarrow> Some ([], st1)
           | b # q2 \<Rightarrow> do { (st2, rc) \<leftarrow> pool_add pe b st1; Some (q1, mark_stale b st2) }))"

text \<open>The changes of the second section inside the service: the queue advances, and the subscription may be removed.\<close>

definition finish_delivery ::
    "add_env \<Rightarrow> int \<Rightarrow> string \<Rightarrow> int \<Rightarrow> service_info \<Rightarrow> subscription \<Rightarrow> gena_state \<Rightarrow> gena_state option" where
  "finish_delivery pe return_code k h service s st =
     do { (q, st1) \<leftarrow> advance_queue pe (outgoing s) st;
          let service1 = update_sid k (s\<lparr>ToSendEventKey := next_key (ToSendEventKey s), outgoing := q\<rparr>) service in
          do { (service2, st2) \<leftarrow>
                 (if return_code = GENA_E_NOTIFY_UNACCEPTED_REMOVE_SUB then remove_sid k service1 st1 else Some (service1, st1));
               Some (put_service h service service2 st2) } }"

definition notify_end :: "int \<Rightarrow> add_env \<Rightarrow> int \<Rightarrow> nat \<Rightarrow> gena_state \<Rightarrow> gena_state option" where
  "notify_end now pe return_code a st =
     do { st0 \<leftarrow> HandleLock st;
          n \<leftarrow> structs st0 a;
          (st1, c) \<leftarrow> event_context now a st0;
          st2 \<leftarrow>
            (case c of
               None \<Rightarrow> Some st1
             | Some (service, s) \<Rightarrow> finish_delivery pe return_code (nt_sid n) (device_handle n) service s st1);
          st3 \<leftarrow> free_notify_struct a st2;
          HandleUnlock st3 }"

text \<open>
  The whole job. Between the two sections other threads may change the state (\<open>others\<close>). The copy of the
  subscription is freed; its queue is empty.
\<close>

definition genaNotifyThread ::
    "send_globals \<Rightarrow> int \<Rightarrow> bool \<Rightarrow> bool \<Rightarrow> subscription \<Rightarrow> alloc_script \<Rightarrow> (nat \<Rightarrow> notify_env) \<Rightarrow> (gena_state \<Rightarrow> gena_state) \<Rightarrow>
     int \<Rightarrow> add_env \<Rightarrow> nat \<Rightarrow> gena_state \<Rightarrow> (gena_state \<times> os list) option" where
  "genaNotifyThread g now ok1 ok2 junk ms att others now2 pe a st =
     do { (st1, copy) \<leftarrow> notify_begin now ok1 ok2 junk a st;
          (case copy of
             None \<Rightarrow> Some (st1, [])
           | Some s \<Rightarrow>
               do { n \<leftarrow> structs st1 a;
                    e \<leftarrow> events st1 (nt_event n);
                    (ws, rc) \<leftarrow> genaNotify g ms att (ev_headers e) (ev_propertySet e) s;
                    st2 \<leftarrow> freeSubscription s st1;
                    st3 \<leftarrow> notify_end now2 pe rc a (others st2);
                    Some (st3, ws) }) }"

end
