(* ===== verification/GenaRequests.thy ===== *)
theory GenaRequests
  imports GenaEvents
begin

text \<open>
  The requests of control points to a device, \<^verbatim>\<open>compa/src/gena/gena_device.cpp\<close> and \<^verbatim>\<open>compa/src/gena/gena_callback2.cpp\<close>: subscribe,
  renew, unsubscribe. The uuid for a new subscription and the clock are arguments; the call of the application's callback
  is a part of the result.
\<close>

unbundle bit_operations_syntax

section \<open>Answers\<close>

definition HTTP_NOT_FOUND :: int where "HTTP_NOT_FOUND = 404"
definition HDR_CALLBACK :: int where "HDR_CALLBACK = 2"
definition HDR_NT :: int where "HDR_NT = 14"
definition HDR_SID :: int where "HDR_SID = 18"
definition HDR_TIMEOUT :: int where "HDR_TIMEOUT = 21"
definition DEFAULT_TIMEOUT :: int where "DEFAULT_TIMEOUT = 1801"
definition UPNP_TIMEOUT :: int where "UPNP_TIMEOUT = 30"
definition UPNP_SID_ARRAY :: nat where "UPNP_SID_ARRAY = 44"
definition X_USER_AGENT :: string where "X_USER_AGENT = ''redsonic''"

lemmas hdr_ids = HDR_CALLBACK_def HDR_NT_def HDR_SID_def HDR_TIMEOUT_def

text \<open>The surroundings of one answer: what the message maker needs, its memory, the connection.\<close>

record answer_env =
  a_msg :: msg_env
  a_ms :: alloc_script
  a_os :: os

definition error_respond :: "answer_env \<Rightarrow> SOCKINFO \<Rightarrow> int \<Rightarrow> http_parser \<Rightarrow> os option" where
  "error_respond e info error_code hmsg =
     (case http_CalcResponseVersion (major_version hmsg) (minor_version hmsg) of
        (major, minor) \<Rightarrow> map_option fst (http_SendStatusResponse (a_msg e) (a_ms e) (a_os e) info error_code major minor))"

text \<open>A decimal number of an \<open>int\<close> has at most eleven characters: the line fits into its 100 bytes.\<close>

definition timeout_line :: "int \<Rightarrow> string" where
  "timeout_line time_out =
     (if 0 \<le> time_out then ''TIMEOUT: Second-'' @ dec_text time_out else ''TIMEOUT: Second-infinite'')"

definition respond_ok :: "answer_env \<Rightarrow> SOCKINFO \<Rightarrow> int \<Rightarrow> subscription \<Rightarrow> http_parser \<Rightarrow> (os \<times> int) option" where
  "respond_ok e info time_out sub request =
     (case http_CalcResponseVersion (major_version request) (minor_version request) of
        (major, minor) \<Rightarrow>
          if 100 \<le> length (timeout_line time_out)
          then map_option (\<lambda>w. (w, UPNP_E_OUTOF_MEMORY)) (error_respond e info HTTP_INTERNAL_SERVER_ERROR request)
          else
            do { (ms1, response, ret) \<leftarrow>
                   http_MakeMessage (a_msg e) (a_ms e) (empty_membuffer\<lparr>size_inc := 30\<rparr>) major minor ''RDSNXcsscscc''
                     [AInt HTTP_OK, AOff 0, AStr (Some X_USER_AGENT), AStr (Some ''SID: ''), AStr (Some (sid sub)),
                      AStr (Some (timeout_line time_out))];
                 if ret \<noteq> 0
                 then map_option (\<lambda>w. (w, UPNP_E_OUTOF_MEMORY)) (error_respond (e\<lparr>a_ms := ms1\<rparr>) info HTTP_INTERNAL_SERVER_ERROR request)
                 else
                   do { (w1, t1, rc) \<leftarrow>
                          http_SendMessage no_files [] (a_os e) info UPNP_TIMEOUT ''b'' [SBuf (buf response) (mlength response)];
                        Some (w1, rc) } })"

section \<open>The delivery URLs\<close>

definition shift_token :: "nat \<Rightarrow> token \<Rightarrow> token" where
  "shift_token n t = t\<lparr>buff := map_option ((+) n) (buff t)\<rparr>"

text \<open>The tokens of a URL parsed at offset \<open>n\<close> of a buffer, seen from the start of the buffer.\<close>

definition shift_uri :: "nat \<Rightarrow> uri_type \<Rightarrow> uri_type" where
  "shift_uri n u =
     u\<lparr>scheme := shift_token n (scheme u), pathquery := shift_token n (pathquery u), fragment := shift_token n (fragment u),
       hostport := (hostport u)\<lparr>htext := shift_token n (htext (hostport u))\<rparr>\<rparr>"

definition url_starts :: "string \<Rightarrow> nat list" where
  "url_starts s = filter (\<lambda>i. s ! i = CHR ''<'' \<and> i + 1 < length s) [0..<length s]"

text \<open>The length passed to \<open>parse_uri\<close> is two more than what is left behind the bracket.\<close>

definition url_at :: "net_env \<Rightarrow> string \<Rightarrow> nat \<Rightarrow> nat \<Rightarrow> (int + uri_type) option" where
  "url_at net mem len i = parse_uri net (drop (i + 1) mem) (len - i + 1)"

definition has_host :: "uri_type \<Rightarrow> bool" where
  "has_host u \<longleftrightarrow> tsize (htext (hostport u)) \<noteq> 0"

fun count_urls :: "net_env \<Rightarrow> string \<Rightarrow> nat \<Rightarrow> nat list \<Rightarrow> nat \<Rightarrow> (int + nat) option" where
  "count_urls net mem len [] n = Some (Inr n)"
| "count_urls net mem len (i # is) n =
     (case url_at net mem len i of
        None \<Rightarrow> None
      | Some (Inl e) \<Rightarrow> if e = UPNP_E_OUTOF_MEMORY then Some (Inl e) else count_urls net mem len is n
      | Some (Inr u) \<Rightarrow> count_urls net mem len is (if has_host u then n + 1 else n))"

fun fill_urls :: "net_env \<Rightarrow> string \<Rightarrow> nat \<Rightarrow> nat list \<Rightarrow> nat \<Rightarrow> uri_type list \<Rightarrow> (int + uri_type list) option" where
  "fill_urls net mem len [] n us = Some (Inr us)"
| "fill_urls net mem len (i # is) n us =
     (case url_at net mem len i of
        None \<Rightarrow> None
      | Some (Inl e) \<Rightarrow> if e = UPNP_E_OUTOF_MEMORY then Some (Inl e) else fill_urls net mem len is n us
      | Some (Inr u) \<Rightarrow>
          if has_host u
          then (let us1 = us @ [shift_uri (i + 1) u] in if n \<le> length us1 then Some (Inr us1) else fill_urls net mem len is n us1)
          else fill_urls net mem len is n us)"

definition no_urls :: URL_list where
  "no_urls = \<lparr>usize = 0, URLs = None, parsedURLs = None\<rparr>"

text \<open>
  \<open>mem\<close> is the block of the header value and \<open>len\<close> its length. The URLs are parsed twice: in the header to count them, and in the copy.
  \<open>junk\<close> stands for entries of the new array that are not written. The result is the number of URLs or an error code.
\<close>

definition create_url_list :: "net_env \<Rightarrow> bool \<Rightarrow> bool \<Rightarrow> uri_type \<Rightarrow> string \<Rightarrow> nat \<Rightarrow> (URL_list \<times> int) option" where
  "create_url_list net ok1 ok2 junk mem len =
     (let s = take len mem; starts = url_starts s in
      if length mem < len then None
      else
        (case count_urls net mem len starts 0 of
           None \<Rightarrow> None
         | Some (Inl e) \<Rightarrow> Some (no_urls, e)
         | Some (Inr n) \<Rightarrow>
             if n = 0 then Some (no_urls, 0)
             else if \<not> ok1 \<or> \<not> ok2 then Some (no_urls, UPNP_E_OUTOF_MEMORY)
             else
               (case fill_urls net (s @ [NUL]) len starts n [] of
                  None \<Rightarrow> None
                | Some (Inl e) \<Rightarrow> Some (no_urls, e)
                | Some (Inr us) \<Rightarrow>
                    Some (\<lparr>usize = n, URLs = Some (s @ [NUL]), parsedURLs = Some (us @ replicate (n - length us) junk)\<rparr>, int n))))"

text \<open>
  The addresses of the network interface. The two views of a socket address: an IPv6 address read as an IPv4 one
  gives the flow information, which is 0, and an IPv4 address read as an IPv6 one the padding, which is 0.
\<close>

record if_info =
  gIF_IPV4 :: string
  gIF_IPV4_NETMASK :: string
  gIF_IPV6 :: string
  gIF_IPV6_PREFIX_LENGTH :: nat
  gIF_IPV6_ULA_GUA :: string
  gIF_IPV6_ULA_GUA_PREFIX_LENGTH :: nat

definition addr4 :: "sockaddr \<Rightarrow> nat list" where
  "addr4 a = (if ss_family a = AF_INET6 then [0, 0, 0, 0] else sin_addr a)"

definition addr6 :: "sockaddr \<Rightarrow> nat list" where
  "addr6 a = (if ss_family a = AF_INET6 then sin_addr a else replicate 16 0)"

definition masked :: "nat list \<Rightarrow> nat list \<Rightarrow> nat list" where
  "masked a m = map2 (AND) a m"

definition link_local :: "nat list \<Rightarrow> bool" where
  "link_local a \<longleftrightarrow> 2 \<le> length a \<and> a ! 0 = 254 \<and> (a ! 1) AND 192 = 128"

definition url_list_entries :: "URL_list \<Rightarrow> uri_type list" where
  "url_list_entries l = take (usize l) (case parsedURLs l of None \<Rightarrow> [] | Some us \<Rightarrow> us)"

definition gena_validate_delivery_urls :: "net_env \<Rightarrow> if_info \<Rightarrow> SOCKINFO \<Rightarrow> URL_list \<Rightarrow> int" where
  "gena_validate_delivery_urls net ifi info url_list =
     (let as = map (\<lambda>u. IPaddress (hostport u)) (url_list_entries url_list) in
      case ss_family (foreign_sockaddr info) of
        AF_INET \<Rightarrow>
          (case (inet_pton net AF_INET (gIF_IPV4 ifi), inet_pton net AF_INET (gIF_IPV4_NETMASK ifi)) of
             (Some own, Some netmask) \<Rightarrow> if \<forall>a\<in>set as. masked (addr4 a) netmask = masked own netmask then 0 else - 1
           | _ \<Rightarrow> - 1)
      | AF_INET6 \<Rightarrow>
          (case (inet_pton net AF_INET6 (gIF_IPV6 ifi), inet_pton net AF_INET6 (gIF_IPV6_ULA_GUA ifi)) of
             (Some lla, Some gua) \<Rightarrow>
               if \<forall>a\<in>set as.
                    (let (own, plen) = (if link_local (addr6 a) then (lla, gIF_IPV6_PREFIX_LENGTH ifi)
                                          else (gua, gIF_IPV6_ULA_GUA_PREFIX_LENGTH ifi))
                     in take (plen div 8) (addr6 a) = take (plen div 8) own)
               then 0 else - 1
           | _ \<Rightarrow> - 1)
      | _ \<Rightarrow> 0)"

section \<open>Subscribing\<close>

definition find_hdr :: "http_parser \<Rightarrow> int \<Rightarrow> membuffer option" where
  "find_hdr request k = map_option (\<lambda>i. hvalue (headers request ! i)) (httpmsg_find_hdr request k)"

definition request_path :: "http_parser \<Rightarrow> string \<times> nat" where
  "request_path request =
     (case (puri request, urlbuf request) of
        (Some u, Some m) \<Rightarrow> (token_text m (pathquery u), tsize (pathquery u))
      | _ \<Rightarrow> ([], 0))"

text \<open>The timeout a request asks for, limited by the setting of the device.\<close>

definition asked_timeout :: "net_env \<Rightarrow> http_parser \<Rightarrow> int option" where
  "asked_timeout net request =
     (case find_hdr request HDR_TIMEOUT of
        None \<Rightarrow> Some 1801
      | Some v \<Rightarrow>
          (case matchstr net (block v) (mlength v) ''%iSecond-%d%0'' of
             None \<Rightarrow> None
           | Some (PARSE_OK, outs) \<Rightarrow> (case outs of [OInt (Some n)] \<Rightarrow> Some n | _ \<Rightarrow> None)
           | Some (st, outs) \<Rightarrow>
               Some (if memptr_cmp_nocase (block v) (mlength v) ''Second-infinite'' = 0 then - 1 else DEFAULT_TIMEOUT)))"

definition limit_timeout :: "Handle_Info \<Rightarrow> int \<Rightarrow> int" where
  "limit_timeout x t =
     (if MaxSubscriptionTimeOut x \<noteq> - 1 \<and> (t = - 1 \<or> MaxSubscriptionTimeOut x < t) then MaxSubscriptionTimeOut x else t)"

text \<open>What the application is told: callback, cookie, service, device, subscription.\<close>

record sub_event =
  se_callback :: nat
  se_cookie :: nat
  se_ServiceId :: "string option"
  se_UDN :: "string option"
  se_SID :: string

text \<open>The surroundings of a request: network, interface, connection, memory, clock, uuid.\<close>

record request_env =
  r_net :: net_env
  r_if :: if_info
  r_info :: SOCKINFO
  r_answer :: answer_env
  r_path_ms :: alloc_script
  r_sub_ok :: bool
  r_list_ok :: bool
  r_urls_ok1 :: bool
  r_urls_ok2 :: bool
  r_junk :: uri_type
  r_now :: int
  r_uuid :: string

definition new_subscription :: "string \<Rightarrow> int \<Rightarrow> URL_list \<Rightarrow> subscription" where
  "new_subscription k expire urls =
     \<lparr>sid = k, ToSendEventKey = 0, expireTime = expire, active = False, DeliveryURLs = urls, outgoing = []\<rparr>"

type_synonym request_result = "(gena_state \<times> os \<times> sub_event option) option"

definition refuse :: "request_env \<Rightarrow> http_parser \<Rightarrow> int \<Rightarrow> gena_state \<Rightarrow> request_result" where
  "refuse e request code st =
     map_option (\<lambda>w. (st, w, None)) (error_respond (r_answer e) (r_info e) code request)"

text \<open>From the point where a service was found: the steps up to the new entry of the list. The lock is held.\<close>

definition subscribe_service ::
    "request_env \<Rightarrow> http_parser \<Rightarrow> int \<Rightarrow> Handle_Info \<Rightarrow> service_info \<Rightarrow> gena_state \<Rightarrow> request_result" where
  "subscribe_service e request h x service st =
     (if \<not> service_active service then refuse e request HTTP_NOT_FOUND st
      else if MaxSubscriptions x \<noteq> - 1 \<and> MaxSubscriptions x \<le> TotalSubscriptions service
      then refuse e request HTTP_INTERNAL_SERVER_ERROR st
      else if \<not> r_sub_ok e \<or> \<not> r_list_ok e then refuse e request HTTP_INTERNAL_SERVER_ERROR st
      else
        (case find_hdr request HDR_CALLBACK of
           None \<Rightarrow> refuse e request HTTP_PRECONDITION_FAILED st
         | Some cb \<Rightarrow>
             do { (urls, n) \<leftarrow> create_url_list (r_net e) (r_urls_ok1 e) (r_urls_ok2 e) (r_junk e) (block cb) (mlength cb);
                  if n = 0 then refuse e request HTTP_PRECONDITION_FAILED st
                  else if n = UPNP_E_OUTOF_MEMORY then refuse e request HTTP_INTERNAL_SERVER_ERROR st
                  else if gena_validate_delivery_urls (r_net e) (r_if e) (r_info e) urls \<noteq> 0
                  then refuse e request HTTP_PRECONDITION_FAILED st
                  else
                    do { t0 \<leftarrow> asked_timeout (r_net e) request;
                         let t = limit_timeout x t0;
                         let k = ''uuid:'' @ r_uuid e;
                         let sub = new_subscription k (if 0 \<le> t then r_now e + t else 0) urls;
                         if UPNP_SID_ARRAY \<le> length k then Some (st, a_os (r_answer e), None)
                         else
                           do { (w, rc) \<leftarrow> respond_ok (r_answer e) (r_info e) t sub request;
                                if rc \<noteq> UPNP_E_SUCCESS then Some (st, w, None)
                                else
                                  (let service1 = service\<lparr>subscriptionList := sub # subscriptionList service,
                                                          TotalSubscriptions := TotalSubscriptions service + 1\<rparr>
                                   in Some (put_service h service service1 st, w,
                                        Some \<lparr>se_callback = Callback x, se_cookie = Cookie x, se_ServiceId = serviceId service,
                                              se_UDN = UDN service, se_SID = k\<rparr>)) } } }))"

definition gena_process_subscription_request :: "request_env \<Rightarrow> http_parser \<Rightarrow> gena_state \<Rightarrow> request_result" where
  "gena_process_subscription_request e request st =
     (case find_hdr request HDR_NT of
        None \<Rightarrow> refuse e request HTTP_BAD_REQUEST st
      | Some nt \<Rightarrow>
          if memptr_cmp_nocase (block nt) (mlength nt) ''upnp:event'' \<noteq> 0 then refuse e request HTTP_PRECONDITION_FAILED st
          else if find_hdr request HDR_SID \<noteq> None then refuse e request HTTP_BAD_REQUEST st
          else
            (case request_path request of
               (path, len) \<Rightarrow>
                 do { (ms1, event_url_path) \<leftarrow> str_alloc (r_path_ms e) path len;
                      (case event_url_path of
                         None \<Rightarrow> refuse e request HTTP_INTERNAL_SERVER_ERROR st
                       | Some p \<Rightarrow>
                           do { st1 \<leftarrow> HandleLock st;
                                r \<leftarrow> GetDeviceHandleInfoForPath (r_net e) (Some (c_str p)) (ss_family (foreign_sockaddr (r_info e))) st1;
                                (st2, w, ev) \<leftarrow>
                                  (case r of
                                     None \<Rightarrow> refuse e request HTTP_INTERNAL_SERVER_ERROR st1
                                   | Some (h, x, service) \<Rightarrow> subscribe_service e request h x service st1);
                                st3 \<leftarrow> HandleUnlock st2;
                                Some (st3, w, ev) }) }))"

section \<open>Renewing and ending a subscription\<close>

text \<open>
  Both begin with the same checks: no headers of a new subscription, a SID that fits, and a service with this path that knows
  the SID (looking for it removes the subscription when it is expired). \<open>Inl\<close> is the status code of the refusal. The
  buffer of the path is not freed when it cannot be filled.
\<close>

definition named_subscription ::
    "request_env \<Rightarrow> http_parser \<Rightarrow> gena_state \<Rightarrow> (gena_state \<times> (int + string \<times> int \<times> Handle_Info \<times> service_info \<times> subscription)) option" where
  "named_subscription e request st =
     (case find_hdr request HDR_SID of
        None \<Rightarrow> None
      | Some v \<Rightarrow>
          let k = c_str (contents v) in
          (case request_path request of
             (path, len) \<Rightarrow>
               do { (ms1, event_url_path, rc) \<leftarrow> membuffer_append (r_path_ms e) empty_membuffer (Some path) len;
                    r \<leftarrow> GetDeviceHandleInfoForPath (r_net e) (map_option c_str (buf event_url_path))
                           (ss_family (foreign_sockaddr (r_info e))) st;
                    (case r of
                       None \<Rightarrow> Some (st, Inl HTTP_PRECONDITION_FAILED)
                     | Some (h, x, service) \<Rightarrow>
                         if \<not> service_active service then Some (st, Inl HTTP_PRECONDITION_FAILED)
                         else
                           do { (service1, sub, st1) \<leftarrow> get_sid (r_now e) k service st;
                                let st2 = put_service h service service1 st1;
                                Some (st2, case sub of None \<Rightarrow> Inl HTTP_PRECONDITION_FAILED
                                           | Some s \<Rightarrow> Inr (k, h, x, service1, s)) }) }))"

text \<open>The checks before the lock is taken.\<close>

definition bad_sid_request :: "request_env \<Rightarrow> http_parser \<Rightarrow> int option option" where
  "bad_sid_request e request =
     (if find_hdr request HDR_CALLBACK \<noteq> None \<or> find_hdr request HDR_NT \<noteq> None then Some (Some HTTP_BAD_REQUEST)
      else
        (case find_hdr request HDR_SID of
           None \<Rightarrow> Some (Some HTTP_PRECONDITION_FAILED)
         | Some v \<Rightarrow>
             if SID_SIZE < mlength v then Some (Some HTTP_PRECONDITION_FAILED)
             else
               (case request_path request of
                  (path, len) \<Rightarrow>
                    do { (ms1, m, rc) \<leftarrow> membuffer_append (r_path_ms e) empty_membuffer (Some path) len;
                         Some (if rc \<noteq> 0 then Some HTTP_INTERNAL_SERVER_ERROR else None) })))"

definition renew_service ::
    "request_env \<Rightarrow> http_parser \<Rightarrow> string \<Rightarrow> int \<Rightarrow> Handle_Info \<Rightarrow> service_info \<Rightarrow> subscription \<Rightarrow> gena_state \<Rightarrow> request_result" where
  "renew_service e request k h x service sub st =
     (if MaxSubscriptions x \<noteq> - 1 \<and> MaxSubscriptions x < TotalSubscriptions service then
        do { (st1, w, ev) \<leftarrow> refuse e request HTTP_INTERNAL_SERVER_ERROR st;
             (service1, st2) \<leftarrow> remove_sid (sid sub) service st1;
             Some (put_service h service service1 st2, w, ev) }
      else
        do { t0 \<leftarrow> asked_timeout (r_net e) request;
             let t = limit_timeout x t0;
             let sub1 = sub\<lparr>expireTime := (if t = - 1 then 0 else r_now e + t)\<rparr>;
             let service1 = update_sid k sub1 service;
             (w, rc) \<leftarrow> respond_ok (r_answer e) (r_info e) t sub1 request;
             (service2, st1) \<leftarrow>
               (if rc \<noteq> UPNP_E_SUCCESS then remove_sid (sid sub1) service1 st else Some (service1, st));
             Some (put_service h service service2 st1, w, None) })"

definition gena_process_subscription_renewal_request :: "request_env \<Rightarrow> http_parser \<Rightarrow> gena_state \<Rightarrow> request_result" where
  "gena_process_subscription_renewal_request e request st =
     do { bad \<leftarrow> bad_sid_request e request;
          (case bad of
             Some code \<Rightarrow> refuse e request code st
           | None \<Rightarrow>
               do { st0 \<leftarrow> HandleLock st;
                    (st1, r) \<leftarrow> named_subscription e request st0;
                    (st2, w, ev) \<leftarrow>
                      (case r of
                         Inl code \<Rightarrow> refuse e request code st1
                       | Inr (k, h, x, service, sub) \<Rightarrow> renew_service e request k h x service sub st1);
                    st3 \<leftarrow> HandleUnlock st2;
                    Some (st3, w, ev) }) }"

definition gena_process_unsubscribe_request :: "request_env \<Rightarrow> http_parser \<Rightarrow> gena_state \<Rightarrow> request_result" where
  "gena_process_unsubscribe_request e request st =
     do { bad \<leftarrow> bad_sid_request e request;
          (case bad of
             Some code \<Rightarrow> refuse e request code st
           | None \<Rightarrow>
               do { st0 \<leftarrow> HandleLock st;
                    (st1, r) \<leftarrow> named_subscription e request st0;
                    (st2, w, ev) \<leftarrow>
                      (case r of
                         Inl code \<Rightarrow> refuse e request code st1
                       | Inr (k, h, x, service, sub) \<Rightarrow>
                           do { (service1, st2) \<leftarrow> remove_sid k service st1;
                                refuse e request HTTP_OK (put_service h service service1 st2) });
                    st3 \<leftarrow> HandleUnlock st2;
                    Some (st3, w, ev) }) }"

text \<open>The dispatcher. \<open>notified\<close> is the handler of the control point for notifications.\<close>

definition genaCallback ::
    "(http_parser \<Rightarrow> gena_state \<Rightarrow> request_result) \<Rightarrow> request_env \<Rightarrow> http_parser \<Rightarrow> gena_state \<Rightarrow> request_result" where
  "genaCallback notified e request st =
     (if pmethod request = HTTPMETHOD_SUBSCRIBE then
        (if find_hdr request HDR_NT = None then gena_process_subscription_renewal_request e request st
         else gena_process_subscription_request e request st)
      else if pmethod request = HTTPMETHOD_UNSUBSCRIBE then gena_process_unsubscribe_request e request st
      else if pmethod request = HTTPMETHOD_NOTIFY then notified request st
      else refuse e request HTTP_NOT_IMPLEMENTED st)"

end
