(* ===== verification/DeviceApi.thy ===== *)
theory DeviceApi
  imports GenaRequests
begin

text \<open>
  The device side of the programming interface, \<^verbatim>\<open>compa/src/api/upnpapi.cpp\<close>: registering and unregistering root devices, and the calls that
  send events. The description document that is downloaded, and the result of sending the advertisements, are
  arguments.
\<close>

section \<open>Registering a device\<close>

definition LINE_SIZE :: nat where "LINE_SIZE = 180"

definition device_info :: "string \<Rightarrow> string option \<Rightarrow> nat \<Rightarrow> nat \<Rightarrow> af \<Rightarrow> Handle_Info" where
  "device_info DescUrl LowerDescUrl f cookie family =
     blank_info\<lparr>aliasInstalled := 0, HType := HND_DEVICE, DescURL := take (LINE_SIZE - 1) DescUrl,
       LowerDescURL := take (LINE_SIZE - 1) (case LowerDescUrl of None \<Rightarrow> DescUrl | Some l \<Rightarrow> l),
       Callback := f, Cookie := cookie, MaxAge := DEFAULT_MAXAGE, MaxSubscriptions := UPNP_INFINITE,
       MaxSubscriptionTimeOut := UPNP_INFINITE, DeviceAf := family\<rparr>"

definition set_registered :: "af \<Rightarrow> int \<Rightarrow> 'a api_state_scheme \<Rightarrow> 'a api_state_scheme" where
  "set_registered family v st =
     (case family of AF_INET \<Rightarrow> st\<lparr>UpnpSdkDeviceRegisteredV4 := v\<rparr> | AF_INET6 \<Rightarrow> st\<lparr>UpnpSdkDeviceregisteredV6 := v\<rparr> | _ \<Rightarrow> st)"

text \<open>
  From the entry in the table on: \<open>download\<close> is the result of \<open>UpnpDownloadXmlDoc\<close> and the document. A
  document without devices is refused, one without services is not.
\<close>

definition fill_device ::
    "net_env \<Rightarrow> ok_script \<Rightarrow> (string \<Rightarrow> int \<times> xml option) \<Rightarrow> int \<Rightarrow> Handle_Info \<Rightarrow> gena_state \<Rightarrow> (gena_state \<times> int) option" where
  "fill_device net ms download h x st =
     (case download (DescURL x) of
        (rc, doc) \<Rightarrow>
          if rc \<noteq> UPNP_E_SUCCESS then Some (fst (FreeHandle h st), rc)
          else
            (case doc of
               None \<Rightarrow> None
             | Some d \<Rightarrow>
                 if getElementsByTagName ''device'' d = [] then Some (fst (FreeHandle h st), UPNP_E_INVALID_DESC)
                 else
                   do { (t, has) \<leftarrow> getServiceTable net ms d \<lparr>URLBase = None, serviceList = []\<rparr> (Some (DescURL x));
                        Some (set_registered (DeviceAf x) 1
                                (set_slot h (Some (x\<lparr>DescDocument := Some d, ServiceTable := t\<rparr>)) st), UPNP_E_SUCCESS) }))"

definition UpnpRegisterRootDevice3 ::
    "net_env \<Rightarrow> bool \<Rightarrow> ok_script \<Rightarrow> (string \<Rightarrow> int \<times> xml option) \<Rightarrow> string option \<Rightarrow> nat option \<Rightarrow> nat \<Rightarrow> bool \<Rightarrow> af \<Rightarrow> string option \<Rightarrow>
     gena_state \<Rightarrow> (gena_state \<times> int \<times> int option) option" where
  "UpnpRegisterRootDevice3 net mem ms download DescUrl Fun cookie have_hnd AddressFamily LowerDescUrl st =
     do { st1 \<leftarrow> HandleLock st;
          (st2, ret, hnd) \<leftarrow>
            (if UpnpSdkInit st1 \<noteq> 1 then Some (st1, UPNP_E_FINISH, None)
             else
               (case (Fun, DescUrl) of
                  (Some f, Some url) \<Rightarrow>
                    if \<not> have_hnd \<or> url = [] \<or> (AddressFamily \<noteq> AF_INET \<and> AddressFamily \<noteq> AF_INET6)
                    then Some (st1, UPNP_E_INVALID_PARAM, None)
                    else
                      (let h = GetFreeHandle st1; x = device_info url LowerDescUrl f cookie AddressFamily in
                       if h = UPNP_E_OUTOF_HANDLE \<or> \<not> mem then Some (st1, UPNP_E_OUTOF_MEMORY, Some h)
                       else do { (st2, ret) \<leftarrow> fill_device net ms download h x (set_slot h (Some x) st1); Some (st2, ret, Some h) })
                | _ \<Rightarrow> Some (st1, UPNP_E_INVALID_PARAM, None)));
          st3 \<leftarrow> HandleUnlock st2;
          Some (st3, ret, hnd) }"

text \<open>The older function: IPv4, and the same URL for legacy control points.\<close>

definition UpnpRegisterRootDevice ::
    "net_env \<Rightarrow> bool \<Rightarrow> ok_script \<Rightarrow> (string \<Rightarrow> int \<times> xml option) \<Rightarrow> string option \<Rightarrow> nat option \<Rightarrow> nat \<Rightarrow> bool \<Rightarrow>
     gena_state \<Rightarrow> (gena_state \<times> int \<times> int option) option" where
  "UpnpRegisterRootDevice net mem ms download DescUrl Fun cookie have_hnd st =
     UpnpRegisterRootDevice3 net mem ms download DescUrl Fun cookie have_hnd AF_INET None st"

section \<open>Unregistering\<close>

text \<open>
  Three critical sections: the services are freed, the power state is stored, the entry is freed. \<open>advertised\<close> is the result of sending the
  good-bye messages between the last two; other threads may change the state there (\<open>others\<close>).
\<close>

definition power_section :: "int \<Rightarrow> int \<Rightarrow> int \<Rightarrow> int \<Rightarrow> gena_state \<Rightarrow> (gena_state \<times> bool) option" where
  "power_section h ps sp rs st =
     do { st1 \<leftarrow> HandleLock st;
          let (st2, ok) =
            (case GetHandleInfo h st1 of
               (HND_INVALID, y) \<Rightarrow> (st1, False)
             | (ty, None) \<Rightarrow> (st1, False)
             | (ty, Some x) \<Rightarrow>
                 (set_slot h (Some (x\<lparr>PowerState := ps, SleepPeriod := (if sp < 0 then - 1 else sp), RegistrationState := rs\<rparr>)) st1, True));
          st3 \<leftarrow> HandleUnlock st2;
          Some (st3, ok) }"

definition release_section :: "int \<Rightarrow> gena_state \<Rightarrow> (gena_state \<times> bool) option" where
  "release_section h st =
     do { st1 \<leftarrow> HandleLock st;
          let (st2, ok) =
            (case GetHandleInfo h st1 of
               (HND_INVALID, y) \<Rightarrow> (st1, False)
             | (ty, None) \<Rightarrow> (st1, False)
             | (ty, Some x) \<Rightarrow> (fst (FreeHandle h (set_registered (DeviceAf x) 0 st1)), True));
          st3 \<leftarrow> HandleUnlock st2;
          Some (st3, ok) }"

definition UpnpUnRegisterRootDeviceLowPower ::
    "int \<Rightarrow> (gena_state \<Rightarrow> gena_state) \<Rightarrow> int \<Rightarrow> int \<Rightarrow> int \<Rightarrow> int \<Rightarrow> gena_state \<Rightarrow> (gena_state \<times> int) option" where
  "UpnpUnRegisterRootDeviceLowPower advertised others h ps sp rs st =
     (if UpnpSdkInit st \<noteq> 1 then Some (st, UPNP_E_FINISH)
      else
        do { (st1, rc) \<leftarrow> genaUnregisterDevice h st;
             if rc \<noteq> UPNP_E_SUCCESS then Some (st1, UPNP_E_INVALID_HANDLE)
             else
               do { (st2, ok) \<leftarrow> power_section h ps sp rs st1;
                    if \<not> ok then Some (st2, UPNP_E_INVALID_HANDLE)
                    else
                      do { (st3, ok1) \<leftarrow> release_section h (others st2);
                           Some (st3, if ok1 then advertised else UPNP_E_INVALID_HANDLE) } } })"

definition UpnpUnRegisterRootDevice :: "int \<Rightarrow> (gena_state \<Rightarrow> gena_state) \<Rightarrow> int \<Rightarrow> gena_state \<Rightarrow> (gena_state \<times> int) option" where
  "UpnpUnRegisterRootDevice advertised others h st = UpnpUnRegisterRootDeviceLowPower advertised others h (- 1) (- 1) (- 1) st"

section \<open>Events\<close>

text \<open>The checks common to the four calls, under the read lock: \<open>None\<close> when they pass.\<close>

definition event_checks :: "int \<Rightarrow> bool \<Rightarrow> 'a api_state_scheme \<Rightarrow> int option" where
  "event_checks h params_ok st =
     (if UpnpSdkInit st \<noteq> 1 then Some UPNP_E_FINISH
      else if fst (GetHandleInfo h st) \<noteq> HND_DEVICE then Some UPNP_E_INVALID_HANDLE
      else if \<not> params_ok then Some UPNP_E_INVALID_PARAM
      else None)"

definition UpnpNotify ::
    "int \<Rightarrow> bool \<Rightarrow> bool \<Rightarrow> ok_script \<Rightarrow> ok_script \<Rightarrow> add_env list \<Rightarrow> int \<Rightarrow> string option \<Rightarrow> string option \<Rightarrow> string list option \<Rightarrow>
     string list option \<Rightarrow> int \<Rightarrow> gena_state \<Rightarrow> (gena_state \<times> int) option" where
  "UpnpNotify now ok1 ok2 pre ms pes h DevID ServName VarName NewVal cVariables st =
     (case event_checks h (DevID \<noteq> None \<and> ServName \<noteq> None \<and> VarName \<noteq> None \<and> NewVal \<noteq> None \<and> 0 \<le> cVariables) st of
        Some e \<Rightarrow> Some (st, e)
      | None \<Rightarrow> genaNotifyAll now ok1 ok2 pre ms pes h (the DevID) (the ServName) (the VarName) (the NewVal) cVariables st)"

definition UpnpNotifyExt ::
    "int \<Rightarrow> ok_script \<Rightarrow> ok_script \<Rightarrow> add_env list \<Rightarrow> int \<Rightarrow> string option \<Rightarrow> string option \<Rightarrow> string option \<Rightarrow>
     gena_state \<Rightarrow> (gena_state \<times> int) option" where
  "UpnpNotifyExt now pre ms pes h DevID ServName printed st =
     (case event_checks h (DevID \<noteq> None \<and> ServName \<noteq> None) st of
        Some e \<Rightarrow> Some (st, e)
      | None \<Rightarrow> genaNotifyAllExt now pre ms pes h (the DevID) (the ServName) printed st)"

definition UpnpAcceptSubscription ::
    "int \<Rightarrow> bool \<Rightarrow> bool \<Rightarrow> ok_script \<Rightarrow> ok_script \<Rightarrow> add_env \<Rightarrow> int \<Rightarrow> string option \<Rightarrow> string option \<Rightarrow> string list \<Rightarrow>
     string list \<Rightarrow> int \<Rightarrow> string option \<Rightarrow> gena_state \<Rightarrow> (gena_state \<times> int) option" where
  "UpnpAcceptSubscription now ok1 ok2 pre ms pe h DevID ServName VarName NewVal cVariables SubsId st =
     (case event_checks h (DevID \<noteq> None \<and> ServName \<noteq> None \<and> SubsId \<noteq> None) st of
        Some e \<Rightarrow> Some (st, e)
      | None \<Rightarrow> genaInitNotify now ok1 ok2 pre ms pe h (the DevID) (the ServName) VarName NewVal cVariables (the SubsId) st)"

definition UpnpAcceptSubscriptionExt ::
    "int \<Rightarrow> ok_script \<Rightarrow> ok_script \<Rightarrow> add_env \<Rightarrow> int \<Rightarrow> string option \<Rightarrow> string option \<Rightarrow> bool \<Rightarrow> string option \<Rightarrow> string option \<Rightarrow>
     gena_state \<Rightarrow> (gena_state \<times> int) option" where
  "UpnpAcceptSubscriptionExt now pre ms pe h DevID ServName have_doc printed SubsId st =
     (case event_checks h (DevID \<noteq> None \<and> ServName \<noteq> None \<and> SubsId \<noteq> None) st of
        Some e \<Rightarrow> Some (st, e)
      | None \<Rightarrow> genaInitNotifyExt now pre ms pe h (the DevID) (the ServName) have_doc printed (the SubsId) st)"

end
