(* ===== verification/GenaQueues.thy ===== *)
theory GenaQueues
  imports DeviceApi
begin

text \<open>
  What the event queues, the thread pool and the reference counts have to do with each other. The
  invariant is stated for the multiset of all subscriptions, the memory and the set of structures in flight; each
  operation of the theory \<open>GenaEvents\<close> is shown to keep it, and then every step of the whole device.
\<close>

section \<open>The invariant\<close>

definition queue_arg :: "gena_state \<Rightarrow> nat \<Rightarrow> nat" where
  "queue_arg st j = arg (the (jobs st j))"

definition refs :: "gena_state \<Rightarrow> nat \<Rightarrow> nat set" where
  "refs st ev = {a. \<exists>n. structs st a = Some n \<and> nt_event n = ev}"

text \<open>Memory: a structure has its event, an event as many references as there are structures.\<close>

definition memory_ok :: "gena_state \<Rightarrow> bool" where
  "memory_ok st \<longleftrightarrow>
     (\<forall>a n. structs st a = Some n \<longrightarrow> a < fresh st \<and> events st (nt_event n) \<noteq> None) \<and>
     (\<forall>ev e. events st ev = Some e \<longrightarrow> ev < fresh st \<and> reference_count e = int (card (refs st ev))) \<and>
     (\<forall>a\<in>set (handed st). a < fresh st)"

text \<open>Queues: every entry is an allocated job, and no two entries have the same structure.\<close>

definition entry_ok :: "gena_state \<Rightarrow> nat \<Rightarrow> bool" where
  "entry_ok st j \<longleftrightarrow> jobs st j \<noteq> None \<and> j < fresh st \<and> queue_arg st j < fresh st"

definition entries_ok :: "subscription multiset \<Rightarrow> gena_state \<Rightarrow> bool" where
  "entries_ok M st \<longleftrightarrow>
     (\<forall>s\<in>#M. (\<forall>j\<in>set (outgoing s). entry_ok st j) \<and> distinct (map (queue_arg st) (outgoing s)) \<and>
        (\<forall>t\<in>#M. sid t \<noteq> sid s \<longrightarrow> queue_arg st ` set (outgoing s) \<inter> queue_arg st ` set (outgoing t) = {}))"

text \<open>Behind the head: the structure is there, belongs to the subscription and was never given to the pool.\<close>

definition waiting_ok :: "subscription multiset \<Rightarrow> gena_state \<Rightarrow> bool" where
  "waiting_ok M st \<longleftrightarrow>
     (\<forall>s\<in>#M. \<forall>j\<in>set (tl (outgoing s)). queue_arg st j \<notin> set (handed st) \<and>
        (\<exists>n. structs st (queue_arg st j) = Some n \<and> nt_sid n = sid s))"

text \<open>In flight: the structure is there, and if its subscription still exists it is the head of its queue.\<close>

definition flight_ok :: "subscription multiset \<Rightarrow> nat set \<Rightarrow> gena_state \<Rightarrow> bool" where
  "flight_ok M F st \<longleftrightarrow>
     F \<subseteq> set (handed st) \<and>
     (\<forall>a\<in>F. \<exists>n. structs st a = Some n \<and>
        (\<forall>s\<in>#M. sid s = nt_sid n \<longrightarrow> outgoing s \<noteq> [] \<and> queue_arg st (hd (outgoing s)) = a))"

definition sids_ok :: "subscription multiset \<Rightarrow> bool" where
  "sids_ok M \<longleftrightarrow> (\<forall>k. count (image_mset sid M) k \<le> 1) \<and> (\<forall>s\<in>#M. \<not> active s \<longrightarrow> outgoing s = [])"

definition events_ok :: "subscription multiset \<Rightarrow> nat set \<Rightarrow> gena_state \<Rightarrow> bool" where
  "events_ok M F st \<longleftrightarrow> memory_ok st \<and> entries_ok M st \<and> waiting_ok M st \<and> flight_ok M F st \<and> sids_ok M"

lemmas events_ok_defs = events_ok_def memory_ok_def entries_ok_def waiting_ok_def flight_ok_def sids_ok_def

section \<open>Freeing\<close>

lemma refs_finite [simp]: "memory_ok st \<Longrightarrow> finite (refs st ev)"
  by (rule finite_subset [of _ "{..<fresh st}"]) (auto simp: memory_ok_def refs_def)

lemma memory_struct: "memory_ok st \<Longrightarrow> structs st a = Some n \<Longrightarrow> a < fresh st \<and> (\<exists>e. events st (nt_event n) = Some e)"
  unfolding memory_ok_def by blast

lemma memory_event:
  "memory_ok st \<Longrightarrow> events st ev = Some e \<Longrightarrow> ev < fresh st \<and> reference_count e = int (card (refs st ev))"
  unfolding memory_ok_def by blast

lemma memory_handed: "memory_ok st \<Longrightarrow> a \<in> set (handed st) \<Longrightarrow> a < fresh st"
  unfolding memory_ok_def by blast

lemma memory_okI:
  assumes "\<And>a n. structs st a = Some n \<Longrightarrow> a < fresh st \<and> events st (nt_event n) \<noteq> None"
    and "\<And>ev e. events st ev = Some e \<Longrightarrow> ev < fresh st \<and> reference_count e = int (card (refs st ev))"
    and "\<And>a. a \<in> set (handed st) \<Longrightarrow> a < fresh st"
  shows "memory_ok st"
  using assms unfolding memory_ok_def by blast

text \<open>Freeing a structure: only events and structures change.\<close>

lemma free_notify_struct_ok:
  assumes "memory_ok st" and n: "structs st a = Some n"
  shows "\<exists>ev'. free_notify_struct a st = Some (st\<lparr>events := ev', structs := (structs st)(a := None)\<rparr>) \<and>
    memory_ok (st\<lparr>events := ev', structs := (structs st)(a := None)\<rparr>) \<and>
    (\<forall>ev. refs st ev = {} \<longrightarrow> ev' ev = events st ev)"
proof -
  define x where "x = nt_event n"
  obtain e where e: "events st x = Some e" "reference_count e = int (card (refs st x))"
    using memory_struct [OF assms] memory_event [OF assms(1)] by (auto simp: x_def)
  have in_refs: "a \<in> refs st x"
    using n by (auto simp: refs_def x_def)
  define ev' where "ev' = (events st)(x := if reference_count e - 1 = 0 then None else Some (e\<lparr>reference_count := reference_count e - 1\<rparr>))"
  define st1 where "st1 = st\<lparr>events := ev', structs := (structs st)(a := None)\<rparr>"
  have refs1: "refs st1 y = (if y = x then refs st x - {a} else refs st y)" for y
    using n by (auto simp: refs_def st1_def x_def)
  have card: "int (card (refs st1 x)) = reference_count e - 1"
    using in_refs e(2) refs_finite [OF assms(1), of x] card_gt_0_iff [of "refs st x"] by (auto simp: refs1 card_Diff_singleton)
  have "memory_ok st1"
  proof (rule memory_okI)
    fix b m assume m: "structs st1 b = Some m"
    then have b: "structs st b = Some m" "b \<in> refs st1 (nt_event m)"
      by (auto simp: st1_def refs_def split: if_splits)
    moreover have "card (refs st1 x) \<noteq> 0" if "nt_event m = x"
      using b(2) refs1 [of x] refs_finite [OF assms(1), of x] that by (auto simp: card_eq_0_iff)
    ultimately show "b < fresh st1 \<and> events st1 (nt_event m) \<noteq> None"
      using memory_struct [OF assms(1) b(1)] card by (auto simp: st1_def ev'_def)
  next
    fix y f assume f: "events st1 y = Some f"
    show "y < fresh st1 \<and> reference_count f = int (card (refs st1 y))"
    proof (cases "y = x")
      case True
      then have "reference_count f = reference_count e - 1"
        using f by (auto simp: st1_def ev'_def split: if_splits)
      then show ?thesis
        using True card memory_event [OF assms(1) e(1)] by (simp add: st1_def)
    next
      case False
      then have "events st y = Some f" "refs st1 y = refs st y"
        using f refs1 [of y] by (auto simp: st1_def ev'_def)
      then show ?thesis
        using memory_event [OF assms(1)] by (simp add: st1_def)
    qed
  qed (use memory_handed [OF assms(1)] in \<open>auto simp: st1_def\<close>)
  moreover have "free_notify_struct a st = Some st1"
    using n e(1) by (simp add: free_notify_struct_def st1_def ev'_def x_def Let_def)
  moreover have "\<forall>ev. refs st ev = {} \<longrightarrow> ev' ev = events st ev"
    using in_refs by (auto simp: ev'_def)
  ultimately show ?thesis
    by (auto simp: st1_def)
qed

lemma refs_simps [simp]:
  "refs (st\<lparr>jobs := x\<rparr>) ev = refs st ev"
  "refs (st\<lparr>events := y\<rparr>) ev = refs st ev"
  "refs (st\<lparr>handed := u\<rparr>) ev = refs st ev"
  "refs (st\<lparr>gSendThreadPool := z\<rparr>) ev = refs st ev"
  "refs (st\<lparr>HandleTable := t\<rparr>) ev = refs st ev"
  "refs (st\<lparr>GlobalHndRWLock := l\<rparr>) ev = refs st ev"
  by (simp_all add: refs_def)

lemma memory_ok_simps [simp]:
  "memory_ok (st\<lparr>jobs := x\<rparr>) = memory_ok st"
  "memory_ok (st\<lparr>gSendThreadPool := z\<rparr>) = memory_ok st"
  "memory_ok (st\<lparr>HandleTable := t\<rparr>) = memory_ok st"
  "memory_ok (st\<lparr>GlobalHndRWLock := l\<rparr>) = memory_ok st"
  by (simp_all add: memory_ok_def)

lemma queue_arg_simps [simp]:
  "queue_arg (st\<lparr>events := y\<rparr>) = queue_arg st"
  "queue_arg (st\<lparr>structs := x\<rparr>) = queue_arg st"
  "queue_arg (st\<lparr>handed := u\<rparr>) = queue_arg st"
  "queue_arg (st\<lparr>gSendThreadPool := z\<rparr>) = queue_arg st"
  "queue_arg (st\<lparr>HandleTable := t\<rparr>) = queue_arg st"
  "queue_arg (st\<lparr>GlobalHndRWLock := l\<rparr>) = queue_arg st"
  "queue_arg (st\<lparr>fresh := f\<rparr>) = queue_arg st"
  by (simp_all add: queue_arg_def fun_eq_iff)

text \<open>The state after the jobs in \<open>J\<close> and the structures in \<open>A\<close> were freed.\<close>

definition freed :: "nat set \<Rightarrow> nat set \<Rightarrow> (nat \<Rightarrow> event_data option) \<Rightarrow> gena_state \<Rightarrow> gena_state" where
  "freed J A ev' st = st\<lparr>events := ev', structs := structs st |` (- A), jobs := jobs st |` (- J)\<rparr>"

lemma restrict_UNIV [simp]: "m |` UNIV = m"
  by (simp add: restrict_map_def)

lemma freed_freed: "freed J A ev1 (freed J' A' ev' st) = freed (J \<union> J') (A \<union> A') ev1 st"
  by (simp add: freed_def Int_commute Un_commute)

lemma freed_simps [simp]:
  "events (freed J A ev' st) = ev'" "structs (freed J A ev' st) = structs st |` (- A)" "jobs (freed J A ev' st) = jobs st |` (- J)"
  "fresh (freed J A ev' st) = fresh st" "handed (freed J A ev' st) = handed st"
  "HandleTable (freed J A ev' st) = HandleTable st" "GlobalHndRWLock (freed J A ev' st) = GlobalHndRWLock st"
  "gSendThreadPool (freed J A ev' st) = gSendThreadPool st"
  "g_UpnpSdkEQMaxLen (freed J A ev' st) = g_UpnpSdkEQMaxLen st" "g_UpnpSdkEQMaxAge (freed J A ev' st) = g_UpnpSdkEQMaxAge st"
  "j \<notin> J \<Longrightarrow> queue_arg (freed J A ev' st) j = queue_arg st j"
  by (simp_all add: freed_def queue_arg_def)

lemma freed_image: "J \<inter> Q = {} \<Longrightarrow> queue_arg (freed J A ev' st) ` Q = queue_arg st ` Q"
  by (intro image_cong refl freed_simps) auto

lemma refs_freed [simp]: "refs (freed J A ev' st) ev = refs st ev - A"
  by (auto simp: refs_def freed_def restrict_map_def)

abbreviation kept :: "gena_state \<Rightarrow> (nat \<Rightarrow> event_data option) \<Rightarrow> bool" where
  "kept st ev' \<equiv> \<forall>ev. refs st ev = {} \<longrightarrow> ev' ev = events st ev"

definition queue_entry :: "gena_state \<Rightarrow> nat \<Rightarrow> bool" where
  "queue_entry st j \<longleftrightarrow> jobs st j \<noteq> None \<and> structs st (queue_arg st j) \<noteq> None"

lemma free_entry_ok:
  assumes "memory_ok st" and "queue_entry st j" and "jobs st j = Some job"
  shows "\<exists>ev' st1. free_notify_struct (arg job) st = Some st1 \<and> free_job j st1 = freed {j} {queue_arg st j} ev' st \<and>
    memory_ok (freed {j} {queue_arg st j} ev' st) \<and> kept st ev'"
proof -
  obtain n where n: "structs st (arg job) = Some n"
    using assms(2,3) by (auto simp: queue_entry_def queue_arg_def)
  obtain ev' where e: "free_notify_struct (arg job) st = Some (st\<lparr>events := ev', structs := (structs st)(arg job := None)\<rparr>)"
    "memory_ok (st\<lparr>events := ev', structs := (structs st)(arg job := None)\<rparr>)" "kept st ev'"
    using free_notify_struct_ok [OF assms(1) n] by blast
  moreover have f: "free_job j (st\<lparr>events := ev', structs := (structs st)(arg job := None)\<rparr>) = freed {j} {queue_arg st j} ev' st"
    using assms(3) by (simp add: free_job_def freed_def queue_arg_def fun_upd_def restrict_map_def fun_eq_iff)
  moreover have "memory_ok (free_job j (st\<lparr>events := ev', structs := (structs st)(arg job := None)\<rparr>))"
    using e(2) by (simp add: free_job_def)
  ultimately show ?thesis
    by auto
qed

lemma free_queue_ok:
  "memory_ok st \<Longrightarrow> \<forall>j\<in>set q. queue_entry st j \<Longrightarrow> distinct (map (queue_arg st) q) \<Longrightarrow>
   \<exists>ev'. free_queue False q st = Some (freed (set q) (queue_arg st ` set q) ev' st) \<and>
     memory_ok (freed (set q) (queue_arg st ` set q) ev' st) \<and> kept st ev'"
proof (induction q arbitrary: st)
  case Nil
  then show ?case
    by (intro exI [of _ "events st"]) (simp add: freed_def)
next
  case (Cons j q)
  obtain job where job: "jobs st j = Some job"
    using Cons.prems(2) by (auto simp: queue_entry_def)
  then obtain ev1 st1 where s: "free_notify_struct (arg job) st = Some st1" "free_job j st1 = freed {j} {queue_arg st j} ev1 st"
    "memory_ok (freed {j} {queue_arg st j} ev1 st)" "kept st ev1"
    using free_entry_ok [OF Cons.prems(1), of j] Cons.prems(2) by auto
  define st2 where "st2 = freed {j} {queue_arg st j} ev1 st"
  have "j \<notin> set q"
    using Cons.prems(3) by auto
  then have ne: "i \<noteq> j" if "i \<in> set q" for i
    using that by auto
  then have args: "queue_arg st2 i = queue_arg st i" if "i \<in> set q" for i
    using that by (simp add: st2_def)
  have "queue_entry st2 i" if i: "i \<in> set q" for i
  proof -
    have "queue_arg st i \<noteq> queue_arg st j"
      using Cons.prems(3) i by (simp add: image_iff) metis
    then show ?thesis
      using Cons.prems(2) i args [OF i] ne [OF i] by (simp add: queue_entry_def st2_def restrict_map_def)
  qed
  moreover have "distinct (map (queue_arg st2) q)"
    using Cons.prems(3) args by (simp add: distinct_map inj_on_def)
  ultimately obtain ev' where q: "free_queue False q st2 = Some (freed (set q) (queue_arg st2 ` set q) ev' st2)"
    "memory_ok (freed (set q) (queue_arg st2 ` set q) ev' st2)" "kept st2 ev'"
    using Cons.IH [of st2] s(3) unfolding st2_def by blast
  have "queue_arg st2 ` set q = queue_arg st ` set q"
    using args by (auto simp: image_def)
  then have e: "freed (set q) (queue_arg st2 ` set q) ev' st2 = freed (set (j # q)) (queue_arg st ` set (j # q)) ev' st"
    by (simp add: st2_def freed_freed)
  moreover have "free_queue False (j # q) st = free_queue False q st2"
    using s(1,2) job by (simp add: st2_def)
  moreover have "kept st ev'"
    using q(3) s(4) by (simp add: st2_def)
  ultimately show ?case
    using q(1,2) by (intro exI [of _ ev']) simp
qed

section \<open>Removing entries\<close>

lemma sids_count: "sids_ok M \<Longrightarrow> count (image_mset sid M) k \<le> 1"
  by (simp add: sids_ok_def)

lemma sids_apart:
  assumes "sids_ok (add_mset s M)" and "t \<in># M"
  shows "sid t \<noteq> sid s"
  using sids_count [OF assms(1), of "sid s"] assms(2) by (auto dest!: multi_member_split)

lemma sids_ok_sub:
  assumes "sids_ok (add_mset s M)"
  shows "sids_ok M"
proof -
  have "count (image_mset sid M) k \<le> 1" for k
    using sids_count [OF assms, of k] by (cases "sid s = k") simp_all
  moreover have "\<not> active t \<longrightarrow> outgoing t = []" if "t \<in># M" for t
    using assms that by (simp add: sids_ok_def)
  ultimately show ?thesis
    by (simp add: sids_ok_def)
qed

lemma sids_ok_replace:
  "sids_ok (add_mset s M) \<Longrightarrow> sid t = sid s \<Longrightarrow> \<not> active t \<longrightarrow> outgoing t = [] \<Longrightarrow> sids_ok (add_mset t M)"
  by (simp add: sids_ok_def)

lemma entries_ok_sub: "entries_ok (add_mset s M) st \<Longrightarrow> entries_ok M st"
  by (simp add: entries_ok_def)

text \<open>The entries of one subscription and those of another have nothing in common.\<close>

lemma queues_apart:
  assumes "events_ok (add_mset s M) F st" and "t \<in># M" and "i \<in> set (outgoing t)" and "j \<in> set (outgoing s)"
  shows "queue_arg st i \<noteq> queue_arg st j" and "i \<noteq> j"
proof -
  have "queue_arg st ` set (outgoing t) \<inter> queue_arg st ` set (outgoing s) = {}"
    using assms(1,2) sids_apart [of s M t] by (auto simp: events_ok_def entries_ok_def)
  then show "queue_arg st i \<noteq> queue_arg st j"
    using assms(3,4) by blast
  then show "i \<noteq> j"
    by auto
qed

text \<open>The head of a queue, seen from the invariant.\<close>

lemma events_okI:
  assumes "memory_ok st" and "entries_ok M st" and "waiting_ok M st" and "flight_ok M F st" and "sids_ok M"
  shows "events_ok M F st"
  using assms by (simp add: events_ok_def)

lemma waiting_entry:
  assumes "waiting_ok M st" and "s \<in># M" and "j \<in> set (tl (outgoing s))"
  shows "queue_arg st j \<notin> set (handed st)" and "\<exists>n. structs st (queue_arg st j) = Some n \<and> nt_sid n = sid s"
  using assms unfolding waiting_ok_def by blast+

lemma flight_entry:
  assumes "flight_ok M F st" and "a \<in> F"
  obtains n where "structs st a = Some n" and "a \<in> set (handed st)"
    and "\<And>s. s \<in># M \<Longrightarrow> sid s = nt_sid n \<Longrightarrow> outgoing s \<noteq> [] \<and> queue_arg st (hd (outgoing s)) = a"
  using assms unfolding flight_ok_def by blast

lemma flight_okI:
  assumes "F \<subseteq> set (handed st)"
    and "\<And>a. a \<in> F \<Longrightarrow> \<exists>n. structs st a = Some n \<and>
      (\<forall>s\<in>#M. sid s = nt_sid n \<longrightarrow> outgoing s \<noteq> [] \<and> queue_arg st (hd (outgoing s)) = a)"
  shows "flight_ok M F st"
  using assms unfolding flight_ok_def by blast

text \<open>A subscription goes, with its queue.\<close>

lemma events_ok_drop:
  assumes ok: "events_ok (add_mset s M) F st"
    and mem: "memory_ok (freed (set (outgoing s)) (queue_arg st ` set (tl (outgoing s))) ev' st)"
  shows "events_ok M F (freed (set (outgoing s)) (queue_arg st ` set (tl (outgoing s))) ev' st)"
    (is "events_ok M F ?st")
proof (rule events_okI)
  have tl: "set (tl (outgoing s)) \<subseteq> set (outgoing s)"
    by (cases "outgoing s") auto
  have arg: "queue_arg ?st i = queue_arg st i" "i \<notin> set (outgoing s)" "queue_arg st i \<notin> queue_arg st ` set (tl (outgoing s))"
    if "t \<in># M" "i \<in> set (outgoing t)" for t i
  proof -
    show "i \<notin> set (outgoing s)" "queue_arg st i \<notin> queue_arg st ` set (tl (outgoing s))"
      using queues_apart [OF ok that] tl by (auto simp: image_iff)
    then show "queue_arg ?st i = queue_arg st i"
      by simp
  qed
  then have image: "queue_arg ?st ` set (outgoing t) = queue_arg st ` set (outgoing t)" if "t \<in># M" for t
    using that by (auto simp: image_def)
  have e: "entries_ok M st" "waiting_ok M st" "flight_ok M F st"
    using ok by (auto simp: events_ok_def entries_ok_def waiting_ok_def flight_ok_def)
  show "entries_ok M ?st"
    unfolding entries_ok_def
  proof (intro ballI conjI impI)
    fix t assume t: "t \<in># M"
    show "entry_ok ?st j" if "j \<in> set (outgoing t)" for j
      using that t e(1) arg [OF t that] by (auto simp: entries_ok_def entry_ok_def restrict_map_def)
    show "distinct (map (queue_arg ?st) (outgoing t))"
      using t e(1) arg(1) [OF t] by (auto simp: entries_ok_def distinct_map inj_on_def)
    show "queue_arg ?st ` set (outgoing t) \<inter> queue_arg ?st ` set (outgoing u) = {}" if "u \<in># M" "sid u \<noteq> sid t" for u
      using that t e(1) image [OF t] image [of u] by (simp add: entries_ok_def)
  qed
  show "waiting_ok M ?st"
    unfolding waiting_ok_def
  proof (intro ballI)
    fix t j assume t: "t \<in># M" and j: "j \<in> set (tl (outgoing t))"
    then have "j \<in> set (outgoing t)"
      by (cases "outgoing t") auto
    then show "queue_arg ?st j \<notin> set (handed ?st) \<and> (\<exists>n. structs ?st (queue_arg ?st j) = Some n \<and> nt_sid n = sid t)"
      using waiting_entry [OF e(2) t j] arg [OF t] by (simp add: restrict_map_def)
  qed
  show "flight_ok M F ?st"
  proof (rule flight_okI)
    show "F \<subseteq> set (handed ?st)"
      using e(3) by (simp add: flight_ok_def)
    fix a assume a: "a \<in> F"
    obtain n where n: "structs st a = Some n" "a \<in> set (handed st)"
      "\<And>t. t \<in># M \<Longrightarrow> sid t = nt_sid n \<Longrightarrow> outgoing t \<noteq> [] \<and> queue_arg st (hd (outgoing t)) = a"
      using flight_entry [OF e(3) a] by metis
    have "a \<notin> queue_arg st ` set (tl (outgoing s))"
      using n(2) ok waiting_entry(1) [of "add_mset s M" st s] by (auto simp: events_ok_def)
    then show "\<exists>n. structs ?st a = Some n \<and> (\<forall>t\<in>#M. sid t = nt_sid n \<longrightarrow> outgoing t \<noteq> [] \<and> queue_arg ?st (hd (outgoing t)) = a)"
      using n(1,3) arg(1) by (auto simp: restrict_map_def)
  qed
qed (use mem ok sids_ok_sub in \<open>auto simp: events_ok_def\<close>)

section \<open>Changing the queue of one subscription\<close>

text \<open>
  One subscription changes, the queues of the others do not. \<open>X\<close> are the structures that start to fly: they
  are the new head.
\<close>

definition others_kept :: "subscription multiset \<Rightarrow> gena_state \<Rightarrow> gena_state \<Rightarrow> bool" where
  "others_kept M st st1 \<longleftrightarrow> fresh st \<le> fresh st1 \<and>
     (\<forall>t\<in>#M. (\<forall>i\<in>set (outgoing t). jobs st1 i = jobs st i) \<and>
        (\<forall>i\<in>set (tl (outgoing t)). structs st1 (queue_arg st i) = structs st (queue_arg st i) \<and>
           queue_arg st i \<notin> set (handed st1)))"

definition queue_ok :: "subscription \<Rightarrow> gena_state \<Rightarrow> bool" where
  "queue_ok s st \<longleftrightarrow> (\<forall>j\<in>set (outgoing s). entry_ok st j) \<and> distinct (map (queue_arg st) (outgoing s)) \<and>
     (\<forall>j\<in>set (tl (outgoing s)). queue_arg st j \<notin> set (handed st) \<and>
        (\<exists>n. structs st (queue_arg st j) = Some n \<and> nt_sid n = sid s)) \<and>
     (\<not> active s \<longrightarrow> outgoing s = [])"

lemma queue_ok_of: "events_ok M F st \<Longrightarrow> s \<in># M \<Longrightarrow> queue_ok s st"
  by (simp add: events_ok_def entries_ok_def waiting_ok_def sids_ok_def queue_ok_def)

lemma tl_subset: "set (tl xs) \<subseteq> set xs"
  by (cases xs) auto

lemma events_ok_update:
  assumes ok: "events_ok (add_mset s M) F st" and mem: "memory_ok st1" and others: "others_kept M st st1"
    and s1: "sid s1 = sid s" "queue_ok s1 st1"
    and apart: "\<And>t. t \<in># M \<Longrightarrow> queue_arg st1 ` set (outgoing s1) \<inter> queue_arg st ` set (outgoing t) = {}"
    and F1: "F1 \<subseteq> set (handed st1)" "F1 - X \<subseteq> F"
    and old: "\<And>a. a \<in> F1 - X \<Longrightarrow> structs st1 a = structs st a \<and>
      (outgoing s \<noteq> [] \<and> queue_arg st (hd (outgoing s)) = a \<longrightarrow> outgoing s1 \<noteq> [] \<and> queue_arg st1 (hd (outgoing s1)) = a)"
    and new: "\<And>a. a \<in> X \<Longrightarrow> outgoing s1 \<noteq> [] \<and> queue_arg st1 (hd (outgoing s1)) = a \<and>
      (\<exists>n. structs st1 a = Some n \<and> nt_sid n = sid s1)"
  shows "events_ok (add_mset s1 M) F1 st1"
proof (rule events_okI)
  have arg: "queue_arg st1 i = queue_arg st i" if "t \<in># M" "i \<in> set (outgoing t)" for t i
    using others that by (simp add: others_kept_def queue_arg_def)
  have image: "queue_arg st1 ` set (outgoing t) = queue_arg st ` set (outgoing t)" if "t \<in># M" for t
    using arg that by (auto simp: image_def)
  have parts: "entries_ok M st" "waiting_ok M st" "sids_ok (add_mset s M)" "flight_ok (add_mset s M) F st"
    using ok by (auto simp: events_ok_def entries_ok_def waiting_ok_def)
  show "entries_ok (add_mset s1 M) st1"
  proof -
    have "entry_ok st1 j" if t: "t \<in># M" "j \<in> set (outgoing t)" for t j
    proof -
      have "entry_ok st j" "jobs st1 j = jobs st j" "fresh st \<le> fresh st1"
        using parts(1) others t by (simp_all add: entries_ok_def others_kept_def)
      then show ?thesis
        using arg [OF t] by (simp add: entry_ok_def)
    qed
    moreover have "distinct (map (queue_arg st1) (outgoing t))" if t: "t \<in># M" for t
      using parts(1) t arg [OF t] by (simp add: entries_ok_def cong: map_cong)
    moreover have "queue_arg st1 ` set (outgoing t) \<inter> queue_arg st1 ` set (outgoing u) = {}"
      if "t \<in># M" "u \<in># M" "sid u \<noteq> sid t" for t u
      using parts(1) that by (simp add: entries_ok_def image)
    moreover have "queue_arg st1 ` set (outgoing s1) \<inter> queue_arg st1 ` set (outgoing t) = {}" if "t \<in># M" for t
      using apart [OF that] image [OF that] by simp
    ultimately show ?thesis
      using s1(2) by (auto simp: entries_ok_def queue_ok_def Int_commute)
  qed
  show "waiting_ok (add_mset s1 M) st1"
    unfolding waiting_ok_def
  proof (intro ballI)
    fix t j assume t: "t \<in># add_mset s1 M" and j: "j \<in> set (tl (outgoing t))"
    show "queue_arg st1 j \<notin> set (handed st1) \<and> (\<exists>n. structs st1 (queue_arg st1 j) = Some n \<and> nt_sid n = sid t)"
    proof (cases "t = s1")
      case True
      then show ?thesis
        using j s1(2) by (simp add: queue_ok_def)
    next
      case False
      then have "t \<in># M"
        using t by simp
      moreover have "j \<in> set (outgoing t)"
        by (rule subsetD [OF tl_subset j])
      ultimately show ?thesis
        using j others arg waiting_entry [OF parts(2), of t j] by (auto simp: others_kept_def)
    qed
  qed
  show "flight_ok (add_mset s1 M) F1 st1"
  proof (rule flight_okI [OF F1(1)])
    fix a assume a: "a \<in> F1"
    show "\<exists>n. structs st1 a = Some n \<and>
      (\<forall>t\<in>#add_mset s1 M. sid t = nt_sid n \<longrightarrow> outgoing t \<noteq> [] \<and> queue_arg st1 (hd (outgoing t)) = a)"
    proof (cases "a \<in> X")
      case True
      then show ?thesis
        using new [OF True] sids_apart [OF parts(3)] s1(1) by auto
    next
      case False
      then have "a \<in> F"
        using a F1(2) by auto
      then obtain n where n: "structs st a = Some n"
        "\<And>t. t \<in># add_mset s M \<Longrightarrow> sid t = nt_sid n \<Longrightarrow> outgoing t \<noteq> [] \<and> queue_arg st (hd (outgoing t)) = a"
        using flight_entry [OF parts(4)] by metis
      have "outgoing t \<noteq> [] \<and> queue_arg st1 (hd (outgoing t)) = a" if "t \<in># M" "sid t = nt_sid n" for t
        using n(2) [of t] arg [of t "hd (outgoing t)"] that by simp
      moreover have "outgoing s1 \<noteq> [] \<and> queue_arg st1 (hd (outgoing s1)) = a" if "sid s1 = nt_sid n"
        using n(2) [of s] old [of a] a False s1(1) that by simp
      moreover have "structs st1 a = Some n"
        using n(1) old [of a] a False by simp
      ultimately show ?thesis
        by (intro exI [of _ n] conjI ballI impI) (simp_all, metis+)
    qed
  qed
  show "sids_ok (add_mset s1 M)"
    using sids_ok_replace [OF parts(3) s1(1)] s1(2) by (simp add: queue_ok_def)
qed (rule mem)

section \<open>Freeing subscriptions\<close>

lemma free_job_freed: "free_job j st = freed {j} {} (events st) st"
  by (simp add: free_job_def freed_def restrict_map_def fun_eq_iff fun_upd_def)

lemma free_job_simps [simp]:
  "i \<noteq> j \<Longrightarrow> queue_arg (free_job j st) i = queue_arg st i" "i \<noteq> j \<Longrightarrow> jobs (free_job j st) i = jobs st i"
  "structs (free_job j st) = structs st" "handed (free_job j st) = handed st" "fresh (free_job j st) = fresh st"
  "HandleTable (free_job j st) = HandleTable st" "GlobalHndRWLock (free_job j st) = GlobalHndRWLock st"
  by (simp_all add: free_job_def queue_arg_def)

lemma queue_entry_waiting:
  assumes "queue_ok s st" and "j \<in> set (tl (outgoing s))"
  shows "queue_entry st j"
  using assms subsetD [OF tl_subset assms(2)] by (force simp: queue_ok_def queue_entry_def entry_ok_def)

lemma queue_heads:
  assumes "queue_ok s st" and "outgoing s = j # q"
  shows "jobs st j \<noteq> None" and "j \<notin> set q" and "queue_arg st j \<notin> queue_arg st ` set q"
    and "distinct (map (queue_arg st) q)" and "\<And>i. i \<in> set q \<Longrightarrow> queue_entry st i"
proof -
  show a: "jobs st j \<noteq> None" "queue_arg st j \<notin> queue_arg st ` set q" "distinct (map (queue_arg st) q)"
    using assms by (auto simp: queue_ok_def entry_ok_def)
  then show "j \<notin> set q"
    by auto
  show "\<And>i. i \<in> set q \<Longrightarrow> queue_entry st i"
    using queue_entry_waiting [OF assms(1)] assms(2) by simp
qed

lemma freeSubscription_ok:
  assumes ok: "events_ok (add_mset s M) F st"
  shows "\<exists>J A ev'. freeSubscription s st = Some (freed J A ev' st) \<and> events_ok M F (freed J A ev' st) \<and> kept st ev' \<and>
    A \<inter> set (handed st) = {}"
proof (cases "outgoing s")
  case Nil
  have "events_ok M F (freed {} {} (events st) st)"
    using events_ok_drop [OF ok, of "events st"] ok Nil by (simp add: freed_def events_ok_def)
  then show ?thesis
    using Nil by (intro exI [of _ "{}"] exI [of _ "events st"])
      (simp add: freeSubscription_def freeSubscriptionQueuedEvents_def freed_def)
next
  case (Cons j q)
  note h = queue_heads [OF queue_ok_of [OF ok] Cons, simplified]
  define st1 where "st1 = free_job j st"
  have arg: "queue_arg st1 i = queue_arg st i" "queue_entry st1 i" if "i \<in> set q" for i
  proof -
    have "i \<noteq> j"
      using h(2) that by auto
    then show "queue_arg st1 i = queue_arg st i"
      by (simp add: st1_def free_job_freed)
    then show "queue_entry st1 i"
      using h(5) [OF that] \<open>i \<noteq> j\<close> by (simp add: queue_entry_def st1_def free_job_freed)
  qed
  have mem: "memory_ok st1"
    using ok by (simp add: st1_def free_job_def events_ok_def)
  have d: "distinct (map (queue_arg st1) q)"
    using h(4) arg(1) by (simp cong: map_cong)
  obtain ev' where q: "free_queue False q st1 = Some (freed (set q) (queue_arg st1 ` set q) ev' st1)"
    "memory_ok (freed (set q) (queue_arg st1 ` set q) ev' st1)" "kept st1 ev'"
    using free_queue_ok [OF mem _ d] arg(2) by blast
  have image: "queue_arg st1 ` set q = queue_arg st ` set q"
    using arg(1) by (rule image_cong [OF refl])
  have e: "freed (set q) (queue_arg st1 ` set q) ev' st1 = freed (set (outgoing s)) (queue_arg st ` set (tl (outgoing s))) ev' st"
    by (simp add: st1_def free_job_freed freed_freed Cons image [unfolded st1_def free_job_freed])
  have "free_queue True (outgoing s) st = Some (freed (set (outgoing s)) (queue_arg st ` set (tl (outgoing s))) ev' st)"
    using q(1) h(1) e by (auto simp: Cons st1_def)
  moreover have "kept st ev'"
    using q(3) by (simp add: st1_def free_job_def)
  moreover have "queue_arg st ` set (tl (outgoing s)) \<inter> set (handed st) = {}"
    using queue_ok_of [OF ok, of s] by (auto simp: queue_ok_def)
  ultimately show ?thesis
    using events_ok_drop [OF ok, of ev'] q(2) e
    by (intro exI [of _ "set (outgoing s)"] exI [of _ "queue_arg st ` set (tl (outgoing s))"] exI [of _ ev'])
       (simp add: freeSubscription_def freeSubscriptionQueuedEvents_def)
qed

lemma freeSubscriptionList_ok:
  "events_ok (mset ss + M) F st \<Longrightarrow>
   \<exists>J A ev'. freeSubscriptionList ss st = Some (freed J A ev' st) \<and> events_ok M F (freed J A ev' st) \<and> kept st ev' \<and>
     A \<inter> set (handed st) = {}"
proof (induction ss arbitrary: st)
  case Nil
  then show ?case
    by (intro exI [of _ "{}"] exI [of _ "events st"]) (simp add: freed_def)
next
  case (Cons s ss)
  obtain J A ev1 where 1: "freeSubscription s st = Some (freed J A ev1 st)" "events_ok (mset ss + M) F (freed J A ev1 st)"
    "kept st ev1" "A \<inter> set (handed st) = {}"
    using freeSubscription_ok [of s "mset ss + M" F st] Cons.prems by auto
  obtain J' A' ev' where 2: "freeSubscriptionList ss (freed J A ev1 st) = Some (freed J' A' ev' (freed J A ev1 st))"
    "events_ok M F (freed J' A' ev' (freed J A ev1 st))" "kept (freed J A ev1 st) ev'"
    "A' \<inter> set (handed st) = {}"
    using Cons.IH [OF 1(2)] by auto
  have "kept st ev'" "(A' \<union> A) \<inter> set (handed st) = {}"
    using 1(3,4) 2(3,4) by (auto simp: Int_Un_distrib2)
  then show ?case
    using 1(1) 2(1,2) by (intro exI [of _ "J' \<union> J"] exI [of _ "A' \<union> A"] exI [of _ ev']) (simp add: freed_freed)
qed

section \<open>Discarding events\<close>

lemma freed_others:
  assumes ok: "events_ok (add_mset s M) F st" and "J \<subseteq> set (outgoing s)" and "A \<subseteq> queue_arg st ` set (outgoing s)"
  shows "others_kept M st (freed J A ev' st)"
proof -
  have a: "i \<notin> J \<and> queue_arg st i \<notin> A" if "t \<in># M" "i \<in> set (outgoing t)" for t i
    using queues_apart [OF ok that] assms(2,3) by blast
  have "queue_arg st i \<notin> set (handed st)" if "t \<in># M" "i \<in> set (tl (outgoing t))" for t i
    using ok waiting_entry(1) [of "add_mset s M" st t i] that by (simp add: events_ok_def)
  then have "structs (freed J A ev' st) (queue_arg st i) = structs st (queue_arg st i)" "queue_arg st i \<notin> set (handed st)"
    if "t \<in># M" "i \<in> set (tl (outgoing t))" for t i
    using that a [OF that(1) subsetD [OF tl_subset that(2)]] by auto
  then show ?thesis
    using a by (auto simp: others_kept_def)
qed

text \<open>The second entry is discarded.\<close>

lemma discard_one:
  assumes ok: "events_ok (add_mset s M) F st" and s: "outgoing s = h # a # q" and job: "jobs st a = Some job"
  shows "\<exists>st1 ev'. free_notify_struct (arg job) st = Some st1 \<and> free_job a st1 = freed {a} {queue_arg st a} ev' st \<and>
    events_ok (add_mset (s\<lparr>outgoing := h # q\<rparr>) M) F (freed {a} {queue_arg st a} ev' st) \<and> kept st ev'"
proof -
  have sq: "queue_ok s st"
    using queue_ok_of [OF ok] by simp
  have mem: "memory_ok st"
    using ok by (simp add: events_ok_def)
  have qa: "queue_entry st a"
    using queue_entry_waiting [OF sq] s by simp
  obtain ev' st1 where f: "free_notify_struct (arg job) st = Some st1" "free_job a st1 = freed {a} {queue_arg st a} ev' st"
    "memory_ok (freed {a} {queue_arg st a} ev' st)" "kept st ev'"
    using free_entry_ok [OF mem qa job] by blast
  define st2 where "st2 = freed {a} {queue_arg st a} ev' st"
  have "queue_arg st a \<notin> queue_arg st ` set q" "queue_arg st h \<noteq> queue_arg st a"
    using sq s by (simp_all add: queue_ok_def)
  then have ne: "i \<noteq> a \<and> queue_arg st i \<noteq> queue_arg st a" if "i \<in> set (h # q)" for i
    using that by (metis imageI set_ConsD)
  have arg: "queue_arg st2 i = queue_arg st i" if "i \<in> set (h # q)" for i
    using ne [OF that] by (simp add: st2_def)
  have not_handed: "queue_arg st a \<notin> set (handed st)"
    using sq s by (simp add: queue_ok_def)
  have "queue_ok (s\<lparr>outgoing := h # q\<rparr>) st2"
    unfolding queue_ok_def
  proof (intro conjI ballI)
    show "entry_ok st2 j" if "j \<in> set (outgoing (s\<lparr>outgoing := h # q\<rparr>))" for j
      using sq s that ne [of j] arg [of j] by (auto simp: queue_ok_def entry_ok_def st2_def)
    show "distinct (map (queue_arg st2) (outgoing (s\<lparr>outgoing := h # q\<rparr>)))"
      using sq s arg by (simp add: queue_ok_def cong: map_cong)
    show "queue_arg st2 j \<notin> set (handed st2)" "\<exists>n. structs st2 (queue_arg st2 j) = Some n \<and> nt_sid n = sid (s\<lparr>outgoing := h # q\<rparr>)"
      if "j \<in> set (tl (outgoing (s\<lparr>outgoing := h # q\<rparr>)))" for j
      using sq s that ne [of j] arg [of j] by (auto simp: queue_ok_def st2_def)
    show "\<not> active (s\<lparr>outgoing := h # q\<rparr>) \<longrightarrow> outgoing (s\<lparr>outgoing := h # q\<rparr>) = []"
      using sq s by (simp add: queue_ok_def)
  qed
  moreover have "queue_arg st2 ` set (h # q) \<inter> queue_arg st ` set (outgoing t) = {}" if "t \<in># M" for t
    using queues_apart(1) [OF ok that] s arg by force
  moreover have fl: "flight_ok (add_mset s M) F st"
    using ok by (simp add: events_ok_def)
  ultimately have "events_ok (add_mset (s\<lparr>outgoing := h # q\<rparr>) M) F st2"
    using f(3) freed_others [OF ok, of "{a}" "{queue_arg st a}" ev'] s arg [of h] not_handed
    by (intro events_ok_update [OF ok, where X = "{}"]) (auto simp: st2_def flight_ok_def restrict_map_def)
  then show ?thesis
    using f by (auto simp: st2_def)
qed

lemma maybeDiscardEvents_ok:
  "events_ok (add_mset s M) F st \<Longrightarrow>
   \<exists>q J A ev'. maybeDiscardEvents now (outgoing s) st = Some (q, freed J A ev' st) \<and>
     events_ok (add_mset (s\<lparr>outgoing := q\<rparr>) M) F (freed J A ev' st) \<and> kept st ev' \<and>
     A \<subseteq> queue_arg st ` set (tl (outgoing s)) \<and> J \<subseteq> set (tl (outgoing s)) \<and>
     (\<exists>k. q = take 1 (outgoing s) @ drop k (tl (outgoing s)))"
proof (induction "length (outgoing s)" arbitrary: s st rule: less_induct)
  case less
  have same: ?case if "maybeDiscardEvents now (outgoing s) st = Some (outgoing s, st)"
  proof -
    have "freed {} {} (events st) st = st" "s\<lparr>outgoing := outgoing s\<rparr> = s"
      by (simp_all add: freed_def)
    moreover have "outgoing s = take 1 (outgoing s) @ drop 0 (tl (outgoing s))"
      by (cases "outgoing s") simp_all
    ultimately show ?thesis
      using that less.prems
      by (intro exI [of _ "outgoing s"] exI [of _ "{}"] exI [of _ "events st"] conjI exI [of _ 0]) simp_all
  qed
  consider (short) "length (outgoing s) < 2" | (long) h a q where "outgoing s = h # a # q"
    by (metis One_nat_def Suc_1 length_Cons less_Suc_eq list.exhaust list.size(3) zero_less_Suc)
  then show ?case
  proof cases
    case short
    then have "maybeDiscardEvents now (outgoing s) st = Some (outgoing s, st)"
      by (cases "outgoing s" rule: remdups_adj.cases) simp_all
    then show ?thesis
      by (rule same)
  next
    case (long h a q)
    have "queue_entry st a"
      using queue_entry_waiting [OF queue_ok_of [OF less.prems, of s], of a] long by simp
    then obtain job n where jn: "jobs st a = Some job" "structs st (arg job) = Some n" "queue_arg st a = arg job"
      by (auto simp: queue_entry_def queue_arg_def)
    obtain st1 ev1 where d: "free_notify_struct (arg job) st = Some st1" "free_job a st1 = freed {a} {queue_arg st a} ev1 st"
      "events_ok (add_mset (s\<lparr>outgoing := h # q\<rparr>) M) F (freed {a} {queue_arg st a} ev1 st)" "kept st ev1"
      using discard_one [OF less.prems long jn(1)] by blast
    show ?thesis
    proof (cases "g_UpnpSdkEQMaxLen st < int (length (h # a # q)) \<or> g_UpnpSdkEQMaxAge st < now - ctime n")
      case False
      then have "maybeDiscardEvents now (outgoing s) st = Some (outgoing s, st)"
        using long jn by simp
      then show ?thesis
        by (rule same)
    next
      case True
      define st2 where "st2 = freed {a} {queue_arg st a} ev1 st"
      have step: "maybeDiscardEvents now (outgoing s) st = maybeDiscardEvents now (h # q) st2"
        using True long jn d(1,2) by (simp add: st2_def)
      have "length (outgoing (s\<lparr>outgoing := h # q\<rparr>)) < length (outgoing s)"
        using long by simp
      from less.hyps [OF this d(3)] obtain q' J A ev' k where r:
        "maybeDiscardEvents now (h # q) st2 = Some (q', freed J A ev' st2)"
        "events_ok (add_mset (s\<lparr>outgoing := q'\<rparr>) M) F (freed J A ev' st2)" "kept st2 ev'"
        "A \<subseteq> queue_arg st2 ` set q" "J \<subseteq> set q" "q' = h # drop k q"
        unfolding st2_def by auto
      have "a \<notin> set q"
        using queue_ok_of [OF less.prems, of s] long by (auto simp: queue_ok_def)
      then have "queue_arg st2 ` set q = queue_arg st ` set q"
        by (simp add: st2_def freed_image)
      then have "A \<union> {queue_arg st a} \<subseteq> queue_arg st ` set (tl (outgoing s))" "J \<union> {a} \<subseteq> set (tl (outgoing s))"
        using r(4,5) long by auto
      moreover have "kept st ev'"
        using r(3) d(4) by (simp add: st2_def)
      moreover have "q' = take 1 (outgoing s) @ drop (Suc k) (tl (outgoing s))"
        using r(6) long by simp
      ultimately show ?thesis
        using step r(1,2) unfolding st2_def freed_freed
        by (intro exI [of _ q'] exI [of _ "J \<union> {a}"] exI [of _ "A \<union> {queue_arg st a}"] exI [of _ ev'] conjI exI [of _ "Suc k"])
           (simp_all only:)
    qed
  qed
qed

section \<open>New memory\<close>

lemma events_ok_extend:
  assumes ok: "events_ok M F st" and mem: "memory_ok st1" and "fresh st \<le> fresh st1" and h: "handed st1 = handed st"
    and j: "\<And>i. i < fresh st \<Longrightarrow> jobs st1 i = jobs st i" and x: "\<And>i. i < fresh st \<Longrightarrow> structs st1 i = structs st i"
  shows "events_ok M F st1"
proof (rule events_okI)
  have parts: "entries_ok M st" "waiting_ok M st" "flight_ok M F st" "memory_ok st"
    using ok by (simp_all add: events_ok_def)
  have e: "entry_ok st i" if "s \<in># M" "i \<in> set (outgoing s)" for s i
    using parts(1) that by (simp add: entries_ok_def)
  then have arg: "queue_arg st1 i = queue_arg st i" if "s \<in># M" "i \<in> set (outgoing s)" for s i
    using j e [OF that] by (simp add: queue_arg_def entry_ok_def)
  have e1: "entry_ok st1 i" if "s \<in># M" "i \<in> set (outgoing s)" for s i
    using e [OF that] arg [OF that] j assms(3) by (simp add: entry_ok_def)
  have image: "queue_arg st1 ` set (outgoing s) = queue_arg st ` set (outgoing s)" if "s \<in># M" for s
    using arg that by (intro image_cong) auto
  have "distinct (map (queue_arg st1) (outgoing s))" if "s \<in># M" for s
    using parts(1) arg [OF that] that by (simp add: entries_ok_def cong: map_cong)
  then show "entries_ok M st1"
    using parts(1) e1 image by (simp add: entries_ok_def)
  show "waiting_ok M st1"
    unfolding waiting_ok_def
  proof (intro ballI)
    fix s i assume s: "s \<in># M" and i: "i \<in> set (tl (outgoing s))"
    have i2: "i \<in> set (outgoing s)"
      by (rule subsetD [OF tl_subset i])
    show "queue_arg st1 i \<notin> set (handed st1) \<and> (\<exists>n. structs st1 (queue_arg st1 i) = Some n \<and> nt_sid n = sid s)"
      using waiting_entry [OF parts(2) s i] arg [OF s i2] e [OF s i2] x h by (simp add: entry_ok_def)
  qed
  show "flight_ok M F st1"
  proof (rule flight_okI)
    show "F \<subseteq> set (handed st1)"
      using parts(3) h by (simp add: flight_ok_def)
    fix a assume "a \<in> F"
    then obtain n where n: "structs st a = Some n" "a \<in> set (handed st)"
      "\<And>s. s \<in># M \<Longrightarrow> sid s = nt_sid n \<Longrightarrow> outgoing s \<noteq> [] \<and> queue_arg st (hd (outgoing s)) = a"
      using flight_entry [OF parts(3)] by metis
    then have "structs st1 a = Some n"
      using x memory_handed [OF parts(4)] by simp
    moreover have "outgoing s \<noteq> [] \<and> queue_arg st1 (hd (outgoing s)) = a" if "s \<in># M" "sid s = nt_sid n" for s
      using n(3) [OF that] arg [OF that(1), of "hd (outgoing s)"] by simp
    ultimately show "\<exists>n. structs st1 a = Some n \<and>
      (\<forall>s\<in>#M. sid s = nt_sid n \<longrightarrow> outgoing s \<noteq> [] \<and> queue_arg st1 (hd (outgoing s)) = a)"
      by blast
  qed
qed (use mem ok in \<open>simp_all add: events_ok_def\<close>)

lemma memory_ok_fresh:
  assumes mem: "memory_ok st" and f: "fresh st \<le> f"
  shows "memory_ok (st\<lparr>jobs := x, fresh := f\<rparr>)"
proof -
  have "refs (st\<lparr>jobs := x, fresh := f\<rparr>) ev = refs st ev" for ev
    by (simp add: refs_def)
  then show ?thesis
    using memory_struct [OF mem] memory_event [OF mem] memory_handed [OF mem] f
    by (intro memory_okI) (fastforce intro: less_le_trans)+
qed

lemma memory_ok_pool:
  assumes "memory_ok st" and "a < fresh st"
  shows "memory_ok (st\<lparr>gSendThreadPool := tp, handed := (if P then handed st @ [a] else handed st)\<rparr>)"
proof -
  have "refs (st\<lparr>gSendThreadPool := tp, handed := h\<rparr>) ev = refs st ev" for ev h
    by (simp add: refs_def)
  then show ?thesis
    using memory_struct [OF assms(1)] memory_event [OF assms(1)] memory_handed [OF assms(1)] assms(2)
    by (intro memory_okI) (auto split: if_splits)
qed

lemma refs_below: "memory_ok st \<Longrightarrow> a \<in> refs st ev \<Longrightarrow> a < fresh st"
  using memory_struct [of st a] by (auto simp: refs_def)

text \<open>A new structure for an event, counted in its references.\<close>

definition add_struct :: "nat \<Rightarrow> event_data \<Rightarrow> notify_thread_struct \<Rightarrow> gena_state \<Rightarrow> gena_state" where
  "add_struct ev e n st =
     st\<lparr>events := (events st)(ev \<mapsto> e\<lparr>reference_count := reference_count e + 1\<rparr>), structs := (structs st)(fresh st \<mapsto> n),
        fresh := Suc (fresh st)\<rparr>"

lemma add_struct_memory:
  assumes mem: "memory_ok st" and e: "events st ev = Some e" and n: "nt_event n = ev"
  shows "memory_ok (add_struct ev e n st)" (is "memory_ok ?st")
proof -
  have new: "structs st (fresh st) = None"
    using memory_struct [OF mem, of "fresh st"] by (cases "structs st (fresh st)") auto
  have refs1: "refs ?st y = (if y = ev then insert (fresh st) (refs st ev) else refs st y)" for y
    using new n by (auto simp: refs_def add_struct_def)
  have card: "card (insert (fresh st) (refs st ev)) = Suc (card (refs st ev))"
    using refs_below [OF mem, of "fresh st" ev] mem by (intro card_insert_disjoint) auto
  have "a < fresh ?st \<and> events ?st (nt_event m) \<noteq> None" if "structs ?st a = Some m" for a m
    using memory_struct [OF mem, of a] n that by (auto simp: add_struct_def split: if_splits)
  moreover have "y < fresh ?st \<and> reference_count f = int (card (refs ?st y))" if f: "events ?st y = Some f" for y f
  proof (cases "y = ev")
    case True
    then have "reference_count f = reference_count e + 1"
      using f by (auto simp: add_struct_def)
    then show ?thesis
      using True card refs1 [of ev] memory_event [OF mem e] by (simp add: add_struct_def)
  next
    case False
    then have "events st y = Some f"
      using f by (simp add: add_struct_def)
    then show ?thesis
      using False refs1 [of y] memory_event [OF mem] by (simp add: add_struct_def less_SucI)
  qed
  moreover have "a < fresh ?st" if "a \<in> set (handed ?st)" for a
    using memory_handed [OF mem, of a] that by (simp add: add_struct_def)
  ultimately show ?thesis
    by (intro memory_okI) blast+
qed

lemma add_struct_ok:
  assumes "events_ok M F st" and "events st ev = Some e" and "nt_event n = ev"
  shows "events_ok M F (add_struct ev e n st)"
  using assms add_struct_memory [of st ev e n]
  by (intro events_ok_extend [OF assms(1)]) (auto simp: events_ok_def add_struct_def)

section \<open>A new entry\<close>

lemma pool_add_frame:
  assumes "pool_add pe j st = Some (st1, rc)"
  shows "\<exists>tp. st1 = st\<lparr>gSendThreadPool := tp, handed := (if rc = 0 then handed st @ [queue_arg st j] else handed st)\<rparr>"
  using assms by (auto simp: pool_add_def queue_arg_def Option.bind_eq_Some_conv)

lemma notify_job_simps [simp]:
  "arg (notify_job a) = a" "func (notify_job a) = notify_code" "priority (notify_job a) = MED_PRIORITY"
  by (simp_all add: notify_job_def TPJobSetPriority_def TPJobSetFreeFunction_def TPJobInit_def non_null_def)

lemma mark_stale_simps [simp]:
  "queue_arg (mark_stale j st) i = queue_arg st i" "structs (mark_stale j st) = structs st" "events (mark_stale j st) = events st"
  "fresh (mark_stale j st) = fresh st" "handed (mark_stale j st) = handed st" "HandleTable (mark_stale j st) = HandleTable st"
  "GlobalHndRWLock (mark_stale j st) = GlobalHndRWLock st" "memory_ok (mark_stale j st) = memory_ok st"
  "i \<noteq> j \<Longrightarrow> jobs (mark_stale j st) i = jobs st i" "(jobs (mark_stale j st) i = None) = (jobs st i = None)"
  by (simp_all add: mark_stale_def queue_arg_def map_option_case split: option.splits)

text \<open>
  A job for the structure \<open>a\<close>, which no queue has and which was never handed over, at the end of a queue; when it is the only
  entry it may have been given to the pool.
\<close>

lemma append_entry:
  assumes ok: "events_ok (add_mset s M) F st" and act: "active s"
    and a: "structs st a = Some n" "nt_sid n = sid s" "a \<notin> set (handed st)" "a < fresh st"
    and free: "\<And>t i. t \<in># add_mset s M \<Longrightarrow> i \<in> set (outgoing t) \<Longrightarrow> queue_arg st i \<noteq> a"
    and j: "fresh st \<le> j" "j < fresh st1"
    and st1: "jobs st1 j \<noteq> None" "queue_arg st1 j = a" "\<And>i. i < fresh st \<Longrightarrow> jobs st1 i = jobs st i" "structs st1 = structs st"
      "events st1 = events st" "memory_ok st1" "fresh st \<le> fresh st1" "set (handed st1) = set (handed st) \<union> X"
    and X: "X = {} \<or> X = {a} \<and> outgoing s = []"
  shows "events_ok (add_mset (s\<lparr>outgoing := outgoing s @ [j]\<rparr>) M) (F \<union> X) st1"
proof -
  have parts: "flight_ok (add_mset s M) F st" "queue_ok s st"
    using ok queue_ok_of [OF ok, of s] by (simp_all add: events_ok_def)
  have below: "i < fresh st" if "t \<in># add_mset s M" "i \<in> set (outgoing t)" for t i
    using queue_ok_of [OF ok that(1)] that(2) by (simp add: queue_ok_def entry_ok_def)
  have arg: "queue_arg st1 i = queue_arg st i" "jobs st1 i = jobs st i" if "t \<in># add_mset s M" "i \<in> set (outgoing t)" for t i
    using st1(3) below [OF that] by (simp_all add: queue_arg_def)
  have ne: "queue_arg st i \<noteq> a" "i \<noteq> j" if "t \<in># add_mset s M" "i \<in> set (outgoing t)" for t i
    using free [OF that] below [OF that] j(1) by auto
  have waiting: "queue_arg st i \<notin> set (handed st1)" if "t \<in># add_mset s M" "i \<in> set (tl (outgoing t))" for t i
    using queue_ok_of [OF ok that(1)] that(2) ne(1) [OF that(1) subsetD [OF tl_subset that(2)]] st1(8) X
    by (auto simp: queue_ok_def)
  have others: "others_kept M st st1"
    unfolding others_kept_def using st1(4,7) arg(2) waiting by (simp add: Ball_def) metis
  have "queue_ok (s\<lparr>outgoing := outgoing s @ [j]\<rparr>) st1"
    unfolding queue_ok_def
  proof (intro conjI ballI)
    show "entry_ok st1 i" if "i \<in> set (outgoing (s\<lparr>outgoing := outgoing s @ [j]\<rparr>))" for i
    proof (cases "i = j")
      case True
      then show ?thesis
        using st1(1,2,7) j(2) a(4) by (simp add: entry_ok_def)
    next
      case False
      then have i: "i \<in> set (outgoing s)"
        using that by simp
      then show ?thesis
        using parts(2) arg [of s i] st1(7) by (auto simp: queue_ok_def entry_ok_def)
    qed
    have "map (queue_arg st1) (outgoing s) = map (queue_arg st) (outgoing s)"
      using arg(1) [of s] by simp
    moreover have "a \<notin> queue_arg st ` set (outgoing s)"
      using ne(1) [of s] by auto
    ultimately show "distinct (map (queue_arg st1) (outgoing (s\<lparr>outgoing := outgoing s @ [j]\<rparr>)))"
      using parts(2) st1(2) by (simp add: queue_ok_def cong: map_cong image_cong)
    fix i assume i: "i \<in> set (tl (outgoing (s\<lparr>outgoing := outgoing s @ [j]\<rparr>)))"
    then have "outgoing s \<noteq> []"
      by auto
    then have "X = {}" "i = j \<or> i \<in> set (tl (outgoing s))"
      using X i by auto
    then show "queue_arg st1 i \<notin> set (handed st1)"
      "\<exists>n. structs st1 (queue_arg st1 i) = Some n \<and> nt_sid n = sid (s\<lparr>outgoing := outgoing s @ [j]\<rparr>)"
      using a st1(2,4,8) parts(2) arg(1) [of s i] subsetD [OF tl_subset, of i "outgoing s"] by (auto simp: queue_ok_def)
  qed (use act in simp)
  moreover have "queue_arg st1 ` set (outgoing s @ [j]) \<inter> queue_arg st ` set (outgoing t) = {}" if t: "t \<in># M" for t
  proof -
    have "queue_arg st1 i \<noteq> queue_arg st x" if "i \<in> set (outgoing s @ [j])" "x \<in> set (outgoing t)" for i x
    proof (cases "i \<in> set (outgoing s)")
      case True
      then show ?thesis
        using queues_apart(1) [OF ok t that(2) True] arg(1) [of s i] by simp
    next
      case False
      then show ?thesis
        using ne(1) [of t x] that t st1(2) by simp
    qed
    then show ?thesis
      by blast
  qed
  moreover have "queue_arg st1 (hd (outgoing s @ [j])) = x" if "outgoing s \<noteq> [] \<and> queue_arg st (hd (outgoing s)) = x" for x
    using that arg(1) [of s "hd (outgoing s)"] by simp
  ultimately show ?thesis
    using st1(4,6,8) others parts(1) X st1(2) a(1,2)
    by (intro events_ok_update [OF ok, where X = X]) (auto simp: flight_ok_def)
qed

lemma next_ok_all: "False \<notin> set ms \<Longrightarrow> next_ok ms = (True, tl ms) \<and> False \<notin> set (tl ms)"
  by (cases ms) auto

text \<open>Some entry of the queue refers to the event and cannot be freed by others: it waits or is in flight.\<close>

definition pinned :: "subscription \<Rightarrow> nat set \<Rightarrow> nat \<Rightarrow> gena_state \<Rightarrow> bool" where
  "pinned s F ev st \<longleftrightarrow>
     (\<exists>j\<in>set (outgoing s). (j \<in> set (tl (outgoing s)) \<or> queue_arg st j \<in> F) \<and>
        (\<exists>n. structs st (queue_arg st j) = Some n \<and> nt_event n = ev))"

definition same_table :: "gena_state \<Rightarrow> gena_state \<Rightarrow> bool" where
  "same_table st st1 \<longleftrightarrow> HandleTable st1 = HandleTable st \<and> GlobalHndRWLock st1 = GlobalHndRWLock st"

lemma same_table_simps [simp]:
  "same_table st st" "same_table st (freed J A ev' st1) = same_table st st1" "same_table st (mark_stale j st1) = same_table st st1"
  "same_table st (free_job j st1) = same_table st st1"
  "same_table st (st1\<lparr>jobs := x\<rparr>) = same_table st st1" "same_table st (st1\<lparr>gSendThreadPool := z\<rparr>) = same_table st st1"
  "same_table st (st1\<lparr>handed := u\<rparr>) = same_table st st1" "same_table st (st1\<lparr>fresh := f\<rparr>) = same_table st st1"
  by (simp_all add: same_table_def)

lemma notify_one_ok:
  assumes ok: "events_ok (add_mset s M) F st" and act: "active s" and ev: "events st ev = Some e" and ms: "False \<notin> set ms"
    and run: "notify_one now ms pe h ev s st = Some (ms1, s1, st1, ret, go_on)"
  shows "\<exists>X. s1 = s\<lparr>outgoing := outgoing s1\<rparr> \<and> False \<notin> set ms1 \<and> events_ok (add_mset s1 M) (F \<union> X) st1 \<and>
    set (handed st1) = set (handed st) \<union> X \<and> X \<subseteq> {fresh st..} \<and> fresh st \<le> fresh st1 \<and>
    same_table st st1 \<and> (go_on \<longrightarrow> pinned s1 (F \<union> X) ev st1)"
proof -
  define n where "n = \<lparr>nt_event = ev, nt_sid = sid s, ctime = now, device_handle = h\<rparr>"
  define a where "a = fresh st"
  define st2 where "st2 = add_struct ev e n st"
  have mem: "memory_ok st"
    using ok by (simp add: events_ok_def)
  have ok2: "events_ok (add_mset s M) F st2"
    unfolding st2_def by (rule add_struct_ok [OF ok ev]) (simp add: n_def)
  have a2: "structs st2 a = Some n" "fresh st2 = Suc a" "handed st2 = handed st" "jobs st2 = jobs st" "same_table st st2"
    by (simp_all add: st2_def add_struct_def a_def same_table_def)
  obtain q J A ev' where d: "maybeDiscardEvents now (outgoing s) st2 = Some (q, freed J A ev' st2)"
    "events_ok (add_mset (s\<lparr>outgoing := q\<rparr>) M) F (freed J A ev' st2)" "A \<subseteq> queue_arg st2 ` set (tl (outgoing s))"
    "\<exists>k. q = take 1 (outgoing s) @ drop k (tl (outgoing s))"
    using maybeDiscardEvents_ok [OF ok2] by metis
  define st3 where "st3 = freed J A ev' st2"
  have arg_below: "queue_arg st i < a" if "t \<in># add_mset s M" "i \<in> set (outgoing t)" for t i
    using queue_ok_of [OF ok that(1)] that(2) by (simp add: queue_ok_def entry_ok_def a_def)
  have "a \<notin> A"
    using d(3) arg_below [of s] subsetD [OF tl_subset] a2(4) by (force simp: queue_arg_def)
  then have a3: "structs st3 a = Some n" "a \<notin> set (handed st3)" "fresh st3 = Suc a" "set (handed st3) = set (handed st)" "same_table st st3"
    using a2 memory_handed [OF mem, of a] by (auto simp: st3_def a_def)
  obtain k where k: "q = take 1 (outgoing s) @ drop k (tl (outgoing s))"
    using d(4) by blast
  have q_sub: "set q \<subseteq> set (outgoing s)"
    using set_take_subset [of 1 "outgoing s"] set_drop_subset [of k "tl (outgoing s)"] tl_subset [of "outgoing s"]
    unfolding k by (simp add: subset_trans)
  have free: "queue_arg st3 i \<noteq> a" if "t \<in># add_mset (s\<lparr>outgoing := q\<rparr>) M" "i \<in> set (outgoing t)" for t i
  proof -
    have "entry_ok st3 i"
      using queue_ok_of [OF d(2) that(1)] that(2) by (simp add: queue_ok_def st3_def)
    then have "queue_arg st3 i = queue_arg st i"
      by (auto simp: entry_ok_def st3_def a2(4) queue_arg_def restrict_map_def split: if_splits)
    then show ?thesis
      using arg_below [of s i] arg_below [of t i] that q_sub by auto
  qed
  define j where "j = Suc a"
  define st4 where "st4 = st3\<lparr>jobs := (jobs st3)(j \<mapsto> notify_job a), fresh := Suc j\<rparr>"
  have mem4: "memory_ok st4"
    using d(2) a3(3) by (simp add: st4_def st3_def j_def memory_ok_fresh events_ok_def)
  have added: "events_ok (add_mset (s\<lparr>outgoing := q @ [j]\<rparr>) M) (F \<union> X) st5"
    if "memory_ok st5" "\<And>i. i \<noteq> j \<Longrightarrow> jobs st5 i = jobs st4 i" "jobs st5 j \<noteq> None" "queue_arg st5 j = a" "structs st5 = structs st4"
      "events st5 = events st4" "fresh st5 = fresh st4" "set (handed st5) = set (handed st4) \<union> X" "X = {} \<or> X = {a} \<and> q = []" for X st5
    using append_entry [OF d(2) [folded st3_def], of a n j st5 X] a3 free that act by (simp add: n_def st4_def j_def)
  have steps: "notify_one now ms pe h ev s st =
    (if q = [] then
       do { (st5, rc) \<leftarrow> pool_add pe j st4;
            Some (if rc \<noteq> 0 then (tl (tl (tl ms)), s\<lparr>outgoing := q @ [j]\<rparr>, st5, pool_error rc, False)
                  else (tl (tl (tl ms)), s\<lparr>outgoing := q @ [j]\<rparr>, mark_stale j st5, 0, True)) }
     else Some (tl (tl (tl ms)), s\<lparr>outgoing := q @ [j]\<rparr>, st4, 0, True))"
  proof -
    have "next_ok ms = (True, tl ms)" "next_ok (tl ms) = (True, tl (tl ms))" "next_ok (tl (tl ms)) = (True, tl (tl (tl ms)))"
      using next_ok_all [OF ms] next_ok_all [of "tl ms"] next_ok_all [of "tl (tl ms)"] by auto
    moreover have "add_reference ev st = Some (st\<lparr>events := (events st)(ev \<mapsto> e\<lparr>reference_count := reference_count e + 1\<rparr>)\<rparr>)"
      using ev by (simp add: add_reference_def)
    moreover have "new_struct n (st\<lparr>events := (events st)(ev \<mapsto> e\<lparr>reference_count := reference_count e + 1\<rparr>)\<rparr>) = (a, st2)"
      by (simp add: new_struct_def st2_def add_struct_def a_def)
    moreover have "new_job (notify_job a) st3 = (j, st4)"
      using a3(3) by (simp add: new_job_def st4_def j_def)
    ultimately show ?thesis
      using d(1) by (simp add: notify_one_def n_def [symmetric] st3_def [symmetric] Let_def cong: if_cong)
  qed
  have ms3: "False \<notin> set (tl (tl (tl ms)))"
    using ms by (auto dest!: subsetD [OF tl_subset])
  show ?thesis
  proof (cases "q = []")
    case False
    then have r: "st1 = st4" "s1 = s\<lparr>outgoing := q @ [j]\<rparr>" "ms1 = tl (tl (tl ms))"
      using run steps by simp_all
    have "events_ok (add_mset s1 M) (F \<union> {}) st4"
      unfolding r(2) by (rule added) (simp_all add: mem4 queue_arg_def, simp_all add: st4_def)
    moreover have "pinned s1 (F \<union> {}) ev st4"
      using False a3(1) by (auto simp: pinned_def r(2) st4_def queue_arg_def n_def intro!: bexI [of _ j])
    ultimately show ?thesis
      using r ms3 a3(4,5) by (intro exI [of _ "{}"]) (simp add: st4_def j_def a_def)
  next
    case True
    then obtain st5 rc where p: "pool_add pe j st4 = Some (st5, rc)"
      using run steps by (auto simp: Option.bind_eq_Some_conv)
    have arg4: "queue_arg st4 j = a"
      by (simp add: queue_arg_def st4_def)
    then obtain tp where st5: "st5 = st4\<lparr>gSendThreadPool := tp, handed := (if rc = 0 then handed st4 @ [a] else handed st4)\<rparr>"
      using pool_add_frame [OF p] by auto
    define X where "X = (if rc = 0 then {a} else {})"
    have r: "s1 = s\<lparr>outgoing := q @ [j]\<rparr>" "ms1 = tl (tl (tl ms))" "st1 = (if rc = 0 then mark_stale j st5 else st5)" "go_on \<longrightarrow> rc = 0"
      using run steps True p by (auto split: if_splits)
    have "memory_ok st5"
      unfolding st5 by (rule memory_ok_pool [OF mem4]) (simp add: st4_def j_def)
    then have "memory_ok st1" "\<And>i. i \<noteq> j \<Longrightarrow> jobs st1 i = jobs st4 i" "jobs st1 j \<noteq> None" "queue_arg st1 j = a"
      "structs st1 = structs st4" "events st1 = events st4" "fresh st1 = fresh st4" "set (handed st1) = set (handed st4) \<union> X"
      using arg4 by (auto simp: r(3) st5 X_def st4_def) (auto simp: mark_stale_def)
    then have "events_ok (add_mset s1 M) (F \<union> X) st1" "queue_arg st1 j = a" "structs st1 a = Some n"
      "set (handed st1) = set (handed st) \<union> X"
      using added [of st1 X] True a3(1,4) by (simp_all add: r(1) X_def st4_def)
    moreover from this have "go_on \<longrightarrow> pinned s1 (F \<union> X) ev st1"
      using r(4) True by (auto simp: pinned_def r(1) X_def n_def)
    moreover have "same_table st st1" "fresh st \<le> fresh st1"
      using a3(5) by (simp_all add: r(3) st5 st4_def j_def a_def)
    ultimately show ?thesis
      using r(1,2) ms3 by (intro exI [of _ X]) (auto simp: X_def a_def)
  qed
qed

section \<open>The subscriptions of a service\<close>

lemma next_active_mset: "next_active now ss = (ss1, n, r) \<Longrightarrow> mset ss = mset (skipped now ss) + mset ss1"
  by (induction ss arbitrary: ss1 n r) (auto simp: skipped_def split: if_splits prod.splits)

lemma next_active_live: "next_active now ss = (ss1, n, Some k) \<Longrightarrow> k < length ss1 \<and> active (ss1 ! k)"
  using next_active_some [of now ss ss1 n k] by (simp add: live_def)

text \<open>What is left of a service after a search: only the list and the counter of the subscriptions differ.\<close>

definition same_service :: "service_info \<Rightarrow> service_info \<Rightarrow> bool" where
  "same_service service service1 \<longleftrightarrow>
     (\<exists>l n. service1 = service\<lparr>subscriptionList := l, TotalSubscriptions := n\<rparr>)"

lemma same_service_refl [simp]: "same_service s s"
  unfolding same_service_def by (rule exI [of _ "subscriptionList s"], rule exI [of _ "TotalSubscriptions s"]) simp

lemma same_service_trans: "same_service a b \<Longrightarrow> same_service b c \<Longrightarrow> same_service a c"
  unfolding same_service_def by (elim exE) (intro exI, simp)

lemma same_service_put_sub [simp]: "same_service s (put_sub i x s)"
  unfolding same_service_def put_sub_def
  by (rule exI [of _ "(subscriptionList s)[i := x]"], rule exI [of _ "TotalSubscriptions s"]) simp

abbreviation subs_of :: "service_info \<Rightarrow> subscription multiset" where
  "subs_of service \<equiv> mset (subscriptionList service)"

lemma get_next_ok:
  assumes ok: "events_ok (subs_of service + N) F st" and run: "get_next now service i st = Some (service1, r, st1)"
  shows "\<exists>J A ev'. st1 = freed J A ev' st \<and> events_ok (subs_of service1 + N) F st1 \<and> kept st ev'" and "same_service service service1"
    and "i < length (subscriptionList service) \<Longrightarrow>
      i < length (subscriptionList service1) \<and> subscriptionList service1 ! i = subscriptionList service ! i"
    and "i < length (subscriptionList service) \<Longrightarrow> r = Some k \<Longrightarrow> k < length (subscriptionList service1) \<and> active (subscriptionList service1 ! k)"
proof -
  let ?l = "subscriptionList service"
  obtain ss n r1 where na: "next_active now (drop (Suc i) ?l) = (ss, n, r1)"
    by (metis prod.collapse)
  have s1: "service1 = service\<lparr>subscriptionList := take (Suc i) ?l @ ss, TotalSubscriptions := TotalSubscriptions service - n\<rparr>"
    "r = map_option (\<lambda>k. Suc i + k) r1" "freeSubscriptionList (skipped now (drop (Suc i) ?l)) st = Some st1"
    using run na by (auto simp: get_next_def GetNextSubscription_def Option.bind_eq_Some_conv)
  have m: "subs_of service + N = mset (skipped now (drop (Suc i) ?l)) + (subs_of service1 + N)"
  proof -
    have "mset ?l = mset (take (Suc i) ?l) + mset (drop (Suc i) ?l)"
      by (metis append_take_drop_id mset_append)
    then show ?thesis
      using next_active_mset [OF na] s1(1) by simp
  qed
  show "\<exists>J A ev'. st1 = freed J A ev' st \<and> events_ok (subs_of service1 + N) F st1 \<and> kept st ev'"
    using freeSubscriptionList_ok [OF ok [unfolded m]] s1(3) by auto
  show "same_service service service1"
    unfolding same_service_def using s1(1) by blast
  assume i: "i < length ?l"
  then show "i < length (subscriptionList service1) \<and> subscriptionList service1 ! i = ?l ! i"
    by (simp add: s1(1) nth_append)
  show "k < length (subscriptionList service1) \<and> active (subscriptionList service1 ! k)" if "r = Some k"
    using that s1(1,2) next_active_live [of now "drop (Suc i) ?l" ss n] na i by (auto simp: nth_append)
qed

lemma get_first_ok:
  assumes ok: "events_ok (subs_of service + N) F st" and run: "get_first now service st = Some (service1, r, st1)"
  shows "\<exists>J A ev'. st1 = freed J A ev' st \<and> events_ok (subs_of service1 + N) F st1 \<and> kept st ev'" and "same_service service service1"
    and "r = Some k \<Longrightarrow> k < length (subscriptionList service1) \<and> active (subscriptionList service1 ! k)"
proof -
  let ?l = "subscriptionList service"
  obtain ss n r1 where na: "next_active now ?l = (ss, n, r1)"
    by (metis prod.collapse)
  have s1: "service1 = service\<lparr>subscriptionList := ss, TotalSubscriptions := TotalSubscriptions service - n\<rparr>"
    "r = r1" "freeSubscriptionList (skipped now ?l) st = Some st1"
    using run na by (auto simp: get_first_def GetFirstSubscription_def Option.bind_eq_Some_conv)
  have m: "subs_of service + N = mset (skipped now ?l) + (subs_of service1 + N)"
    using next_active_mset [OF na] s1(1) by simp
  show "\<exists>J A ev'. st1 = freed J A ev' st \<and> events_ok (subs_of service1 + N) F st1 \<and> kept st ev'"
    using freeSubscriptionList_ok [OF ok [unfolded m]] s1(3) by auto
  show "same_service service service1"
    unfolding same_service_def using s1(1) by blast
  show "k < length (subscriptionList service1) \<and> active (subscriptionList service1 ! k)" if "r = Some k"
    using that s1(1,2) next_active_live na by simp
qed

text \<open>One subscription of a list, and the others.\<close>

lemma mset_nth_update:
  assumes "i < length xs"
  shows "\<exists>M. mset xs = add_mset (xs ! i) M \<and> mset (xs[i := y]) = add_mset y M"
  using assms by (intro exI [of _ "mset xs - {#xs ! i#}"]) (simp add: mset_update)

lemma pinned_live:
  assumes ok: "events_ok M F (freed J A ev' st)" and "s \<in># M" and "pinned s F ev st"
  shows "ev' ev \<noteq> None"
proof -
  obtain j n where j: "j \<in> set (outgoing s)" "j \<in> set (tl (outgoing s)) \<or> queue_arg st j \<in> F"
    "structs st (queue_arg st j) = Some n" "nt_event n = ev"
    using assms(3) by (auto simp: pinned_def)
  let ?st = "freed J A ev' st"
  have q: "queue_ok s ?st" "flight_ok M F ?st" "memory_ok ?st"
    using queue_ok_of [OF ok assms(2)] ok by (simp_all add: events_ok_def)
  have "entry_ok ?st j"
    using q(1) j(1) by (simp add: queue_ok_def)
  then have arg: "queue_arg ?st j = queue_arg st j"
    by (auto simp: entry_ok_def queue_arg_def restrict_map_def split: if_splits)
  from j(2) have "structs ?st (queue_arg st j) \<noteq> None"
  proof
    assume "j \<in> set (tl (outgoing s))"
    then show ?thesis
      using q(1) arg by (auto simp: queue_ok_def)
  next
    assume "queue_arg st j \<in> F"
    from flight_entry [OF q(2) this] show ?thesis
      by auto
  qed
  then have "structs ?st (queue_arg st j) = Some n"
    using j(3) by (auto simp: restrict_map_def split: if_splits)
  then show ?thesis
    using memory_struct [OF q(3)] j(4) by auto
qed

lemma notify_loop_ok:
  "events_ok (subs_of service + N) F st \<Longrightarrow> False \<notin> set ms \<Longrightarrow>
   (\<forall>i. r = Some i \<longrightarrow> events st ev \<noteq> None \<and> active (subscriptionList service ! i)) \<Longrightarrow>
   notify_loop now ms pes h ev service r st = Some (service2, st2, ret) \<Longrightarrow>
   \<exists>X. events_ok (subs_of service2 + N) (F \<union> X) st2 \<and> set (handed st2) = set (handed st) \<union> X \<and> X \<subseteq> {fresh st..} \<and>
     same_table st st2 \<and> same_service service service2"
proof (induction now ms pes h ev service r st arbitrary: F rule: notify_loop.induct)
  case (1 now ms pes h ev service st)
  then show ?case
    by (intro exI [of _ "{}"]) (simp add: notify_loop.simps)
next
  case (2 now ms pes h ev service i st)
  let ?l = "subscriptionList service"
  obtain pe pes1 where pe: "next_add pes = (pe, pes1)"
    by (metis prod.collapse)
  have i: "i < length ?l"
    using 2(5) by (simp add: notify_loop.simps split: if_splits)
  obtain ms1 s st1 ret1 go_on where one: "notify_one now ms pe h ev (?l ! i) st = Some (ms1, s, st1, ret1, go_on)"
    using 2(5) i pe by (auto simp: notify_loop.simps split: option.splits)
  obtain M where M: "mset ?l = add_mset (?l ! i) M" "mset (?l[i := s]) = add_mset s M"
    using mset_nth_update [OF i] by metis
  obtain e where e: "events st ev = Some e"
    using 2(4) by auto
  have ok: "events_ok (add_mset (?l ! i) (M + N)) F st"
    using 2(2) M(1) by simp
  obtain X where X: "events_ok (add_mset s (M + N)) (F \<union> X) st1" "False \<notin> set ms1" "set (handed st1) = set (handed st) \<union> X"
    "X \<subseteq> {fresh st..}" "fresh st \<le> fresh st1" "same_table st st1" "go_on \<longrightarrow> pinned s (F \<union> X) ev st1"
    using notify_one_ok [OF ok _ e 2(3) one] 2(4) by auto
  define service1 where "service1 = put_sub i s service"
  have s1: "subs_of service1 + N = add_mset s (M + N)" "same_service service service1" "i < length (subscriptionList service1)"
    "subscriptionList service1 ! i = s"
    using M(2) i by (simp_all add: service1_def) (simp_all add: put_sub_def)
  show ?case
  proof (cases go_on)
    case False
    then have "service2 = service1" "st2 = st1"
      using 2(5) i pe one by (simp_all add: notify_loop.simps service1_def Let_def)
    then show ?thesis
      using X s1(1,2) by (intro exI [of _ X]) simp
  next
    case True
    obtain service3 r st3 where nx: "get_next now service1 i st1 = Some (service3, r, st3)"
      "notify_loop now ms1 pes1 h ev service3 r st3 = Some (service2, st2, ret)"
      using 2(5) i pe one True by (auto simp: notify_loop.simps service1_def Let_def split: option.splits)
    note g = get_next_ok [OF X(1) [folded s1(1)] nx(1)]
    obtain J A ev' where st3: "st3 = freed J A ev' st1" "events_ok (subs_of service3 + N) (F \<union> X) st3"
      using g(1) by blast
    have "s \<in># subs_of service3 + N"
      using g(3) s1(3,4) by (metis nth_mem_mset union_iff)
    then have live: "events st3 ev \<noteq> None"
      using pinned_live [of "subs_of service3 + N" "F \<union> X" J A ev' st1 s ev] st3 X(7) True by simp
    have act: "\<forall>k. r = Some k \<longrightarrow> events st3 ev \<noteq> None \<and> active (subscriptionList service3 ! k)"
      using g(4) s1(3) live by blast
    obtain Y where Y: "events_ok (subs_of service2 + N) (F \<union> X \<union> Y) st2" "set (handed st2) = set (handed st3) \<union> Y"
      "Y \<subseteq> {fresh st3..}" "same_table st3 st2" "same_service service3 service2"
      using 2(1) [OF _ pe [symmetric] one refl refl refl refl service1_def _ nx(1) refl refl st3(2) X(2) act nx(2)] i True by auto
    show ?thesis
      using Y X st3(1) s1(2) g(2)
      by (intro exI [of _ "X \<union> Y"]) (auto simp: Un_assoc same_table_def intro: same_service_trans)
  qed
qed

lemma remove_first_mset:
  "remove_first k ss = (ss1, n) \<Longrightarrow> mset ss = mset (case find (\<lambda>s. sid s = k) ss of None \<Rightarrow> [] | Some s \<Rightarrow> [s]) + mset ss1"
  by (induction ss arbitrary: ss1 n) (auto split: if_splits prod.splits)

lemma RemoveSubscriptionSID_mset:
  "subs_of service = mset (with_sid k service) + subs_of (RemoveSubscriptionSID k service)"
  "same_service service (RemoveSubscriptionSID k service)"
proof -
  obtain ss n where r: "remove_first k (subscriptionList service) = (ss, n)"
    by (metis prod.collapse)
  show "subs_of service = mset (with_sid k service) + subs_of (RemoveSubscriptionSID k service)"
    using remove_first_mset [OF r] r by (simp add: RemoveSubscriptionSID_def with_sid_def)
  show "same_service service (RemoveSubscriptionSID k service)"
    unfolding same_service_def using r by (auto simp: RemoveSubscriptionSID_def)
qed

lemma remove_sid_ok:
  assumes ok: "events_ok (subs_of service + N) F st" and run: "remove_sid k service st = Some (service1, st1)"
  shows "\<exists>J A ev'. st1 = freed J A ev' st \<and> events_ok (subs_of service1 + N) F st1" and "same_service service service1"
proof -
  have e: "service1 = RemoveSubscriptionSID k service" "freeSubscriptionList (with_sid k service) st = Some st1"
    using run by (auto simp: remove_sid_def Option.bind_eq_Some_conv)
  have "events_ok (mset (with_sid k service) + (subs_of service1 + N)) F st"
    using ok RemoveSubscriptionSID_mset(1) [of service k] by (simp add: e(1) add.assoc)
  then show "\<exists>J A ev'. st1 = freed J A ev' st \<and> events_ok (subs_of service1 + N) F st1"
    using freeSubscriptionList_ok e(2) by (metis option.inject)
  show "same_service service service1"
    using RemoveSubscriptionSID_mset(2) e(1) by simp
qed

lemma remove_sid_frees:
  assumes "events_ok (subs_of service + N) F st"
  shows "\<exists>J A ev'. remove_sid k service st = Some (RemoveSubscriptionSID k service, freed J A ev' st) \<and> A \<inter> set (handed st) = {}"
proof -
  have "events_ok (mset (with_sid k service) + (subs_of (RemoveSubscriptionSID k service) + N)) F st"
    using assms RemoveSubscriptionSID_mset(1) [of service k] by (simp add: add.assoc)
  then obtain J A ev' where "freeSubscriptionList (with_sid k service) st = Some (freed J A ev' st)" "A \<inter> set (handed st) = {}"
    using freeSubscriptionList_ok by blast
  then show ?thesis
    by (intro exI [of _ J] exI [of _ A] exI [of _ ev']) (simp add: remove_sid_def)
qed

lemma find_sid: "find (\<lambda>s. sid s = k) ss = Some s \<Longrightarrow> s \<in> set ss \<and> sid s = k"
  by (induction ss) (auto split: if_splits)

lemma get_sid_ok:
  assumes ok: "events_ok (subs_of service + N) F st" and run: "get_sid now k service st = Some (service1, sub, st1)"
  shows "\<exists>J A ev'. st1 = freed J A ev' st \<and> events_ok (subs_of service1 + N) F st1" and "same_service service service1"
    and "sub = Some s \<Longrightarrow> st1 = st \<and> service1 = service \<and> find (\<lambda>s. sid s = k) (subscriptionList service) = Some s"
proof -
  have same: "\<exists>J A ev'. st = freed J A ev' st"
    by (intro exI [of _ "{}"] exI [of _ "events st"]) (simp add: freed_def)
  have "(\<exists>J A ev'. st1 = freed J A ev' st \<and> events_ok (subs_of service1 + N) F st1) \<and> same_service service service1 \<and>
    (\<forall>s. sub = Some s \<longrightarrow> st1 = st \<and> service1 = service \<and> find (\<lambda>s. sid s = k) (subscriptionList service) = Some s)"
  proof (cases "find (\<lambda>s. sid s = k) (subscriptionList service)")
    case None
    then show ?thesis
      using run ok same by (auto simp: get_sid_def GetSubscriptionSID_def with_sid_def)
  next
    case (Some x)
    show ?thesis
    proof (cases "expired now x")
      case False
      then show ?thesis
        using run ok same Some by (auto simp: get_sid_def GetSubscriptionSID_def with_sid_def)
    next
      case True
      then have "remove_sid k service st = Some (service1, st1)" "sub = None"
        using run Some
        by (auto simp: get_sid_def GetSubscriptionSID_def with_sid_def remove_sid_def Option.bind_eq_Some_conv)
      then show ?thesis
        using remove_sid_ok [OF ok] by simp
    qed
  qed
  then show "\<exists>J A ev'. st1 = freed J A ev' st \<and> events_ok (subs_of service1 + N) F st1" "same_service service service1"
    "sub = Some s \<Longrightarrow> st1 = st \<and> service1 = service \<and> find (\<lambda>s. sid s = k) (subscriptionList service) = Some s"
    by auto
qed

lemma get_sid_frees:
  assumes ok: "events_ok (subs_of service + N) F st"
  shows "\<exists>service1 sub J A ev'. get_sid now k service st = Some (service1, sub, freed J A ev' st) \<and> A \<inter> set (handed st) = {}"
proof (cases "filter (expired now) (with_sid k service) = []")
  case True
  have "st = freed {} {} (events st) st"
    by (simp add: freed_def)
  then have "get_sid now k service st = Some (fst (GetSubscriptionSID now k service), snd (GetSubscriptionSID now k service), freed {} {} (events st) st)"
    using True by (simp add: get_sid_def split: prod.split)
  then show ?thesis
    by blast
next
  case False
  then have "filter (expired now) (with_sid k service) = with_sid k service"
    by (auto simp: with_sid_def split: option.splits)
  moreover obtain J A ev' where r: "remove_sid k service st = Some (RemoveSubscriptionSID k service, freed J A ev' st)" "A \<inter> set (handed st) = {}"
    using remove_sid_frees [OF ok, of k] by blast
  ultimately have "freeSubscriptionList (filter (expired now) (with_sid k service)) st = Some (freed J A ev' st)"
    by (auto simp: remove_sid_def Option.bind_eq_Some_conv)
  then show ?thesis
    using r(2) by (intro exI [of _ "fst (GetSubscriptionSID now k service)"] exI [of _ "snd (GetSubscriptionSID now k service)"] exI [of _ J]
      exI [of _ A] exI [of _ ev']) (simp add: get_sid_def split: prod.split)
qed

lemma find_index:
  "find (\<lambda>s. P s) ss = Some s \<Longrightarrow> \<exists>i. find (\<lambda>i. P (ss ! i)) [0..<length ss] = Some i \<and> i < length ss \<and> ss ! i = s"
proof -
  assume "find (\<lambda>s. P s) ss = Some s"
  then obtain i where i: "i < length ss" "P (ss ! i)" "s = ss ! i" "\<forall>j<i. \<not> P (ss ! j)"
    by (auto simp: find_Some_iff)
  then have "find (\<lambda>i. P (ss ! i)) [0..<length ss] = Some i"
    by (auto simp: find_Some_iff)
  then show ?thesis
    using i by blast
qed

lemma update_sid_mset:
  assumes "find (\<lambda>s. sid s = k) (subscriptionList service) = Some s"
  shows "\<exists>M. subs_of service = add_mset s M \<and> subs_of (update_sid k s1 service) = add_mset s1 M"
    and "same_service service (update_sid k s1 service)"
proof -
  obtain i where i: "sid_index k service = Some i" "i < length (subscriptionList service)" "subscriptionList service ! i = s"
    using find_index [OF assms] by (auto simp: sid_index_def)
  then show "same_service service (update_sid k s1 service)"
    by (simp add: update_sid_def)
  show "\<exists>M. subs_of service = add_mset s M \<and> subs_of (update_sid k s1 service) = add_mset s1 M"
    using mset_nth_update [OF i(2), of s1] i by (simp add: update_sid_def put_sub_def)
qed

section \<open>The end of a delivery\<close>

lemma free_struct_ok:
  assumes ok: "events_ok M F st" and n: "structs st a = Some n" and h: "a \<in> set (handed st)" and f: "a \<notin> F"
  shows "\<exists>ev'. free_notify_struct a st = Some (freed {} {a} ev' st) \<and> events_ok M F (freed {} {a} ev' st)"
proof -
  obtain ev' where e: "free_notify_struct a st = Some (st\<lparr>events := ev', structs := (structs st)(a := None)\<rparr>)"
    "memory_ok (st\<lparr>events := ev', structs := (structs st)(a := None)\<rparr>)"
    using free_notify_struct_ok [OF _ n] ok by (auto simp: events_ok_def)
  have eq: "st\<lparr>events := ev', structs := (structs st)(a := None)\<rparr> = freed {} {a} ev' st"
    by (simp add: freed_def restrict_map_def fun_eq_iff fun_upd_def)
  let ?st = "freed {} {a} ev' st"
  have arg: "queue_arg ?st = queue_arg st"
    by (simp add: fun_eq_iff)
  have parts: "entries_ok M st" "waiting_ok M st" "flight_ok M F st" "sids_ok M"
    using ok by (simp_all add: events_ok_def)
  have "entries_ok M ?st"
    using parts(1) unfolding entries_ok_def arg by (simp add: entry_ok_def)
  moreover have "waiting_ok M ?st"
    using parts(2) h unfolding waiting_ok_def arg by (auto simp: restrict_map_def)
  moreover have "flight_ok M F ?st"
    using parts(3) f unfolding flight_ok_def arg by (auto simp: restrict_map_def)
  ultimately show ?thesis
    using e parts(4) by (auto simp: eq events_ok_def)
qed

lemma outgoing_of: "outgoing (s\<lparr>ToSendEventKey := key, outgoing := q\<rparr>) = q"
  by simp

text \<open>The head leaves the queue, the next entry may start to fly.\<close>

lemma advance_queue_ok:
  assumes ok: "events_ok (add_mset s M) F st" and s: "outgoing s = j # q"
    and run: "advance_queue pe (outgoing s) st = Some (q1, st1)"
  shows "\<exists>X. q1 = q \<and> events_ok (add_mset (s\<lparr>ToSendEventKey := key, outgoing := q\<rparr>) M) (F - {queue_arg st j} \<union> X) st1 \<and>
    set (handed st1) = set (handed st) \<union> X \<and> X \<inter> set (handed st) = {} \<and> same_table st st1 \<and> structs st1 = structs st"
proof -
  let ?s = "s\<lparr>ToSendEventKey := key, outgoing := q\<rparr>"
  let ?a = "queue_arg st j"
  have sq: "queue_ok s st"
    using queue_ok_of [OF ok] by simp
  note h = queue_heads [OF sq s]
  have mem: "memory_ok st" and fl: "flight_ok (add_mset s M) F st"
    using ok by (simp_all add: events_ok_def)
  obtain X where X: "q1 = q" "memory_ok st1" "fresh st1 = fresh st" "structs st1 = structs st" "same_table st st1"
    "\<And>i. i \<noteq> j \<Longrightarrow> queue_arg st1 i = queue_arg st i" "\<And>i. i \<noteq> j \<Longrightarrow> (jobs st1 i = None) = (jobs st i = None)"
    "\<And>i. i \<noteq> j \<Longrightarrow> i \<notin> set q \<Longrightarrow> jobs st1 i = jobs st i"
    "set (handed st1) = set (handed st) \<union> X" "X = {} \<or> q \<noteq> [] \<and> X = {queue_arg st (hd q)}"
  proof (cases q)
    case Nil
    then have "q1 = q" "st1 = free_job j st"
      using run s by (simp_all add: advance_queue_def)
    then show ?thesis
      using mem by (intro that [of "{}"]) (auto simp: free_job_def queue_arg_def)
  next
    case (Cons b q2)
    obtain st2 rc where p: "pool_add pe b (free_job j st) = Some (st2, rc)" "q1 = q" "st1 = mark_stale b st2"
      using run s Cons by (auto simp: advance_queue_def Let_def Option.bind_eq_Some_conv)
    have b: "queue_arg (free_job j st) b = queue_arg st b" "b \<noteq> j" "entry_ok st b"
      using h(2) Cons sq s by (auto simp: queue_arg_def free_job_def queue_ok_def)
    obtain tp where st2: "st2 = (free_job j st)\<lparr>gSendThreadPool := tp,
        handed := (if rc = 0 then handed (free_job j st) @ [queue_arg st b] else handed (free_job j st))\<rparr>"
      using pool_add_frame [OF p(1), unfolded b(1)] by blast
    have "memory_ok (free_job j st)" "queue_arg st b < fresh (free_job j st)"
      using mem b(3) by (simp_all add: free_job_def entry_ok_def)
    then have m: "memory_ok st2"
      unfolding st2 by (rule memory_ok_pool)
    have "(jobs (mark_stale b st2) i = None) = (jobs st i = None)" if "i \<noteq> j" for i
      using that by (simp only: mark_stale_simps) (simp add: st2 free_job_def)
    then show ?thesis
      using p(2) Cons m by (intro that [of "if rc = 0 then {queue_arg st b} else {}"]) (auto simp: p(3) st2)
  qed
  have args: "queue_arg st1 i = queue_arg st i" "i \<noteq> j" if "i \<in> set q" for i
    using X(6) [of i] h(2) that by auto
  have x_new: "X \<inter> set (handed st) = {}"
    using X(10) sq s by (cases q) (auto simp: queue_ok_def)
  have "queue_ok ?s st1"
    unfolding queue_ok_def
  proof (intro conjI ballI)
    show "entry_ok st1 i" if "i \<in> set (outgoing ?s)" for i
      using that sq s args [of i] X(3,7) by (auto simp: queue_ok_def entry_ok_def)
    show "distinct (map (queue_arg st1) (outgoing ?s))"
      using h(4) args(1) by (simp cong: map_cong)
    fix i assume i: "i \<in> set (tl (outgoing ?s))"
    then have iq: "i \<in> set q"
      using tl_subset [of q] by auto
    have "q \<noteq> [] \<Longrightarrow> queue_arg st i \<noteq> queue_arg st (hd q)"
      using i h(4) by (cases q) (simp, metis distinct.simps(2) image_eqI list.map(2) list.sel(1,3) list.set_map outgoing_of)
    then show "queue_arg st1 i \<notin> set (handed st1)"
      using sq s iq X(9,10) args(1) [OF iq] by (auto simp: queue_ok_def)
    show "\<exists>n. structs st1 (queue_arg st1 i) = Some n \<and> nt_sid n = sid ?s"
      using sq s iq X(4) args(1) [OF iq] by (simp add: queue_ok_def)
  qed (use sq s in \<open>simp add: queue_ok_def\<close>)
  moreover have "others_kept M st st1"
  proof -
    have "jobs st1 i = jobs st i" if "t \<in># M" "i \<in> set (outgoing t)" for t i
      using queues_apart(2) [OF ok that] s X(8) [of i] by auto
    moreover have "queue_arg st i \<notin> set (handed st1)" if t: "t \<in># M" "i \<in> set (tl (outgoing t))" for t i
    proof -
      have "queue_arg st i \<notin> set (handed st)"
        using queue_ok_of [OF ok, of t] t by (simp add: queue_ok_def)
      moreover have "q \<noteq> [] \<Longrightarrow> queue_arg st i \<noteq> queue_arg st (hd q)"
        using queues_apart(1) [OF ok t(1) subsetD [OF tl_subset t(2)]] s by simp
      ultimately show ?thesis
        using X(9,10) by auto
    qed
    ultimately show ?thesis
      using X(3,4) by (simp add: others_kept_def)
  qed
  moreover have "queue_arg st1 ` set q \<inter> queue_arg st ` set (outgoing t) = {}" if t: "t \<in># M" for t
  proof -
    have "queue_arg st1 i \<noteq> queue_arg st x" if "i \<in> set q" "x \<in> set (outgoing t)" for i x
      using queues_apart(1) [OF ok t that(2), of i] s that(1) args(1) [OF that(1)] by auto
    then show ?thesis
      by blast
  qed
  moreover have "queue_arg st1 (hd q) = b" "\<exists>n. structs st1 b = Some n \<and> nt_sid n = sid s" "q \<noteq> []" if "b \<in> X" for b
  proof -
    show q: "q \<noteq> []"
      using that X(10) by auto
    then have b: "b = queue_arg st (hd q)" "hd q \<in> set q"
      using that X(10) by auto
    then show "queue_arg st1 (hd q) = b"
      using args(1) by simp
    show "\<exists>n. structs st1 b = Some n \<and> nt_sid n = sid s"
      using b sq s X(4) by (simp add: queue_ok_def)
  qed
  ultimately have "events_ok (add_mset ?s M) (F - {?a} \<union> X) st1"
    using X(2,4,9) fl s by (intro events_ok_update [OF ok, where X = X]) (auto simp: flight_ok_def)
  then show ?thesis
    using X(1,4,5,9) x_new by (intro exI [of _ X]) simp
qed

end
