(* ===== verification/GenaSystem.thy ===== *)
theory GenaSystem
  imports GenaQueues
begin

text \<open>
  The device as a whole: the calls of the application, the requests of control points, the jobs of the thread pool, in any order and
  with the sections of the jobs interleaved. The invariant of the theory \<open>GenaQueues\<close> holds in every reachable state.
\<close>

section \<open>The table\<close>

definition slot_subs :: "Handle_Info option \<Rightarrow> subscription list" where
  "slot_subs y =
     (case y of
        None \<Rightarrow> []
      | Some x \<Rightarrow> if HType x = HND_DEVICE then concat (map subscriptionList (serviceList (ServiceTable x))) else [])"

definition all_subs :: "gena_state \<Rightarrow> subscription multiset" where
  "all_subs st = mset (concat (map slot_subs (HandleTable st)))"

lemma events_ok_cong:
  assumes "jobs st1 = jobs st" and "structs st1 = structs st" and "events st1 = events st" and "fresh st1 = fresh st"
    and "handed st1 = handed st"
  shows "events_ok M F st1 = events_ok M F st"
proof -
  have "queue_arg st1 = queue_arg st" "refs st1 = refs st"
    using assms by (simp_all add: queue_arg_def refs_def fun_eq_iff)
  then show ?thesis
    using assms
    by (simp add: events_ok_def memory_ok_def entries_ok_def waiting_ok_def flight_ok_def entry_ok_def)
qed

text \<open>States that differ in the table and the settings only.\<close>

definition same_heap :: "gena_state \<Rightarrow> gena_state \<Rightarrow> bool" where
  "same_heap st st1 \<longleftrightarrow> jobs st1 = jobs st \<and> structs st1 = structs st \<and> events st1 = events st \<and> fresh st1 = fresh st \<and>
     handed st1 = handed st"

lemma same_heap_ok: "same_heap st st1 \<Longrightarrow> events_ok M F st1 = events_ok M F st"
  by (rule events_ok_cong) (simp_all add: same_heap_def)

lemma same_heap_simps [simp]:
  "same_heap st st" "same_heap st (st1\<lparr>GlobalHndRWLock := l\<rparr>) = same_heap st st1" "same_heap st (set_slot h x st1) = same_heap st st1"
  "same_heap st (put_service h s t st1) = same_heap st st1"
  by (auto simp: same_heap_def set_slot_def put_service_def split: option.splits)

lemma slot_set_slot:
  assumes "length (HandleTable st) = nat NUM_HANDLE" and "1 \<le> h" and "h < NUM_HANDLE"
  shows "slot g (set_slot h y st) = (if g = h then y else slot g st)"
  using assms by (auto simp: slot_def set_slot_def NUM_HANDLE_def nth_list_update)

lemma slot_subs_split:
  assumes "length (HandleTable st) = nat NUM_HANDLE" and "1 \<le> h" and "h < NUM_HANDLE"
  shows "\<exists>N. all_subs st = mset (slot_subs (slot h st)) + N \<and> (\<forall>y. all_subs (set_slot h y st) = mset (slot_subs y) + N)"
proof -
  have i: "nat h < length (HandleTable st)"
    using assms by (simp add: NUM_HANDLE_def)
  let ?t = "HandleTable st"
  have t: "?t = take (nat h) ?t @ slot h st # drop (Suc (nat h)) ?t"
    using i assms(2,3) id_take_nth_drop [OF i] by (simp add: slot_def)
  have u: "?t[nat h := y] = take (nat h) ?t @ y # drop (Suc (nat h)) ?t" for y
    using i by (simp add: upd_conv_take_nth_drop)
  let ?N = "mset (concat (map slot_subs (take (nat h) ?t))) + mset (concat (map slot_subs (drop (Suc (nat h)) ?t)))"
  have "all_subs st = mset (slot_subs (slot h st)) + ?N"
    unfolding all_subs_def by (subst t) simp
  moreover have "all_subs (set_slot h y st) = mset (slot_subs y) + ?N" for y
    by (simp add: all_subs_def set_slot_def u)
  ultimately show ?thesis
    by blast
qed

lemma replace_first_split:
  assumes "x \<in> set xs"
  shows "\<exists>pre post. xs = pre @ x # post \<and> (\<forall>y. replace_first x y xs = pre @ y # post)"
  using assms
proof (induction xs)
  case (Cons z zs)
  show ?case
  proof (cases "z = x")
    case True
    then show ?thesis
      by (intro exI [of _ "[]"] exI [of _ zs]) simp
  next
    case False
    then obtain pre post where "zs = pre @ x # post" "\<forall>y. replace_first x y zs = pre @ y # post"
      using Cons by auto
    then show ?thesis
      using False by (intro exI [of _ "z # pre"] exI [of _ post]) simp
  qed
qed simp

text \<open>A service of a device, and everything else in the table.\<close>

definition has_service :: "int \<Rightarrow> service_info \<Rightarrow> gena_state \<Rightarrow> bool" where
  "has_service h service st \<longleftrightarrow> length (HandleTable st) = nat NUM_HANDLE \<and> 1 \<le> h \<and> h < NUM_HANDLE \<and>
     (\<exists>x. slot h st = Some x \<and> HType x = HND_DEVICE \<and> service \<in> set (serviceList (ServiceTable x)))"

lemma put_service_subs:
  assumes "has_service h old st"
  shows "\<exists>N. all_subs st = subs_of old + N \<and> (\<forall>new. all_subs (put_service h old new st) = subs_of new + N)"
    and "has_service h new (put_service h old new st)"
proof -
  have len: "length (HandleTable st) = nat NUM_HANDLE" and h: "1 \<le> h" "h < NUM_HANDLE"
    using assms by (simp_all add: has_service_def)
  obtain x where x: "slot h st = Some x" "HType x = HND_DEVICE" "old \<in> set (serviceList (ServiceTable x))"
    using assms by (auto simp: has_service_def)
  obtain pre post where p: "serviceList (ServiceTable x) = pre @ old # post"
    "\<And>y. replace_first old y (serviceList (ServiceTable x)) = pre @ y # post"
    using replace_first_split [OF x(3)] by blast
  obtain N where N: "all_subs st = mset (slot_subs (slot h st)) + N" "\<And>y. all_subs (set_slot h y st) = mset (slot_subs y) + N"
    using slot_subs_split [OF len h] by blast
  have put: "put_service h old y st = set_slot h (Some (x\<lparr>ServiceTable := (ServiceTable x)\<lparr>serviceList := pre @ y # post\<rparr>\<rparr>)) st" for y
    by (simp add: put_service_def x(1) p(2))
  let ?N = "mset (concat (map subscriptionList (pre @ post))) + N"
  have "all_subs st = subs_of old + ?N"
    by (simp add: N(1) x(1,2) slot_subs_def p(1))
  moreover have "all_subs (put_service h old y st) = subs_of y + ?N" for y
    by (simp add: put N(2) x(2) slot_subs_def)
  ultimately show "\<exists>N. all_subs st = subs_of old + N \<and> (\<forall>new. all_subs (put_service h old new st) = subs_of new + N)"
    by blast
  show "has_service h new (put_service h old new st)"
    using len h x(2) by (simp add: has_service_def put slot_set_slot) (simp add: set_slot_def)
qed

section \<open>A service in its table\<close>

definition sys_ok :: "gena_state \<Rightarrow> nat set \<Rightarrow> bool" where
  "sys_ok st F \<longleftrightarrow> events_ok (all_subs st) F st \<and> length (HandleTable st) = nat NUM_HANDLE"

lemma all_subs_cong: "HandleTable st1 = HandleTable st \<Longrightarrow> all_subs st1 = all_subs st"
  by (simp add: all_subs_def)

lemma has_service_cong: "HandleTable st1 = HandleTable st \<Longrightarrow> has_service h s st1 = has_service h s st"
  by (simp add: has_service_def slot_def)

lemma put_service_table: "HandleTable st1 = HandleTable st \<Longrightarrow> HandleTable (put_service h s t st1) = HandleTable (put_service h s t st)"
  by (simp add: put_service_def slot_def set_slot_def split: option.splits)

lemma put_service_simps [simp]:
  "GlobalHndRWLock (put_service h s t st) = GlobalHndRWLock st" "handed (put_service h s t st) = handed st"
  "structs (put_service h s t st) = structs st" "events (put_service h s t st) = events st" "jobs (put_service h s t st) = jobs st"
  "fresh (put_service h s t st) = fresh st" "length (HandleTable (put_service h s t st)) = length (HandleTable st)"
  by (simp_all add: put_service_def set_slot_def split: option.splits)

lemma sys_okD: "sys_ok st F \<Longrightarrow> has_service h service st \<Longrightarrow> \<exists>N. all_subs st = subs_of service + N \<and> events_ok (subs_of service + N) F st"
  using put_service_subs(1) [of h service st] by (auto simp: sys_ok_def)

text \<open>A change of one service and of the memory that keeps the invariant whatever else there is.\<close>

lemma service_update:
  assumes ok: "sys_ok st F" and has: "has_service h service st" and same: "same_table st st1"
    and step: "\<And>N. events_ok (subs_of service + N) F st \<Longrightarrow> events_ok (subs_of service1 + N) F1 st1"
  shows "sys_ok (put_service h service service1 st1) F1" and "has_service h service1 (put_service h service service1 st1)"
proof -
  have t: "HandleTable st1 = HandleTable st"
    using same by (simp add: same_table_def)
  obtain N where N: "all_subs st = subs_of service + N" "\<And>new. all_subs (put_service h service new st) = subs_of new + N"
    using put_service_subs(1) [OF has] by blast
  have "events_ok (subs_of service1 + N) F1 st1"
    using step [of N] ok N(1) by (simp add: sys_ok_def)
  moreover have "all_subs (put_service h service service1 st1) = subs_of service1 + N"
    using all_subs_cong [OF put_service_table [OF t]] N(2) by simp
  ultimately show "sys_ok (put_service h service service1 st1) F1"
    using ok t same_heap_ok [of st1 "put_service h service service1 st1"] by (simp add: sys_ok_def)
  show "has_service h service1 (put_service h service service1 st1)"
    using put_service_subs(2) [of h service st1 service1] has has_service_cong [OF t] by simp
qed

lemma find_service_in: "find_service k u ss = Some (Some s) \<Longrightarrow> s \<in> set ss"
  by (induction ss) (auto split: option.splits if_splits)

lemma find_service_of_has:
  assumes "sys_ok st F" and "find_service_of h k u st = Some (Inr service)"
  shows "has_service h service st"
proof -
  obtain x where x: "GetHandleInfo h st = (HND_DEVICE, Some x)" "FindServiceId (Some (ServiceTable x)) k u = Some (Some service)"
    using assms(2)
    by (auto simp: find_service_of_def find_device_def split: option.splits prod.splits Upnp_Handle_Type.splits)
  then show ?thesis
    using assms(1) find_service_in
    by (auto simp: has_service_def GetHandleInfo_def FindServiceId_def sys_ok_def slot_def split: option.splits if_splits)
qed

lemma events_ok_same_queue:
  assumes ok: "events_ok (add_mset s M) F st" and "sid s1 = sid s" and "outgoing s1 = outgoing s" and "\<not> active s1 \<longrightarrow> outgoing s = []"
  shows "events_ok (add_mset s1 M) F st"
proof -
  have "queue_ok s1 st"
    using queue_ok_of [OF ok, of s] assms(2-4) by (simp add: queue_ok_def)
  moreover have "others_kept M st st"
    using freed_others [OF ok, of "{}" "{}" "events st"] by (simp add: freed_def)
  moreover have "queue_arg st ` set (outgoing s1) \<inter> queue_arg st ` set (outgoing t) = {}" if "t \<in># M" for t
    using queues_apart(1) [OF ok that] assms(3) by (auto, metis)
  moreover have "memory_ok st" "flight_ok (add_mset s M) F st"
    using ok by (simp_all add: events_ok_def)
  ultimately show ?thesis
    using assms(2,3) by (intro events_ok_update [OF ok, where X = "{}"]) (auto simp: flight_ok_def)
qed

text \<open>The search for a subscription, with the service put back.\<close>

lemma get_sid_service:
  assumes ok: "sys_ok st F" and has: "has_service h service st" and run: "get_sid now k service st = Some (service1, sub, st1)"
  shows "sys_ok (put_service h service service1 st1) F" and "has_service h service1 (put_service h service service1 st1)"
    and "handed st1 = handed st" and "GlobalHndRWLock st1 = GlobalHndRWLock st"
    and "sub = Some s \<Longrightarrow> find (\<lambda>s. sid s = k) (subscriptionList service1) = Some s \<and> st1 = st"
proof -
  obtain N where N: "events_ok (subs_of service + N) F st"
    using sys_okD [OF ok has] by blast
  obtain J A ev' where st1: "st1 = freed J A ev' st"
    using get_sid_ok(1) [OF N run] by blast
  have "events_ok (subs_of service1 + N) F st1" if "events_ok (subs_of service + N) F st" for N
    using get_sid_ok(1) [OF that run] by blast
  then show "sys_ok (put_service h service service1 st1) F" "has_service h service1 (put_service h service service1 st1)"
    using service_update [OF ok has, of st1 service1 F] by (simp_all add: st1)
  show "handed st1 = handed st" "GlobalHndRWLock st1 = GlobalHndRWLock st"
    by (simp_all add: st1)
  show "find (\<lambda>s. sid s = k) (subscriptionList service1) = Some s \<and> st1 = st" if "sub = Some s"
    using get_sid_ok(3) [OF N run that] by simp
qed

section \<open>The initial event\<close>

lemma memory_fresh_none: "memory_ok st \<Longrightarrow> fresh st \<le> a \<Longrightarrow> structs st a = None \<and> events st a = None"
  using memory_struct [of st a] memory_event [of st a] by (cases "structs st a"; cases "events st a") auto

lemma new_event_ok:
  assumes ok: "events_ok M F st"
  shows "events_ok M F (snd (new_event (e\<lparr>reference_count := 0\<rparr>) st))" (is "events_ok M F ?st")
proof -
  have mem: "memory_ok st"
    using ok by (simp add: events_ok_def)
  have none: "refs st ev = {}" if "fresh st \<le> ev" for ev
    using that memory_fresh_none [OF mem that] memory_struct [OF mem] by (force simp: refs_def)
  have refs1: "refs ?st ev = refs st ev" for ev
    by (simp add: new_event_def refs_def)
  have "memory_ok ?st"
  proof (rule memory_okI)
    fix a n assume "structs ?st a = Some n"
    then show "a < fresh ?st \<and> events ?st (nt_event n) \<noteq> None"
      using memory_struct [OF mem, of a n] by (auto simp: new_event_def)
  next
    fix ev f assume f: "events ?st ev = Some f"
    show "ev < fresh ?st \<and> reference_count f = int (card (refs ?st ev))"
    proof (cases "ev = fresh st")
      case True
      then show ?thesis
        using f none [of ev] refs1 by (auto simp: new_event_def)
    next
      case False
      then show ?thesis
        using f memory_event [OF mem, of ev f] refs1 by (auto simp: new_event_def)
    qed
  qed (use memory_handed [OF mem] in \<open>auto simp: new_event_def less_SucI\<close>)
  then show ?thesis
    by (intro events_ok_extend [OF ok]) (simp_all add: new_event_def)
qed

lemma init_schedule_ok:
  assumes ok: "events_ok (add_mset s M) F st" and act: "active s" and empty: "outgoing s = []" and ms: "False \<notin> set ms"
    and run: "init_schedule now ms pe h e s st = Some (s1, st1, ret)"
  shows "\<exists>X. events_ok (add_mset s1 M) (F \<union> X) st1 \<and> set (handed st1) = set (handed st) \<union> X \<and> X \<inter> set (handed st) = {} \<and>
    same_table st st1"
proof -
  define ev a j where "ev = fresh st" and "a = Suc ev" and "j = Suc a"
  define n where "n = \<lparr>nt_event = ev, nt_sid = sid s, ctime = now, device_handle = h\<rparr>"
  define st2 where "st2 = add_struct ev (e\<lparr>reference_count := 0\<rparr>) n (snd (new_event (e\<lparr>reference_count := 0\<rparr>) st))"
  define st3 where "st3 = st2\<lparr>jobs := (jobs st2)(j \<mapsto> notify_job a), fresh := Suc j\<rparr>"
  have mem: "memory_ok st"
    using ok by (simp add: events_ok_def)
  have ok2: "events_ok (add_mset s M) F st2"
    unfolding st2_def by (rule add_struct_ok [OF new_event_ok [OF ok]]) (simp_all add: new_event_def ev_def n_def)
  have st2: "structs st2 = (structs st)(a \<mapsto> n)" "events st2 = (events st)(ev \<mapsto> e\<lparr>reference_count := 1\<rparr>)" "fresh st2 = j"
    "jobs st2 = jobs st" "handed st2 = handed st" "same_table st st2" "gSendThreadPool st2 = gSendThreadPool st"
    by (simp_all add: st2_def add_struct_def new_event_def ev_def a_def j_def same_table_def)
  have "new_event (e\<lparr>reference_count := 1\<rparr>) st = (ev, snd (new_event (e\<lparr>reference_count := 1\<rparr>) st))"
    by (simp add: new_event_def ev_def)
  moreover have "new_struct n (snd (new_event (e\<lparr>reference_count := 1\<rparr>) st)) = (a, st2)"
    by (simp add: new_struct_def new_event_def st2_def add_struct_def ev_def a_def)
  moreover have "new_job (notify_job a) st2 = (j, st3)"
    by (simp add: new_job_def st3_def st2(3))
  ultimately obtain st4 rc where p: "pool_add pe j st3 = Some (st4, rc)"
    "(s1, st1, ret) = (if rc \<noteq> 0 then (s, st4\<lparr>jobs := (jobs st4)(j := None), structs := (structs st4)(a := None), events := (events st4)(ev := None)\<rparr>, pool_error rc)
       else (s\<lparr>outgoing := outgoing s @ [j]\<rparr>, mark_stale j st4, GENA_SUCCESS))"
    using run next_ok_all [OF ms] next_ok_all [of "tl ms"]
    by (auto simp: init_schedule_def n_def [symmetric] Option.bind_eq_Some_conv Let_def split: prod.splits if_splits)
  have arg3: "queue_arg st3 j = a"
    by (simp add: queue_arg_def st3_def)
  obtain tp where st4: "st4 = st3\<lparr>gSendThreadPool := tp, handed := (if rc = 0 then handed st3 @ [a] else handed st3)\<rparr>"
    using pool_add_frame [OF p(1), unfolded arg3] by blast
  have mem3: "memory_ok st3"
    using ok2 st2(3) by (simp add: st3_def events_ok_def memory_ok_fresh)
  show ?thesis
  proof (cases "rc = 0")
    case False
    have none: "structs st a = None" "events st ev = None"
      using memory_fresh_none [OF mem, of a] memory_fresh_none [OF mem, of ev] by (simp_all add: a_def ev_def)
    have e: "structs st1 = structs st" "events st1 = events st" "handed st1 = handed st" "same_table st st1" "s1 = s"
      "fresh st1 = Suc j" "\<And>i. i < fresh st \<Longrightarrow> jobs st1 i = jobs st i"
      using p(2) False none st2 by (auto simp: st4 st3_def ev_def a_def j_def same_table_def)
    have "refs st1 x = refs st x" for x
      by (simp add: refs_def e(1))
    then have "memory_ok st1"
      using memory_struct [OF mem] memory_event [OF mem] memory_handed [OF mem] e
      by (intro memory_okI) (fastforce simp: ev_def a_def j_def)+
    then have "events_ok (add_mset s M) F st1"
      using e by (intro events_ok_extend [OF ok]) (simp_all add: ev_def a_def j_def)
    then show ?thesis
      using e by (intro exI [of _ "{}"]) simp
  next
    case True
    have below: "x < a" if "x \<in> set (handed st) \<or> (\<exists>t i. t \<in># add_mset s M \<and> i \<in> set (outgoing t) \<and> x = queue_arg st2 i)" for x
    proof -
      have "queue_arg st2 i = queue_arg st i \<and> queue_arg st i < fresh st" if "t \<in># add_mset s M" "i \<in> set (outgoing t)" for t i
        using queue_ok_of [OF ok that(1)] that(2) st2(4) by (simp add: queue_ok_def entry_ok_def queue_arg_def)
      then show ?thesis
        using that memory_handed [OF mem] by (force simp: a_def ev_def)
    qed
    have st1: "st1 = mark_stale j st4" "s1 = s\<lparr>outgoing := outgoing s @ [j]\<rparr>"
      using p(2) True by simp_all
    have mem4: "memory_ok st4"
      unfolding st4 by (rule memory_ok_pool [OF mem3]) (simp add: st3_def j_def)
    have "events_ok (add_mset s1 M) (F \<union> {a}) st1"
      unfolding st1(2)
    proof (rule append_entry [OF ok2 act, of a n])
      show "queue_arg st2 i \<noteq> a" if "t \<in># add_mset s M" "i \<in> set (outgoing t)" for t i
        using below [of "queue_arg st2 i"] that by blast
      show "a \<notin> set (handed st2)"
        using below [of a] st2(5) by auto
      show "memory_ok st1"
        using mem4 by (simp add: st1(1))
    qed (use st2 arg3 True empty in \<open>auto simp: st1 st4 st3_def n_def j_def mark_stale_def queue_arg_def\<close>)
    moreover have "a \<notin> set (handed st)"
      using below [of a] by auto
    ultimately show ?thesis
      using st2(5,6) True by (intro exI [of _ "{a}"]) (simp add: st1(1) st4 st3_def)
  qed
qed

lemma update_sid_minus:
  assumes "find (\<lambda>s. sid s = k) (subscriptionList service) = Some s"
  shows "subs_of service = add_mset s (subs_of service - {#s#})"
    and "subs_of (update_sid k y service) = add_mset y (subs_of service - {#s#})"
    and "sid y = k \<Longrightarrow> find (\<lambda>s. sid s = k) (subscriptionList (update_sid k y service)) = Some y"
proof -
  obtain M where "subs_of service = add_mset s M" "subs_of (update_sid k y service) = add_mset y M"
    using update_sid_mset(1) [OF assms] by blast
  then show "subs_of service = add_mset s (subs_of service - {#s#})"
    "subs_of (update_sid k y service) = add_mset y (subs_of service - {#s#})"
    by simp_all
  obtain i where f: "find (\<lambda>i. sid (subscriptionList service ! i) = k) [0..<length (subscriptionList service)] = Some i"
    using find_index [OF assms] by blast
  then have i: "i < length (subscriptionList service)" "\<forall>j<i. sid (subscriptionList service ! j) \<noteq> k" "sid_index k service = Some i"
    by (auto simp: find_Some_iff sid_index_def)
  then show "find (\<lambda>s. sid s = k) (subscriptionList (update_sid k y service)) = Some y" if "sid y = k"
    using that by (auto simp: find_Some_iff update_sid_def put_sub_def nth_list_update)
qed

lemma init_locked_ok:
  assumes ok: "sys_ok st F" and ms: "False \<notin> set ms" and run: "init_locked now ms pe h u k ps sd st = Some (st1, ret)"
  shows "\<exists>X. sys_ok st1 (F \<union> X) \<and> set (handed st1) = set (handed st) \<union> X \<and> X \<inter> set (handed st) = {} \<and>
    GlobalHndRWLock st1 = GlobalHndRWLock st"
proof -
  have unchanged: ?thesis if "sys_ok st1 F" "handed st1 = handed st" "GlobalHndRWLock st1 = GlobalHndRWLock st"
    using that by (intro exI [of _ "{}"]) simp
  obtain r where r: "find_service_of h k u st = Some r"
    using run by (auto simp: init_locked_def Option.bind_eq_Some_conv)
  show ?thesis
  proof (cases r)
    case (Inl e)
    then show ?thesis
      using run r ok by (intro unchanged) (simp_all add: init_locked_def)
  next
    case (Inr service)
    have has: "has_service h service st"
      using find_service_of_has [OF ok] r Inr by simp
    obtain service1 sub st2 where g: "get_sid now sd service st = Some (service1, sub, st2)"
      using run r Inr by (auto simp: init_locked_def Option.bind_eq_Some_conv)
    define st3 where "st3 = put_service h service service1 st2"
    note gs = get_sid_service [OF ok has g, folded st3_def]
    have st3: "handed st3 = handed st" "GlobalHndRWLock st3 = GlobalHndRWLock st"
      using gs(3,4) by (simp_all add: st3_def)
    show ?thesis
    proof (cases "\<exists>s. sub = Some s \<and> \<not> active s")
      case False
      then have "st1 = st3"
        using run r Inr g by (auto simp: init_locked_def Let_def st3_def split: option.splits)
      then show ?thesis
        using gs(1) st3 by (intro unchanged) simp_all
    next
      case True
      then obtain s where s: "sub = Some s" "\<not> active s"
        by blast
      define s1 where "s1 = s\<lparr>active := True\<rparr>"
      define service2 where "service2 = update_sid sd s1 service1"
      define st4 where "st4 = put_service h service1 service2 st3"
      have f: "find (\<lambda>s. sid s = sd) (subscriptionList service1) = Some s"
        using gs(5) s(1) by simp
      define M where "M = subs_of service1 - {#s#}"
      have f2: "find (\<lambda>s. sid s = sd) (subscriptionList service2) = Some s1"
        using update_sid_minus(3) [OF f, of s1] find_sid [OF f] by (simp add: service2_def s1_def)
      have M: "subs_of service1 = add_mset s M" "subs_of service2 = add_mset s1 M" "subs_of (update_sid sd y service2) = add_mset y M" for y
        using update_sid_minus(1) [OF f] update_sid_minus(2) [OF f, of s1] update_sid_minus(2) [OF f2, of y] by (simp_all add: M_def service2_def)
      obtain N0 where "events_ok (subs_of service1 + N0) F st3"
        using sys_okD [OF gs(1,2)] by blast
      then have empty: "outgoing s = []"
        using queue_ok_of [of "subs_of service1 + N0" F st3 s] s(2) M(1) by (simp add: queue_ok_def)
      have "events_ok (subs_of service2 + N) F st3" if "events_ok (subs_of service1 + N) F st3" for N
        using events_ok_same_queue [of s "M + N" F st3 s1] that empty M by (simp add: s1_def)
      then have st4: "sys_ok st4 F" "has_service h service2 st4"
        using service_update [OF gs(1,2), of st3 service2 F] by (simp_all add: st4_def)
      have st4h: "handed st4 = handed st" "GlobalHndRWLock st4 = GlobalHndRWLock st"
        using st3 by (simp_all add: st4_def)
      obtain hds where hds: "AllocGenaHeaders (fst (next_ok ms)) ps = Some hds"
        using run r Inr g s by (auto simp: init_locked_def Let_def Option.bind_eq_Some_conv)
      show ?thesis
      proof (cases "hds = None \<or> ps = None")
        case True
        then have "st1 = st4"
          using run r Inr g s hds
          by (auto simp: init_locked_def Let_def st4_def st3_def service2_def s1_def split: option.splits)
        then show ?thesis
          using st4 st4h by (intro unchanged) simp_all
      next
        case False
        then obtain hs p where hp: "hds = Some hs" "ps = Some p"
          by auto
        define e where "e = \<lparr>ev_headers = hs, ev_propertySet = p, ev_servId = k, ev_UDN = u, reference_count = 0\<rparr>"
        obtain s2 st5 where sch: "init_schedule now (snd (next_ok ms)) pe h e s1 st4 = Some (s2, st5, ret)"
          "st1 = put_service h service2 (update_sid sd s2 service2) st5"
          using run r Inr g s hds hp
          by (auto simp: init_locked_def Let_def st4_def st3_def service2_def s1_def e_def Option.bind_eq_Some_conv)
        have ms1: "False \<notin> set (snd (next_ok ms))"
          using next_ok_all [OF ms] by simp
        have sub: "events_ok (add_mset s1 (M + N)) F st4" if "events_ok (subs_of service2 + N) F st4" for N
          using that M(2) by simp
        have s1: "active s1" "outgoing s1 = []"
          using empty by (simp_all add: s1_def)
        obtain N0 where N0: "events_ok (subs_of service2 + N0) F st4"
          using sys_okD [OF st4] by blast
        define X where "X = set (handed st5) - set (handed st4)"
        have sched: "events_ok (subs_of (update_sid sd s2 service2) + N) (F \<union> X) st5 \<and> set (handed st5) = set (handed st4) \<union> X \<and>
          same_table st4 st5" if ev: "events_ok (subs_of service2 + N) F st4" for N
        proof -
          obtain Y where "events_ok (add_mset s2 (M + N)) (F \<union> Y) st5" "set (handed st5) = set (handed st4) \<union> Y"
            "Y \<inter> set (handed st4) = {}" "same_table st4 st5"
            using init_schedule_ok [OF sub [OF ev] s1 ms1 sch(1)] by blast
          moreover from this have "Y = X"
            by (auto simp: X_def)
          ultimately show ?thesis
            using M(3) by simp
        qed
        then have "sys_ok st1 (F \<union> X)"
          using service_update(1) [OF st4, of st5 "update_sid sd s2 service2" "F \<union> X"] N0 by (simp add: sch(2))
        moreover have "set (handed st1) = set (handed st) \<union> X" "GlobalHndRWLock st1 = GlobalHndRWLock st"
          using sched [OF N0] st4h by (simp_all add: sch(2) same_table_def)
        ultimately show ?thesis
          using st4h by (intro exI [of _ X]) (auto simp: X_def)
      qed
    qed
  qed
qed

section \<open>Events for all\<close>

lemma notify_locked_ok:
  assumes ok: "sys_ok st F" and ms: "False \<notin> set ms" and ev: "events st ev \<noteq> None" "refs st ev = {}"
    and run: "notify_locked now ms pes h u k ev st = Some (st1, ret)"
  shows "\<exists>X. sys_ok st1 (F \<union> X) \<and> set (handed st1) = set (handed st) \<union> X \<and> X \<inter> set (handed st) = {} \<and>
    GlobalHndRWLock st1 = GlobalHndRWLock st"
proof -
  obtain r where r: "find_service_of h k u st = Some r"
    using run by (auto simp: notify_locked_def Option.bind_eq_Some_conv)
  show ?thesis
  proof (cases r)
    case (Inl e)
    then show ?thesis
      using run r ok by (intro exI [of _ "{}"]) (simp add: notify_locked_def)
  next
    case (Inr service)
    have has: "has_service h service st"
      using find_service_of_has [OF ok] r Inr by simp
    obtain service1 i st2 service2 st3 where g: "get_first now service st = Some (service1, i, st2)"
      "notify_loop now ms pes h ev service1 i st2 = Some (service2, st3, ret)" "st1 = put_service h service service2 st3"
      using run r Inr by (auto simp: notify_locked_def Option.bind_eq_Some_conv)
    obtain N0 where N0: "events_ok (subs_of service + N0) F st"
      using sys_okD [OF ok has] by blast
    obtain J A ev' where st2: "st2 = freed J A ev' st" "events st2 ev \<noteq> None"
      using get_first_ok(1) [OF N0 g(1)] ev by auto
    have live: "\<forall>k. i = Some k \<longrightarrow> events st2 ev \<noteq> None \<and> active (subscriptionList service1 ! k)"
      using get_first_ok(3) [OF N0 g(1)] st2(2) by auto
    define X where "X = set (handed st3) - set (handed st)"
    have loop: "events_ok (subs_of service2 + N) (F \<union> X) st3 \<and> set (handed st3) = set (handed st) \<union> X \<and> same_table st st3"
      if ev: "events_ok (subs_of service + N) F st" for N
    proof -
      have ok2: "events_ok (subs_of service1 + N) F st2"
        using get_first_ok(1) [OF ev g(1)] by blast
      obtain Y where Y: "events_ok (subs_of service2 + N) (F \<union> Y) st3" "set (handed st3) = set (handed st2) \<union> Y" "Y \<subseteq> {fresh st2..}"
        "same_table st2 st3"
        using notify_loop_ok [OF ok2 ms live g(2)] by blast
      have mem: "memory_ok st"
        using ev by (simp add: events_ok_def)
      have "x \<notin> set (handed st)" if "x \<in> Y" for x
        using Y(3) memory_handed [OF mem, of x] that by (auto simp: st2(1))
      moreover have "handed st2 = handed st"
        by (simp add: st2(1))
      ultimately have "Y = X"
        unfolding X_def Y(2) by auto
      then show ?thesis
        using Y by (simp add: st2(1) same_table_def)
    qed
    then have "sys_ok st1 (F \<union> X)"
      using service_update(1) [OF ok has, of st3 service2 "F \<union> X"] N0 by (simp add: g(3))
    moreover have "X \<inter> set (handed st) = {}"
      by (auto simp: X_def)
    ultimately show ?thesis
      using loop [OF N0] by (intro exI [of _ X]) (simp add: g(3) same_table_def)
  qed
qed

lemma release_event_ok:
  assumes ok: "events_ok M F st"
  shows "events_ok M F (release_event ev st)"
proof (cases "\<exists>e. events st ev = Some e \<and> reference_count e = 0")
  case False
  then show ?thesis
    using ok by (auto simp: release_event_def split: option.splits)
next
  case True
  then obtain e where e: "events st ev = Some e" "reference_count e = 0"
    by blast
  have mem: "memory_ok st"
    using ok by (simp add: events_ok_def)
  then have none: "refs st ev = {}"
    using memory_event [OF mem e(1)] e(2) by (simp add: card_eq_0_iff)
  define st1 where "st1 = st\<lparr>events := (events st)(ev := None)\<rparr>"
  have "nt_event n \<noteq> ev" if "structs st a = Some n" for a n
    using none that by (auto simp: refs_def)
  moreover have "refs st1 x = refs st x" for x
    by (simp add: st1_def)
  ultimately have "memory_ok st1"
    using memory_struct [OF mem] memory_event [OF mem] memory_handed [OF mem]
    by (intro memory_okI) (auto simp: st1_def split: if_splits)
  then have "events_ok M F st1"
    by (intro events_ok_extend [OF ok]) (simp_all add: st1_def)
  then show ?thesis
    using e by (simp add: release_event_def st1_def)
qed

lemma release_event_simps [simp]:
  "HandleTable (release_event ev st) = HandleTable st" "handed (release_event ev st) = handed st"
  "GlobalHndRWLock (release_event ev st) = GlobalHndRWLock st"
  by (simp_all add: release_event_def split: option.splits)

lemma sys_ok_lock [simp]: "sys_ok (st\<lparr>GlobalHndRWLock := l\<rparr>) F = sys_ok st F"
  using same_heap_ok [of st "st\<lparr>GlobalHndRWLock := l\<rparr>"] by (simp add: sys_ok_def all_subs_def)

section \<open>The job of the thread pool\<close>

lemma sys_ok_less: "sys_ok st F \<Longrightarrow> G \<subseteq> F \<Longrightarrow> sys_ok st G"
  unfolding sys_ok_def events_ok_def flight_ok_def by blast

lemma flying_struct:
  assumes "sys_ok st F" and "a \<in> F"
  shows "\<exists>n. structs st a = Some n" and "a \<in> set (handed st)"
  using assms flight_entry [of "all_subs st" F st a] by (auto simp: sys_ok_def events_ok_def)

lemma free_flying:
  assumes ok: "sys_ok st F" and "structs st a = Some n" and "a \<in> set (handed st)" and "a \<notin> F" and "free_notify_struct a st = Some st1"
  shows "sys_ok st1 F" and "same_table st st1" and "handed st1 = handed st"
proof -
  obtain ev' where "st1 = freed {} {a} ev' st" "events_ok (all_subs st) F st1"
    using free_struct_ok [of "all_subs st" F st a n] assms by (auto simp: sys_ok_def)
  then show "sys_ok st1 F" "same_table st st1" "handed st1 = handed st"
    using ok by (simp_all add: sys_ok_def all_subs_def)
qed

lemma event_context_ok:
  assumes ok: "sys_ok st F" and n: "structs st a = Some n" and run: "event_context now a st = Some (st1, c)"
  shows "sys_ok st1 F" and "handed st1 = handed st" and "GlobalHndRWLock st1 = GlobalHndRWLock st"
    and "c = Some (service, s) \<Longrightarrow> has_service (device_handle n) service st1 \<and>
      find (\<lambda>s. sid s = nt_sid n) (subscriptionList service) = Some s \<and> structs st1 = structs st"
proof -
  obtain e r where r: "events st (nt_event n) = Some e" "find_service_of (device_handle n) (ev_servId e) (ev_UDN e) st = Some r"
    using run n by (auto simp: event_context_def Option.bind_eq_Some_conv)
  have "sys_ok st1 F \<and> handed st1 = handed st \<and> GlobalHndRWLock st1 = GlobalHndRWLock st \<and>
    (\<forall>service s. c = Some (service, s) \<longrightarrow> has_service (device_handle n) service st1 \<and>
      find (\<lambda>s. sid s = nt_sid n) (subscriptionList service) = Some s \<and> structs st1 = structs st)"
  proof (cases r)
    case (Inl x)
    then show ?thesis
      using run n r ok by (simp add: event_context_def)
  next
    case (Inr service0)
    have has: "has_service (device_handle n) service0 st"
      using find_service_of_has [OF ok] r Inr by simp
    show ?thesis
    proof (cases "service_active service0")
      case False
      then show ?thesis
        using run n r ok Inr by (simp add: event_context_def)
    next
      case True
      then obtain service1 sub st2 where g: "get_sid now (nt_sid n) service0 st = Some (service1, sub, st2)"
        "st1 = put_service (device_handle n) service0 service1 st2" "c = map_option (\<lambda>s. (service1, s)) sub"
        using run n r Inr by (auto simp: event_context_def Option.bind_eq_Some_conv)
      note gs = get_sid_service [OF ok has g(1), folded g(2)]
      show ?thesis
        using gs by (auto simp: g(2,3))
    qed
  qed
  then show "sys_ok st1 F" "handed st1 = handed st" "GlobalHndRWLock st1 = GlobalHndRWLock st"
    "c = Some (service, s) \<Longrightarrow> has_service (device_handle n) service st1 \<and>
      find (\<lambda>s. sid s = nt_sid n) (subscriptionList service) = Some s \<and> structs st1 = structs st"
    by blast+
qed

lemma notify_begin_ok:
  assumes ok: "sys_ok st F" and a: "a \<in> F" and run: "notify_begin now ok1 ok2 junk a st = Some (st1, copy)"
  shows "sys_ok st1 (if copy = None then F - {a} else F)" and "handed st1 = handed st" and "\<not> GlobalHndRWLock st1"
proof -
  obtain n where n: "structs st a = Some n" and h: "a \<in> set (handed st)"
    using flying_struct [OF ok a] by blast
  define st0 where "st0 = st\<lparr>GlobalHndRWLock := True\<rparr>"
  obtain st2 c where c: "event_context now a st0 = Some (st2, c)" "HandleLock st = Some st0"
    using run by (auto simp: notify_begin_def HandleLock_def st0_def Option.bind_eq_Some_conv split: if_splits)
  have ok0: "sys_ok st0 F" "structs st0 a = Some n"
    using ok n by (simp_all add: st0_def)
  have st2: "sys_ok st2 F" "handed st2 = handed st" "GlobalHndRWLock st2"
    using event_context_ok [OF ok0 c(1)] by (simp_all add: st0_def)
  obtain st3 where st3: "free_notify_struct a st2 = Some st3 \<and> copy = None \<or> st3 = st2 \<and> copy \<noteq> None" "HandleUnlock st3 = Some st1"
    using run c by (auto simp: notify_begin_def Option.bind_eq_Some_conv split: option.splits if_splits prod.splits)
  obtain m where m: "structs st2 a = Some m"
    using flying_struct(1) [OF st2(1) a] by blast
  have "sys_ok st3 (if copy = None then F - {a} else F)" "handed st3 = handed st" "GlobalHndRWLock st3"
  proof -
    show "sys_ok st3 (if copy = None then F - {a} else F)"
      using st3(1) st2(1,2) free_flying(1) [OF sys_ok_less [OF st2(1)], of "F - {a}" a m st3] m h by auto
    show "handed st3 = handed st" "GlobalHndRWLock st3"
      using st3(1) st2 free_flying(2,3) [OF sys_ok_less [OF st2(1)], of "F - {a}" a m st3] m h by (auto simp: same_table_def)
  qed
  then show "sys_ok st1 (if copy = None then F - {a} else F)" "handed st1 = handed st" "\<not> GlobalHndRWLock st1"
    using st3(2) by (auto simp: HandleUnlock_def)
qed

text \<open>The queue of a subscription whose event in flight is done.\<close>

lemma finish_queue:
  assumes ok: "events_ok (subs_of service + N) F st" and f: "find (\<lambda>s. sid s = k) (subscriptionList service) = Some s"
    and a: "a \<in> F" "structs st a = Some n" "nt_sid n = k"
  shows "\<exists>j q. outgoing s = j # q \<and> queue_arg st j = a"
proof -
  have "flight_ok (subs_of service + N) F st" "sid s = nt_sid n" "s \<in># subs_of service + N"
    using ok find_sid [OF f] a(3) by (simp_all add: events_ok_def)
  then show ?thesis
    using flight_entry [of "subs_of service + N" F st a] a(1,2) by (metis list.exhaust_sel option.inject)
qed

lemma finish_advance:
  assumes ok: "events_ok (subs_of service + N) F st" and f: "find (\<lambda>s. sid s = k) (subscriptionList service) = Some s"
    and a: "a \<in> F" "structs st a = Some n" "nt_sid n = k" and adv: "advance_queue pe (outgoing s) st = Some (q1, st2)"
  shows "\<exists>Y. events_ok (subs_of (update_sid k (s\<lparr>ToSendEventKey := key, outgoing := q1\<rparr>) service) + N) (F - {a} \<union> Y) st2 \<and>
    set (handed st2) = set (handed st) \<union> Y \<and> Y \<inter> set (handed st) = {} \<and> same_table st st2 \<and> structs st2 = structs st"
proof -
  define M where "M = subs_of service - {#s#}"
  have M: "subs_of service = add_mset s M" "\<And>y. subs_of (update_sid k y service) = add_mset y M"
    using update_sid_minus(1,2) [OF f] by (simp_all add: M_def)
  obtain j q where q: "outgoing s = j # q" "queue_arg st j = a"
    using finish_queue [OF ok f a] by blast
  have "events_ok (add_mset s (M + N)) F st"
    using ok M(1) by simp
  from advance_queue_ok [OF this q(1) adv, of key] show ?thesis
    unfolding q(2) M(2) by auto
qed

lemma finish_delivery_ok:
  assumes ok: "sys_ok st F" and has: "has_service h service st" and f: "find (\<lambda>s. sid s = k) (subscriptionList service) = Some s"
    and a: "a \<in> F" "structs st a = Some n" "nt_sid n = k"
    and run: "finish_delivery pe return_code k h service s st = Some st1"
  shows "\<exists>X. sys_ok st1 (F - {a} \<union> X) \<and> set (handed st1) = set (handed st) \<union> X \<and> X \<inter> set (handed st) = {} \<and>
    GlobalHndRWLock st1 = GlobalHndRWLock st"
proof -
  obtain N0 where N0: "events_ok (subs_of service + N0) F st"
    using sys_okD [OF ok has] by blast
  obtain q1 st2 where adv: "advance_queue pe (outgoing s) st = Some (q1, st2)"
    using run by (auto simp: finish_delivery_def Option.bind_eq_Some_conv)
  define s1 where "s1 = s\<lparr>ToSendEventKey := next_key (ToSendEventKey s), outgoing := q1\<rparr>"
  define X where "X = set (handed st2) - set (handed st)"
  have step: "events_ok (subs_of (update_sid k s1 service) + N) (F - {a} \<union> X) st2 \<and> set (handed st2) = set (handed st) \<union> X \<and>
    same_table st st2" if ev: "events_ok (subs_of service + N) F st" for N
  proof -
    obtain Y where Y: "events_ok (subs_of (update_sid k s1 service) + N) (F - {a} \<union> Y) st2" "set (handed st2) = set (handed st) \<union> Y"
      "Y \<inter> set (handed st) = {}" "same_table st st2"
      using finish_advance [OF ev f a adv] unfolding s1_def by blast
    then have "Y = X"
      unfolding X_def Y(2) by auto
    then show ?thesis
      using Y by simp
  qed
  note s0 = step [OF N0]
  obtain service2 st3 where fin: "if return_code = GENA_E_NOTIFY_UNACCEPTED_REMOVE_SUB then remove_sid k (update_sid k s1 service) st2 = Some (service2, st3)
      else service2 = update_sid k s1 service \<and> st3 = st2" "st1 = put_service h service service2 st3"
    using run adv by (auto simp: finish_delivery_def s1_def Let_def Option.bind_eq_Some_conv split: if_splits)
  have step2: "events_ok (subs_of service2 + N) (F - {a} \<union> X) st3 \<and> (\<exists>J A ev'. st3 = freed J A ev' st2)"
    if "events_ok (subs_of service + N) F st" for N
  proof (cases "return_code = GENA_E_NOTIFY_UNACCEPTED_REMOVE_SUB")
    case True
    then show ?thesis
      using remove_sid_ok(1) [of "update_sid k s1 service" N "F - {a} \<union> X" st2 k service2 st3] step [OF that] fin(1) by auto
  next
    case False
    have "st2 = freed {} {} (events st2) st2"
      by (simp add: freed_def)
    then show ?thesis
      using False fin(1) step [OF that] by auto
  qed
  obtain J A ev' where st3: "st3 = freed J A ev' st2"
    using step2 [OF N0] by blast
  have "sys_ok st1 (F - {a} \<union> X)"
    unfolding fin(2) using step2 s0 by (intro service_update(1) [OF ok has]) (simp_all add: st3)
  moreover have "set (handed st1) = set (handed st) \<union> X" "GlobalHndRWLock st1 = GlobalHndRWLock st"
    using s0 by (simp_all add: fin(2) st3 same_table_def)
  moreover have "X \<inter> set (handed st) = {}"
    by (auto simp: X_def)
  ultimately show ?thesis
    by blast
qed

lemma free_notify_struct_Some: "free_notify_struct a st = Some st1 \<Longrightarrow> \<exists>n. structs st a = Some n"
  by (auto simp: free_notify_struct_def Option.bind_eq_Some_conv)

lemma notify_end_ok:
  assumes ok: "sys_ok st F" and a: "a \<in> F" and run: "notify_end now pe return_code a st = Some st1"
  shows "\<exists>X. sys_ok st1 (F - {a} \<union> X) \<and> set (handed st1) = set (handed st) \<union> X \<and> X \<inter> set (handed st) = {} \<and>
    \<not> GlobalHndRWLock st1"
proof -
  obtain n where n: "structs st a = Some n" and h: "a \<in> set (handed st)"
    using flying_struct [OF ok a] by blast
  define st0 where "st0 = st\<lparr>GlobalHndRWLock := True\<rparr>"
  obtain st2 c st3 st4 where r: "event_context now a st0 = Some (st2, c)"
    "(case c of None \<Rightarrow> Some st2 | Some (service, s) \<Rightarrow> finish_delivery pe return_code (nt_sid n) (device_handle n) service s st2) = Some st3"
    "free_notify_struct a st3 = Some st4" "HandleUnlock st4 = Some st1"
    using run n by (auto simp: notify_end_def HandleLock_def st0_def Option.bind_eq_Some_conv split: if_splits)
  have ok0: "sys_ok st0 F" "structs st0 a = Some n"
    using ok n by (simp_all add: st0_def)
  note c = event_context_ok [OF ok0 r(1)]
  obtain X where X: "sys_ok st3 (F - {a} \<union> X)" "set (handed st3) = set (handed st) \<union> X" "X \<inter> set (handed st) = {}" "GlobalHndRWLock st3"
  proof (cases c)
    case None
    then show ?thesis
      using r(2) c(2,3) sys_ok_less [OF c(1), of "F - {a}"] by (intro that [of "{}"]) (auto simp: st0_def)
  next
    case (Some x)
    obtain service s where x: "x = (service, s)"
      by (cases x)
    note d = c(4) [of service s, unfolded Some x, OF refl]
    have "structs st2 a = Some n" "finish_delivery pe return_code (nt_sid n) (device_handle n) service s st2 = Some st3"
      using d r(2) n by (simp_all add: Some x st0_def)
    then obtain X where "sys_ok st3 (F - {a} \<union> X)" "set (handed st3) = set (handed st2) \<union> X" "X \<inter> set (handed st2) = {}"
      "GlobalHndRWLock st3 = GlobalHndRWLock st2"
      using finish_delivery_ok [OF c(1), of "device_handle n" service "nt_sid n" s a n] d a by blast
    then show ?thesis
      using c(2,3) by (intro that [of X]) (simp_all add: st0_def)
  qed
  obtain m where m: "structs st3 a = Some m"
    using free_notify_struct_Some [OF r(3)] by blast
  have "a \<notin> F - {a} \<union> X" "a \<in> set (handed st3)"
    using X(2,3) h by auto
  note f = free_flying [OF X(1) m this(2,1) r(3)]
  show ?thesis
    using f X r(4) by (intro exI [of _ X]) (auto simp: HandleUnlock_def same_table_def)
qed

end
