(* ===== verification/GenaSafety.thy ===== *)
theory GenaSafety
  imports GenaSystem
begin

text \<open>
  What the invariant is good for: the sections of the jobs, and the calls that free subscriptions, never touch freed memory. The
  only other ways not to return are a service without an id in the table, and a thread pool that waits for ever.
\<close>

section \<open>The table\<close>

definition ids_ok :: "gena_state \<Rightarrow> bool" where
  "ids_ok st \<longleftrightarrow>
     list_all (\<lambda>y. case y of
                   None \<Rightarrow> True
                 | Some x \<Rightarrow> list_all (\<lambda>s. serviceId s \<noteq> None \<and> UDN s \<noteq> None) (serviceList (ServiceTable x))) (HandleTable st)"

lemma find_service_total: "list_all (\<lambda>s. serviceId s \<noteq> None \<and> UDN s \<noteq> None) ss \<Longrightarrow> find_service k u ss \<noteq> None"
  by (induction ss) auto

lemma find_service_of_total:
  assumes "ids_ok st" and "sys_ok st F"
  shows "\<exists>r. find_service_of h k u st = Some r"
proof -
  have "list_all (\<lambda>s. serviceId s \<noteq> None \<and> UDN s \<noteq> None) (serviceList (ServiceTable x))" if "find_device h st = Some x" for x
  proof -
    have "Some x \<in> set (HandleTable st)"
      using that assms(2)
      by (auto simp: find_device_def GetHandleInfo_def slot_def sys_ok_def NUM_HANDLE_def in_set_conv_nth
          split: option.splits if_splits Upnp_Handle_Type.splits prod.splits intro!: exI [of _ "nat h"])
    then show ?thesis
      using assms(1) by (auto simp: ids_ok_def list_all_iff)
  qed
  then have "FindServiceId (Some (ServiceTable x)) k u \<noteq> None" if "find_device h st = Some x" for x
    using find_service_total that by (simp add: FindServiceId_def)
  then show ?thesis
    by (auto simp: find_service_of_def split: option.split)
qed

section \<open>The job of the thread pool\<close>

lemma event_context_total:
  assumes ok: "sys_ok st F" and a: "a \<in> F" and ids: "ids_ok st"
  shows "\<exists>st1 c. event_context now a st = Some (st1, c) \<and> structs st1 a = structs st a \<and> gSendThreadPool st1 = gSendThreadPool st"
proof -
  obtain n where n: "structs st a = Some n" and h: "a \<in> set (handed st)"
    using flying_struct [OF ok a] by blast
  obtain e where e: "events st (nt_event n) = Some e"
    using memory_struct [of st a n] n ok by (auto simp: sys_ok_def events_ok_def)
  obtain r where r: "find_service_of (device_handle n) (ev_servId e) (ev_UDN e) st = Some r"
    using find_service_of_total [OF ids ok] by blast
  show ?thesis
  proof (cases "\<exists>service. r = Inr service \<and> service_active service")
    case False
    then show ?thesis
      using n e r by (cases r) (auto simp: event_context_def)
  next
    case True
    then obtain service where s: "r = Inr service" "service_active service"
      by blast
    obtain N where "events_ok (subs_of service + N) F st"
      using sys_okD [OF ok find_service_of_has [OF ok, of "device_handle n" "ev_servId e" "ev_UDN e" service]] r s by blast
    then obtain service1 sub J A ev' where g: "get_sid now (nt_sid n) service st = Some (service1, sub, freed J A ev' st)"
      "A \<inter> set (handed st) = {}"
      using get_sid_frees by blast
    then have "a \<notin> A"
      using h by blast
    moreover have "gSendThreadPool (put_service hh old new x) = gSendThreadPool x" for hh old new x
      by (simp add: put_service_def set_slot_def split: option.split)
    ultimately show ?thesis
      using n e r s g by (simp add: event_context_def)
  qed
qed

abbreviation pool_answers :: "add_env \<Rightarrow> ThreadPool \<Rightarrow> bool" where
  "pool_answers pe tp \<equiv> \<forall>job. ThreadPoolAdd (add_now pe) (add_ms pe) (add_cs pe) (add_env pe) tp job \<noteq> None"

lemma advance_queue_total:
  assumes ok: "events_ok (add_mset s M) F st" and pool: "pool_answers pe (gSendThreadPool st)"
  shows "\<exists>q st1. advance_queue pe (outgoing s) st = Some (q, st1)"
proof (cases "outgoing s")
  case (Cons j q)
  note h = queue_heads [OF queue_ok_of [OF ok, of s, simplified] Cons]
  show ?thesis
  proof (cases q)
    case (Cons b q2)
    then have "b \<noteq> j" "jobs st b \<noteq> None"
      using h(2) h(5) [of b] by (auto simp: queue_entry_def)
    then obtain job where "jobs (free_job j st) b = Some job"
      by auto
    moreover have "gSendThreadPool (free_job j st) = gSendThreadPool st"
      by (simp add: free_job_def)
    moreover obtain tp k rc where "ThreadPoolAdd (add_now pe) (add_ms pe) (add_cs pe) (add_env pe) (gSendThreadPool st) job = Some (tp, k, rc)"
      using pool by (metis option.exhaust prod_cases3)
    ultimately have "\<exists>st1 rc. pool_add pe b (free_job j st) = Some (st1, rc)"
      by (simp add: pool_add_def)
    then show ?thesis
      using \<open>outgoing s = j # q\<close> Cons by (auto simp: advance_queue_def)
  qed (simp add: advance_queue_def Cons)
qed (simp add: advance_queue_def)

lemma finish_delivery_total:
  assumes ok: "sys_ok st F" and has: "has_service h service st" and f: "find (\<lambda>s. sid s = k) (subscriptionList service) = Some s"
    and a: "a \<in> F" "structs st a = Some n" "nt_sid n = k" and pool: "pool_answers pe (gSendThreadPool st)"
  shows "\<exists>st1. finish_delivery pe return_code k h service s st = Some st1 \<and> structs st1 a = structs st a"
proof -
  obtain N where N: "events_ok (subs_of service + N) F st"
    using sys_okD [OF ok has] by blast
  have h: "a \<in> set (handed st)"
    using flying_struct [OF ok a(1)] by blast
  have "events_ok (add_mset s (subs_of service - {#s#} + N)) F st"
    using N update_sid_minus(1) [OF f] by (metis union_mset_add_mset_left)
  then obtain q st2 where adv: "advance_queue pe (outgoing s) st = Some (q, st2)"
    using advance_queue_total pool by blast
  let ?service = "update_sid k (s\<lparr>ToSendEventKey := next_key (ToSendEventKey s), outgoing := q\<rparr>) service"
  obtain Y where Y: "events_ok (subs_of ?service + N) (F - {a} \<union> Y) st2" "set (handed st2) = set (handed st) \<union> Y" "structs st2 = structs st"
    using finish_advance [OF N f a adv, of "next_key (ToSendEventKey s)"] by blast
  obtain J A ev' where "remove_sid k ?service st2 = Some (RemoveSubscriptionSID k ?service, freed J A ev' st2)" "A \<inter> set (handed st2) = {}"
    using remove_sid_frees [OF Y(1), of k] by blast
  moreover from this have "a \<notin> A"
    using h Y(2) by blast
  ultimately show ?thesis
    using adv Y(3) by (simp add: finish_delivery_def Let_def)
qed

lemma free_notify_struct_total:
  assumes "sys_ok st F" and "structs st a \<noteq> None"
  shows "\<exists>st1. free_notify_struct a st = Some st1"
  using assms free_notify_struct_ok [of st a] by (fastforce simp: sys_ok_def events_ok_def)

lemma notify_end_total:
  assumes ok: "sys_ok st F" and a: "a \<in> F" and ids: "ids_ok st" and lock: "\<not> GlobalHndRWLock st"
    and pool: "pool_answers pe (gSendThreadPool st)"
  shows "\<exists>st1. notify_end now pe return_code a st = Some st1"
proof -
  obtain n where n: "structs st a = Some n"
    using flying_struct [OF ok a] by blast
  define st0 where "st0 = st\<lparr>GlobalHndRWLock := True\<rparr>"
  have st0: "HandleLock st = Some st0" "sys_ok st0 F" "structs st0 a = Some n" "ids_ok st0"
    using ok lock n ids by (simp_all add: st0_def HandleLock_def ids_ok_def)
  obtain st1 c where c: "event_context now a st0 = Some (st1, c)" "structs st1 a = Some n" "gSendThreadPool st1 = gSendThreadPool st"
    using event_context_total [OF st0(2) a st0(4), of now] st0(3) by (auto simp: st0_def)
  note ec = event_context_ok [OF st0(2,3) c(1)]
  obtain st2 where st2: "(case c of None \<Rightarrow> Some st1 | Some (service, s) \<Rightarrow>
      finish_delivery pe return_code (nt_sid n) (device_handle n) service s st1) = Some st2" "structs st2 a = Some n"
    "\<exists>G. sys_ok st2 G" "GlobalHndRWLock st2"
  proof (cases c)
    case None
    then show ?thesis
      using c ec(1,3) that by (auto simp: st0_def)
  next
    case (Some x)
    obtain service s where x: "x = (service, s)"
      by (cases x)
    note d = ec(4) [of service s, unfolded Some x, OF refl]
    obtain st2 where f: "finish_delivery pe return_code (nt_sid n) (device_handle n) service s st1 = Some st2" "structs st2 a = Some n"
      using finish_delivery_total [OF ec(1), of "device_handle n" service "nt_sid n" s a n pe return_code] d a c pool by auto
    obtain X where "sys_ok st2 (F - {a} \<union> X)" "GlobalHndRWLock st2 = GlobalHndRWLock st1"
      using finish_delivery_ok [OF ec(1), of "device_handle n" service "nt_sid n" s a n] d a c(2) f(1) by blast
    then show ?thesis
      using f ec(3) that [of st2] by (auto simp: Some x st0_def)
  qed
  then obtain st3 where st3: "free_notify_struct a st2 = Some st3"
    using free_notify_struct_total by blast
  then have "GlobalHndRWLock st3"
    using st2(4) by (auto simp: free_notify_struct_def Option.bind_eq_Some_conv Let_def)
  then show ?thesis
    using st0 c(1) st2(1) st3 by (auto simp: notify_end_def HandleUnlock_def)
qed

lemma sid_in_table:
  assumes "sys_ok st F" and "has_service h service st" and "find (\<lambda>s. sid s = k) (subscriptionList service) = Some s"
  shows "s \<in># all_subs st"
proof -
  obtain N where "all_subs st = subs_of service + N"
    using sys_okD [OF assms(1,2)] by blast
  then show ?thesis
    using find_sid [OF assms(3)] by simp
qed

lemma event_context_subs:
  assumes ok: "sys_ok st F" and run: "event_context now a st = Some (st1, Some (service, s))"
  shows "s \<in># all_subs st"
proof -
  obtain n e x where x: "structs st a = Some n" "events st (nt_event n) = Some e"
    "find_service_of (device_handle n) (ev_servId e) (ev_UDN e) st = Some x"
    using run by (auto simp: event_context_def Option.bind_eq_Some_conv)
  obtain service0 st2 where r: "find_service_of (device_handle n) (ev_servId e) (ev_UDN e) st = Some (Inr service0)"
    "get_sid now (nt_sid n) service0 st = Some (service, Some s, st2)"
    using run x by (cases x) (auto simp: event_context_def Option.bind_eq_Some_conv split: if_splits)
  have has: "has_service (device_handle n) service0 st"
    using find_service_of_has [OF ok r(1)] .
  obtain N where N: "events_ok (subs_of service0 + N) F st"
    using sys_okD [OF ok has] by blast
  show ?thesis
    using sid_in_table [OF ok has] get_sid_ok(3) [OF N r(2) refl] by blast
qed

lemma notify_begin_total:
  assumes ok: "sys_ok st F" and a: "a \<in> F" and ids: "ids_ok st" and lock: "\<not> GlobalHndRWLock st"
    and copies: "\<forall>s\<in>#all_subs st. copy_subscription ok1 ok2 s junk \<noteq> None"
  shows "\<exists>st1 copy. notify_begin now ok1 ok2 junk a st = Some (st1, copy)"
proof -
  define st0 where "st0 = st\<lparr>GlobalHndRWLock := True\<rparr>"
  have st0: "HandleLock st = Some st0" "sys_ok st0 F" "ids_ok st0" "all_subs st0 = all_subs st"
    using ok lock ids by (simp_all add: st0_def HandleLock_def ids_ok_def all_subs_def)
  obtain n where n: "structs st0 a = Some n"
    using flying_struct [OF st0(2) a] by blast
  obtain st1 c where c: "event_context now a st0 = Some (st1, c)" "structs st1 a = Some n"
    using event_context_total [OF st0(2) a st0(3), of now] n by auto
  note ec = event_context_ok [OF st0(2) n c(1)]
  obtain copy where copy: "(case c of None \<Rightarrow> Some None | Some (service, s) \<Rightarrow>
      do { (s1, rc) \<leftarrow> copy_subscription ok1 ok2 s junk; Some (if rc = HTTP_SUCCESS then Some s1 else None) }) = Some copy"
  proof (cases c)
    case (Some x)
    obtain service s where x: "x = (service, s)"
      by (cases x)
    then obtain s1 rc where "copy_subscription ok1 ok2 s junk = Some (s1, rc)"
      using event_context_subs [OF st0(2), of now a st1 service s] c(1) copies st0(4) Some by fastforce
    then show ?thesis
      using that x Some by simp
  qed (use that in simp)
  obtain st2 where st2: "free_notify_struct a st1 = Some st2"
    using free_notify_struct_total [OF ec(1)] c(2) by auto
  then have "GlobalHndRWLock st2 = GlobalHndRWLock st1"
    by (auto simp: free_notify_struct_def Option.bind_eq_Some_conv Let_def)
  moreover have "GlobalHndRWLock st1"
    using ec(3) by (simp add: st0_def)
  ultimately show ?thesis
    using st0 c(1) copy st2 by (auto simp: notify_begin_def HandleUnlock_def)
qed

end
