(* ===== verification/DeviceSystem.thy ===== *)
theory DeviceSystem
  imports GenaSafety
begin

text \<open>
  The device as a transition system: the calls of the application, the requests of control points and the sections of the
  jobs of the thread pool, in any order. The invariant of the theory \<open>GenaQueues\<close> holds in every state reached.
\<close>

section \<open>Calls that change the table\<close>

lemma events_ok_mono:
  assumes ok: "events_ok M F st" and M1: "M1 \<subseteq># M"
  shows "events_ok M1 F st"
proof -
  have e: "s \<in># M" if "s \<in># M1" for s
    using M1 that by (rule mset_subset_eqD)
  have "count (image_mset sid M1) k \<le> count (image_mset sid M) k" for k
    using image_mset_subseteq_mono [OF M1, of sid] by (simp add: subseteq_mset_def)
  then have "sids_ok M1"
    using ok e by (meson events_ok_def order_trans sids_ok_def)
  moreover have "entries_ok M1 st"
    using ok e unfolding events_ok_def entries_ok_def by (intro ballI conjI impI) meson+
  moreover have "waiting_ok M1 st"
    using ok e unfolding events_ok_def waiting_ok_def by meson
  moreover have "flight_ok M1 F st"
    using ok e unfolding events_ok_def flight_ok_def by meson
  ultimately show ?thesis
    using ok by (simp add: events_ok_def)
qed

lemma sys_ok_set_slot:
  assumes ok: "sys_ok st F" and h: "1 \<le> h" "h < NUM_HANDLE" and y: "mset (slot_subs y) \<subseteq># mset (slot_subs (slot h st))"
  shows "sys_ok (set_slot h y st) F"
proof -
  obtain N where N: "all_subs st = mset (slot_subs (slot h st)) + N" "all_subs (set_slot h y st) = mset (slot_subs y) + N"
    using slot_subs_split [of st h] ok h unfolding sys_ok_def by blast
  then have "events_ok (all_subs (set_slot h y st)) F st"
    using ok y events_ok_mono [of "all_subs st" F st] by (simp add: sys_ok_def)
  then have "events_ok (all_subs (set_slot h y st)) F (set_slot h y st)"
    using same_heap_ok [of st "set_slot h y st"] by simp
  moreover have "length (HandleTable (set_slot h y st)) = nat NUM_HANDLE"
    using ok by (simp add: sys_ok_def set_slot_def)
  ultimately show ?thesis
    by (simp add: sys_ok_def)
qed

lemma sys_ok_free_handle: "sys_ok st F \<Longrightarrow> sys_ok (fst (FreeHandle h st)) F"
  using sys_ok_set_slot [of st F h None] by (simp add: FreeHandle_def slot_subs_def)

lemma slot_set_same [simp]: "1 \<le> h \<Longrightarrow> h < NUM_HANDLE \<Longrightarrow> sys_ok st F \<Longrightarrow> slot h (set_slot h y st) = y"
  by (simp add: slot_set_slot sys_ok_def)

lemma GetHandleInfo_slot: "GetHandleInfo h st = (ty, Some x) \<Longrightarrow> slot h st = Some x \<and> HType x = ty \<and> 1 \<le> h \<and> h < NUM_HANDLE"
  by (auto simp: GetHandleInfo_def slot_def split: option.splits if_splits)

text \<open>Settings that do not belong to the table or the memory.\<close>

lemma sys_ok_cong: "same_heap st st1 \<Longrightarrow> HandleTable st1 = HandleTable st \<Longrightarrow> sys_ok st1 F = sys_ok st F"
  by (simp add: sys_ok_def all_subs_def same_heap_ok)

lemma sys_ok_settings [simp]:
  "sys_ok (st\<lparr>UpnpSdkClientRegistered := n\<rparr>) F = sys_ok st F"
  "sys_ok (st\<lparr>UpnpSdkDeviceRegisteredV4 := n\<rparr>) F = sys_ok st F"
  "sys_ok (st\<lparr>UpnpSdkDeviceregisteredV6 := n\<rparr>) F = sys_ok st F"
  "sys_ok (st\<lparr>gSendThreadPool := tp\<rparr>) F = sys_ok st F"
  "sys_ok (st\<lparr>g_UpnpSdkEQMaxLen := n, g_UpnpSdkEQMaxAge := m\<rparr>) F = sys_ok st F"
  by (rule sys_ok_cong; simp add: same_heap_def)+

lemma sys_ok_registered [simp]: "sys_ok (set_registered f v st) F = sys_ok st F"
  by (simp add: set_registered_def split: af.splits)

lemma set_registered_simps [simp]:
  "slot h (set_registered f v st) = slot h st" "handed (set_registered f v st) = handed st"
  "GlobalHndRWLock (set_registered f v st) = GlobalHndRWLock st"
  by (simp_all add: set_registered_def slot_def split: af.splits)

lemma set_slot_simps [simp]: "handed (set_slot h y st) = handed st" "GlobalHndRWLock (set_slot h y st) = GlobalHndRWLock st"
  by (simp_all add: set_slot_def)

lemma FreeHandle_simps [simp]:
  "handed (fst (FreeHandle h st)) = handed st" "GlobalHndRWLock (fst (FreeHandle h st)) = GlobalHndRWLock st"
  by (simp_all add: FreeHandle_def)

text \<open>After a call: the old structures in flight and the new ones, and the lock is free.\<close>

definition kept_by :: "gena_state \<Rightarrow> nat set \<Rightarrow> gena_state \<Rightarrow> bool" where
  "kept_by st F st1 \<longleftrightarrow>
     (\<exists>X. sys_ok st1 (F \<union> X) \<and> set (handed st1) = set (handed st) \<union> X \<and> X \<inter> set (handed st) = {} \<and> \<not> GlobalHndRWLock st1)"

lemma kept_byI: "sys_ok st1 F \<Longrightarrow> handed st1 = handed st \<Longrightarrow> \<not> GlobalHndRWLock st1 \<Longrightarrow> kept_by st F st1"
  unfolding kept_by_def by (rule exI [of _ "{}"]) simp

lemma lock_ok:
  assumes "HandleLock st = Some st1" and "sys_ok st F"
  shows "sys_ok st1 F \<and> handed st1 = handed st \<and> GlobalHndRWLock st1"
  using assms by (auto simp: HandleLock_def split: if_splits)

lemma unlock_ok:
  assumes "HandleUnlock st = Some st1" and "sys_ok st F"
  shows "sys_ok st1 F \<and> handed st1 = handed st \<and> \<not> GlobalHndRWLock st1"
  using assms by (auto simp: HandleUnlock_def split: if_splits)

lemma set_limit_ok:
  assumes ok: "sys_ok st F" and l: "\<not> GlobalHndRWLock st" and run: "set_limit upd h n st = Some (st1, rc)"
    and upd: "\<And>x. HType (upd x) = HType x \<and> ServiceTable (upd x) = ServiceTable x"
  shows "kept_by st F st1"
proof (cases "\<exists>st0 x. HandleLock st = Some st0 \<and> GetHandleInfo h st0 = (HND_DEVICE, Some x) \<and> UpnpSdkInit st = 1 \<and> (n = UPNP_INFINITE \<or> 0 \<le> n)")
  case True
  then obtain st0 x where x: "HandleLock st = Some st0" "GetHandleInfo h st0 = (HND_DEVICE, Some x)" "UpnpSdkInit st = 1"
    "n = UPNP_INFINITE \<or> 0 \<le> n"
    by blast
  note k = lock_ok [OF x(1) ok] and s = GetHandleInfo_slot [OF x(2)]
  have "sys_ok (set_slot h (Some (upd x)) st0) F"
    using k s upd [of x] by (intro sys_ok_set_slot) (simp_all add: slot_subs_def)
  then show ?thesis
    using run x k by (intro kept_byI) (auto simp: set_limit_def HandleUnlock_def split: if_splits)
next
  case False
  then have "st1 = st \<or> (\<exists>st0. HandleLock st = Some st0 \<and> HandleUnlock st0 = Some st1)"
    using run by (auto simp: set_limit_def split: if_splits option.splits prod.splits Upnp_Handle_Type.splits)
  then show ?thesis
    using ok l by (auto simp: HandleLock_def HandleUnlock_def split: if_splits intro!: kept_byI)
qed

section \<open>Registering and unregistering\<close>

text \<open>A service that was just read from a description has no subscriptions.\<close>

lemma service_entry_fresh:
  assumes "service_entry net base u ms node = Some (ms1, e, fail)"
  shows "subscriptionList e = []"
proof -
  obtain ms2 udn where a: "getElementValue ms u = (ms2, udn)"
    by (cases "getElementValue ms u")
  obtain ms3 ty where b: "sub_value ms2 ''serviceType'' node = (ms3, ty)"
    by (cases "sub_value ms2 ''serviceType'' node")
  obtain ms4 k where c: "sub_value ms3 ''serviceId'' node = (ms4, k)"
    by (cases "sub_value ms3 ''serviceId'' node")
  show ?thesis
    using assms by (auto simp: service_entry_def a b c Let_def split: option.split_asm)
qed

lemma service_loop_fresh:
  "service_loop net base u ss ms acc = Some (ms1, Some es) \<Longrightarrow> \<forall>s\<in>set acc. subscriptionList s = [] \<Longrightarrow> \<forall>s\<in>set es. subscriptionList s = []"
proof (induction ss arbitrary: ms acc)
  case (Cons s ss)
  obtain ok ms2 where a: "next_ok ms = (ok, ms2)"
    by (cases "next_ok ms")
  then have ok: ok
    using Cons.prems(1) by (cases ok) auto
  obtain ms3 e fail where n: "service_entry net base u ms2 s = Some (ms3, e, fail)"
    using Cons.prems(1) a ok by (cases "service_entry net base u ms2 s") auto
  have l: "service_loop net base u ss ms3 (if fail then acc else acc @ [e]) = Some (ms1, Some es)"
    using Cons.prems(1) a ok n by simp
  have "\<forall>s\<in>set (if fail then acc else acc @ [e]). subscriptionList s = []"
    using service_entry_fresh [OF n] Cons.prems(2) by simp
  then show ?case
    by (rule Cons.IH [OF l])
qed simp

lemma device_loop_fresh:
  "device_loop net base ds ms acc = Some (ms1, es) \<Longrightarrow> \<forall>s\<in>set acc. subscriptionList s = [] \<Longrightarrow> \<forall>s\<in>set es. subscriptionList s = []"
proof (induction ds arbitrary: ms acc)
  case (Cons d ds)
  obtain ms2 ls where l: "getServiceList net ms d base = Some (ms2, ls)" "device_loop net base ds ms2 (acc @ ls) = Some (ms1, es)"
    using Cons.prems(1) by (auto split: option.splits)
  have "\<forall>s\<in>set ls. subscriptionList s = []"
    using l(1) service_loop_fresh [of net base _ _ ms "[]"]
    by (auto simp: getServiceList_def split: option.splits)
  then have "\<forall>s\<in>set (acc @ ls). subscriptionList s = []"
    using Cons.prems(2) by auto
  then show ?case
    by (rule Cons.IH [OF l(2)])
qed simp

lemma getServiceTable_fresh:
  assumes "getServiceTable net ms d \<lparr>URLBase = None, serviceList = []\<rparr> u = Some (t, has)"
  shows "\<forall>s\<in>set (serviceList t). subscriptionList s = []"
  using assms device_loop_fresh [of net _ _ _ "[]"]
  by (auto simp: getServiceTable_def getAllServiceList_def split: option.splits prod.splits)

lemma GetFreeHandle_range:
  assumes "sys_ok st F" and "GetFreeHandle st \<noteq> UPNP_E_OUTOF_HANDLE"
  shows "1 \<le> GetFreeHandle st" and "GetFreeHandle st < NUM_HANDLE"
proof -
  have "i \<le> free_from i xs \<and> free_from i xs \<le> i + int (length xs)" for i and xs :: "Handle_Info option list"
    by (induction xs arbitrary: i) (auto, (smt (verit))+)
  from this [of 1 "drop 1 (take (nat NUM_HANDLE) (HandleTable st))"]
  show "1 \<le> GetFreeHandle st" "GetFreeHandle st < NUM_HANDLE"
    using assms by (auto simp: GetFreeHandle_def sys_ok_def Let_def NUM_HANDLE_def split: if_splits)
qed

lemma fill_device_ok:
  assumes ok: "sys_ok st F" and h: "1 \<le> h" "h < NUM_HANDLE" and run: "fill_device net ms download h x st = Some (st1, ret)"
  shows "sys_ok st1 F \<and> handed st1 = handed st \<and> GlobalHndRWLock st1 = GlobalHndRWLock st"
proof (cases "st1 = fst (FreeHandle h st)")
  case True
  then show ?thesis
    using sys_ok_free_handle [OF ok] by simp
next
  case False
  obtain rc doc where r: "download (DescURL x) = (rc, doc)" "rc = UPNP_E_SUCCESS"
    using run False by (cases "download (DescURL x)") (auto simp: fill_device_def split: if_splits)
  obtain d where d: "doc = Some d" "getElementsByTagName ''device'' d \<noteq> []"
    using run False r by (cases doc) (auto simp: fill_device_def split: if_splits)
  obtain t has where t: "getServiceTable net ms d \<lparr>URLBase = None, serviceList = []\<rparr> (Some (DescURL x)) = Some (t, has)"
    "st1 = set_registered (DeviceAf x) 1 (set_slot h (Some (x\<lparr>DescDocument := Some d, ServiceTable := t\<rparr>)) st)"
    using run r d by (auto simp: fill_device_def Option.bind_eq_Some_conv)
  have "slot_subs (Some (x\<lparr>DescDocument := Some d, ServiceTable := t\<rparr>)) = []"
    using getServiceTable_fresh [OF t(1)] by (simp add: slot_subs_def)
  then show ?thesis
    using sys_ok_set_slot [OF ok h] by (simp add: t(2))
qed

lemma UpnpRegisterRootDevice3_ok:
  assumes ok: "sys_ok st F"
    and run: "UpnpRegisterRootDevice3 net mem ms download DescUrl Fun cookie have_hnd AddressFamily LowerDescUrl st = Some (st1, ret, hnd)"
  shows "kept_by st F st1"
proof -
  obtain st2 where l: "HandleLock st = Some st2"
    using run by (auto simp: UpnpRegisterRootDevice3_def Option.bind_eq_Some_conv)
  note k = lock_ok [OF l ok]
  have step: "sys_ok st3 F \<and> handed st3 = handed st2 \<and> GlobalHndRWLock st3 = GlobalHndRWLock st2"
    if f: "GetFreeHandle st2 \<noteq> UPNP_E_OUTOF_HANDLE" "fill_device net ms download (GetFreeHandle st2) x (set_slot (GetFreeHandle st2) (Some x) st2) = Some (st3, ret)"
      and x: "slot_subs (Some x) = []" for x st3 ret
    using fill_device_ok [OF sys_ok_set_slot [of st2 F "GetFreeHandle st2" "Some x"] _ _ f(2)] GetFreeHandle_range [of st2 F] k f(1) x
    by simp
  have x: "slot_subs (Some (device_info url l f c a)) = []" for url l f c a
    by (simp add: slot_subs_def device_info_def blank_info_def)
  obtain st3 where "HandleUnlock st3 = Some st1" "sys_ok st3 F \<and> handed st3 = handed st2"
    using run l k step x
    by (auto simp: UpnpRegisterRootDevice3_def Option.bind_eq_Some_conv Let_def split: option.splits if_splits)
  then show ?thesis
    using unlock_ok [of st3 st1 F] k by (intro kept_byI) simp_all
qed

lemma UpnpRegisterClient_ok:
  assumes ok: "sys_ok st F" and l: "\<not> GlobalHndRWLock st" and run: "UpnpRegisterClient mem junk f cookie have_hnd st = Some (st1, ret, hnd)"
  shows "kept_by st F st1"
proof (cases "st1 = st")
  case False
  obtain st2 where lk: "HandleLock st = Some st2"
    using run False by (auto simp: UpnpRegisterClient_def split: if_splits option.splits)
  note k = lock_ok [OF lk ok]
  have x: "sys_ok (set_slot (GetFreeHandle st2) (Some x) st2) F" if "GetFreeHandle st2 \<noteq> UPNP_E_OUTOF_HANDLE" "HType x = HND_CLIENT" for x
    using that k GetFreeHandle_range [of st2 F] by (intro sys_ok_set_slot) (simp_all add: slot_subs_def)
  obtain st3 where "HandleUnlock st3 = Some st1" "sys_ok st3 F \<and> handed st3 = handed st2"
    using run lk k x False by (auto simp: UpnpRegisterClient_def Let_def split: option.splits if_splits)
  then show ?thesis
    using unlock_ok [of st3 st1 F] k by (intro kept_byI) simp_all
qed (use ok l in \<open>auto intro: kept_byI\<close>)

lemma genaUnregisterDevice_ok:
  assumes ok: "sys_ok st F" and run: "genaUnregisterDevice h st = Some (st1, ret)"
  shows "kept_by st F st1"
proof -
  obtain st2 st3 where l: "HandleLock st = Some st2" "HandleUnlock st3 = Some st1"
    "(case find_device h st2 of None \<Rightarrow> Some (st2, GENA_E_BAD_HANDLE)
      | Some x \<Rightarrow> do { (t, st4) \<leftarrow> freeServiceTable (ServiceTable x) st2;
                       Some (set_slot h (Some (x\<lparr>ServiceTable := t\<rparr>)) st4, UPNP_E_SUCCESS) }) = Some (st3, ret)"
    using run by (auto simp: genaUnregisterDevice_def Option.bind_eq_Some_conv)
  note k = lock_ok [OF l(1) ok]
  have "sys_ok st3 F \<and> handed st3 = handed st2"
  proof (cases "find_device h st2")
    case None
    then show ?thesis
      using l(3) k by simp
  next
    case (Some x)
    then have x: "slot h st2 = Some x" "HType x = HND_DEVICE" "1 \<le> h" "h < NUM_HANDLE"
      using GetHandleInfo_slot [of h st2 HND_DEVICE x]
      by (auto simp: find_device_def split: prod.splits Upnp_Handle_Type.splits option.splits)
    obtain N where N: "all_subs st2 = mset (slot_subs (slot h st2)) + N" "\<And>y. all_subs (set_slot h y st2) = mset (slot_subs y) + N"
      using slot_subs_split [of st2 h] k x unfolding sys_ok_def by blast
    let ?ss = "concat (map subscriptionList (serviceList (ServiceTable x)))"
    have "events_ok (mset ?ss + N) F st2"
      using k x N(1) by (simp add: sys_ok_def slot_subs_def)
    then obtain J A ev' where f: "freeSubscriptionList ?ss st2 = Some (freed J A ev' st2)" "events_ok N F (freed J A ev' st2)"
      using freeSubscriptionList_ok [of ?ss N F st2] by blast
    define y where "y = Some (x\<lparr>ServiceTable := (ServiceTable x)\<lparr>serviceList := []\<rparr>\<rparr>)"
    have st3: "st3 = set_slot h y (freed J A ev' st2)"
      using l(3) Some f(1) by (simp add: freeServiceTable_def y_def)
    have "all_subs st3 = N"
      using N(2) [of y] x(2) by (simp add: st3 all_subs_def set_slot_def y_def slot_subs_def)
    then show ?thesis
      using f(2) k same_heap_ok [of "freed J A ev' st2" st3] by (simp add: sys_ok_def st3) (simp add: set_slot_def)
  qed
  then show ?thesis
    using unlock_ok [OF l(2)] k by (intro kept_byI) auto
qed

lemma power_section_ok:
  assumes ok: "sys_ok st F" and run: "power_section h ps sp rs st = Some (st1, b)"
  shows "kept_by st F st1"
proof -
  obtain st2 where l: "HandleLock st = Some st2"
    using run by (auto simp: power_section_def Option.bind_eq_Some_conv)
  note k = lock_ok [OF l ok]
  have "sys_ok (set_slot h (Some (x\<lparr>PowerState := ps, SleepPeriod := s, RegistrationState := rs\<rparr>)) st2) F"
    if "GetHandleInfo h st2 = (ty, Some x)" for ty x s
    using GetHandleInfo_slot [OF that] k by (intro sys_ok_set_slot) (simp_all add: slot_subs_def)
  then obtain st3 where "HandleUnlock st3 = Some st1" "sys_ok st3 F \<and> handed st3 = handed st2"
    using run l k by (cases "GetHandleInfo h st2")
      (auto simp: power_section_def Option.bind_eq_Some_conv Let_def split: option.splits Upnp_Handle_Type.splits)
  then show ?thesis
    using unlock_ok [of st3 st1 F] k by (intro kept_byI) simp_all
qed

lemma release_section_ok:
  assumes ok: "sys_ok st F" and run: "release_section h st = Some (st1, b)"
  shows "kept_by st F st1"
proof -
  obtain st2 where l: "HandleLock st = Some st2"
    using run by (auto simp: release_section_def Option.bind_eq_Some_conv)
  note k = lock_ok [OF l ok]
  have "sys_ok (fst (FreeHandle h (set_registered f v st2))) F" for f v
    using k by (intro sys_ok_free_handle) simp
  then obtain st3 where "HandleUnlock st3 = Some st1" "sys_ok st3 F \<and> handed st3 = handed st2"
    using run l k by (cases "GetHandleInfo h st2")
      (auto simp: release_section_def Option.bind_eq_Some_conv Let_def split: option.splits Upnp_Handle_Type.splits)
  then show ?thesis
    using unlock_ok [of st3 st1 F] k by (intro kept_byI) simp_all
qed

section \<open>Events\<close>

lemma event_result:
  assumes "HandleUnlock st2 = Some st1" and "\<exists>X. sys_ok st2 (F \<union> X) \<and> set (handed st2) = set (handed st) \<union> X \<and> X \<inter> set (handed st) = {}"
  shows "kept_by st F st1"
proof -
  obtain X where "sys_ok st2 (F \<union> X)" "set (handed st2) = set (handed st) \<union> X" "X \<inter> set (handed st) = {}"
    using assms(2) by blast
  then show ?thesis
    using unlock_ok [OF assms(1)] unfolding kept_by_def by (intro exI [of _ X]) auto
qed

lemma genaInitNotifyCommon_ok:
  assumes ok: "sys_ok st F" and l: "\<not> GlobalHndRWLock st" and ms: "False \<notin> set ms"
    and run: "genaInitNotifyCommon now pre ms pe h u k ps sd st = Some (st1, ret)"
  shows "kept_by st F st1"
proof -
  obtain st2 st3 where s: "HandleLock st = Some st2" "init_locked now ms pe h u k ps sd st2 = Some (st3, ret)" "HandleUnlock st3 = Some st1"
    using run l by (auto simp: genaInitNotifyCommon_def Option.bind_eq_Some_conv HandleUnlock_def split: if_splits)
  note k = lock_ok [OF s(1) ok]
  show ?thesis
    using init_locked_ok [OF _ ms s(2), of F] k by (intro event_result [OF s(3)]) auto
qed

lemma genaNotifyAllCommon_ok:
  assumes ok: "sys_ok st F" and l: "\<not> GlobalHndRWLock st" and ms: "False \<notin> set ms"
    and run: "genaNotifyAllCommon now pre ms pes h u k ps st = Some (st1, ret)"
  shows "kept_by st F st1"
proof -
  have "False \<notin> set (take 3 pre)"
    using run l by (auto simp: genaNotifyAllCommon_def HandleUnlock_def)
  moreover obtain hd where hd: "AllocGenaHeaders (fst (next_ok (drop 3 pre))) ps = Some hd"
    using run calculation by (auto simp: genaNotifyAllCommon_def Option.bind_eq_Some_conv)
  moreover obtain hs p where "hd = Some hs" "ps = Some p"
    using run l calculation by (cases hd; cases ps) (auto simp: genaNotifyAllCommon_def HandleUnlock_def)
  ultimately obtain st2 st3 where s:
    "HandleLock (snd (new_event \<lparr>ev_headers = hs, ev_propertySet = p, ev_servId = k, ev_UDN = u, reference_count = 0\<rparr> st)) = Some st2"
    "notify_locked now ms pes h u k (fresh st) st2 = Some (st3, ret)" "HandleUnlock (release_event (fresh st) st3) = Some st1"
    using run by (auto simp: genaNotifyAllCommon_def Option.bind_eq_Some_conv new_event_def)
  define e where "e = \<lparr>ev_headers = hs, ev_propertySet = p, ev_servId = k, ev_UDN = u, reference_count = 0\<rparr>"
  define st0 where "st0 = snd (new_event e st)"
  have ev: "events_ok (all_subs st) F st" and mem: "memory_ok st"
    using ok by (simp_all add: sys_ok_def events_ok_def)
  have st0: "sys_ok st0 F"
    using new_event_ok [OF ev, of e] ok by (simp add: st0_def sys_ok_def e_def all_subs_def new_event_def)
  note k = lock_ok [OF s(1) [folded e_def, folded st0_def] st0]
  have st2: "st2 = st0\<lparr>GlobalHndRWLock := True\<rparr>"
    using s(1) by (simp add: HandleLock_def e_def [symmetric] st0_def [symmetric] split: if_splits)
  have "refs st (fresh st) = {}"
    using memory_struct [OF mem] memory_fresh_none [OF mem, of "fresh st"] by (fastforce simp: refs_def)
  then have fresh: "events st2 (fresh st) \<noteq> None" "refs st2 (fresh st) = {}"
    by (simp_all add: st2 st0_def new_event_def refs_def)
  obtain X where X: "sys_ok st3 (F \<union> X)" "set (handed st3) = set (handed st2) \<union> X" "X \<inter> set (handed st2) = {}"
    using notify_locked_ok [OF _ ms fresh s(2), of F] k by blast
  have "sys_ok (release_event (fresh st) st3) (F \<union> X)"
    using X(1) release_event_ok [of "all_subs st3" "F \<union> X" st3 "fresh st"] by (simp add: sys_ok_def all_subs_def)
  moreover have "handed st2 = handed st"
    using k by (simp add: st0_def new_event_def)
  ultimately show ?thesis
    using X by (intro event_result [OF s(3)]) auto
qed

lemma UpnpAcceptSubscription_ok:
  assumes "sys_ok st F" and l: "\<not> GlobalHndRWLock st" and "False \<notin> set ms"
    and run: "UpnpAcceptSubscription now ok1 ok2 pre ms pe h d k names values cnt sd st = Some (st1, ret)"
  shows "kept_by st F st1"
  using run genaInitNotifyCommon_ok [OF assms(1-3)] kept_byI [OF assms(1) refl l]
  by (auto simp: UpnpAcceptSubscription_def genaInitNotify_def Option.bind_eq_Some_conv split: option.splits if_splits)

lemma UpnpAcceptSubscriptionExt_ok:
  assumes "sys_ok st F" and l: "\<not> GlobalHndRWLock st" and "False \<notin> set ms"
    and run: "UpnpAcceptSubscriptionExt now pre ms pe h d k have_doc printed sd st = Some (st1, ret)"
  shows "kept_by st F st1"
  using run genaInitNotifyCommon_ok [OF assms(1-3)] kept_byI [OF assms(1) refl l]
  by (auto simp: UpnpAcceptSubscriptionExt_def genaInitNotifyExt_def split: option.splits if_splits)

lemma UpnpNotify_ok:
  assumes "sys_ok st F" and l: "\<not> GlobalHndRWLock st" and "False \<notin> set ms"
    and run: "UpnpNotify now ok1 ok2 pre ms pes h d k names values cnt st = Some (st1, ret)"
  shows "kept_by st F st1"
  using run genaNotifyAllCommon_ok [OF assms(1-3)] kept_byI [OF assms(1) refl l]
  by (auto simp: UpnpNotify_def genaNotifyAll_def Option.bind_eq_Some_conv split: option.splits if_splits)

lemma UpnpNotifyExt_ok:
  assumes "sys_ok st F" and l: "\<not> GlobalHndRWLock st" and "False \<notin> set ms"
    and run: "UpnpNotifyExt now pre ms pes h d k printed st = Some (st1, ret)"
  shows "kept_by st F st1"
  using run genaNotifyAllCommon_ok [OF assms(1-3)] kept_byI [OF assms(1) refl l]
  by (auto simp: UpnpNotifyExt_def genaNotifyAllExt_def split: option.splits if_splits)

section \<open>Requests of control points\<close>

lemma find_path_in: "find_path net url path tok ss = Some (Some s) \<Longrightarrow> s \<in> set ss"
  by (induction ss) (auto split: option.splits sum.splits if_splits)

lemma service_for_path_in: "service_for_path net t path = Some (Some s) \<Longrightarrow> s \<in> set (serviceList t)"
  using find_path_in
  by (auto simp: service_for_path_def FindServiceControlURLPath_def FindServiceEventURLPath_def find_by_path_def
      split: option.splits sum.splits)

lemma device_for_path_has:
  "sys_ok st F \<Longrightarrow> device_for_path net path f st hs = Some (Some (h, x, service)) \<Longrightarrow> has_service h service st"
proof (induction hs)
  case (Cons g gs)
  show ?case
  proof (cases "device_of f g st")
    case None
    then show ?thesis
      using Cons by simp
  next
    case (Some y)
    then have y: "GetHandleInfo g st = (HND_DEVICE, Some y)"
      by (auto simp: device_of_def split: prod.splits Upnp_Handle_Type.splits option.splits if_splits)
    show ?thesis
    proof (cases "service_for_path net (ServiceTable y) path = Some None")
      case True
      then show ?thesis
        using Cons Some by simp
    next
      case False
      then have "h = g" "service_for_path net (ServiceTable y) path = Some (Some service)"
        using Cons.prems(2) Some by (auto split: option.splits)
      then show ?thesis
        using GetHandleInfo_slot [OF y] service_for_path_in Cons.prems(1) by (auto simp: has_service_def sys_ok_def)
    qed
  qed
qed simp

lemma GetDeviceHandleInfoForPath_has:
  "sys_ok st F \<Longrightarrow> GetDeviceHandleInfoForPath net path f st = Some (Some (h, x, service)) \<Longrightarrow> has_service h service st"
  using device_for_path_has by (auto simp: GetDeviceHandleInfoForPath_def split: if_splits)

text \<open>A subscription with a SID that nobody uses: no subscription, and no event that is still under way.\<close>

definition new_sid :: "string \<Rightarrow> gena_state \<Rightarrow> bool" where
  "new_sid k st \<longleftrightarrow> (\<forall>s\<in>#all_subs st. sid s \<noteq> k) \<and> (\<forall>a n. structs st a = Some n \<longrightarrow> nt_sid n \<noteq> k)"

lemma events_ok_new:
  assumes ok: "events_ok M F st" and k: "\<forall>s\<in>#M. sid s \<noteq> sid x" "\<And>a n. structs st a = Some n \<Longrightarrow> nt_sid n \<noteq> sid x"
    and x: "outgoing x = []"
  shows "events_ok (add_mset x M) F st"
proof -
  have "count (image_mset sid (add_mset x M)) k \<le> 1" for k
  proof (cases "k = sid x")
    case True
    then have "k \<notin># image_mset sid M"
      using k(1) by auto
    then have "count (image_mset sid M) k = 0"
      by (rule not_in_iff [THEN iffD1])
    then show ?thesis
      using True by simp
  next
    case False
    then show ?thesis
      using ok sids_count [of M k] by (simp add: events_ok_def)
  qed
  then have "sids_ok (add_mset x M)"
    using ok x by (simp add: events_ok_def sids_ok_def)
  moreover have "entries_ok (add_mset x M) st" "waiting_ok (add_mset x M) st"
    using ok x by (simp_all add: events_ok_def entries_ok_def waiting_ok_def)
  moreover have "flight_ok (add_mset x M) F st"
    using ok k(2) unfolding events_ok_def flight_ok_def by fastforce
  ultimately show ?thesis
    using ok by (simp add: events_ok_def)
qed

lemma service_insert:
  assumes ok: "sys_ok st F" and has: "has_service h service st" and k: "new_sid (sid x) st" and x: "outgoing x = []"
  shows "sys_ok (put_service h service (service\<lparr>subscriptionList := x # subscriptionList service, TotalSubscriptions := n\<rparr>) st) F"
    (is "sys_ok (put_service h service ?new st) F")
proof -
  obtain N where N: "all_subs st = subs_of service + N" "\<And>new. all_subs (put_service h service new st) = subs_of new + N"
    using put_service_subs(1) [OF has] by blast
  have "events_ok (add_mset x (all_subs st)) F st"
    using ok k x by (intro events_ok_new) (auto simp: sys_ok_def new_sid_def)
  then show ?thesis
    using ok same_heap_ok [of st "put_service h service ?new st"] by (simp add: sys_ok_def N)
qed

lemma refuse_same: "refuse e request code st = Some (st1, w, ev) \<Longrightarrow> st1 = st"
  by (auto simp: refuse_def)

lemma subscribe_service_ok:
  assumes ok: "sys_ok st F" and has: "has_service h service st" and k: "new_sid (''uuid:'' @ r_uuid e) st"
    and run: "subscribe_service e request h x service st = Some (st1, w, ev)"
  shows "sys_ok st1 F \<and> handed st1 = handed st \<and> GlobalHndRWLock st1 = GlobalHndRWLock st"
proof (cases "st1 = st")
  case False
  have no: "refuse e request code st \<noteq> Some (st1, w, ev)" for code
    using refuse_same False by blast
  obtain cb where cb: "find_hdr request HDR_CALLBACK = Some cb"
    using run no by (auto simp: subscribe_service_def split: if_splits option.splits)
  obtain urls n where u: "create_url_list (r_net e) (r_urls_ok1 e) (r_urls_ok2 e) (r_junk e) (block cb) (mlength cb) = Some (urls, n)"
    using run no cb by (auto simp: subscribe_service_def Option.bind_eq_Some_conv split: if_splits)
  obtain t0 where t: "asked_timeout (r_net e) request = Some t0"
    using run no cb u by (auto simp: subscribe_service_def Option.bind_eq_Some_conv split: if_splits)
  define sub where "sub = new_subscription (''uuid:'' @ r_uuid e) (if 0 \<le> limit_timeout x t0 then r_now e + limit_timeout x t0 else 0) urls"
  obtain w1 rc where r: "respond_ok (r_answer e) (r_info e) (limit_timeout x t0) sub request = Some (w1, rc)"
    using run no False cb u t by (auto simp: subscribe_service_def Option.bind_eq_Some_conv sub_def Let_def split: if_splits)
  have "st1 = put_service h service (service\<lparr>subscriptionList := sub # subscriptionList service,
       TotalSubscriptions := TotalSubscriptions service + 1\<rparr>) st"
    using run no False cb u t r by (simp add: subscribe_service_def sub_def Let_def split: if_splits)
  moreover have "sid sub = ''uuid:'' @ r_uuid e" "outgoing sub = []"
    by (simp_all add: sub_def new_subscription_def)
  ultimately show ?thesis
    using service_insert [OF ok has, of sub] k by simp
qed (use ok in simp)

lemma subscription_request_ok:
  assumes ok: "sys_ok st F" and l: "\<not> GlobalHndRWLock st" and k: "new_sid (''uuid:'' @ r_uuid e) st"
    and run: "gena_process_subscription_request e request st = Some (st1, w, ev)"
  shows "kept_by st F st1"
proof (cases "st1 = st")
  case False
  have no: "refuse e request code st \<noteq> Some (st1, w, ev)" for code
    using refuse_same False by blast
  obtain nt where nt: "find_hdr request HDR_NT = Some nt"
    using run no by (auto simp: gena_process_subscription_request_def split: option.splits)
  obtain path len ms1 m where m: "request_path request = (path, len)" "str_alloc (r_path_ms e) path len = Some (ms1, Some m)"
    using run no nt by (auto simp: gena_process_subscription_request_def Option.bind_eq_Some_conv split: if_splits prod.splits option.splits)
  obtain st2 r st3 where s: "HandleLock st = Some st2" "HandleUnlock st3 = Some st1"
    "GetDeviceHandleInfoForPath (r_net e) (Some (c_str m)) (ss_family (foreign_sockaddr (r_info e))) st2 = Some r"
    "(case r of None \<Rightarrow> refuse e request HTTP_INTERNAL_SERVER_ERROR st2
      | Some (h, x, service) \<Rightarrow> subscribe_service e request h x service st2) = Some (st3, w, ev)"
    using run no nt m by (auto simp: gena_process_subscription_request_def Option.bind_eq_Some_conv split: if_splits)
  note lk = lock_ok [OF s(1) ok]
  have "new_sid (''uuid:'' @ r_uuid e) st2"
    using k s(1) by (auto simp: new_sid_def HandleLock_def all_subs_def split: if_splits)
  then have "sys_ok st3 F \<and> handed st3 = handed st2"
  proof (cases r)
    case None
    then show ?thesis
      using s(4) lk refuse_same [of e request HTTP_INTERNAL_SERVER_ERROR st2 st3] by simp
  next
    case (Some y)
    obtain h x service where y: "y = (h, x, service)"
      by (cases y)
    have "has_service h service st2"
      using GetDeviceHandleInfoForPath_has [of st2 F] s(3) lk unfolding Some y by blast
    then show ?thesis
      using subscribe_service_ok [of st2 F h service e request x st3 w ev] s(4) lk \<open>new_sid _ st2\<close> by (simp add: Some y)
  qed
  then show ?thesis
    using unlock_ok [OF s(2)] lk by (intro kept_byI) auto
qed (use ok l in \<open>auto intro: kept_byI\<close>)

lemma named_subscription_ok:
  assumes ok: "sys_ok st F" and run: "named_subscription e request st = Some (st1, r)"
  shows "sys_ok st1 F \<and> handed st1 = handed st \<and> GlobalHndRWLock st1 = GlobalHndRWLock st"
    and "r = Inr (k, h, x, service, s) \<Longrightarrow> has_service h service st1 \<and> find (\<lambda>s. sid s = k) (subscriptionList service) = Some s"
proof -
  obtain v where v: "find_hdr request HDR_SID = Some v"
    using run by (auto simp: named_subscription_def split: option.splits)
  define k0 where "k0 = c_str (contents v)"
  obtain path len where p: "request_path request = (path, len)"
    by (cases "request_path request")
  obtain ms1 m rc y where y: "membuffer_append (r_path_ms e) empty_membuffer (Some path) len = Some (ms1, m, rc)"
    "GetDeviceHandleInfoForPath (r_net e) (map_option c_str (buf m)) (ss_family (foreign_sockaddr (r_info e))) st = Some y"
    using run v p by (auto simp: named_subscription_def Option.bind_eq_Some_conv Let_def)
  have "(sys_ok st1 F \<and> handed st1 = handed st \<and> GlobalHndRWLock st1 = GlobalHndRWLock st) \<and>
    (\<forall>k h x service s. r = Inr (k, h, x, service, s) \<longrightarrow> has_service h service st1 \<and> find (\<lambda>s. sid s = k) (subscriptionList service) = Some s)"
  proof (cases "\<exists>h x service. y = Some (h, x, service) \<and> service_active service")
    case False
    then have "st1 = st \<and> r = Inl HTTP_PRECONDITION_FAILED"
      using run v p y by (cases y) (auto simp: named_subscription_def Let_def split: prod.splits)
    then show ?thesis
      using ok by simp
  next
    case True
    then obtain h x service where h: "y = Some (h, x, service)" "service_active service"
      by blast
    have has: "has_service h service st"
      using GetDeviceHandleInfoForPath_has [OF ok] y(2) h(1) by blast
    obtain service1 sub st2 where g: "get_sid (r_now e) k0 service st = Some (service1, sub, st2)"
      using run v p y h by (auto simp: named_subscription_def Option.bind_eq_Some_conv Let_def k0_def)
    then have "st1 = put_service h service service1 st2" "r = (case sub of None \<Rightarrow> Inl HTTP_PRECONDITION_FAILED | Some s \<Rightarrow> Inr (k0, h, x, service1, s))"
      using run v p y h by (auto simp: named_subscription_def Let_def k0_def [symmetric])
    then show ?thesis
      using get_sid_service [OF ok has g] by (auto split: option.splits)
  qed
  then show "sys_ok st1 F \<and> handed st1 = handed st \<and> GlobalHndRWLock st1 = GlobalHndRWLock st"
    "r = Inr (k, h, x, service, s) \<Longrightarrow> has_service h service st1 \<and> find (\<lambda>s. sid s = k) (subscriptionList service) = Some s"
    by blast+
qed

lemma remove_service_ok:
  assumes ok: "sys_ok st F" and has: "has_service h service st" and run: "remove_sid k service1 st = Some (service2, st1)"
    and s: "\<And>N. events_ok (subs_of service + N) F st \<Longrightarrow> events_ok (subs_of service1 + N) F st"
  shows "sys_ok (put_service h service service2 st1) F" and "handed st1 = handed st" and "GlobalHndRWLock st1 = GlobalHndRWLock st"
proof -
  have step: "(\<exists>J A ev'. st1 = freed J A ev' st) \<and> events_ok (subs_of service2 + N) F st1" if "events_ok (subs_of service + N) F st" for N
    using remove_sid_ok(1) [OF s [OF that] run] by blast
  obtain J A ev' where st1: "st1 = freed J A ev' st"
    using step sys_okD [OF ok has] by blast
  show "sys_ok (put_service h service service2 st1) F"
    using step by (intro service_update(1) [OF ok has]) (simp_all add: st1)
  show "handed st1 = handed st" "GlobalHndRWLock st1 = GlobalHndRWLock st"
    by (simp_all add: st1)
qed

lemma renew_service_ok:
  assumes ok: "sys_ok st F" and has: "has_service h service st" and f: "find (\<lambda>s. sid s = k) (subscriptionList service) = Some s"
    and run: "renew_service e request k h x service s st = Some (st1, w, ev)"
  shows "sys_ok st1 F \<and> handed st1 = handed st \<and> GlobalHndRWLock st1 = GlobalHndRWLock st"
proof (cases "MaxSubscriptions x \<noteq> - 1 \<and> MaxSubscriptions x < TotalSubscriptions service")
  case True
  then obtain st2 service1 st3 where r2: "refuse e request HTTP_INTERNAL_SERVER_ERROR st = Some (st2, w, ev)"
    "remove_sid (sid s) service st2 = Some (service1, st3)" "st1 = put_service h service service1 st3"
    using run by (auto simp: renew_service_def Option.bind_eq_Some_conv)
  then have r: "remove_sid (sid s) service st = Some (service1, st3)"
    using refuse_same [OF r2(1)] by simp
  show ?thesis
    using remove_service_ok [OF ok has r] by (simp add: r2(3))
next
  case False
  then obtain t0 where t: "asked_timeout (r_net e) request = Some t0"
    using run by (auto simp: renew_service_def Option.bind_eq_Some_conv)
  define s1 where "s1 = s\<lparr>expireTime := (if limit_timeout x t0 = - 1 then 0 else r_now e + limit_timeout x t0)\<rparr>"
  define service1 where "service1 = update_sid k s1 service"
  obtain w1 rc where a: "respond_ok (r_answer e) (r_info e) (limit_timeout x t0) s1 request = Some (w1, rc)"
    using run False t by (auto simp: renew_service_def Option.bind_eq_Some_conv Let_def s1_def)
  have same: "events_ok (subs_of service1 + N) F st" if ev: "events_ok (subs_of service + N) F st" for N
  proof -
    define M where "M = subs_of service - {#s#} + N"
    have M: "subs_of service + N = add_mset s M" "subs_of service1 + N = add_mset s1 M"
      using update_sid_minus(1,2) [OF f] by (simp_all add: M_def service1_def)
    have "\<not> active s \<longrightarrow> outgoing s = []"
      using queue_ok_of [OF ev, of s] M(1) by (simp add: queue_ok_def)
    then show ?thesis
      using ev unfolding M by (rule_tac events_ok_same_queue) (simp_all add: s1_def)
  qed
  show ?thesis
  proof (cases "rc = UPNP_E_SUCCESS")
    case True
    then have "st1 = put_service h service service1 st"
      using run False t a by (auto simp: renew_service_def Let_def s1_def service1_def split: if_splits)
    then show ?thesis
      using service_update(1) [OF ok has, of st service1 F] same by simp
  next
    case r: False
    then obtain service2 st3 where "remove_sid (sid s1) service1 st = Some (service2, st3)" "st1 = put_service h service service2 st3"
      using run False t a by (auto simp: renew_service_def Let_def s1_def service1_def Option.bind_eq_Some_conv split: if_splits)
    then show ?thesis
      using remove_service_ok [OF ok has _ same] by simp
  qed
qed

lemma renewal_request_ok:
  assumes ok: "sys_ok st F" and l: "\<not> GlobalHndRWLock st"
    and run: "gena_process_subscription_renewal_request e request st = Some (st1, w, ev)"
  shows "kept_by st F st1"
proof (cases "st1 = st")
  case False
  obtain bad where bad: "bad_sid_request e request = Some bad"
    using run by (auto simp: gena_process_subscription_renewal_request_def Option.bind_eq_Some_conv)
  have b: "bad_sid_request e request = Some None"
  proof (cases bad)
    case (Some code)
    then show ?thesis
      using run bad refuse_same [of e request code st st1 w ev] False by (simp add: gena_process_subscription_renewal_request_def)
  qed (use bad in simp)
  obtain st2 st3 r st4 where s: "HandleLock st = Some st2" "named_subscription e request st2 = Some (st3, r)" "HandleUnlock st4 = Some st1"
    "(case r of Inl code \<Rightarrow> refuse e request code st3
      | Inr (k, h, x, service, sub) \<Rightarrow> renew_service e request k h x service sub st3) = Some (st4, w, ev)"
    using run b by (auto simp: gena_process_subscription_renewal_request_def Option.bind_eq_Some_conv)
  note lk = lock_ok [OF s(1) ok]
  have n: "sys_ok st3 F \<and> handed st3 = handed st2"
    using named_subscription_ok(1) [OF _ s(2), of F] lk by simp
  have "sys_ok st4 F \<and> handed st4 = handed st3"
  proof (cases r)
    case (Inl code)
    then show ?thesis
      using s(4) n refuse_same [of e request code st3 st4] by simp
  next
    case (Inr y)
    obtain k h x service sub where y: "y = (k, h, x, service, sub)"
      by (cases y)
    show ?thesis
      using renew_service_ok [of st3 F h service k sub e request x st4 w ev] named_subscription_ok(2) [OF _ s(2), of F k h x service sub] s(4) n lk
      by (simp add: Inr y)
  qed
  then show ?thesis
    using unlock_ok [OF s(3)] lk n by (intro kept_byI) auto
qed (use ok l in \<open>auto intro: kept_byI\<close>)

lemma unsubscribe_request_ok:
  assumes ok: "sys_ok st F" and l: "\<not> GlobalHndRWLock st"
    and run: "gena_process_unsubscribe_request e request st = Some (st1, w, ev)"
  shows "kept_by st F st1"
proof (cases "st1 = st")
  case False
  obtain bad where bad: "bad_sid_request e request = Some bad"
    using run by (auto simp: gena_process_unsubscribe_request_def Option.bind_eq_Some_conv)
  have b: "bad_sid_request e request = Some None"
  proof (cases bad)
    case (Some code)
    then show ?thesis
      using run bad refuse_same [of e request code st st1 w ev] False by (simp add: gena_process_unsubscribe_request_def)
  qed (use bad in simp)
  obtain st2 st3 r st4 where s: "HandleLock st = Some st2" "named_subscription e request st2 = Some (st3, r)" "HandleUnlock st4 = Some st1"
    "(case r of Inl code \<Rightarrow> refuse e request code st3
      | Inr (k, h, x, service, sub) \<Rightarrow>
          do { (service1, st5) \<leftarrow> remove_sid k service st3; refuse e request HTTP_OK (put_service h service service1 st5) }) = Some (st4, w, ev)"
    using run b by (auto simp: gena_process_unsubscribe_request_def Option.bind_eq_Some_conv)
  note lk = lock_ok [OF s(1) ok]
  have n: "sys_ok st3 F \<and> handed st3 = handed st2"
    using named_subscription_ok(1) [OF _ s(2), of F] lk by simp
  have "sys_ok st4 F \<and> handed st4 = handed st3"
  proof (cases r)
    case (Inl code)
    then show ?thesis
      using s(4) n refuse_same [of e request code st3 st4] by simp
  next
    case (Inr y)
    obtain k h x service sub where y: "y = (k, h, x, service, sub)"
      by (cases y)
    have has: "has_service h service st3"
      using named_subscription_ok(2) [OF _ s(2), of F k h x service sub] lk by (simp add: Inr y)
    obtain service1 st5 where d: "remove_sid k service st3 = Some (service1, st5)"
      "refuse e request HTTP_OK (put_service h service service1 st5) = Some (st4, w, ev)"
      using s(4) by (auto simp: Inr y Option.bind_eq_Some_conv)
    have "st4 = put_service h service service1 st5"
      using refuse_same [OF d(2)] by simp
    then show ?thesis
      using remove_service_ok [of st3 F h service k service service1 st5] n has d(1) by simp
  qed
  then show ?thesis
    using unlock_ok [OF s(3)] lk n by (intro kept_byI) auto
qed (use ok l in \<open>auto intro: kept_byI\<close>)

lemma genaCallback_ok:
  assumes "sys_ok st F" and l: "\<not> GlobalHndRWLock st" and "new_sid (''uuid:'' @ r_uuid e) st" and "pmethod request \<noteq> HTTPMETHOD_NOTIFY"
    and run: "genaCallback notified e request st = Some (st1, w, ev)"
  shows "kept_by st F st1"
proof -
  have "kept_by st F st1" if "refuse e request code st = Some (st1, w, ev)" for code
    using refuse_same [OF that] kept_byI [OF assms(1) refl l] by simp
  then show ?thesis
    using run subscription_request_ok [OF assms(1-3)] renewal_request_ok [OF assms(1,2)] unsubscribe_request_ok [OF assms(1,2)] assms(4)
    by (auto simp: genaCallback_def split: if_splits)
qed

section \<open>Runs\<close>

text \<open>
  A state of the system: the state of the library, the structures whose jobs a worker of the pool has taken, and those of them whose job is
  between its two sections. The pool starts or drops a job it has accepted at most once. The calls have enough
  memory (\<open>False\<close> in a script is a failing allocation); the pool, the time and the network do what they want.
\<close>

type_synonym device_state = "gena_state \<times> nat set \<times> nat set"

definition waiting_jobs :: "device_state \<Rightarrow> nat set" where
  "waiting_jobs d = (case d of (st, S, T) \<Rightarrow> set (handed st) - S)"

definition in_flight :: "device_state \<Rightarrow> nat set" where
  "in_flight d = (case d of (st, S, T) \<Rightarrow> {a \<in> set (handed st). a \<notin> S \<or> a \<in> T})"

text \<open>No events yet; the table may have devices and subscriptions.\<close>

definition no_events :: "gena_state \<Rightarrow> bool" where
  "no_events st \<longleftrightarrow> jobs st = Map.empty \<and> structs st = Map.empty \<and> events st = Map.empty \<and> handed st = [] \<and>
     \<not> GlobalHndRWLock st \<and> length (HandleTable st) = nat NUM_HANDLE \<and> distinct (map sid (concat (map slot_subs (HandleTable st)))) \<and>
     list_all (\<lambda>s. outgoing s = []) (concat (map slot_subs (HandleTable st)))"

inductive device_step :: "device_state \<Rightarrow> device_state \<Rightarrow> bool" where
  register: "UpnpRegisterRootDevice3 net mem ms download url f cookie have_hnd family lower st = Some (st1, ret, hnd) \<Longrightarrow>
     device_step (st, S, T) (st1, S, T)"
| client: "UpnpRegisterClient mem junk fn cookie have_hnd st = Some (st1, ret, hnd) \<Longrightarrow> device_step (st, S, T) (st1, S, T)"
| unregister: "genaUnregisterDevice h st = Some (st1, ret) \<Longrightarrow> device_step (st, S, T) (st1, S, T)"
| power: "power_section h ps sp rs st = Some (st1, b) \<Longrightarrow> device_step (st, S, T) (st1, S, T)"
| release: "release_section h st = Some (st1, b) \<Longrightarrow> device_step (st, S, T) (st1, S, T)"
| subscriptions: "UpnpSetMaxSubscriptions h n st = Some (st1, ret) \<Longrightarrow> device_step (st, S, T) (st1, S, T)"
| time_out: "UpnpSetMaxSubscriptionTimeOut h n st = Some (st1, ret) \<Longrightarrow> device_step (st, S, T) (st1, S, T)"
| limits: "UpnpSetEventQueueLimits n m st = (st1, ret) \<Longrightarrow> device_step (st, S, T) (st1, S, T)"
| request: "genaCallback notified e request st = Some (st1, w, ev) \<Longrightarrow> pmethod request \<noteq> HTTPMETHOD_NOTIFY \<Longrightarrow>
     new_sid (''uuid:'' @ r_uuid e) st \<Longrightarrow> device_step (st, S, T) (st1, S, T)"
| accept: "UpnpAcceptSubscription now ok1 ok2 pre ms pe h u k names values cnt sd st = Some (st1, ret) \<Longrightarrow> False \<notin> set ms \<Longrightarrow>
     device_step (st, S, T) (st1, S, T)"
| accept_ext: "UpnpAcceptSubscriptionExt now pre ms pe h u k have_doc printed sd st = Some (st1, ret) \<Longrightarrow> False \<notin> set ms \<Longrightarrow>
     device_step (st, S, T) (st1, S, T)"
| notify: "UpnpNotify now ok1 ok2 pre ms pes h u k names values cnt st = Some (st1, ret) \<Longrightarrow> False \<notin> set ms \<Longrightarrow>
     device_step (st, S, T) (st1, S, T)"
| notify_ext: "UpnpNotifyExt now pre ms pes h u k printed st = Some (st1, ret) \<Longrightarrow> False \<notin> set ms \<Longrightarrow>
     device_step (st, S, T) (st1, S, T)"
| pool: "device_step (st, S, T) (st\<lparr>gSendThreadPool := tp\<rparr>, S, T)"
| job_begin: "a \<in> waiting_jobs (st, S, T) \<Longrightarrow> notify_begin now ok1 ok2 junk a st = Some (st1, copy) \<Longrightarrow>
     device_step (st, S, T) (st1, insert a S, if copy = None then T else insert a T)"
| job_end: "a \<in> T \<Longrightarrow> notify_end now pe return_code a st = Some st1 \<Longrightarrow> device_step (st, S, T) (st1, S, T - {a})"
| job_drop: "a \<in> waiting_jobs (st, S, T) \<Longrightarrow> free_notify_struct a st = Some st1 \<Longrightarrow> device_step (st, S, T) (st1, insert a S, T)"

inductive device_run :: "device_state \<Rightarrow> bool" where
  start: "no_events st \<Longrightarrow> device_run (st, {}, {})"
| step: "device_run d \<Longrightarrow> device_step d d1 \<Longrightarrow> device_run d1"

definition device_ok :: "device_state \<Rightarrow> bool" where
  "device_ok d = (case d of (st, S, T) \<Rightarrow>
     sys_ok st (in_flight d) \<and> S \<subseteq> set (handed st) \<and> T \<subseteq> S \<and> \<not> GlobalHndRWLock st)"

lemma no_events_ok:
  assumes "no_events st"
  shows "device_ok (st, {}, {})"
proof -
  let ?ss = "concat (map slot_subs (HandleTable st))"
  have empty: "outgoing s = []" if "s \<in># all_subs st" for s
    using assms that by (auto simp: no_events_def all_subs_def list_all_iff)
  have "count (image_mset sid (all_subs st)) k \<le> 1" for k
    using assms by (metis (no_types, lifting) all_subs_def distinct_count_atmost_1 no_events_def le_less linorder_not_le mset_map zero_le_one)
  then have "sids_ok (all_subs st)"
    using empty by (simp add: sids_ok_def)
  moreover have "memory_ok st"
    using assms by (simp add: no_events_def memory_ok_def)
  moreover have "entries_ok (all_subs st) st" "waiting_ok (all_subs st) st" "flight_ok (all_subs st) {} st"
    using empty by (simp_all add: entries_ok_def waiting_ok_def flight_ok_def)
  ultimately show ?thesis
    using assms by (simp add: device_ok_def sys_ok_def events_ok_def in_flight_def no_events_def)
qed

lemma device_ok_kept:
  assumes "device_ok (st, S, T)" and "kept_by st (in_flight (st, S, T)) st1"
  shows "device_ok (st1, S, T)"
proof -
  obtain X where X: "sys_ok st1 (in_flight (st, S, T) \<union> X)" "set (handed st1) = set (handed st) \<union> X" "X \<inter> set (handed st) = {}"
    "\<not> GlobalHndRWLock st1"
    using assms(2) unfolding kept_by_def by blast
  have "in_flight (st1, S, T) = in_flight (st, S, T) \<union> X"
    using X(2,3) assms(1) by (auto simp: in_flight_def device_ok_def)
  then show ?thesis
    using X assms(1) by (auto simp: device_ok_def)
qed

lemma job_begin_ok:
  assumes d: "device_ok (st, S, T)" and a: "a \<in> waiting_jobs (st, S, T)" and run: "notify_begin now ok1 ok2 junk a st = Some (st1, copy)"
  shows "device_ok (st1, insert a S, if copy = None then T else insert a T)"
proof -
  have a1: "a \<in> in_flight (st, S, T)" "a \<notin> S" "a \<in> set (handed st)"
    using a by (auto simp: waiting_jobs_def in_flight_def)
  note b = notify_begin_ok [OF _ a1(1) run]
  have "in_flight (st1, insert a S, if copy = None then T else insert a T) =
      (if copy = None then in_flight (st, S, T) - {a} else in_flight (st, S, T))"
    using b(2) d a1 by (auto simp: in_flight_def device_ok_def)
  then show ?thesis
    using b d a1 by (auto simp: device_ok_def)
qed

lemma job_end_ok:
  assumes d: "device_ok (st, S, T)" and a: "a \<in> T" and run: "notify_end now pe return_code a st = Some st1"
  shows "device_ok (st1, S, T - {a})"
proof -
  have a1: "a \<in> in_flight (st, S, T)" "a \<in> S"
    using a d by (auto simp: in_flight_def device_ok_def)
  obtain X where X: "sys_ok st1 (in_flight (st, S, T) - {a} \<union> X)" "set (handed st1) = set (handed st) \<union> X" "X \<inter> set (handed st) = {}"
    "\<not> GlobalHndRWLock st1"
    using notify_end_ok [OF _ a1(1) run] d unfolding device_ok_def by auto
  have "in_flight (st1, S, T - {a}) = in_flight (st, S, T) - {a} \<union> X"
    using X(2,3) d a1 by (auto simp: in_flight_def device_ok_def)
  then show ?thesis
    using X d by (auto simp: device_ok_def)
qed

lemma job_drop_ok:
  assumes d: "device_ok (st, S, T)" and a: "a \<in> waiting_jobs (st, S, T)" and run: "free_notify_struct a st = Some st1"
  shows "device_ok (st1, insert a S, T)"
proof -
  have a1: "a \<in> in_flight (st, S, T)" "a \<notin> S" "a \<in> set (handed st)" "a \<notin> T"
    using a d by (auto simp: waiting_jobs_def in_flight_def device_ok_def)
  obtain n where "structs st a = Some n"
    using free_notify_struct_Some [OF run] by blast
  then have f: "sys_ok st1 (in_flight (st, S, T) - {a})" "same_table st st1" "handed st1 = handed st"
    using free_flying [OF sys_ok_less [of st "in_flight (st, S, T)" "in_flight (st, S, T) - {a}"] _ a1(3) _ run] d
    by (auto simp: device_ok_def)
  have "in_flight (st1, insert a S, T) = in_flight (st, S, T) - {a}"
    using f(3) a1 by (auto simp: in_flight_def)
  then show ?thesis
    using f d a1 by (auto simp: device_ok_def same_table_def)
qed

lemma limits_ok:
  assumes "sys_ok st F" and "\<not> GlobalHndRWLock st"
  shows "UpnpSetMaxSubscriptions h n st = Some (st1, ret) \<Longrightarrow> kept_by st F st1"
    and "UpnpSetMaxSubscriptionTimeOut h n st = Some (st1, ret) \<Longrightarrow> kept_by st F st1"
    and "UpnpSetEventQueueLimits n m st = (st1, ret) \<Longrightarrow> kept_by st F st1"
proof -
  show "UpnpSetMaxSubscriptions h n st = Some (st1, ret) \<Longrightarrow> kept_by st F st1"
    using set_limit_ok [OF assms, of "\<lambda>x. x\<lparr>MaxSubscriptions := n\<rparr>" h n] by (simp add: UpnpSetMaxSubscriptions_def)
  show "UpnpSetMaxSubscriptionTimeOut h n st = Some (st1, ret) \<Longrightarrow> kept_by st F st1"
    using set_limit_ok [OF assms, of "\<lambda>x. x\<lparr>MaxSubscriptionTimeOut := n\<rparr>" h n] by (simp add: UpnpSetMaxSubscriptionTimeOut_def)
  show "UpnpSetEventQueueLimits n m st = (st1, ret) \<Longrightarrow> kept_by st F st1"
    using assms by (auto simp: UpnpSetEventQueueLimits_def intro!: kept_byI)
qed

text \<open>
  The contract that all calls share: when the memory suffices, a call keeps the invariant, takes no event out of flight and
  leaves the lock free.
\<close>

locale device_call =
  fixes guard :: "gena_state \<Rightarrow> bool"
    and call :: "gena_state \<Rightarrow> gena_state option"
  assumes keeps: "sys_ok st F \<Longrightarrow> \<not> GlobalHndRWLock st \<Longrightarrow> guard st \<Longrightarrow> call st = Some st1 \<Longrightarrow> kept_by st F st1"
begin

lemma device:
  assumes "device_ok (st, S, T)" and "guard st" and "call st = Some st1"
  shows "device_ok (st1, S, T)"
  using device_ok_kept [OF assms(1)] keeps [OF _ _ assms(2,3)] assms(1) by (simp add: device_ok_def)

lemma flight_kept:
  assumes "device_ok (st, S, T)" and "guard st" and "call st = Some st1"
  shows "in_flight (st, S, T) \<subseteq> in_flight (st1, S, T)"
  using keeps [OF _ _ assms(2,3), of "in_flight (st, S, T)"] assms(1) by (auto simp: device_ok_def kept_by_def in_flight_def)

end

interpretation register_call: device_call "\<lambda>st. True" "\<lambda>st. map_option fst (UpnpRegisterRootDevice3 net mem ms download url f cookie have_hnd family lower st)" for net mem ms download url f cookie have_hnd family lower
  by unfold_locales (auto intro: UpnpRegisterRootDevice3_ok)

interpretation client_call: device_call "\<lambda>st. True" "\<lambda>st. map_option fst (UpnpRegisterClient mem junk fn cookie have_hnd st)" for mem junk fn cookie have_hnd
  by unfold_locales (auto intro: UpnpRegisterClient_ok)

interpretation unregister_call: device_call "\<lambda>st. True" "\<lambda>st. map_option fst (genaUnregisterDevice h st)" for h
  by unfold_locales (auto intro: genaUnregisterDevice_ok)

interpretation power_call: device_call "\<lambda>st. True" "\<lambda>st. map_option fst (power_section h ps sp rs st)" for h ps sp rs
  by unfold_locales (auto intro: power_section_ok)

interpretation release_call: device_call "\<lambda>st. True" "\<lambda>st. map_option fst (release_section h st)" for h
  by unfold_locales (auto intro: release_section_ok)

interpretation subscriptions_call: device_call "\<lambda>st. True" "\<lambda>st. map_option fst (UpnpSetMaxSubscriptions h n st)" for h n
  by unfold_locales (auto intro: limits_ok)

interpretation time_out_call: device_call "\<lambda>st. True" "\<lambda>st. map_option fst (UpnpSetMaxSubscriptionTimeOut h n st)" for h n
  by unfold_locales (auto intro: limits_ok)

interpretation limits_call: device_call "\<lambda>st. True" "\<lambda>st. map_option fst (Some (UpnpSetEventQueueLimits n m st))" for n m
  by unfold_locales (auto simp: UpnpSetEventQueueLimits_def intro: kept_byI)

interpretation request_call: device_call "\<lambda>st. pmethod request \<noteq> HTTPMETHOD_NOTIFY \<and> new_sid (''uuid:'' @ r_uuid e) st" "\<lambda>st. map_option fst (genaCallback notified e request st)" for notified e request
  by unfold_locales (auto intro: genaCallback_ok)

interpretation accept_call: device_call "\<lambda>st. False \<notin> set ms" "\<lambda>st. map_option fst (UpnpAcceptSubscription now ok1 ok2 pre ms pe h u k names values cnt sd st)" for now ok1 ok2 pre ms pe h u k names "values" cnt sd
  by unfold_locales (auto intro: UpnpAcceptSubscription_ok)

interpretation accept_ext_call: device_call "\<lambda>st. False \<notin> set ms" "\<lambda>st. map_option fst (UpnpAcceptSubscriptionExt now pre ms pe h u k have_doc printed sd st)" for now pre ms pe h u k have_doc printed sd
  by unfold_locales (auto intro: UpnpAcceptSubscriptionExt_ok)

interpretation notify_call: device_call "\<lambda>st. False \<notin> set ms" "\<lambda>st. map_option fst (UpnpNotify now ok1 ok2 pre ms pes h u k names values cnt st)" for now ok1 ok2 pre ms pes h u k names "values" cnt
  by unfold_locales (auto intro: UpnpNotify_ok)

interpretation notify_ext_call: device_call "\<lambda>st. False \<notin> set ms" "\<lambda>st. map_option fst (UpnpNotifyExt now pre ms pes h u k printed st)" for now pre ms pes h u k printed
  by unfold_locales (auto intro: UpnpNotifyExt_ok)

lemma fst_some: "r = Some (st, x) \<Longrightarrow> map_option fst r = Some st"
  by simp

lemma device_step_ok: "device_step d d1 \<Longrightarrow> device_ok d \<Longrightarrow> device_ok d1"
proof (induction rule: device_step.induct)
  case register
  show ?case
    by (rule register_call.device [OF register(2) TrueI fst_some [OF register(1)]])
next
  case client
  show ?case
    by (rule client_call.device [OF client(2) TrueI fst_some [OF client(1)]])
next
  case unregister
  show ?case
    by (rule unregister_call.device [OF unregister(2) TrueI fst_some [OF unregister(1)]])
next
  case power
  show ?case
    by (rule power_call.device [OF power(2) TrueI fst_some [OF power(1)]])
next
  case release
  show ?case
    by (rule release_call.device [OF release(2) TrueI fst_some [OF release(1)]])
next
  case subscriptions
  show ?case
    by (rule subscriptions_call.device [OF subscriptions(2) TrueI fst_some [OF subscriptions(1)]])
next
  case time_out
  show ?case
    by (rule time_out_call.device [OF time_out(2) TrueI fst_some [OF time_out(1)]])
next
  case limits
  show ?case
    by (rule limits_call.device [OF limits(2) TrueI fst_some [OF arg_cong [OF limits(1), of Some]]])
next
  case request
  show ?case
    by (rule request_call.device [OF request(4) conjI [OF request(2,3)] fst_some [OF request(1)]])
next
  case accept
  show ?case
    by (rule accept_call.device [OF accept(3) accept(2) fst_some [OF accept(1)]])
next
  case accept_ext
  show ?case
    by (rule accept_ext_call.device [OF accept_ext(3) accept_ext(2) fst_some [OF accept_ext(1)]])
next
  case notify
  show ?case
    by (rule notify_call.device [OF notify(3) notify(2) fst_some [OF notify(1)]])
next
  case notify_ext
  show ?case
    by (rule notify_ext_call.device [OF notify_ext(3) notify_ext(2) fst_some [OF notify_ext(1)]])
next
  case (pool st S T tp)
  then show ?case
    by (simp add: device_ok_def in_flight_def)
next
  case job_begin
  then show ?case
    using job_begin_ok by blast
next
  case job_end
  then show ?case
    using job_end_ok by blast
next
  case job_drop
  then show ?case
    using job_drop_ok by blast
qed

lemma device_run_ok: "device_run d \<Longrightarrow> device_ok d"
  by (induction rule: device_run.induct) (auto intro: no_events_ok device_step_ok)

end
