(* ===== verification/DeviceProperties.thy ===== *)
theory DeviceProperties
  imports DeviceSystem
begin

text \<open>
  The properties of the device side of the library, and an example: one device with one service and one active subscription.
\<close>

section \<open>The property set\<close>

definition property_set_text :: "(string \<times> string) list \<Rightarrow> string" where
  "property_set_text nvs =
     XML_PROPERTYSET_HEADER @ concat (map (\<lambda>nv. property_begin @ property_text nv) nvs) @ propertyset_end"

lemma property_length: "length (property_begin @ property_text nv) = property_size nv"
  by (cases nv) (simp add: property_text_def property_size_def)

lemma put_properties_text:
  "length b + sum_list (map property_size nvs) < n \<Longrightarrow>
   put_properties n nvs b = Some (b @ concat (map (\<lambda>nv. property_begin @ property_text nv) nvs))"
proof (induction nvs arbitrary: b)
  case (Cons nv nvs)
  have "length property_begin + length (property_text nv) = property_size nv"
    using property_length [of nv] by simp
  then show ?case
    using Cons by (simp add: put_text_def)
qed simp

text \<open>
  \<open>GeneratePropertySet\<close> allocates exactly as many bytes as it writes: with memory it returns the whole
  property set, one property for each variable in order, and it never writes behind its buffer, whatever the names and values are.
\<close>

lemma GeneratePropertySet_text:
  assumes "nat cnt \<le> length names" and "nat cnt \<le> length values"
  shows "GeneratePropertySet True True names values cnt =
    Some (Some (property_set_text (zip (take (nat cnt) names) (take (nat cnt) values))), XML_SUCCESS)"
proof -
  let ?nvs = "zip (take (nat cnt) names) (take (nat cnt) values)"
  let ?body = "concat (map (\<lambda>nv. property_begin @ property_text nv) ?nvs)"
  have "length ?body = sum_list (map property_size ?nvs)"
    by (simp only: length_concat map_map o_def property_length)
  then show ?thesis
    using assms
    by (simp add: GeneratePropertySet_def Let_def put_text_def put_properties_text property_set_text_def)
qed

lemma AllocGenaHeaders_text: "\<exists>hs. AllocGenaHeaders True (Some ps) = Some (Some hs)"
  by (simp add: AllocGenaHeaders_def Let_def)

section \<open>An example\<close>

definition watcher :: subscription where
  "watcher = \<lparr>sid = ''uuid:1'', ToSendEventKey = 0, expireTime = 0, active = True,
     DeliveryURLs = \<lparr>usize = 0, URLs = Some [NUL], parsedURLs = Some []\<rparr>, outgoing = []\<rparr>"

definition demo_switch :: service_info where
  "demo_switch = \<lparr>serviceType = Some ''t'', serviceId = Some ''s'', SCPDURL = Some [], controlURL = Some [], eventURL = Some [],
     UDN = Some ''u'', service_active = True, TotalSubscriptions = 1, subscriptionList = [watcher]\<rparr>"

definition demo_device_info :: Handle_Info where
  "demo_device_info = (device_info ''d'' None 7 8 AF_INET)\<lparr>ServiceTable := \<lparr>URLBase = None, serviceList = [demo_switch]\<rparr>\<rparr>"

definition idle_pool :: ThreadPool where
  "idle_pool = demo_pool\<lparr>lowJobQ := q_empty, medJobQ := q_empty\<rparr>"

definition switch_state :: gena_state where
  "switch_state = \<lparr>HandleTable = (replicate 200 None)[Suc 0 := Some demo_device_info], GlobalHndRWLock = False, UpnpSdkInit = 1,
     UpnpSdkClientRegistered = 0, UpnpSdkDeviceRegisteredV4 = 1, UpnpSdkDeviceregisteredV6 = 0, jobs = Map.empty, structs = Map.empty,
     events = Map.empty, fresh = 1, gSendThreadPool = idle_pool, handed = [], g_UpnpSdkEQMaxLen = 100, g_UpnpSdkEQMaxAge = 30\<rparr>"

definition notified_info :: Handle_Info where
  "notified_info = demo_device_info\<lparr>ServiceTable :=
     \<lparr>URLBase = None, serviceList = [put_sub 0 (watcher\<lparr>outgoing := [3]\<rparr>) demo_switch]\<rparr>\<rparr>"

lemma one_slot: "(replicate 200 None)[Suc 0 := y] = None # y # replicate 198 None"
  by (simp add: numeral_eq_Suc)

lemma one_slot_subs: "concat (map slot_subs ((replicate 200 None)[Suc 0 := y])) = slot_subs y"
proof -
  have "concat (map slot_subs (replicate n None)) = []" for n
    by (induction n) (simp_all add: slot_subs_def)
  then show ?thesis
    by (simp add: one_slot slot_subs_def)
qed

lemma demo_slots: "slot_subs (Some demo_device_info) = [watcher]" "slot_subs (Some notified_info) = [watcher\<lparr>outgoing := [3]\<rparr>]"
  by (simp_all add: slot_subs_def demo_device_info_def device_info_def demo_switch_def notified_info_def put_sub_def)

lemma demo_run: "device_run (switch_state, {}, {})"
  by (rule device_run.start) (simp add: no_events_def switch_state_def one_slot_subs demo_slots NUM_HANDLE_def watcher_def)

lemma demo_pool_add:
  "\<exists>tp. ThreadPoolAdd (add_now calm) (add_ms calm) (add_cs calm) (add_env calm) idle_pool (notify_job a) = Some (tp, Some 5, 0)"
  by (simp add: ThreadPoolAdd_def CreateThreadPoolJob_def enqueue_def q_add_tail_def pool_alloc_def AddWorker_def calm_def
      add_worker_loop.simps total_jobs_def demo_pool_def idle_pool_def demo_job_def TPAttrInit_def trunc_div_def q_empty_def priority_defs)

lemma demo_notify:
  "\<exists>st1. UpnpNotify 0 True True [] [] [] 1 (Some ''u'') (Some ''s'') (Some [''A'']) (Some [''1'']) 1 switch_state = Some (st1, 0) \<and>
     handed st1 = [2] \<and> HandleTable st1 = (replicate 200 None)[Suc 0 := Some notified_info]"
proof -
  obtain ps where ps: "GeneratePropertySet True True [''A''] [''1''] 1 = Some (Some ps, XML_SUCCESS)"
    using GeneratePropertySet_text [of 1 "[''A'']" "[''1'']"] by simp
  obtain hs where hs: "AllocGenaHeaders True (Some ps) = Some (Some hs)"
    using AllocGenaHeaders_text by blast
  obtain tp where tp: "ThreadPoolAdd (add_now calm) (add_ms calm) (add_cs calm) (add_env calm) idle_pool (notify_job 2) = Some (tp, Some 5, 0)"
    using demo_pool_add by blast
  define st2 where "st2 = (snd (new_event \<lparr>ev_headers = hs, ev_propertySet = ps, ev_servId = ''s'', ev_UDN = ''u'', reference_count = 0\<rparr>
    switch_state))\<lparr>GlobalHndRWLock := True\<rparr>"
  have f: "find_service_of 1 ''s'' ''u'' st2 = Some (Inr demo_switch)"
    by (simp add: st2_def new_event_def find_service_of_def find_device_def GetHandleInfo_def slot_def NUM_HANDLE_def switch_state_def
        demo_device_info_def device_info_def FindServiceId_def demo_switch_def)
  have g: "get_first 0 demo_switch st2 = Some (demo_switch, Some 0, st2)"
    by (simp add: get_first_def GetFirstSubscription_def demo_switch_def expired_def watcher_def skipped_def)
  have e: "events st2 (Suc 0) = Some \<lparr>ev_headers = hs, ev_propertySet = ps, ev_servId = ''s'', ev_UDN = ''u'', reference_count = 0\<rparr>"
    "fresh st2 = 2" "HandleTable st2 = (replicate 200 None)[Suc 0 := Some demo_device_info]" "handed st2 = []" "gSendThreadPool st2 = idle_pool" "GlobalHndRWLock st2"
    by (simp_all add: st2_def new_event_def switch_state_def)
  obtain st3 where one: "notify_one 0 [] calm 1 1 watcher st2 = Some ([], watcher\<lparr>outgoing := [3]\<rparr>, st3, 0, True)"
    "handed st3 = [2]" "GlobalHndRWLock st3" "HandleTable st3 = (replicate 200 None)[Suc 0 := Some demo_device_info]"
    using tp by (simp add: notify_one_def add_reference_def e new_struct_def new_job_def pool_add_def watcher_def Let_def mark_stale_def)
  have l: "subscriptionList demo_switch = [watcher]"
    by (simp add: demo_switch_def)
  have n: "get_next 0 (put_sub 0 (watcher\<lparr>outgoing := [3]\<rparr>) demo_switch) 0 st3 =
      Some (put_sub 0 (watcher\<lparr>outgoing := [3]\<rparr>) demo_switch, None, st3)"
    by (simp add: get_next_def GetNextSubscription_def demo_switch_def put_sub_def skipped_def)
  have "notify_locked 0 [] [] 1 ''u'' ''s'' 1 st2 = Some (put_service 1 demo_switch (put_sub 0 (watcher\<lparr>outgoing := [3]\<rparr>) demo_switch) st3, 0)"
    using one n by (simp add: notify_locked_def f g notify_loop.simps l GENA_SUCCESS_def)
  moreover have "HandleLock (snd (new_event \<lparr>ev_headers = hs, ev_propertySet = ps, ev_servId = ''s'', ev_UDN = ''u'', reference_count = 0\<rparr>
      switch_state)) = Some st2"
    by (simp add: HandleLock_def st2_def new_event_def switch_state_def)
  moreover have "event_checks 1 True switch_state = None"
    by (simp add: event_checks_def switch_state_def GetHandleInfo_def slot_def NUM_HANDLE_def demo_device_info_def device_info_def)
  moreover have "fresh switch_state = 1"
    by (simp add: switch_state_def)
  moreover have "HandleTable (put_service 1 demo_switch x st3) = (replicate 200 None)[Suc 0 := Some (demo_device_info\<lparr>ServiceTable :=
      \<lparr>URLBase = None, serviceList = [x]\<rparr>\<rparr>)]" for x
    using one(4) by (simp add: put_service_def slot_def NUM_HANDLE_def set_slot_def demo_device_info_def)
  ultimately show ?thesis
    using one ps hs by (simp add: UpnpNotify_def genaNotifyAll_def genaNotifyAllCommon_def new_event_def HandleUnlock_def notified_info_def)
qed

lemma demo_pool_answers: "pool_answers calm idle_pool"
  by (simp add: ThreadPoolAdd_def CreateThreadPoolJob_def enqueue_def q_add_tail_def pool_alloc_def AddWorker_def calm_def
      add_worker_loop.simps total_jobs_def demo_pool_def idle_pool_def demo_job_def TPAttrInit_def trunc_div_def q_empty_def priority_defs)

text \<open>A run to a state with an event in flight.\<close>

lemma demo_in_flight:
  "\<exists>st. device_run (st, {}, {}) \<and> 2 \<in> in_flight (st, {}, {}) \<and> HandleTable st = (replicate 200 None)[Suc 0 := Some notified_info] \<and>
     gSendThreadPool st = idle_pool"
proof -
  obtain st1 where st1: "UpnpNotify 0 True True [] [] [] 1 (Some ''u'') (Some ''s'') (Some [''A'']) (Some [''1'']) 1 switch_state = Some (st1, 0)"
    "handed st1 = [2]" "HandleTable st1 = (replicate 200 None)[Suc 0 := Some notified_info]"
    using demo_notify by blast
  have "device_run (st1, {}, {})"
    by (rule device_run.step [OF demo_run device_step.notify [OF st1(1)]]) simp
  then have "device_run (st1\<lparr>gSendThreadPool := idle_pool\<rparr>, {}, {})"
    by (rule device_run.step) (rule device_step.pool)
  then show ?thesis
    using st1 by (intro exI [of _ "st1\<lparr>gSendThreadPool := idle_pool\<rparr>"]) (simp add: in_flight_def)
qed

lemma notified_ids: "HandleTable st = (replicate 200 None)[Suc 0 := Some notified_info] \<Longrightarrow> ids_ok st"
  by (simp add: ids_ok_def one_slot list_all_iff notified_info_def demo_device_info_def demo_switch_def put_sub_def)

lemma notified_subs:
  "HandleTable st = (replicate 200 None)[Suc 0 := Some notified_info] \<Longrightarrow> all_subs st = {#watcher\<lparr>outgoing := [3]\<rparr>#}"
  by (simp add: all_subs_def one_slot_subs demo_slots)

section \<open>Events in flight\<close>

lemma running:
  assumes "device_run (st, S, T)"
  shows "sys_ok st (in_flight (st, S, T))" and "T \<subseteq> S" and "S \<subseteq> set (handed st)" and "\<not> GlobalHndRWLock st" and "memory_ok st"
    and "flight_ok (all_subs st) (in_flight (st, S, T)) st"
  using device_run_ok [OF assms] by (auto simp: device_ok_def sys_ok_def events_ok_def)

text \<open>
  Property C1. In every state of the device, whatever calls, requests and deliveries came before (as long as the calls got the memory they ask for): the structure of every job that the pool
  was given and that is not done yet is allocated, its event too, and the reference count of the event is the number of
  structures that refer to it. If the subscription still exists, the job is the head of its queue, and the events behind it were
  never given to the pool. So there is at most one event of a subscription under way, and events do not overtake each other.
\<close>

theorem event_in_flight:
  assumes "device_run (st, S, T)" and "a \<in> in_flight (st, S, T)"
  shows "\<exists>n e. structs st a = Some n \<and> events st (nt_event n) = Some e \<and>
    reference_count e = int (card {b. \<exists>m. structs st b = Some m \<and> nt_event m = nt_event n}) \<and>
    (\<forall>s\<in>#all_subs st. sid s = nt_sid n \<longrightarrow>
       (\<exists>j q. outgoing s = j # q \<and> arg (the (jobs st j)) = a \<and>
          (\<forall>i\<in>set q. arg (the (jobs st i)) \<notin> set (handed st) \<and> structs st (arg (the (jobs st i))) \<noteq> None)))"
proof -
  note r = running [OF assms(1)]
  obtain n where n: "structs st a = Some n"
    "\<And>s. s \<in># all_subs st \<Longrightarrow> sid s = nt_sid n \<Longrightarrow> outgoing s \<noteq> [] \<and> queue_arg st (hd (outgoing s)) = a"
    using flight_entry [OF r(6) assms(2)] by metis
  obtain e where e: "events st (nt_event n) = Some e"
    using memory_struct [OF r(5) n(1)] by blast
  have "\<exists>j q. outgoing s = j # q \<and> queue_arg st j = a \<and> (\<forall>i\<in>set q. queue_arg st i \<notin> set (handed st) \<and> structs st (queue_arg st i) \<noteq> None)"
    if s: "s \<in># all_subs st" "sid s = nt_sid n" for s
  proof -
    obtain j q where q: "outgoing s = j # q" "queue_arg st j = a"
      using n(2) [OF s] by (cases "outgoing s") auto
    have "queue_ok s st"
      by (rule queue_ok_of [OF r(1) [unfolded sys_ok_def, THEN conjunct1] s(1)])
    then show ?thesis
      using q by (auto simp: queue_ok_def)
  qed
  then show ?thesis
    using n(1) e memory_event [OF r(5) e] by (simp add: refs_def queue_arg_def)
qed

theorem event_in_flight_witness:
  "\<exists>st n e. device_run (st, {}, {}) \<and> structs st 2 = Some n \<and> events st (nt_event n) = Some e"
proof -
  obtain st where "device_run (st, {}, {})" "2 \<in> in_flight (st, {}, {})"
    using demo_in_flight by blast
  then show ?thesis
    using event_in_flight [of st "{}" "{}" 2] by blast
qed

text \<open>
  Property C3. No job uses memory that was freed: in every state of the device a job that the pool has not started can be started or
  dropped, and a job between its two sections can do the second, whatever happened to its device, service and
  subscription in between. This needs services with both ids, subscriptions whose URL lists can be copied, and a thread pool that answers.
\<close>

theorem jobs_find_their_memory:
  assumes run: "device_run (st, S, T)" and ids: "ids_ok st" and copies: "\<forall>s\<in>#all_subs st. copy_subscription ok1 ok2 s junk \<noteq> None"
    and pool: "pool_answers pe (gSendThreadPool st)"
  shows "(\<forall>a\<in>waiting_jobs (st, S, T). notify_begin now ok1 ok2 junk a st \<noteq> None \<and> free_notify_struct a st \<noteq> None) \<and>
    (\<forall>a\<in>T. notify_end now pe return_code a st \<noteq> None)"
proof (intro conjI ballI)
  note r = running [OF run]
  {
    fix a assume "a \<in> waiting_jobs (st, S, T)"
    then have a: "a \<in> in_flight (st, S, T)"
      by (auto simp: waiting_jobs_def in_flight_def)
    show "notify_begin now ok1 ok2 junk a st \<noteq> None"
      using notify_begin_total [OF r(1) a ids r(4) copies, of now] by auto
    show "free_notify_struct a st \<noteq> None"
      using free_notify_struct_total [OF r(1), of a] flying_struct(1) [OF r(1) a] by auto
  }
  fix a assume "a \<in> T"
  then have "a \<in> in_flight (st, S, T)"
    using r(2,3) by (auto simp: in_flight_def)
  then show "notify_end now pe return_code a st \<noteq> None"
    using notify_end_total [OF r(1) _ ids r(4) pool, of a now return_code] by auto
qed

theorem jobs_find_their_memory_witness:
  "\<exists>st. device_run (st, {}, {}) \<and> 2 \<in> waiting_jobs (st, {}, {}) \<and> notify_begin 0 True True watcher 2 st \<noteq> None"
proof -
  obtain st where st: "device_run (st, {}, {})" "2 \<in> in_flight (st, {}, {})" "HandleTable st = (replicate 200 None)[Suc 0 := Some notified_info]"
    "gSendThreadPool st = idle_pool"
    using demo_in_flight by blast
  have "\<forall>s\<in>#all_subs st. copy_subscription True True s watcher \<noteq> None"
    by (simp add: notified_subs [OF st(3)] copy_subscription_def copy_URL_list_def watcher_def Let_def)
  then have "\<forall>a\<in>waiting_jobs (st, {}, {}). notify_begin 0 True True watcher a st \<noteq> None"
    using jobs_find_their_memory [OF st(1) notified_ids [OF st(3)], of True True watcher calm 0 0] demo_pool_answers st(4) by simp
  then show ?thesis
    using st(1,2) by (auto simp: waiting_jobs_def in_flight_def)
qed

text \<open>
  Property C26. The table keeps its type: it has \<open>NUM_HANDLE\<close> places, no two subscriptions of all devices have the same SID, a
  subscription that is not active has no events, every entry of a queue is an allocated job, and between the calls the lock is free.
\<close>

theorem table_well_formed:
  assumes "device_run (st, S, T)"
  shows "length (HandleTable st) = nat NUM_HANDLE \<and> \<not> GlobalHndRWLock st \<and>
    distinct (map sid (concat (map slot_subs (HandleTable st)))) \<and>
    (\<forall>s\<in>#all_subs st. (\<not> active s \<longrightarrow> outgoing s = []) \<and> (\<forall>j\<in>set (outgoing s). jobs st j \<noteq> None))"
proof -
  note r = running [OF assms]
  have ev: "events_ok (all_subs st) (in_flight (st, S, T)) st"
    using r(1) by (simp add: sys_ok_def)
  have q: "queue_ok s st" if "s \<in># all_subs st" for s
    using queue_ok_of [OF ev that] .
  have c: "count (mset (map sid (concat (map slot_subs (HandleTable st))))) k \<le> 1" for k
    using ev sids_count [of "all_subs st" k] by (simp add: events_ok_def all_subs_def)
  have "distinct (map sid (concat (map slot_subs (HandleTable st))))"
    unfolding distinct_count_atmost_1
  proof
    fix k
    show "count (mset (map sid (concat (map slot_subs (HandleTable st))))) k =
      (if k \<in> set (map sid (concat (map slot_subs (HandleTable st)))) then 1 else 0)"
      using c [of k] count_greater_zero_iff [of "mset (map sid (concat (map slot_subs (HandleTable st))))" k]
      by (auto simp del: count_greater_zero_iff count_mset_gt_0 simp: not_in_iff)
  qed
  then show ?thesis
    using r(1,4) q by (auto simp: sys_ok_def queue_ok_def entry_ok_def)
qed

theorem table_well_formed_witness: "distinct (map sid (concat (map slot_subs (HandleTable switch_state))))"
  using table_well_formed [OF demo_run] by blast

section \<open>Event queues\<close>

lemma maybeDiscardEvents_limits:
  "maybeDiscardEvents now q st = Some (q1, st1) \<Longrightarrow>
   int (length q1) \<le> max 1 (g_UpnpSdkEQMaxLen st) \<and>
   (\<forall>h a r. q1 = h # a # r \<longrightarrow>
      (\<exists>j n. jobs st1 a = Some j \<and> structs st1 (arg j) = Some n \<and> now - ctime n \<le> g_UpnpSdkEQMaxAge st))"
proof (induction now q st rule: maybeDiscardEvents.induct)
  case (1 now h a q st)
  obtain j n where j: "jobs st a = Some j" "structs st (arg j) = Some n"
    using "1.prems" by (auto simp: Option.bind_eq_Some_conv split: if_splits)
  show ?case
  proof (cases "g_UpnpSdkEQMaxLen st < int (length (h # a # q)) \<or> g_UpnpSdkEQMaxAge st < now - ctime n")
    case False
    then have "q1 = h # a # q" "st1 = st"
      using "1.prems" j by (auto split: if_splits)
    then show ?thesis
      using False j by auto
  next
    case True
    then obtain st2 where st2: "free_notify_struct (arg j) st = Some st2" "maybeDiscardEvents now (h # q) (free_job a st2) = Some (q1, st1)"
      using "1.prems" j by (auto simp: Option.bind_eq_Some_conv)
    then have "g_UpnpSdkEQMaxLen (free_job a st2) = g_UpnpSdkEQMaxLen st" "g_UpnpSdkEQMaxAge (free_job a st2) = g_UpnpSdkEQMaxAge st"
      by (auto simp: free_notify_struct_def free_job_def Option.bind_eq_Some_conv Let_def)
    then show ?thesis
      using "1.IH" [OF j True st2] by simp
  qed
qed auto

text \<open>
  Property C23. Before an event is queued, the queue of the subscription is shortened: it has then at most the allowed number of
  events (or only its head), and the event behind the head is not too old. The head, which the pool has, always stays, and only the oldest
  events behind it are dropped. No freed memory is touched, and the invariant holds afterwards.
\<close>

theorem maybeDiscardEvents_bound:
  assumes ok: "events_ok (add_mset s M) F st"
  shows "\<exists>q st1. maybeDiscardEvents now (outgoing s) st = Some (q, st1) \<and> events_ok (add_mset (s\<lparr>outgoing := q\<rparr>) M) F st1 \<and>
    int (length q) \<le> max 1 (g_UpnpSdkEQMaxLen st) \<and> (\<exists>k. q = take 1 (outgoing s) @ drop k (tl (outgoing s))) \<and>
    (\<forall>h a r. q = h # a # r \<longrightarrow>
       (\<exists>j n. jobs st1 a = Some j \<and> structs st1 (arg j) = Some n \<and> now - ctime n \<le> g_UpnpSdkEQMaxAge st))"
  using maybeDiscardEvents_ok [OF ok, of now] maybeDiscardEvents_limits [of now "outgoing s" st] by blast

theorem maybeDiscardEvents_bound_witness:
  "\<exists>st q st1. maybeDiscardEvents 5 [3] st = Some (q, st1) \<and> int (length q) \<le> max 1 (g_UpnpSdkEQMaxLen st)"
proof -
  obtain st where st: "device_run (st, {}, {})" "HandleTable st = (replicate 200 None)[Suc 0 := Some notified_info]"
    using demo_in_flight by blast
  have "events_ok {#watcher\<lparr>outgoing := [3]\<rparr>#} (in_flight (st, {}, {})) st"
    using running(1) [OF st(1)] notified_subs [OF st(2)] by (simp add: sys_ok_def)
  then show ?thesis
    using maybeDiscardEvents_bound [of "watcher\<lparr>outgoing := [3]\<rparr>" "{#}" "in_flight (st, {}, {})" st 5] by auto
qed

text \<open>
  The ends of deliveries of one subscription, one after the other: what \<open>finish_delivery\<close> does to the subscription. Before each
  of them the pool is in some state that the workers have left.
\<close>

fun drain_queue :: "(add_env \<times> ThreadPool) list \<Rightarrow> subscription \<Rightarrow> gena_state \<Rightarrow> (subscription \<times> gena_state) option" where
  "drain_queue [] s st = Some (s, st)"
| "drain_queue ((pe, tp) # es) s st =
     do { (q, st1) \<leftarrow> advance_queue pe (outgoing s) (st\<lparr>gSendThreadPool := tp\<rparr>);
          drain_queue es (s\<lparr>ToSendEventKey := next_key (ToSendEventKey s), outgoing := q\<rparr>) st1 }"

definition pool_takes :: "add_env \<Rightarrow> ThreadPool \<Rightarrow> bool" where
  "pool_takes pe tp \<longleftrightarrow> (\<forall>job. \<exists>tp1 k. ThreadPoolAdd (add_now pe) (add_ms pe) (add_cs pe) (add_env pe) tp job = Some (tp1, k, 0))"

lemma advance_queue_takes:
  assumes ok: "events_ok (add_mset s M) F st" and s: "outgoing s = j # q" and pool: "pool_takes pe tp"
  shows "\<exists>F1 st1. advance_queue pe (outgoing s) (st\<lparr>gSendThreadPool := tp\<rparr>) = Some (q, st1) \<and>
    events_ok (add_mset (s\<lparr>ToSendEventKey := key, outgoing := q\<rparr>) M) F1 st1 \<and>
    handed st1 = handed st @ map (queue_arg st) (take 1 q) \<and> (\<forall>i\<in>set q. queue_arg st1 i = queue_arg st i)"
proof -
  let ?st = "st\<lparr>gSendThreadPool := tp\<rparr>"
  have ok1: "events_ok (add_mset s M) F ?st"
    using ok same_heap_ok [of st ?st] by (simp add: same_heap_def)
  note h = queue_heads [OF queue_ok_of [OF ok, of s, simplified] s]
  have run: "\<exists>st1. advance_queue pe (outgoing s) ?st = Some (q, st1) \<and> handed st1 = handed st @ map (queue_arg st) (take 1 q) \<and>
    (\<forall>i\<in>set q. queue_arg st1 i = queue_arg st i)"
  proof (cases q)
    case Nil
    then show ?thesis
      by (simp add: s advance_queue_def free_job_def)
  next
    case (Cons b q2)
    then have b: "b \<noteq> j" "jobs st b \<noteq> None"
      using h(2) h(5) [of b] by (auto simp: queue_entry_def)
    then obtain job where job: "jobs st b = Some job"
      by blast
    obtain tp1 k where tp1: "ThreadPoolAdd (add_now pe) (add_ms pe) (add_cs pe) (add_env pe) tp job = Some (tp1, k, 0)"
      using pool unfolding pool_takes_def by blast
    let ?st1 = "mark_stale b ((free_job j ?st)\<lparr>gSendThreadPool := tp1, handed := handed st @ [arg job]\<rparr>)"
    have "advance_queue pe (outgoing s) ?st = Some (q, ?st1)"
      using b job tp1 by (simp add: s Cons advance_queue_def pool_add_def free_job_def)
    moreover have "queue_arg ?st1 i = queue_arg st i" if "i \<in> set q" for i
      using that h(2) by (cases "i = j") simp_all
    ultimately show ?thesis
      using job by (auto simp: Cons queue_arg_def)
  qed
  then obtain st1 where st1: "advance_queue pe (outgoing s) ?st = Some (q, st1)" "handed st1 = handed st @ map (queue_arg st) (take 1 q)"
    "\<forall>i\<in>set q. queue_arg st1 i = queue_arg st i"
    by blast
  obtain F1 where "events_ok (add_mset (s\<lparr>ToSendEventKey := key, outgoing := q\<rparr>) M) F1 st1"
    using advance_queue_ok [OF ok1 s st1(1), of key] by blast
  then show ?thesis
    using st1 by blast
qed

text \<open>
  Property C19. A queue drains: when deliveries end and the pool takes the jobs it is given, the events of a subscription are handed to the
  pool one after the other in the order of the queue, the queue is empty after as many deliveries as it had events, and the
  key of the subscription was advanced once for each.
\<close>

theorem queue_drains:
  assumes "events_ok (add_mset s M) F st" and "\<forall>(pe, tp)\<in>set es. pool_takes pe tp" and "length es = length (outgoing s)"
  shows "\<exists>s1 st1. drain_queue es s st = Some (s1, st1) \<and> outgoing s1 = [] \<and>
    handed st1 = handed st @ map (queue_arg st) (tl (outgoing s)) \<and>
    ToSendEventKey s1 = (next_key ^^ length (outgoing s)) (ToSendEventKey s)"
  using assms
proof (induction es arbitrary: s F st)
  case (Cons e es)
  obtain pe tp where e: "e = (pe, tp)"
    by (cases e)
  obtain j q where s: "outgoing s = j # q"
    using Cons.prems(3) by (cases "outgoing s") auto
  let ?s = "s\<lparr>ToSendEventKey := next_key (ToSendEventKey s), outgoing := q\<rparr>"
  obtain F1 st1 where a: "advance_queue pe (outgoing s) (st\<lparr>gSendThreadPool := tp\<rparr>) = Some (q, st1)"
    "events_ok (add_mset ?s M) F1 st1" "handed st1 = handed st @ map (queue_arg st) (take 1 q)" "\<forall>i\<in>set q. queue_arg st1 i = queue_arg st i"
    using advance_queue_takes [OF Cons.prems(1) s, of pe tp "next_key (ToSendEventKey s)"] Cons.prems(2) unfolding e by auto
  obtain s2 st2 where r: "drain_queue es ?s st1 = Some (s2, st2)" "outgoing s2 = []" "handed st2 = handed st1 @ map (queue_arg st1) (tl q)"
    "ToSendEventKey s2 = (next_key ^^ length q) (next_key (ToSendEventKey s))"
    using Cons.IH [OF a(2)] Cons.prems(2,3) s by auto
  have "handed st2 = handed st @ map (queue_arg st) q"
    using a(3,4) r(3) by (cases q) auto
  then show ?case
    using a(1) r by (auto simp: e s funpow_swap1)
qed simp

theorem queue_drains_witness:
  "\<exists>st s1 st1. device_run (st, {}, {}) \<and> drain_queue [(calm, idle_pool)] (watcher\<lparr>outgoing := [3]\<rparr>) st = Some (s1, st1) \<and>
     outgoing s1 = [] \<and> ToSendEventKey s1 = 1"
proof -
  obtain st where st: "device_run (st, {}, {})" "HandleTable st = (replicate 200 None)[Suc 0 := Some notified_info]"
    using demo_in_flight by blast
  have "events_ok {#watcher\<lparr>outgoing := [3]\<rparr>#} (in_flight (st, {}, {})) st"
    using running(1) [OF st(1)] notified_subs [OF st(2)] by (simp add: sys_ok_def)
  moreover have "pool_takes calm idle_pool"
    by (simp add: pool_takes_def ThreadPoolAdd_def CreateThreadPoolJob_def enqueue_def q_add_tail_def pool_alloc_def AddWorker_def calm_def
      add_worker_loop.simps total_jobs_def demo_pool_def idle_pool_def demo_job_def TPAttrInit_def trunc_div_def q_empty_def priority_defs)
  ultimately show ?thesis
    using queue_drains [of "watcher\<lparr>outgoing := [3]\<rparr>" "{#}" "in_flight (st, {}, {})" st "[(calm, idle_pool)]"] st(1)
    by (auto simp: watcher_def next_key_def to_int_def)
qed

section \<open>Registered devices\<close>

lemma slot_lock [simp]: "slot h (st\<lparr>GlobalHndRWLock := l\<rparr>) = slot h st"
  by (simp add: slot_def)

text \<open>
  Property C32. Unregistering one device hides all others of its address family: the flag of the family is set to 0 although
  another device of it is still in the table. That device keeps its entry, but neither the search by family nor the search by path, which the requests use, finds it again.
\<close>

theorem unregister_hides_devices:
  assumes run: "release_section h st = Some (st1, True)" and h: "slot h st = Some x" and g: "g \<noteq> h" "slot g st = Some y"
    and f: "DeviceAf y = DeviceAf x" "DeviceAf x = AF_INET \<or> DeviceAf x = AF_INET6"
  shows "slot g st1 = Some y \<and> GetDeviceHandleInfo n (DeviceAf y) st1 = (HND_INVALID, -1, None) \<and>
    GetDeviceHandleInfoForPath net path (DeviceAf y) st1 = Some None"
proof -
  obtain st2 where l: "HandleLock st = Some st2"
    using run by (auto simp: release_section_def Option.bind_eq_Some_conv)
  then have st2: "st2 = st\<lparr>GlobalHndRWLock := True\<rparr>"
    by (auto simp: HandleLock_def split: if_splits)
  have i: "GetHandleInfo h st2 = (HType x, Some x)"
    using h by (simp add: GetHandleInfo_def st2 slot_def split: if_splits)
  then have st1: "HandleUnlock (fst (FreeHandle h (set_registered (DeviceAf x) 0 st2))) = Some st1"
    using run l by (auto simp: release_section_def Option.bind_eq_Some_conv split: Upnp_Handle_Type.splits)
  have free: "fst (FreeHandle h s) = set_slot h None s" if "slot h s = Some x" for s :: gena_state
    using that by (auto simp: FreeHandle_def slot_def split: if_splits)
  have "slot h (set_registered (DeviceAf x) 0 st2) = Some x" "slot g (set_registered (DeviceAf x) 0 st2) = Some y"
    using h g by (simp_all add: st2)
  then have "slot g st1 = Some y" "no_device (DeviceAf x) st1"
    using st1 g(1) f(2) h g(2)
    by (auto simp: free HandleUnlock_def slot_def set_slot_def set_registered_def no_device_def st2 split: if_splits af.splits)
  then show ?thesis
    by (simp add: f(1) GetDeviceHandleInfo_def GetDeviceHandleInfoForPath_def)
qed

theorem unregister_hides_devices_witness:
  "\<exists>st1. release_section 1 (set_slot 2 (Some demo_device_info) switch_state) = Some (st1, True) \<and> slot 2 st1 = Some demo_device_info \<and>
     GetDeviceHandleInfo 0 AF_INET st1 = (HND_INVALID, -1, None)"
proof -
  let ?st = "set_slot 2 (Some demo_device_info) switch_state"
  have f: "DeviceAf demo_device_info = AF_INET" "HType demo_device_info = HND_DEVICE"
    by (simp_all add: demo_device_info_def device_info_def)
  have s: "slot 1 ?st = Some demo_device_info" "slot 2 ?st = Some demo_device_info"
    by (simp_all add: slot_def set_slot_def switch_state_def NUM_HANDLE_def)
  obtain st1 where "release_section 1 ?st = Some (st1, True)"
    using s(1) f
    by (simp add: release_section_def HandleLock_def HandleUnlock_def GetHandleInfo_def slot_def NUM_HANDLE_def)
       (simp add: set_slot_def switch_state_def)
  then show ?thesis
    using unregister_hides_devices [of 1 ?st st1 demo_device_info 2 demo_device_info 0 demo_net None] s f by auto
qed

end
