(* ===== verification/Subscribing.thy ===== *)
theory Subscribing
  imports DeviceProperties
begin

text \<open>
  What it takes to subscribe: a request is accepted only for an active service of a registered device that has room for
  the subscription, and only when all delivery URLs are on the network of the interface.
\<close>

section \<open>The search by path\<close>

lemma device_for_path_found:
  "device_for_path net path f st hs = Some (Some (h, x, service)) \<Longrightarrow>
   slot h st = Some x \<and> HType x = HND_DEVICE \<and> DeviceAf x = f \<and> service \<in> set (serviceList (ServiceTable x))"
proof (induction hs)
  case (Cons g gs)
  show ?case
  proof (cases "device_of f g st")
    case None
    then show ?thesis
      using Cons by simp
  next
    case (Some y)
    then have y: "GetHandleInfo g st = (HND_DEVICE, Some y)" "DeviceAf y = f"
      by (auto simp: device_of_def split: prod.splits Upnp_Handle_Type.splits option.splits if_splits)
    show ?thesis
    proof (cases "service_for_path net (ServiceTable y) path = Some None")
      case True
      then show ?thesis
        using Cons Some by simp
    next
      case False
      then have "h = g" "x = y" "service_for_path net (ServiceTable y) path = Some (Some service)"
        using Cons.prems Some by (auto split: option.splits)
      then show ?thesis
        using GetHandleInfo_slot [OF y(1)] y(2) service_for_path_in by auto
    qed
  qed
qed simp

section \<open>The delivery URLs\<close>

lemma count_urls_error: "count_urls net mem len is n = Some (Inl e) \<Longrightarrow> e = UPNP_E_OUTOF_MEMORY"
  by (induction "is" arbitrary: n) (auto split: option.splits sum.splits if_splits)

lemma fill_urls_error: "fill_urls net mem len is n us = Some (Inl e) \<Longrightarrow> e = UPNP_E_OUTOF_MEMORY"
  by (induction "is" arbitrary: us) (auto simp: Let_def split: option.splits sum.splits if_splits)

lemma create_url_list_entries:
  assumes "create_url_list net ok1 ok2 junk mem len = Some (urls, n)" and "n \<noteq> 0" and "n \<noteq> UPNP_E_OUTOF_MEMORY"
  shows "0 < n \<and> int (length (url_list_entries urls)) = n"
proof -
  let ?s = "take len mem"
  obtain r where r: "count_urls net mem len (url_starts ?s) 0 = Some r" "len \<le> length mem"
    using assms(1) by (auto simp: create_url_list_def Let_def split: option.splits if_splits)
  obtain m where m: "r = Inr m" "m \<noteq> 0" "ok1" "ok2"
    using assms r count_urls_error [of net mem len "url_starts ?s" 0]
    by (cases r) (auto simp: create_url_list_def Let_def split: if_splits)
  obtain u where u: "fill_urls net (?s @ [NUL]) len (url_starts ?s) m [] = Some u"
    using assms(1) r m by (auto simp: create_url_list_def Let_def split: option.splits)
  obtain us where us: "u = Inr us"
    using assms r m u fill_urls_error [of net "?s @ [NUL]" len "url_starts ?s" m "[]"]
    by (cases u) (auto simp: create_url_list_def Let_def)
  have "n = int m" "urls = \<lparr>usize = m, URLs = Some (?s @ [NUL]), parsedURLs = Some (us @ replicate (m - length us) junk)\<rparr>"
    using assms(1) r m u us by (simp_all add: create_url_list_def Let_def)
  then show ?thesis
    using m(2) by (simp add: url_list_entries_def)
qed

definition on_segment :: "net_env \<Rightarrow> if_info \<Rightarrow> URL_list \<Rightarrow> bool" where
  "on_segment net ifi urls \<longleftrightarrow>
     (case (inet_pton net AF_INET (gIF_IPV4 ifi), inet_pton net AF_INET (gIF_IPV4_NETMASK ifi)) of
        (Some own, Some netmask) \<Rightarrow>
          list_all (\<lambda>u. masked (addr4 (IPaddress (hostport u))) netmask = masked own netmask) (url_list_entries urls)
      | _ \<Rightarrow> False)"

lemma validated_on_segment:
  assumes "gena_validate_delivery_urls net ifi info urls = 0" and "ss_family (foreign_sockaddr info) = AF_INET"
  shows "on_segment net ifi urls"
  using assms by (auto simp: gena_validate_delivery_urls_def on_segment_def Let_def list_all_iff split: option.splits if_splits)

section \<open>Accepting a request\<close>

lemma subscribe_service_accepted:
  assumes run: "subscribe_service e request h x service st = Some (st1, w, Some ev)"
  shows "\<exists>cb urls n t sub. find_hdr request HDR_CALLBACK = Some cb \<and> service_active service \<and>
    (MaxSubscriptions x = - 1 \<or> TotalSubscriptions service < MaxSubscriptions x) \<and>
    create_url_list (r_net e) (r_urls_ok1 e) (r_urls_ok2 e) (r_junk e) (block cb) (mlength cb) = Some (urls, n) \<and>
    n \<noteq> 0 \<and> n \<noteq> UPNP_E_OUTOF_MEMORY \<and> gena_validate_delivery_urls (r_net e) (r_if e) (r_info e) urls = 0 \<and>
    sub = new_subscription (''uuid:'' @ r_uuid e) t urls \<and>
    st1 = put_service h service (service\<lparr>subscriptionList := sub # subscriptionList service,
      TotalSubscriptions := TotalSubscriptions service + 1\<rparr>) st"
proof -
  have no: "refuse e request code st \<noteq> Some (st1, w, Some ev)" for code
    by (simp add: refuse_def)
  obtain cb where cb: "find_hdr request HDR_CALLBACK = Some cb" "service_active service"
    "MaxSubscriptions x = - 1 \<or> TotalSubscriptions service < MaxSubscriptions x"
    using run no by (auto simp: subscribe_service_def split: if_splits option.splits)
  obtain urls n where u: "create_url_list (r_net e) (r_urls_ok1 e) (r_urls_ok2 e) (r_junk e) (block cb) (mlength cb) = Some (urls, n)"
    using run no cb by (auto simp: subscribe_service_def Option.bind_eq_Some_conv split: if_splits)
  have n: "n \<noteq> 0" "n \<noteq> UPNP_E_OUTOF_MEMORY" "gena_validate_delivery_urls (r_net e) (r_if e) (r_info e) urls = 0"
    using run no cb u by (auto simp: subscribe_service_def split: if_splits)
  obtain t0 where t: "asked_timeout (r_net e) request = Some t0"
    using run no cb u n by (auto simp: subscribe_service_def Option.bind_eq_Some_conv split: if_splits)
  define sub where "sub = new_subscription (''uuid:'' @ r_uuid e) (if 0 \<le> limit_timeout x t0 then r_now e + limit_timeout x t0 else 0) urls"
  obtain w1 rc where r: "respond_ok (r_answer e) (r_info e) (limit_timeout x t0) sub request = Some (w1, rc)"
    using run no cb u n t by (auto simp: subscribe_service_def Option.bind_eq_Some_conv sub_def Let_def split: if_splits)
  have "st1 = put_service h service (service\<lparr>subscriptionList := sub # subscriptionList service,
       TotalSubscriptions := TotalSubscriptions service + 1\<rparr>) st"
    using run no cb u n t r by (simp add: subscribe_service_def sub_def Let_def split: if_splits)
  then show ?thesis
    using cb u n sub_def by blast
qed


section \<open>A request that is accepted\<close>

definition near_net :: net_env where
  "near_net = \<lparr>getaddrinfo = (\<lambda>_. None), inet_pton = (\<lambda>f t. Some (if t = ''255.0.0.0'' then [255, 0, 0, 0] else [10, 0, 0, 7])), gIF_INDEX = 0\<rparr>"

definition path_uri :: uri_type where
  "path_uri = \<lparr>utype = RELATIVE, scheme = null_token, path_type = ABS_PATH, pathquery = \<lparr>buff = Some 0, tsize = 2\<rparr>,
     fragment = null_token, hostport = zero_hostport\<rparr>"

definition callback_uri :: uri_type where
  "callback_uri = \<lparr>utype = RELATIVE, scheme = null_token, path_type = REL_PATH, pathquery = \<lparr>buff = Some 5, tsize = 0\<rparr>,
     fragment = null_token, hostport = \<lparr>htext = \<lparr>buff = Some 2, tsize = 3\<rparr>,
       IPaddress = \<lparr>ss_family = AF_INET, sin_port = 80, sin_addr = [10, 0, 0, 7], scope_id = 0\<rparr>\<rparr>\<rparr>"

definition text_buffer :: "string \<Rightarrow> membuffer" where
  "text_buffer s = \<lparr>buf = Some (s @ [NUL]), mlength = length s, capacity = length s, size_inc = 5\<rparr>"

definition header :: "int \<Rightarrow> string \<Rightarrow> http_header" where
  "header k v = \<lparr>name_buf = text_buffer [], name_id = k, hvalue = text_buffer v\<rparr>"

definition near_request :: http_parser where
  "near_request = parser_init\<lparr>major_version := 1, minor_version := 1,
     headers := [header HDR_NT ''upnp:event'', header HDR_CALLBACK ''<//1.7>''], puri := Some path_uri, urlbuf := Some ''/e''\<rparr>"

definition near_env :: request_env where
  "near_env = \<lparr>r_net = near_net,
     r_if = \<lparr>gIF_IPV4 = ''10.0.0.1'', gIF_IPV4_NETMASK = ''255.0.0.0'', gIF_IPV6 = [], gIF_IPV6_PREFIX_LENGTH = 0, gIF_IPV6_ULA_GUA = [],
       gIF_IPV6_ULA_GUA_PREFIX_LENGTH = 0\<rparr>,
     r_info = \<lparr>sock_fd = 3, foreign_sockaddr = zero_sockaddr\<lparr>ss_family := AF_INET\<rparr>, ssl = False\<rparr>,
     r_answer = \<lparr>a_msg = demo_env, a_ms = [], a_os = \<lparr>selects = [], segments = [], send_counts = [], elapsed = [], sent = []\<rparr>\<rparr>,
     r_path_ms = [], r_sub_ok = True, r_list_ok = True, r_urls_ok1 = True, r_urls_ok2 = True, r_junk = path_uri, r_now = 0, r_uuid = ''2''\<rparr>"

definition event_service :: service_info where
  "event_service = demo_switch\<lparr>controlURL := None, eventURL := Some ''/e''\<rparr>"

definition event_info :: Handle_Info where
  "event_info = demo_device_info\<lparr>ServiceTable := \<lparr>URLBase = None, serviceList = [event_service]\<rparr>\<rparr>"

definition event_state :: gena_state where
  "event_state = set_slot 1 (Some event_info) switch_state"

lemmas uri_chars = ctype_defs host_char_def is_unreserved_def is_reserved_def is_mark_def strchr_hit_def RESERVED_def MARK_def
lemmas uri_parts = parse_uri_def parse_scheme_def rd_def at_def parse_uric_def parse_uric_loop.simps sz_sub_def SIZE_MOD_def

lemma near_path: "parse_uri near_net (''/e'' @ [NUL]) 2 = Some (Inr path_uri)"
  by (simp add: uri_parts uri_chars path_uri_def)

lemma near_callback: "parse_uri near_net (''//1.7>'' @ [NUL]) 8 = Some (Inr callback_uri)"
  by (simp add: uri_parts uri_chars parse_hostport_def parse_host_def c_str_def scan_while.simps is_escaped_def token_string_casecmp_def
      null_token_def near_net_def upt_conv_Cons to_int_def zero_sockaddr_def callback_uri_def)

lemma near_headers:
  "find_hdr near_request HDR_NT = Some (text_buffer ''upnp:event'')" "find_hdr near_request HDR_CALLBACK = Some (text_buffer ''<//1.7>'')"
  "find_hdr near_request HDR_SID = None" "find_hdr near_request HDR_TIMEOUT = None"
  by (simp_all add: find_hdr_def near_request_def httpmsg_find_hdr_def hdr_ids upt_conv_Cons header_def)

lemma near_urls:
  "\<exists>u. create_url_list near_net True True junk (block (text_buffer ''<//1.7>'')) 7 = Some (u, 1) \<and> url_list_entries u = [shift_uri 1 callback_uri]"
  using near_callback
  by (simp add: create_url_list_def url_starts_def url_at_def block_def text_buffer_def upt_conv_Cons Let_def has_host_def
      url_list_entries_def callback_uri_def)

lemma near_text:
  "message_text demo_env 1 1 ''RDSNXcsscscc'' [AInt HTTP_OK, AOff 0, AStr (Some X_USER_AGENT), AStr (Some ''SID: ''), AStr (Some ''uuid:2''),
     AStr (Some (timeout_line 1801))] \<noteq> None"
  "length (the (message_text demo_env 1 1 ''RDSNXcsscscc'' [AInt HTTP_OK, AOff 0, AStr (Some X_USER_AGENT), AStr (Some ''SID: ''),
     AStr (Some ''uuid:2''), AStr (Some (timeout_line 1801))])) < 1000"
  by code_simp+

lemma send_at_once: "send_loop [] bs = ([], bs, True)"
  by (cases bs) simp_all

lemma near_answer:
  assumes "sid sub = ''uuid:2''"
  shows "\<exists>w. respond_ok (r_answer near_env) (r_info near_env) 1801 sub near_request = Some (w, UPNP_E_SUCCESS)"
proof -
  obtain t where t: "message_text demo_env 1 1 ''RDSNXcsscscc'' [AInt HTTP_OK, AOff 0, AStr (Some X_USER_AGENT), AStr (Some ''SID: ''),
      AStr (Some ''uuid:2''), AStr (Some (timeout_line 1801))] = Some t" "length t < 1000"
    using near_text by (metis option.exhaust option.sel)
  have "room_for (empty_membuffer\<lparr>size_inc := 30\<rparr>) (length t + 0)"
    using t(2) by (simp add: room_for_def grow_def empty_membuffer_def membuffer_init_def membuffer_initialize_def mb_inv_def
        SIZE_LIMIT_def MEMBUF_DEF_SIZE_INC_def)
  from make_message_made [OF t(1) this, of "[]"] obtain ms1 b1 where
    m: "http_MakeMessage demo_env [] (empty_membuffer\<lparr>size_inc := 30\<rparr>) 1 1 ''RDSNXcsscscc''
       [AInt HTTP_OK, AOff 0, AStr (Some X_USER_AGENT), AStr (Some ''SID: ''), AStr (Some ''uuid:2''), AStr (Some (timeout_line 1801))] =
       Some (ms1, b1, 0)" "room_for b1 0" "contents b1 = contents (empty_membuffer\<lparr>size_inc := 30\<rparr>) @ t"
    by (auto simp: made_def)
  have c: "contents b1 = t"
    using m(3) by (simp add: contents_def block_def empty_membuffer_def membuffer_init_def membuffer_initialize_def)
  have b: "mlength b1 = 0 \<or> buf b1 \<noteq> None \<and> mlength b1 < 1000"
    using m(2) c t(2) by (auto simp: room_for_def mb_inv_def contents_def block_def split: option.splits)
  have "\<exists>w1 t1. http_SendMessage no_files [] (a_os (r_answer near_env)) (r_info near_env) UPNP_TIMEOUT ''b'' [SBuf (buf b1) (mlength b1)] =
      Some (w1, t1, UPNP_E_SUCCESS)"
    using b by (auto simp: http_SendMessage_def near_env_def sock_write_def sock_write_unprotected_def charge_def next_elapsed_def to_int_def
        send_at_once sock_errors Let_def)
  moreover have "length (timeout_line 1801) < 100"
    by code_simp
  ultimately show ?thesis
    using m(1) assms
    by (auto simp: respond_ok_def http_CalcResponseVersion_def near_request_def near_env_def)
qed

lemma near_device:
  "GetDeviceHandleInfoForPath near_net (Some ''/e'') AF_INET (event_state\<lparr>GlobalHndRWLock := True\<rparr>) = Some (Some (1, event_info, event_service))"
proof -
  have d: "device_of AF_INET 1 (event_state\<lparr>GlobalHndRWLock := True\<rparr>) = Some event_info"
    by (simp add: device_of_def GetHandleInfo_def slot_def NUM_HANDLE_def event_state_def set_slot_def switch_state_def event_info_def
        demo_device_info_def device_info_def)
  have "token_cmp ''/e'' (pathquery path_uri) ''/e'' (pathquery path_uri) = 0"
    by (simp add: token_cmp_def path_uri_def token_text_def)
  moreover have "controlURL event_service = None" "eventURL event_service = Some ''/e''" "serviceList (ServiceTable event_info) = [event_service]"
    by (simp_all add: event_info_def event_service_def)
  ultimately have "service_for_path near_net (ServiceTable event_info) (Some ''/e'') = Some (Some event_service)"
    using near_path [unfolded numeral_2_eq_2, simplified]
    by (simp add: service_for_path_def FindServiceControlURLPath_def FindServiceEventURLPath_def find_by_path_def)
  moreover have "[1..NUM_HANDLE - 1] = 1 # [2..NUM_HANDLE - 1]"
    by (simp add: NUM_HANDLE_def upto.simps)
  moreover have "\<not> no_device AF_INET (event_state\<lparr>GlobalHndRWLock := True\<rparr>)"
    by (simp add: no_device_def event_state_def set_slot_def switch_state_def)
  ultimately show ?thesis
    using d by (simp add: GetDeviceHandleInfoForPath_def)
qed

lemma near_service:
  "\<exists>st1 w ev. subscribe_service near_env near_request 1 event_info event_service (event_state\<lparr>GlobalHndRWLock := True\<rparr>) = Some (st1, w, Some ev) \<and>
     GlobalHndRWLock st1"
proof -
  obtain u where u: "create_url_list near_net True True path_uri (block (text_buffer ''<//1.7>'')) 7 = Some (u, 1)"
    "url_list_entries u = [shift_uri 1 callback_uri]"
    using near_urls by blast
  have v: "gena_validate_delivery_urls near_net (r_if near_env) (r_info near_env) u = 0"
    using u(2) by (simp add: gena_validate_delivery_urls_def near_env_def near_net_def callback_uri_def shift_uri_def addr4_def masked_def)
  have t: "asked_timeout near_net near_request = Some 1801"
    by (simp add: asked_timeout_def near_headers)
  have l: "limit_timeout event_info 1801 = 1801" "MaxSubscriptions event_info = - 1" "service_active event_service"
    by (simp_all add: limit_timeout_def event_info_def demo_device_info_def device_info_def UPNP_INFINITE_def event_service_def demo_switch_def)
  obtain w where w: "respond_ok (r_answer near_env) (r_info near_env) 1801 (new_subscription ''uuid:2'' 1801 u) near_request = Some (w, UPNP_E_SUCCESS)"
    using near_answer [of "new_subscription ''uuid:2'' 1801 u"] by (auto simp: new_subscription_def)
  have e: "r_net near_env = near_net" "r_urls_ok1 near_env" "r_urls_ok2 near_env" "r_sub_ok near_env" "r_list_ok near_env" "r_junk near_env = path_uri"
    "r_now near_env = 0" "r_uuid near_env = ''2''"
    by (simp_all add: near_env_def)
  have m: "mlength (text_buffer ''<//1.7>'') = 7"
    by (simp add: text_buffer_def)
  show ?thesis
    using u(1) v t l w e m
    by (simp add: subscribe_service_def near_headers UPNP_SID_ARRAY_def UPNP_E_OUTOF_MEMORY_def event_state_def Let_def)
qed

lemma near_accepted:
  "\<exists>st1 w ev. gena_process_subscription_request near_env near_request event_state = Some (st1, w, Some ev)"
proof -
  have lock: "HandleLock event_state = Some (event_state\<lparr>GlobalHndRWLock := True\<rparr>)"
    by (simp add: HandleLock_def event_state_def set_slot_def switch_state_def)
  obtain st1 w ev where s: "subscribe_service near_env near_request 1 event_info event_service (event_state\<lparr>GlobalHndRWLock := True\<rparr>) =
      Some (st1, w, Some ev)" "GlobalHndRWLock st1"
    using near_service by blast
  have nt: "memptr_cmp_nocase (block (text_buffer ''upnp:event'')) (mlength (text_buffer ''upnp:event'')) ''upnp:event'' = 0"
    by (simp add: memptr_cmp_nocase_def strncasecmp_sgn_def text_buffer_def block_def c_str_def numeral_eq_Suc)
  have p: "request_path near_request = (''/e'', 2)"
    by (simp add: request_path_def near_request_def path_uri_def token_text_def)
  have a: "str_alloc [] ''/e'' 2 = Some ([], Some (''/e'' @ [NUL]))"
    by (simp add: str_alloc_def realloc_block_def blk_read_def blk_write_def sz_add_def SIZE_MOD_def Let_def upt_conv_Cons)
  have e: "r_path_ms near_env = []" "ss_family (foreign_sockaddr (r_info near_env)) = AF_INET" "r_net near_env = near_net"
    by (simp_all add: near_env_def)
  show ?thesis
    using lock s nt p a near_device
    by (simp add: gena_process_subscription_request_def near_headers e HandleUnlock_def c_str_def)
qed


end
