(* ===== verification/Ssdp.thy ===== *)
theory Ssdp
  imports DeviceApi TimerThread
begin

text \<open>
  Discovery messages, \<^verbatim>\<open>compa/src/ssdp/ssdp_server.cpp\<close>: what a search target or a unique service name (USN) stands for, and the
  checks on a datagram before it is handed to the device or the control point. A search target is a C string without its
  terminator. The character arrays of \<open>SsdpEvent\<close> hold at most \<open>LINE_SIZE - 1\<close> characters.
\<close>

section \<open>Data\<close>

definition NO_ERROR_FOUND :: int where "NO_ERROR_FOUND = 0"
definition E_HTTP_SYNTEX :: int where "E_HTTP_SYNTEX = -6"
definition HDR_HOST :: int where "HDR_HOST = 7"

datatype SsdpSearchType = SSDP_SERROR | SSDP_ALL | SSDP_ROOTDEVICE | SSDP_DEVICEUDN | SSDP_DEVICETYPE | SSDP_SERVICE

record SsdpEvent =
  RequestType :: SsdpSearchType
  ErrCode :: int
  EvMaxAge :: int
  Mx :: int
  EvUDN :: string
  DeviceType :: string
  ServiceType :: string
  Location :: string
  HostAddr :: string
  Os :: string
  Ext :: string
  Date :: string

text \<open>After \<open>memset\<close>; 0 is \<open>SSDP_ALL\<close>.\<close>

definition zero_event :: SsdpEvent where
  "zero_event = \<lparr>RequestType = SSDP_ALL, ErrCode = 0, EvMaxAge = 0, Mx = 0, EvUDN = [], DeviceType = [], ServiceType = [], Location = [],
     HostAddr = [], Os = [], Ext = [], Date = []\<rparr>"

definition line_field :: "string \<Rightarrow> string" where
  "line_field s = take (LINE_SIZE - 1) s"

section \<open>Unique service names\<close>

text \<open>\<open>strstr\<close> from a place on, as a place of the whole string.\<close>

definition strstr_from :: "nat \<Rightarrow> string \<Rightarrow> string \<Rightarrow> nat option" where
  "strstr_from i s t = map_option ((+) i) (strstr (drop i s) t)"

text \<open>The form \<open>uuid:schemas-...:device:type:udn\<close>; \<open>TempBuf\<close> has three bytes less than a line.\<close>

definition schemas_name :: "string \<Rightarrow> SsdpEvent \<Rightarrow> SsdpEvent \<times> int" where
  "schemas_name cmd ev =
     (case strstr cmd '':device'' of
        None \<Rightarrow> (ev, - 1)
      | Some p1 \<Rightarrow>
          (case strstr_from (p1 + 1) cmd '':'' of
             None \<Rightarrow> (ev, - 1)
           | Some p2 \<Rightarrow>
               (case strstr_from (p2 + 1) cmd '':'' of
                  None \<Rightarrow> (ev, - 1)
                | Some p3 \<Rightarrow>
                    let udn = ''uuid:'' @ drop (p3 + 1) cmd in
                    if LINE_SIZE \<le> length udn then (ev, - 1)
                    else
                      (let ev1 = ev\<lparr>EvUDN := udn\<rparr> in
                       case strstr cmd '':'' of
                         None \<Rightarrow> (ev1, - 1)
                       | Some c \<Rightarrow>
                           let n = sz_sub p3 c;
                               ty = ''urn'' @ take (if LINE_SIZE - 3 \<le> n then LINE_SIZE - 4 else n) (drop c cmd)
                           in if LINE_SIZE \<le> length ty then (ev1, - 1) else (ev1\<lparr>DeviceType := ty\<rparr>, 0)))))"

text \<open>The four tests after that; the flag is \<open>CommandFound\<close>.\<close>

definition usn_uuid :: "string \<Rightarrow> SsdpEvent \<times> bool \<Rightarrow> SsdpEvent \<times> bool" where
  "usn_uuid cmd r =
     (case strstr cmd ''uuid'' of
        None \<Rightarrow> r
      | Some t \<Rightarrow>
          (case strstr cmd ''::'' of
             Some p \<Rightarrow>
               let n = sz_sub p t
               in ((fst r)\<lparr>EvUDN := take (if LINE_SIZE \<le> n then LINE_SIZE - 1 else n) (drop t cmd)\<rparr>, True)
           | None \<Rightarrow> ((fst r)\<lparr>EvUDN := line_field (drop t cmd)\<rparr>, True)))"

definition usn_service :: "string \<Rightarrow> SsdpEvent \<times> bool \<Rightarrow> SsdpEvent \<times> bool" where
  "usn_service cmd r =
     (if strstr cmd ''urn:'' \<noteq> None \<and> strstr cmd '':service:'' \<noteq> None then
        (case strstr cmd ''urn'' of None \<Rightarrow> r | Some t \<Rightarrow> ((fst r)\<lparr>ServiceType := line_field (drop t cmd)\<rparr>, True))
      else r)"

definition usn_device :: "string \<Rightarrow> SsdpEvent \<times> bool \<Rightarrow> SsdpEvent \<times> bool" where
  "usn_device cmd r =
     (if strstr cmd ''urn:'' \<noteq> None \<and> strstr cmd '':device:'' \<noteq> None then
        (case strstr cmd ''urn'' of None \<Rightarrow> r | Some t \<Rightarrow> ((fst r)\<lparr>DeviceType := line_field (drop t cmd)\<rparr>, True))
      else r)"

definition usn_root :: "string \<Rightarrow> SsdpEvent \<times> bool \<Rightarrow> SsdpEvent \<times> bool" where
  "usn_root cmd r =
     (case strstr cmd ''::upnp:rootdevice'' of
        None \<Rightarrow> r
      | Some t \<Rightarrow> if t = 0 then r else ((fst r)\<lparr>EvUDN := take (if LINE_SIZE \<le> t then LINE_SIZE - 1 else t) cmd\<rparr>, True))"

definition unique_service_name :: "string \<Rightarrow> SsdpEvent \<Rightarrow> SsdpEvent \<times> int" where
  "unique_service_name cmd ev =
     (if strstr cmd ''uuid:schemas'' \<noteq> None then schemas_name cmd ev
      else
        (case usn_root cmd (usn_device cmd (usn_service cmd (usn_uuid cmd (ev, False)))) of
           (ev1, found) \<Rightarrow> (ev1, if found then 0 else - 1)))"

section \<open>Search targets\<close>

definition ssdp_request_type1 :: "string \<Rightarrow> SsdpSearchType" where
  "ssdp_request_type1 cmd =
     (if strstr cmd '':all'' \<noteq> None then SSDP_ALL
      else if strstr cmd '':rootdevice'' \<noteq> None then SSDP_ROOTDEVICE
      else if strstr cmd ''uuid:'' \<noteq> None then SSDP_DEVICEUDN
      else if strstr cmd ''urn:'' \<noteq> None \<and> strstr cmd '':device:'' \<noteq> None then SSDP_DEVICETYPE
      else if strstr cmd ''urn:'' \<noteq> None \<and> strstr cmd '':service:'' \<noteq> None then SSDP_SERVICE
      else SSDP_SERROR)"

definition ssdp_request_type :: "string \<Rightarrow> SsdpEvent \<times> int" where
  "ssdp_request_type cmd =
     (let ev = (fst (unique_service_name cmd zero_event))\<lparr>ErrCode := NO_ERROR_FOUND, RequestType := ssdp_request_type1 cmd\<rparr>
      in if RequestType ev = SSDP_SERROR then (ev\<lparr>ErrCode := E_HTTP_SYNTEX\<rparr>, - 1) else (ev, 0))"

section \<open>Checking a message\<close>

definition header_is :: "http_parser \<Rightarrow> int \<Rightarrow> string \<Rightarrow> bool" where
  "header_is p k s = (case find_hdr p k of None \<Rightarrow> False | Some v \<Rightarrow> memptr_cmp (block v) (mlength v) s = 0)"

definition ssdp_hosts :: "string list" where
  "ssdp_hosts = [''239.255.255.250:1900'', ''[FF02::C]:1900'', ''[ff02::c]:1900'', ''[FF05::C]:1900'', ''[ff05::c]:1900'']"

text \<open>A message without a parsed URL has an undefined \<open>uri\<close>.\<close>

definition valid_ssdp_msg :: "http_parser \<Rightarrow> bool option" where
  "valid_ssdp_msg hmsg =
     (if pmethod hmsg \<noteq> HTTPMETHOD_NOTIFY \<and> pmethod hmsg \<noteq> HTTPMETHOD_MSEARCH \<and> request_method hmsg \<noteq> HTTPMETHOD_MSEARCH
      then Some False
      else if request_method hmsg = HTTPMETHOD_MSEARCH then Some True
      else
        (case puri hmsg of
           None \<Rightarrow> None
         | Some u \<Rightarrow>
             Some (utype u = RELATIVE \<and> strncmp_sgn (tsize (pathquery u)) ''*'' (fst (request_path hmsg)) = 0 \<and>
                   list_ex (header_is hmsg HDR_HOST) ssdp_hosts)))"

text \<open>The parser reads the datagram; the result is the parsed message when it is valid. \<open>data\<close> is freed otherwise.\<close>

definition start_event_handler :: "net_env \<Rightarrow> alloc_script \<Rightarrow> http_parser \<Rightarrow> http_parser option option" where
  "start_event_handler net ms p =
     (case parser_parse net ms p of
        None \<Rightarrow> None
      | Some (ms1, p1, status) \<Rightarrow>
          if status = PARSE_FAILURE \<and> (pmethod p1 \<noteq> HTTPMETHOD_NOTIFY \<or> \<not> valid_ssdp_notify_hack p1) then Some None
          else if status \<noteq> PARSE_FAILURE \<and> status \<noteq> PARSE_SUCCESS then Some None
          else map_option (\<lambda>ok. if ok then Some p1 else None) (valid_ssdp_msg p1))"

text \<open>The job: \<open>ctrlpt\<close> and \<open>device\<close> are the two handlers.\<close>

definition ssdp_event_handler_thread ::
    "(http_parser \<Rightarrow> 's \<Rightarrow> 's option) \<Rightarrow> (http_parser \<Rightarrow> 's \<Rightarrow> 's option) \<Rightarrow> net_env \<Rightarrow> alloc_script \<Rightarrow> http_parser \<Rightarrow> 's \<Rightarrow> 's option" where
  "ssdp_event_handler_thread ctrlpt device net ms p st =
     (case start_event_handler net ms p of
        None \<Rightarrow> None
      | Some None \<Rightarrow> Some st
      | Some (Some hmsg) \<Rightarrow>
          if pmethod hmsg = HTTPMETHOD_NOTIFY \<or> request_method hmsg = HTTPMETHOD_MSEARCH then ctrlpt hmsg st
          else device hmsg st)"

section \<open>Substrings\<close>

lemma strstr_None: "strstr s t = None \<longleftrightarrow> \<not> sublist t s"
proof -
  have "strstr s t = None \<longleftrightarrow> (\<forall>i\<le>length s. \<not> prefix t (drop i s))"
    by (auto simp: strstr_def find_None_iff less_Suc_eq_le simp del: upt_Suc)
  also have "\<dots> \<longleftrightarrow> \<not> sublist t s"
  proof
    assume a: "\<forall>i\<le>length s. \<not> prefix t (drop i s)"
    show "\<not> sublist t s"
    proof
      assume "sublist t s"
      then obtain p q where "s = p @ t @ q"
        by (auto simp: sublist_def)
      then show False
        using a [rule_format, of "length p"] by simp
    qed
  next
    assume a: "\<not> sublist t s"
    show "\<forall>i\<le>length s. \<not> prefix t (drop i s)"
    proof (intro allI impI notI)
      fix i assume "prefix t (drop i s)"
      then obtain q where "drop i s = t @ q"
        by (auto simp: prefix_def)
      then have "s = take i s @ t @ q"
        by (metis append_take_drop_id)
      then show False
        using a by (auto simp: sublist_def)
    qed
  qed
  finally show ?thesis .
qed

lemma strstr_Some_iff:
  "strstr s t = Some i \<longleftrightarrow> i \<le> length s \<and> prefix t (drop i s) \<and> (\<forall>j<i. \<not> prefix t (drop j s))"
proof
  assume "strstr s t = Some i"
  then obtain k where k: "k < Suc (length s)" "prefix t (drop ([0..<Suc (length s)] ! k) s)" "i = [0..<Suc (length s)] ! k"
    "\<forall>j<k. \<not> prefix t (drop ([0..<Suc (length s)] ! j) s)"
    by (auto simp: strstr_def find_Some_iff simp del: upt_Suc)
  then have "i = k"
    by (simp del: upt_Suc)
  then show "i \<le> length s \<and> prefix t (drop i s) \<and> (\<forall>j<i. \<not> prefix t (drop j s))"
    using k by (simp del: upt_Suc)
next
  assume "i \<le> length s \<and> prefix t (drop i s) \<and> (\<forall>j<i. \<not> prefix t (drop j s))"
  then show "strstr s t = Some i"
    by (auto simp: strstr_def find_Some_iff simp del: upt_Suc intro!: exI [of _ i])
qed

text \<open>The first occurrence behind a part in which no occurrence begins.\<close>

lemma strstr_at:
  assumes "prefix t r" and "\<And>j. j < length p \<Longrightarrow> \<not> prefix t (drop j p @ r)"
  shows "strstr (p @ r) t = Some (length p)"
  using assms by (auto simp: strstr_Some_iff)

lemma prefix_stops: "c \<notin> set t \<Longrightarrow> prefix t (p @ c # r) \<Longrightarrow> prefix t p"
proof (induction p arbitrary: t)
  case Nil
  then show ?case
    by (cases t) simp_all
next
  case (Cons a p)
  show ?case
  proof (cases t)
    case (Cons x u)
    then show ?thesis
      using Cons.prems Cons.IH [of u] by simp
  qed simp
qed

lemma prefix_sublist:
  assumes "prefix t (drop j p)"
  shows "sublist t p"
proof -
  obtain z where "drop j p = t @ z"
    using assms by (auto simp: prefix_def)
  then have "p = take j p @ t @ z"
    using append_take_drop_id [of j p] by simp
  then show ?thesis
    unfolding sublist_def by blast
qed

text \<open>An occurrence cannot go over a character it does not have.\<close>

lemma sublist_split:
  assumes "sublist t (p @ c # r)" and "c \<notin> set t"
  shows "sublist t p \<or> sublist t r"
proof -
  obtain x y where e: "p @ c # r = x @ t @ y"
    using assms(1) by (auto simp: sublist_def)
  then consider (left) z where "p = x @ z" "z @ c # r = t @ y" | (right) z where "x = p @ z" "c # r = z @ t @ y"
    by (auto simp: append_eq_append_conv2)
  then show ?thesis
  proof cases
    case left
    then have "prefix t z"
      using prefix_stops [OF assms(2)] by (metis prefixI)
    then show ?thesis
      using left(1) by (auto simp: sublist_def prefix_def)
  next
    case right
    show ?thesis
    proof (cases z)
      case Nil
      then show ?thesis
        using right(2) assms(2) by (cases t) auto
    next
      case (Cons a w)
      then show ?thesis
        using right(2) by (auto simp: sublist_def)
    qed
  qed
qed

section \<open>Names of a device\<close>

text \<open>A UDN as it should be: \<open>uuid:\<close>, then hexadecimal digits and hyphens.\<close>

definition good_udn :: "string \<Rightarrow> bool" where
  "good_udn udn \<longleftrightarrow> (\<exists>u. udn = ''uuid:'' @ u \<and> u \<noteq> [] \<and> list_all (\<lambda>c. isxdigit c \<or> c = CHR ''-'') u)"

text \<open>A device or service type that does not look like something else too.\<close>

definition good_type :: "string \<Rightarrow> string \<Rightarrow> bool" where
  "good_type kind ty \<longleftrightarrow> prefix ''urn:'' ty \<and> sublist kind ty \<and> \<not> sublist ''uuid:schemas'' ty \<and>
     \<not> sublist ''::upnp:rootdevice'' ty \<and> \<not> sublist (if kind = '':device:'' then '':service:'' else '':device:'') ty"

lemma strstr_Nil [simp]: "strstr [] t = (if t = [] then Some 0 else None)"
  by (auto simp: strstr_Some_iff strstr_None)

lemma strstr_Cons: "strstr (c # s) t = (if prefix t (c # s) then Some 0 else map_option Suc (strstr s t))"
proof (cases "prefix t (c # s)")
  case False
  show ?thesis
  proof (cases "strstr s t")
    case None
    then have "strstr (c # s) t = None"
      using False by (auto simp: strstr_None sublist_Cons_right)
    then show ?thesis
      using False None by simp
  next
    case (Some i)
    then have "strstr (c # s) t = Some (Suc i)"
      using False by (auto simp: strstr_Some_iff less_Suc_eq_0_disj)
    then show ?thesis
      using False Some by simp
  qed
qed (simp add: strstr_Some_iff)

text \<open>A text of hexadecimal digits and hyphens is skipped by every search for something that begins differently.\<close>

definition uuid_chars :: "string \<Rightarrow> bool" where
  "uuid_chars u \<longleftrightarrow> (\<forall>c\<in>set u. isxdigit c \<or> c = CHR ''-'')"

lemma uuid_chars_Cons [simp]: "uuid_chars (c # u) \<longleftrightarrow> (isxdigit c \<or> c = CHR ''-'') \<and> uuid_chars u"
  by (auto simp: uuid_chars_def)

lemma strstr_hex:
  "uuid_chars u \<Longrightarrow> \<not> isxdigit c \<Longrightarrow> c \<noteq> CHR ''-'' \<Longrightarrow> strstr (u @ r) (c # t) = map_option ((+) (length u)) (strstr r (c # t))"
proof (induction u)
  case Nil
  then show ?case
    by (simp add: option.map_ident)
next
  case (Cons a u)
  then have "a \<noteq> c"
    by auto
  then show ?case
    using Cons by (simp add: strstr_Cons option.map_comp o_def)
qed

lemma no_device_in_hex:
  assumes "uuid_chars u"
  shows "\<not> prefix ''device:'' (u @ CHR '':'' # r)"
proof
  assume p: "prefix ''device:'' (u @ CHR '':'' # r)"
  obtain a b c w where "u = [] \<or> u = [a] \<or> u = [a, b] \<or> u = a # b # c # w"
    by (metis list.exhaust)
  then show False
    using p assms by (auto simp: ctype_defs)
qed

lemma good_udn_parts:
  assumes "good_udn udn"
  obtains h w where "udn = ''uuid:'' @ h # w" and "uuid_chars (h # w)"
  using assms by (auto simp: good_udn_def uuid_chars_def list_all_iff neq_Nil_conv)

lemma hex_heads: "uuid_chars (h # w) \<Longrightarrow> h \<noteq> CHR '':'' \<and> h \<noteq> CHR ''s''"
  by (auto simp: ctype_defs)

text \<open>What the searches find in a USN.\<close>

lemma usn_searches:
  assumes "uuid_chars (h # w)" and "cmd = ''uuid:'' @ h # w @ r"
  shows "strstr cmd ''uuid'' = Some 0"
    and "strstr cmd ''uuid:schemas'' = None \<longleftrightarrow> strstr r ''uuid:schemas'' = None"
    and "strstr cmd ''::'' = map_option ((+) (6 + length w)) (strstr r ''::'')"
    and "strstr cmd ''urn'' = map_option ((+) (6 + length w)) (strstr r ''urn'')"
    and "strstr cmd ''urn:'' = map_option ((+) (6 + length w)) (strstr r ''urn:'')"
    and "strstr cmd ''::upnp:rootdevice'' = map_option ((+) (6 + length w)) (strstr r ''::upnp:rootdevice'')"
    and "strstr cmd '':service:'' = None \<longleftrightarrow> strstr r '':service:'' = None"
proof -
  have h: "h \<noteq> CHR '':''" "h \<noteq> CHR ''s''"
    using hex_heads [OF assms(1)] by auto
  have e: "strstr (h # w @ r) (c # t) = map_option ((+) (Suc (length w))) (strstr r (c # t))" if "\<not> isxdigit c" "c \<noteq> CHR ''-''" for c t
    using strstr_hex [OF assms(1) that, of r t] by simp
  note s = strstr_Cons [of "CHR ''u''"] strstr_Cons [of "CHR ''i''"] strstr_Cons [of "CHR ''d''"] strstr_Cons [of "CHR '':''"]
  show "strstr cmd ''uuid'' = Some 0"
    by (simp add: assms(2) s)
  show "strstr cmd ''uuid:schemas'' = None \<longleftrightarrow> strstr r ''uuid:schemas'' = None"
    using h by (simp add: assms(2) s e ctype_defs)
  show "strstr cmd ''::'' = map_option ((+) (6 + length w)) (strstr r ''::'')"
    using h by (cases "strstr r ''::''") (simp_all add: assms(2) s e ctype_defs)
  show "strstr cmd ''urn'' = map_option ((+) (6 + length w)) (strstr r ''urn'')"
    by (cases "strstr r ''urn''") (simp_all add: assms(2) s e ctype_defs)
  show "strstr cmd ''urn:'' = map_option ((+) (6 + length w)) (strstr r ''urn:'')"
    by (cases "strstr r ''urn:''") (simp_all add: assms(2) s e ctype_defs)
  show "strstr cmd ''::upnp:rootdevice'' = map_option ((+) (6 + length w)) (strstr r ''::upnp:rootdevice'')"
    using h by (cases "strstr r ''::upnp:rootdevice''") (simp_all add: assms(2) s e ctype_defs)
  show "strstr cmd '':service:'' = None \<longleftrightarrow> strstr r '':service:'' = None"
    using h by (simp add: assms(2) s e ctype_defs)
qed

lemma usn_device_search:
  assumes "uuid_chars (h # w)" and "cmd = ''uuid:'' @ h # w @ CHR '':'' # r"
  shows "strstr cmd '':device:'' = None \<longleftrightarrow> strstr (CHR '':'' # r) '':device:'' = None"
proof -
  define z where "z = h # w @ CHR '':'' # r"
  have "\<not> prefix ''device:'' z"
    using no_device_in_hex [OF assms(1), of r] by (simp add: z_def)
  moreover have "strstr z '':device:'' = map_option ((+) (Suc (length w))) (strstr (CHR '':'' # r) '':device:'')"
    using strstr_hex [OF assms(1), of "CHR '':''" "CHR '':'' # r" "''device:''"] by (simp add: ctype_defs z_def)
  ultimately have "strstr (CHR '':'' # z) '':device:'' = None \<longleftrightarrow> strstr (CHR '':'' # r) '':device:'' = None"
    by (simp add: strstr_Cons [of _ z])
  then show ?thesis
    by (simp add: assms(2) z_def [symmetric] strstr_Cons [of "CHR ''u''"] strstr_Cons [of "CHR ''i''"] strstr_Cons [of "CHR ''d''"])
qed

end
