(* ===== verification/SsdpPackets.thy ===== *)
theory SsdpPackets
  imports Ssdp
begin

text \<open>
  The messages of a device, \<^verbatim>\<open>compa/src/ssdp/ssdp_device.cpp\<close>: building a packet and sending advertisements, good-byes and replies. What is sent
  is a list of datagrams in the state; whether \<open>socket\<close> and \<open>sendto\<close> succeed and which allocations fail are scripts of the state.
  \<open>None\<close> is what C++ does not define.
\<close>

section \<open>Data\<close>

definition SSDP_IP :: string where "SSDP_IP = ''239.255.255.250''"
definition SSDP_IPV6_LINKLOCAL :: string where "SSDP_IPV6_LINKLOCAL = ''FF02::C''"
definition SSDP_IPV6_SITELOCAL :: string where "SSDP_IPV6_SITELOCAL = ''FF05::C''"
definition SSDP_PORT :: nat where "SSDP_PORT = 1900"
definition INET6_ADDRSTRLEN :: nat where "INET6_ADDRSTRLEN = 46"
definition UPNP_E_NETWORK_ERROR :: int where "UPNP_E_NETWORK_ERROR = -200"

datatype msg_type = MSGTYPE_SHUTDOWN | MSGTYPE_ADVERTISEMENT | MSGTYPE_REPLY

text \<open>The settings: address conversion, interface, the message maker, and the uuid of the optional headers, when they are compiled in.\<close>

record ssdp_env =
  s_net :: net_env
  s_if :: if_info
  s_msg :: msg_env
  gUpnpSdkNLSuuid :: "string option"

record datagram =
  d_dest :: sockaddr
  d_text :: string

record ssdp_net =
  sock_oks :: ok_script
  send_oks :: ok_script
  packet_ms :: alloc_script
  datagrams :: "datagram list"

text \<open>The power state of a device, as the three numbers that are added to a message.\<close>

record low_power =
  lp_state :: int
  lp_sleep :: int
  lp_registration :: int

section \<open>The address in a location\<close>

text \<open>
  The text between the first bracket and the next closing one; \<open>None\<close> when it is longer than the array of the
  caller, which the code does not check.
\<close>

definition extractIPv6address :: "string \<Rightarrow> string option option" where
  "extractIPv6address url =
     (case dropWhile (\<lambda>c. c \<noteq> CHR ''['') url of
        [] \<Rightarrow> Some None
      | b # rest \<Rightarrow>
          let address = takeWhile (\<lambda>c. c \<noteq> CHR '']'') rest; closed = CHR '']'' \<in> set rest in
          if INET6_ADDRSTRLEN < length address \<or> (closed \<and> INET6_ADDRSTRLEN = length address) then None
          else Some (if closed then Some address else None))"

text \<open>When the text is no address the array \<open>v6_addr\<close> is looked at without having a value.\<close>

definition isUrlV6UlaGua :: "net_env \<Rightarrow> string \<Rightarrow> bool option" where
  "isUrlV6UlaGua net url =
     (case extractIPv6address url of
        None \<Rightarrow> None
      | Some None \<Rightarrow> Some False
      | Some (Some a) \<Rightarrow> map_option (\<lambda>v6. \<not> link_local v6) (inet_pton net AF_INET6 a))"

section \<open>Building a packet\<close>

definition opt_text :: string where
  "opt_text = [CHR 0x22] @ ''http://schemas.upnp.org/upnp/1/0/'' @ [CHR 0x22] @ ''; ns=01''"

text \<open>The optional headers, the user agent that comes with them, and the headers of the power state: format and arguments.\<close>

definition opt_headers :: "ssdp_env \<Rightarrow> string \<times> msg_arg list" where
  "opt_headers g =
     (case gUpnpSdkNLSuuid g of
        None \<Rightarrow> ([], [])
      | Some k \<Rightarrow>
          (''sscssc'', [AStr (Some ''OPT: ''), AStr (Some opt_text), AStr (Some ''01-NLS: ''), AStr (Some k)]))"

definition agent_header :: "ssdp_env \<Rightarrow> string \<times> msg_arg list" where
  "agent_header g = (if gUpnpSdkNLSuuid g = None then ([], []) else (''Xc'', [AStr (Some X_USER_AGENT)]))"

definition power_headers :: "low_power \<Rightarrow> string \<times> msg_arg list" where
  "power_headers lp =
     (if 0 < lp_state lp then
        (''csdcsdcsdcc'', [AStr (Some ''Powerstate: ''), AInt (lp_state lp), AStr (Some ''SleepPeriod: ''), AInt (lp_sleep lp),
           AStr (Some ''RegistrationState: ''), AInt (lp_registration lp)])
      else (''cc'', []))"

definition reply_message :: "ssdp_env \<Rightarrow> string \<Rightarrow> string \<Rightarrow> string \<Rightarrow> int \<Rightarrow> low_power \<Rightarrow> string \<times> msg_arg list" where
  "reply_message g nt usn location duration lp =
     (''RsdcDscssc'' @ fst (opt_headers g) @ ''S'' @ fst (agent_header g) @ ''sscss'' @ fst (power_headers lp),
      [AInt HTTP_OK, AStr (Some ''CACHE-CONTROL: max-age=''), AInt duration, AStr (Some ''EXT:''), AStr (Some ''LOCATION: ''),
       AStr (Some location)] @ snd (opt_headers g) @ snd (agent_header g) @
      [AStr (Some ''ST: ''), AStr (Some nt), AStr (Some ''USN: ''), AStr (Some usn)] @ snd (power_headers lp))"

definition notify_message ::
    "ssdp_env \<Rightarrow> string \<Rightarrow> string \<Rightarrow> string \<Rightarrow> string \<Rightarrow> string \<Rightarrow> int \<Rightarrow> low_power \<Rightarrow> string \<times> msg_arg list" where
  "notify_message g host nts nt usn location duration lp =
     (''Qsssdcsdcssc'' @ fst (opt_headers g) @ ''sscsscS'' @ fst (agent_header g) @ ''ss'' @ fst (power_headers lp),
      [AInt HTTPMETHOD_NOTIFY, ABuf (Some ''*'') 1, AStr (Some ''HOST: ''), AStr (Some host), AStr (Some '':''), AInt (int SSDP_PORT),
       AStr (Some ''CACHE-CONTROL: max-age=''), AInt duration, AStr (Some ''LOCATION: ''), AStr (Some location)] @ snd (opt_headers g) @
      [AStr (Some ''NT: ''), AStr (Some nt), AStr (Some ''NTS: ''), AStr (Some nts)] @ snd (agent_header g) @
      [AStr (Some ''USN: ''), AStr (Some usn)] @ snd (power_headers lp))"

definition notify_host :: "ssdp_env \<Rightarrow> af \<Rightarrow> string \<Rightarrow> string option" where
  "notify_host g family location =
     (if family = AF_INET then Some SSDP_IP
      else
        map_option (\<lambda>global. ''['' @ (if global then SSDP_IPV6_SITELOCAL else SSDP_IPV6_LINKLOCAL) @ '']'')
          (isUrlV6UlaGua (s_net g) location))"

definition build_packet :: "ssdp_env \<Rightarrow> string \<times> msg_arg list \<Rightarrow> ssdp_net \<Rightarrow> (string option \<times> ssdp_net) option" where
  "build_packet g m st =
     do { (ms1, b, ret) \<leftarrow> http_MakeMessage (s_msg g) (packet_ms st) (empty_membuffer\<lparr>size_inc := 30\<rparr>) 1 1 (fst m) (snd m);
          Some (if ret \<noteq> 0 then None else snd (membuffer_detach b), st\<lparr>packet_ms := ms1\<rparr>) }"

text \<open>The packet is a null pointer when there is no memory.\<close>

definition packet_format ::
    "ssdp_env \<Rightarrow> msg_type \<Rightarrow> string \<Rightarrow> string \<Rightarrow> string \<Rightarrow> int \<Rightarrow> af \<Rightarrow> low_power \<Rightarrow> (string \<times> msg_arg list) option" where
  "packet_format g ty nt usn location duration family lp =
     (case ty of
        MSGTYPE_REPLY \<Rightarrow> Some (reply_message g nt usn location duration lp)
      | _ \<Rightarrow>
          do { host \<leftarrow> notify_host g family location;
               Some (notify_message g host (if ty = MSGTYPE_ADVERTISEMENT then ''ssdp:alive'' else ''ssdp:byebye'') nt usn location duration lp) })"

definition CreateServicePacket ::
    "ssdp_env \<Rightarrow> msg_type \<Rightarrow> string \<Rightarrow> string \<Rightarrow> string \<Rightarrow> int \<Rightarrow> af \<Rightarrow> low_power \<Rightarrow> ssdp_net \<Rightarrow> (string option \<times> ssdp_net) option" where
  "CreateServicePacket g ty nt usn location duration family lp st =
     do { m \<leftarrow> packet_format g ty nt usn location duration family lp; build_packet g m st }"

section \<open>Sending\<close>

fun send_packets :: "sockaddr \<Rightarrow> string list \<Rightarrow> ssdp_net \<Rightarrow> ssdp_net \<times> int" where
  "send_packets dest [] st = (st, UPNP_E_SUCCESS)"
| "send_packets dest (m # ms) st =
     (case next_ok (send_oks st) of
        (True, oks) \<Rightarrow> send_packets dest ms (st\<lparr>send_oks := oks, datagrams := datagrams st @ [\<lparr>d_dest = dest, d_text = c_str m\<rparr>]\<rparr>)
      | (False, oks) \<Rightarrow> (st\<lparr>send_oks := oks\<rparr>, UPNP_E_SOCKET_WRITE))"

definition NewRequestHandler :: "ssdp_env \<Rightarrow> sockaddr \<Rightarrow> string list \<Rightarrow> ssdp_net \<Rightarrow> ssdp_net \<times> int" where
  "NewRequestHandler g dest packets st =
     (if gIF_IPV4 (s_if g) \<noteq> [] \<and> inet_pton (s_net g) AF_INET (gIF_IPV4 (s_if g)) = None then (st, UPNP_E_INVALID_PARAM)
      else
        (case next_ok (sock_oks st) of
           (False, oks) \<Rightarrow> (st\<lparr>sock_oks := oks\<rparr>, UPNP_E_OUTOF_SOCKET)
         | (True, oks) \<Rightarrow>
             if ss_family dest \<noteq> AF_INET \<and> ss_family dest \<noteq> AF_INET6 then (st\<lparr>sock_oks := oks\<rparr>, UPNP_E_NETWORK_ERROR)
             else send_packets dest packets (st\<lparr>sock_oks := oks\<rparr>)))"

definition send_made :: "ssdp_env \<Rightarrow> sockaddr \<Rightarrow> string option list \<Rightarrow> ssdp_net \<Rightarrow> ssdp_net \<times> int" where
  "send_made g dest packets st =
     (if None \<in> set packets then (st, UPNP_E_OUTOF_MEMORY) else NewRequestHandler g dest (map the packets) st)"

text \<open>The multicast group of an address family. An address that cannot be converted stays zero.\<close>

definition multicast_dest :: "ssdp_env \<Rightarrow> af \<Rightarrow> string \<Rightarrow> sockaddr option" where
  "multicast_dest g family location =
     (let group = (\<lambda>f t. zero_sockaddr\<lparr>ss_family := f, sin_port := SSDP_PORT,
                           sin_addr := (case inet_pton (s_net g) f t of None \<Rightarrow> sin_addr zero_sockaddr | Some a \<Rightarrow> a)\<rparr>)
      in case family of
           AF_INET \<Rightarrow> Some (group AF_INET SSDP_IP)
         | AF_INET6 \<Rightarrow>
             map_option (\<lambda>global. (group AF_INET6 (if global then SSDP_IPV6_SITELOCAL else SSDP_IPV6_LINKLOCAL))\<lparr>scope_id := gIF_INDEX (s_net g)\<rparr>)
               (isUrlV6UlaGua (s_net g) location)
         | _ \<Rightarrow> Some zero_sockaddr)"

section \<open>Messages of devices and services\<close>

text \<open>A USN in a buffer of one line; \<open>None\<close> when it does not fit.\<close>

definition usn_text :: "string \<Rightarrow> string \<Rightarrow> string option" where
  "usn_text udn nt = (let s = udn @ ''::'' @ nt in if LINE_SIZE \<le> length s then None else Some s)"

definition root_nt :: string where "root_nt = ''upnp:rootdevice''"

definition announce_device ::
    "ssdp_env \<Rightarrow> msg_type \<Rightarrow> string \<Rightarrow> bool \<Rightarrow> string \<Rightarrow> string \<Rightarrow> int \<Rightarrow> af \<Rightarrow> low_power \<Rightarrow> ssdp_net \<Rightarrow> (ssdp_net \<times> int) option" where
  "announce_device g ty devType is_root udn location duration family lp st =
     do { dest \<leftarrow> multicast_dest g family location;
          (case (if is_root then usn_text udn root_nt else Some []) of
             None \<Rightarrow> Some (st, UPNP_E_OUTOF_MEMORY)
           | Some u0 \<Rightarrow>
               do { (m0, st0) \<leftarrow> (if is_root then CreateServicePacket g ty root_nt u0 location duration family lp st else Some (None, st));
                    (m1, st1) \<leftarrow> CreateServicePacket g ty udn udn location duration family lp st0;
                    (case usn_text udn devType of
                       None \<Rightarrow> Some (st1, UPNP_E_OUTOF_MEMORY)
                     | Some u2 \<Rightarrow>
                         do { (m2, st2) \<leftarrow> CreateServicePacket g ty devType u2 location duration family lp st1;
                              Some (send_made g dest ((if is_root then [m0] else []) @ [m1, m2]) st2) }) }) }"

definition DeviceAdvertisement ::
    "ssdp_env \<Rightarrow> string \<Rightarrow> bool \<Rightarrow> string \<Rightarrow> string \<Rightarrow> int \<Rightarrow> af \<Rightarrow> low_power \<Rightarrow> ssdp_net \<Rightarrow> (ssdp_net \<times> int) option" where
  "DeviceAdvertisement g = announce_device g MSGTYPE_ADVERTISEMENT"

definition DeviceShutdown ::
    "ssdp_env \<Rightarrow> string \<Rightarrow> bool \<Rightarrow> string \<Rightarrow> string \<Rightarrow> int \<Rightarrow> af \<Rightarrow> low_power \<Rightarrow> ssdp_net \<Rightarrow> (ssdp_net \<times> int) option" where
  "DeviceShutdown g = announce_device g MSGTYPE_SHUTDOWN"

definition announce_service ::
    "ssdp_env \<Rightarrow> msg_type \<Rightarrow> string \<Rightarrow> string \<Rightarrow> string \<Rightarrow> int \<Rightarrow> af \<Rightarrow> low_power \<Rightarrow> ssdp_net \<Rightarrow> (ssdp_net \<times> int) option" where
  "announce_service g ty udn servType location duration family lp st =
     do { dest \<leftarrow> multicast_dest g family location;
          (case usn_text udn servType of
             None \<Rightarrow> Some (st, UPNP_E_OUTOF_MEMORY)
           | Some u \<Rightarrow>
               do { (m, st1) \<leftarrow> CreateServicePacket g ty servType u location duration family lp st;
                    Some (send_made g dest [m] st1) }) }"

definition ServiceAdvertisement ::
    "ssdp_env \<Rightarrow> string \<Rightarrow> string \<Rightarrow> string \<Rightarrow> int \<Rightarrow> af \<Rightarrow> low_power \<Rightarrow> ssdp_net \<Rightarrow> (ssdp_net \<times> int) option" where
  "ServiceAdvertisement g = announce_service g MSGTYPE_ADVERTISEMENT"

definition ServiceShutdown ::
    "ssdp_env \<Rightarrow> string \<Rightarrow> string \<Rightarrow> string \<Rightarrow> int \<Rightarrow> af \<Rightarrow> low_power \<Rightarrow> ssdp_net \<Rightarrow> (ssdp_net \<times> int) option" where
  "ServiceShutdown g = announce_service g MSGTYPE_SHUTDOWN"

definition reply_packet :: "ssdp_env \<Rightarrow> sockaddr \<Rightarrow> string \<Rightarrow> string \<Rightarrow> string \<Rightarrow> int \<Rightarrow> low_power \<Rightarrow> ssdp_net \<Rightarrow> (string option \<times> ssdp_net) option" where
  "reply_packet g dest nt usn location duration lp = CreateServicePacket g MSGTYPE_REPLY nt usn location duration (ss_family dest) lp"

definition SendReply ::
    "ssdp_env \<Rightarrow> sockaddr \<Rightarrow> string \<Rightarrow> bool \<Rightarrow> string \<Rightarrow> string \<Rightarrow> int \<Rightarrow> bool \<Rightarrow> low_power \<Rightarrow> ssdp_net \<Rightarrow> (ssdp_net \<times> int) option" where
  "SendReply g dest devType is_root udn location duration by_type lp st =
     (let nt = (if is_root then root_nt else if by_type then devType else udn) in
      case (if is_root \<or> by_type then usn_text udn nt else Some udn) of
        None \<Rightarrow> Some (st, UPNP_E_OUTOF_MEMORY)
      | Some u \<Rightarrow> do { (m, st1) \<leftarrow> reply_packet g dest nt u location duration lp st; Some (send_made g dest [m] st1) })"

text \<open>Here the UDN and the device type are copied to buffers of one line too.\<close>

definition DeviceReply ::
    "ssdp_env \<Rightarrow> sockaddr \<Rightarrow> string \<Rightarrow> bool \<Rightarrow> string \<Rightarrow> string \<Rightarrow> int \<Rightarrow> low_power \<Rightarrow> ssdp_net \<Rightarrow> (ssdp_net \<times> int) option" where
  "DeviceReply g dest devType is_root udn location duration lp st =
     (case (if is_root then usn_text udn root_nt else Some []) of
        None \<Rightarrow> Some (st, UPNP_E_OUTOF_MEMORY)
      | Some u0 \<Rightarrow>
          do { (m0, st0) \<leftarrow> (if is_root then reply_packet g dest root_nt u0 location duration lp st else Some (None, st));
               if LINE_SIZE \<le> length udn then Some (st0, UPNP_E_OUTOF_MEMORY)
               else
                 do { (m1, st1) \<leftarrow> reply_packet g dest udn udn location duration lp st0;
                      (case (if LINE_SIZE \<le> length devType then None else usn_text udn devType) of
                         None \<Rightarrow> Some (st1, UPNP_E_OUTOF_MEMORY)
                       | Some u2 \<Rightarrow>
                           do { (m2, st2) \<leftarrow> reply_packet g dest devType u2 location duration lp st1;
                                Some (send_made g dest ((if is_root then [m0] else []) @ [m1, m2]) st2) }) } })"

definition ServiceReply ::
    "ssdp_env \<Rightarrow> sockaddr \<Rightarrow> string \<Rightarrow> string \<Rightarrow> string \<Rightarrow> int \<Rightarrow> low_power \<Rightarrow> ssdp_net \<Rightarrow> (ssdp_net \<times> int) option" where
  "ServiceReply g dest servType udn location duration lp st =
     (case usn_text udn servType of
        None \<Rightarrow> Some (st, UPNP_E_OUTOF_MEMORY)
      | Some u \<Rightarrow> do { (m, st1) \<leftarrow> reply_packet g dest servType u location duration lp st; Some (send_made g dest [m] st1) })"

end
