(* ===== verification/SsdpDevice.thy ===== *)
theory SsdpDevice
  imports SsdpPackets
begin

text \<open>
  The device side of discovery: which messages are sent for a device description (\<^verbatim>\<open>AdvertiseAndReply\<close> in
  \<^verbatim>\<open>compa/src/ssdp/ssdp_server.cpp\<close>), and a search request from the socket to the delayed answer (\<^verbatim>\<open>ssdp_device.cpp\<close>). Node lists of the XML
  library get the memory they ask for. \<open>None\<close> is undefined behaviour.
\<close>

section \<open>Versions\<close>

text \<open>\<open>atoi\<close> is undefined when the number does not fit.\<close>

definition atoi :: "string \<Rightarrow> int option" where
  "atoi s = (case strtol 10 s of (n, consumed, erange) \<Rightarrow> if - (2 ^ 31) \<le> n \<and> n < 2 ^ 31 \<and> \<not> erange then Some n else None)"

text \<open>The text behind the last colon; without a colon the code adds 1 to a null pointer.\<close>

definition after_last_colon :: "string \<Rightarrow> string option" where
  "after_last_colon s = (if CHR '':'' \<in> set s then Some (rev (takeWhile (\<lambda>c. c \<noteq> CHR '':'') (rev s))) else None)"

datatype type_match = DifferentType | LowerVersion | SameVersion

definition compare_type :: "string \<Rightarrow> string \<Rightarrow> type_match option" where
  "compare_type wanted own =
     (if strncasecmp_sgn (sz_sub (length wanted) 2) wanted own \<noteq> 0 then Some DifferentType
      else
        do { w \<leftarrow> after_last_colon wanted;
             a \<leftarrow> atoi w;
             b \<leftarrow> (if own = [] then None else atoi [last own]);
             Some (if a < b then LowerVersion else if a = b then SameVersion else DifferentType) })"

definition strcasecmp_sgn :: "string \<Rightarrow> string \<Rightarrow> int" where
  "strcasecmp_sgn a b = strncasecmp_sgn (Suc (max (length a) (length b))) a b"

section \<open>The messages for a description\<close>

definition NUM_SSDP_COPY :: nat where "NUM_SSDP_COPY = 2"

text \<open>The text at the start of the first element with this name.\<close>

definition first_text :: "string \<Rightarrow> xml \<Rightarrow> string option" where
  "first_text tag node =
     (case getElementsByTagName tag node of
        [] \<Rightarrow> None
      | e # es \<Rightarrow> (case children e of Text v # cs \<Rightarrow> Some v | _ \<Rightarrow> None))"

text \<open>The buffers for the type and the UDN have 100 characters.\<close>

definition name_buffer :: "string \<Rightarrow> string" where
  "name_buffer s = take 99 s"

text \<open>What is asked for; the three names may be null pointers.\<close>

record search =
  q_type :: SsdpSearchType
  q_dest :: sockaddr
  q_device :: "string option"
  q_udn :: "string option"
  q_service :: "string option"

definition power_of :: "Handle_Info \<Rightarrow> low_power" where
  "power_of x = \<lparr>lp_state = PowerState x, lp_sleep = SleepPeriod x, lp_registration = RegistrationState x\<rparr>"

text \<open>An answer with the type that was asked for: an older version has the location for older control points.\<close>

definition reply_by_type :: "ssdp_env \<Rightarrow> Handle_Info \<Rightarrow> search \<Rightarrow> string \<Rightarrow> string \<Rightarrow> string \<Rightarrow> ssdp_net \<Rightarrow> ssdp_net option" where
  "reply_by_type g x q wanted own udn st =
     do { m \<leftarrow> compare_type wanted own;
          (case m of
             DifferentType \<Rightarrow> Some st
           | LowerVersion \<Rightarrow> map_option fst (SendReply g (q_dest q) wanted False udn (LowerDescURL x) (MaxAge x) True (power_of x) st)
           | SameVersion \<Rightarrow> map_option fst (SendReply g (q_dest q) wanted False udn (DescURL x) (MaxAge x) True (power_of x) st)) }"

definition answer_device :: "ssdp_env \<Rightarrow> Handle_Info \<Rightarrow> search \<Rightarrow> bool \<Rightarrow> string \<Rightarrow> string \<Rightarrow> ssdp_net \<Rightarrow> ssdp_net option" where
  "answer_device g x q is_root devType udn st =
     (case q_type q of
        SSDP_ALL \<Rightarrow> map_option fst (DeviceReply g (q_dest q) devType is_root udn (DescURL x) (MaxAge x) (power_of x) st)
      | SSDP_ROOTDEVICE \<Rightarrow>
          if is_root then map_option fst (SendReply g (q_dest q) devType True udn (DescURL x) (MaxAge x) False (power_of x) st) else Some st
      | SSDP_DEVICEUDN \<Rightarrow>
          (case q_udn q of
             None \<Rightarrow> Some st
           | Some u \<Rightarrow>
               if u \<noteq> [] \<and> strcasecmp_sgn u udn = 0
               then map_option fst (SendReply g (q_dest q) devType False udn (DescURL x) (MaxAge x) False (power_of x) st)
               else Some st)
      | SSDP_DEVICETYPE \<Rightarrow> (case q_device q of None \<Rightarrow> None | Some t \<Rightarrow> reply_by_type g x q t devType udn st)
      | _ \<Rightarrow> Some st)"

definition answer_service :: "ssdp_env \<Rightarrow> Handle_Info \<Rightarrow> search \<Rightarrow> string \<Rightarrow> string \<Rightarrow> ssdp_net \<Rightarrow> ssdp_net option" where
  "answer_service g x q servType udn st =
     (case q_type q of
        SSDP_ALL \<Rightarrow> map_option fst (ServiceReply g (q_dest q) servType udn (DescURL x) (MaxAge x) (power_of x) st)
      | SSDP_SERVICE \<Rightarrow> (case q_service q of None \<Rightarrow> Some st | Some t \<Rightarrow> reply_by_type g x q t servType udn st)
      | _ \<Rightarrow> Some st)"

text \<open>\<open>flag\<close> is 1 for advertisements, 0 for answers, anything else for good-byes.\<close>

definition device_message ::
    "ssdp_env \<Rightarrow> int \<Rightarrow> int \<Rightarrow> Handle_Info \<Rightarrow> search \<Rightarrow> bool \<Rightarrow> string \<Rightarrow> string \<Rightarrow> ssdp_net \<Rightarrow> ssdp_net option" where
  "device_message g flag duration x q is_root devType udn st =
     (if flag = 0 then answer_device g x q is_root devType udn st
      else
        map_option fst
          ((if flag = 1 then DeviceAdvertisement else DeviceShutdown) g devType is_root udn (DescURL x) duration (DeviceAf x) (power_of x) st))"

definition service_message ::
    "ssdp_env \<Rightarrow> int \<Rightarrow> int \<Rightarrow> Handle_Info \<Rightarrow> search \<Rightarrow> string \<Rightarrow> string \<Rightarrow> ssdp_net \<Rightarrow> ssdp_net option" where
  "service_message g flag duration x q servType udn st =
     (if flag = 0 then answer_service g x q servType udn st
      else
        map_option fst
          ((if flag = 1 then ServiceAdvertisement else ServiceShutdown) g udn servType (DescURL x) duration (DeviceAf x) (power_of x) st))"

fun service_messages ::
    "ssdp_env \<Rightarrow> int \<Rightarrow> int \<Rightarrow> Handle_Info \<Rightarrow> search \<Rightarrow> string \<Rightarrow> xml list \<Rightarrow> ssdp_net \<Rightarrow> ssdp_net option" where
  "service_messages g flag duration x q udn [] st = Some st"
| "service_messages g flag duration x q udn (s # ss) st =
     (case first_text ''serviceType'' s of
        None \<Rightarrow> service_messages g flag duration x q udn ss st
      | Some t \<Rightarrow>
          do { st1 \<leftarrow> service_message g flag duration x q (name_buffer t) udn st;
               service_messages g flag duration x q udn ss st1 })"

text \<open>The services of a device are those of its own list.\<close>

definition own_services :: "xml \<Rightarrow> xml list" where
  "own_services d = (case getSubElement ''serviceList'' d of None \<Rightarrow> [] | Some l \<Rightarrow> getElementsByTagName ''service'' l)"

definition one_device ::
    "ssdp_env \<Rightarrow> int \<Rightarrow> int \<Rightarrow> Handle_Info \<Rightarrow> search \<Rightarrow> bool \<Rightarrow> xml \<Rightarrow> ssdp_net \<Rightarrow> ssdp_net option" where
  "one_device g flag duration x q is_root d st =
     (case (first_text ''deviceType'' d, first_text ''UDN'' d) of
        (Some t, Some u) \<Rightarrow>
          do { st1 \<leftarrow> device_message g flag duration x q is_root (name_buffer t) (name_buffer u) st;
               service_messages g flag duration x q (name_buffer u) (own_services d) st1 }
      | _ \<Rightarrow> Some st)"

fun device_messages ::
    "ssdp_env \<Rightarrow> int \<Rightarrow> int \<Rightarrow> Handle_Info \<Rightarrow> search \<Rightarrow> bool \<Rightarrow> xml list \<Rightarrow> ssdp_net \<Rightarrow> ssdp_net option" where
  "device_messages g flag duration x q is_root [] st = Some st"
| "device_messages g flag duration x q is_root (d # ds) st =
     do { st1 \<leftarrow> one_device g flag duration x q is_root d st; device_messages g flag duration x q False ds st1 }"

definition device_list :: "Handle_Info \<Rightarrow> xml list" where
  "device_list x = (case DescDocument x of None \<Rightarrow> [] | Some doc \<Rightarrow> getElementsByTagName ''device'' doc)"

fun copies :: "nat \<Rightarrow> ('s \<Rightarrow> 's option) \<Rightarrow> 's \<Rightarrow> 's option" where
  "copies 0 f st = Some st"
| "copies (Suc n) f st = do { st1 \<leftarrow> f st; copies n f st1 }"

text \<open>Answers are sent once. The table is read under the read lock, which waits as long as the table is locked for writing.\<close>

definition AdvertiseAndReply ::
    "ssdp_env \<Rightarrow> 'a api_state_scheme \<Rightarrow> int \<Rightarrow> int \<Rightarrow> search \<Rightarrow> int \<Rightarrow> ssdp_net \<Rightarrow> (ssdp_net \<times> int) option" where
  "AdvertiseAndReply g api AdFlag Hnd q duration st =
     (if GlobalHndRWLock api then None
      else
        (case GetHandleInfo Hnd api of
           (HND_DEVICE, Some x) \<Rightarrow>
             map_option (\<lambda>st1. (st1, UPNP_E_SUCCESS))
               (copies (if AdFlag = 0 then 1 else max 1 NUM_SSDP_COPY) (device_messages g AdFlag duration x q True (device_list x)) st)
         | _ \<Rightarrow> Some (st, UPNP_E_INVALID_HANDLE)))"

section \<open>Search requests\<close>

definition HDR_MAN :: int where "HDR_MAN = 12"
definition HDR_MX :: int where "HDR_MX = 13"
definition HDR_ST :: int where "HDR_ST = 20"
definition MX_FUDGE_FACTOR :: int where "MX_FUDGE_FACTOR = 10"
definition BUFSIZE :: nat where "BUFSIZE = 2500"

text \<open>The argument of a delayed answer, and the state: timer and the arguments of the jobs that were scheduled.\<close>

record SsdpSearchReply =
  sr_MaxAge :: int
  sr_handle :: int
  sr_dest :: sockaddr
  sr_event :: SsdpEvent

record ssdp_state =
  gTimerThread :: TimerThread
  replies :: "nat \<Rightarrow> SsdpSearchReply option"
  reply_fresh :: nat

definition reply_code :: nat where "reply_code = 3"
definition free_code :: nat where "free_code = 4"

definition search_job :: "nat \<Rightarrow> ThreadPoolJob" where
  "search_job a = the (fst (TPJobSetFreeFunction (fst (TPJobInit (Some zero_job) (Some reply_code) a)) (Some free_code)))"

definition reduce_mx :: "int \<Rightarrow> int" where
  "reduce_mx mx = max 1 (if 2 \<le> mx then mx - max 1 (mx div MX_FUDGE_FACTOR) else mx)"

text \<open>
  One turn of the loop over the devices: the surroundings are the table (others may have changed it since the last turn), the
  outcome of \<open>malloc\<close>, a random number, the clock and the memory of the timer.
\<close>

record turn_env =
  t_api :: api_state
  t_mem :: bool
  t_rand :: int
  t_now :: int
  t_ms :: ok_script

definition schedule_reply :: "turn_env \<Rightarrow> int \<Rightarrow> SsdpSearchReply \<Rightarrow> ssdp_state \<Rightarrow> ssdp_state" where
  "schedule_reply e mx r st =
     (let a = reply_fresh st in
      case TimerThreadSchedule (t_now e) (t_ms e) (gTimerThread st) (t_rand e mod mx) REL_SEC (search_job a) SHORT_TERM of
        (ms, timer, k, rc) \<Rightarrow> st\<lparr>gTimerThread := timer, replies := (replies st)(a \<mapsto> r), reply_fresh := Suc a\<rparr>)"

lemma GetDeviceHandleInfo_next:
  assumes "GetDeviceHandleInfo start f st = (HND_DEVICE, h, y)"
  shows "start < h \<and> h < NUM_HANDLE \<and> (\<exists>x. y = Some x \<and> slot h st = Some x \<and> HType x = HND_DEVICE \<and> DeviceAf x = f)"
proof -
  have "find (\<lambda>h. device_of f h st \<noteq> None) [start + 1..NUM_HANDLE - 1] = Some h" "y = device_of f h st"
    using assms by (auto simp: GetDeviceHandleInfo_def split: if_splits option.splits)
  then have h: "h \<in> set [start + 1..NUM_HANDLE - 1]" "device_of f h st \<noteq> None"
    by (auto simp: find_Some_iff)
  then show ?thesis
    using \<open>y = device_of f h st\<close>
    by (auto simp: device_of_def GetHandleInfo_def split: prod.splits Upnp_Handle_Type.splits option.splits if_splits)
qed

function reply_loop :: "(nat \<Rightarrow> turn_env) \<Rightarrow> nat \<Rightarrow> sockaddr \<Rightarrow> SsdpEvent \<Rightarrow> int \<Rightarrow> int \<Rightarrow> ssdp_state \<Rightarrow> ssdp_state option" where
  "reply_loop es i dest ev mx start st =
     (if GlobalHndRWLock (t_api (es i)) then None
      else
        (case GetDeviceHandleInfo start (ss_family dest) (t_api (es i)) of
           (HND_DEVICE, h, Some x) \<Rightarrow>
             if \<not> t_mem (es i) then Some st
             else
               reply_loop es (Suc i) dest ev (reduce_mx mx) h
                 (schedule_reply (es i) (reduce_mx mx) \<lparr>sr_MaxAge = MaxAge x, sr_handle = h, sr_dest = dest, sr_event = ev\<rparr> st)
         | _ \<Rightarrow> Some st))"
  by pat_completeness auto
termination
  by (relation "measure (\<lambda>(es, i, dest, ev, mx, start, st). nat (NUM_HANDLE - start))") (auto dest!: GetDeviceHandleInfo_next [OF sym])

declare reply_loop.simps [simp del]

text \<open>The text of a header whose end is overwritten with a NUL for a while.\<close>

definition terminated_text :: "membuffer \<Rightarrow> string option" where
  "terminated_text v =
     (case buf v of None \<Rightarrow> None | Some b \<Rightarrow> if mlength v < length b then Some (c_str (take (mlength v) b)) else None)"

definition ssdp_handle_device_request :: "(nat \<Rightarrow> turn_env) \<Rightarrow> http_parser \<Rightarrow> sockaddr \<Rightarrow> ssdp_state \<Rightarrow> ssdp_state option" where
  "ssdp_handle_device_request es hmsg dest st =
     (if \<not> header_is hmsg HDR_MAN ([CHR 0x22] @ ''ssdp:discover'' @ [CHR 0x22]) then Some st
      else
        (case find_hdr hmsg HDR_MX of
           None \<Rightarrow> Some st
         | Some m \<Rightarrow>
             let mx = raw_to_int (contents m) 10 in
             if mx < 0 then Some st
             else
               (case find_hdr hmsg HDR_ST of
                  None \<Rightarrow> Some st
                | Some v \<Rightarrow>
                    do { t \<leftarrow> terminated_text v;
                         (case ssdp_request_type t of
                            (ev, rc) \<Rightarrow> if rc = - 1 then Some st else reply_loop es 0 dest ev mx 0 st) })))"

text \<open>The job that the timer hands to the pool.\<close>

definition advertiseAndReplyThread ::
    "ssdp_env \<Rightarrow> 'a api_state_scheme \<Rightarrow> nat \<Rightarrow> ssdp_state \<Rightarrow> ssdp_net \<Rightarrow> (ssdp_state \<times> ssdp_net) option" where
  "advertiseAndReplyThread g api a st net =
     do { r \<leftarrow> replies st a;
          (net1, rc) \<leftarrow>
            AdvertiseAndReply g api 0 (sr_handle r)
              \<lparr>q_type = RequestType (sr_event r), q_dest = sr_dest r, q_device = Some (DeviceType (sr_event r)),
                 q_udn = Some (EvUDN (sr_event r)), q_service = Some (ServiceType (sr_event r))\<rparr> (sr_MaxAge r) net;
          Some (st\<lparr>replies := (replies st)(a := None)\<rparr>, net1) }"

section \<open>Reading a datagram\<close>

definition event_code :: nat where "event_code = 5"
definition free_event_code :: nat where "free_event_code = 6"

definition event_job :: "nat \<Rightarrow> ThreadPoolJob" where
  "event_job a =
     (let job = the (fst (TPJobInit (Some zero_job) (Some event_code) a));
          job1 = the (fst (TPJobSetFreeFunction (Some job) (Some free_event_code)))
      in the (fst (TPJobSetPriority (Some job1) MED_PRIORITY)))"

text \<open>
  \<open>searching\<close>: the socket is one of those on which answers to searches come. \<open>received\<close> are the bytes of the datagram and its sender
  (\<open>None\<close>: an error or nothing). The result is the parser and the address that the new job at \<open>a\<close> was given, if there is one.
\<close>

definition readFromSSDPSocket ::
    "bool \<Rightarrow> bool \<Rightarrow> alloc_script \<Rightarrow> (string \<times> sockaddr) option \<Rightarrow> nat \<Rightarrow> add_env \<Rightarrow> ThreadPool \<Rightarrow>
     (ThreadPool \<times> (http_parser \<times> sockaddr) option \<times> int) option" where
  "readFromSSDPSocket searching mem ms received a pe tp =
     (let p = (if searching then parser_response_init HTTPMETHOD_MSEARCH else parser_request_init);
          (ms1, m, rc) = membuffer_set_size ms (msg p) BUFSIZE
      in case received of
           None \<Rightarrow> Some (tp, None, - 1)
         | Some (bytes, from) \<Rightarrow>
             if bytes = [] then Some (tp, None, - 1)
             else if BUFSIZE \<le> length bytes then None
             else if \<not> mem \<or> rc \<noteq> 0 then Some (tp, None, 0)
             else
               (let p1 = p\<lparr>msg := m\<lparr>buf := Some (bytes @ [NUL] @ drop (length bytes + 1) (block m)), mlength := mlength m + length bytes\<rparr>\<rparr> in
                do { (tp1, k, rc1) \<leftarrow> ThreadPoolAdd (add_now pe) (add_ms pe) (add_cs pe) (add_env pe) tp (event_job a);
                     Some (tp1, if rc1 \<noteq> 0 then None else Some (p1, from), 0) }))"

end
