(* ===== verification/SsdpAnnounce.thy ===== *)
theory SsdpAnnounce
  imports SsdpDevice
begin

text \<open>
  Which messages leave the device: the pairs of type and unique name that a description stands for, the text of each, and
  that exactly these are sent.
\<close>

section \<open>A packet is a C string\<close>

lemma insert_terminated:
  assumes "membuffer_insert ms m src n i = Some (ms1, m1, rc)" and "terminated m" and "rc = 0"
  shows "terminated m1"
proof (cases "mlength m < i \<or> src = None \<or> n = 0")
  case True
  then show ?thesis
    using assms by (auto simp: membuffer_insert_def split: if_splits)
next
  case False
  then obtain b2 b3 len m2 where w: "blk_write len [NUL] b2 = Some b3" "m1 = m2\<lparr>buf := b3, mlength := len\<rparr>"
    using assms(1,3) by (auto simp: membuffer_insert_def Let_def split: if_splits prod.splits option.splits)
  then show ?thesis
    by (auto simp: terminated_def blk_write_def nth_append min_def split: option.splits if_splits)
qed

lemma put_all_terminated:
  "put_all ms b ss = Some (ms1, b1, 0) \<Longrightarrow> terminated b \<Longrightarrow> terminated b1"
proof (induction ss arbitrary: ms b)
  case (Cons s ss)
  then show ?case
    using insert_terminated by (fastforce simp: membuffer_append_def split: option.splits prod.splits if_splits)
qed simp

lemma make_message_terminated:
  "http_MakeMessage env ms b major minor fmt as = Some (ms1, b1, 0) \<Longrightarrow> terminated b \<Longrightarrow> terminated b1"
proof (induction env ms b major minor fmt as arbitrary: ms1 b1 rule: http_MakeMessage.induct)
  case (2 env ms b major minor c fmt as)
  obtain st rest where st: "msg_step env major minor c as = (st, rest)"
    by (cases "msg_step env major minor c as")
  note u = http_MakeMessage.simps(2) [of env ms b major minor c fmt as]
  show ?case
  proof (cases st)
    case (Put ss)
    then obtain ms2 b2 where p: "put_all ms b ss = Some (ms2, b2, 0)" "http_MakeMessage env ms2 b2 major minor fmt rest = Some (ms1, b1, 0)"
      using "2.prems"(1) st by (auto simp: u UPNP_E_OUTOF_MEMORY_def split: option.splits prod.splits if_splits)
    show ?thesis
      using "2.IH"(1) [OF st [symmetric] Put p(1) refl refl _ p(2)] put_all_terminated [OF p(1)] "2.prems"(2) by simp
  next
    case (Call f1 a1 f2 a2)
    then obtain ms2 b2 ms3 b3 where p: "http_MakeMessage env ms b major minor f1 a1 = Some (ms2, b2, 0)"
      "http_MakeMessage env ms2 b2 major minor f2 a2 = Some (ms3, b3, 0)" "http_MakeMessage env ms3 b3 major minor fmt rest = Some (ms1, b1, 0)"
      using "2.prems"(1) st by (auto simp: u UPNP_E_OUTOF_MEMORY_def split: option.splits prod.splits if_splits)
    show ?thesis
      using "2.IH"(2) [OF st [symmetric] Call p(1) "2.prems"(2)]
        "2.IH"(3) [OF st [symmetric] Call p(1) refl refl _ p(2)]
        "2.IH"(4) [OF st [symmetric] Call p(1) refl refl _ p(2) refl refl _ p(3)] by simp
  next
    case (Fail code)
    then show ?thesis
      using "2.prems" st
      by (auto simp: u membuffer_destroy_def membuffer_init_def membuffer_initialize_def terminated_def)
  qed (use "2.prems" st in \<open>simp add: u\<close>)
qed simp

definition packet_buffer :: membuffer where "packet_buffer = empty_membuffer\<lparr>size_inc := 30\<rparr>"

lemma packet_text:
  assumes "message_text env 1 1 fmt as = Some t" and "room_for packet_buffer (length t)" and "no_nul t" and "t \<noteq> []"
  shows "\<exists>b s. http_MakeMessage env [] packet_buffer 1 1 fmt as = Some ([], b, 0) \<and> buf b = Some s \<and> c_str s = t"
proof -
  have e: "contents packet_buffer = []" "terminated packet_buffer"
    by (simp_all add: packet_buffer_def empty_membuffer_def membuffer_init_def membuffer_initialize_def contents_def terminated_def)
  obtain b1 where m: "http_MakeMessage env [] packet_buffer 1 1 fmt as = Some ([], b1, 0)" "contents b1 = t" "mb_inv b1"
    using make_message_made [OF assms(1), of packet_buffer 0 "[]"] assms(2) e by (auto simp: made_def room_for_def)
  note tm = make_message_terminated [OF m(1) e(2)]
  obtain s where s: "buf b1 = Some s"
    using m(2) assms(4) by (cases "buf b1") (auto simp: contents_def)
  have "mlength b1 < length s" "s ! mlength b1 = NUL" "take (mlength b1) s = t"
    using s tm m(2) by (auto simp: terminated_def contents_def)
  then have "s = t @ NUL # drop (Suc (mlength b1)) s"
    by (metis id_take_nth_drop)
  then have "c_str s = t"
    using c_str_append_NUL [OF assms(3)] by metis
  then show ?thesis
    using m(1) s by blast
qed

section \<open>What a description stands for\<close>

definition device_names :: "bool \<Rightarrow> string \<Rightarrow> string \<Rightarrow> (string \<times> string) list" where
  "device_names is_root udn ty =
     (if is_root then [(root_nt, udn @ ''::'' @ root_nt)] else []) @ [(udn, udn), (ty, udn @ ''::'' @ ty)]"

definition service_names :: "string \<Rightarrow> xml list \<Rightarrow> (string \<times> string) list" where
  "service_names udn ss =
     concat (map (\<lambda>s. case first_text ''serviceType'' s of None \<Rightarrow> [] | Some t \<Rightarrow> [(name_buffer t, udn @ ''::'' @ name_buffer t)]) ss)"

lemma service_names_Cons:
  "service_names udn (s # ss) =
     (case first_text ''serviceType'' s of None \<Rightarrow> [] | Some t \<Rightarrow> [(name_buffer t, udn @ ''::'' @ name_buffer t)]) @ service_names udn ss"
  by (simp add: service_names_def)

definition names_of :: "bool \<Rightarrow> xml \<Rightarrow> (string \<times> string) list" where
  "names_of is_root d =
     (case (first_text ''deviceType'' d, first_text ''UDN'' d) of
        (Some t, Some u) \<Rightarrow> device_names is_root (name_buffer u) (name_buffer t) @ service_names (name_buffer u) (own_services d)
      | _ \<Rightarrow> [])"

fun all_names :: "bool \<Rightarrow> xml list \<Rightarrow> (string \<times> string) list" where
  "all_names is_root [] = []"
| "all_names is_root (d # ds) = names_of is_root d @ all_names False ds"

section \<open>Sending without failures\<close>

text \<open>The text of the packet for a pair, and the pairs for which everything has room.\<close>

definition pair_text :: "ssdp_env \<Rightarrow> msg_type \<Rightarrow> string \<Rightarrow> int \<Rightarrow> af \<Rightarrow> low_power \<Rightarrow> string \<times> string \<Rightarrow> string option" where
  "pair_text g ty location duration family lp p =
     do { m \<leftarrow> packet_format g ty (fst p) (snd p) location duration family lp; message_text (s_msg g) 1 1 (fst m) (snd m) }"

definition text_fits :: "string option \<Rightarrow> bool" where
  "text_fits t = (case t of None \<Rightarrow> False | Some s \<Rightarrow> s \<noteq> [] \<and> no_nul s \<and> length s < 2000)"

definition pair_fits :: "ssdp_env \<Rightarrow> msg_type \<Rightarrow> string \<Rightarrow> int \<Rightarrow> af \<Rightarrow> low_power \<Rightarrow> string \<times> string \<Rightarrow> bool" where
  "pair_fits g ty location duration family lp p \<longleftrightarrow>
     length (fst p) < LINE_SIZE \<and> length (snd p) < LINE_SIZE \<and> text_fits (pair_text g ty location duration family lp p)"

definition interface_ok :: "ssdp_env \<Rightarrow> sockaddr \<Rightarrow> bool" where
  "interface_ok g dest \<longleftrightarrow> (gIF_IPV4 (s_if g) = [] \<or> inet_pton (s_net g) AF_INET (gIF_IPV4 (s_if g)) \<noteq> None) \<and>
     (ss_family dest = AF_INET \<or> ss_family dest = AF_INET6)"

definition no_failures :: "ssdp_net \<Rightarrow> bool" where
  "no_failures st \<longleftrightarrow> sock_oks st = [] \<and> send_oks st = [] \<and> packet_ms st = []"

definition sent :: "sockaddr \<Rightarrow> string list \<Rightarrow> ssdp_net \<Rightarrow> ssdp_net" where
  "sent dest ts st = st\<lparr>datagrams := datagrams st @ map (\<lambda>t. \<lparr>d_dest = dest, d_text = t\<rparr>) ts\<rparr>"

lemma sent_simps [simp]:
  "no_failures (sent dest ts st) \<longleftrightarrow> no_failures st" "sent dest [] st = st" "sent dest us (sent dest ts st) = sent dest (ts @ us) st"
  by (simp_all add: sent_def no_failures_def)

lemma room_for_packet: "length t < 2000 \<Longrightarrow> room_for packet_buffer (length t)"
  by (simp add: room_for_def grow_def packet_buffer_def empty_membuffer_def membuffer_init_def membuffer_initialize_def mb_inv_def
      SIZE_LIMIT_def)

lemma packet_made:
  assumes "text_fits (pair_text g ty location duration family lp (nt, usn))" and "no_failures st"
  shows "\<exists>s. CreateServicePacket g ty nt usn location duration family lp st = Some (Some s, st) \<and>
    c_str s = the (pair_text g ty location duration family lp (nt, usn))"
proof -
  obtain m t where m: "packet_format g ty nt usn location duration family lp = Some m" "message_text (s_msg g) 1 1 (fst m) (snd m) = Some t"
    and t: "t \<noteq> []" "no_nul t" "length t < 2000" "pair_text g ty location duration family lp (nt, usn) = Some t"
    using assms(1) by (auto simp: text_fits_def pair_text_def split: option.splits Option.bind_splits)
  obtain b s where b: "http_MakeMessage (s_msg g) [] packet_buffer 1 1 (fst m) (snd m) = Some ([], b, 0)" "buf b = Some s" "c_str s = t"
    using packet_text [OF m(2) room_for_packet [OF t(3)] t(2,1)] by blast
  then have "build_packet g m st = Some (Some s, st)"
    using assms(2) by (simp add: build_packet_def packet_buffer_def no_failures_def membuffer_detach_def)
  then show ?thesis
    using m(1) b(3) t(4) by (simp add: CreateServicePacket_def)
qed

lemma send_packets_ok:
  "send_oks st = [] \<Longrightarrow> send_packets dest ms st = (sent dest (map c_str ms) st, UPNP_E_SUCCESS)"
proof (induction ms arbitrary: st)
  case (Cons m ms)
  then show ?case
    by (simp add: sent_def)
qed (simp add: sent_def)

lemma send_made_ok:
  assumes "interface_ok g dest" and "no_failures st" and "list_all2 (\<lambda>p t. \<exists>s. p = Some s \<and> c_str s = t) packets ts"
  shows "send_made g dest packets st = (sent dest ts st, UPNP_E_SUCCESS)"
proof -
  have p: "None \<notin> set packets" "map c_str (map the packets) = ts"
    using assms(3) by (induction packets ts rule: list_all2_induct) auto
  have "st\<lparr>sock_oks := []\<rparr> = st"
    using assms(2) by (cases st) (simp add: no_failures_def)
  then have "send_packets dest (map the packets) (st\<lparr>sock_oks := []\<rparr>) = send_packets dest (map the packets) st"
    by metis
  then show ?thesis
    using assms(1,2) p send_packets_ok [of st dest "map the packets"]
    by (auto simp: send_made_def NewRequestHandler_def interface_ok_def no_failures_def)
qed

lemma device_announced:
  assumes "list_all (pair_fits g ty location duration family lp) (device_names is_root udn devType)"
    and "multicast_dest g family location = Some dest" and "interface_ok g dest" and "no_failures st"
  shows "announce_device g ty devType is_root udn location duration family lp st =
    Some (sent dest (map (the \<circ> pair_text g ty location duration family lp) (device_names is_root udn devType)) st, UPNP_E_SUCCESS)"
proof -
  note made = packet_made [OF _ assms(4)]
  obtain s1 where s1: "CreateServicePacket g ty udn udn location duration family lp st = Some (Some s1, st)"
    "c_str s1 = the (pair_text g ty location duration family lp (udn, udn))"
    using assms(1) made [of g ty location duration family lp udn udn] by (auto simp: device_names_def pair_fits_def)
  obtain s2 where s2: "CreateServicePacket g ty devType (udn @ ''::'' @ devType) location duration family lp st = Some (Some s2, st)"
    "c_str s2 = the (pair_text g ty location duration family lp (devType, udn @ ''::'' @ devType))"
    using assms(1) made [of g ty location duration family lp devType "udn @ ''::'' @ devType"] by (auto simp: device_names_def pair_fits_def)
  have u2: "usn_text udn devType = Some (udn @ ''::'' @ devType)"
    using assms(1) by (simp add: device_names_def pair_fits_def usn_text_def)
  show ?thesis
  proof (cases is_root)
    case True
    obtain s0 where s0: "CreateServicePacket g ty root_nt (udn @ ''::'' @ root_nt) location duration family lp st = Some (Some s0, st)"
      "c_str s0 = the (pair_text g ty location duration family lp (root_nt, udn @ ''::'' @ root_nt))"
      using assms(1) True made [of g ty location duration family lp root_nt "udn @ ''::'' @ root_nt"]
      by (auto simp: device_names_def pair_fits_def)
    have "usn_text udn root_nt = Some (udn @ ''::'' @ root_nt)"
      using assms(1) True by (simp add: device_names_def pair_fits_def usn_text_def)
    then show ?thesis
      using assms(2) True u2 s0 s1 s2 send_made_ok [OF assms(3,4)] by (simp add: announce_device_def device_names_def)
  next
    case False
    then show ?thesis
      using assms(2) u2 s1 s2 send_made_ok [OF assms(3,4)] by (simp add: announce_device_def device_names_def)
  qed
qed

lemma service_announced:
  assumes "pair_fits g ty location duration family lp (servType, udn @ ''::'' @ servType)"
    and "multicast_dest g family location = Some dest" and "interface_ok g dest" and "no_failures st"
  shows "announce_service g ty udn servType location duration family lp st =
    Some (sent dest [the (pair_text g ty location duration family lp (servType, udn @ ''::'' @ servType))] st, UPNP_E_SUCCESS)"
proof -
  obtain s where s: "CreateServicePacket g ty servType (udn @ ''::'' @ servType) location duration family lp st = Some (Some s, st)"
    "c_str s = the (pair_text g ty location duration family lp (servType, udn @ ''::'' @ servType))"
    using assms(1) packet_made [OF _ assms(4), of g ty location duration family lp servType "udn @ ''::'' @ servType"]
    by (auto simp: pair_fits_def)
  have "usn_text udn servType = Some (udn @ ''::'' @ servType)"
    using assms(1) by (simp add: pair_fits_def usn_text_def)
  then show ?thesis
    using assms(2) s send_made_ok [OF assms(3,4)] by (simp add: announce_service_def)
qed

lemma device_answered:
  assumes "list_all (pair_fits g MSGTYPE_REPLY location duration (ss_family dest) lp) (device_names is_root udn devType)"
    and "interface_ok g dest" and "no_failures st"
  shows "DeviceReply g dest devType is_root udn location duration lp st =
    Some (sent dest (map (the \<circ> pair_text g MSGTYPE_REPLY location duration (ss_family dest) lp) (device_names is_root udn devType)) st,
      UPNP_E_SUCCESS)"
proof -
  note made = packet_made [OF _ assms(3)]
  let ?t = "\<lambda>p. the (pair_text g MSGTYPE_REPLY location duration (ss_family dest) lp p)"
  obtain s1 where s1: "reply_packet g dest udn udn location duration lp st = Some (Some s1, st)" "c_str s1 = ?t (udn, udn)"
    using assms(1) made [of g MSGTYPE_REPLY location duration "ss_family dest" lp udn udn]
    by (auto simp: device_names_def pair_fits_def reply_packet_def)
  obtain s2 where s2: "reply_packet g dest devType (udn @ ''::'' @ devType) location duration lp st = Some (Some s2, st)"
    "c_str s2 = ?t (devType, udn @ ''::'' @ devType)"
    using assms(1) made [of g MSGTYPE_REPLY location duration "ss_family dest" lp devType "udn @ ''::'' @ devType"]
    by (auto simp: device_names_def pair_fits_def reply_packet_def)
  have u: "usn_text udn devType = Some (udn @ ''::'' @ devType)" "\<not> LINE_SIZE \<le> length udn" "\<not> LINE_SIZE \<le> length devType"
    using assms(1) by (simp_all add: device_names_def pair_fits_def usn_text_def)
  show ?thesis
  proof (cases is_root)
    case True
    obtain s0 where s0: "reply_packet g dest root_nt (udn @ ''::'' @ root_nt) location duration lp st = Some (Some s0, st)"
      "c_str s0 = ?t (root_nt, udn @ ''::'' @ root_nt)"
      using assms(1) True made [of g MSGTYPE_REPLY location duration "ss_family dest" lp root_nt "udn @ ''::'' @ root_nt"]
      by (auto simp: device_names_def pair_fits_def reply_packet_def)
    have "usn_text udn root_nt = Some (udn @ ''::'' @ root_nt)"
      using assms(1) True by (simp add: device_names_def pair_fits_def usn_text_def)
    then show ?thesis
      using True u s0 s1 s2 send_made_ok [OF assms(2,3)] by (simp add: DeviceReply_def device_names_def)
  next
    case False
    then show ?thesis
      using u s1 s2 send_made_ok [OF assms(2,3)] by (simp add: DeviceReply_def device_names_def)
  qed
qed

lemma service_answered:
  assumes "pair_fits g MSGTYPE_REPLY location duration (ss_family dest) lp (servType, udn @ ''::'' @ servType)"
    and "interface_ok g dest" and "no_failures st"
  shows "ServiceReply g dest servType udn location duration lp st =
    Some (sent dest [the (pair_text g MSGTYPE_REPLY location duration (ss_family dest) lp (servType, udn @ ''::'' @ servType))] st,
      UPNP_E_SUCCESS)"
proof -
  obtain s where s: "reply_packet g dest servType (udn @ ''::'' @ servType) location duration lp st = Some (Some s, st)"
    "c_str s = the (pair_text g MSGTYPE_REPLY location duration (ss_family dest) lp (servType, udn @ ''::'' @ servType))"
    using assms(1) packet_made [OF _ assms(3), of g MSGTYPE_REPLY location duration "ss_family dest" lp servType "udn @ ''::'' @ servType"]
    by (auto simp: pair_fits_def reply_packet_def)
  have "usn_text udn servType = Some (udn @ ''::'' @ servType)"
    using assms(1) by (simp add: pair_fits_def usn_text_def)
  then show ?thesis
    using s send_made_ok [OF assms(2,3)] by (simp add: ServiceReply_def)
qed

section \<open>The whole description\<close>

text \<open>
  What the walk over the description needs from the calls for one device and for one service: for names that fit, they send
  the text of each name to the destination.
\<close>

locale announcer =
  fixes g :: ssdp_env and flag :: int and duration :: int and x :: Handle_Info and q :: search and dest :: sockaddr
    and name_text :: "string \<times> string \<Rightarrow> string" and fits :: "string \<times> string \<Rightarrow> bool"
  assumes device_sent: "list_all fits (device_names is_root udn devType) \<Longrightarrow> no_failures st \<Longrightarrow>
      device_message g flag duration x q is_root devType udn st = Some (sent dest (map name_text (device_names is_root udn devType)) st)"
    and service_sent: "fits (servType, udn @ ''::'' @ servType) \<Longrightarrow> no_failures st \<Longrightarrow>
      service_message g flag duration x q servType udn st = Some (sent dest [name_text (servType, udn @ ''::'' @ servType)] st)"
begin

lemma services_sent:
  "list_all fits (service_names udn ss) \<Longrightarrow> no_failures st \<Longrightarrow>
    service_messages g flag duration x q udn ss st = Some (sent dest (map name_text (service_names udn ss)) st)"
proof (induction ss arbitrary: st)
  case (Cons s ss)
  show ?case
  proof (cases "first_text ''serviceType'' s")
    case None
    then show ?thesis
      using Cons by (simp add: service_names_Cons)
  next
    case (Some t)
    have m: "service_message g flag duration x q (name_buffer t) udn st =
        Some (sent dest [name_text (name_buffer t, udn @ ''::'' @ name_buffer t)] st)"
      by (rule service_sent [OF _ Cons.prems(2)]) (use Cons.prems(1) Some in \<open>simp add: service_names_Cons\<close>)
    show ?thesis
      using Cons.prems Some m by (simp add: Cons.IH service_names_Cons)
  qed
qed (simp add: service_names_def)

lemma one_device_sent:
  assumes "list_all fits (names_of is_root d)" and "no_failures st"
  shows "one_device g flag duration x q is_root d st = Some (sent dest (map name_text (names_of is_root d)) st)"
  using assms device_sent services_sent
  by (cases "first_text ''deviceType'' d"; cases "first_text ''UDN'' d") (auto simp: one_device_def names_of_def)

lemma all_sent:
  "list_all fits (all_names is_root ds) \<Longrightarrow> no_failures st \<Longrightarrow>
    device_messages g flag duration x q is_root ds st = Some (sent dest (map name_text (all_names is_root ds)) st)"
proof (induction ds arbitrary: st is_root)
  case (Cons d ds)
  then show ?case
    using one_device_sent by simp
qed simp

end

text \<open>Advertisements and good-byes, and the answers to a search for everything.\<close>

definition announce_type :: "int \<Rightarrow> msg_type" where
  "announce_type flag = (if flag = 1 then MSGTYPE_ADVERTISEMENT else MSGTYPE_SHUTDOWN)"

definition announce_text :: "ssdp_env \<Rightarrow> int \<Rightarrow> int \<Rightarrow> Handle_Info \<Rightarrow> string \<times> string \<Rightarrow> string" where
  "announce_text g flag duration x p = the (pair_text g (announce_type flag) (DescURL x) duration (DeviceAf x) (power_of x) p)"

definition announce_fits :: "ssdp_env \<Rightarrow> int \<Rightarrow> int \<Rightarrow> Handle_Info \<Rightarrow> sockaddr \<Rightarrow> string \<times> string \<Rightarrow> bool" where
  "announce_fits g flag duration x dest p \<longleftrightarrow> flag \<noteq> 0 \<and> multicast_dest g (DeviceAf x) (DescURL x) = Some dest \<and> interface_ok g dest \<and>
     pair_fits g (announce_type flag) (DescURL x) duration (DeviceAf x) (power_of x) p"

definition answer_text :: "ssdp_env \<Rightarrow> Handle_Info \<Rightarrow> sockaddr \<Rightarrow> string \<times> string \<Rightarrow> string" where
  "answer_text g x dest p = the (pair_text g MSGTYPE_REPLY (DescURL x) (MaxAge x) (ss_family dest) (power_of x) p)"

definition answer_fits :: "ssdp_env \<Rightarrow> Handle_Info \<Rightarrow> search \<Rightarrow> string \<times> string \<Rightarrow> bool" where
  "answer_fits g x q p \<longleftrightarrow> q_type q = SSDP_ALL \<and> interface_ok g (q_dest q) \<and>
     pair_fits g MSGTYPE_REPLY (DescURL x) (MaxAge x) (ss_family (q_dest q)) (power_of x) p"

lemma device_names_all: "list_all (\<lambda>p. c \<and> P p) (device_names r u t) \<longleftrightarrow> c \<and> list_all P (device_names r u t)"
  by (auto simp: device_names_def)

interpretation adv: announcer g flag duration x q dest "announce_text g flag duration x" "announce_fits g flag duration x dest"
  for g flag duration x q dest
proof
  fix is_root :: bool and udn devType st
  assume a: "list_all (announce_fits g flag duration x dest) (device_names is_root udn devType)" "no_failures st"
  then have "flag \<noteq> 0" "multicast_dest g (DeviceAf x) (DescURL x) = Some dest" "interface_ok g dest"
    "list_all (pair_fits g (announce_type flag) (DescURL x) duration (DeviceAf x) (power_of x)) (device_names is_root udn devType)"
    by (auto simp: announce_fits_def [abs_def] device_names_def)
  then show "device_message g flag duration x q is_root devType udn st =
      Some (sent dest (map (announce_text g flag duration x) (device_names is_root udn devType)) st)"
    using device_announced [of g "announce_type flag" "DescURL x" duration "DeviceAf x" "power_of x" is_root udn devType dest st] a(2)
    by (auto simp: device_message_def DeviceAdvertisement_def DeviceShutdown_def announce_type_def announce_text_def [abs_def] o_def)
next
  fix servType udn st
  assume a: "announce_fits g flag duration x dest (servType, udn @ ''::'' @ servType)" "no_failures st"
  then show "service_message g flag duration x q servType udn st =
      Some (sent dest [announce_text g flag duration x (servType, udn @ ''::'' @ servType)] st)"
    using service_announced [of g "announce_type flag" "DescURL x" duration "DeviceAf x" "power_of x" servType udn dest st]
    by (auto simp: service_message_def ServiceAdvertisement_def ServiceShutdown_def announce_type_def announce_text_def announce_fits_def)
qed

interpretation rep: announcer g 0 duration x q "q_dest q" "answer_text g x (q_dest q)" "answer_fits g x q"
  for g duration x q
proof
  fix is_root :: bool and udn devType st
  assume a: "list_all (answer_fits g x q) (device_names is_root udn devType)" "no_failures st"
  then have "q_type q = SSDP_ALL" "interface_ok g (q_dest q)"
    "list_all (pair_fits g MSGTYPE_REPLY (DescURL x) (MaxAge x) (ss_family (q_dest q)) (power_of x)) (device_names is_root udn devType)"
    by (auto simp: answer_fits_def [abs_def] device_names_def)
  then show "device_message g 0 duration x q is_root devType udn st =
      Some (sent (q_dest q) (map (answer_text g x (q_dest q)) (device_names is_root udn devType)) st)"
    using device_answered [of g "DescURL x" "MaxAge x" "q_dest q" "power_of x" is_root udn devType st] a(2)
    by (simp add: device_message_def answer_device_def answer_text_def [abs_def] o_def)
next
  fix servType udn st
  assume a: "answer_fits g x q (servType, udn @ ''::'' @ servType)" "no_failures st"
  then show "service_message g 0 duration x q servType udn st =
      Some (sent (q_dest q) [answer_text g x (q_dest q) (servType, udn @ ''::'' @ servType)] st)"
    using service_answered [of g "DescURL x" "MaxAge x" "q_dest q" "power_of x" servType udn st]
    by (simp add: service_message_def answer_service_def answer_text_def answer_fits_def)
qed

text \<open>
  Property C7. When nothing fails and all names fit their buffers, announcing a device (or saying good-bye) sends, twice in this
  order, exactly one message for every name its description stands for: three for the root device, two for
  each embedded device, one for each service, to the multicast group of the device. A search for everything is answered with
  one message for each of the same names, sent once to the one who asked.
\<close>

theorem AdvertiseAndReply_names_all:
  assumes "GetHandleInfo h api = (HND_DEVICE, Some x)" and "\<not> GlobalHndRWLock api" and "no_failures st"
  shows "(flag \<noteq> 0 \<and> list_all (announce_fits g flag duration x dest) (all_names True (device_list x)) \<longrightarrow>
      AdvertiseAndReply g api flag h q duration st =
        Some (sent dest (concat (replicate NUM_SSDP_COPY (map (announce_text g flag duration x) (all_names True (device_list x))))) st,
              UPNP_E_SUCCESS)) \<and>
    (list_all (answer_fits g x q) (all_names True (device_list x)) \<longrightarrow>
      AdvertiseAndReply g api 0 h q duration st =
        Some (sent (q_dest q) (map (answer_text g x (q_dest q)) (all_names True (device_list x))) st, UPNP_E_SUCCESS))"
  using adv.all_sent [of g flag duration x dest True "device_list x"] rep.all_sent [of g x q True "device_list x" st duration] assms
  by (auto simp: AdvertiseAndReply_def NUM_SSDP_COPY_def numeral_2_eq_2)

section \<open>The texts on the wire\<close>

text \<open>Without the optional headers and for a device without a power state.\<close>

definition plain_env :: "ssdp_env \<Rightarrow> tm \<Rightarrow> bool" where
  "plain_env g d \<longleftrightarrow> gUpnpSdkNLSuuid g = None \<and> gmtime_r (curr_time (s_msg g)) = Some d"

lemma start_texts: "http_get_code_text 200 = Some ''OK''" "method_to_str HTTPMETHOD_NOTIFY = Some ''NOTIFY''"
  by code_simp+

lemma small_numbers: "num_text 10 (Suc 0) = ''1''" "num_text 10 200 = ''200''" "num_text 10 1900 = ''1900''"
  by (simp_all add: num_text.simps digit_char_def)

lemmas packet_defs = pair_text_def packet_format_def opt_headers_def agent_header_def power_headers_def plain_env_def
  letter_text_def msg_letters_def plain_text_def start_texts small_numbers header_line_def

lemma reply_text:
  assumes "plain_env g d" and "lp_state lp \<le> 0" and "no_nul nt" and "no_nul usn" and "no_nul location"
  shows "pair_text g MSGTYPE_REPLY location duration family lp (nt, usn) =
    Some (''HTTP/1.1 200 OK'' @ crlf @ ''CACHE-CONTROL: max-age='' @ num_text 10 (nat (duration mod 2 ^ 64)) @ crlf @
      header_line ''DATE'' (date_text d) @ ''EXT:'' @ crlf @ header_line ''LOCATION'' location @
      ''SERVER: '' @ c_str (get_sdk_info (s_msg g)) @ header_line ''ST'' nt @ header_line ''USN'' usn @ crlf)"
  using assms by (simp add: packet_defs reply_message_def start_line_def dec_text_def HTTP_OK_def)

lemma notify_text:
  assumes "plain_env g d" and "lp_state lp \<le> 0" and "no_nul nt" and "no_nul usn" and "no_nul location" and "ty \<noteq> MSGTYPE_REPLY"
  shows "pair_text g ty location duration AF_INET lp (nt, usn) =
    Some (''NOTIFY * HTTP/1.1'' @ crlf @ ''HOST: 239.255.255.250:1900'' @ crlf @
      ''CACHE-CONTROL: max-age='' @ num_text 10 (nat (duration mod 2 ^ 64)) @ crlf @ header_line ''LOCATION'' location @
      header_line ''NT'' nt @ header_line ''NTS'' (if ty = MSGTYPE_ADVERTISEMENT then ''ssdp:alive'' else ''ssdp:byebye'') @
      ''SERVER: '' @ c_str (get_sdk_info (s_msg g)) @ header_line ''USN'' usn @ crlf)"
  using assms
  by (cases ty) (simp_all add: packet_defs notify_message_def notify_host_def request_line_def SSDP_IP_def SSDP_PORT_def)

text \<open>A lamp with one service and an embedded sensor without services.\<close>

definition lamp_document :: xml where
  "lamp_document = Document [Element ''root'' [Element ''device''
     [Element ''deviceType'' [Text ''urn:a:device:L:1''], Element ''UDN'' [Text ''uuid:1''],
      Element ''serviceList'' [Element ''service'' [Element ''serviceType'' [Text ''urn:a:service:P:1'']]],
      Element ''deviceList'' [Element ''device''
        [Element ''deviceType'' [Text ''urn:a:device:S:1''], Element ''UDN'' [Text ''uuid:2'']]]]]]"

definition lamp_info :: Handle_Info where
  "lamp_info = (device_info ''http://10.0.0.7/d'' None 7 8 AF_INET)\<lparr>DescDocument := Some lamp_document\<rparr>"

definition lamp_state :: api_state where
  "lamp_state = \<lparr>HandleTable = (replicate 200 None)[Suc 0 := Some lamp_info], GlobalHndRWLock = False, UpnpSdkInit = 1,
     UpnpSdkClientRegistered = 0, UpnpSdkDeviceRegisteredV4 = 1, UpnpSdkDeviceregisteredV6 = 0\<rparr>"

definition lamp_env :: ssdp_env where
  "lamp_env = \<lparr>s_net = \<lparr>getaddrinfo = (\<lambda>_. None), inet_pton = (\<lambda>f t. Some [10, 0, 0, 7]), gIF_INDEX = 0\<rparr>,
     s_if = \<lparr>gIF_IPV4 = ''10.0.0.7'', gIF_IPV4_NETMASK = ''255.0.0.0'', gIF_IPV6 = [], gIF_IPV6_PREFIX_LENGTH = 0, gIF_IPV6_ULA_GUA = [],
       gIF_IPV6_ULA_GUA_PREFIX_LENGTH = 0\<rparr>,
     s_msg = demo_env\<lparr>curr_time := 0\<rparr>, gUpnpSdkNLSuuid = None\<rparr>"

definition group_dest :: sockaddr where
  "group_dest = \<lparr>ss_family = AF_INET, sin_port = 1900, sin_addr = [10, 0, 0, 7], scope_id = 0\<rparr>"

definition search_all :: search where
  "search_all = \<lparr>q_type = SSDP_ALL, q_dest = group_dest, q_device = None, q_udn = None, q_service = None\<rparr>"

definition quiet_net :: ssdp_net where
  "quiet_net = \<lparr>sock_oks = [], send_oks = [], packet_ms = [], datagrams = []\<rparr>"

lemma lamp_names:
  "all_names True (device_list lamp_info) =
     [(''upnp:rootdevice'', ''uuid:1::upnp:rootdevice''), (''uuid:1'', ''uuid:1''), (''urn:a:device:L:1'', ''uuid:1::urn:a:device:L:1''),
      (''urn:a:service:P:1'', ''uuid:1::urn:a:service:P:1''), (''uuid:2'', ''uuid:2''), (''urn:a:device:S:1'', ''uuid:2::urn:a:device:S:1'')]"
  by (simp add: device_list_def lamp_info_def lamp_document_def names_of_def device_names_def service_names_def first_text_def
      own_services_def getSubElement_def name_buffer_def root_nt_def)

lemma lamp_date: "gmtime_r 0 \<noteq> None \<and> no_nul (date_text (the (gmtime_r 0))) \<and> length (date_text (the (gmtime_r 0))) = 29"
  by code_simp

lemma lamp_sdk: "c_str (get_sdk_info (demo_env\<lparr>curr_time := 0\<rparr>)) = ''Linux/6.1, UPnP/1.0, Portable SDK for UPnP devices/1.14.18'' @ crlf"
  by (simp add: get_sdk_info_def demo_env_def)

lemma max_age_texts: "num_text 10 100 = ''100''" "num_text 10 1800 = ''1800''"
  by (simp_all add: num_text.simps digit_char_def)

lemma lamp_pair:
  assumes "no_nul nt" and "no_nul usn" and "length nt < 100" and "length usn < 100"
  shows "announce_fits lamp_env 1 100 lamp_info group_dest (nt, usn)" and "answer_fits lamp_env lamp_info search_all (nt, usn)"
proof -
  obtain d where d: "plain_env lamp_env d" "no_nul (date_text d)" "length (date_text d) = 29"
    using lamp_date by (fastforce simp: plain_env_def lamp_env_def)
  have l: "no_nul ''http://10.0.0.7/d''" "lp_state (power_of lamp_info) \<le> 0"
    by (simp_all add: power_of_def lamp_info_def device_info_def blank_info_def)
  have x: "DescURL lamp_info = ''http://10.0.0.7/d''" "MaxAge lamp_info = 1800" "DeviceAf lamp_info = AF_INET"
    by (simp_all add: lamp_info_def device_info_def LINE_SIZE_def DEFAULT_MAXAGE_def)
  have s: "c_str (get_sdk_info (s_msg lamp_env)) = ''Linux/6.1, UPnP/1.0, Portable SDK for UPnP devices/1.14.18'' @ crlf"
    using lamp_sdk by (simp add: lamp_env_def)
  have e: "inet_pton (s_net lamp_env) f t = Some [10, 0, 0, 7]" for f t
    by (simp add: lamp_env_def)
  note n = notify_text [OF d(1) l(2) assms(1,2) l(1), of MSGTYPE_ADVERTISEMENT 100]
    and r = reply_text [OF d(1) l(2) assms(1,2) l(1), of 1800 AF_INET]
  show "announce_fits lamp_env 1 100 lamp_info group_dest (nt, usn)"
    using n assms by (simp add: announce_fits_def announce_type_def pair_fits_def x text_fits_def s header_line_def max_age_texts LINE_SIZE_def
        multicast_dest_def interface_ok_def group_dest_def e zero_sockaddr_def SSDP_PORT_def)
  show "answer_fits lamp_env lamp_info search_all (nt, usn)"
    using r assms d(2,3) by (simp add: answer_fits_def pair_fits_def x text_fits_def s header_line_def max_age_texts LINE_SIZE_def
        interface_ok_def search_all_def group_dest_def e)
qed

lemma lamp_fits:
  "list_all (announce_fits lamp_env 1 100 lamp_info group_dest) (all_names True (device_list lamp_info))"
  "list_all (answer_fits lamp_env lamp_info search_all) (all_names True (device_list lamp_info))"
  by (simp_all add: lamp_names lamp_pair)

lemma lamp_handle: "GetHandleInfo 1 lamp_state = (HND_DEVICE, Some lamp_info)" "\<not> GlobalHndRWLock lamp_state"
  by (simp_all add: GetHandleInfo_def slot_def NUM_HANDLE_def lamp_state_def lamp_info_def device_info_def)

theorem AdvertiseAndReply_names_all_witness:
  "\<exists>st1 st2. AdvertiseAndReply lamp_env lamp_state 1 1 search_all 100 quiet_net = Some (st1, UPNP_E_SUCCESS) \<and> length (datagrams st1) = 12 \<and>
     AdvertiseAndReply lamp_env lamp_state 0 1 search_all 100 quiet_net = Some (st2, UPNP_E_SUCCESS) \<and> length (datagrams st2) = 6"
  using AdvertiseAndReply_names_all [OF lamp_handle, of quiet_net 1 lamp_env 100 group_dest search_all] lamp_fits lamp_names
  by (simp add: no_failures_def quiet_net_def sent_def NUM_SSDP_COPY_def numeral_2_eq_2)

end
