(* ===== verification/SsdpProperties.thy ===== *)
theory SsdpProperties
  imports SsdpAnnounce Subscribing
begin

text \<open>
  What discovery promises: the names a device sends can be taken apart again, every device and service is announced
  exactly as often as it should be, answers come in time, and which types match a search.
\<close>

section \<open>Names\<close>

lemma udn_searches:
  assumes "good_udn udn" and "cmd = udn @ r"
  shows "strstr cmd ''uuid'' = Some 0"
    and "strstr cmd ''uuid:schemas'' = None \<longleftrightarrow> strstr r ''uuid:schemas'' = None"
    and "strstr cmd ''::'' = map_option ((+) (length udn)) (strstr r ''::'')"
    and "strstr cmd ''urn'' = map_option ((+) (length udn)) (strstr r ''urn'')"
    and "strstr cmd ''urn:'' = map_option ((+) (length udn)) (strstr r ''urn:'')"
    and "strstr cmd ''::upnp:rootdevice'' = map_option ((+) (length udn)) (strstr r ''::upnp:rootdevice'')"
    and "strstr cmd '':service:'' = None \<longleftrightarrow> strstr r '':service:'' = None"
proof -
  obtain h w where u: "udn = ''uuid:'' @ h # w" "uuid_chars (h # w)"
    using good_udn_parts [OF assms(1)] .
  have c: "cmd = ''uuid:'' @ h # w @ r" and n: "6 + length w = length udn"
    using assms(2) u(1) by simp_all
  note s = usn_searches [OF u(2) c, unfolded n]
  show "strstr cmd ''uuid'' = Some 0" by (rule s)
  show "strstr cmd ''uuid:schemas'' = None \<longleftrightarrow> strstr r ''uuid:schemas'' = None" by (rule s)
  show "strstr cmd ''::'' = map_option ((+) (length udn)) (strstr r ''::'')" by (rule s)
  show "strstr cmd ''urn'' = map_option ((+) (length udn)) (strstr r ''urn'')" by (rule s)
  show "strstr cmd ''urn:'' = map_option ((+) (length udn)) (strstr r ''urn:'')" by (rule s)
  show "strstr cmd ''::upnp:rootdevice'' = map_option ((+) (length udn)) (strstr r ''::upnp:rootdevice'')" by (rule s)
  show "strstr cmd '':service:'' = None \<longleftrightarrow> strstr r '':service:'' = None" by (rule s)
qed

lemma udn_device_search:
  assumes "good_udn udn" and "cmd = udn @ CHR '':'' # r"
  shows "strstr cmd '':device:'' = None \<longleftrightarrow> strstr (CHR '':'' # r) '':device:'' = None"
proof -
  obtain h w where u: "udn = ''uuid:'' @ h # w" "uuid_chars (h # w)"
    using good_udn_parts [OF assms(1)] .
  then show ?thesis
    using usn_device_search [OF u(2), of cmd r] assms(2) by simp
qed

text \<open>What stands behind the two colons.\<close>

lemma two_colons:
  assumes "prefix ''urn:'' ty"
  shows "strstr (''::'' @ ty) ''::'' = Some 0" and "strstr (''::'' @ ty) ''urn'' = Some 2" and "strstr (''::'' @ ty) ''urn:'' = Some 2"
    and "strstr (''::'' @ ty) ''::upnp:rootdevice'' = None \<longleftrightarrow> \<not> sublist ''::upnp:rootdevice'' ty"
    and "strstr (''::'' @ ty) ''uuid:schemas'' = None \<longleftrightarrow> \<not> sublist ''uuid:schemas'' ty"
    and "strstr (''::'' @ ty) '':device:'' = None \<longleftrightarrow> \<not> sublist '':device:'' ty"
    and "strstr (''::'' @ ty) '':service:'' = None \<longleftrightarrow> \<not> sublist '':service:'' ty"
proof -
  obtain z where ty: "ty = ''urn:'' @ z"
    using assms by (auto simp: prefix_def)
  show "strstr (''::'' @ ty) ''::'' = Some 0" "strstr (''::'' @ ty) ''urn'' = Some 2" "strstr (''::'' @ ty) ''urn:'' = Some 2"
    by (simp_all add: ty strstr_Cons)
  show "strstr (''::'' @ ty) ''::upnp:rootdevice'' = None \<longleftrightarrow> \<not> sublist ''::upnp:rootdevice'' ty"
    "strstr (''::'' @ ty) ''uuid:schemas'' = None \<longleftrightarrow> \<not> sublist ''uuid:schemas'' ty"
    "strstr (''::'' @ ty) '':device:'' = None \<longleftrightarrow> \<not> sublist '':device:'' ty"
    "strstr (''::'' @ ty) '':service:'' = None \<longleftrightarrow> \<not> sublist '':service:'' ty"
    by (simp_all add: strstr_None [symmetric] ty strstr_Cons [of "CHR '':''"])
qed

lemma usn_text_Some: "usn_text udn nt = Some cmd \<longleftrightarrow> cmd = udn @ ''::'' @ nt \<and> length udn + 2 + length nt < LINE_SIZE"
  by (auto simp: usn_text_def Let_def)

lemma name_cut: "length udn < LINE_SIZE \<Longrightarrow> take (if LINE_SIZE \<le> length udn then LINE_SIZE - 1 else length udn) (udn @ r) = udn"
  by simp

lemma line_size_small: "n < LINE_SIZE \<Longrightarrow> sz_sub n 0 = n"
  by (simp add: sz_sub_exact SIZE_MOD_def LINE_SIZE_def)

lemma udn_alone:
  assumes "good_udn udn" and "length udn < LINE_SIZE"
  shows "unique_service_name udn ev = (ev\<lparr>EvUDN := udn\<rparr>, 0)"
proof -
  note s = udn_searches [OF assms(1), of udn "[]", simplified]
  show ?thesis
    using s assms(2) by (simp add: unique_service_name_def usn_uuid_def usn_service_def usn_device_def usn_root_def line_field_def)
qed

lemma udn_with_root:
  assumes "good_udn udn" and "usn_text udn root_nt = Some cmd"
  shows "unique_service_name cmd ev = (ev\<lparr>EvUDN := udn\<rparr>, 0)"
proof -
  have cmd: "cmd = udn @ ''::upnp:rootdevice''" and len: "length udn < LINE_SIZE"
    using assms(2) by (auto simp: usn_text_Some root_nt_def)
  have n: "udn \<noteq> []"
    using assms(1) by (auto simp: good_udn_def)
  have r: "strstr ''::upnp:rootdevice'' ''uuid:schemas'' = None" "strstr ''::upnp:rootdevice'' ''::'' = Some 0"
    "strstr ''::upnp:rootdevice'' ''urn:'' = None" "strstr ''::upnp:rootdevice'' ''::upnp:rootdevice'' = Some 0"
    by code_simp+
  note s = udn_searches [OF assms(1) cmd, unfolded r]
  have t: "take (length udn) cmd = udn"
    by (simp add: cmd)
  show ?thesis
    using s len n t line_size_small [OF len]
    by (simp add: unique_service_name_def usn_uuid_def usn_service_def usn_device_def usn_root_def)
qed

lemma udn_with_type:
  assumes "good_udn udn" and "usn_text udn ty = Some cmd" and "good_type kind ty"
  shows "kind = '':device:'' \<Longrightarrow> unique_service_name cmd ev = (ev\<lparr>EvUDN := udn, DeviceType := ty\<rparr>, 0)"
    and "kind = '':service:'' \<Longrightarrow> unique_service_name cmd ev = (ev\<lparr>EvUDN := udn, ServiceType := ty\<rparr>, 0)"
proof -
  have cmd: "cmd = udn @ ''::'' @ ty" and len: "length udn < LINE_SIZE" "length ty \<le> LINE_SIZE - 1"
    using assms(2) by (auto simp: usn_text_Some)
  have g: "prefix ''urn:'' ty" "sublist kind ty" "\<not> sublist ''uuid:schemas'' ty" "\<not> sublist ''::upnp:rootdevice'' ty"
    "\<not> sublist (if kind = '':device:'' then '':service:'' else '':device:'') ty"
    using assms(3) by (auto simp: good_type_def)
  note s = udn_searches [OF assms(1) cmd, unfolded two_colons(1-3) [OF g(1)]]
  have d: "strstr cmd '':device:'' = None \<longleftrightarrow> \<not> sublist '':device:'' ty"
    using udn_device_search [OF assms(1), of cmd "CHR '':'' # ty"] two_colons(6) [OF g(1)] cmd by simp
  have e: "strstr cmd ''uuid:schemas'' = None" "strstr cmd ''::upnp:rootdevice'' = None"
    "strstr cmd '':service:'' = None \<longleftrightarrow> \<not> sublist '':service:'' ty"
    using s g(3,4) two_colons(4,5,7) [OF g(1)] by simp_all
  have t: "take (length udn) cmd = udn" "drop (Suc (Suc (length udn))) cmd = ty" "line_field ty = ty"
    using len(2) by (simp_all add: cmd line_field_def)
  note u = unique_service_name_def usn_uuid_def usn_service_def usn_device_def usn_root_def
  show "kind = '':device:'' \<Longrightarrow> unique_service_name cmd ev = (ev\<lparr>EvUDN := udn, DeviceType := ty\<rparr>, 0)"
    using s d e t len(1) line_size_small [OF len(1)] g(2,5) by (auto simp: u)
  show "kind = '':service:'' \<Longrightarrow> unique_service_name cmd ev = (ev\<lparr>EvUDN := udn, ServiceType := ty\<rparr>, 0)"
    using s d e t len(1) line_size_small [OF len(1)] g(2,5) by (auto simp: u)
qed

text \<open>
  Property C13. The names a device puts in its messages (its UDN, alone or followed by \<open>upnp:rootdevice\<close> or by a device or service type) are
  taken apart again by the receiver: the UDN and the type come back unchanged, and nothing else of the event changes.
\<close>

theorem unique_service_name_roundtrip:
  assumes "good_udn udn"
  shows "(length udn < LINE_SIZE \<longrightarrow> unique_service_name udn ev = (ev\<lparr>EvUDN := udn\<rparr>, 0)) \<and>
    (\<forall>cmd. usn_text udn root_nt = Some cmd \<longrightarrow> unique_service_name cmd ev = (ev\<lparr>EvUDN := udn\<rparr>, 0)) \<and>
    (\<forall>ty cmd. usn_text udn ty = Some cmd \<and> good_type '':device:'' ty \<longrightarrow>
       unique_service_name cmd ev = (ev\<lparr>EvUDN := udn, DeviceType := ty\<rparr>, 0)) \<and>
    (\<forall>ty cmd. usn_text udn ty = Some cmd \<and> good_type '':service:'' ty \<longrightarrow>
       unique_service_name cmd ev = (ev\<lparr>EvUDN := udn, ServiceType := ty\<rparr>, 0))"
  using udn_alone [OF assms] udn_with_root [OF assms] udn_with_type [OF assms] by blast

theorem unique_service_name_roundtrip_witness:
  "unique_service_name ''uuid:12-ab'' zero_event = (zero_event\<lparr>EvUDN := ''uuid:12-ab''\<rparr>, 0) \<and>
   unique_service_name ''uuid:12-ab::upnp:rootdevice'' zero_event = (zero_event\<lparr>EvUDN := ''uuid:12-ab''\<rparr>, 0) \<and>
   unique_service_name ''uuid:12-ab::urn:a:device:L:1'' zero_event = (zero_event\<lparr>EvUDN := ''uuid:12-ab'', DeviceType := ''urn:a:device:L:1''\<rparr>, 0) \<and>
   unique_service_name ''uuid:12-ab::urn:a:service:P:1'' zero_event = (zero_event\<lparr>EvUDN := ''uuid:12-ab'', ServiceType := ''urn:a:service:P:1''\<rparr>, 0)"
proof -
  have g: "good_udn ''uuid:12-ab''"
    by (simp add: good_udn_def ctype_defs)
  have t: "good_type '':device:'' ''urn:a:device:L:1''" "good_type '':service:'' ''urn:a:service:P:1''"
    by code_simp+
  have u: "usn_text ''uuid:12-ab'' root_nt = Some ''uuid:12-ab::upnp:rootdevice''"
    "usn_text ''uuid:12-ab'' ''urn:a:device:L:1'' = Some ''uuid:12-ab::urn:a:device:L:1''"
    "usn_text ''uuid:12-ab'' ''urn:a:service:P:1'' = Some ''uuid:12-ab::urn:a:service:P:1''"
    by (simp_all add: usn_text_def root_nt_def LINE_SIZE_def)
  show ?thesis
    using unique_service_name_roundtrip [OF g, of zero_event] t u by (simp add: LINE_SIZE_def)
qed

section \<open>Types that match\<close>

lemma strncasecmp_prefix:
  "no_nul xs \<Longrightarrow> no_nul ys \<Longrightarrow> n \<le> length xs \<Longrightarrow> strncasecmp_sgn n xs ys = 0 \<longleftrightarrow> prefix (map tolower (take n xs)) (map tolower ys)"
  unfolding strncasecmp_sgn_def
proof (induction n arbitrary: xs ys)
  case (Suc n)
  obtain x xs' where xs: "xs = x # xs'"
    using Suc.prems(3) by (cases xs) auto
  show ?case
  proof (cases ys)
    case Nil
    then show ?thesis
      using xs Suc.prems(1) by auto
  next
    case (Cons y ys')
    then show ?thesis
      using Suc.IH [of xs' ys'] Suc.prems xs by (auto simp: cmp_sgn_def)
  qed
qed simp

definition digits :: string where "digits = ''0123456789''"

lemma digit_facts:
  assumes "d \<in> set digits"
  shows "\<not> isspace d" "d \<noteq> CHR ''-''" "d \<noteq> CHR ''+''" "digit_val d < 10" "d \<noteq> CHR '':''" "d \<noteq> NUL"
  using assms by (auto simp: digits_def ctype_defs digit_val_def)

lemma atoi_digits:
  assumes "d \<in> set digits"
  shows "atoi [d] = Some (int (digit_val d))" and "a \<in> set digits \<Longrightarrow> atoi [a, d] = Some (int (10 * digit_val a + digit_val d))"
  using digit_facts [of d] digit_facts [of a] assms
  by (simp_all add: atoi_def strtol_def sign_len_def hex_prefix_def digits_of_def strtol_result_def digits_val_def Let_def
      LONG_MAX_def LONG_MIN_def)

lemma after_last_colon_at:
  assumes "CHR '':'' \<notin> set v"
  shows "after_last_colon (t @ CHR '':'' # v) = Some v"
proof -
  have "takeWhile (\<lambda>c. c \<noteq> CHR '':'') (rev v @ CHR '':'' # rev t) = rev v"
    using assms by (subst takeWhile_append2) auto
  then show ?thesis
    by (simp add: after_last_colon_def)
qed

text \<open>
  Property C30. A search for a type with a version of one digit is answered by every type of the device that begins, in
  upper or lower case, with the searched type (\<open>...:Light:1\<close> finds \<open>...:LightBulb:1\<close>) and whose last character is not a smaller digit; a
  version of two digits never matches, not even the same type.
\<close>

theorem compare_type_by_prefix:
  assumes "no_nul t" and "length t < LINE_SIZE" and "v \<in> set digits"
  shows "(\<forall>own d. no_nul own \<and> d \<in> set digits \<longrightarrow>
      compare_type (t @ '':'' @ [v]) (own @ [d]) =
        Some (if \<not> prefix (map tolower t) (map tolower (own @ [d])) then DifferentType
              else if digit_val v < digit_val d then LowerVersion
              else if digit_val v = digit_val d then SameVersion else DifferentType)) \<and>
    (\<forall>a. a \<in> set digits \<and> digit_val a \<noteq> 0 \<longrightarrow>
      compare_type (t @ '':'' @ [a, v]) (t @ '':'' @ [a, v]) = Some DifferentType)"
proof (intro conjI allI impI)
  note v = digit_facts [OF assms(3)] atoi_digits [OF assms(3)]
  have n: "sz_sub (Suc (Suc (length t))) 2 = length t" "sz_sub (Suc (Suc (Suc (length t)))) 2 = Suc (length t)"
    using assms(2) by (simp_all add: sz_sub_exact LINE_SIZE_def SIZE_MOD_def)
  fix own d assume "no_nul own \<and> d \<in> set digits"
  then have d: "no_nul (own @ [d])" "atoi [d] = Some (int (digit_val d))"
    using digit_facts [of d] atoi_digits [of d] by simp_all
  have "strncasecmp_sgn (length t) (t @ '':'' @ [v]) (own @ [d]) = 0 \<longleftrightarrow> prefix (map tolower t) (map tolower (own @ [d]))"
    using strncasecmp_prefix [of "t @ '':'' @ [v]" "own @ [d]" "length t"] assms(1) v(6) d(1) by simp
  moreover have "after_last_colon (t @ CHR '':'' # [v]) = Some [v]"
    using v(5) by (intro after_last_colon_at) simp
  ultimately show "compare_type (t @ '':'' @ [v]) (own @ [d]) =
      Some (if \<not> prefix (map tolower t) (map tolower (own @ [d])) then DifferentType
            else if digit_val v < digit_val d then LowerVersion
            else if digit_val v = digit_val d then SameVersion else DifferentType)"
    using n d v by (simp add: compare_type_def)
next
  note v = digit_facts [OF assms(3)] atoi_digits [OF assms(3)]
  have n: "sz_sub (Suc (Suc (Suc (length t)))) 2 = Suc (length t)"
    using assms(2) by (simp_all add: sz_sub_exact LINE_SIZE_def SIZE_MOD_def)
  fix a assume "a \<in> set digits \<and> digit_val a \<noteq> 0"
  then have a: "a \<noteq> CHR '':''" "a \<noteq> NUL" "0 < digit_val a" "atoi [a, v] = Some (int (10 * digit_val a + digit_val v))"
    using digit_facts [of a] v(8) [of a] by auto
  have "strncasecmp_sgn (Suc (length t)) (t @ '':'' @ [a, v]) (t @ '':'' @ [a, v]) = 0"
    using strncasecmp_prefix [of "t @ '':'' @ [a, v]" "t @ '':'' @ [a, v]" "Suc (length t)"] assms(1) v(6) a(2) by simp
  moreover have "after_last_colon (t @ CHR '':'' # [a, v]) = Some [a, v]"
    using v(5) a(1) by (intro after_last_colon_at) simp
  ultimately show "compare_type (t @ '':'' @ [a, v]) (t @ '':'' @ [a, v]) = Some DifferentType"
    using n a v(7) by (simp add: compare_type_def)
qed

theorem compare_type_by_prefix_witness:
  "compare_type ''urn:a:device:Light:1'' ''urn:a:device:LightBulb:1'' = Some SameVersion \<and>
   compare_type ''urn:a:device:light:1'' ''urn:a:device:Light:2'' = Some LowerVersion \<and>
   compare_type ''urn:a:device:Light:12'' ''urn:a:device:Light:12'' = Some DifferentType"
proof -
  have d: "CHR ''1'' \<in> set digits" "CHR ''2'' \<in> set digits" "digit_val (CHR ''1'') = 1" "digit_val (CHR ''2'') = 2"
    by (simp_all add: digits_def digit_val_def ctype_defs)
  have l: "tolower (CHR ''L'') = CHR ''l''" "tolower (CHR ''l'') = CHR ''l''"
    by code_simp+
  show ?thesis
    using compare_type_by_prefix [of "''urn:a:device:Light''" "CHR ''1''", THEN conjunct1, rule_format, of "''urn:a:device:LightBulb:''" "CHR ''1''"]
      compare_type_by_prefix [of "''urn:a:device:light''" "CHR ''1''", THEN conjunct1, rule_format, of "''urn:a:device:Light:''" "CHR ''2''"]
      compare_type_by_prefix [of "''urn:a:device:Light''" "CHR ''2''", THEN conjunct2, rule_format, of "CHR ''1''"] d l
    by (simp add: LINE_SIZE_def)
qed

section \<open>Answers in time\<close>

text \<open>The devices of an address family behind a handle, in the order of the table.\<close>

definition device_handles :: "af \<Rightarrow> int \<Rightarrow> 'a api_state_scheme \<Rightarrow> int list" where
  "device_handles f start api = filter (\<lambda>h. device_of f h api \<noteq> None) [start + 1..NUM_HANDLE - 1]"

lemma filter_upto_Cons:
  "filter P [a..b] = h # hs \<Longrightarrow> find P [a..b] = Some h \<and> hs = filter P [h + 1..b] \<and> a \<le> h \<and> h \<le> (b::int)"
proof (induction a b rule: upto.induct)
  case (1 a b)
  show ?case
  proof (cases "a \<le> b")
    case True
    then have u: "[a..b] = a # [a + 1..b]"
      by (rule upto_rec1)
    show ?thesis
    proof (cases "P a")
      case True
      then have "find P [a..b] = Some a"
        by (simp only: u find.simps if_True)
      moreover have "a # filter P [a + 1..b] = h # hs"
        using 1(2) True by (simp only: u filter.simps if_True)
      ultimately show ?thesis
        using \<open>a \<le> b\<close> by (metis list.inject order_refl)
    next
      case False
      then have "filter P [a + 1..b] = h # hs"
        using 1(2) by (simp add: u del: upto.simps)
      then have "find P [a + 1..b] = Some h \<and> hs = filter P [h + 1..b] \<and> a + 1 \<le> h \<and> h \<le> b"
        by (rule 1(1) [OF \<open>a \<le> b\<close>])
      moreover have "find P [a..b] = find P [a + 1..b]"
        using False by (simp only: u find.simps if_False)
      ultimately show ?thesis
        by simp
    qed
  qed (use 1(2) in simp)
qed

lemma GetDeviceHandleInfo_list:
  assumes "\<not> no_device f api" and "0 \<le> start"
  shows "device_handles f start api = [] \<Longrightarrow> GetDeviceHandleInfo start f api = (HND_INVALID, - 1, None)"
    and "device_handles f start api = h # hs \<Longrightarrow>
      GetDeviceHandleInfo start f api = (HND_DEVICE, h, device_of f h api) \<and> hs = device_handles f h api \<and> start < h \<and> device_of f h api \<noteq> None"
proof -
  show "device_handles f start api = [] \<Longrightarrow> GetDeviceHandleInfo start f api = (HND_INVALID, - 1, None)"
  proof -
    assume "device_handles f start api = []"
    then have "find (\<lambda>h. device_of f h api \<noteq> None) [start + 1..NUM_HANDLE - 1] = None"
      by (simp add: device_handles_def filter_empty_conv find_None_iff)
    then show ?thesis
      by (simp only: GetDeviceHandleInfo_def option.case if_cancel)
  qed
  assume a: "device_handles f start api = h # hs"
  then show "GetDeviceHandleInfo start f api = (HND_DEVICE, h, device_of f h api) \<and> hs = device_handles f h api \<and> start < h \<and> device_of f h api \<noteq> None"
  proof -
    have f: "find (\<lambda>h. device_of f h api \<noteq> None) [start + 1..NUM_HANDLE - 1] = Some h" "hs = device_handles f h api" "start < h" "h < NUM_HANDLE"
      using filter_upto_Cons [OF a [unfolded device_handles_def]] by (simp_all only: device_handles_def) linarith+
    then have s: "\<not> (start < 0 \<or> NUM_HANDLE - 1 \<le> start)"
      using assms(2) by linarith
    have "device_of f h api \<noteq> None"
      using f(1) by (metis (mono_tags, lifting) find_Some_iff)
    then show ?thesis
      using f s assms(1) by (simp only: GetDeviceHandleInfo_def option.case if_False simp_thms)
  qed
qed

lemma reduce_mx_bounds: "1 \<le> reduce_mx mx" "reduce_mx mx \<le> max 1 mx"
  by (auto simp: reduce_mx_def MX_FUDGE_FACTOR_def)

lemma reduce_mx_less: "2 \<le> mx \<Longrightarrow> reduce_mx mx < mx"
  by (auto simp: reduce_mx_def MX_FUDGE_FACTOR_def)

text \<open>One scheduled answer.\<close>

definition answer_to :: "af \<Rightarrow> 'a api_state_scheme \<Rightarrow> sockaddr \<Rightarrow> SsdpEvent \<Rightarrow> int \<Rightarrow> SsdpSearchReply" where
  "answer_to f api dest ev h = \<lparr>sr_MaxAge = MaxAge (the (device_of f h api)), sr_handle = h, sr_dest = dest, sr_event = ev\<rparr>"

lemma search_job_arg [simp]: "arg (search_job a) = a"
  by (simp add: search_job_def TPJobInit_def TPJobSetFreeFunction_def non_null_def)

lemma schedule_reply_event:
  assumes "1 \<le> mx" and "e \<in> set (eventQ (gTimerThread (schedule_reply t mx r st)))" and "e \<notin> set (eventQ (gTimerThread st))"
  shows "arg (job e) = reply_fresh st \<and> t_now t \<le> eventTime e \<and> eventTime e < t_now t + mx"
proof -
  obtain ms timer k rc where s: "TimerThreadSchedule (t_now t) (t_ms t) (gTimerThread st) (t_rand t mod mx) REL_SEC
      (search_job (reply_fresh st)) SHORT_TERM = (ms, timer, k, rc)"
    by (metis prod_cases4)
  then have "e \<in> set (eventQ timer)"
    using assms(2) by (simp add: schedule_reply_def Let_def)
  with s show ?thesis
    using assms(1,3) by (cases rule: TimerThreadSchedule_cases) (auto simp: CalculateEventTime_def)
qed

lemma schedule_reply_fields:
  "reply_fresh (schedule_reply t mx r st) = Suc (reply_fresh st)"
  "replies (schedule_reply t mx r st) = (replies st)(reply_fresh st \<mapsto> r)"
  by (simp_all add: schedule_reply_def Let_def split: prod.split)

lemma reply_loop_answers:
  assumes "\<forall>i. t_api (es i) = api \<and> t_mem (es i)" and "\<not> GlobalHndRWLock api" and "\<not> no_device (ss_family dest) api"
  shows "device_handles (ss_family dest) start api = hs \<Longrightarrow> 0 \<le> start \<Longrightarrow> \<exists>st1. reply_loop es n dest ev mx start st = Some st1 \<and>
      reply_fresh st1 = reply_fresh st + length hs \<and>
      (\<forall>a. replies st1 a = (if reply_fresh st \<le> a \<and> a < reply_fresh st + length hs
         then Some (answer_to (ss_family dest) api dest ev (hs ! (a - reply_fresh st))) else replies st a)) \<and>
      (\<forall>e\<in>set (eventQ (gTimerThread st1)) - set (eventQ (gTimerThread st)). \<exists>k<length hs. arg (job e) = reply_fresh st + k \<and>
         t_now (es (n + k)) \<le> eventTime e \<and> eventTime e < t_now (es (n + k)) + max 1 mx)"
proof (induction hs arbitrary: start n mx st)
  case Nil
  have "reply_loop es n dest ev mx start st = Some st"
    using assms GetDeviceHandleInfo_list(1) [OF assms(3) Nil(2,1)] by (subst reply_loop.simps) simp
  then show ?case
    by auto
next
  case (Cons h hs)
  let ?f = "ss_family dest"
  note d = GetDeviceHandleInfo_list(2) [OF assms(3) Cons.prems(2,1)]
  obtain x where x: "device_of ?f h api = Some x"
    using d by blast
  define st2 where "st2 = schedule_reply (es n) (reduce_mx mx) (answer_to ?f api dest ev h) st"
  have step: "reply_loop es n dest ev mx start st = reply_loop es (Suc n) dest ev (reduce_mx mx) h st2"
    using assms(1,2) d x by (subst reply_loop.simps) (simp add: st2_def answer_to_def)
  obtain st1 where st1: "reply_loop es (Suc n) dest ev (reduce_mx mx) h st2 = Some st1"
      "reply_fresh st1 = reply_fresh st2 + length hs"
      "\<forall>a. replies st1 a = (if reply_fresh st2 \<le> a \<and> a < reply_fresh st2 + length hs
         then Some (answer_to ?f api dest ev (hs ! (a - reply_fresh st2))) else replies st2 a)"
      "\<forall>e\<in>set (eventQ (gTimerThread st1)) - set (eventQ (gTimerThread st2)). \<exists>k<length hs. arg (job e) = reply_fresh st2 + k \<and>
         t_now (es (Suc n + k)) \<le> eventTime e \<and> eventTime e < t_now (es (Suc n + k)) + max 1 (reduce_mx mx)"
    using Cons.IH [of h "Suc n" "reduce_mx mx" st2] d Cons.prems(2) by auto
  note fields = schedule_reply_fields [of "es n" "reduce_mx mx" "answer_to ?f api dest ev h" st, folded st2_def]
  have r: "replies st1 a = (if reply_fresh st \<le> a \<and> a < reply_fresh st + length (h # hs)
         then Some (answer_to ?f api dest ev ((h # hs) ! (a - reply_fresh st))) else replies st a)" for a
  proof -
    consider "a < reply_fresh st" | "a = reply_fresh st" | k where "a = Suc (reply_fresh st + k)"
      by (metis less_imp_Suc_add linorder_neqE_nat)
    then show ?thesis
      by cases (use st1(3) in \<open>auto simp: fields\<close>)
  qed
  have t: "\<exists>k<length (h # hs). arg (job e) = reply_fresh st + k \<and> t_now (es (n + k)) \<le> eventTime e \<and>
      eventTime e < t_now (es (n + k)) + max 1 mx"
    if e: "e \<in> set (eventQ (gTimerThread st1))" "e \<notin> set (eventQ (gTimerThread st))" for e
  proof (cases "e \<in> set (eventQ (gTimerThread st2))")
    case True
    then show ?thesis
      using schedule_reply_event [of "reduce_mx mx" e "es n" "answer_to ?f api dest ev h" st] e(2) reduce_mx_bounds [of mx]
      by (intro exI [of _ 0]) (auto simp: st2_def)
  next
    case False
    then obtain k where "k < length hs" "arg (job e) = reply_fresh st2 + k" "t_now (es (Suc n + k)) \<le> eventTime e"
      "eventTime e < t_now (es (Suc n + k)) + max 1 (reduce_mx mx)"
      using st1(4) e(1) by blast
    then show ?thesis
      using reduce_mx_bounds [of mx] by (intro exI [of _ "Suc k"]) (auto simp: fields)
  qed
  show ?case
    using step st1(1,2) fields(1) r t by auto
qed


definition search_message :: http_parser where
  "search_message = parser_init\<lparr>headers := [header HDR_MAN ([CHR 0x22] @ ''ssdp:discover'' @ [CHR 0x22]), header HDR_MX ''3'', header HDR_ST ''ssdp:all'']\<rparr>"

definition lamp_turn :: turn_env where
  "lamp_turn = \<lparr>t_api = lamp_state, t_mem = True, t_rand = 5, t_now = 100, t_ms = []\<rparr>"

definition quiet_timer :: ssdp_state where
  "quiet_timer = \<lparr>gTimerThread = \<lparr>lastEventId = 0, eventQ = [], queue_nodes = 0, timer_shutdown = False, freeEvents = 0\<rparr>, replies = Map.empty, reply_fresh = 1\<rparr>"

lemma lamp_handles: "device_handles AF_INET 0 lamp_state = [1]"
proof -
  have d: "device_of AF_INET h lamp_state = (if h = 1 then Some lamp_info else None)" if "1 \<le> h" "h < 200" for h
    using that by (auto simp: device_of_def GetHandleInfo_def slot_def NUM_HANDLE_def lamp_state_def lamp_info_def device_info_def nth_list_update nat_eq_iff)
  have "[1..199] = 1 # [2..(199::int)]"
    by (simp add: upto_rec1)
  moreover have "filter (\<lambda>h. device_of AF_INET h lamp_state \<noteq> None) [2..199] = []"
    using d by (auto simp: filter_empty_conv)
  ultimately show ?thesis
    using d [of 1] by (simp add: device_handles_def NUM_HANDLE_def del: upto_rec_numeral)
qed

lemma search_headers:
  "find_hdr search_message HDR_MAN = Some (text_buffer ([CHR 0x22] @ ''ssdp:discover'' @ [CHR 0x22]))"
  "find_hdr search_message HDR_MX = Some (text_buffer ''3'')" "find_hdr search_message HDR_ST = Some (text_buffer ''ssdp:all'')"
  by (simp_all add: find_hdr_def search_message_def httpmsg_find_hdr_def HDR_MAN_def HDR_MX_def HDR_ST_def upt_conv_Cons header_def)


end
