(* ===== verification/SsdpCtrlpt.thy ===== *)
theory SsdpCtrlpt
  imports SsdpDevice
begin

text \<open>
  The control point side of discovery, \<^verbatim>\<open>compa/src/ssdp/ssdp_ctrlpt.cpp\<close>: advertisements and answers that come in, and searches with their
  timeouts. The strings of a \<open>UpnpDiscovery\<close> get the memory they need. \<open>None\<close> is undefined behaviour.
\<close>

section \<open>What the application is told\<close>

record UpnpDiscovery =
  u_ErrCode :: int
  u_Expires :: int
  u_DeviceID :: string
  u_DeviceType :: string
  u_ServiceType :: string
  u_Location :: string
  u_Os :: string
  u_Date :: string
  u_Ext :: string
  u_DestAddr :: sockaddr

definition UpnpDiscovery_new :: UpnpDiscovery where
  "UpnpDiscovery_new = \<lparr>u_ErrCode = 0, u_Expires = 0, u_DeviceID = [], u_DeviceType = [], u_ServiceType = [], u_Location = [],
     u_Os = [], u_Date = [], u_Ext = [], u_DestAddr = zero_sockaddr\<rparr>"

datatype Upnp_EventType =
    UPNP_DISCOVERY_ADVERTISEMENT_ALIVE | UPNP_DISCOVERY_ADVERTISEMENT_BYEBYE
  | UPNP_DISCOVERY_SEARCH_RESULT | UPNP_DISCOVERY_SEARCH_TIMEOUT

record client_call =
  cc_callback :: nat
  cc_type :: Upnp_EventType
  cc_param :: "UpnpDiscovery option"
  cc_cookie :: nat

section \<open>Searches\<close>

record SsdpSearchArg =
  timeoutEventId :: int
  searchTarget :: "string option"
  sa_cookie :: nat
  requestType :: SsdpSearchType

text \<open>The table with the search lists of the clients, the timer, and the arguments of the timeout jobs: handle and event id.\<close>

record cp_state = api_state +
  SsdpSearchList :: "int \<Rightarrow> SsdpSearchArg list"
  cp_timer :: TimerThread
  exp_args :: "nat \<Rightarrow> (int \<times> int) option"
  exp_fresh :: nat

section \<open>Reading a message\<close>

definition HDR_CACHE_CONTROL :: int where "HDR_CACHE_CONTROL = 1"
definition HDR_DATE :: int where "HDR_DATE = 5"
definition HDR_EXT :: int where "HDR_EXT = 6"
definition HDR_LOCATION :: int where "HDR_LOCATION = 11"
definition HDR_NTS :: int where "HDR_NTS = 15"
definition HDR_SERVER :: int where "HDR_SERVER = 16"
definition HDR_USN :: int where "HDR_USN = 23"
definition HDR_USER_AGENT :: int where "HDR_USER_AGENT = 24"

definition hdr_text :: "http_parser \<Rightarrow> int \<Rightarrow> string option option" where
  "hdr_text hmsg k = (case find_hdr hmsg k of None \<Rightarrow> Some None | Some v \<Rightarrow> map_option Some (terminated_text v))"

text \<open>The time a message is valid, and whether the header can be read.\<close>

definition read_expires :: "net_env \<Rightarrow> http_parser \<Rightarrow> (int \<times> bool) option" where
  "read_expires net hmsg =
     (case find_hdr hmsg HDR_CACHE_CONTROL of
        None \<Rightarrow> Some (- 1, True)
      | Some v \<Rightarrow>
          do { (st, outs) \<leftarrow> matchstr net (block v) (mlength v) ''%imax-age = %d%0'';
               Some (case outs of [OInt (Some n)] \<Rightarrow> n | _ \<Rightarrow> - 1, st = PARSE_OK) })"

definition or_empty :: "string option \<Rightarrow> string" where
  "or_empty t = (case t of None \<Rightarrow> [] | Some s \<Rightarrow> s)"

definition read_discovery :: "http_parser \<Rightarrow> sockaddr \<Rightarrow> int \<Rightarrow> UpnpDiscovery option" where
  "read_discovery hmsg dest expires =
     do { date \<leftarrow> (case find_hdr hmsg HDR_DATE of None \<Rightarrow> Some [] | Some v \<Rightarrow> map_option c_str (buf v));
          ext \<leftarrow> hdr_text hmsg HDR_EXT;
          location \<leftarrow> hdr_text hmsg HDR_LOCATION;
          os \<leftarrow> (if find_hdr hmsg HDR_SERVER \<noteq> None then hdr_text hmsg HDR_SERVER else hdr_text hmsg HDR_USER_AGENT);
          Some (UpnpDiscovery_new\<lparr>u_ErrCode := UPNP_E_SUCCESS, u_Expires := expires, u_Date := date, u_DestAddr := dest,
            u_Ext := or_empty ext, u_Location := or_empty location, u_Os := or_empty os\<rparr>) }"

text \<open>What the notification type and the unique name say: \<open>nt_found\<close> and \<open>usn_found\<close>.\<close>

definition read_names :: "http_parser \<Rightarrow> (SsdpEvent \<times> bool \<times> bool) option" where
  "read_names hmsg =
     do { nt \<leftarrow> hdr_text hmsg HDR_NT;
          usn \<leftarrow> hdr_text hmsg HDR_USN;
          let (ev1, nt_found) = (case nt of None \<Rightarrow> (zero_event, False) | Some t \<Rightarrow> (case ssdp_request_type t of (e, rc) \<Rightarrow> (e, rc = 0)));
              (ev2, usn_found) = (case usn of None \<Rightarrow> (ev1, False) | Some t \<Rightarrow> (case unique_service_name t ev1 of (e, rc) \<Rightarrow> (e, rc = 0)))
          in Some (ev2, nt_found, usn_found) }"

definition with_names :: "SsdpEvent \<Rightarrow> bool \<Rightarrow> UpnpDiscovery \<Rightarrow> UpnpDiscovery" where
  "with_names ev found param =
     (if found then param\<lparr>u_DeviceID := EvUDN ev, u_DeviceType := DeviceType ev, u_ServiceType := ServiceType ev\<rparr> else param)"

definition advert_type :: "http_parser \<Rightarrow> UpnpDiscovery \<Rightarrow> bool \<Rightarrow> Upnp_EventType option" where
  "advert_type hmsg param both_found =
     (if header_is hmsg HDR_NTS ''ssdp:alive'' then
        (if \<not> both_found \<or> u_Location param = [] \<or> u_Expires param \<le> 0 then None else Some UPNP_DISCOVERY_ADVERTISEMENT_ALIVE)
      else if header_is hmsg HDR_NTS ''ssdp:byebye'' then
        (if both_found then Some UPNP_DISCOVERY_ADVERTISEMENT_BYEBYE else None)
      else None)"

section \<open>Calls of the clients\<close>

text \<open>The loop over the handles: \<open>seen h\<close> is the table when it is the turn of \<open>h\<close>.\<close>

fun client_calls :: "(int \<Rightarrow> 'a api_state_scheme) \<Rightarrow> Upnp_EventType \<Rightarrow> UpnpDiscovery option \<Rightarrow> int list \<Rightarrow> client_call list option" where
  "client_calls seen ty param [] = Some []"
| "client_calls seen ty param (h # hs) =
     (if GlobalHndRWLock (seen h) then None
      else
        (case GetHandleInfo h (seen h) of
           (HND_CLIENT, Some x) \<Rightarrow>
             map_option (Cons \<lparr>cc_callback = Callback x, cc_type = ty, cc_param = param, cc_cookie = Cookie x\<rparr>) (client_calls seen ty param hs)
         | _ \<Rightarrow> client_calls seen ty param hs))"

section \<open>Answers to searches\<close>

text \<open>Whether an answer with this search target is for a search.\<close>

definition search_matches :: "SsdpSearchArg \<Rightarrow> membuffer \<Rightarrow> SsdpSearchType \<Rightarrow> bool option" where
  "search_matches a v ty =
     (case requestType a of
        SSDP_ALL \<Rightarrow> Some True
      | SSDP_ROOTDEVICE \<Rightarrow> Some (ty = SSDP_ROOTDEVICE)
      | SSDP_DEVICEUDN \<Rightarrow> map_option (\<lambda>t. strncmp_sgn (mlength v) t (block v) = 0) (searchTarget a)
      | SSDP_DEVICETYPE \<Rightarrow> map_option (\<lambda>t. strncmp_sgn (min (mlength v) (length t)) t (block v) = 0) (searchTarget a)
      | SSDP_SERVICE \<Rightarrow> map_option (\<lambda>t. strncmp_sgn (min (mlength v) (length t)) t (block v) = 0) (searchTarget a)
      | SSDP_SERROR \<Rightarrow> Some False)"

text \<open>The results that wait for their job, and the pool. One element of the script for every result: the memory and the pool.\<close>

record ctrlpt_net =
  gRecvThreadPool :: ThreadPool
  result_data :: "nat \<Rightarrow> client_call option"
  result_fresh :: nat

type_synonym result_script = "(bool \<times> add_env) list"

fun next_result :: "result_script \<Rightarrow> (bool \<times> add_env) \<times> result_script" where
  "next_result [] = ((True, calm), [])"
| "next_result (r # rs) = (r, rs)"

definition result_code :: nat where "result_code = 7"
definition free_result_code :: nat where "free_result_code = 8"

definition result_job :: "nat \<Rightarrow> ThreadPoolJob" where
  "result_job a =
     (let job = the (fst (TPJobInit (Some zero_job) (Some result_code) a));
          job1 = the (fst (TPJobSetPriority (Some job) MED_PRIORITY))
      in the (fst (TPJobSetFreeFunction (Some job1) (Some free_result_code))))"

text \<open>A refused job is forgotten with its data.\<close>

definition queue_result :: "bool \<times> add_env \<Rightarrow> client_call \<Rightarrow> ctrlpt_net \<Rightarrow> ctrlpt_net option" where
  "queue_result r c st =
     (if \<not> fst r then Some st
      else
        (let a = result_fresh st; pe = snd r in
         do { (tp, k, rc) \<leftarrow> ThreadPoolAdd (add_now pe) (add_ms pe) (add_cs pe) (add_env pe) (gRecvThreadPool st) (result_job a);
              Some (st\<lparr>gRecvThreadPool := tp, result_fresh := Suc a,
                result_data := (if rc \<noteq> 0 then result_data st else (result_data st)(a \<mapsto> c))\<rparr>) }))"

fun list_results ::
    "Handle_Info \<Rightarrow> UpnpDiscovery \<Rightarrow> membuffer \<Rightarrow> SsdpSearchType \<Rightarrow> SsdpSearchArg list \<Rightarrow> result_script \<Rightarrow> ctrlpt_net \<Rightarrow>
     (result_script \<times> ctrlpt_net) option" where
  "list_results x param v ty [] rs st = Some (rs, st)"
| "list_results x param v ty (a # as) rs st =
     do { m \<leftarrow> search_matches a v ty;
          if \<not> m then list_results x param v ty as rs st
          else
            (case next_result rs of
               (r, rs1) \<Rightarrow>
                 do { st1 \<leftarrow> queue_result r \<lparr>cc_callback = Callback x, cc_type = UPNP_DISCOVERY_SEARCH_RESULT, cc_param = Some param,
                        cc_cookie = sa_cookie a\<rparr> st;
                      list_results x param v ty as rs1 st1 }) }"

fun client_results ::
    "(int \<Rightarrow> cp_state) \<Rightarrow> UpnpDiscovery \<Rightarrow> membuffer \<Rightarrow> SsdpSearchType \<Rightarrow> int list \<Rightarrow> result_script \<Rightarrow> ctrlpt_net \<Rightarrow> ctrlpt_net option" where
  "client_results seen param v ty [] rs st = Some st"
| "client_results seen param v ty (h # hs) rs st =
     (if GlobalHndRWLock (seen h) then None
      else
        (case GetHandleInfo h (seen h) of
           (HND_CLIENT, Some x) \<Rightarrow>
             do { (rs1, st1) \<leftarrow> list_results x param v ty (SsdpSearchList (seen h) h) rs st;
                  client_results seen param v ty hs rs1 st1 }
         | _ \<Rightarrow> client_results seen param v ty hs rs st))"

section \<open>The handler\<close>

text \<open>An answer: the search target is looked at only in a good one.\<close>

definition answer_message ::
    "(int \<Rightarrow> cp_state) \<Rightarrow> int list \<Rightarrow> http_parser \<Rightarrow> UpnpDiscovery \<Rightarrow> bool \<Rightarrow> result_script \<Rightarrow> ctrlpt_net \<Rightarrow> ctrlpt_net option" where
  "answer_message seen hs hmsg param usn_found rs st =
     (case find_hdr hmsg HDR_ST of
        None \<Rightarrow> Some st
      | Some v \<Rightarrow>
          do { t \<leftarrow> terminated_text v;
               (case ssdp_request_type t of
                  (ev, rc) \<Rightarrow>
                    if status_code hmsg \<noteq> HTTP_OK \<or> u_Expires param \<le> 0 \<or> u_Location param = [] \<or> \<not> usn_found \<or> rc \<noteq> 0 then Some st
                    else client_results seen param v (RequestType ev) hs rs st) })"

text \<open>\<open>mem\<close>: there is memory for the description. The result has the calls made by this thread.\<close>

definition ssdp_handle_ctrlpt_msg ::
    "net_env \<Rightarrow> bool \<Rightarrow> cp_state \<Rightarrow> (int \<Rightarrow> cp_state) \<Rightarrow> result_script \<Rightarrow> http_parser \<Rightarrow> sockaddr \<Rightarrow> bool \<Rightarrow> ctrlpt_net \<Rightarrow>
     (ctrlpt_net \<times> client_call list) option" where
  "ssdp_handle_ctrlpt_msg net mem first seen rs hmsg dest timeout st =
     (if GlobalHndRWLock first then None
      else
        (case GetClientHandleInfo first of
           (HND_CLIENT, start, x) \<Rightarrow>
             (let hs = [start..NUM_HANDLE - 1] in
              if timeout then map_option (Pair st) (client_calls seen UPNP_DISCOVERY_SEARCH_TIMEOUT None hs)
              else if \<not> mem then None
              else
                do { (expires, readable) \<leftarrow> read_expires net hmsg;
                     if \<not> readable then Some (st, [])
                     else
                       do { param0 \<leftarrow> read_discovery hmsg dest expires;
                            (ev, nt_found, usn_found) \<leftarrow> read_names hmsg;
                            let param = with_names ev (nt_found \<or> usn_found) param0 in
                            if is_request hmsg then
                              (case advert_type hmsg param (nt_found \<and> usn_found) of
                                 None \<Rightarrow> Some (st, [])
                               | Some ty \<Rightarrow> map_option (Pair st) (client_calls seen ty (Some param) hs))
                            else map_option (\<lambda>st1. (st1, [])) (answer_message seen hs hmsg param usn_found rs st) } })
         | _ \<Rightarrow> Some (st, [])))"

text \<open>The job of a result.\<close>

definition send_search_result :: "nat \<Rightarrow> ctrlpt_net \<Rightarrow> (ctrlpt_net \<times> client_call list) option" where
  "send_search_result a st =
     do { c \<leftarrow> result_data st a; Some (st\<lparr>result_data := (result_data st)(a := None)\<rparr>, [c]) }"

end
