(* ===== verification/SsdpSearch.thy ===== *)
theory SsdpSearch
  imports SsdpCtrlpt
begin

text \<open>
  Searches of a control point, \<^verbatim>\<open>compa/src/ssdp/ssdp_ctrlpt.cpp\<close> and \<open>UpnpSearchAsync\<close> of \<^verbatim>\<open>compa/src/api/upnpapi.cpp\<close>: the request packet, the entry in
  the search list with its timeout, and the end of a search. \<open>None\<close> is undefined behaviour, or waiting for the lock for ever.
\<close>

section \<open>The request\<close>

definition COMMAND_LEN :: nat where "COMMAND_LEN = 300"
definition UPNP_E_BUFFER_TOO_SMALL :: int where "UPNP_E_BUFFER_TOO_SMALL = -106"
definition UPNP_E_INVALID_ARGUMENT :: int where "UPNP_E_INVALID_ARGUMENT = -501"

text \<open>An error stops the rest.\<close>

definition and_then :: "'e + 'a \<Rightarrow> ('a \<Rightarrow> 'e + 'b) \<Rightarrow> 'e + 'b" where
  "and_then r f = (case r of Inl e \<Rightarrow> Inl e | Inr x \<Rightarrow> f x)"

definition put_part :: "nat \<Rightarrow> string \<Rightarrow> string \<Rightarrow> int + string" where
  "put_part n part u = (if n \<le> length u + length part then Inl UPNP_E_BUFFER_TOO_SMALL else Inr (u @ part))"

text \<open>A part that is printed into \<open>TempBuf\<close> first.\<close>

definition put_printed :: "nat \<Rightarrow> string \<Rightarrow> string \<Rightarrow> int + string" where
  "put_printed n part u = (if COMMAND_LEN \<le> length part then Inl UPNP_E_INTERNAL_ERROR else put_part n part u)"

definition host_line :: "string \<Rightarrow> af \<Rightarrow> string option" where
  "host_line group6 family =
     (case family of
        AF_INET \<Rightarrow> Some (''HOST: '' @ SSDP_IP @ '':'' @ dec_text (int SSDP_PORT) @ crlf)
      | AF_INET6 \<Rightarrow> Some (''HOST: ['' @ group6 @ '']:'' @ dec_text (int SSDP_PORT) @ crlf)
      | _ \<Rightarrow> None)"

definition request_packet :: "string \<Rightarrow> nat \<Rightarrow> int \<Rightarrow> string option \<Rightarrow> af \<Rightarrow> int + string" where
  "request_packet group6 n mx St family =
     (let command = ''M-SEARCH * HTTP/1.1'' @ crlf; man = ''MAN: '' @ [CHR 0x22] @ ''ssdp:discover'' @ [CHR 0x22] @ crlf in
      if n \<le> length command then Inl UPNP_E_INTERNAL_ERROR
      else
        (case host_line group6 family of
           None \<Rightarrow> Inl UPNP_E_INVALID_ARGUMENT
         | Some host \<Rightarrow>
             and_then (put_printed n host command) (\<lambda>t1.
             and_then (put_part n man t1) (\<lambda>t2.
             and_then (if 0 < mx then put_printed n (''MX: '' @ dec_text mx @ crlf) t2 else Inr t2) (\<lambda>t3.
             and_then (case St of None \<Rightarrow> Inr t3 | Some s \<Rightarrow> put_printed n (''ST: '' @ s @ crlf) t3) (\<lambda>t4.
               put_part n crlf t4))))))"

definition CreateClientRequestPacket :: "nat \<Rightarrow> int \<Rightarrow> string option \<Rightarrow> af \<Rightarrow> int + string" where
  "CreateClientRequestPacket = request_packet SSDP_IPV6_LINKLOCAL"

definition CreateClientRequestPacketUlaGua :: "nat \<Rightarrow> int \<Rightarrow> string option \<Rightarrow> af \<Rightarrow> int + string" where
  "CreateClientRequestPacketUlaGua = request_packet SSDP_IPV6_SITELOCAL"

section \<open>Starting a search\<close>

definition MAX_SEARCH_TIME :: int where "MAX_SEARCH_TIME = 80"
definition MIN_SEARCH_TIME :: int where "MIN_SEARCH_TIME = 2"
definition DEFAULT_MX :: int where "DEFAULT_MX = 5"

definition search_time :: "int \<Rightarrow> int" where
  "search_time mx = (if mx < MIN_SEARCH_TIME then MIN_SEARCH_TIME else if MAX_SEARCH_TIME < mx then MAX_SEARCH_TIME else mx)"

text \<open>
  The surroundings: the address functions and the interface, the memory for the entry, for the copy of the target and for the
  argument of the timeout, clock and memory of the timer, the two sockets (whether there is one), what \<open>select\<close> answers.
\<close>

record search_env =
  sv_net :: net_env
  sv_if :: if_info
  sv_entry :: bool
  sv_strdup :: bool
  sv_exp :: bool
  sv_now :: int
  sv_ms :: ok_script
  sv_sock4 :: bool
  sv_sock6 :: bool
  sv_select :: bool
  sv_ready4 :: bool
  sv_ready6 :: bool

definition expire_code :: nat where "expire_code = 9"

definition expire_job :: "nat \<Rightarrow> ThreadPoolJob" where
  "expire_job a =
     (let job = the (fst (TPJobInit (Some zero_job) (Some expire_code) a));
          job1 = the (fst (TPJobSetPriority (Some job) MED_PRIORITY))
      in the (fst (TPJobSetFreeFunction (Some job1) (Some free_code))))"

text \<open>In the critical section: the timeout is scheduled and the entry goes to the end of the list.\<close>

definition add_search :: "search_env \<Rightarrow> int \<Rightarrow> int \<Rightarrow> string \<Rightarrow> nat \<Rightarrow> cp_state \<Rightarrow> cp_state option" where
  "add_search e h seconds St cookie st =
     (if \<not> sv_entry e \<or> \<not> sv_exp e then None
      else
        (let a = exp_fresh st in
         case TimerThreadSchedule (sv_now e) (sv_ms e) (cp_timer st) seconds REL_SEC (expire_job a) SHORT_TERM of
           (ms, timer, k, rc) \<Rightarrow>
             Some (st\<lparr>cp_timer := timer, exp_args := (exp_args st)(a \<mapsto> (h, k)), exp_fresh := Suc a,
               SsdpSearchList := (SsdpSearchList st)(h := SsdpSearchList st h @
                 [\<lparr>timeoutEventId = k, searchTarget = (if sv_strdup e then Some St else None), sa_cookie = cookie,
                   requestType = ssdp_request_type1 St\<rparr>])\<rparr>)))"

definition group_addr :: "net_env \<Rightarrow> af \<Rightarrow> string \<Rightarrow> sockaddr \<Rightarrow> sockaddr" where
  "group_addr net f t a = a\<lparr>ss_family := f, sin_port := SSDP_PORT, sin_addr := (case inet_pton net f t of None \<Rightarrow> sin_addr a | Some b \<Rightarrow> b)\<rparr>"

text \<open>The requests go out on the sockets that are ready: on IPv6 first to the site-local, then to the link-local group. Errors of \<open>sendto\<close> are ignored.\<close>

definition search_datagrams :: "search_env \<Rightarrow> string \<Rightarrow> string \<Rightarrow> string \<Rightarrow> datagram list" where
  "search_datagrams e t4 t6 t6site =
     (let d4 = group_addr (sv_net e) AF_INET SSDP_IP zero_sockaddr;
          site = (group_addr (sv_net e) AF_INET6 SSDP_IPV6_SITELOCAL zero_sockaddr)\<lparr>scope_id := gIF_INDEX (sv_net e)\<rparr>;
          link = group_addr (sv_net e) AF_INET6 SSDP_IPV6_LINKLOCAL site
      in (if sv_sock6 e \<and> sv_ready6 e
          then replicate NUM_SSDP_COPY \<lparr>d_dest = site, d_text = t6site\<rparr> @ replicate NUM_SSDP_COPY \<lparr>d_dest = link, d_text = t6\<rparr> else []) @
         (if sv_sock4 e \<and> sv_ready4 e then replicate NUM_SSDP_COPY \<lparr>d_dest = d4, d_text = t4\<rparr> else []))"

definition search_packets :: "int \<Rightarrow> string \<Rightarrow> int + (string \<times> string \<times> string)" where
  "search_packets seconds St =
     and_then (CreateClientRequestPacket BUFSIZE seconds (Some St) AF_INET) (\<lambda>t4.
     and_then (CreateClientRequestPacket BUFSIZE seconds (Some St) AF_INET6) (\<lambda>t6.
     and_then (CreateClientRequestPacketUlaGua BUFSIZE seconds (Some St) AF_INET6) (\<lambda>t6site. Inr (t4, t6, t6site))))"

definition SearchByTarget :: "search_env \<Rightarrow> int \<Rightarrow> int \<Rightarrow> string \<Rightarrow> nat \<Rightarrow> cp_state \<Rightarrow> (cp_state \<times> datagram list \<times> int) option" where
  "SearchByTarget e h mx St cookie st =
     (if gIF_IPV4 (sv_if e) \<noteq> [] \<and> inet_pton (sv_net e) AF_INET (gIF_IPV4 (sv_if e)) = None then Some (st, [], UPNP_E_INVALID_PARAM)
      else if ssdp_request_type1 St = SSDP_SERROR then Some (st, [], UPNP_E_INVALID_PARAM)
      else
        (case search_packets (search_time mx) St of
           Inl err \<Rightarrow> Some (st, [], err)
         | Inr (t4, t6, t6site) \<Rightarrow>
             do { st1 \<leftarrow> HandleLock st;
                  (case GetHandleInfo h st1 of
                     (HND_CLIENT, Some x) \<Rightarrow>
                       do { st2 \<leftarrow> add_search e h (search_time mx) St cookie st1;
                            st3 \<leftarrow> HandleUnlock st2;
                            Some (if sv_select e then (st3, search_datagrams e t4 t6 t6site, 1) else (st3, [], UPNP_E_INTERNAL_ERROR)) }
                   | _ \<Rightarrow> map_option (\<lambda>st2. (st2, [], UPNP_E_INTERNAL_ERROR)) (HandleUnlock st1)) }))"

definition UpnpSearchAsync ::
    "search_env \<Rightarrow> int \<Rightarrow> int \<Rightarrow> string option \<Rightarrow> nat \<Rightarrow> cp_state \<Rightarrow> (cp_state \<times> datagram list \<times> int) option" where
  "UpnpSearchAsync e h mx Target cookie st =
     (if UpnpSdkInit st \<noteq> 1 then Some (st, [], UPNP_E_FINISH)
      else if GlobalHndRWLock st then None
      else if fst (GetHandleInfo h st) \<noteq> HND_CLIENT then Some (st, [], UPNP_E_INVALID_HANDLE)
      else
        (case Target of
           None \<Rightarrow> Some (st, [], UPNP_E_INVALID_PARAM)
         | Some t \<Rightarrow>
             map_option (\<lambda>(st1, ds, rc). (st1, ds, if rc \<noteq> 1 then rc else UPNP_E_SUCCESS))
               (SearchByTarget e h (if mx < 1 then DEFAULT_MX else mx) t cookie st)))"

section \<open>The end of a search\<close>

fun take_search :: "int \<Rightarrow> SsdpSearchArg list \<Rightarrow> SsdpSearchArg option \<times> SsdpSearchArg list" where
  "take_search k [] = (None, [])"
| "take_search k (a # as) = (if timeoutEventId a = k then (Some a, as) else (case take_search k as of (r, bs) \<Rightarrow> (r, a # bs)))"

definition searchExpired :: "nat \<Rightarrow> cp_state \<Rightarrow> (cp_state \<times> client_call list) option" where
  "searchExpired a st =
     do { (h, k) \<leftarrow> exp_args st a;
          st1 \<leftarrow> HandleLock st;
          let st2 = st1\<lparr>exp_args := (exp_args st1)(a := None)\<rparr> in
          (case GetHandleInfo h st1 of
             (HND_CLIENT, Some x) \<Rightarrow>
               (case take_search k (SsdpSearchList st1 h) of
                  (found, rest) \<Rightarrow>
                    do { st3 \<leftarrow> HandleUnlock (st2\<lparr>SsdpSearchList := (SsdpSearchList st2)(h := rest)\<rparr>);
                         Some (st3, case found of None \<Rightarrow> [] | Some s \<Rightarrow>
                           [\<lparr>cc_callback = Callback x, cc_type = UPNP_DISCOVERY_SEARCH_TIMEOUT, cc_param = None, cc_cookie = sa_cookie s\<rparr>]) })
           | _ \<Rightarrow> map_option (\<lambda>st3. (st3, [])) (HandleUnlock st2)) }"

section \<open>Clients come and go\<close>

text \<open>A new client has an empty search list.\<close>

definition register_client ::
    "bool \<Rightarrow> Handle_Info \<Rightarrow> nat option \<Rightarrow> nat \<Rightarrow> bool \<Rightarrow> 'a cp_state_scheme \<Rightarrow> ('a cp_state_scheme \<times> int \<times> int option) option" where
  "register_client mem junk Fun cookie have_hnd st =
     map_option (\<lambda>(st1, rc, hnd). (if rc = UPNP_E_SUCCESS then st1\<lparr>SsdpSearchList := (SsdpSearchList st1)(the hnd := [])\<rparr> else st1, rc, hnd))
       (UpnpRegisterClient mem junk Fun cookie have_hnd st)"

text \<open>\<open>gena\<close> is the result of \<open>genaUnregisterClient\<close>; other threads may change the state meanwhile.\<close>

definition UpnpUnRegisterClient :: "int \<Rightarrow> ('a cp_state_scheme \<Rightarrow> 'a cp_state_scheme) \<Rightarrow> int \<Rightarrow> 'a cp_state_scheme \<Rightarrow> ('a cp_state_scheme \<times> int) option" where
  "UpnpUnRegisterClient gena others h st =
     (if UpnpSdkInit st \<noteq> 1 then Some (st, UPNP_E_FINISH)
      else
        do { st1 \<leftarrow> HandleLock st;
             st2 \<leftarrow> HandleUnlock st1;
             if UpnpSdkClientRegistered st1 = 0 then Some (st2, UPNP_E_INVALID_HANDLE)
             else if gena \<noteq> UPNP_E_SUCCESS then Some (others st2, UPNP_E_INVALID_HANDLE)
             else
               do { st3 \<leftarrow> HandleLock (others st2);
                    (case GetHandleInfo h st3 of
                       (HND_INVALID, y) \<Rightarrow> map_option (\<lambda>st4. (st4, UPNP_E_INVALID_HANDLE)) (HandleUnlock st3)
                     | _ \<Rightarrow>
                         (let st4 = fst (FreeHandle h (st3\<lparr>SsdpSearchList := (SsdpSearchList st3)(h := [])\<rparr>)) in
                          map_option (\<lambda>st5. (st5, UPNP_E_SUCCESS))
                            (HandleUnlock (st4\<lparr>UpnpSdkClientRegistered := UpnpSdkClientRegistered st4 - 1\<rparr>)))) } })"

end
