(* ===== verification/SsdpSearchSystem.thy ===== *)
theory SsdpSearchSystem
  imports SsdpSearch
begin

text \<open>
  Clients, searches and the timer together: the states that are reached by registering and unregistering clients, by searches, by events of the
  timer and by the jobs of ended searches, in any order. The timer gets the memory it needs and the pool takes its jobs.
\<close>

section \<open>The system\<close>

text \<open>The second component are the arguments of the timeout jobs that the pool was given and has not run.\<close>

type_synonym search_system = "cp_state \<times> nat list"

definition search_id_event :: "int \<Rightarrow> nat \<Rightarrow> TimerEvent \<Rightarrow> bool" where
  "search_id_event k a e \<longleftrightarrow> func (job e) = expire_code \<and> arg (job e) = a \<and> event_id e = k"

definition search_start :: "cp_state \<Rightarrow> bool" where
  "search_start st \<longleftrightarrow> \<not> GlobalHndRWLock st \<and> length (HandleTable st) = nat NUM_HANDLE \<and> (\<forall>h. SsdpSearchList st h = []) \<and>
     eventQ (cp_timer st) = [] \<and> exp_args st = Map.empty"

inductive search_step :: "search_system \<Rightarrow> search_system \<Rightarrow> bool" where
  search: "sv_ms e = [] \<Longrightarrow> SearchByTarget e h mx t cookie st = Some (st1, ds, rc) \<Longrightarrow> search_step (st, due) (st1, due)"
| register: "register_client mem junk f cookie have st = Some (st1, rc, hnd) \<Longrightarrow> search_step (st, due) (st1, due)"
| unregister: "UpnpUnRegisterClient gena (\<lambda>s. s) h st = Some (st1, rc) \<Longrightarrow> search_step (st, due) (st1, due)"
| schedule: "TimerThreadSchedule now ms (cp_timer st) seconds ty j d = (ms1, timer, k, rc) \<Longrightarrow> func j \<noteq> expire_code \<Longrightarrow>
    search_step (st, due) (st\<lparr>cp_timer := timer\<rparr>, due)"
| fire: "eventQ (cp_timer st) = e # es \<Longrightarrow>
    search_step (st, due) (st\<lparr>cp_timer := FreeTimerEvent (del_event (cp_timer st) 0)\<rparr>,
      if func (job e) = expire_code then due @ [arg (job e)] else due)"
| expire: "a \<in> set due \<Longrightarrow> searchExpired a st = Some (st1, calls) \<Longrightarrow> search_step (st, due) (st1, remove1 a due)"

inductive search_reachable :: "search_system \<Rightarrow> bool" where
  start: "search_start st \<Longrightarrow> search_reachable (st, [])"
| step: "search_reachable s \<Longrightarrow> search_step s s1 \<Longrightarrow> search_reachable s1"

section \<open>The invariant\<close>

text \<open>A timeout is pending when it waits in the timer or in the pool.\<close>

definition pending :: "search_system \<Rightarrow> int \<Rightarrow> nat \<Rightarrow> bool" where
  "pending s k a \<longleftrightarrow> a \<in> set (snd s) \<or> (\<exists>e\<in>set (eventQ (cp_timer (fst s))). search_id_event k a e)"

definition searches_timed :: "search_system \<Rightarrow> bool" where
  "searches_timed s \<longleftrightarrow>
     (\<forall>h. \<forall>x\<in>set (SsdpSearchList (fst s) h). \<exists>a. exp_args (fst s) a = Some (h, timeoutEventId x) \<and> pending s (timeoutEventId x) a)"

definition timeouts_ok :: "search_system \<Rightarrow> bool" where
  "timeouts_ok s \<longleftrightarrow>
     (\<forall>e\<in>set (eventQ (cp_timer (fst s))). func (job e) = expire_code \<longrightarrow>
        (\<exists>h. exp_args (fst s) (arg (job e)) = Some (h, event_id e)) \<and> arg (job e) \<notin> set (snd s)) \<and>
     distinct (snd s) \<and> (\<forall>a\<in>set (snd s). exp_args (fst s) a \<noteq> None) \<and>
     (\<forall>a h k. exp_args (fst s) a = Some (h, k) \<longrightarrow> a < exp_fresh (fst s) \<and> k < lastEventId (cp_timer (fst s)))"

definition lists_ok :: "cp_state \<Rightarrow> bool" where
  "lists_ok st \<longleftrightarrow> (\<forall>h. distinct (map timeoutEventId (SsdpSearchList st h)) \<and>
     (SsdpSearchList st h \<noteq> [] \<longrightarrow> (\<exists>x. GetHandleInfo h st = (HND_CLIENT, Some x))))"

definition search_inv :: "search_system \<Rightarrow> bool" where
  "search_inv s \<longleftrightarrow> \<not> GlobalHndRWLock (fst s) \<and> length (HandleTable (fst s)) = nat NUM_HANDLE \<and> timer_inv (cp_timer (fst s)) \<and>
     searches_timed s \<and> timeouts_ok s \<and> lists_ok (fst s)"

lemma search_invI:
  assumes "\<not> GlobalHndRWLock st" "length (HandleTable st) = nat NUM_HANDLE" "timer_inv (cp_timer st)" "searches_timed (st, due)"
    "timeouts_ok (st, due)" "lists_ok st"
  shows "search_inv (st, due)"
  using assms by (simp add: search_inv_def)

lemma expire_job_fields [simp]: "func (expire_job a) = expire_code" "arg (expire_job a) = a"
  by (simp_all add: expire_job_def TPJobInit_def TPJobSetFreeFunction_def TPJobSetPriority_def non_null_def)

text \<open>With memory the timer always takes the event.\<close>

lemma alloc_taken: "\<exists>n1. pool_alloc [] n = ([], n1, True)"
  by (simp add: pool_alloc_def)

lemma schedule_taken:
  assumes "TimerThreadSchedule now [] timer seconds ty j d = (ms, t1, k, rc)"
  shows "k = lastEventId timer \<and> lastEventId t1 = k + 1 \<and>
    set (eventQ t1) = insert \<lparr>job = j, eventTime = CalculateEventTime now seconds ty, persistent = d, event_id = k\<rparr> (set (eventQ timer))"
proof -
  obtain n1 n2 where n: "pool_alloc [] (freeEvents timer) = ([], n1, True)" "pool_alloc [] (queue_nodes timer) = ([], n2, True)"
    using alloc_taken by blast
  show ?thesis
    using assms by (simp add: TimerThreadSchedule_def CreateTimerEvent_def n Let_def) (elim conjE, simp add: eq_commute [of _ t1])
qed

lemma lock_free:
  assumes "\<not> GlobalHndRWLock st"
  shows "HandleLock st = Some (st\<lparr>GlobalHndRWLock := True\<rparr>)" and "HandleUnlock (st\<lparr>GlobalHndRWLock := True\<rparr>) = Some st"
proof -
  show "HandleLock st = Some (st\<lparr>GlobalHndRWLock := True\<rparr>)"
    using assms by (simp add: HandleLock_def)
  have "st\<lparr>GlobalHndRWLock := False\<rparr> = st"
    using assms by (cases st) simp
  then show "HandleUnlock (st\<lparr>GlobalHndRWLock := True\<rparr>) = Some st"
    by (simp add: HandleUnlock_def)
qed

lemma locked_info [simp]: "GetHandleInfo h (st\<lparr>GlobalHndRWLock := b\<rparr>) = GetHandleInfo h st"
  by (simp add: GetHandleInfo_def slot_def)

lemma cp_info [simp]:
  "GetHandleInfo h (st\<lparr>cp_timer := t\<rparr>) = GetHandleInfo h st" "GetHandleInfo h (st\<lparr>exp_args := x\<rparr>) = GetHandleInfo h st"
  "GetHandleInfo h (st\<lparr>exp_fresh := n\<rparr>) = GetHandleInfo h st" "GetHandleInfo h (st\<lparr>SsdpSearchList := l\<rparr>) = GetHandleInfo h st"
  by (simp_all add: GetHandleInfo_def slot_def)

lemma add_search_fields:
  assumes "add_search e h seconds t cookie (st\<lparr>GlobalHndRWLock := True\<rparr>) = Some st1" and "HandleUnlock st1 = Some st2"
    and "TimerThreadSchedule (sv_now e) (sv_ms e) (cp_timer st) seconds REL_SEC (expire_job (exp_fresh st)) SHORT_TERM = (m, timer, k, rc)"
  shows "HandleTable st2 = HandleTable st" "\<not> GlobalHndRWLock st2" "cp_timer st2 = timer" "exp_args st2 = (exp_args st)(exp_fresh st \<mapsto> (h, k))"
    "exp_fresh st2 = Suc (exp_fresh st)"
    "SsdpSearchList st2 = (SsdpSearchList st)(h := SsdpSearchList st h @ [\<lparr>timeoutEventId = k,
       searchTarget = (if sv_strdup e then Some t else None), sa_cookie = cookie, requestType = ssdp_request_type1 t\<rparr>])"
  using assms by (auto simp: add_search_def HandleUnlock_def Let_def split: if_splits)

lemma handle_info_table: "HandleTable st1 = HandleTable st2 \<Longrightarrow> GetHandleInfo h st1 = GetHandleInfo h st2"
  by (simp add: GetHandleInfo_def slot_def)

lemma add_search_inv:
  assumes inv: "search_inv (st, due)" and add: "add_search e h seconds t cookie (st\<lparr>GlobalHndRWLock := True\<rparr>) = Some st1" and ms: "sv_ms e = []"
    and x: "GetHandleInfo h st = (HND_CLIENT, Some x)" and u: "HandleUnlock st1 = Some st2"
  shows "search_inv (st2, due)"
proof -
  let ?a = "exp_fresh st" and ?k = "lastEventId (cp_timer st)"
  obtain m timer k rc where s: "TimerThreadSchedule (sv_now e) (sv_ms e) (cp_timer st) seconds REL_SEC (expire_job ?a) SHORT_TERM = (m, timer, k, rc)"
    by (metis prod_cases4)
  define new where "new = \<lparr>timeoutEventId = k, searchTarget = (if sv_strdup e then Some t else None), sa_cookie = cookie,
    requestType = ssdp_request_type1 t\<rparr>"
  note f = add_search_fields [OF add u s, folded new_def]
  have k: "k = ?k" and last: "lastEventId timer = ?k + 1" and events: "set (eventQ timer) = insert \<lparr>job = expire_job ?a,
      eventTime = CalculateEventTime (sv_now e) seconds REL_SEC, persistent = SHORT_TERM, event_id = ?k\<rparr> (set (eventQ (cp_timer st)))"
    using schedule_taken [OF s [unfolded ms]] by simp_all
  have t: "searches_timed (st, due)" "timeouts_ok (st, due)" "lists_ok st" "timer_inv (cp_timer st)"
    using inv by (simp_all add: search_inv_def)
  have fresh: "exp_args st ?a = None" "?a \<notin> set due"
    using t(2) by (cases "exp_args st ?a"; force simp: timeouts_ok_def)+
  have ids: "timeoutEventId y < ?k" if "y \<in> set (SsdpSearchList st g)" for y g
    using t(1,2) that by (fastforce simp: searches_timed_def timeouts_ok_def)
  have old: "arg (job e) \<noteq> ?a" if "e \<in> set (eventQ (cp_timer st))" "func (job e) = expire_code" for e
    using t(2) that fresh(1) by (auto simp: timeouts_ok_def)
  have "searches_timed (st2, due)"
    unfolding searches_timed_def fst_conv
  proof (intro allI ballI)
    fix g y assume "y \<in> set (SsdpSearchList st2 g)"
    then consider "y = new" "g = h" | "y \<in> set (SsdpSearchList st g)"
      by (auto simp: f split: if_splits)
    then show "\<exists>a. exp_args st2 a = Some (g, timeoutEventId y) \<and> pending (st2, due) (timeoutEventId y) a"
    proof cases
      case 1
      then show ?thesis
        using events by (intro exI [of _ ?a]) (simp add: pending_def search_id_event_def new_def f k)
    next
      case 2
      then obtain a where "exp_args st a = Some (g, timeoutEventId y)" "pending (st, due) (timeoutEventId y) a"
        using t(1) by (force simp: searches_timed_def)
      then show ?thesis
        using events fresh by (intro exI [of _ a]) (auto simp: pending_def f)
    qed
  qed
  moreover have "timeouts_ok (st2, due)"
    using t(2) events last fresh old by (fastforce simp: timeouts_ok_def f k)
  moreover have "lists_ok st2"
    using t(3) x ids by (fastforce simp: lists_ok_def f new_def k handle_info_table [OF f(1)])
  ultimately show ?thesis
    using inv schedule_inv [OF s t(4)] f by (simp add: search_inv_def)
qed

section \<open>Every step keeps the invariant\<close>

lemma search_inv_timer:
  assumes "search_inv (st, due)" and "timer_inv t1" and "lastEventId (cp_timer st) \<le> lastEventId t1"
    and "\<And>e. e \<in> set (eventQ (cp_timer st)) \<Longrightarrow> func (job e) = expire_code \<Longrightarrow> e \<in> set (eventQ t1) \<or> arg (job e) \<in> set due1"
    and "\<And>e. e \<in> set (eventQ t1) \<Longrightarrow> func (job e) = expire_code \<Longrightarrow> e \<in> set (eventQ (cp_timer st)) \<and> arg (job e) \<notin> set due1"
    and "set due \<subseteq> set due1" and "distinct due1" and "\<forall>a\<in>set due1. exp_args st a \<noteq> None"
  shows "search_inv (st\<lparr>cp_timer := t1\<rparr>, due1)"
proof -
  have t: "searches_timed (st, due)" "timeouts_ok (st, due)" "lists_ok st"
    using assms(1) by (simp_all add: search_inv_def)
  have p: "pending (st\<lparr>cp_timer := t1\<rparr>, due1) k a" if "pending (st, due) k a" for k a
    using that assms(4,6) by (fastforce simp: pending_def search_id_event_def)
  have "searches_timed (st\<lparr>cp_timer := t1\<rparr>, due1)"
    using t(1) p by (fastforce simp: searches_timed_def)
  moreover have "timeouts_ok (st\<lparr>cp_timer := t1\<rparr>, due1)"
    using t(2) assms(3,5,7,8) by (fastforce simp: timeouts_ok_def)
  ultimately show ?thesis
    using assms(1,2) t(3) by (simp add: search_inv_def lists_ok_def)
qed

lemma schedule_search_inv:
  assumes "search_inv (st, due)" and s: "TimerThreadSchedule now ms (cp_timer st) seconds ty j d = (ms1, timer, k, rc)" and "func j \<noteq> expire_code"
  shows "search_inv (st\<lparr>cp_timer := timer\<rparr>, due)"
proof (rule search_inv_timer [OF assms(1)])
  have t: "timer_inv (cp_timer st)" "timeouts_ok (st, due)"
    using assms(1) by (simp_all add: search_inv_def)
  show "timer_inv timer"
    by (rule schedule_inv [OF s t(1)])
  from s have "lastEventId (cp_timer st) \<le> lastEventId timer \<and>
      (eventQ timer = eventQ (cp_timer st) \<or> (\<exists>e. job e = j \<and> set (eventQ timer) = insert e (set (eventQ (cp_timer st)))))"
  proof (cases rule: TimerThreadSchedule_cases)
    case added
    then show ?thesis
      by (intro conjI disjI2 exI [of _ "\<lparr>job = j, eventTime = CalculateEventTime now seconds ty, persistent = d,
            event_id = lastEventId (cp_timer st)\<rparr>"]) simp_all
  qed simp
  then show "lastEventId (cp_timer st) \<le> lastEventId timer"
    and "\<And>e. e \<in> set (eventQ (cp_timer st)) \<Longrightarrow> func (job e) = expire_code \<Longrightarrow> e \<in> set (eventQ timer) \<or> arg (job e) \<in> set due"
    and "\<And>e. e \<in> set (eventQ timer) \<Longrightarrow> func (job e) = expire_code \<Longrightarrow> e \<in> set (eventQ (cp_timer st)) \<and> arg (job e) \<notin> set due"
    using t(2) assms(3) by (auto simp: timeouts_ok_def)
qed (use assms(1) in \<open>auto simp: search_inv_def timeouts_ok_def\<close>)

lemma fired_queue:
  assumes "eventQ t = e # es"
  shows "eventQ (FreeTimerEvent (del_event t 0)) = es" "lastEventId (FreeTimerEvent (del_event t 0)) = lastEventId t"
  using assms by (simp_all add: FreeTimerEvent_def del_event_def)

lemma fire_search_inv:
  assumes inv: "search_inv (st, due)" and q: "eventQ (cp_timer st) = e # es"
  shows "search_inv (st\<lparr>cp_timer := FreeTimerEvent (del_event (cp_timer st) 0)\<rparr>, if func (job e) = expire_code then due @ [arg (job e)] else due)"
proof (rule search_inv_timer [OF inv])
  have t: "timer_inv (cp_timer st)" "timeouts_ok (st, due)"
    using inv by (simp_all add: search_inv_def)
  note f = fired_queue [OF q]
  have other: "arg (job x) \<noteq> arg (job e)" if "x \<in> set es" "func (job x) = expire_code" "func (job e) = expire_code" for x
  proof
    assume "arg (job x) = arg (job e)"
    then have "event_id x = event_id e"
      using t(2) that q by (fastforce simp: timeouts_ok_def)
    then show False
      using t(1) that(1) q by (auto simp: timer_inv_def) (metis image_eqI)
  qed
  show "timer_inv (FreeTimerEvent (del_event (cp_timer st) 0))"
    by (rule del_event_inv [OF t(1)])
  show "\<And>x. x \<in> set (eventQ (FreeTimerEvent (del_event (cp_timer st) 0))) \<Longrightarrow> func (job x) = expire_code \<Longrightarrow>
      x \<in> set (eventQ (cp_timer st)) \<and> arg (job x) \<notin> set (if func (job e) = expire_code then due @ [arg (job e)] else due)"
    using t(2) other q f by (auto simp: timeouts_ok_def)
  show "distinct (if func (job e) = expire_code then due @ [arg (job e)] else due)"
    "\<forall>a\<in>set (if func (job e) = expire_code then due @ [arg (job e)] else due). exp_args st a \<noteq> None"
    using t(2) q by (auto simp: timeouts_ok_def)
qed (use q fired_queue [OF q] in auto)

lemma take_search_spec:
  assumes "distinct (map timeoutEventId xs)"
  shows "take_search k xs = (find (\<lambda>x. timeoutEventId x = k) xs, filter (\<lambda>x. timeoutEventId x \<noteq> k) xs)"
  using assms
proof (induction xs)
  case (Cons x xs)
  then show ?case
    by (auto intro!: filter_True [symmetric]) (metis image_eqI)
qed simp

text \<open>What the job of an ended search does in a state of the invariant.\<close>

lemma searchExpired_fields:
  assumes inv: "search_inv (st, due)" and r: "searchExpired a st = Some (st1, calls)" and a: "exp_args st a = Some (h, k)"
  shows "HandleTable st1 = HandleTable st" "\<not> GlobalHndRWLock st1" "cp_timer st1 = cp_timer st" "exp_args st1 = (exp_args st)(a := None)"
    "exp_fresh st1 = exp_fresh st" "SsdpSearchList st1 = (SsdpSearchList st)(h := filter (\<lambda>x. timeoutEventId x \<noteq> k) (SsdpSearchList st h))"
    "calls = (case find (\<lambda>x. timeoutEventId x = k) (SsdpSearchList st h) of None \<Rightarrow> []
       | Some s \<Rightarrow> [\<lparr>cc_callback = Callback (the (slot h st)), cc_type = UPNP_DISCOVERY_SEARCH_TIMEOUT, cc_param = None, cc_cookie = sa_cookie s\<rparr>])"
proof -
  have t: "lists_ok st" "\<not> GlobalHndRWLock st"
    using inv by (simp_all add: search_inv_def)
  note sp = take_search_spec [of "SsdpSearchList st h" k]
  have d: "distinct (map timeoutEventId (SsdpSearchList st h))"
    using t(1) by (simp add: lists_ok_def)
  have "HandleTable st1 = HandleTable st \<and> \<not> GlobalHndRWLock st1 \<and> cp_timer st1 = cp_timer st \<and> exp_args st1 = (exp_args st)(a := None) \<and>
    exp_fresh st1 = exp_fresh st \<and> SsdpSearchList st1 = (SsdpSearchList st)(h := filter (\<lambda>x. timeoutEventId x \<noteq> k) (SsdpSearchList st h)) \<and>
    calls = (case find (\<lambda>x. timeoutEventId x = k) (SsdpSearchList st h) of None \<Rightarrow> []
       | Some s \<Rightarrow> [\<lparr>cc_callback = Callback (the (slot h st)), cc_type = UPNP_DISCOVERY_SEARCH_TIMEOUT, cc_param = None, cc_cookie = sa_cookie s\<rparr>])"
  proof (cases "\<exists>x. GetHandleInfo h st = (HND_CLIENT, Some x)")
    case True
    then obtain x where x: "GetHandleInfo h st = (HND_CLIENT, Some x)"
      by blast
    then have "slot h st = Some x"
      by (auto simp: GetHandleInfo_def split: option.splits)
    then show ?thesis
      using r a x t(2) sp [OF d] by (auto simp: searchExpired_def HandleLock_def HandleUnlock_def split: option.split)
  next
    case False
    then have e: "SsdpSearchList st h = []"
      using t(1) by (auto simp: lists_ok_def)
    obtain ty y where g: "GetHandleInfo h st = (ty, y)" and n: "ty = HND_CLIENT \<Longrightarrow> y = None"
      using False by (cases "GetHandleInfo h st"; cases "snd (GetHandleInfo h st)") auto
    have "(SsdpSearchList st)(h := []) = SsdpSearchList st"
      using e by auto
    then show ?thesis
      using r a e g n t(2)
      by (cases ty) (auto simp: searchExpired_def HandleLock_def HandleUnlock_def Let_def)
  qed
  then show "HandleTable st1 = HandleTable st" "\<not> GlobalHndRWLock st1" "cp_timer st1 = cp_timer st" "exp_args st1 = (exp_args st)(a := None)"
    "exp_fresh st1 = exp_fresh st" "SsdpSearchList st1 = (SsdpSearchList st)(h := filter (\<lambda>x. timeoutEventId x \<noteq> k) (SsdpSearchList st h))"
    "calls = (case find (\<lambda>x. timeoutEventId x = k) (SsdpSearchList st h) of None \<Rightarrow> []
       | Some s \<Rightarrow> [\<lparr>cc_callback = Callback (the (slot h st)), cc_type = UPNP_DISCOVERY_SEARCH_TIMEOUT, cc_param = None, cc_cookie = sa_cookie s\<rparr>])"
    by blast+
qed

lemma searchExpired_total:
  assumes "\<not> GlobalHndRWLock st" and "exp_args st a = Some (h, k)"
  shows "\<exists>st1 calls. searchExpired a st = Some (st1, calls)"
proof -
  obtain ty y where g: "GetHandleInfo h st = (ty, y)"
    by (cases "GetHandleInfo h st")
  show ?thesis
    using assms g by (cases ty; cases y) (auto simp: searchExpired_def HandleLock_def HandleUnlock_def Let_def split: prod.split)
qed

lemma expire_search_inv:
  assumes inv: "search_inv (st, due)" and a: "a \<in> set due" and r: "searchExpired a st = Some (st1, calls)"
  shows "search_inv (st1, remove1 a due)"
proof -
  have t: "searches_timed (st, due)" "timeouts_ok (st, due)" "lists_ok st" "timer_inv (cp_timer st)"
    using inv by (simp_all add: search_inv_def)
  obtain h k where hk: "exp_args st a = Some (h, k)"
    using t(2) a by (fastforce simp: timeouts_ok_def)
  note f = searchExpired_fields [OF inv r hk]
  have "searches_timed (st1, remove1 a due)"
    unfolding searches_timed_def fst_conv
  proof (intro allI ballI)
    fix g y assume y: "y \<in> set (SsdpSearchList st1 g)"
    then have "y \<in> set (SsdpSearchList st g)" "g = h \<longrightarrow> timeoutEventId y \<noteq> k"
      by (auto simp: f split: if_splits)
    then obtain b where b: "exp_args st b = Some (g, timeoutEventId y)" "pending (st, due) (timeoutEventId y) b" "b \<noteq> a"
      using t(1) hk by (force simp: searches_timed_def)
    then show "\<exists>b. exp_args st1 b = Some (g, timeoutEventId y) \<and> pending (st1, remove1 a due) (timeoutEventId y) b"
      by (intro exI [of _ b]) (auto simp: f pending_def)
  qed
  moreover have "timeouts_ok (st1, remove1 a due)"
    using t(2) a by (auto simp: timeouts_ok_def f dest!: notin_set_remove1)
  moreover have "lists_ok st1"
    using t(3) by (auto simp: lists_ok_def f handle_info_table [OF f(1)] distinct_map_filter) (metis filter.simps(1))
  ultimately show ?thesis
    using inv f by (simp add: search_inv_def)
qed

text \<open>A change of the table at a handle that has no searches afterwards.\<close>

lemma table_search_inv:
  assumes inv: "search_inv (st, due)" and "length (HandleTable st1) = nat NUM_HANDLE" and "\<not> GlobalHndRWLock st1"
    and f: "cp_timer st1 = cp_timer st" "exp_args st1 = exp_args st" "exp_fresh st1 = exp_fresh st"
    and l: "SsdpSearchList st1 = (SsdpSearchList st)(h := [])" and i: "\<And>g. g \<noteq> h \<Longrightarrow> GetHandleInfo g st1 = GetHandleInfo g st"
  shows "search_inv (st1, due)"
proof -
  have t: "searches_timed (st, due)" "timeouts_ok (st, due)" "lists_ok st"
    using inv by (simp_all add: search_inv_def)
  have "searches_timed (st1, due)"
    using t(1) by (auto simp: searches_timed_def l f pending_def)
  moreover have "timeouts_ok (st1, due)"
    using t(2) by (simp add: timeouts_ok_def f)
  moreover have "lists_ok st1"
    using t(3) i by (auto simp: lists_ok_def l)
  ultimately show ?thesis
    using inv assms(2,3) by (simp add: search_inv_def f)
qed

lemma other_slot:
  assumes "g \<noteq> h" and "0 \<le> h"
  shows "GetHandleInfo g (set_slot h x st) = GetHandleInfo g st"
  using assms by (auto simp: GetHandleInfo_def slot_def set_slot_def nth_list_update nat_eq_iff)

lemma free_from_bounds: "i \<le> free_from i xs"
  by (induction i xs rule: free_from.induct) force+

lemma table_info:
  assumes "HandleTable st1 = (HandleTable st)[nat h := x]" and "0 \<le> h" and "g \<noteq> h"
  shows "GetHandleInfo g st1 = GetHandleInfo g st"
  using assms by (auto simp: GetHandleInfo_def slot_def nth_list_update nat_eq_iff)

lemma register_cases:
  assumes r: "UpnpRegisterClient mem junk f cookie have st = Some (st1, rc, hnd)" and l: "\<not> GlobalHndRWLock (st :: cp_state)"
  shows "st1 = st \<and> rc \<noteq> UPNP_E_SUCCESS \<or> rc = UPNP_E_SUCCESS \<and> (\<exists>h x. hnd = Some h \<and> 0 \<le> h \<and> HandleTable st1 = (HandleTable st)[nat h := Some x] \<and>
    \<not> GlobalHndRWLock st1 \<and> cp_timer st1 = cp_timer st \<and> exp_args st1 = exp_args st \<and> exp_fresh st1 = exp_fresh st \<and>
    SsdpSearchList st1 = SsdpSearchList st)"
proof -
  define st0 where "st0 = st\<lparr>GlobalHndRWLock := True\<rparr>"
  have lk: "HandleLock st = Some st0" "HandleUnlock st0 = Some st"
    using lock_free [OF l] by (simp_all add: st0_def)
  have h: "0 \<le> GetFreeHandle st0" if "GetFreeHandle st0 \<noteq> UPNP_E_OUTOF_HANDLE"
    using that free_from_bounds [of 1 "drop 1 (take (nat NUM_HANDLE) (HandleTable st0))"] by (simp add: GetFreeHandle_def Let_def split: if_splits)
  have f: "HandleTable st0 = HandleTable st" "cp_timer st0 = cp_timer st" "exp_args st0 = exp_args st" "exp_fresh st0 = exp_fresh st"
    "SsdpSearchList st0 = SsdpSearchList st"
    by (simp_all add: st0_def)
  note errors = UPNP_E_FINISH_def UPNP_E_INVALID_PARAM_def UPNP_E_ALREADY_REGISTERED_def UPNP_E_OUTOF_MEMORY_def UPNP_E_SUCCESS_def
  show ?thesis
  proof (cases "rc = UPNP_E_SUCCESS")
    case True
    then obtain x where x: "GetFreeHandle st0 \<noteq> UPNP_E_OUTOF_HANDLE" "hnd = Some (GetFreeHandle st0)"
      "HandleUnlock ((set_slot (GetFreeHandle st0) (Some x) st0)\<lparr>UpnpSdkClientRegistered := UpnpSdkClientRegistered st0 + 1\<rparr>) = Some st1"
      using r lk(1)
      by (auto simp: UpnpRegisterClient_def Let_def set_slot_def errors split: option.splits if_splits)
    then have "HandleTable st1 = (HandleTable st)[nat (GetFreeHandle st0) := Some x]" "\<not> GlobalHndRWLock st1" "cp_timer st1 = cp_timer st"
      "exp_args st1 = exp_args st" "exp_fresh st1 = exp_fresh st" "SsdpSearchList st1 = SsdpSearchList st"
      by (auto simp: HandleUnlock_def set_slot_def f split: if_splits)
    then show ?thesis
      using True x(2) h [OF x(1)] by blast
  next
    case False
    then have "st1 = st"
      using r lk by (auto simp: UpnpRegisterClient_def Let_def errors split: option.splits if_splits)
    then show ?thesis
      using False by simp
  qed
qed

lemma register_search_inv:
  assumes inv: "search_inv (st, due)" and r: "register_client mem junk f cookie have st = Some (st1, rc, hnd)"
  shows "search_inv (st1, due)"
proof -
  have t: "\<not> GlobalHndRWLock st" "length (HandleTable st) = nat NUM_HANDLE"
    using inv by (simp_all add: search_inv_def)
  obtain st2 where s: "UpnpRegisterClient mem junk f cookie have st = Some (st2, rc, hnd)"
    "st1 = (if rc = UPNP_E_SUCCESS then st2\<lparr>SsdpSearchList := (SsdpSearchList st2)(the hnd := [])\<rparr> else st2)"
    using r by (auto simp: register_client_def)
  from register_cases [OF s(1) t(1)] show ?thesis
  proof (elim disjE conjE exE)
    fix h x assume "rc = UPNP_E_SUCCESS" "hnd = Some h" and h: "0 \<le> h" "HandleTable st2 = (HandleTable st)[nat h := Some x]"
      and f: "\<not> GlobalHndRWLock st2" "cp_timer st2 = cp_timer st" "exp_args st2 = exp_args st" "exp_fresh st2 = exp_fresh st"
        "SsdpSearchList st2 = SsdpSearchList st"
    then have st1: "st1 = st2\<lparr>SsdpSearchList := (SsdpSearchList st2)(h := [])\<rparr>"
      using s(2) by simp
    show ?thesis
      by (rule table_search_inv [OF inv, of st1 h]) (use st1 f h t(2) table_info [OF h(2,1)] in simp_all)
  qed (use inv s(2) in simp)
qed

lemma unregister_search_inv:
  assumes inv: "search_inv (st, due)" and r: "UpnpUnRegisterClient gena (\<lambda>s. s) h st = Some (st1, rc)"
  shows "search_inv (st1, due)"
proof -
  have t: "\<not> GlobalHndRWLock st" "length (HandleTable st) = nat NUM_HANDLE"
    using inv by (simp_all add: search_inv_def)
  define st0 where "st0 = st\<lparr>GlobalHndRWLock := True\<rparr>"
  have lk: "HandleLock st = Some st0" "HandleUnlock st0 = Some st" and i: "GetHandleInfo h st0 = GetHandleInfo h st"
    and f0: "HandleTable st0 = HandleTable st" "cp_timer st0 = cp_timer st" "exp_args st0 = exp_args st" "exp_fresh st0 = exp_fresh st"
    "SsdpSearchList st0 = SsdpSearchList st" "GlobalHndRWLock st0" "UpnpSdkInit st0 = UpnpSdkInit st"
    using lock_free [OF t(1)] by (simp_all add: st0_def)
  have "st1 = st \<or> (0 \<le> h \<and> HandleTable st1 = (HandleTable st)[nat h := None] \<and>
    \<not> GlobalHndRWLock st1 \<and> cp_timer st1 = cp_timer st \<and> exp_args st1 = exp_args st \<and> exp_fresh st1 = exp_fresh st \<and>
    SsdpSearchList st1 = (SsdpSearchList st)(h := []))"
  proof (cases "fst (GetHandleInfo h st) = HND_INVALID \<or> UpnpSdkInit st \<noteq> 1 \<or> UpnpSdkClientRegistered st0 = 0 \<or> gena \<noteq> UPNP_E_SUCCESS")
    case True
    then show ?thesis
      using r lk i by (auto simp: UpnpUnRegisterClient_def split: if_splits prod.splits Upnp_Handle_Type.splits)
  next
    case False
    then obtain x where x: "slot h st = Some x"
      by (auto simp: GetHandleInfo_def split: option.splits)
    then have h: "1 \<le> h" "h < NUM_HANDLE" "HandleTable st ! nat h \<noteq> None"
      by (auto simp: slot_def split: if_splits)
    obtain ty y where g: "GetHandleInfo h st = (ty, y)" "ty \<noteq> HND_INVALID"
      using False by (cases "GetHandleInfo h st") auto
    define st4 where "st4 = fst (FreeHandle h (st0\<lparr>SsdpSearchList := (SsdpSearchList st0)(h := [])\<rparr>))"
    have u: "HandleUnlock (st4\<lparr>UpnpSdkClientRegistered := UpnpSdkClientRegistered st4 - 1\<rparr>) = Some st1"
      using r lk i False g by (cases ty) (auto simp: UpnpUnRegisterClient_def Let_def st4_def)
    have "HandleTable st4 = (HandleTable st)[nat h := None]" "cp_timer st4 = cp_timer st" "exp_args st4 = exp_args st" "exp_fresh st4 = exp_fresh st"
      "SsdpSearchList st4 = (SsdpSearchList st)(h := [])" "GlobalHndRWLock st4"
      using h by (auto simp: st4_def FreeHandle_def set_slot_def f0)
    then show ?thesis
      using u h(1) by (auto simp: HandleUnlock_def)
  qed
  then show ?thesis
  proof (elim disjE conjE)
    assume h: "0 \<le> h" "HandleTable st1 = (HandleTable st)[nat h := None]"
      and f: "\<not> GlobalHndRWLock st1" "cp_timer st1 = cp_timer st" "exp_args st1 = exp_args st" "exp_fresh st1 = exp_fresh st"
        "SsdpSearchList st1 = (SsdpSearchList st)(h := [])"
    show ?thesis
      by (rule table_search_inv [OF inv _ f]) (use h t(2) table_info [OF h(2,1)] in simp_all)
  qed (use inv in simp)
qed

lemma SearchByTarget_inv:
  assumes inv: "search_inv (st, due)" and ms: "sv_ms e = []" and r: "SearchByTarget e h mx t cookie st = Some (st1, ds, rc)"
  shows "search_inv (st1, due)"
proof -
  have l: "\<not> GlobalHndRWLock st"
    using inv by (simp add: search_inv_def)
  note lk = lock_free [OF l]
  consider "st1 = st" | x st2 where "GetHandleInfo h st = (HND_CLIENT, Some x)"
      "add_search e h (search_time mx) t cookie (st\<lparr>GlobalHndRWLock := True\<rparr>) = Some st2" "HandleUnlock st2 = Some st1"
  proof (cases "st1 = st")
    case False
    then obtain p where "search_packets (search_time mx) t = Inr p"
      using r by (auto simp: SearchByTarget_def split: if_splits sum.splits)
    moreover obtain ty y where g: "GetHandleInfo h st = (ty, y)"
      by (cases "GetHandleInfo h st")
    ultimately show ?thesis
      using r lk False that(2)
      by (cases ty; cases y) (auto simp: SearchByTarget_def split: if_splits prod.splits Option.bind_splits)
  qed (rule that(1))
  then show ?thesis
    by cases (use inv add_search_inv [OF inv _ ms] in auto)
qed

lemma search_step_inv: "search_step s s1 \<Longrightarrow> search_inv s \<Longrightarrow> search_inv s1"
proof (induction rule: search_step.induct)
  case (fire st e es due)
  then show ?case
    by (intro fire_search_inv)
qed (auto intro: SearchByTarget_inv register_search_inv unregister_search_inv schedule_search_inv expire_search_inv)

lemma search_reachable_inv: "search_reachable s \<Longrightarrow> search_inv s"
proof (induction rule: search_reachable.induct)
  case (start st)
  then show ?case
    by (auto simp: search_start_def search_inv_def searches_timed_def timeouts_ok_def lists_ok_def timer_inv_def)
qed (rule search_step_inv)

lemma find_filter_distinct:
  "distinct (map f xs) \<Longrightarrow> x \<in> set xs \<Longrightarrow>
    find (\<lambda>y. f y = f x) xs = Some x \<and> mset xs = add_mset x (mset (filter (\<lambda>y. f y \<noteq> f x) xs))"
proof (induction xs)
  case (Cons y ys)
  show ?case
  proof (cases "x = y")
    case True
    then have "\<forall>z\<in>set ys. f z \<noteq> f x"
      using Cons.prems(1) by (auto simp: image_iff)
    then show ?thesis
      using True by simp
  next
    case False
    then have "x \<in> set ys" "f y \<noteq> f x"
      using Cons.prems by (auto simp: image_iff)
    then show ?thesis
      using Cons by simp
  qed
qed simp

text \<open>
  Property C8. In every reachable state every search in a list has a timeout that waits in the timer or in the pool. When its job runs, the
  application is called exactly once, with the cookie of this search, and exactly this search leaves its list; the
  timeout of a search that is gone (its client was unregistered) calls nobody and changes no list.
\<close>

theorem search_ends_once:
  assumes "search_reachable (st, due)"
  shows "(\<forall>h. \<forall>x\<in>set (SsdpSearchList st h). \<exists>a. exp_args st a = Some (h, timeoutEventId x) \<and> pending (st, due) (timeoutEventId x) a) \<and>
    (\<forall>a h k. exp_args st a = Some (h, k) \<longrightarrow> (\<exists>st1 calls. searchExpired a st = Some (st1, calls) \<and>
       (\<forall>x\<in>set (SsdpSearchList st h). timeoutEventId x = k \<longrightarrow>
          map cc_cookie calls = [sa_cookie x] \<and> map cc_type calls = [UPNP_DISCOVERY_SEARCH_TIMEOUT] \<and>
          mset (SsdpSearchList st h) = add_mset x (mset (SsdpSearchList st1 h)) \<and> (\<forall>g. g \<noteq> h \<longrightarrow> SsdpSearchList st1 g = SsdpSearchList st g)) \<and>
       ((\<forall>x\<in>set (SsdpSearchList st h). timeoutEventId x \<noteq> k) \<longrightarrow> calls = [] \<and> SsdpSearchList st1 = SsdpSearchList st)))"
proof (intro conjI allI impI)
  have inv: "search_inv (st, due)"
    by (rule search_reachable_inv [OF assms])
  then show "\<forall>x\<in>set (SsdpSearchList st h). \<exists>a. exp_args st a = Some (h, timeoutEventId x) \<and> pending (st, due) (timeoutEventId x) a" for h
    by (simp add: search_inv_def searches_timed_def)
  fix a h k assume a: "exp_args st a = Some (h, k)"
  have l: "\<not> GlobalHndRWLock st" and d: "distinct (map timeoutEventId (SsdpSearchList st h))"
    using inv by (simp_all add: search_inv_def lists_ok_def)
  obtain st1 calls where r: "searchExpired a st = Some (st1, calls)"
    using searchExpired_total [OF l a] by blast
  note f = searchExpired_fields [OF inv r a]
  have "\<forall>x\<in>set (SsdpSearchList st h). timeoutEventId x = k \<longrightarrow>
      map cc_cookie calls = [sa_cookie x] \<and> map cc_type calls = [UPNP_DISCOVERY_SEARCH_TIMEOUT] \<and>
      mset (SsdpSearchList st h) = add_mset x (mset (SsdpSearchList st1 h)) \<and> (\<forall>g. g \<noteq> h \<longrightarrow> SsdpSearchList st1 g = SsdpSearchList st g)"
  proof (intro ballI impI)
    fix x assume x: "x \<in> set (SsdpSearchList st h)" "timeoutEventId x = k"
    have "find (\<lambda>x. timeoutEventId x = k) (SsdpSearchList st h) = Some x \<and>
        mset (SsdpSearchList st h) = add_mset x (mset (filter (\<lambda>x. timeoutEventId x \<noteq> k) (SsdpSearchList st h)))"
      using find_filter_distinct [OF d x(1)] x(2) by simp
    then show "map cc_cookie calls = [sa_cookie x] \<and> map cc_type calls = [UPNP_DISCOVERY_SEARCH_TIMEOUT] \<and>
        mset (SsdpSearchList st h) = add_mset x (mset (SsdpSearchList st1 h)) \<and> (\<forall>g. g \<noteq> h \<longrightarrow> SsdpSearchList st1 g = SsdpSearchList st g)"
      by (simp add: f)
  qed
  moreover have "calls = [] \<and> SsdpSearchList st1 = SsdpSearchList st" if none: "\<forall>x\<in>set (SsdpSearchList st h). timeoutEventId x \<noteq> k"
  proof -
    have "find (\<lambda>x. timeoutEventId x = k) (SsdpSearchList st h) = None" "filter (\<lambda>x. timeoutEventId x \<noteq> k) (SsdpSearchList st h) = SsdpSearchList st h"
      using none by (simp_all add: find_None_iff)
    then show ?thesis
      by (simp add: f(6,7))
  qed
  ultimately show "\<exists>st1 calls. searchExpired a st = Some (st1, calls) \<and>
       (\<forall>x\<in>set (SsdpSearchList st h). timeoutEventId x = k \<longrightarrow>
          map cc_cookie calls = [sa_cookie x] \<and> map cc_type calls = [UPNP_DISCOVERY_SEARCH_TIMEOUT] \<and>
          mset (SsdpSearchList st h) = add_mset x (mset (SsdpSearchList st1 h)) \<and> (\<forall>g. g \<noteq> h \<longrightarrow> SsdpSearchList st1 g = SsdpSearchList st g)) \<and>
       ((\<forall>x\<in>set (SsdpSearchList st h). timeoutEventId x \<noteq> k) \<longrightarrow> calls = [] \<and> SsdpSearchList st1 = SsdpSearchList st)"
    using r by blast
qed

section \<open>A run\<close>

definition demo_client :: Handle_Info where
  "demo_client = blank_info\<lparr>HType := HND_CLIENT, Callback := 7, Cookie := 8\<rparr>"

definition demo_start :: cp_state where
  "demo_start = \<lparr>HandleTable = (replicate 200 None)[Suc 0 := Some demo_client], GlobalHndRWLock = False, UpnpSdkInit = 1,
     UpnpSdkClientRegistered = 1, UpnpSdkDeviceRegisteredV4 = 0, UpnpSdkDeviceregisteredV6 = 0, SsdpSearchList = (\<lambda>h. []),
     cp_timer = \<lparr>lastEventId = 0, eventQ = [], queue_nodes = 0, timer_shutdown = False, freeEvents = 0\<rparr>, exp_args = Map.empty, exp_fresh = 1\<rparr>"

definition demo_search_env :: search_env where
  "demo_search_env = \<lparr>sv_net = \<lparr>getaddrinfo = (\<lambda>_. None), inet_pton = (\<lambda>f t. Some [10, 0, 0, 7]), gIF_INDEX = 0\<rparr>,
     sv_if = \<lparr>gIF_IPV4 = [], gIF_IPV4_NETMASK = [], gIF_IPV6 = [], gIF_IPV6_PREFIX_LENGTH = 0, gIF_IPV6_ULA_GUA = [],
       gIF_IPV6_ULA_GUA_PREFIX_LENGTH = 0\<rparr>,
     sv_entry = True, sv_strdup = True, sv_exp = True, sv_now = 100, sv_ms = [], sv_sock4 = True, sv_sock6 = False, sv_select = True,
     sv_ready4 = True, sv_ready6 = False\<rparr>"

definition demo_entry :: SsdpSearchArg where
  "demo_entry = \<lparr>timeoutEventId = 0, searchTarget = Some ''ssdp:all'', sa_cookie = 5, requestType = SSDP_ALL\<rparr>"

definition demo_searching :: cp_state where
  "demo_searching = demo_start\<lparr>SsdpSearchList := (\<lambda>h. [])(1 := [demo_entry]), exp_args := [1 \<mapsto> (1, 0)], exp_fresh := 2,
     cp_timer := \<lparr>lastEventId = 1, eventQ = [\<lparr>job = expire_job 1, eventTime = 103, persistent = SHORT_TERM, event_id = 0\<rparr>],
       queue_nodes = 0, timer_shutdown = False, freeEvents = 0\<rparr>\<rparr>"

lemma search_numbers: "dec_text 1900 = ''1900''" "dec_text 3 = ''3''"
  by (simp_all add: dec_text_def num_text.simps digit_char_def)

lemma demo_packets: "\<exists>p. search_packets 3 ''ssdp:all'' = Inr p"
  by (simp add: search_packets_def CreateClientRequestPacket_def CreateClientRequestPacketUlaGua_def request_packet_def host_line_def
      and_then_def put_part_def put_printed_def BUFSIZE_def COMMAND_LEN_def SSDP_IP_def SSDP_PORT_def SSDP_IPV6_LINKLOCAL_def
      SSDP_IPV6_SITELOCAL_def search_numbers Let_def)

lemma demo_handle: "GetHandleInfo 1 demo_start = (HND_CLIENT, Some demo_client)"
  by (simp add: GetHandleInfo_def slot_def NUM_HANDLE_def demo_start_def demo_client_def)

lemma demo_search: "\<exists>ds. SearchByTarget demo_search_env 1 3 ''ssdp:all'' 5 demo_start = Some (demo_searching, ds, 1)"
proof -
  obtain t4 t6 t6site where p: "search_packets 3 ''ssdp:all'' = Inr (t4, t6, t6site)"
    using demo_packets by auto
  have ty: "ssdp_request_type1 ''ssdp:all'' = SSDP_ALL"
    by (simp add: ssdp_request_type1_def strstr_Cons)
  have l: "\<not> GlobalHndRWLock demo_start"
    by (simp add: demo_start_def)
  have a: "add_search demo_search_env 1 3 ''ssdp:all'' 5 (demo_start\<lparr>GlobalHndRWLock := True\<rparr>) = Some (demo_searching\<lparr>GlobalHndRWLock := True\<rparr>)"
    by (simp add: add_search_def demo_search_env_def demo_start_def demo_searching_def demo_entry_def ty TimerThreadSchedule_def
        CreateTimerEvent_def pool_alloc_def CalculateEventTime_def Let_def)
  have u: "HandleUnlock (demo_searching\<lparr>GlobalHndRWLock := True\<rparr>) = Some demo_searching"
    by (simp add: HandleUnlock_def demo_searching_def demo_start_def)
  show ?thesis
    using p a u demo_handle lock_free [OF l]
    by (simp add: SearchByTarget_def ty search_time_def MIN_SEARCH_TIME_def MAX_SEARCH_TIME_def) (simp add: demo_search_env_def)
qed

lemma searching_run: "search_reachable (demo_searching\<lparr>cp_timer := FreeTimerEvent (del_event (cp_timer demo_searching) 0)\<rparr>, [1])"
proof -
  have "search_reachable (demo_start, [])"
    by (intro search_reachable.start) (simp add: search_start_def demo_start_def NUM_HANDLE_def)
  moreover have "search_step (demo_start, []) (demo_searching, [])"
    using demo_search search_step.search [of demo_search_env 1 3 "''ssdp:all''" 5 demo_start demo_searching _ 1 "[]"]
    by (auto simp: demo_search_env_def)
  ultimately have "search_reachable (demo_searching, [])"
    by (rule search_reachable.step)
  moreover have "eventQ (cp_timer demo_searching) = [\<lparr>job = expire_job 1, eventTime = 103, persistent = SHORT_TERM, event_id = 0\<rparr>]"
    by (simp add: demo_searching_def)
  ultimately show ?thesis
    using search_reachable.step search_step.fire [of demo_searching _ "[]" "[]"] by fastforce
qed

theorem search_ends_once_witness:
  "\<exists>st due st1 calls. search_reachable (st, due) \<and> SsdpSearchList st 1 = [demo_entry] \<and> searchExpired 1 st = Some (st1, calls) \<and>
     map cc_cookie calls = [5] \<and> SsdpSearchList st1 1 = []"
proof -
  let ?st = "demo_searching\<lparr>cp_timer := FreeTimerEvent (del_event (cp_timer demo_searching) 0)\<rparr>"
  have l: "SsdpSearchList ?st 1 = [demo_entry]" "exp_args ?st 1 = Some (1, 0)" "timeoutEventId demo_entry = 0" "sa_cookie demo_entry = 5"
    by (simp_all add: demo_searching_def demo_entry_def)
  from search_ends_once [OF searching_run, THEN conjunct2, rule_format, OF l(2)] obtain st1 calls where
    r: "searchExpired 1 ?st = Some (st1, calls)" "map cc_cookie calls = [5]" "mset [demo_entry] = add_mset demo_entry (mset (SsdpSearchList st1 1))"
    using l by auto
  then show ?thesis
    using searching_run l(1) by (intro exI [of _ ?st] exI [of _ "[1]"] exI [of _ st1] exI [of _ calls]) simp
qed

end
