(* ===== verification/SsdpDiscovery.thy ===== *)
theory SsdpDiscovery
  imports SsdpProperties SsdpSearchSystem
begin

text \<open>
  From device to control point: an application is told the identity that the device put into its message, and which
  searches an answer belongs to.
\<close>

section \<open>Names in a message\<close>

text \<open>What a pair of type and unique name says: the UDN, the device type, the service type.\<close>

inductive names_say :: "string \<Rightarrow> string \<Rightarrow> string \<Rightarrow> string \<Rightarrow> string \<Rightarrow> bool" where
  root: "usn_text udn root_nt = Some usn \<Longrightarrow> names_say root_nt usn udn [] []"
| udn: "length udn < LINE_SIZE \<Longrightarrow> names_say udn udn udn [] []"
| device: "usn_text udn ty = Some usn \<Longrightarrow> good_type '':device:'' ty \<Longrightarrow> names_say ty usn udn ty []"
| service: "usn_text udn ty = Some usn \<Longrightarrow> good_type '':service:'' ty \<Longrightarrow> names_say ty usn udn [] ty"

text \<open>These are the pairs the device sends.\<close>

lemma device_names_say:
  assumes "(nt, usn) \<in> set (device_names is_root udn ty)" and "length usn < LINE_SIZE" and "good_type '':device:'' ty"
  shows "names_say nt usn udn [] [] \<or> names_say nt usn udn ty []"
  using assms
  by (auto simp: device_names_def usn_text_def intro: names_say.intros split: if_splits)

lemma request_known: "ssdp_request_type1 t \<noteq> SSDP_SERROR \<Longrightarrow> snd (ssdp_request_type t) = 0"
  by (simp add: ssdp_request_type_def Let_def)

lemma request_fields:
  "EvUDN (fst (ssdp_request_type t)) = EvUDN (fst (unique_service_name t zero_event))"
  "DeviceType (fst (ssdp_request_type t)) = DeviceType (fst (unique_service_name t zero_event))"
  "ServiceType (fst (ssdp_request_type t)) = ServiceType (fst (unique_service_name t zero_event))"
  by (simp_all add: ssdp_request_type_def Let_def)

lemma type_alone:
  assumes "good_type kind ty" and "length ty < LINE_SIZE"
  shows "kind = '':device:'' \<Longrightarrow> ssdp_request_type1 ty \<noteq> SSDP_SERROR \<and> DeviceType (fst (unique_service_name ty ev)) = ty \<and>
      ServiceType (fst (unique_service_name ty ev)) = ServiceType ev"
    and "kind = '':service:'' \<Longrightarrow> ssdp_request_type1 ty \<noteq> SSDP_SERROR \<and> ServiceType (fst (unique_service_name ty ev)) = ty \<and>
      DeviceType (fst (unique_service_name ty ev)) = DeviceType ev"
proof -
  have g: "prefix ''urn:'' ty" "sublist kind ty" "\<not> sublist ''uuid:schemas'' ty" "\<not> sublist ''::upnp:rootdevice'' ty"
    "\<not> sublist (if kind = '':device:'' then '':service:'' else '':device:'') ty"
    using assms(1) by (auto simp: good_type_def)
  obtain z where z: "ty = ''urn:'' @ z"
    using g(1) by (auto simp: prefix_def)
  have u: "strstr ty ''urn'' = Some 0" "strstr ty ''urn:'' = Some 0"
    by (simp_all add: z strstr_Cons)
  have n: "strstr ty ''uuid:schemas'' = None" "strstr ty ''::upnp:rootdevice'' = None"
    using g(3,4) by (simp_all add: strstr_None)
  have l: "line_field ty = ty"
    using assms(2) by (simp add: line_field_def)
  note d = unique_service_name_def usn_uuid_def usn_service_def usn_device_def usn_root_def ssdp_request_type1_def
  show "kind = '':device:'' \<Longrightarrow> ssdp_request_type1 ty \<noteq> SSDP_SERROR \<and> DeviceType (fst (unique_service_name ty ev)) = ty \<and>
      ServiceType (fst (unique_service_name ty ev)) = ServiceType ev"
    using u n l g(2,5) strstr_None [of ty "'':device:''"] strstr_None [of ty "'':service:''"]
    by (auto simp: d Let_def split: option.splits)
  show "kind = '':service:'' \<Longrightarrow> ssdp_request_type1 ty \<noteq> SSDP_SERROR \<and> ServiceType (fst (unique_service_name ty ev)) = ty \<and>
      DeviceType (fst (unique_service_name ty ev)) = DeviceType ev"
    using u n l g(2,5) strstr_None [of ty "'':device:''"] strstr_None [of ty "'':service:''"]
    by (auto simp: d Let_def split: option.splits)
qed

lemma root_alone: "ssdp_request_type1 root_nt = SSDP_ROOTDEVICE" "unique_service_name root_nt ev = (ev, - 1)"
  by (simp_all add: ssdp_request_type1_def unique_service_name_def usn_uuid_def usn_service_def usn_device_def usn_root_def root_nt_def strstr_Cons)

lemma udn_request:
  assumes "good_udn udn"
  shows "ssdp_request_type1 udn \<noteq> SSDP_SERROR"
proof -
  have "sublist ''uuid:'' udn"
    using assms by (auto simp: good_udn_def intro: sublist_appendI [of _ "[]", simplified])
  then show ?thesis
    using strstr_None [of udn "''uuid:''"] by (simp add: ssdp_request_type1_def)
qed

text \<open>What \<open>read_names\<close> makes of such a pair.\<close>

lemma names_read:
  assumes "names_say nt usn udn dty sty" and "good_udn udn" and "hdr_text hmsg HDR_NT = Some (Some nt)" and "hdr_text hmsg HDR_USN = Some (Some usn)"
  shows "\<exists>ev. read_names hmsg = Some (ev, True, True) \<and> EvUDN ev = udn \<and> DeviceType ev = dty \<and> ServiceType ev = sty"
proof -
  define e1 where "e1 = fst (ssdp_request_type nt)"
  note z = zero_event_def
  have e: "snd (ssdp_request_type nt) = 0 \<and> snd (unique_service_name usn e1) = 0 \<and> EvUDN (fst (unique_service_name usn e1)) = udn \<and>
      DeviceType (fst (unique_service_name usn e1)) = dty \<and> ServiceType (fst (unique_service_name usn e1)) = sty"
    using assms(1)
  proof cases
    case root
    then show ?thesis
      using udn_with_root [OF assms(2), of usn e1] root_alone request_known [of root_nt] by (simp add: e1_def request_fields z)
  next
    case udn
    then show ?thesis
      using udn_alone [OF assms(2), of e1] udn_alone [OF assms(2), of zero_event] udn_request [OF assms(2)] request_known [of udn]
      by (simp add: e1_def request_fields z)
  next
    case device
    then have "length nt < LINE_SIZE"
      by (auto simp: usn_text_Some)
    then show ?thesis
      using device udn_with_type(1) [OF assms(2), of nt usn "'':device:''" e1] type_alone(1) [of "'':device:''" nt zero_event] request_known [of nt]
      by (simp add: e1_def request_fields z)
  next
    case service
    then have "length nt < LINE_SIZE"
      by (auto simp: usn_text_Some)
    then show ?thesis
      using service udn_with_type(2) [OF assms(2), of nt usn "'':service:''" e1] type_alone(2) [of "'':service:''" nt zero_event] request_known [of nt]
      by (simp add: e1_def request_fields z)
  qed
  then show ?thesis
    using assms(3,4) by (cases "ssdp_request_type nt"; cases "unique_service_name usn e1") (simp add: read_names_def e1_def)
qed

section \<open>Telling the clients\<close>

definition clients :: "(int \<Rightarrow> 'a api_state_scheme) \<Rightarrow> int list \<Rightarrow> Handle_Info list" where
  "clients seen hs = concat (map (\<lambda>h. case GetHandleInfo h (seen h) of (HND_CLIENT, Some x) \<Rightarrow> [x] | _ \<Rightarrow> []) hs)"

lemma client_calls_all:
  "(\<forall>h\<in>set hs. \<not> GlobalHndRWLock (seen h)) \<Longrightarrow> client_calls seen ty param hs =
    Some (map (\<lambda>x. \<lparr>cc_callback = Callback x, cc_type = ty, cc_param = param, cc_cookie = Cookie x\<rparr>) (clients seen hs))"
proof (induction hs)
  case (Cons h hs)
  obtain hty y where g: "GetHandleInfo h (seen h) = (hty, y)"
    by (cases "GetHandleInfo h (seen h)")
  show ?case
    using Cons g by (cases hty; cases y) (auto simp: clients_def)
qed (simp add: clients_def)

text \<open>
  Property C14. An alive message with the names that a device sends, a location and a positive expiry time is reported once to every registered client
  as an advertisement, and a byebye message as a good-bye; the identity in the report is the identity of the device: its UDN and the device or service
  type the message is about.
\<close>

theorem advertisement_reported:
  assumes "names_say nt usn udn dty sty" and "good_udn udn" and "hdr_text hmsg HDR_NT = Some (Some nt)" and "hdr_text hmsg HDR_USN = Some (Some usn)"
    and "is_request hmsg" and "read_expires net hmsg = Some (expires, True)" and "read_discovery hmsg dest expires = Some param"
    and "GetClientHandleInfo first = (HND_CLIENT, start, x)" and "\<not> GlobalHndRWLock first" and "\<forall>h. \<not> GlobalHndRWLock (seen h)"
    and "header_is hmsg HDR_NTS ''ssdp:alive'' \<and> u_Location param \<noteq> [] \<and> 0 < u_Expires param \<and> ty = UPNP_DISCOVERY_ADVERTISEMENT_ALIVE \<or>
      \<not> header_is hmsg HDR_NTS ''ssdp:alive'' \<and> header_is hmsg HDR_NTS ''ssdp:byebye'' \<and> ty = UPNP_DISCOVERY_ADVERTISEMENT_BYEBYE"
  shows "ssdp_handle_ctrlpt_msg net True first seen rs hmsg dest False st =
    Some (st, map (\<lambda>x. \<lparr>cc_callback = Callback x, cc_type = ty,
        cc_param = Some (param\<lparr>u_DeviceID := udn, u_DeviceType := dty, u_ServiceType := sty\<rparr>), cc_cookie = Cookie x\<rparr>)
      (clients seen [start..NUM_HANDLE - 1]))"
proof -
  obtain ev where ev: "read_names hmsg = Some (ev, True, True)" "EvUDN ev = udn" "DeviceType ev = dty" "ServiceType ev = sty"
    using names_read [OF assms(1-4)] by blast
  have n: "with_names ev True param = param\<lparr>u_DeviceID := udn, u_DeviceType := dty, u_ServiceType := sty\<rparr>"
    by (simp add: with_names_def ev)
  have t: "advert_type hmsg (param\<lparr>u_DeviceID := udn, u_DeviceType := dty, u_ServiceType := sty\<rparr>) True = Some ty"
    using assms(11) by (auto simp: advert_type_def)
  show ?thesis
    using assms(5-10) ev(1) n t client_calls_all [of "[start..NUM_HANDLE - 1]" seen ty]
    by (simp add: ssdp_handle_ctrlpt_msg_def)
qed

definition alive_message :: http_parser where
  "alive_message = parser_init\<lparr>is_request := True, headers := [header HDR_NT ''urn:a:device:L:1'', header HDR_USN ''uuid:1::urn:a:device:L:1'',
     header HDR_NTS ''ssdp:alive'', header HDR_LOCATION ''/d'', header HDR_CACHE_CONTROL ''max-age=100'']\<rparr>"

definition lamp_news :: UpnpDiscovery where
  "lamp_news = UpnpDiscovery_new\<lparr>u_Expires := 100, u_DestAddr := group_dest, u_Location := ''/d''\<rparr>"

lemmas discovery_headers = HDR_NT_def HDR_USN_def HDR_NTS_def HDR_LOCATION_def HDR_CACHE_CONTROL_def HDR_DATE_def HDR_EXT_def HDR_SERVER_def
  HDR_USER_AGENT_def HDR_ST_def

lemma terminated_buffer: "no_nul s \<Longrightarrow> terminated_text (text_buffer s) = Some s"
  by (simp add: terminated_text_def text_buffer_def)

lemma alive_headers:
  "find_hdr alive_message HDR_NT = Some (text_buffer ''urn:a:device:L:1'')"
  "find_hdr alive_message HDR_USN = Some (text_buffer ''uuid:1::urn:a:device:L:1'')"
  "find_hdr alive_message HDR_NTS = Some (text_buffer ''ssdp:alive'')" "find_hdr alive_message HDR_LOCATION = Some (text_buffer ''/d'')"
  "find_hdr alive_message HDR_CACHE_CONTROL = Some (text_buffer ''max-age=100'')" "find_hdr alive_message HDR_DATE = None"
  "find_hdr alive_message HDR_EXT = None" "find_hdr alive_message HDR_SERVER = None" "find_hdr alive_message HDR_USER_AGENT = None"
  by (simp_all add: find_hdr_def alive_message_def httpmsg_find_hdr_def discovery_headers upt_conv_Cons header_def)

lemma max_age_read:
  "matchstr near_net (block (text_buffer ''max-age=100'')) (mlength (text_buffer ''max-age=100'')) ''%imax-age = %d%0'' =
     Some (PARSE_OK, [OInt (Some 100)])"
  by code_simp

theorem advertisement_reported_witness:
  "\<forall>st. ssdp_handle_ctrlpt_msg near_net True demo_start (\<lambda>_. demo_start) [] alive_message group_dest False st =
    Some (st, [\<lparr>cc_callback = 7, cc_type = UPNP_DISCOVERY_ADVERTISEMENT_ALIVE,
      cc_param = Some (lamp_news\<lparr>u_DeviceID := ''uuid:1'', u_DeviceType := ''urn:a:device:L:1'', u_ServiceType := []\<rparr>), cc_cookie = 8\<rparr>])"
proof -
  have n: "names_say ''urn:a:device:L:1'' ''uuid:1::urn:a:device:L:1'' ''uuid:1'' ''urn:a:device:L:1'' []"
  proof (rule names_say.device)
    show "usn_text ''uuid:1'' ''urn:a:device:L:1'' = Some ''uuid:1::urn:a:device:L:1''"
      by (simp add: usn_text_def LINE_SIZE_def)
    show "good_type '':device:'' ''urn:a:device:L:1''"
      by code_simp
  qed
  have g: "good_udn ''uuid:1''"
    by (simp add: good_udn_def ctype_defs)
  have h: "hdr_text alive_message HDR_NT = Some (Some ''urn:a:device:L:1'')" "hdr_text alive_message HDR_USN = Some (Some ''uuid:1::urn:a:device:L:1'')"
    by (simp_all add: hdr_text_def alive_headers terminated_buffer)
  have e: "read_expires near_net alive_message = Some (100, True)"
    using max_age_read by (simp add: read_expires_def alive_headers)
  have p: "read_discovery alive_message group_dest 100 = Some lamp_news"
    by (simp add: read_discovery_def hdr_text_def alive_headers terminated_buffer or_empty_def lamp_news_def UPNP_E_SUCCESS_def UpnpDiscovery_new_def)
  have a: "header_is alive_message HDR_NTS ''ssdp:alive''"
    by (simp add: header_is_def alive_headers text_buffer_def block_def memptr_cmp_def strncmp_sgn_def numeral_eq_Suc)
  have only: "GetHandleInfo h demo_start = (if h = 1 then (HND_CLIENT, Some demo_client) else (HND_INVALID, None))" if "1 \<le> h" "h \<le> 199" for h
    using that by (auto simp: GetHandleInfo_def slot_def NUM_HANDLE_def demo_start_def demo_client_def nth_list_update nat_eq_iff)
  have u: "[1..199] = 1 # [2..(199::int)]"
    by (simp add: upto_rec1)
  have c: "GetClientHandleInfo demo_start = (HND_CLIENT, 1, Some demo_client)"
    using only [of 1] by (simp add: GetClientHandleInfo_def NUM_HANDLE_def u GetHandleInfo_def slot_def demo_start_def demo_client_def del: upto_rec_numeral)
  have "concat (map (\<lambda>h. case GetHandleInfo h demo_start of (HND_CLIENT, Some x) \<Rightarrow> [x] | _ \<Rightarrow> []) [2..199]) = []"
    using only by (auto simp: concat_eq_Nil_conv)
  then have "clients (\<lambda>_. demo_start) [1..NUM_HANDLE - 1] = [demo_client]"
    using only [of 1] by (simp add: clients_def NUM_HANDLE_def u del: upto_rec_numeral)
  then show ?thesis
    using advertisement_reported [OF n g h _ e p c, of "\<lambda>_. demo_start" UPNP_DISCOVERY_ADVERTISEMENT_ALIVE "[]"] a
    by (simp add: alive_message_def demo_start_def lamp_news_def demo_client_def)
qed

end
