(* ===== verification/ClientTable.thy ===== *)
theory ClientTable
  imports SsdpSearch
begin

text \<open>
  The subscriptions of a control point, \<^verbatim>\<open>compa/src/genlib/client_table/client_table.cpp\<close> and \<^verbatim>\<open>GenlibClientSubscription.cpp\<close>: each
  client has a linked list of them. A subscription is a cell of the memory \<open>client_subs\<close>; an address without a value is freed, and
  looking at it is \<open>None\<close>. Strings get the memory they ask for.
\<close>

section \<open>Data\<close>

record GenlibClientSubscription =
  cs_RenewEventId :: int
  cs_SID :: string
  cs_ActualSID :: string
  cs_EventURL :: string
  cs_Next :: "nat option"

definition GenlibClientSubscription_new :: GenlibClientSubscription where
  "GenlibClientSubscription_new = \<lparr>cs_RenewEventId = 0, cs_SID = [], cs_ActualSID = [], cs_EventURL = [], cs_Next = None\<rparr>"

text \<open>The argument of a renewal job, with the event it carries.\<close>

record UpnpEventSubscribe =
  es_SID :: string
  es_ErrCode :: int
  es_PublisherUrl :: string
  es_TimeOut :: int

record job_arg =
  ja_handle :: int
  ja_eventId :: int
  ja_event :: UpnpEventSubscribe

text \<open>The state of a control point: the search lists, and subscriptions with their lists, the arguments of renewal jobs, and the lock of subscribing.\<close>

record gena_cp = cp_state +
  client_subs :: "nat \<Rightarrow> GenlibClientSubscription option"
  sub_fresh :: nat
  ClientSubList :: "int \<Rightarrow> nat option"
  renew_args :: "nat \<Rightarrow> job_arg option"
  renew_fresh :: nat
  GlobalClientSubscribeMutex :: bool

definition put_client_sub :: "nat \<Rightarrow> GenlibClientSubscription option \<Rightarrow> gena_cp \<Rightarrow> gena_cp" where
  "put_client_sub a s st = st\<lparr>client_subs := (client_subs st)(a := s)\<rparr>"

definition set_head :: "int \<Rightarrow> nat option \<Rightarrow> gena_cp \<Rightarrow> gena_cp" where
  "set_head h p st = st\<lparr>ClientSubList := (ClientSubList st)(h := p)\<rparr>"

section \<open>Freeing\<close>

definition renew_code :: nat where "renew_code = 11"
definition free_subscribe_code :: nat where "free_subscribe_code = 12"

text \<open>The call of the free function of a job that was taken out of the timer; a null function is undefined behaviour.\<close>

definition free_subscribe_arg :: "nat \<Rightarrow> gena_cp \<Rightarrow> gena_cp option" where
  "free_subscribe_arg a st = (case renew_args st a of None \<Rightarrow> None | Some x \<Rightarrow> Some (st\<lparr>renew_args := (renew_args st)(a := None)\<rparr>))"

definition call_free :: "ThreadPoolJob \<Rightarrow> gena_cp \<Rightarrow> gena_cp option" where
  "call_free j st =
     (if free_func j = Some free_subscribe_code then free_subscribe_arg (arg j) st
      else if free_func j = Some free_code then Some (st\<lparr>exp_args := (exp_args st)(arg j := None)\<rparr>)
      else if free_func j = None then None else Some st)"

definition remove_renewal :: "int \<Rightarrow> gena_cp \<Rightarrow> gena_cp option" where
  "remove_renewal k st =
     (case TimerThreadRemove (cp_timer st) k of
        (timer, Some j, rc) \<Rightarrow> call_free j (st\<lparr>cp_timer := timer\<rparr>)
      | (timer, None, rc) \<Rightarrow> Some (st\<lparr>cp_timer := timer\<rparr>))"

text \<open>On a cell of the memory or on a copy: the result has the new value.\<close>

definition free_client_subscription :: "GenlibClientSubscription \<Rightarrow> gena_cp \<Rightarrow> (GenlibClientSubscription \<times> gena_cp) option" where
  "free_client_subscription s st =
     (let s1 = s\<lparr>cs_ActualSID := [], cs_EventURL := [], cs_RenewEventId := - 1\<rparr> in
      if cs_RenewEventId s = - 1 then Some (s1, st) else map_option (Pair s1) (remove_renewal (cs_RenewEventId s) st))"

partial_function (option) freeClientSubList :: "nat option \<Rightarrow> gena_cp \<Rightarrow> gena_cp option" where
  "freeClientSubList p st =
     (case p of
        None \<Rightarrow> Some st
      | Some a \<Rightarrow>
          do { s \<leftarrow> client_subs st a;
               (s1, st1) \<leftarrow> free_client_subscription s st;
               freeClientSubList (cs_Next s1) (put_client_sub a None st1) })"

section \<open>The list of a client\<close>

partial_function (option) RemoveClientSubClientSID_loop :: "string \<Rightarrow> int \<Rightarrow> nat option \<Rightarrow> nat option \<Rightarrow> gena_cp \<Rightarrow> gena_cp option" where
  "RemoveClientSubClientSID_loop cid h previous finger st =
     (case finger of
        None \<Rightarrow> Some st
      | Some a \<Rightarrow>
          do { s \<leftarrow> client_subs st a;
               if cs_SID s = cid then
                 do { st1 \<leftarrow> (case previous of
                        None \<Rightarrow> Some (set_head h (cs_Next s) st)
                      | Some b \<Rightarrow> do { t \<leftarrow> client_subs st b; Some (put_client_sub b (Some (t\<lparr>cs_Next := cs_Next s\<rparr>)) st) });
                      freeClientSubList (Some a) (put_client_sub a (Some (s\<lparr>cs_Next := None\<rparr>)) st1) }
               else RemoveClientSubClientSID_loop cid h (Some a) (cs_Next s) st })"

definition RemoveClientSubClientSID :: "int \<Rightarrow> string \<Rightarrow> gena_cp \<Rightarrow> gena_cp option" where
  "RemoveClientSubClientSID h cid st = RemoveClientSubClientSID_loop cid h None (ClientSubList st h) st"

partial_function (option) GetClientSubClientSID :: "nat option \<Rightarrow> string \<Rightarrow> gena_cp \<Rightarrow> nat option option" where
  "GetClientSubClientSID head cid st =
     (case head of
        None \<Rightarrow> Some None
      | Some a \<Rightarrow> do { s \<leftarrow> client_subs st a; if cs_SID s = cid then Some (Some a) else GetClientSubClientSID (cs_Next s) cid st })"

text \<open>
  \<open>memcmp\<close> of the stored SID, with its terminator, and a token of the message: both must have as many bytes as the token
  is long.
\<close>

definition memcmp_equal :: "string \<Rightarrow> string \<Rightarrow> bool option" where
  "memcmp_equal stored tok = (if length stored + 1 < length tok then None else Some (take (length tok) (stored @ [NUL]) = tok))"

partial_function (option) GetClientSubActualSID :: "nat option \<Rightarrow> string \<Rightarrow> gena_cp \<Rightarrow> nat option option" where
  "GetClientSubActualSID head tok st =
     (case head of
        None \<Rightarrow> Some None
      | Some a \<Rightarrow>
          do { s \<leftarrow> client_subs st a;
               same \<leftarrow> memcmp_equal (cs_ActualSID s) tok;
               if same then Some (Some a) else GetClientSubActualSID (cs_Next s) tok st })"

section \<open>Lists in memory\<close>

fun sub_chain :: "(nat \<Rightarrow> GenlibClientSubscription option) \<Rightarrow> nat option \<Rightarrow> nat list \<Rightarrow> bool" where
  "sub_chain m p [] \<longleftrightarrow> p = None"
| "sub_chain m p (a # as) \<longleftrightarrow> p = Some a \<and> (\<exists>s. m a = Some s \<and> sub_chain m (cs_Next s) as)"

definition sub_of :: "gena_cp \<Rightarrow> nat \<Rightarrow> GenlibClientSubscription" where
  "sub_of st a = the (client_subs st a)"

lemma sub_chain_live: "sub_chain m p as \<Longrightarrow> a \<in> set as \<Longrightarrow> m a \<noteq> None"
  by (induction as arbitrary: p) auto

lemma sub_chain_upd [simp]: "a \<notin> set as \<Longrightarrow> sub_chain (m(a := v)) p as = sub_chain m p as"
  by (induction as arbitrary: p) auto

lemma sub_chain_unique: "sub_chain m p as \<Longrightarrow> sub_chain m p bs \<Longrightarrow> as = bs"
proof (induction as arbitrary: p bs)
  case Nil then show ?case by (cases bs) auto
next
  case (Cons a as) then show ?case by (cases bs) auto
qed

lemma sub_chain_suffix: "sub_chain m p (as @ a # bs) \<Longrightarrow> \<exists>s. m a = Some s \<and> sub_chain m (cs_Next s) bs"
  by (induction as arbitrary: p) auto

lemma sub_chain_distinct: "sub_chain m p as \<Longrightarrow> distinct as"
proof (induction as arbitrary: p)
  case (Cons a as)
  then obtain s where s: "m a = Some s" "sub_chain m (cs_Next s) as" by auto
  have "a \<notin> set as"
  proof
    assume "a \<in> set as"
    then obtain xs ys where "as = xs @ a # ys" by (meson split_list)
    then have "sub_chain m (cs_Next s) ys"
      using s sub_chain_suffix [of m "cs_Next s" xs a ys] by auto
    with s(2) have "as = ys" by (rule sub_chain_unique)
    with \<open>as = xs @ a # ys\<close> show False
      by (metis add_cancel_right_left append.assoc append_Cons length_append length_Cons not_less_eq_eq le_add2)
  qed
  then show ?case using Cons s by auto
qed simp

lemma find_by_sid:
  "sub_chain (client_subs st) p as \<Longrightarrow> GetClientSubClientSID p cid st = Some (find (\<lambda>a. cs_SID (sub_of st a) = cid) as)"
proof (induction as arbitrary: p)
  case Nil then show ?case by (simp add: GetClientSubClientSID.simps)
next
  case (Cons a as) then show ?case
    by (subst GetClientSubClientSID.simps) (auto simp: sub_of_def)
qed

end
