(* ===== verification/GenaCtrlpt.thy ===== *)
theory GenaCtrlpt
  imports ClientTable
begin

text \<open>
  Subscriptions of a control point, \<^verbatim>\<open>compa/src/gena/gena_ctrlpt.cpp\<close>: the requests that are sent to a device, subscribing, renewing (also by
  the timer) and unsubscribing in their sections under the lock of the handle table, and the events that arrive.
  Between two sections of a call other threads may change the state; that is an argument \<open>others\<close>. \<open>None\<close> is undefined behaviour, or waiting
  for a lock for ever.
\<close>

section \<open>Requests\<close>

definition UPNP_E_BAD_RESPONSE :: int where "UPNP_E_BAD_RESPONSE = -113"
definition UPNP_E_SUBSCRIBE_UNACCEPTED :: int where "UPNP_E_SUBSCRIBE_UNACCEPTED = -301"
definition UPNP_E_UNSUBSCRIBE_UNACCEPTED :: int where "UPNP_E_UNSUBSCRIBE_UNACCEPTED = -302"
definition AUTO_RENEW_TIME :: int where "AUTO_RENEW_TIME = 10"
definition CP_MINIMUM_SUBSCRIPTION_TIME :: int where "CP_MINIMUM_SUBSCRIPTION_TIME = AUTO_RENEW_TIME + 5"

text \<open>The surroundings of one request: settings, ports of the mini server, the connection and the memory of the two messages.\<close>

record sub_env =
  q_g :: send_globals
  q_if :: if_info
  LOCAL_PORT_V4 :: int
  LOCAL_PORT_V6 :: int
  LOCAL_PORT_V6_ULA_GUA :: int
  q_conn :: conn_env
  q_make :: alloc_script
  q_oks :: ok_script
  q_parse :: alloc_script
  q_os :: os
  q_response :: http_parser

text \<open>A message for a URL, sent and answered: the answer and the return code.\<close>

definition exchange :: "sub_env \<Rightarrow> string \<Rightarrow> (string \<Rightarrow> uri_type \<Rightarrow> string \<times> msg_arg list) \<Rightarrow> int \<Rightarrow> (http_parser \<times> int) option" where
  "exchange e url message method =
     (let mem = url @ [NUL] in
      case http_FixStrUrl (sg_net (q_g e)) mem (length url) of
        None \<Rightarrow> None
      | Some (None, rc) \<Rightarrow> Some (q_response e, rc)
      | Some (Some f, rc) \<Rightarrow>
          if rc \<noteq> 0 then Some (q_response e, rc)
          else
            do { (ms, m, ret) \<leftarrow> http_MakeMessage (sg_msg (q_g e)) (q_make e) (empty_membuffer\<lparr>size_inc := 30\<rparr>) 1 1
                   (fst (message mem (furl f))) (snd (message mem (furl f)));
                 if ret \<noteq> 0 then Some (q_response e, ret)
                 else
                   do { (w, p, rc1) \<leftarrow> http_RequestAndResponse (sg_net (q_g e)) (sg_max (q_g e)) (sg_unblock (q_g e)) (q_conn e) (q_oks e)
                          (q_parse e) (q_os e) (block m) (mlength m) method HTTP_DEFAULT_TIMEOUT (q_response e);
                        Some (p, rc1) } })"

definition gena_unsubscribe :: "sub_env \<Rightarrow> string \<Rightarrow> string \<Rightarrow> int option" where
  "gena_unsubscribe e url k =
     map_option (\<lambda>(p, rc). if rc = 0 \<and> status_code p \<noteq> HTTP_OK then UPNP_E_UNSUBSCRIBE_UNACCEPTED else rc)
       (exchange e url (\<lambda>mem u. (''qsscUc'', [AInt HTTPMETHOD_UNSUBSCRIBE, AUri mem u, AStr (Some ''SID: ''), AStr (Some k)]))
          HTTPMETHOD_UNSUBSCRIBE)"

definition timeout_text :: "int \<Rightarrow> string" where
  "timeout_text t = (if t < 0 then ''infinite'' else dec_text (max t CP_MINIMUM_SUBSCRIPTION_TIME))"

text \<open>The callback: the address of the own interface that goes with the address of the device.\<close>

definition callback_args :: "sub_env \<Rightarrow> uri_type \<Rightarrow> msg_arg list" where
  "callback_args e u =
     (let a = IPaddress (hostport u) in
      if ss_family a = AF_INET6 then
        (let local = link_local (addr6 a) \<or> gIF_IPV6_ULA_GUA (q_if e) = [] in
         [AStr (Some ''CALLBACK: <http://[''), AStr (Some (if local then gIF_IPV6 (q_if e) else gIF_IPV6_ULA_GUA (q_if e))), AStr (Some '']:''),
          AInt (if local then LOCAL_PORT_V6 e else LOCAL_PORT_V6_ULA_GUA e)])
      else
        [AStr (Some ''CALLBACK: <http://''), AStr (Some (gIF_IPV4 (q_if e))), AStr (Some '':''), AInt (LOCAL_PORT_V4 e)])"

definition subscribe_message :: "sub_env \<Rightarrow> int \<Rightarrow> string option \<Rightarrow> string \<Rightarrow> uri_type \<Rightarrow> string \<times> msg_arg list" where
  "subscribe_message e timeout renewal_sid mem u =
     (case renewal_sid of
        Some k \<Rightarrow>
          (''qsscsscc'', [AInt HTTPMETHOD_SUBSCRIBE, AUri mem u, AStr (Some ''SID: ''), AStr (Some k), AStr (Some ''TIMEOUT: Second-''),
             AStr (Some (timeout_text timeout))])
      | None \<Rightarrow>
          (''qsssdscscsscc'', [AInt HTTPMETHOD_SUBSCRIBE, AUri mem u] @ callback_args e u @
             [AStr (Some ''/>''), AStr (Some ''NT: upnp:event''), AStr (Some ''TIMEOUT: Second-''), AStr (Some (timeout_text timeout))]))"

text \<open>The time that the device grants, and whether it can be read; without a number the old value stays.\<close>

definition granted_timeout :: "net_env \<Rightarrow> membuffer \<Rightarrow> int \<Rightarrow> (int \<times> bool) option" where
  "granted_timeout net v timeout =
     do { (st, outs) \<leftarrow> matchstr net (block v) (mlength v) ''%iSecond-%d%0'';
          let t = (case outs of [OInt (Some n)] \<Rightarrow> n | _ \<Rightarrow> timeout) in
          Some (if st = PARSE_OK then (t, True)
                else if memptr_cmp_nocase (block v) (mlength v) ''Second-infinite'' = 0 then (- 1, True) else (t, False)) }"

text \<open>The result: return code, time and SID. \<open>mem\<close>: there is memory for the SID.\<close>

definition gena_subscribe :: "sub_env \<Rightarrow> bool \<Rightarrow> string \<Rightarrow> int \<Rightarrow> string option \<Rightarrow> (int \<times> int \<times> string) option" where
  "gena_subscribe e mem url timeout renewal_sid =
     do { (p, rc) \<leftarrow> exchange e url (subscribe_message e timeout renewal_sid) HTTPMETHOD_SUBSCRIBE;
          if rc \<noteq> 0 then Some (rc, timeout, [])
          else if status_code p \<noteq> HTTP_OK then Some (UPNP_E_SUBSCRIBE_UNACCEPTED, timeout, [])
          else
            (case (find_hdr p HDR_SID, find_hdr p HDR_TIMEOUT) of
               (Some k, Some v) \<Rightarrow>
                 if mlength k = 0 \<or> mlength v = 0 then Some (UPNP_E_BAD_RESPONSE, timeout, [])
                 else
                   do { (t, readable) \<leftarrow> granted_timeout (sg_net (q_g e)) v timeout;
                        Some (if \<not> readable then (UPNP_E_BAD_RESPONSE, t, [])
                              else if \<not> mem then (UPNP_E_OUTOF_MEMORY, t, [])
                              else (UPNP_E_SUCCESS, t, c_str (contents k))) }
             | _ \<Rightarrow> Some (UPNP_E_BAD_RESPONSE, timeout, [])) }"

section \<open>Renewals\<close>

definition renew_job :: "nat \<Rightarrow> ThreadPoolJob" where
  "renew_job a =
     (let job = the (fst (TPJobInit (Some zero_job) (Some renew_code) a));
          job1 = the (fst (TPJobSetFreeFunction (Some job) (Some free_subscribe_code)))
      in the (fst (TPJobSetPriority (Some job1) MED_PRIORITY)))"

text \<open>The memory for the event and for the argument, the clock and the memory of the timer.\<close>

record renew_env =
  re_event :: bool
  re_arg :: bool
  re_now :: int
  re_ms :: ok_script

definition ScheduleGenaAutoRenew :: "renew_env \<Rightarrow> int \<Rightarrow> int \<Rightarrow> nat \<Rightarrow> gena_cp \<Rightarrow> (gena_cp \<times> int) option" where
  "ScheduleGenaAutoRenew e h TimeOut a st =
     (if TimeOut = UPNP_INFINITE then Some (st, GENA_SUCCESS)
      else if \<not> re_event e \<or> \<not> re_arg e then Some (st, UPNP_E_OUTOF_MEMORY)
      else
        do { s \<leftarrow> client_subs st a;
             let r = renew_fresh st;
                 ev = \<lparr>es_SID = cs_SID s, es_ErrCode = UPNP_E_SUCCESS, es_PublisherUrl = cs_EventURL s, es_TimeOut = TimeOut\<rparr>
             in (case TimerThreadSchedule (re_now e) (re_ms e) (cp_timer st) (TimeOut - AUTO_RENEW_TIME) REL_SEC (renew_job r) SHORT_TERM of
                   (ms, timer, k, rc) \<Rightarrow>
                     let st1 = st\<lparr>cp_timer := timer, renew_fresh := Suc r\<rparr> in
                     Some (if rc \<noteq> UPNP_E_SUCCESS then (st1, rc)
                           else (put_client_sub a (Some (s\<lparr>cs_RenewEventId := k\<rparr>))
                                   (st1\<lparr>renew_args := (renew_args st1)(r \<mapsto> \<lparr>ja_handle = h, ja_eventId = k, ja_event = ev\<rparr>)\<rparr>),
                                 GENA_SUCCESS))) })"

section \<open>Subscribing\<close>

definition is_client :: "int \<Rightarrow> gena_cp \<Rightarrow> bool" where
  "is_client h st \<longleftrightarrow> fst (GetHandleInfo h st) = HND_CLIENT"

text \<open>
  The section after the request: \<open>rc\<close> and \<open>actual\<close> come from it, \<open>uuid\<close> is the text of the new uuid, \<open>mem\<close> the memory for the
  subscription. When the renewal cannot be scheduled the subscription is freed, but it stays in the list.
\<close>

definition subscribe_end ::
    "renew_env \<Rightarrow> int \<Rightarrow> string \<Rightarrow> int \<Rightarrow> int \<Rightarrow> string \<Rightarrow> string \<Rightarrow> bool \<Rightarrow> gena_cp \<Rightarrow> (gena_cp \<times> int \<times> string) option" where
  "subscribe_end e h url TimeOut rc actual uuid mem st =
     (if rc \<noteq> UPNP_E_SUCCESS then Some (st, rc, [])
      else if \<not> is_client h st then Some (st, GENA_E_BAD_HANDLE, [])
      else
        (let cid = ''uuid:'' @ uuid; a = sub_fresh st in
         if UPNP_SID_ARRAY \<le> length cid then Some (st, UPNP_E_OUTOF_MEMORY, [])
         else if \<not> mem then Some (st, UPNP_E_OUTOF_MEMORY, cid)
         else
           do { (st1, rc1) \<leftarrow>
                  ScheduleGenaAutoRenew e h TimeOut a
                    (set_head h (Some a)
                       (put_client_sub a
                          (Some \<lparr>cs_RenewEventId = - 1, cs_SID = cid, cs_ActualSID = actual, cs_EventURL = url, cs_Next = ClientSubList st h\<rparr>)
                          (st\<lparr>sub_fresh := Suc a\<rparr>)));
                Some (if rc1 \<noteq> UPNP_E_SUCCESS then put_client_sub a None st1 else st1, rc1, cid) }))"

definition SubscribeLock :: "gena_cp \<Rightarrow> gena_cp option" where
  "SubscribeLock st = (if GlobalClientSubscribeMutex st then None else Some (st\<lparr>GlobalClientSubscribeMutex := True\<rparr>))"

definition SubscribeUnlock :: "gena_cp \<Rightarrow> gena_cp option" where
  "SubscribeUnlock st = (if GlobalClientSubscribeMutex st then Some (st\<lparr>GlobalClientSubscribeMutex := False\<rparr>) else None)"

text \<open>A section: the lock, what is done under it, and the unlocking.\<close>

definition locked :: "(gena_cp \<Rightarrow> (gena_cp \<times> 'r) option) \<Rightarrow> gena_cp \<Rightarrow> (gena_cp \<times> 'r) option" where
  "locked f st = do { st1 \<leftarrow> HandleLock st; (st2, r) \<leftarrow> f st1; st3 \<leftarrow> HandleUnlock st2; Some (st3, r) }"

text \<open>The lock of subscribing is held during the request; the result has the return code, the granted time and the own SID.\<close>

definition genaSubscribe ::
    "sub_env \<Rightarrow> bool \<Rightarrow> (gena_cp \<Rightarrow> gena_cp) \<Rightarrow> renew_env \<Rightarrow> string \<Rightarrow> bool \<Rightarrow> int \<Rightarrow> string \<Rightarrow> int \<Rightarrow> gena_cp \<Rightarrow>
     (gena_cp \<times> int \<times> int \<times> string) option" where
  "genaSubscribe e sid_mem others re uuid mem h url TimeOut st =
     (if GlobalHndRWLock st then None
      else
        do { st1 \<leftarrow> SubscribeLock st;
             if \<not> is_client h st then map_option (\<lambda>st2. (st2, GENA_E_BAD_HANDLE, TimeOut, [])) (SubscribeUnlock st1)
             else
               do { (rc, t, actual) \<leftarrow> gena_subscribe e sid_mem url TimeOut None;
                    (st2, rc1, cid) \<leftarrow> locked (subscribe_end re h url t rc actual uuid mem) (others st1);
                    st3 \<leftarrow> SubscribeUnlock st2;
                    Some (st3, rc1, t, cid) } })"

section \<open>Renewing\<close>

text \<open>The first section takes the renewal out of the timer and copies the subscription.\<close>

definition renew_begin :: "int \<Rightarrow> string \<Rightarrow> gena_cp \<Rightarrow> (gena_cp \<times> (int + GenlibClientSubscription)) option" where
  "renew_begin h cid st =
     (if \<not> is_client h st then Some (st, Inl GENA_E_BAD_HANDLE)
      else
        do { p \<leftarrow> GetClientSubClientSID (ClientSubList st h) cid st;
             (case p of
                None \<Rightarrow> Some (st, Inl GENA_E_BAD_SID)
              | Some a \<Rightarrow>
                  do { s \<leftarrow> client_subs st a;
                       st1 \<leftarrow> remove_renewal (cs_RenewEventId s) st;
                       let s1 = s\<lparr>cs_RenewEventId := - 1\<rparr> in Some (put_client_sub a (Some s1) st1, Inr s1) }) })"

definition renew_end :: "renew_env \<Rightarrow> int \<Rightarrow> string \<Rightarrow> int \<Rightarrow> int \<Rightarrow> string \<Rightarrow> GenlibClientSubscription \<Rightarrow> gena_cp \<Rightarrow> (gena_cp \<times> int) option" where
  "renew_end e h cid TimeOut rc actual copy st =
     (if \<not> is_client h st then Some (st, GENA_E_BAD_HANDLE)
      else if rc \<noteq> UPNP_E_SUCCESS then
        do { st1 \<leftarrow> RemoveClientSubClientSID h cid st; (s, st2) \<leftarrow> free_client_subscription copy st1; Some (st2, rc) }
      else
        do { p \<leftarrow> GetClientSubClientSID (ClientSubList st h) cid st;
             (case p of
                None \<Rightarrow> do { (s, st1) \<leftarrow> free_client_subscription copy st; Some (st1, GENA_E_BAD_SID) }
              | Some a \<Rightarrow>
                  do { s \<leftarrow> client_subs st a;
                       (st1, rc1) \<leftarrow> ScheduleGenaAutoRenew e h TimeOut a (put_client_sub a (Some (s\<lparr>cs_ActualSID := actual\<rparr>)) st);
                       st2 \<leftarrow> (if rc1 \<noteq> GENA_SUCCESS then RemoveClientSubClientSID h (cs_SID s) st1 else Some st1);
                       (s1, st3) \<leftarrow> free_client_subscription copy st2;
                       Some (st3, rc1) }) })"

definition genaRenewSubscription ::
    "sub_env \<Rightarrow> bool \<Rightarrow> (gena_cp \<Rightarrow> gena_cp) \<Rightarrow> renew_env \<Rightarrow> int \<Rightarrow> string \<Rightarrow> int \<Rightarrow> gena_cp \<Rightarrow> (gena_cp \<times> int \<times> int) option" where
  "genaRenewSubscription e sid_mem others re h cid TimeOut st =
     do { (st1, r) \<leftarrow> locked (renew_begin h cid) st;
          (case r of
             Inl rc \<Rightarrow> Some (st1, rc, TimeOut)
           | Inr copy \<Rightarrow>
               do { (rc, t, actual) \<leftarrow> gena_subscribe e sid_mem (cs_EventURL copy) TimeOut (Some (cs_ActualSID copy));
                    (st2, rc1) \<leftarrow> locked (renew_end re h cid t rc actual copy) (others st1);
                    Some (st2, rc1, t) }) }"

text \<open>The job of the timer. The result has the call of the client, if there is one: callback, cookie and event.\<close>

definition renewal_failed :: "int \<Rightarrow> bool" where
  "renewal_failed rc \<longleftrightarrow> rc \<noteq> UPNP_E_SUCCESS \<and> rc \<noteq> GENA_E_BAD_SID \<and> rc \<noteq> GENA_E_BAD_HANDLE"

definition GenaAutoRenewSubscription ::
    "sub_env \<Rightarrow> bool \<Rightarrow> (gena_cp \<Rightarrow> gena_cp) \<Rightarrow> renew_env \<Rightarrow> nat \<Rightarrow> gena_cp \<Rightarrow> (gena_cp \<times> (nat \<times> nat \<times> UpnpEventSubscribe) option) option" where
  "GenaAutoRenewSubscription e sid_mem others re a st =
     do { x \<leftarrow> renew_args st a;
          (st1, rc, t) \<leftarrow> genaRenewSubscription e sid_mem others re (ja_handle x) (es_SID (ja_event x)) (es_TimeOut (ja_event x)) st;
          y \<leftarrow> renew_args st1 a;
          if renewal_failed rc \<and> GlobalHndRWLock st1 then None
          else
            do { st2 \<leftarrow> free_subscribe_arg a st1;
                 Some (st2,
                   if \<not> renewal_failed rc then None
                   else
                     (case GetHandleInfo (ja_handle x) st1 of
                        (HND_CLIENT, Some info) \<Rightarrow> Some (Callback info, Cookie info, (ja_event y)\<lparr>es_ErrCode := rc, es_TimeOut := t\<rparr>)
                      | _ \<Rightarrow> None)) } }"

section \<open>Unsubscribing\<close>

definition unsubscribe_begin :: "int \<Rightarrow> string \<Rightarrow> gena_cp \<Rightarrow> (gena_cp \<times> (int + GenlibClientSubscription)) option" where
  "unsubscribe_begin h cid st =
     (if \<not> is_client h st then Some (st, Inl GENA_E_BAD_HANDLE)
      else
        do { p \<leftarrow> GetClientSubClientSID (ClientSubList st h) cid st;
             (case p of
                None \<Rightarrow> Some (st, Inl GENA_E_BAD_SID)
              | Some a \<Rightarrow> do { s \<leftarrow> client_subs st a; Some (st, Inr s) }) })"

definition unsubscribe_end :: "int \<Rightarrow> string \<Rightarrow> gena_cp \<Rightarrow> (gena_cp \<times> int) option" where
  "unsubscribe_end h cid st =
     (if \<not> is_client h st then Some (st, GENA_E_BAD_HANDLE)
      else map_option (\<lambda>st1. (st1, GENA_SUCCESS)) (RemoveClientSubClientSID h cid st))"

text \<open>\<open>others\<close>: during the request, and between the two sections.\<close>

definition genaUnSubscribe ::
    "sub_env \<Rightarrow> (gena_cp \<Rightarrow> gena_cp) \<Rightarrow> (gena_cp \<Rightarrow> gena_cp) \<Rightarrow> int \<Rightarrow> string \<Rightarrow> gena_cp \<Rightarrow> (gena_cp \<times> int) option" where
  "genaUnSubscribe e others others1 h cid st =
     do { (st1, r) \<leftarrow> locked (unsubscribe_begin h cid) st;
          (case r of
             Inl rc \<Rightarrow> Some (st1, rc)
           | Inr copy \<Rightarrow>
               do { rc \<leftarrow> gena_unsubscribe e (cs_EventURL copy) (cs_ActualSID copy);
                    (s, st2) \<leftarrow> free_client_subscription copy (others st1);
                    (st3, rc1) \<leftarrow> locked (unsubscribe_end h cid) (others1 st2);
                    Some (st3, if rc1 = GENA_SUCCESS then rc else rc1) }) }"

text \<open>One turn of the loop that ends all subscriptions of a client.\<close>

definition unregister_turn :: "int \<Rightarrow> gena_cp \<Rightarrow> (gena_cp \<times> (int + GenlibClientSubscription)) option" where
  "unregister_turn h st =
     (if \<not> is_client h st then Some (st, Inl GENA_E_BAD_HANDLE)
      else
        (case ClientSubList st h of
           None \<Rightarrow> Some (st, Inl UPNP_E_SUCCESS)
         | Some a \<Rightarrow>
             do { s \<leftarrow> client_subs st a;
                  st1 \<leftarrow> RemoveClientSubClientSID h (cs_SID s) st;
                  Some (st1, Inr s) }))"

partial_function (option) genaUnregisterClient ::
    "(nat \<Rightarrow> sub_env) \<Rightarrow> (nat \<Rightarrow> gena_cp \<Rightarrow> gena_cp) \<Rightarrow> nat \<Rightarrow> int \<Rightarrow> gena_cp \<Rightarrow> (gena_cp \<times> int) option" where
  "genaUnregisterClient es others i h st =
     do { (st1, r) \<leftarrow> locked (unregister_turn h) (others i st);
          (case r of
             Inl rc \<Rightarrow> Some (st1, rc)
           | Inr copy \<Rightarrow>
               do { rc \<leftarrow> gena_unsubscribe (es i) (cs_EventURL copy) (cs_ActualSID copy);
                    (s, st2) \<leftarrow> free_client_subscription copy st1;
                    genaUnregisterClient es others (Suc i) h st2 }) }"

section \<open>Clients come and go\<close>

text \<open>A new client has no subscriptions; before a client is taken out of the table its subscriptions are ended.\<close>

definition register_subscriber ::
    "bool \<Rightarrow> Handle_Info \<Rightarrow> nat option \<Rightarrow> nat \<Rightarrow> bool \<Rightarrow> gena_cp \<Rightarrow> (gena_cp \<times> int \<times> int option) option" where
  "register_subscriber mem junk Fun cookie have_hnd st =
     map_option (\<lambda>(st1, rc, hnd). (if rc = UPNP_E_SUCCESS then set_head (the hnd) None st1 else st1, rc, hnd))
       (register_client mem junk Fun cookie have_hnd st)"

definition unregister_subscriber :: "(nat \<Rightarrow> sub_env) \<Rightarrow> (nat \<Rightarrow> gena_cp \<Rightarrow> gena_cp) \<Rightarrow> int \<Rightarrow> gena_cp \<Rightarrow> (gena_cp \<times> int) option" where
  "unregister_subscriber es others h st =
     (if UpnpSdkInit st \<noteq> 1 \<or> UpnpSdkClientRegistered st = 0 then UpnpUnRegisterClient UPNP_E_SUCCESS (\<lambda>s. s) h st
      else if GlobalHndRWLock st then None
      else do { (st1, rc) \<leftarrow> genaUnregisterClient es others 0 h st; UpnpUnRegisterClient rc (\<lambda>_. st1) h st })"

end
