(* ===== verification/ClientEvents.thy ===== *)
theory ClientEvents
  imports GenaCtrlpt
begin

text \<open>
  Events that arrive at a control point: \<^verbatim>\<open>gena_process_notification_event\<close> in \<^verbatim>\<open>compa/src/gena/gena_ctrlpt.cpp\<close>. Every client that has the
  subscription is called. The XML parser is an argument: the document of a text, \<open>None\<close> when it is not well-formed.
\<close>

definition HDR_CONTENT_TYPE :: int where "HDR_CONTENT_TYPE = 4"
definition HDR_SEQ :: int where "HDR_SEQ = 17"

record event_call =
  ec_callback :: nat
  ec_cookie :: nat
  ec_key :: int
  ec_sid :: string
  ec_vars :: xml

text \<open>The key of an event; \<open>Some None\<close>: the header is missing or no number.\<close>

definition event_key :: "net_env \<Rightarrow> http_parser \<Rightarrow> int option option" where
  "event_key net event =
     (case find_hdr event HDR_SEQ of
        None \<Rightarrow> Some None
      | Some v \<Rightarrow>
          do { (st, outs) \<leftarrow> matchstr net (block v) (mlength v) ''%d%0'';
               if st \<noteq> PARSE_OK then Some None else (case outs of [OInt (Some n)] \<Rightarrow> Some (Some n) | _ \<Rightarrow> None) })"

definition has_xml_content_type :: "net_env \<Rightarrow> http_parser \<Rightarrow> bool option" where
  "has_xml_content_type net hmsg =
     (case find_hdr hmsg HDR_CONTENT_TYPE of
        None \<Rightarrow> Some False
      | Some v \<Rightarrow> map_option (\<lambda>(st, outs). st = PARSE_OK) (matchstr net (block v) (mlength v) ''%itext%w/%wxml''))"

definition event_document :: "net_env \<Rightarrow> (string \<Rightarrow> xml option) \<Rightarrow> http_parser \<Rightarrow> xml option option" where
  "event_document net parse event =
     do { ty \<leftarrow> has_xml_content_type net event;
          Some (if \<not> ty \<or> mlength (msg event) = 0 then None
                else (case (entity_buf event, buf (msg event)) of (Some i, Some b) \<Rightarrow> parse (c_str (drop i b)) | _ \<Rightarrow> None)) }"

text \<open>
  The subscription of a client: \<open>seen\<close> is the state at its turn. The first event may come before the answer to the subscription: it waits for
  the lock of subscribing and looks again, in the state \<open>again\<close>.
\<close>

definition look_for :: "string \<Rightarrow> int \<Rightarrow> gena_cp \<Rightarrow> (Handle_Info \<times> GenlibClientSubscription) option option" where
  "look_for tok h st =
     (if GlobalHndRWLock st then None
      else
        (case GetHandleInfo h st of
           (HND_CLIENT, Some x) \<Rightarrow>
             do { p \<leftarrow> GetClientSubActualSID (ClientSubList st h) tok st;
                  (case p of None \<Rightarrow> Some None | Some a \<Rightarrow> map_option (\<lambda>s. Some (x, s)) (client_subs st a)) }
         | _ \<Rightarrow> Some None))"

definition event_subscription :: "string \<Rightarrow> int \<Rightarrow> gena_cp \<Rightarrow> gena_cp \<Rightarrow> int \<Rightarrow> (Handle_Info \<times> GenlibClientSubscription) option option" where
  "event_subscription tok eventKey seen again h =
     do { r \<leftarrow> look_for tok h seen;
          if r \<noteq> None \<or> \<not> is_client h seen \<or> eventKey \<noteq> 0 then Some r
          else if GlobalClientSubscribeMutex again then None
          else look_for tok h again }"

fun event_calls :: "string \<Rightarrow> int \<Rightarrow> xml \<Rightarrow> (int \<Rightarrow> gena_cp) \<Rightarrow> (int \<Rightarrow> gena_cp) \<Rightarrow> int list \<Rightarrow> event_call list option" where
  "event_calls tok eventKey vars seen again [] = Some []"
| "event_calls tok eventKey vars seen again (h # hs) =
     do { r \<leftarrow> event_subscription tok eventKey (seen h) (again h) h;
          calls \<leftarrow> event_calls tok eventKey vars seen again hs;
          Some (case r of
            None \<Rightarrow> calls
          | Some (x, s) \<Rightarrow> \<lparr>ec_callback = Callback x, ec_cookie = Cookie x, ec_key = eventKey, ec_sid = cs_SID s, ec_vars = vars\<rparr> # calls) }"

text \<open>The checks before the table is looked at: an error code, or SID, key and document.\<close>

definition event_request ::
    "net_env \<Rightarrow> (string \<Rightarrow> xml option) \<Rightarrow> http_parser \<Rightarrow> (int + (string \<times> int \<times> xml)) option" where
  "event_request net parse event =
     (case find_hdr event HDR_SID of
        None \<Rightarrow> Some (Inl HTTP_PRECONDITION_FAILED)
      | Some k \<Rightarrow>
          do { n \<leftarrow> event_key net event;
               (case n of
                  None \<Rightarrow> Some (Inl HTTP_BAD_REQUEST)
                | Some key \<Rightarrow>
                    if find_hdr event HDR_NT = None \<or> find_hdr event HDR_NTS = None then Some (Inl HTTP_BAD_REQUEST)
                    else if \<not> header_is event HDR_NT ''upnp:event'' \<or> \<not> header_is event HDR_NTS ''upnp:propchange''
                    then Some (Inl HTTP_PRECONDITION_FAILED)
                    else
                      do { doc \<leftarrow> event_document net parse event;
                           Some (case doc of None \<Rightarrow> Inl HTTP_BAD_REQUEST | Some vars \<Rightarrow> Inr (contents k, key, vars)) }) })"

definition gena_process_notification_event ::
    "answer_env \<Rightarrow> net_env \<Rightarrow> (string \<Rightarrow> xml option) \<Rightarrow> gena_cp \<Rightarrow> (int \<Rightarrow> gena_cp) \<Rightarrow> (int \<Rightarrow> gena_cp) \<Rightarrow> SOCKINFO \<Rightarrow> http_parser \<Rightarrow>
     (os \<times> int \<times> event_call list) option" where
  "gena_process_notification_event e net parse first seen again info event =
     do { r \<leftarrow> event_request net parse event;
          (case r of
             Inl code \<Rightarrow> map_option (\<lambda>w. (w, code, [])) (error_respond e info code event)
           | Inr (tok, key, vars) \<Rightarrow>
               if GlobalHndRWLock first then None
               else
                 (case GetClientHandleInfo first of
                    (HND_CLIENT, start, x) \<Rightarrow>
                      do { calls \<leftarrow> event_calls tok key vars seen again [start..NUM_HANDLE - 1];
                           let code = (if calls = [] then HTTP_PRECONDITION_FAILED else HTTP_OK) in
                           map_option (\<lambda>w. (w, code, calls)) (error_respond e info code event) }
                  | _ \<Rightarrow> map_option (\<lambda>w. (w, HTTP_PRECONDITION_FAILED, [])) (error_respond e info HTTP_PRECONDITION_FAILED event))) }"

end
