(* ===== verification/ClientSubs.thy ===== *)
theory ClientSubs
  imports ClientEvents SsdpSearchSystem
begin

text \<open>
  The invariant of the subscriptions of control points: every list consists of live cells that no other list has, and every renewal
  that waits in the timer or that the pool was given has its argument. Every section of the code keeps it, and returns.
\<close>

section \<open>Renewals in the timer\<close>

definition renewal_args :: "gena_cp \<Rightarrow> nat list" where
  "renewal_args st = map (\<lambda>e. arg (job e)) (filter (\<lambda>e. func (job e) = renew_code) (eventQ (cp_timer st)))"

text \<open>\<open>due\<close> are the arguments of the jobs that the pool was given.\<close>

definition renewals_ok :: "nat list \<Rightarrow> gena_cp \<Rightarrow> bool" where
  "renewals_ok due st \<longleftrightarrow>
     timer_inv (cp_timer st) \<and> 0 \<le> lastEventId (cp_timer st) \<and> (\<forall>e\<in>set (eventQ (cp_timer st)). 0 \<le> event_id e) \<and>
     (\<forall>e\<in>set (eventQ (cp_timer st)). func (job e) = renew_code \<longrightarrow> free_func (job e) = Some free_subscribe_code) \<and>
     distinct (renewal_args st @ due) \<and> set (renewal_args st @ due) \<subseteq> dom (renew_args st) \<and> dom (renew_args st) \<subseteq> {..<renew_fresh st}"

text \<open>An id that belongs to a renewal, if there still is an event with it.\<close>

definition renewal_id :: "TimerThread \<Rightarrow> int \<Rightarrow> bool" where
  "renewal_id t k \<longleftrightarrow> k < lastEventId t \<and> (\<forall>e\<in>set (eventQ t). event_id e = k \<longrightarrow> func (job e) = renew_code)"

lemma no_renewal_id [simp]: "renewals_ok due st \<Longrightarrow> renewal_id (cp_timer st) (- 1)"
  by (auto simp: renewals_ok_def renewal_id_def)

text \<open>What changes when a renewal is taken out of the timer or added to it.\<close>

definition timer_moves :: "nat list \<Rightarrow> gena_cp \<Rightarrow> gena_cp \<Rightarrow> bool" where
  "timer_moves due st st1 \<longleftrightarrow>
     (\<exists>t r n. st1 = st\<lparr>cp_timer := t, renew_args := r, renew_fresh := n\<rparr>) \<and>
     (\<forall>k. renewal_id (cp_timer st) k \<longrightarrow> renewal_id (cp_timer st1) k) \<and> renewals_ok due st1"

lemma timer_moves_refl [simp]: "renewals_ok due st \<Longrightarrow> timer_moves due st st"
  unfolding timer_moves_def by (rule conjI, rule exI [of _ "cp_timer st"], rule exI [of _ "renew_args st"], rule exI [of _ "renew_fresh st"]) simp_all

lemma timer_moves_ok: "timer_moves due st st1 \<Longrightarrow> renewals_ok due st1"
  by (simp add: timer_moves_def)

lemma timer_moves_id: "timer_moves due st st1 \<Longrightarrow> renewal_id (cp_timer st) k \<Longrightarrow> renewal_id (cp_timer st1) k"
  by (simp add: timer_moves_def)

lemma remove_cases:
  assumes "TimerThreadRemove timer k = (t1, j, rc)"
  obtains (absent) "t1 = timer" "j = None" "\<forall>e\<in>set (eventQ timer). event_id e \<noteq> k"
  | (removed) xs e ys where "eventQ timer = xs @ e # ys" "event_id e = k" "j = Some (job e)" "eventQ t1 = xs @ ys" "lastEventId t1 = lastEventId timer"
proof (cases "find (\<lambda>i. event_id (eventQ timer ! i) = k) [0..<length (eventQ timer)]")
  case None
  then have "\<forall>e\<in>set (eventQ timer). event_id e \<noteq> k"
    by (auto simp: find_None_iff in_set_conv_nth)
  then show thesis
    using None assms absent by (simp add: TimerThreadRemove_def)
next
  case (Some i)
  then have i: "i < length (eventQ timer)" "event_id (eventQ timer ! i) = k"
    by (auto simp: find_Some_iff)
  show thesis
  proof (rule removed)
    show "eventQ timer = take i (eventQ timer) @ eventQ timer ! i # drop (Suc i) (eventQ timer)"
      using i(1) by (rule id_take_nth_drop)
  qed (use Some i assms in \<open>auto simp: TimerThreadRemove_def FreeTimerEvent_def del_event_def\<close>)
qed

lemma distinct_without:
  assumes "distinct (A @ a # B @ D)" and "set (A @ a # B @ D) \<subseteq> dom m"
  shows "distinct ((A @ B) @ D)" and "set ((A @ B) @ D) \<subseteq> dom (m(a := None))"
  using assms by auto

lemma remove_renewal_ok:
  assumes ok: "renewals_ok due st" and k: "renewal_id (cp_timer st) k"
  shows "\<exists>st1. remove_renewal k st = Some st1 \<and> timer_moves due st st1"
proof -
  obtain t1 j rc where r: "TimerThreadRemove (cp_timer st) k = (t1, j, rc)"
    by (metis prod_cases3)
  from r show ?thesis
  proof (cases rule: remove_cases)
    case absent
    then show ?thesis
      using r ok by (simp add: remove_renewal_def)
  next
    case (removed xs e ys)
    have e: "func (job e) = renew_code"
      using k removed by (simp add: renewal_id_def)
    then have f: "free_func (job e) = Some free_subscribe_code" "arg (job e) \<in> dom (renew_args st)"
      using ok removed by (auto simp: renewals_ok_def renewal_args_def)
    let ?st1 = "st\<lparr>cp_timer := t1, renew_args := (renew_args st)(arg (job e) := None)\<rparr>"
    have "remove_renewal k st = Some ?st1"
      using r removed(3) f by (auto simp: remove_renewal_def call_free_def free_subscribe_arg_def)
    moreover have args: "renewal_args st = map (\<lambda>e. arg (job e)) (filter (\<lambda>e. func (job e) = renew_code) xs) @ arg (job e) #
        map (\<lambda>e. arg (job e)) (filter (\<lambda>e. func (job e) = renew_code) ys)" (is "_ = ?A @ _ # ?B")
      using removed(1) e by (simp add: renewal_args_def)
    have "renewals_ok due ?st1"
      unfolding renewals_ok_def
    proof (intro conjI)
      show "timer_inv (cp_timer ?st1)"
        using remove_inv [OF r] ok by (simp add: renewals_ok_def)
      have d: "distinct (?A @ arg (job e) # ?B @ due)" "set (?A @ arg (job e) # ?B @ due) \<subseteq> dom (renew_args st)"
        using ok by (simp_all add: renewals_ok_def args)
      have n: "renewal_args ?st1 = ?A @ ?B"
        using removed(4) by (simp add: renewal_args_def)
      show "distinct (renewal_args ?st1 @ due)" "set (renewal_args ?st1 @ due) \<subseteq> dom (renew_args ?st1)"
        using distinct_without [OF d] by (simp_all only: n) simp_all
      show "dom (renew_args ?st1) \<subseteq> {..<renew_fresh ?st1}"
        using ok by (auto simp: renewals_ok_def)
    qed (use ok removed in \<open>auto simp: renewals_ok_def\<close>)
    then have "timer_moves due st ?st1"
      using removed unfolding timer_moves_def
      by (intro conjI exI [of _ t1] exI [of _ "(renew_args st)(arg (job e) := None)"] exI [of _ "renew_fresh st"]) (simp_all add: renewal_id_def)
    ultimately show ?thesis by blast
  qed
qed

lemma free_client_subscription_ok:
  assumes "renewals_ok due st" and "renewal_id (cp_timer st) (cs_RenewEventId s)"
  shows "\<exists>st1. free_client_subscription s st = Some (s\<lparr>cs_ActualSID := [], cs_EventURL := [], cs_RenewEventId := - 1\<rparr>, st1) \<and> timer_moves due st st1"
  using remove_renewal_ok [OF assms] assms(1) by (auto simp: free_client_subscription_def Let_def)

lemma renew_job_fields [simp]: "func (renew_job a) = renew_code" "arg (renew_job a) = a" "free_func (renew_job a) = Some free_subscribe_code"
  by (simp_all add: renew_job_def TPJobInit_def TPJobSetFreeFunction_def TPJobSetPriority_def non_null_def)

section \<open>The invariant\<close>

definition client_list :: "gena_cp \<Rightarrow> int \<Rightarrow> nat list \<Rightarrow> bool" where
  "client_list st h as \<longleftrightarrow> is_client h st \<and> sub_chain (client_subs st) (ClientSubList st h) as"

definition cells_ok :: "gena_cp \<Rightarrow> bool" where
  "cells_ok st \<longleftrightarrow> (\<forall>a s. client_subs st a = Some s \<longrightarrow> a < sub_fresh st \<and> renewal_id (cp_timer st) (cs_RenewEventId s))"

definition lists_apart :: "gena_cp \<Rightarrow> bool" where
  "lists_apart st \<longleftrightarrow> (\<forall>h. is_client h st \<longrightarrow> (\<exists>as. client_list st h as)) \<and>
     (\<forall>h g as bs. client_list st h as \<and> client_list st g bs \<and> h \<noteq> g \<longrightarrow> set as \<inter> set bs = {})"

text \<open>\<open>held\<close> are the copies of subscriptions that are held by calls between their sections.\<close>

definition client_inv :: "nat list \<Rightarrow> GenlibClientSubscription list \<Rightarrow> gena_cp \<Rightarrow> bool" where
  "client_inv due held st \<longleftrightarrow> renewals_ok due st \<and> cells_ok st \<and> lists_apart st \<and>
     (\<forall>c\<in>set held. renewal_id (cp_timer st) (cs_RenewEventId c))"

text \<open>What the sections leave alone.\<close>

definition same_table :: "gena_cp \<Rightarrow> gena_cp \<Rightarrow> bool" where
  "same_table st st1 \<longleftrightarrow> HandleTable st1 = HandleTable st \<and> GlobalHndRWLock st1 = GlobalHndRWLock st \<and>
     GlobalClientSubscribeMutex st1 = GlobalClientSubscribeMutex st"

lemma same_table_refl [simp]: "same_table st st"
  by (simp add: same_table_def)

lemma same_table_trans: "same_table st st1 \<Longrightarrow> same_table st1 st2 \<Longrightarrow> same_table st st2"
  by (simp add: same_table_def)

lemma is_client_simps [simp]:
  "is_client h (st\<lparr>cp_timer := t\<rparr>) = is_client h st" "is_client h (st\<lparr>renew_args := r\<rparr>) = is_client h st"
  "is_client h (st\<lparr>renew_fresh := n\<rparr>) = is_client h st" "is_client h (st\<lparr>client_subs := m\<rparr>) = is_client h st"
  "is_client h (st\<lparr>ClientSubList := l\<rparr>) = is_client h st" "is_client h (st\<lparr>sub_fresh := n\<rparr>) = is_client h st"
  "is_client h (st\<lparr>GlobalHndRWLock := b\<rparr>) = is_client h st" "is_client h (st\<lparr>GlobalClientSubscribeMutex := b\<rparr>) = is_client h st"
  by (simp_all add: is_client_def GetHandleInfo_def slot_def)

lemma timer_moves_fields:
  assumes "timer_moves due st st1"
  shows "client_subs st1 = client_subs st" "ClientSubList st1 = ClientSubList st" "sub_fresh st1 = sub_fresh st" "is_client h st1 = is_client h st"
    "same_table st st1"
  using assms by (auto simp: timer_moves_def same_table_def)

lemma timer_moves_inv:
  assumes "client_inv due held st" and m: "timer_moves due st st1"
  shows "client_inv due held st1" and "client_list st h as \<Longrightarrow> client_list st1 h as"
proof -
  note f = timer_moves_fields [OF m]
  have "lists_apart st1 = lists_apart st"
    by (simp add: lists_apart_def client_list_def f)
  then show "client_inv due held st1"
    using assms timer_moves_id [OF m] timer_moves_ok [OF m] by (auto simp: client_inv_def cells_ok_def f)
  show "client_list st h as \<Longrightarrow> client_list st1 h as"
    by (simp add: client_list_def f)
qed

lemma sub_chain_cong: "(\<And>b. b \<in> set as \<Longrightarrow> m b = m1 b) \<Longrightarrow> sub_chain m p as = sub_chain m1 p as"
  by (induction as arbitrary: p) auto

text \<open>Cells leave the list of one client.\<close>

lemma shrink_list:
  assumes inv: "client_inv due held st" and l: "client_list st h as"
    and m: "\<And>b. b \<notin> set as \<Longrightarrow> m b = client_subs st b" and L: "\<And>g. g \<noteq> h \<Longrightarrow> L g = ClientSubList st g"
    and k: "\<And>b s. m b = Some s \<Longrightarrow> \<exists>s0. client_subs st b = Some s0 \<and> cs_RenewEventId s = cs_RenewEventId s0"
    and c: "sub_chain m (L h) as1" "set as1 \<subseteq> set as"
  shows "client_inv due held (st\<lparr>client_subs := m, ClientSubList := L\<rparr>)"
    and "client_list (st\<lparr>client_subs := m, ClientSubList := L\<rparr>) h as1"
proof -
  let ?st1 = "st\<lparr>client_subs := m, ClientSubList := L\<rparr>"
  have p: "renewals_ok due st" "cells_ok st" "lists_apart st"
    using inv by (simp_all add: client_inv_def)
  have own: "client_list ?st1 h bs \<longleftrightarrow> bs = as1" for bs
    using l c sub_chain_unique [of m "L h" bs as1] by (auto simp: client_list_def)
  have other: "client_list ?st1 g bs \<longleftrightarrow> client_list st g bs" if "g \<noteq> h" for g bs
  proof -
    have "set bs \<inter> set as = {}" if "client_list st g bs"
      using p(3) l that \<open>g \<noteq> h\<close> by (auto simp: lists_apart_def)
    moreover have "set bs \<inter> set as = {}" if "client_list ?st1 g bs"
    proof -
      have "is_client g st"
        using that by (simp add: client_list_def)
      then obtain cs where cs: "client_list st g cs"
        using p(3) unfolding lists_apart_def by blast
      then have d: "set cs \<inter> set as = {}"
        using p(3) l \<open>g \<noteq> h\<close> by (auto simp: lists_apart_def)
      then have "\<And>b. b \<in> set cs \<Longrightarrow> m b = client_subs st b"
        using m by blast
      from sub_chain_cong [OF this] have "sub_chain m (ClientSubList st g) cs"
        using cs by (simp add: client_list_def)
      then have "bs = cs"
        using that L [OF \<open>g \<noteq> h\<close>] sub_chain_unique [of m "ClientSubList st g" bs cs] by (simp add: client_list_def)
      then show ?thesis using d by simp
    qed
    moreover have "sub_chain m p bs = sub_chain (client_subs st) p bs" if "set bs \<inter> set as = {}" for p
      by (rule sub_chain_cong) (use m that in blast)
    ultimately show ?thesis
      using L [OF that] by (auto simp: client_list_def)
  qed
  have "lists_apart ?st1"
    unfolding lists_apart_def
  proof (intro conjI allI impI)
    fix g assume "is_client g ?st1"
    then show "\<exists>bs. client_list ?st1 g bs"
      using p(3) own other [of g] by (cases "g = h") (auto simp: lists_apart_def)
  next
    fix g g1 bs bs1 assume a: "client_list ?st1 g bs \<and> client_list ?st1 g1 bs1 \<and> g \<noteq> g1"
    have sub: "\<exists>cs. client_list st g cs \<and> set bs \<subseteq> set cs" if "client_list ?st1 g bs" for g bs
      using that own other [of g bs] l c(2) by (cases "g = h") auto
    from sub a obtain cs cs1 where "client_list st g cs" "set bs \<subseteq> set cs" "client_list st g1 cs1" "set bs1 \<subseteq> set cs1"
      by meson
    then show "set bs \<inter> set bs1 = {}"
      using p(3) a by (fastforce simp: lists_apart_def)
  qed
  moreover have "cells_ok ?st1"
    using p(2) k by (fastforce simp: cells_ok_def)
  ultimately show "client_inv due held ?st1"
    using inv by (simp add: client_inv_def renewals_ok_def renewal_args_def)
  show "client_list ?st1 h as1"
    using own by simp
qed

section \<open>Removing a subscription\<close>

lemma timer_moves_memory:
  assumes "timer_moves due st st1"
  shows "timer_moves due (st\<lparr>client_subs := m, ClientSubList := L\<rparr>) (st1\<lparr>client_subs := m, ClientSubList := L\<rparr>)"
proof -
  obtain t r n where s: "st1 = st\<lparr>cp_timer := t, renew_args := r, renew_fresh := n\<rparr>"
    using assms by (auto simp: timer_moves_def)
  have "st1\<lparr>client_subs := m, ClientSubList := L\<rparr> = st\<lparr>client_subs := m, ClientSubList := L\<rparr>\<lparr>cp_timer := t, renew_args := r, renew_fresh := n\<rparr>"
    by (simp add: s)
  moreover have "renewals_ok due (st1\<lparr>client_subs := m, ClientSubList := L\<rparr>)" "\<forall>k. renewal_id (cp_timer st) k \<longrightarrow> renewal_id (cp_timer st1) k"
    using assms by (simp_all add: timer_moves_def renewals_ok_def renewal_args_def)
  ultimately show ?thesis
    unfolding timer_moves_def using s
    by (intro conjI exI [of _ t] exI [of _ r] exI [of _ n]) simp_all
qed

lemma free_one:
  assumes "client_subs st a = Some s" and "cs_Next s = None" and "renewals_ok due st" and "renewal_id (cp_timer st) (cs_RenewEventId s)"
  shows "\<exists>st1. freeClientSubList (Some a) st = Some (put_client_sub a None st1) \<and> timer_moves due st st1"
  using free_client_subscription_ok [OF assms(3,4)] assms(1,2) by (auto simp: freeClientSubList.simps [of "Some a"] freeClientSubList.simps [of None])

lemma remove_absent:
  "sub_chain (client_subs st) p as \<Longrightarrow> \<forall>x\<in>set as. cs_SID (sub_of st x) \<noteq> cid \<Longrightarrow>
   RemoveClientSubClientSID_loop cid h prev p st = Some st"
proof (induction as arbitrary: p prev)
  case Nil then show ?case by (simp add: RemoveClientSubClientSID_loop.simps)
next
  case (Cons a as) then show ?case
    by (subst RemoveClientSubClientSID_loop.simps) (auto simp: sub_of_def)
qed

lemma remove_found:
  "sub_chain (client_subs st) p (xs @ a # ys) \<Longrightarrow> \<forall>x\<in>set xs. cs_SID (sub_of st x) \<noteq> cid \<Longrightarrow> client_subs st a = Some s \<Longrightarrow> cs_SID s = cid \<Longrightarrow>
   RemoveClientSubClientSID_loop cid h prev p st =
     do { st1 \<leftarrow> (case (if xs = [] then prev else Some (last xs)) of
            None \<Rightarrow> Some (set_head h (cs_Next s) st)
          | Some b \<Rightarrow> do { t \<leftarrow> client_subs st b; Some (put_client_sub b (Some (t\<lparr>cs_Next := cs_Next s\<rparr>)) st) });
          freeClientSubList (Some a) (put_client_sub a (Some (s\<lparr>cs_Next := None\<rparr>)) st1) }"
proof (induction xs arbitrary: p prev)
  case Nil then show ?case by (simp add: RemoveClientSubClientSID_loop.simps [of _ _ _ "Some a"])
next
  case (Cons x xs) then show ?case
    by (subst RemoveClientSubClientSID_loop.simps) (auto simp: sub_of_def)
qed

lemma sub_chain_snoc_next:
  "sub_chain m p (xs @ [b]) \<Longrightarrow> m b = Some t \<Longrightarrow> b \<notin> set xs \<Longrightarrow> sub_chain m q ys \<Longrightarrow> b \<notin> set ys \<Longrightarrow>
   sub_chain (m(b \<mapsto> t\<lparr>cs_Next := q\<rparr>)) p (xs @ b # ys)"
  by (induction xs arbitrary: p) auto

lemma sub_chain_prefix_last:
  "sub_chain m p (xs @ b # ys) \<Longrightarrow> m b = Some t \<Longrightarrow> b \<notin> set xs \<Longrightarrow> b \<notin> set zs \<Longrightarrow> sub_chain m q zs \<Longrightarrow>
   sub_chain (m(b \<mapsto> t\<lparr>cs_Next := q\<rparr>)) p (xs @ b # zs)"
  by (induction xs arbitrary: p) auto

text \<open>The cell in front of a removed one is linked to the one behind it.\<close>

lemma chain_unlinked:
  assumes c: "sub_chain m p (xs @ a # ys)" and a: "m a = Some s"
  shows "xs = [] \<Longrightarrow> sub_chain (m(a := None)) (cs_Next s) ys"
    and "xs \<noteq> [] \<Longrightarrow> m (last xs) = Some t \<Longrightarrow> sub_chain (m(last xs \<mapsto> t\<lparr>cs_Next := cs_Next s\<rparr>, a := None)) p (xs @ ys)"
proof -
  have d: "distinct (xs @ a # ys)"
    using c by (rule sub_chain_distinct)
  have n: "sub_chain m (cs_Next s) ys"
    using sub_chain_suffix [OF c] a by auto
  show "xs = [] \<Longrightarrow> sub_chain (m(a := None)) (cs_Next s) ys"
    using d n by simp
  assume "xs \<noteq> []" and t: "m (last xs) = Some t"
  then obtain zs b where xs: "xs = zs @ [b]"
    by (metis rev_exhaust)
  have "sub_chain (m(b \<mapsto> t\<lparr>cs_Next := cs_Next s\<rparr>)) p (zs @ b # ys)"
    using c t d n by (intro sub_chain_prefix_last [where ys = "a # ys"]) (auto simp: xs)
  then show "sub_chain (m(last xs \<mapsto> t\<lparr>cs_Next := cs_Next s\<rparr>, a := None)) p (xs @ ys)"
    using d by (auto simp: xs)
qed

definition without_sid :: "gena_cp \<Rightarrow> string \<Rightarrow> nat list \<Rightarrow> nat list" where
  "without_sid st cid as = (case find (\<lambda>a. cs_SID (sub_of st a) = cid) as of None \<Rightarrow> as | Some a \<Rightarrow> remove1 a as)"

lemma without_sid_split:
  assumes "find (\<lambda>a. cs_SID (sub_of st a) = cid) as = Some a"
  obtains xs ys where "as = xs @ a # ys" "\<forall>x\<in>set xs. cs_SID (sub_of st x) \<noteq> cid" "cs_SID (sub_of st a) = cid" "a \<notin> set xs"
proof -
  obtain i where i: "i < length as" "cs_SID (sub_of st (as ! i)) = cid" "a = as ! i" "\<forall>j<i. cs_SID (sub_of st (as ! j)) \<noteq> cid"
    using assms by (auto simp: find_Some_iff)
  have "\<forall>x\<in>set (take i as). cs_SID (sub_of st x) \<noteq> cid"
  proof
    fix x assume "x \<in> set (take i as)"
    then obtain j where "j < i" "x = as ! j"
      by (auto simp: in_set_conv_nth)
    then show "cs_SID (sub_of st x) \<noteq> cid"
      using i(4) by blast
  qed
  moreover have "as = take i as @ a # drop (Suc i) as"
    unfolding i(3) using i(1) by (rule id_take_nth_drop)
  ultimately show thesis
    using that i(2,3) by (metis (mono_tags, lifting))
qed

lemma RemoveClientSubClientSID_ok:
  assumes inv: "client_inv due held st" and l: "client_list st h as"
  shows "\<exists>st1. RemoveClientSubClientSID h cid st = Some st1 \<and> client_inv due held st1 \<and> client_list st1 h (without_sid st cid as) \<and> same_table st st1"
proof (cases "find (\<lambda>a. cs_SID (sub_of st a) = cid) as")
  case None
  then have "RemoveClientSubClientSID h cid st = Some st"
    using l remove_absent [of st "ClientSubList st h" as cid h None] by (auto simp: RemoveClientSubClientSID_def client_list_def find_None_iff)
  then show ?thesis
    using inv l None by (simp add: without_sid_def)
next
  case (Some a)
  then obtain xs ys where as: "as = xs @ a # ys" and x: "\<forall>x\<in>set xs. cs_SID (sub_of st x) \<noteq> cid" "cs_SID (sub_of st a) = cid" "a \<notin> set xs"
    by (rule without_sid_split)
  have c: "sub_chain (client_subs st) (ClientSubList st h) (xs @ a # ys)"
    using l by (simp add: client_list_def as)
  then obtain s where s: "client_subs st a = Some s" "cs_SID s = cid"
    using sub_chain_live [OF c, of a] x(2) by (auto simp: sub_of_def)
  have p: "renewals_ok due st" "cells_ok st"
    using inv by (simp_all add: client_inv_def)
  have w: "without_sid st cid as = xs @ ys"
    using Some x(3) by (simp add: without_sid_def as remove1_append)
  define m L where "m = (if xs = [] then (client_subs st)(a := None)
      else (client_subs st)(last xs \<mapsto> (sub_of st (last xs))\<lparr>cs_Next := cs_Next s\<rparr>, a := None))"
    and "L = (if xs = [] then (ClientSubList st)(h := cs_Next s) else ClientSubList st)"
  have b: "xs \<noteq> [] \<Longrightarrow> client_subs st (last xs) = Some (sub_of st (last xs))" "xs \<noteq> [] \<Longrightarrow> last xs \<noteq> a"
    using sub_chain_live [OF c, of "last xs"] x(3) by (auto simp: sub_of_def)
  define st1 where "st1 = st\<lparr>client_subs := m(a \<mapsto> s\<lparr>cs_Next := None\<rparr>), ClientSubList := L\<rparr>"
  have order: "st\<lparr>ClientSubList := l, client_subs := n\<rparr> = st\<lparr>client_subs := n, ClientSubList := l\<rparr>" for l n
    by simp
  have r: "RemoveClientSubClientSID h cid st = freeClientSubList (Some a) st1"
    unfolding RemoveClientSubClientSID_def remove_found [OF c x(1) s]
    by (cases "xs = []") (simp_all add: b st1_def m_def L_def put_client_sub_def set_head_def order [where l = "(ClientSubList st)(h := cs_Next s)"])
  have "renewals_ok due st1" "renewal_id (cp_timer st1) (cs_RenewEventId s)"
    using p s(1) by (auto simp: st1_def renewals_ok_def renewal_args_def cells_ok_def)
  then obtain st2 where f: "freeClientSubList (Some a) st1 = Some (put_client_sub a None st2)" "timer_moves due st1 st2"
    using free_one [of st1 a "s\<lparr>cs_Next := None\<rparr>" due] by (auto simp: st1_def)
  have ma: "m a = None"
    by (simp add: m_def)
  have "put_client_sub a None st2 = st2\<lparr>client_subs := m, ClientSubList := L\<rparr>"
    using timer_moves_fields [OF f(2)] ma by (auto simp: put_client_sub_def st1_def fun_upd_idem)
  then have mv: "timer_moves due (st\<lparr>client_subs := m, ClientSubList := L\<rparr>) (put_client_sub a None st2)"
    using timer_moves_memory [OF f(2), where m = m and L = L] by (simp add: st1_def)
  have sets: "b \<notin> set as \<Longrightarrow> m b = client_subs st b" "g \<noteq> h \<Longrightarrow> L g = ClientSubList st g" "set (xs @ ys) \<subseteq> set as" for b g
    by (auto simp: m_def L_def as)
  have ids: "m b = Some t \<Longrightarrow> \<exists>s0. client_subs st b = Some s0 \<and> cs_RenewEventId t = cs_RenewEventId s0" for b t
    using b by (auto simp: m_def split: if_splits)
  have chain: "sub_chain m (L h) (xs @ ys)"
    using chain_unlinked [OF c s(1)] b by (auto simp: m_def L_def)
  note shrunk = shrink_list [OF inv l sets(1) sets(2) ids chain sets(3)]
  have "client_inv due held (st\<lparr>client_subs := m, ClientSubList := L\<rparr>)" "client_list (st\<lparr>client_subs := m, ClientSubList := L\<rparr>) h (xs @ ys)"
    by (rule shrunk; assumption)+
  then show ?thesis
    using r f(1) timer_moves_inv [OF _ mv] timer_moves_fields [OF mv] by (auto simp: w same_table_def)
qed

end
