(* ===== verification/ClientSections.thy ===== *)
theory ClientSections
  imports ClientSubs
begin

text \<open>
  The sections of the calls of a control point keep the invariant of its subscriptions and return. The locale \<open>client_section\<close> is what they
  share; every section interprets it.
\<close>

section \<open>The contract\<close>

lemma client_inv_lock [simp]:
  "client_inv due held (st\<lparr>GlobalHndRWLock := b\<rparr>) = client_inv due held st"
  "client_inv due held (st\<lparr>GlobalClientSubscribeMutex := b\<rparr>) = client_inv due held st"
  by (simp_all add: client_inv_def renewals_ok_def renewal_args_def cells_ok_def lists_apart_def client_list_def)

locale client_section =
  fixes f :: "gena_cp \<Rightarrow> (gena_cp \<times> 'r) option" and needs :: "GenlibClientSubscription list \<Rightarrow> bool"
    and gives :: "'r \<Rightarrow> GenlibClientSubscription list"
  assumes runs: "client_inv due held st \<Longrightarrow> needs held \<Longrightarrow>
    \<exists>st1 r. f st = Some (st1, r) \<and> client_inv due (gives r @ held) st1 \<and> same_table st st1"
begin

lemma under_lock:
  assumes "client_inv due held st" and "needs held" and l: "\<not> GlobalHndRWLock st"
  shows "\<exists>st1 r. locked f st = Some (st1, r) \<and> client_inv due (gives r @ held) st1 \<and> same_table st st1"
proof -
  obtain st1 r where f: "f (st\<lparr>GlobalHndRWLock := True\<rparr>) = Some (st1, r)" "client_inv due (gives r @ held) st1"
    "same_table (st\<lparr>GlobalHndRWLock := True\<rparr>) st1"
    using runs [of due held "st\<lparr>GlobalHndRWLock := True\<rparr>"] assms by auto
  then show ?thesis
    using l by (auto simp: locked_def HandleLock_def HandleUnlock_def same_table_def)
qed

lemma locked_result:
  assumes "client_inv due held st" and "needs held" and "\<not> GlobalHndRWLock st" and "locked f st = Some (st1, r)"
  shows "client_inv due (gives r @ held) st1 \<and> same_table st st1"
  using under_lock [OF assms(1-3)] assms(4) by auto

end

section \<open>Changing cells\<close>

text \<open>A cell gets a new value with the same link.\<close>

lemma sub_chain_touch:
  "m a = Some s \<Longrightarrow> cs_Next s1 = cs_Next s \<Longrightarrow> sub_chain (m(a \<mapsto> s1)) p as = sub_chain m p as"
  by (induction as arbitrary: p) auto

lemma touch_cell:
  assumes inv: "client_inv due held st" and s: "client_subs st a = Some s" "cs_Next s1 = cs_Next s" "renewal_id (cp_timer st) (cs_RenewEventId s1)"
  shows "client_inv due held (put_client_sub a (Some s1) st)" and "client_list (put_client_sub a (Some s1) st) h as = client_list st h as"
    and "same_table st (put_client_sub a (Some s1) st)"
proof -
  show l: "client_list (put_client_sub a (Some s1) st) h as = client_list st h as" for h as
    using sub_chain_touch [where m = "client_subs st", OF s(1) s(2)] by (simp add: client_list_def put_client_sub_def)
  have "lists_apart (put_client_sub a (Some s1) st) = lists_apart st"
    unfolding lists_apart_def l by (simp add: put_client_sub_def)
  then show "client_inv due held (put_client_sub a (Some s1) st)"
    using inv s by (auto simp: client_inv_def put_client_sub_def renewals_ok_def renewal_args_def cells_ok_def)
qed (simp add: same_table_def put_client_sub_def)

text \<open>A new cell at the front of the list of a client.\<close>

lemma grow_list:
  assumes inv: "client_inv due held st" and h: "is_client h st" and s: "cs_Next s = ClientSubList st h" "renewal_id (cp_timer st) (cs_RenewEventId s)"
  defines "st1 \<equiv> set_head h (Some (sub_fresh st)) (put_client_sub (sub_fresh st) (Some s) (st\<lparr>sub_fresh := Suc (sub_fresh st)\<rparr>))"
  shows "client_inv due held st1" and "client_list st h as \<Longrightarrow> client_list st1 h (sub_fresh st # as)" and "same_table st st1"
    and "client_subs st1 (sub_fresh st) = Some s"
proof -
  let ?a = "sub_fresh st"
  have p: "cells_ok st" "lists_apart st"
    using inv by (simp_all add: client_inv_def)
  have fields: "client_subs st1 = (client_subs st)(?a \<mapsto> s)" "ClientSubList st1 = (ClientSubList st)(h := Some ?a)" "is_client g st1 = is_client g st"
      "cp_timer st1 = cp_timer st" "sub_fresh st1 = Suc ?a" for g
    by (simp_all add: st1_def set_head_def put_client_sub_def)
  have fresh: "?a \<notin> set bs" if "sub_chain (client_subs st) q bs" for q bs
    using sub_chain_live [OF that] p(1) by (fastforce simp: cells_ok_def)
  have new: "client_list st1 h (?a # bs) \<longleftrightarrow> client_list st h bs" for bs
  proof -
    have "?a \<notin> set bs" if "sub_chain ((client_subs st)(?a \<mapsto> s)) (Some ?a) (?a # bs)"
      using sub_chain_distinct [OF that] by simp
    then have "sub_chain (client_subs st) (ClientSubList st h) bs" if "sub_chain ((client_subs st)(?a \<mapsto> s)) (Some ?a) (?a # bs)"
      using that s(1) by simp
    then show ?thesis
      using fresh [of "ClientSubList st h" bs] by (auto simp: client_list_def fields s(1))
  qed
  have own: "client_list st1 h cs \<longleftrightarrow> (\<exists>bs. cs = ?a # bs \<and> client_list st h bs)" for cs
    using new by (cases cs) (auto simp: client_list_def fields)
  show "client_list st h as \<Longrightarrow> client_list st1 h (?a # as)"
    using new by simp
  have other: "client_list st1 g cs \<longleftrightarrow> client_list st g cs" if "g \<noteq> h" for g cs
  proof -
    have "?a \<notin> set cs" if c: "sub_chain ((client_subs st)(?a \<mapsto> s)) (ClientSubList st g) cs" and g: "is_client g st"
    proof -
      obtain ds where ds: "sub_chain (client_subs st) (ClientSubList st g) ds"
        using p(2) g by (auto simp: lists_apart_def client_list_def)
      then have "sub_chain ((client_subs st)(?a \<mapsto> s)) (ClientSubList st g) ds"
        using fresh by simp
      from sub_chain_unique [OF c this] show ?thesis
        using fresh [OF ds] by simp
    qed
    then show ?thesis
      using that fresh by (auto simp: client_list_def fields)
  qed
  have "lists_apart st1"
    unfolding lists_apart_def
  proof (intro conjI allI impI)
    fix g assume "is_client g st1"
    then have "\<exists>bs. client_list st g bs"
      using p(2) by (simp add: lists_apart_def fields)
    then show "\<exists>bs. client_list st1 g bs"
      using new other [of g] by (cases "g = h") auto
  next
    fix g g1 bs bs1 assume a: "client_list st1 g bs \<and> client_list st1 g1 bs1 \<and> g \<noteq> g1"
    have old: "\<exists>ds. client_list st i ds \<and> set cs - {?a} \<subseteq> set ds" if "client_list st1 i cs" for i cs
      using that own [of cs] other [of i cs] by (cases "i = h") auto
    obtain ds ds1 where "client_list st g ds" "set bs - {?a} \<subseteq> set ds" "client_list st g1 ds1" "set bs1 - {?a} \<subseteq> set ds1"
      using old a by meson
    then have "(set bs - {?a}) \<inter> (set bs1 - {?a}) = {}"
      using p(2) a by (fastforce simp: lists_apart_def)
    moreover have "?a \<notin> set cs" if "client_list st1 i cs" "i \<noteq> h" for i cs
      using that other [of i cs] fresh [of "ClientSubList st i" cs] by (simp add: client_list_def)
    ultimately show "set bs \<inter> set bs1 = {}"
      using a by blast
  qed
  then show "client_inv due held st1"
    using inv s(2) by (auto simp: client_inv_def renewals_ok_def renewal_args_def cells_ok_def fields less_Suc_eq) (auto simp: st1_def set_head_def put_client_sub_def)
qed (simp_all add: st1_def same_table_def set_head_def put_client_sub_def)

section \<open>The sections\<close>

text \<open>The own SIDs of the copies in a result.\<close>

definition given_copy :: "int + GenlibClientSubscription \<Rightarrow> GenlibClientSubscription list" where
  "given_copy r = (case r of Inl rc \<Rightarrow> [] | Inr c \<Rightarrow> [c])"

definition no_copy :: "'r \<Rightarrow> GenlibClientSubscription list" where
  "no_copy r = []"

lemma given_simps [simp]: "given_copy (Inl rc) = []" "given_copy (Inr c) = [c]" "no_copy r = []"
  by (simp_all add: given_copy_def no_copy_def)

lemma client_has_list:
  assumes "client_inv due held st" and "is_client h st"
  obtains as where "client_list st h as"
  using assms by (auto simp: client_inv_def lists_apart_def)

lemma found_cell:
  assumes "client_inv due held st" and "is_client h st"
  obtains (absent) "GetClientSubClientSID (ClientSubList st h) cid st = Some None"
  | (found) a s as where "GetClientSubClientSID (ClientSubList st h) cid st = Some (Some a)" "client_list st h as" "a \<in> set as"
      "client_subs st a = Some s" "cs_SID s = cid" "renewal_id (cp_timer st) (cs_RenewEventId s)"
proof -
  obtain as where l: "client_list st h as"
    using client_has_list [OF assms] .
  then have g: "GetClientSubClientSID (ClientSubList st h) cid st = Some (find (\<lambda>a. cs_SID (sub_of st a) = cid) as)"
    by (simp add: client_list_def find_by_sid)
  show thesis
  proof (cases "find (\<lambda>a. cs_SID (sub_of st a) = cid) as")
    case None
    then show ?thesis using g absent by simp
  next
    case (Some a)
    then have a: "a \<in> set as" "cs_SID (sub_of st a) = cid"
      by (auto simp: find_Some_iff)
    then obtain s where s: "client_subs st a = Some s"
      using l sub_chain_live by (fastforce simp: client_list_def)
    then have "cs_SID s = cid" "renewal_id (cp_timer st) (cs_RenewEventId s)"
      using a(2) assms(1) by (auto simp: sub_of_def client_inv_def cells_ok_def)
    then show ?thesis
      using found g Some l a(1) s by simp
  qed
qed

lemma client_inv_held: "client_inv due held st \<Longrightarrow> c \<in> set held \<Longrightarrow> renewal_id (cp_timer st) (cs_RenewEventId c)"
  by (simp add: client_inv_def)

lemma client_inv_more:
  "client_inv due held st \<Longrightarrow> renewal_id (cp_timer st) (cs_RenewEventId c) \<Longrightarrow> client_inv due (c # held) st"
  by (simp add: client_inv_def)

lemma client_inv_less: "client_inv due held st \<Longrightarrow> set held1 \<subseteq> set held \<Longrightarrow> client_inv due held1 st"
  by (auto simp: client_inv_def)

lemma timer_moves_step:
  assumes "client_inv due held st" and "timer_moves due st st1"
  shows "client_inv due held st1" "same_table st st1" "is_client h st1 = is_client h st" "client_subs st1 = client_subs st"
  using timer_moves_inv [OF assms] timer_moves_fields [OF assms(2)] by auto

lemma renew_begin_section: "client_section (renew_begin h cid) (\<lambda>held. True) given_copy"
proof
  fix due held st assume inv: "client_inv due held st"
  then have ok: "renewals_ok due st" by (simp add: client_inv_def)
  show "\<exists>st1 r. renew_begin h cid st = Some (st1, r) \<and> client_inv due (given_copy r @ held) st1 \<and> same_table st st1"
  proof (cases "is_client h st")
    case True
    from inv True show ?thesis
    proof (cases rule: found_cell [where cid = cid])
      case absent
      then show ?thesis
        using True inv by (simp add: renew_begin_def)
    next
      case (found a s as)
      obtain st1 where r: "remove_renewal (cs_RenewEventId s) st = Some st1" "timer_moves due st st1"
        using remove_renewal_ok [OF ok found(6)] by blast
      note m = timer_moves_step [OF inv r(2)]
      have k: "renewal_id (cp_timer st1) (- 1)"
        using timer_moves_ok [OF r(2)] by simp
      have "client_inv due held (put_client_sub a (Some (s\<lparr>cs_RenewEventId := - 1\<rparr>)) st1)"
        and t: "same_table st1 (put_client_sub a (Some (s\<lparr>cs_RenewEventId := - 1\<rparr>)) st1)"
        using touch_cell [OF m(1), of a s "s\<lparr>cs_RenewEventId := - 1\<rparr>"] found(4) k by (simp_all add: m(4))
      then have "client_inv due (s\<lparr>cs_RenewEventId := - 1\<rparr> # held) (put_client_sub a (Some (s\<lparr>cs_RenewEventId := - 1\<rparr>)) st1)"
        using k by (intro client_inv_more) (simp_all add: put_client_sub_def)
      then show ?thesis
        using found r(1) True same_table_trans [OF m(2) t] by (simp add: renew_begin_def Let_def)
    qed
  qed (use inv in \<open>simp add: renew_begin_def\<close>)
qed

text \<open>Scheduling a renewal; with memory it succeeds.\<close>

lemma schedule_memory:
  assumes "TimerThreadSchedule now ms timer seconds ty j d = (ms1, t, k, rc)" and "ms = []"
  shows "rc = 0"
proof -
  obtain n1 n2 where n: "pool_alloc [] (freeEvents timer) = ([], n1, True)" "pool_alloc [] (queue_nodes timer) = ([], n2, True)"
    using alloc_taken by blast
  show ?thesis
    using assms by (simp add: TimerThreadSchedule_def CreateTimerEvent_def n Let_def)
qed

lemma out_of_memory_codes [simp]: "EOUTOFMEM \<noteq> UPNP_E_SUCCESS" "UPNP_E_OUTOF_MEMORY \<noteq> UPNP_E_SUCCESS" "GENA_SUCCESS = UPNP_E_SUCCESS"
  by (simp_all add: EOUTOFMEM_def UPNP_E_SUCCESS_def UPNP_E_OUTOF_MEMORY_def GENA_SUCCESS_def bit29_of_def)

lemma add_renewal:
  assumes ok: "renewals_ok due st" and s: "TimerThreadSchedule now ms (cp_timer st) seconds REL_SEC (renew_job (renew_fresh st)) SHORT_TERM = (ms1, t, k, rc)"
  shows "rc \<noteq> UPNP_E_SUCCESS \<Longrightarrow> timer_moves due st (st\<lparr>cp_timer := t, renew_fresh := Suc (renew_fresh st)\<rparr>)"
    and "rc = UPNP_E_SUCCESS \<Longrightarrow> timer_moves due st (st\<lparr>cp_timer := t, renew_fresh := Suc (renew_fresh st),
           renew_args := (renew_args st)(renew_fresh st \<mapsto> x)\<rparr>) \<and> renewal_id t k"
proof -
  let ?r = "renew_fresh st"
  have inv: "timer_inv t"
    using schedule_inv [OF s] ok by (simp add: renewals_ok_def)
  note old = ok [unfolded renewals_ok_def]
  show "timer_moves due st (st\<lparr>cp_timer := t, renew_fresh := Suc ?r\<rparr>)" if "rc \<noteq> UPNP_E_SUCCESS"
    using s
  proof (cases rule: TimerThreadSchedule_cases)
    case failed
    have "dom (renew_args st) \<subseteq> {..<Suc ?r}"
      using old by (meson lessThan_iff less_Suc_eq subset_iff)
    then have "renewals_ok due (st\<lparr>cp_timer := t, renew_fresh := Suc ?r\<rparr>)"
      using old inv failed by (simp add: renewals_ok_def renewal_args_def)
    then show ?thesis
      using failed unfolding timer_moves_def
      by (intro conjI exI [of _ t] exI [of _ "renew_args st"] exI [of _ "Suc ?r"]) (simp_all add: renewal_id_def)
  qed (use that in \<open>simp add: UPNP_E_SUCCESS_def\<close>)
  show "timer_moves due st (st\<lparr>cp_timer := t, renew_fresh := Suc ?r, renew_args := (renew_args st)(?r \<mapsto> x)\<rparr>) \<and> renewal_id t k"
    if "rc = UPNP_E_SUCCESS"
    using s
  proof (cases rule: TimerThreadSchedule_cases)
    case added
    let ?e = "\<lparr>job = renew_job ?r, eventTime = CalculateEventTime now seconds REL_SEC, persistent = SHORT_TERM, event_id = lastEventId (cp_timer st)\<rparr>"
      and ?st1 = "st\<lparr>cp_timer := t, renew_fresh := Suc ?r, renew_args := (renew_args st)(?r \<mapsto> x)\<rparr>"
    have "mset (renewal_args ?st1 @ due) = mset (?r # renewal_args st @ due)"
      by (simp add: renewal_args_def added(5) image_mset_filter_mset_swap mset_map mset_filter)
    then have perm: "distinct (renewal_args ?st1 @ due) = distinct (?r # renewal_args st @ due)"
      "set (renewal_args ?st1 @ due) = set (?r # renewal_args st @ due)"
      by (rule mset_eq_imp_distinct_iff, rule mset_eq_setD)
    have r: "?r \<notin> set (renewal_args st @ due)"
      using old by (meson lessThan_iff less_irrefl subset_iff)
    have "renewals_ok due ?st1"
      unfolding renewals_ok_def perm
    proof (intro conjI)
      show "distinct (?r # renewal_args st @ due)" "set (?r # renewal_args st @ due) \<subseteq> dom (renew_args ?st1)"
        using r old by (auto simp: subset_iff)
      show "dom (renew_args ?st1) \<subseteq> {..<renew_fresh ?st1}"
        using old by (auto simp: subset_iff less_Suc_eq)
    qed (use old inv added in auto)
    moreover have "renewal_id t k" "\<forall>j. renewal_id (cp_timer st) j \<longrightarrow> renewal_id t j"
      using added old by (auto simp: renewal_id_def timer_inv_def)
    ultimately show ?thesis
      unfolding timer_moves_def
      by (intro conjI exI [of _ t] exI [of _ "(renew_args st)(?r \<mapsto> x)"] exI [of _ "Suc ?r"]) simp_all
  qed (use that out_of_memory_codes(1) in metis)
qed

lemma ScheduleGenaAutoRenew_ok:
  assumes inv: "client_inv due held st" and c: "client_subs st a = Some s"
  shows "\<exists>st1 rc. ScheduleGenaAutoRenew e h T a st = Some (st1, rc) \<and> client_inv due held st1 \<and> same_table st st1 \<and>
    (\<forall>g bs. client_list st1 g bs = client_list st g bs) \<and> (\<exists>k. client_subs st1 a = Some (s\<lparr>cs_RenewEventId := k\<rparr>)) \<and>
    (re_event e \<and> re_arg e \<and> re_ms e = [] \<longrightarrow> rc = UPNP_E_SUCCESS)"
proof (cases "T = UPNP_INFINITE \<or> \<not> re_event e \<or> \<not> re_arg e")
  case True
  then show ?thesis
    using inv c by (auto simp: ScheduleGenaAutoRenew_def intro: exI [of _ "cs_RenewEventId s"])
next
  case False
  have ok: "renewals_ok due st"
    using inv by (simp add: client_inv_def)
  obtain ms t k rc where s: "TimerThreadSchedule (re_now e) (re_ms e) (cp_timer st) (T - AUTO_RENEW_TIME) REL_SEC (renew_job (renew_fresh st)) SHORT_TERM =
      (ms, t, k, rc)"
    by (metis prod_cases4)
  note add = add_renewal [OF ok s]
  show ?thesis
  proof (cases "rc = UPNP_E_SUCCESS")
    case success: True
    define x where "x = \<lparr>ja_handle = h, ja_eventId = k, ja_event = \<lparr>es_SID = cs_SID s, es_ErrCode = UPNP_E_SUCCESS,
      es_PublisherUrl = cs_EventURL s, es_TimeOut = T\<rparr>\<rparr>"
    define st1 where "st1 = st\<lparr>cp_timer := t, renew_fresh := Suc (renew_fresh st), renew_args := (renew_args st)(renew_fresh st \<mapsto> x)\<rparr>"
    have m: "timer_moves due st st1" "renewal_id (cp_timer st1) k"
      using add(2) [OF success, of x] by (simp_all add: st1_def)
    have r: "ScheduleGenaAutoRenew e h T a st = Some (put_client_sub a (Some (s\<lparr>cs_RenewEventId := k\<rparr>)) st1, UPNP_E_SUCCESS)"
      using False s c success by (simp add: ScheduleGenaAutoRenew_def Let_def st1_def x_def)
    have c1: "client_subs st1 a = Some s"
      using c by (simp add: st1_def)
    note touch = touch_cell [OF timer_moves_step(1) [OF inv m(1)] c1, of "s\<lparr>cs_RenewEventId := k\<rparr>"]
    have "\<forall>g bs. client_list st1 g bs = client_list st g bs"
      by (simp add: client_list_def st1_def)
    then show ?thesis
      using r touch m(2) timer_moves_step(2) [OF inv m(1)] by (auto simp: put_client_sub_def intro: same_table_trans)
  next
    case failure: False
    have r: "ScheduleGenaAutoRenew e h T a st = Some (st\<lparr>cp_timer := t, renew_fresh := Suc (renew_fresh st)\<rparr>, rc)"
      using False s c failure by (simp add: ScheduleGenaAutoRenew_def Let_def)
    note m = add(1) [OF failure]
    have "rc = UPNP_E_SUCCESS" if "re_ms e = []"
      using schedule_memory [OF s that] by (simp add: UPNP_E_SUCCESS_def)
    then show ?thesis
      using r c timer_moves_step(1,2) [OF inv m] by (auto simp: client_list_def intro: exI [of _ "cs_RenewEventId s"])
  qed
qed

definition renew_memory :: "int \<Rightarrow> renew_env" where
  "renew_memory now = \<lparr>re_event = True, re_arg = True, re_now = now, re_ms = []\<rparr>"

lemma subscribe_end_section:
  assumes "re_event e" and "re_arg e" and "re_ms e = []"
  shows "client_section (subscribe_end e h url T rc actual uuid mem) (\<lambda>held. True) no_copy"
proof
  fix due held st assume inv: "client_inv due held st"
  then have "renewals_ok due st" by (simp add: client_inv_def)
  then have k: "renewal_id (cp_timer st) (- 1)" by simp
  show "\<exists>st1 r. subscribe_end e h url T rc actual uuid mem st = Some (st1, r) \<and> client_inv due (no_copy r @ held) st1 \<and> same_table st st1"
  proof (cases "rc \<noteq> UPNP_E_SUCCESS \<or> \<not> is_client h st \<or> UPNP_SID_ARRAY \<le> length (''uuid:'' @ uuid) \<or> \<not> mem")
    case True
    then show ?thesis
      using inv by (auto simp: subscribe_end_def Let_def)
  next
    case False
    define s where "s = \<lparr>cs_RenewEventId = - 1, cs_SID = ''uuid:'' @ uuid, cs_ActualSID = actual, cs_EventURL = url, cs_Next = ClientSubList st h\<rparr>"
    define st0 where "st0 = set_head h (Some (sub_fresh st)) (put_client_sub (sub_fresh st) (Some s) (st\<lparr>sub_fresh := Suc (sub_fresh st)\<rparr>))"
    have g: "client_inv due held st0" "same_table st st0" "client_subs st0 (sub_fresh st) = Some s"
      using grow_list [OF inv, of h s] False k by (simp_all add: st0_def s_def)
    obtain st1 where r: "ScheduleGenaAutoRenew e h T (sub_fresh st) st0 = Some (st1, UPNP_E_SUCCESS)" "client_inv due held st1" "same_table st0 st1"
      using ScheduleGenaAutoRenew_ok [OF g(1,3), of e h T] assms by auto
    then have "subscribe_end e h url T rc actual uuid mem st = Some (st1, UPNP_E_SUCCESS, ''uuid:'' @ uuid)"
      using False by (simp add: subscribe_end_def Let_def st0_def s_def)
    then show ?thesis
      using r(2) same_table_trans [OF g(2) r(3)] by simp
  qed
qed

lemma unsubscribe_begin_section: "client_section (unsubscribe_begin h cid) (\<lambda>held. True) given_copy"
proof
  fix due held st assume inv: "client_inv due held st"
  show "\<exists>st1 r. unsubscribe_begin h cid st = Some (st1, r) \<and> client_inv due (given_copy r @ held) st1 \<and> same_table st st1"
  proof (cases "is_client h st")
    case True
    from inv True show ?thesis
      by (cases rule: found_cell [where cid = cid]) (use True inv client_inv_more in \<open>auto simp: unsubscribe_begin_def\<close>)
  qed (use inv in \<open>simp add: unsubscribe_begin_def\<close>)
qed

lemma unsubscribe_end_section: "client_section (unsubscribe_end h cid) (\<lambda>held. True) no_copy"
proof
  fix due held st assume inv: "client_inv due held st"
  show "\<exists>st1 r. unsubscribe_end h cid st = Some (st1, r) \<and> client_inv due (no_copy r @ held) st1 \<and> same_table st st1"
  proof (cases "is_client h st")
    case True
    then obtain as where "client_list st h as"
      using client_has_list inv by blast
    then show ?thesis
      using RemoveClientSubClientSID_ok [OF inv, of h as cid] True by (auto simp: unsubscribe_end_def)
  qed (use inv in \<open>simp add: unsubscribe_end_def\<close>)
qed

lemma unregister_turn_section: "client_section (unregister_turn h) (\<lambda>held. True) given_copy"
proof
  fix due held st assume inv: "client_inv due held st"
  show "\<exists>st1 r. unregister_turn h st = Some (st1, r) \<and> client_inv due (given_copy r @ held) st1 \<and> same_table st st1"
  proof (cases "is_client h st \<and> ClientSubList st h \<noteq> None")
    case True
    then obtain as where l: "client_list st h as"
      using client_has_list inv by blast
    then obtain a s where a: "ClientSubList st h = Some a" "client_subs st a = Some s"
      using True by (cases as) (auto simp: client_list_def)
    then have "renewal_id (cp_timer st) (cs_RenewEventId s)"
      using inv by (simp add: client_inv_def cells_ok_def)
    then show ?thesis
      using RemoveClientSubClientSID_ok [OF client_inv_more [OF inv] l, of s "cs_SID s"] True a by (auto simp: unregister_turn_def)
  qed (use inv in \<open>auto simp: unregister_turn_def\<close>)
qed

text \<open>The end of a renewal needs the copy that its first section gave.\<close>

lemma free_copy:
  assumes inv: "client_inv due held st" and "c \<in> set held"
  shows "\<exists>s st1. free_client_subscription c st = Some (s, st1) \<and> client_inv due held st1 \<and> same_table st st1"
proof -
  have "renewals_ok due st" "renewal_id (cp_timer st) (cs_RenewEventId c)"
    using assms by (auto simp: client_inv_def)
  from free_client_subscription_ok [OF this] show ?thesis
    using timer_moves_step [OF inv] by blast
qed

lemma renew_end_section: "client_section (renew_end e h cid T rc actual copy) (\<lambda>held. copy \<in> set held) no_copy"
proof
  fix due held st assume inv: "client_inv due held st" and c: "copy \<in> set held"
  have free: "\<exists>st2 r. do { (s, st1) \<leftarrow> free_client_subscription copy st0; Some (st1, rc0) } = Some (st2, r) \<and> client_inv due held st2 \<and> same_table st st2"
    if "client_inv due held st0" "same_table st st0" for st0 rc0
    using free_copy [OF that(1) c] same_table_trans [OF that(2)] by (auto simp: Option.bind_eq_Some_conv)
  show "\<exists>st1 r. renew_end e h cid T rc actual copy st = Some (st1, r) \<and> client_inv due (no_copy r @ held) st1 \<and> same_table st st1"
  proof (cases "is_client h st")
    case client: True
    obtain as where l: "client_list st h as"
      using client_has_list inv client by blast
    show ?thesis
    proof (cases "rc = UPNP_E_SUCCESS")
      case False
      obtain st1 where "RemoveClientSubClientSID h cid st = Some st1" "client_inv due held st1" "same_table st st1"
        using RemoveClientSubClientSID_ok [OF inv l] by blast
      then show ?thesis
        using free [of st1 rc] client False by (simp add: renew_end_def)
    next
      case True
      from inv client show ?thesis
      proof (cases rule: found_cell [where cid = cid])
        case absent
        then show ?thesis
          using free [OF inv] client True by (simp add: renew_end_def)
      next
        case (found a s bs)
        let ?s = "s\<lparr>cs_ActualSID := actual\<rparr>" let ?st0 = "put_client_sub a (Some ?s) st"
        have t: "client_inv due held ?st0" "same_table st ?st0" "client_list ?st0 h bs" "client_subs ?st0 a = Some ?s"
          using touch_cell [OF inv found(4), of ?s] found by (simp_all add: put_client_sub_def)
        obtain st1 rc1 where r: "ScheduleGenaAutoRenew e h T a ?st0 = Some (st1, rc1)" "client_inv due held st1" "same_table ?st0 st1" "client_list st1 h bs"
          using ScheduleGenaAutoRenew_ok [OF t(1,4), of e h T] t(3) by auto
        obtain st2 where r2: "(if rc1 \<noteq> UPNP_E_SUCCESS then RemoveClientSubClientSID h (cs_SID s) st1 else Some st1) = Some st2"
            "client_inv due held st2" "same_table st1 st2"
          using RemoveClientSubClientSID_ok [OF r(2,4), of "cs_SID s"] r(2) by (cases "rc1 = UPNP_E_SUCCESS") auto
        have "same_table st st2"
          using t(2) r(3) r2(3) same_table_trans by blast
        from free [OF r2(2) this, of rc1] show ?thesis
          using client True found(1,4) r(1) r2(1) by (simp add: renew_end_def)
      qed
    qed
  qed (use inv in \<open>simp add: renew_end_def\<close>)
qed

interpretation renew_first: client_section "renew_begin h cid" "\<lambda>held. True" given_copy for h cid
  by (rule renew_begin_section)

interpretation subscribe_last: client_section "subscribe_end (renew_memory now) h url T rc actual uuid mem" "\<lambda>held. True" no_copy
    for now h url T rc actual uuid mem
  by (rule subscribe_end_section) (simp_all add: renew_memory_def)

interpretation renew_last: client_section "renew_end e h cid T rc actual copy" "\<lambda>held. copy \<in> set held" no_copy for e h cid T rc actual copy
  by (rule renew_end_section)

interpretation unsubscribe_first: client_section "unsubscribe_begin h cid" "\<lambda>held. True" given_copy for h cid
  by (rule unsubscribe_begin_section)

interpretation unsubscribe_last: client_section "unsubscribe_end h cid" "\<lambda>held. True" no_copy for h cid
  by (rule unsubscribe_end_section)

interpretation unregister_one: client_section "unregister_turn h" "\<lambda>held. True" given_copy for h
  by (rule unregister_turn_section)

end
