(* ===== verification/ClientSystem.thy ===== *)
theory ClientSystem
  imports ClientSections
begin

text \<open>
  Control points, their subscriptions and the timer together: the states that are reached by subscribing, renewing, unsubscribing, by clients that
  come and go, by the timer and its jobs, in any order of the sections. A new subscription gets the memory it needs; renewals may fail. What
  happens to a new subscription without memory is a property of its own.
\<close>

section \<open>The system\<close>

text \<open>The state, the arguments of the renewal jobs that the pool was given and that have not ended, and the copies that calls hold.\<close>

type_synonym client_system = "gena_cp \<times> nat list \<times> GenlibClientSubscription list"

definition client_start :: "gena_cp \<Rightarrow> bool" where
  "client_start st \<longleftrightarrow> \<not> GlobalHndRWLock st \<and> length (HandleTable st) = nat NUM_HANDLE \<and> (\<forall>h. is_client h st \<longrightarrow> ClientSubList st h = None) \<and>
     eventQ (cp_timer st) = [] \<and> 0 \<le> lastEventId (cp_timer st) \<and> client_subs st = Map.empty \<and> renew_args st = Map.empty"

inductive client_step :: "client_system \<Rightarrow> client_system \<Rightarrow> bool" where
  subscribed: "locked (subscribe_end (renew_memory now) h url T rc actual uuid mem) st = Some (st1, r) \<Longrightarrow>
    client_step (st, due, held) (st1, due, held)"
| renewing: "locked (renew_begin h cid) st = Some (st1, r) \<Longrightarrow> client_step (st, due, held) (st1, due, given_copy r @ held)"
| renewed: "copy \<in> set held \<Longrightarrow> locked (renew_end e h cid T rc actual copy) st = Some (st1, rc1) \<Longrightarrow>
    client_step (st, due, held) (st1, due, remove1 copy held)"
| unsubscribing: "locked (unsubscribe_begin h cid) st = Some (st1, r) \<Longrightarrow> client_step (st, due, held) (st1, due, given_copy r @ held)"
| copy_freed: "copy \<in> set held \<Longrightarrow> free_client_subscription copy st = Some (s, st1) \<Longrightarrow>
    client_step (st, due, held) (st1, due, remove1 copy held)"
| unsubscribed: "locked (unsubscribe_end h cid) st = Some (st1, rc) \<Longrightarrow> client_step (st, due, held) (st1, due, held)"
| unregistering: "locked (unregister_turn h) st = Some (st1, r) \<Longrightarrow> client_step (st, due, held) (st1, due, given_copy r @ held)"
| registered: "register_subscriber mem junk f cookie have st = Some (st1, rc, hnd) \<Longrightarrow> client_step (st, due, held) (st1, due, held)"
| unregistered: "UpnpUnRegisterClient gena (\<lambda>s. s) h st = Some (st1, rc) \<Longrightarrow> client_step (st, due, held) (st1, due, held)"
| scheduled: "TimerThreadSchedule now ms (cp_timer st) seconds ty j d = (ms1, timer, k, rc) \<Longrightarrow> func j \<noteq> renew_code \<Longrightarrow>
    client_step (st, due, held) (st\<lparr>cp_timer := timer\<rparr>, due, held)"
| fired: "eventQ (cp_timer st) = e # es \<Longrightarrow>
    client_step (st, due, held) (st\<lparr>cp_timer := FreeTimerEvent (del_event (cp_timer st) 0)\<rparr>,
      if func (job e) = renew_code then due @ [arg (job e)] else due, held)"
| noted: "a \<in> set due \<Longrightarrow> renew_args st a = Some x \<Longrightarrow>
    client_step (st, due, held) (st\<lparr>renew_args := (renew_args st)(a \<mapsto> x\<lparr>ja_event := ev\<rparr>)\<rparr>, due, held)"
| ended: "a \<in> set due \<Longrightarrow> free_subscribe_arg a st = Some st1 \<Longrightarrow> client_step (st, due, held) (st1, remove1 a due, held)"

inductive client_reachable :: "client_system \<Rightarrow> bool" where
  start: "client_start st \<Longrightarrow> client_reachable (st, [], [])"
| step: "client_reachable s \<Longrightarrow> client_step s s1 \<Longrightarrow> client_reachable s1"

definition client_ok :: "client_system \<Rightarrow> bool" where
  "client_ok s \<longleftrightarrow> (case s of (st, due, held) \<Rightarrow>
     client_inv due held st \<and> \<not> GlobalHndRWLock st \<and> length (HandleTable st) = nat NUM_HANDLE)"

section \<open>The invariant is kept\<close>

lemma client_ok_same:
  "client_ok (st, due, held) \<Longrightarrow> client_inv due1 held1 st1 \<Longrightarrow> same_table st st1 \<Longrightarrow> client_ok (st1, due1, held1)"
  by (simp add: client_ok_def same_table_def)

lemma client_ok_parts:
  assumes "client_ok (st, due, held)"
  shows "client_inv due held st" "\<not> GlobalHndRWLock st" "length (HandleTable st) = nat NUM_HANDLE" "renewals_ok due st"
  using assms by (simp_all add: client_ok_def client_inv_def)

text \<open>A change of the table at one handle, whose list is then empty or which is no client.\<close>

lemma table_client_inv:
  assumes inv: "client_inv due held st" and i: "\<And>g. g \<noteq> h \<Longrightarrow> is_client g st1 = is_client g st" and "is_client h st1 \<Longrightarrow> ClientSubList st1 h = None"
    and f: "cp_timer st1 = cp_timer st" "renew_args st1 = renew_args st" "renew_fresh st1 = renew_fresh st" "client_subs st1 = client_subs st"
      "sub_fresh st1 = sub_fresh st" "\<And>g. g \<noteq> h \<Longrightarrow> ClientSubList st1 g = ClientSubList st g"
  shows "client_inv due held st1"
proof -
  have other: "client_list st1 g bs = client_list st g bs" if "g \<noteq> h" for g bs
    using i [OF that] f that by (simp add: client_list_def)
  have own: "client_list st1 h bs \<longleftrightarrow> is_client h st1 \<and> bs = []" for bs
    using assms(3) f(4) by (cases bs) (auto simp: client_list_def)
  have "lists_apart st" "renewals_ok due st" "cells_ok st"
    using inv by (simp_all add: client_inv_def)
  then have "lists_apart st1"
    unfolding lists_apart_def using i own other by (metis Int_empty_left Int_empty_right empty_set)
  then show ?thesis
    using inv by (simp add: client_inv_def renewals_ok_def renewal_args_def cells_ok_def f)
qed

lemma register_changes:
  assumes r: "UpnpRegisterClient mem junk f cookie have (st :: gena_cp) = Some (st1, rc, hnd)" and l: "\<not> GlobalHndRWLock st"
  shows "st1 = st \<and> rc \<noteq> UPNP_E_SUCCESS \<or> rc = UPNP_E_SUCCESS \<and> (\<exists>h x n. hnd = Some h \<and> 0 \<le> h \<and>
    st1 = st\<lparr>HandleTable := (HandleTable st)[nat h := Some x], UpnpSdkClientRegistered := n\<rparr>)"
proof -
  define st0 where "st0 = st\<lparr>GlobalHndRWLock := True\<rparr>"
  have "st\<lparr>GlobalHndRWLock := False\<rparr> = st"
    using l by (cases st) simp
  then have lk: "HandleLock st = Some st0" "HandleUnlock st0 = Some st"
    using l by (simp_all add: st0_def HandleLock_def HandleUnlock_def)
  have h: "0 \<le> GetFreeHandle st0" if "GetFreeHandle st0 \<noteq> UPNP_E_OUTOF_HANDLE"
    using that free_from_bounds [of 1 "drop 1 (take (nat NUM_HANDLE) (HandleTable st0))"] by (simp add: GetFreeHandle_def Let_def split: if_splits)
  note errors = UPNP_E_FINISH_def UPNP_E_INVALID_PARAM_def UPNP_E_ALREADY_REGISTERED_def UPNP_E_OUTOF_MEMORY_def UPNP_E_SUCCESS_def
  show ?thesis
  proof (cases "rc = UPNP_E_SUCCESS")
    case True
    then obtain x where x: "GetFreeHandle st0 \<noteq> UPNP_E_OUTOF_HANDLE" "hnd = Some (GetFreeHandle st0)"
      "HandleUnlock ((set_slot (GetFreeHandle st0) (Some x) st0)\<lparr>UpnpSdkClientRegistered := UpnpSdkClientRegistered st0 + 1\<rparr>) = Some st1"
      using r lk(1)
      by (auto simp: UpnpRegisterClient_def Let_def set_slot_def errors split: option.splits if_splits)
    then have "st1 = st\<lparr>HandleTable := (HandleTable st)[nat (GetFreeHandle st0) := Some x], UpnpSdkClientRegistered := UpnpSdkClientRegistered st + 1\<rparr>"
      using l by (cases st) (simp add: HandleUnlock_def set_slot_def st0_def)
    then show ?thesis
      using True x(2) h [OF x(1)] by blast
  next
    case False
    then have "st1 = st"
      using r lk by (auto simp: UpnpRegisterClient_def Let_def errors split: option.splits if_splits)
    then show ?thesis
      using False by simp
  qed
qed

lemma register_client_ok:
  assumes ok: "client_ok (st, due, held)" and r: "register_subscriber mem junk f cookie have st = Some (st1, rc, hnd)"
  shows "client_ok (st1, due, held)"
proof -
  note p = client_ok_parts [OF ok]
  obtain st2 where s: "UpnpRegisterClient mem junk f cookie have st = Some (st2, rc, hnd)"
    "st1 = (if rc = UPNP_E_SUCCESS then set_head (the hnd) None (st2\<lparr>SsdpSearchList := (SsdpSearchList st2)(the hnd := [])\<rparr>) else st2)"
    using r by (auto simp: register_subscriber_def register_client_def)
  from register_changes [OF s(1) p(2)] show ?thesis
  proof (elim disjE conjE exE)
    fix h x n assume c: "rc = UPNP_E_SUCCESS" "hnd = Some h" "0 \<le> h"
      "st2 = st\<lparr>HandleTable := (HandleTable st)[nat h := Some x], UpnpSdkClientRegistered := n\<rparr>"
    then have t: "HandleTable st1 = (HandleTable st)[nat h := Some x]"
      using s(2) by (simp add: set_head_def)
    have "is_client g st1 = is_client g st" if "g \<noteq> h" for g
      using table_info [OF t c(3) that] by (simp add: is_client_def)
    then have "client_inv due held st1"
      by (rule table_client_inv [OF p(1), of h]) (use s(2) c in \<open>simp_all add: set_head_def\<close>)
    then show ?thesis
      using p s(2) c by (simp add: client_ok_def set_head_def)
  qed (use ok s(2) in simp)
qed

lemma unregister_changes:
  assumes r: "UpnpUnRegisterClient gena (\<lambda>s. s) h (st :: gena_cp) = Some (st1, rc)" and l: "\<not> GlobalHndRWLock st"
  shows "st1 = st \<or> (0 \<le> h \<and> (\<exists>n. st1 = st\<lparr>HandleTable := (HandleTable st)[nat h := None], SsdpSearchList := (SsdpSearchList st)(h := []),
    UpnpSdkClientRegistered := n\<rparr>))"
proof -
  define st0 where "st0 = st\<lparr>GlobalHndRWLock := True\<rparr>"
  have "st\<lparr>GlobalHndRWLock := False\<rparr> = st"
    using l by (cases st) simp
  then have lk: "HandleLock st = Some st0" "HandleUnlock st0 = Some st"
    using l by (simp_all add: st0_def HandleLock_def HandleUnlock_def)
  have i: "GetHandleInfo h st0 = GetHandleInfo h st" and f0: "HandleTable st0 = HandleTable st"
    by (simp_all add: st0_def GetHandleInfo_def slot_def)
  show ?thesis
  proof (cases "fst (GetHandleInfo h st) = HND_INVALID \<or> UpnpSdkInit st \<noteq> 1 \<or> UpnpSdkClientRegistered st0 = 0 \<or> gena \<noteq> UPNP_E_SUCCESS")
    case True
    then show ?thesis
      using r lk i by (auto simp: UpnpUnRegisterClient_def split: if_splits prod.splits Upnp_Handle_Type.splits)
  next
    case False
    then obtain x where x: "slot h st = Some x"
      by (auto simp: GetHandleInfo_def split: option.splits)
    then have h: "1 \<le> h" "h < NUM_HANDLE" "HandleTable st ! nat h \<noteq> None"
      by (auto simp: slot_def split: if_splits)
    obtain ty y where g: "GetHandleInfo h st = (ty, y)" "ty \<noteq> HND_INVALID"
      using False by (cases "GetHandleInfo h st") auto
    define st4 where "st4 = fst (FreeHandle h (st0\<lparr>SsdpSearchList := (SsdpSearchList st0)(h := [])\<rparr>))"
    have u: "HandleUnlock (st4\<lparr>UpnpSdkClientRegistered := UpnpSdkClientRegistered st4 - 1\<rparr>) = Some st1"
      using r lk i False g by (cases ty) (auto simp: UpnpUnRegisterClient_def Let_def st4_def)
    have "st4 = st0\<lparr>SsdpSearchList := (SsdpSearchList st)(h := []), HandleTable := (HandleTable st)[nat h := None]\<rparr>"
      using h by (auto simp: st4_def FreeHandle_def set_slot_def f0) (auto simp: st0_def)
    then have "st1 = st\<lparr>HandleTable := (HandleTable st)[nat h := None], SsdpSearchList := (SsdpSearchList st)(h := []),
        UpnpSdkClientRegistered := UpnpSdkClientRegistered st - 1\<rparr>"
      using u l by (cases st) (simp add: HandleUnlock_def st0_def)
    then show ?thesis
      using h(1) by auto
  qed
qed

lemma unregister_client_ok:
  assumes ok: "client_ok (st, due, held)" and r: "UpnpUnRegisterClient gena (\<lambda>s. s) h st = Some (st1, rc)"
  shows "client_ok (st1, due, held)"
proof -
  note p = client_ok_parts [OF ok]
  from unregister_changes [OF r p(2)] show ?thesis
  proof (elim disjE conjE exE)
    fix n assume c: "0 \<le> h" "st1 = st\<lparr>HandleTable := (HandleTable st)[nat h := None], SsdpSearchList := (SsdpSearchList st)(h := []),
      UpnpSdkClientRegistered := n\<rparr>"
    then have t: "HandleTable st1 = (HandleTable st)[nat h := None]" by simp
    have "is_client g st1 = is_client g st" if "g \<noteq> h" for g
      using table_info [OF t c(1) that] by (simp add: is_client_def)
    moreover have "\<not> is_client h st1"
      using c p(3) by (auto simp: is_client_def GetHandleInfo_def slot_def NUM_HANDLE_def split: option.splits if_splits)
    ultimately have "client_inv due held st1"
      by (intro table_client_inv [OF p(1), of h]) (use c(2) in simp_all)
    then show ?thesis
      using p c(2) by (simp add: client_ok_def)
  qed (use ok in simp)
qed

section \<open>Timer and jobs\<close>

text \<open>Only the timer and the arguments of the renewals change.\<close>

lemma client_ok_timer:
  assumes ok: "client_ok (st, due, held)" and "renewals_ok due1 (st\<lparr>cp_timer := t, renew_args := r\<rparr>)"
    and "\<And>k. renewal_id (cp_timer st) k \<Longrightarrow> renewal_id t k"
  shows "client_ok (st\<lparr>cp_timer := t, renew_args := r\<rparr>, due1, held)"
proof -
  have "lists_apart (st\<lparr>cp_timer := t, renew_args := r\<rparr>) = lists_apart st"
    by (simp add: lists_apart_def client_list_def)
  then show ?thesis
    using assms by (simp add: client_ok_def client_inv_def cells_ok_def)
qed

lemma other_event_ok:
  assumes ok: "client_ok (st, due, held)" and s: "TimerThreadSchedule now ms (cp_timer st) seconds ty j d = (ms1, t, k, rc)" and j: "func j \<noteq> renew_code"
  shows "client_ok (st\<lparr>cp_timer := t\<rparr>, due, held)"
proof -
  note old = client_ok_parts(4) [OF ok, unfolded renewals_ok_def]
  have inv: "timer_inv t"
    using schedule_inv [OF s] old by simp
  from s have r: "renewals_ok due (st\<lparr>cp_timer := t, renew_args := renew_args st\<rparr>) \<and> (\<forall>k. renewal_id (cp_timer st) k \<longrightarrow> renewal_id t k)"
  proof (cases rule: TimerThreadSchedule_cases)
    case added
    let ?st1 = "st\<lparr>cp_timer := t, renew_args := renew_args st\<rparr>"
    have "mset (renewal_args ?st1) = mset (renewal_args st)"
      using j by (simp add: renewal_args_def added(5) mset_map mset_filter)
    then have "mset (renewal_args ?st1 @ due) = mset (renewal_args st @ due)" by simp
    then have "distinct (renewal_args ?st1 @ due) = distinct (renewal_args st @ due)" "set (renewal_args ?st1 @ due) = set (renewal_args st @ due)"
      by (rule mset_eq_imp_distinct_iff, rule mset_eq_setD)
    moreover have "\<forall>e\<in>set (eventQ t). 0 \<le> event_id e" "\<forall>e\<in>set (eventQ t). func (job e) = renew_code \<longrightarrow> free_func (job e) = Some free_subscribe_code"
      "0 \<le> lastEventId t"
      using old added j by auto
    ultimately have "renewals_ok due ?st1"
      using old inv unfolding renewals_ok_def by simp
    then show ?thesis
      using added by (auto simp: renewal_id_def)
  next
    case failed
    then show ?thesis
      using old inv by (simp add: renewals_ok_def renewal_args_def renewal_id_def)
  qed
  from client_ok_timer [OF ok conjunct1 [OF r]] r show ?thesis by simp
qed

lemma fired_ok:
  assumes ok: "client_ok (st, due, held)" and q: "eventQ (cp_timer st) = e # es"
  shows "client_ok (st\<lparr>cp_timer := FreeTimerEvent (del_event (cp_timer st) 0)\<rparr>, if func (job e) = renew_code then due @ [arg (job e)] else due, held)"
    (is "client_ok (st\<lparr>cp_timer := ?t\<rparr>, ?due, held)")
proof -
  note old = client_ok_parts(4) [OF ok, unfolded renewals_ok_def]
  have t: "eventQ ?t = es" "lastEventId ?t = lastEventId (cp_timer st)"
    using q by (simp_all add: FreeTimerEvent_def del_event_def)
  have inv: "timer_inv ?t"
    using old by (intro del_event_inv) simp
  have "mset (renewal_args (st\<lparr>cp_timer := ?t\<rparr>) @ ?due) = mset (renewal_args st @ due)"
    using q t by (simp add: renewal_args_def)
  then have "distinct (renewal_args (st\<lparr>cp_timer := ?t\<rparr>) @ ?due)" "set (renewal_args (st\<lparr>cp_timer := ?t\<rparr>) @ ?due) \<subseteq> dom (renew_args st)"
    using old by (metis mset_eq_imp_distinct_iff, metis mset_eq_setD)
  then have "renewals_ok ?due (st\<lparr>cp_timer := ?t, renew_args := renew_args st\<rparr>)"
    using old inv q t by (simp add: renewals_ok_def del: distinct_append set_append)
  then have "client_ok (st\<lparr>cp_timer := ?t, renew_args := renew_args st\<rparr>, ?due, held)"
    by (rule client_ok_timer [OF ok]) (use q t in \<open>simp add: renewal_id_def\<close>)
  then show ?thesis by simp
qed

lemma noted_ok:
  assumes ok: "client_ok (st, due, held)" and "a \<in> set due"
  shows "client_ok (st\<lparr>renew_args := (renew_args st)(a \<mapsto> x)\<rparr>, due, held)"
proof -
  note old = client_ok_parts(4) [OF ok, unfolded renewals_ok_def]
  have "a \<in> dom (renew_args st)"
    using old assms(2) by (simp add: subset_iff)
  then have "a < renew_fresh st"
    using old by blast
  then have "renewals_ok due (st\<lparr>cp_timer := cp_timer st, renew_args := (renew_args st)(a \<mapsto> x)\<rparr>)"
    using old assms(2) by (auto simp: renewals_ok_def renewal_args_def)
  from client_ok_timer [OF ok this] show ?thesis by simp
qed

lemma ended_ok:
  assumes ok: "client_ok (st, due, held)" and a: "a \<in> set due" and f: "free_subscribe_arg a st = Some st1"
  shows "client_ok (st1, remove1 a due, held)"
proof -
  note old = client_ok_parts(4) [OF ok, unfolded renewals_ok_def]
  have st1: "st1 = st\<lparr>cp_timer := cp_timer st, renew_args := (renew_args st)(a := None)\<rparr>"
    using f by (auto simp: free_subscribe_arg_def split: option.splits)
  have "distinct (renewal_args st @ due)" using old by simp
  then have d: "distinct (renewal_args st @ remove1 a due)" "a \<notin> set (renewal_args st @ remove1 a due)"
    "set (renewal_args st @ remove1 a due) \<subseteq> set (renewal_args st @ due)"
    using a notin_set_remove1 by (auto dest: notin_set_remove1 set_remove1_subset [THEN subsetD])
  have "renewals_ok (remove1 a due) st1"
    unfolding renewals_ok_def
  proof (intro conjI)
    show "distinct (renewal_args st1 @ remove1 a due)" "set (renewal_args st1 @ remove1 a due) \<subseteq> dom (renew_args st1)"
      using d old unfolding st1 by (auto simp: renewal_args_def)
  qed (use old in \<open>auto simp: st1\<close>)
  then show ?thesis
    using client_ok_timer [OF ok] unfolding st1 by blast
qed

section \<open>Every reachable state\<close>

lemma client_ok_section:
  assumes ok: "client_ok (st, due, held)" and c: "client_inv due (new @ held) st1 \<and> same_table st st1"
  shows "client_ok (st1, due, new @ held)"
  using client_ok_same [OF ok] c by blast

lemma client_ok_less:
  "client_ok (st, due, held) \<Longrightarrow> set held1 \<subseteq> set held \<Longrightarrow> client_ok (st, due, held1)"
  by (auto simp: client_ok_def intro: client_inv_less)

lemma client_step_ok:
  assumes "client_step s s1" and "client_ok s"
  shows "client_ok s1"
  using assms
proof (induction rule: client_step.induct)
  case (subscribed now h url T rc actual uuid mem st st1 r due held)
  note p = client_ok_parts [OF subscribed.prems]
  show ?case
    using client_ok_section [OF subscribed.prems subscribe_last.locked_result [OF p(1) TrueI p(2) subscribed.hyps]] by simp
next
  case (renewing h cid st st1 r due held)
  note p = client_ok_parts [OF renewing.prems]
  show ?case
    by (rule client_ok_section [OF renewing.prems renew_first.locked_result [OF p(1) TrueI p(2) renewing.hyps]])
next
  case (renewed copy held e h cid T rc actual st st1 rc1 due)
  note p = client_ok_parts [OF renewed.prems]
  have "client_ok (st1, due, held)"
    using client_ok_section [OF renewed.prems renew_last.locked_result [OF p(1) renewed.hyps(1) p(2) renewed.hyps(2)]] by simp
  then show ?case
    by (rule client_ok_less) (rule set_remove1_subset)
next
  case (unsubscribing h cid st st1 r due held)
  note p = client_ok_parts [OF unsubscribing.prems]
  show ?case
    by (rule client_ok_section [OF unsubscribing.prems unsubscribe_first.locked_result [OF p(1) TrueI p(2) unsubscribing.hyps]])
next
  case (copy_freed copy held st s st1 due)
  note p = client_ok_parts [OF copy_freed.prems]
  have "client_ok (st1, due, held)"
    using free_copy [OF p(1) copy_freed.hyps(1)] copy_freed.hyps(2) client_ok_same [OF copy_freed.prems] by auto
  then show ?case
    by (rule client_ok_less) (rule set_remove1_subset)
next
  case (unsubscribed h cid st st1 rc due held)
  note p = client_ok_parts [OF unsubscribed.prems]
  show ?case
    using client_ok_section [OF unsubscribed.prems unsubscribe_last.locked_result [OF p(1) TrueI p(2) unsubscribed.hyps]] by simp
next
  case (fired st e es due held)
  then show ?case using fired_ok by blast
next
  case (unregistering h st st1 r due held)
  note p = client_ok_parts [OF unregistering.prems]
  show ?case
    by (rule client_ok_section [OF unregistering.prems unregister_one.locked_result [OF p(1) TrueI p(2) unregistering.hyps]])
qed (auto intro: register_client_ok unregister_client_ok other_event_ok noted_ok ended_ok)

lemma client_reachable_ok: "client_reachable s \<Longrightarrow> client_ok s"
proof (induction rule: client_reachable.induct)
  case (start st)
  then have "client_list st h as \<longleftrightarrow> is_client h st \<and> as = []" for h as
    by (cases as) (auto simp: client_start_def client_list_def)
  then have "lists_apart st"
    by (auto simp: lists_apart_def)
  with start show ?case
    by (simp add: client_start_def client_ok_def client_inv_def renewals_ok_def renewal_args_def timer_inv_def cells_ok_def)
next
  case (step s s1)
  then show ?case by (blast intro: client_step_ok)
qed

text \<open>
  Property C2. In every reachable state each client has a proper list of subscriptions: all its cells are live and different, and no two clients share one. The
  argument of a renewal that waits in the timer or that the pool was given is live, and no two renewals share it. So every section of
  subscribing, renewing, unsubscribing and unregistering ends without touching freed memory.
\<close>

theorem subscriptions_live:
  assumes "client_reachable (st, due, held)"
  shows "(\<forall>h. is_client h st \<longrightarrow> (\<exists>as. client_list st h as \<and> distinct as \<and> (\<forall>g bs. g \<noteq> h \<and> client_list st g bs \<longrightarrow> set as \<inter> set bs = {}))) \<and>
    distinct (renewal_args st @ due) \<and> (\<forall>a\<in>set (renewal_args st @ due). renew_args st a \<noteq> None) \<and>
    (\<forall>h cid. locked (renew_begin h cid) st \<noteq> None \<and> locked (unsubscribe_begin h cid) st \<noteq> None \<and> locked (unsubscribe_end h cid) st \<noteq> None \<and>
       locked (unregister_turn h) st \<noteq> None) \<and>
    (\<forall>now h url T rc actual uuid mem. locked (subscribe_end (renew_memory now) h url T rc actual uuid mem) st \<noteq> None) \<and>
    (\<forall>c\<in>set held. free_client_subscription c st \<noteq> None \<and> (\<forall>e h cid T rc actual. locked (renew_end e h cid T rc actual c) st \<noteq> None))"
proof -
  note p = client_ok_parts [OF client_reachable_ok [OF assms]]
  have lists: "\<exists>as. client_list st h as \<and> distinct as \<and> (\<forall>g bs. g \<noteq> h \<and> client_list st g bs \<longrightarrow> set as \<inter> set bs = {})" if h: "is_client h st" for h
  proof -
    obtain as where l: "client_list st h as"
      using client_has_list [OF p(1) h] .
    then have "distinct as"
      by (auto simp: client_list_def intro: sub_chain_distinct)
    moreover have "\<forall>g bs. g \<noteq> h \<and> client_list st g bs \<longrightarrow> set as \<inter> set bs = {}"
      using p(1) l unfolding client_inv_def lists_apart_def by metis
    ultimately show ?thesis using l by blast
  qed
  have args: "distinct (renewal_args st @ due)" "\<forall>a\<in>set (renewal_args st @ due). renew_args st a \<noteq> None"
    using p(4) by (auto simp: renewals_ok_def)
  note run = p(1) TrueI p(2)
  have first: "locked (renew_begin h cid) st \<noteq> None" "locked (unsubscribe_begin h cid) st \<noteq> None" "locked (unsubscribe_end h cid) st \<noteq> None"
    "locked (unregister_turn h) st \<noteq> None" for h cid
    using renew_first.under_lock [OF run, of h cid] unsubscribe_first.under_lock [OF run, of h cid]
      unsubscribe_last.under_lock [OF run, of h cid] unregister_one.under_lock [OF run, of h] by auto
  have new: "locked (subscribe_end (renew_memory now) h url T rc actual uuid mem) st \<noteq> None" for now h url T rc actual uuid mem
    using subscribe_last.under_lock [OF run, of now h url T rc actual uuid mem] by auto
  have last: "free_client_subscription c st \<noteq> None \<and> (\<forall>e h cid T rc actual. locked (renew_end e h cid T rc actual c) st \<noteq> None)" if c: "c \<in> set held" for c
  proof (intro conjI allI)
    show "free_client_subscription c st \<noteq> None"
      using free_copy [OF p(1) c] by auto
    show "locked (renew_end e h cid T rc actual c) st \<noteq> None" for e h cid T rc actual
      using renew_last.under_lock [OF p(1) c p(2), of e h cid T rc actual] by auto
  qed
  show ?thesis
    by (intro conjI allI ballI impI)
      (rule lists args(1) args(2) [THEN bspec] first new last [THEN conjunct1] last [THEN conjunct2, rule_format]; assumption)+
qed

definition subscriber_start :: gena_cp where
  "subscriber_start = \<lparr>HandleTable = (replicate 200 None)[Suc 0 := Some demo_client], GlobalHndRWLock = False, UpnpSdkInit = 1,
     UpnpSdkClientRegistered = 1, UpnpSdkDeviceRegisteredV4 = 0, UpnpSdkDeviceregisteredV6 = 0, SsdpSearchList = (\<lambda>h. []),
     cp_timer = \<lparr>lastEventId = 0, eventQ = [], queue_nodes = 0, timer_shutdown = False, freeEvents = 0\<rparr>, exp_args = Map.empty, exp_fresh = 1,
     client_subs = Map.empty, sub_fresh = 0, ClientSubList = (\<lambda>h. None), renew_args = Map.empty, renew_fresh = 0,
     GlobalClientSubscribeMutex = False\<rparr>"

lemma subscriber_handle: "is_client 1 subscriber_start" "\<not> GlobalHndRWLock subscriber_start"
  by (simp_all add: is_client_def GetHandleInfo_def slot_def subscriber_start_def NUM_HANDLE_def demo_client_def)

lemma subscriber_reachable: "client_reachable (subscriber_start, [], [])"
  by (rule client_reachable.start) (simp add: client_start_def subscriber_start_def NUM_HANDLE_def)

definition subscribed_once :: "(gena_cp \<times> int \<times> string) option" where
  "subscribed_once = locked (subscribe_end (renew_memory 100) 1 ''http://d/e'' 300 UPNP_E_SUCCESS ''uuid:a'' ''1'' True) subscriber_start"

lemma subscribed_once_state:
  "map_option (\<lambda>(st, r). (r, ClientSubList st 1, renewal_args st)) subscribed_once = Some ((UPNP_E_SUCCESS, ''uuid:1''), Some 0, [0])"
  by code_simp

theorem subscriptions_live_witness:
  "\<exists>st. client_reachable (st, [], []) \<and> ClientSubList st 1 = Some 0 \<and> renew_args st 0 \<noteq> None \<and> locked (renew_begin 1 ''uuid:1'') st \<noteq> None"
proof -
  obtain st r where st: "subscribed_once = Some (st, r)" "ClientSubList st 1 = Some 0" "renewal_args st = [0]"
    using subscribed_once_state by auto
  have "client_reachable (st, [], [])"
    by (rule client_reachable.step [OF subscriber_reachable client_step.subscribed]) (rule st(1) [unfolded subscribed_once_def])
  from this subscriptions_live [OF this] show ?thesis
    using st(2,3) by auto
qed

end
