(* ===== verification/ClientProperties.thy ===== *)
theory ClientProperties
  imports ClientSystem
begin

text \<open>
  Properties of the subscriptions of a control point: when a renewal is due, what happens when it cannot be scheduled, how a client is
  unregistered, and which clients an event reaches.
\<close>

section \<open>Scheduling a renewal\<close>

lemma scheduled_event:
  assumes s: "ScheduleGenaAutoRenew e h T a st = Some (st1, UPNP_E_SUCCESS)" and T: "T \<noteq> UPNP_INFINITE" and c: "client_subs st a = Some s"
  shows "\<exists>ev x. ev \<in> set (eventQ (cp_timer st1)) \<and> func (job ev) = renew_code \<and> eventTime ev = re_now e + T - AUTO_RENEW_TIME \<and>
    renew_args st1 (arg (job ev)) = Some x \<and> ja_handle x = h \<and> es_SID (ja_event x) = cs_SID s \<and> es_TimeOut (ja_event x) = T \<and>
    client_subs st1 a = Some (s\<lparr>cs_RenewEventId := event_id ev\<rparr>) \<and> ClientSubList st1 = ClientSubList st"
proof -
  have m: "re_event e" "re_arg e"
    using s T by (auto simp: ScheduleGenaAutoRenew_def split: if_splits)
  obtain ms t k rc where r: "TimerThreadSchedule (re_now e) (re_ms e) (cp_timer st) (T - AUTO_RENEW_TIME) REL_SEC (renew_job (renew_fresh st)) SHORT_TERM =
      (ms, t, k, rc)"
    by (metis prod_cases4)
  then have rc: "rc = UPNP_E_SUCCESS"
    using s T m c by (auto simp: ScheduleGenaAutoRenew_def Let_def split: if_splits)
  from r show ?thesis
  proof (cases rule: TimerThreadSchedule_cases)
    case added
    let ?ev = "\<lparr>job = renew_job (renew_fresh st), eventTime = CalculateEventTime (re_now e) (T - AUTO_RENEW_TIME) REL_SEC, persistent = SHORT_TERM,
      event_id = lastEventId (cp_timer st)\<rparr>"
    have "?ev \<in> set (eventQ (cp_timer st1))"
      using s T m c r rc added by (auto simp: ScheduleGenaAutoRenew_def Let_def put_client_sub_def)
    then show ?thesis
      using s T m c r rc added by (intro exI [of _ ?ev]) (auto simp: ScheduleGenaAutoRenew_def Let_def put_client_sub_def CalculateEventTime_def)
  qed (use rc out_of_memory_codes(1) in metis)
qed

text \<open>
  Property C16. A new subscription that was granted for \<open>T\<close> seconds is at the front of the list of its client with the SID of the device, and its
  renewal, for the same client, own SID and time, waits in the timer and is due ten seconds before the subscription ends. When
  the device grants less than ten seconds this moment is already over: the renewal is due at once, again and again.
\<close>

theorem renewal_before_expiry:
  assumes "subscribe_end e h url T UPNP_E_SUCCESS actual uuid True st = Some (st1, UPNP_E_SUCCESS, cid)" and "T \<noteq> UPNP_INFINITE"
  shows "\<exists>a s ev x. ClientSubList st1 h = Some a \<and> client_subs st1 a = Some s \<and> cs_ActualSID s = actual \<and> cs_SID s = cid \<and> cs_EventURL s = url \<and>
    cs_Next s = ClientSubList st h \<and> cs_RenewEventId s = event_id ev \<and>
    ev \<in> set (eventQ (cp_timer st1)) \<and> func (job ev) = renew_code \<and> renew_args st1 (arg (job ev)) = Some x \<and>
    ja_handle x = h \<and> es_SID (ja_event x) = cid \<and> es_TimeOut (ja_event x) = T \<and>
    eventTime ev + 10 = re_now e + T \<and> (eventTime ev < re_now e \<longleftrightarrow> T < 10)"
proof -
  define s where "s = \<lparr>cs_RenewEventId = - 1, cs_SID = ''uuid:'' @ uuid, cs_ActualSID = actual, cs_EventURL = url, cs_Next = ClientSubList st h\<rparr>"
  define st0 where "st0 = set_head h (Some (sub_fresh st)) (put_client_sub (sub_fresh st) (Some s) (st\<lparr>sub_fresh := Suc (sub_fresh st)\<rparr>))"
  have "is_client h st" "\<not> UPNP_SID_ARRAY \<le> length (''uuid:'' @ uuid)"
    using assms(1) by (auto simp: subscribe_end_def Let_def GENA_E_BAD_HANDLE_def UPNP_E_SUCCESS_def UPNP_E_INVALID_HANDLE_def UPNP_E_OUTOF_MEMORY_def
      split: if_splits)
  then have r: "ScheduleGenaAutoRenew e h T (sub_fresh st) st0 = Some (st1, UPNP_E_SUCCESS)" and cid: "cid = ''uuid:'' @ uuid"
    using assms(1) by (auto simp: subscribe_end_def Let_def st0_def s_def Option.bind_eq_Some_conv split: if_splits)
  have c: "client_subs st0 (sub_fresh st) = Some s" "ClientSubList st0 h = Some (sub_fresh st)"
    by (simp_all add: st0_def set_head_def put_client_sub_def)
  from scheduled_event [OF r assms(2) c(1)] obtain ev x where "ev \<in> set (eventQ (cp_timer st1))" "func (job ev) = renew_code"
      "eventTime ev = re_now e + T - AUTO_RENEW_TIME" "renew_args st1 (arg (job ev)) = Some x" "ja_handle x = h" "es_SID (ja_event x) = cs_SID s"
      "es_TimeOut (ja_event x) = T" "client_subs st1 (sub_fresh st) = Some (s\<lparr>cs_RenewEventId := event_id ev\<rparr>)" "ClientSubList st1 = ClientSubList st0"
    by blast
  then show ?thesis
    using c(2) cid
    by (intro exI [of _ "sub_fresh st"] exI [of _ "s\<lparr>cs_RenewEventId := event_id ev\<rparr>"] exI [of _ ev] exI [of _ x]) (auto simp: s_def AUTO_RENEW_TIME_def)
qed

theorem renewal_before_expiry_witness:
  "\<exists>st ev. subscribe_end (renew_memory 100) 1 ''http://d/e'' 300 UPNP_E_SUCCESS ''uuid:a'' ''1'' True subscriber_start =
     Some (st, UPNP_E_SUCCESS, ''uuid:1'') \<and> ev \<in> set (eventQ (cp_timer st)) \<and> func (job ev) = renew_code \<and>
     eventTime ev + 10 = re_now (renew_memory 100) + 300 \<and> \<not> eventTime ev < re_now (renew_memory 100)"
proof -
  let ?r = "subscribe_end (renew_memory 100) 1 ''http://d/e'' 300 UPNP_E_SUCCESS ''uuid:a'' ''1'' True subscriber_start"
  have "map_option snd ?r = Some (UPNP_E_SUCCESS, ''uuid:1'')"
    by code_simp
  then obtain st where st: "?r = Some (st, UPNP_E_SUCCESS, ''uuid:1'')"
    by auto
  have "(300 :: int) \<noteq> UPNP_INFINITE" "\<not> (300 :: int) < 10"
    by code_simp+
  with st renewal_before_expiry [OF st] show ?thesis
    by blast
qed

text \<open>
  Property C17. When the renewal of a new subscription cannot be scheduled, subscribing returns the error and frees the subscription, but the list of
  the client still begins with the freed cell: from then on renewing, unsubscribing and unregistering this client touch freed memory, whatever SID is asked for.
\<close>

theorem failed_subscription_dangles:
  assumes "locked (subscribe_end e h url T UPNP_E_SUCCESS actual uuid True) st = Some (st1, rc, cid)" and "rc \<noteq> UPNP_E_SUCCESS"
    and "is_client h st" and "length uuid + 5 < UPNP_SID_ARRAY"
  shows "(\<exists>a. ClientSubList st1 h = Some a \<and> client_subs st1 a = None) \<and>
    (\<forall>c. locked (renew_begin h c) st1 = None \<and> locked (unsubscribe_begin h c) st1 = None \<and> locked (unsubscribe_end h c) st1 = None) \<and>
    locked (unregister_turn h) st1 = None"
proof -
  obtain st2 where u: "subscribe_end e h url T UPNP_E_SUCCESS actual uuid True (st\<lparr>GlobalHndRWLock := True\<rparr>) = Some (st2, rc, cid)"
      "HandleUnlock st2 = Some st1"
    using assms(1) by (auto simp: locked_def HandleLock_def Option.bind_eq_Some_conv split: if_splits)
  let ?a = "sub_fresh st"
  obtain st3 where s: "ScheduleGenaAutoRenew e h T ?a (set_head h (Some ?a) (put_client_sub ?a
      (Some \<lparr>cs_RenewEventId = - 1, cs_SID = ''uuid:'' @ uuid, cs_ActualSID = actual, cs_EventURL = url, cs_Next = ClientSubList st h\<rparr>)
      (st\<lparr>GlobalHndRWLock := True, sub_fresh := Suc ?a\<rparr>))) = Some (st3, rc)" "st2 = put_client_sub ?a None st3"
    using u(1) assms(2-4) by (auto simp: subscribe_end_def Let_def Option.bind_eq_Some_conv split: if_splits)
  have f: "ClientSubList st3 h = Some ?a" "is_client h st3"
    using s(1) assms(2,3) by (auto simp: ScheduleGenaAutoRenew_def Let_def set_head_def put_client_sub_def split: if_splits prod.splits)
  then have d: "ClientSubList st1 h = Some ?a" "client_subs st1 ?a = None" "is_client h st1"
    using u(2) by (auto simp: s(2) put_client_sub_def HandleUnlock_def split: if_splits)
  have g: "GetClientSubClientSID (Some ?a) c (st1\<lparr>GlobalHndRWLock := b\<rparr>) = None" for c b
    by (subst GetClientSubClientSID.simps) (simp add: d)
  have r: "RemoveClientSubClientSID h c (st1\<lparr>GlobalHndRWLock := b\<rparr>) = None" for c b
    by (simp add: RemoveClientSubClientSID_def RemoveClientSubClientSID_loop.simps [of _ _ _ "Some ?a"] d)
  show ?thesis
    using d g r by (auto simp: locked_def HandleLock_def renew_begin_def unsubscribe_begin_def unsubscribe_end_def unregister_turn_def)
qed

theorem failed_subscription_dangles_witness:
  "\<exists>st a. locked (subscribe_end ((renew_memory 100)\<lparr>re_event := False\<rparr>) 1 ''http://d/e'' 300 UPNP_E_SUCCESS ''uuid:a'' ''1'' True) subscriber_start =
     Some (st, UPNP_E_OUTOF_MEMORY, ''uuid:1'') \<and> ClientSubList st 1 = Some a \<and> client_subs st a = None \<and> locked (unregister_turn 1) st = None"
proof -
  let ?r = "locked (subscribe_end ((renew_memory 100)\<lparr>re_event := False\<rparr>) 1 ''http://d/e'' 300 UPNP_E_SUCCESS ''uuid:a'' ''1'' True) subscriber_start"
  have "map_option snd ?r = Some (UPNP_E_OUTOF_MEMORY, ''uuid:1'')"
    by code_simp
  then obtain st where st: "?r = Some (st, UPNP_E_OUTOF_MEMORY, ''uuid:1'')"
    by auto
  have "UPNP_E_OUTOF_MEMORY \<noteq> UPNP_E_SUCCESS" "length ''1'' + 5 < UPNP_SID_ARRAY"
    by code_simp+
  with st failed_subscription_dangles [OF st _ subscriber_handle(1)] show ?thesis
    by blast
qed

section \<open>Unregistering a client\<close>

text \<open>The event of a renewal leaves the timer and no other one comes.\<close>

definition renewal_gone :: "int \<Rightarrow> gena_cp \<Rightarrow> gena_cp \<Rightarrow> bool" where
  "renewal_gone k st st1 \<longleftrightarrow> set (eventQ (cp_timer st1)) \<subseteq> {e \<in> set (eventQ (cp_timer st)). event_id e \<noteq> k}"

lemma remove_renewal_gone:
  assumes r: "remove_renewal k st = Some st1" and t: "timer_inv (cp_timer st)"
  shows "renewal_gone k st st1 \<and> client_subs st1 = client_subs st"
proof -
  obtain t1 j rc where e: "TimerThreadRemove (cp_timer st) k = (t1, j, rc)"
    by (metis prod_cases3)
  have "cp_timer st1 = t1 \<and> client_subs st1 = client_subs st"
    using r e by (auto simp: remove_renewal_def call_free_def free_subscribe_arg_def split: option.splits if_splits)
  moreover from e have "set (eventQ t1) \<subseteq> {e \<in> set (eventQ (cp_timer st)). event_id e \<noteq> k}"
    by (cases rule: remove_cases) (use t in \<open>auto simp: timer_inv_def image_iff\<close>)
  ultimately show ?thesis
    by (simp add: renewal_gone_def)
qed

lemma free_renewal_gone:
  assumes "free_client_subscription s st = Some (s1, st1)" and "renewals_ok due st"
  shows "renewal_gone (cs_RenewEventId s) st st1 \<and> client_subs st1 = client_subs st \<and> cs_Next s1 = cs_Next s"
  using assms remove_renewal_gone [of "cs_RenewEventId s" st st1]
  by (fastforce simp: free_client_subscription_def renewals_ok_def renewal_gone_def Let_def split: if_splits)

lemma first_removed:
  assumes inv: "client_inv due held st" and l: "client_list st h (a # as)" and s: "client_subs st a = Some s"
    and r: "RemoveClientSubClientSID h (cs_SID s) st = Some st1"
  shows "client_subs st1 = (client_subs st)(a := None) \<and> renewal_gone (cs_RenewEventId s) st st1 \<and> client_list st1 h as"
proof -
  have "client_list st1 h as"
    using RemoveClientSubClientSID_ok [OF inv l, of "cs_SID s"] r s by (simp add: without_sid_def sub_of_def)
  moreover
  let ?st0 = "put_client_sub a (Some (s\<lparr>cs_Next := None\<rparr>)) (set_head h (cs_Next s) st)"
  obtain s1 st2 where f: "free_client_subscription (s\<lparr>cs_Next := None\<rparr>) ?st0 = Some (s1, st2)" "freeClientSubList (cs_Next s1) (put_client_sub a None st2) = Some st1"
    using r l s by (auto simp: RemoveClientSubClientSID_def RemoveClientSubClientSID_loop.simps [of _ _ _ "Some a"]
        freeClientSubList.simps [of "Some a"] client_list_def put_client_sub_def set_head_def Option.bind_eq_Some_conv)
  have ok: "renewals_ok due ?st0"
    using inv by (simp add: client_inv_def renewals_ok_def renewal_args_def put_client_sub_def set_head_def)
  have "st1 = put_client_sub a None st2"
    using f(2) free_renewal_gone [OF f(1) ok] by (simp add: freeClientSubList.simps)
  with free_renewal_gone [OF f(1) ok] have "client_subs st1 = (client_subs st)(a := None) \<and> renewal_gone (cs_RenewEventId s) st st1"
    by (simp add: put_client_sub_def set_head_def renewal_gone_def)
  ultimately show ?thesis by simp
qed

lemma unregister_turn_first:
  assumes inv: "client_inv due held st" and u: "\<not> GlobalHndRWLock st" and l: "client_list st h (a # as)"
  shows "\<exists>st1. locked (unregister_turn h) st = Some (st1, Inr (sub_of st a)) \<and> client_inv due (sub_of st a # held) st1 \<and> \<not> GlobalHndRWLock st1 \<and>
    same_table st st1 \<and> client_list st1 h as \<and> client_subs st1 = (client_subs st)(a := None) \<and> renewal_gone (cs_RenewEventId (sub_of st a)) st st1"
proof -
  obtain st1 r where t: "locked (unregister_turn h) st = Some (st1, r)" "client_inv due (given_copy r @ held) st1" "same_table st st1"
    using unregister_one.under_lock [OF inv TrueI u, of h] by blast
  let ?st0 = "st\<lparr>GlobalHndRWLock := True\<rparr>"
  have h: "is_client h st" "ClientSubList st h = Some a" "client_subs st a = Some (sub_of st a)"
    using l by (auto simp: client_list_def sub_of_def)
  obtain st2 where r: "RemoveClientSubClientSID h (cs_SID (sub_of st a)) ?st0 = Some st2" "HandleUnlock st2 = Some st1" "r = Inr (sub_of st a)"
    using t(1) u h by (auto simp: locked_def HandleLock_def unregister_turn_def Option.bind_eq_Some_conv)
  have "client_inv due held ?st0" "client_list ?st0 h (a # as)"
    using inv l by (simp_all add: client_list_def)
  from first_removed [OF this, of "sub_of st a" st2] have f: "client_subs st2 = (client_subs st)(a := None)"
    "renewal_gone (cs_RenewEventId (sub_of st a)) st st2" "client_list st2 h as"
    using r(1) h by (auto simp: renewal_gone_def)
  then show ?thesis
    using t r u by (auto simp: HandleUnlock_def renewal_gone_def client_list_def same_table_def split: if_splits)
qed

lemma unregister_all:
  assumes "client_inv due held st" and "\<not> GlobalHndRWLock st" and "client_list st h as"
    and "\<And>j a. a \<in> set as \<Longrightarrow> gena_unsubscribe (es j) (cs_EventURL (sub_of st a)) (cs_ActualSID (sub_of st a)) \<noteq> None"
  shows "\<exists>st1. genaUnregisterClient es (\<lambda>j s. s) i h st = Some (st1, UPNP_E_SUCCESS) \<and> client_inv due held st1 \<and> \<not> GlobalHndRWLock st1 \<and>
    same_table st st1 \<and> ClientSubList st1 h = None \<and> client_subs st1 = (\<lambda>b. if b \<in> set as then None else client_subs st b) \<and>
    set (eventQ (cp_timer st1)) \<subseteq> {e \<in> set (eventQ (cp_timer st)). \<forall>a\<in>set as. event_id e \<noteq> cs_RenewEventId (sub_of st a)}"
  using assms
proof (induction as arbitrary: i held st)
  case Nil
  have "st\<lparr>GlobalHndRWLock := True, GlobalHndRWLock := False\<rparr> = st"
    using Nil.prems(2) by (cases st) simp
  moreover have "ClientSubList st h = None" "is_client h st"
    using Nil.prems(3) by (simp_all add: client_list_def)
  ultimately have "genaUnregisterClient es (\<lambda>j s. s) i h st = Some (st, UPNP_E_SUCCESS)"
    using Nil.prems(2)
    by (subst genaUnregisterClient.simps) (simp add: locked_def HandleLock_def HandleUnlock_def unregister_turn_def)
  then show ?case
    using Nil.prems \<open>ClientSubList st h = None\<close> by simp
next
  case (Cons a as)
  let ?s = "sub_of st a"
  obtain st1 where t: "locked (unregister_turn h) st = Some (st1, Inr ?s)" "client_inv due (?s # held) st1" "\<not> GlobalHndRWLock st1"
    "same_table st st1" "client_list st1 h as" "client_subs st1 = (client_subs st)(a := None)" "renewal_gone (cs_RenewEventId ?s) st st1"
    using unregister_turn_first [OF Cons.prems(1-3)] by blast
  obtain rc where u: "gena_unsubscribe (es i) (cs_EventURL ?s) (cs_ActualSID ?s) = Some rc"
    using Cons.prems(4) [of a i] by auto
  have c: "?s \<in> set (?s # held)" by simp
  obtain s1 st2 where f: "free_client_subscription ?s st1 = Some (s1, st2)" "client_inv due (?s # held) st2" "same_table st1 st2"
    using free_copy [OF t(2) c] by blast
  have "renewals_ok due st1"
    using t(2) by (simp add: client_inv_def)
  note g = free_renewal_gone [OF f(1) this]
  have "client_list st2 h as"
    using free_client_subscription_ok [of due st1 ?s] t(2,5) f(1) timer_moves_inv(2) [OF t(2)] by (auto simp: client_inv_def)
  moreover have "a \<notin> set as"
    using Cons.prems(3) unfolding client_list_def by (metis sub_chain_distinct distinct.simps(2))
  then have same: "sub_of st2 b = sub_of st b" if "b \<in> set as" for b
    using that g t(6) by (auto simp: sub_of_def)
  moreover have "client_inv due held st2" "\<not> GlobalHndRWLock st2"
    using client_inv_less [OF f(2), of held] t(3) f(3) by (auto simp: same_table_def)
  ultimately obtain st3 where n: "genaUnregisterClient es (\<lambda>j s. s) (Suc i) h st2 = Some (st3, UPNP_E_SUCCESS)" "client_inv due held st3"
      "\<not> GlobalHndRWLock st3" "same_table st2 st3" "ClientSubList st3 h = None" "client_subs st3 = (\<lambda>b. if b \<in> set as then None else client_subs st2 b)"
      "set (eventQ (cp_timer st3)) \<subseteq> {e \<in> set (eventQ (cp_timer st2)). \<forall>a\<in>set as. event_id e \<noteq> cs_RenewEventId (sub_of st2 a)}"
    using Cons.IH [of held st2 "Suc i"] Cons.prems(4) by auto
  have "genaUnregisterClient es (\<lambda>j s. s) i h st = Some (st3, UPNP_E_SUCCESS)"
    by (subst genaUnregisterClient.simps) (simp add: t(1) u f(1) n(1))
  moreover have "client_subs st3 = (\<lambda>b. if b \<in> set (a # as) then None else client_subs st b)"
    using n(6) g t(6) by auto
  moreover have "set (eventQ (cp_timer st3)) \<subseteq> {e \<in> set (eventQ (cp_timer st)). \<forall>b\<in>set (a # as). event_id e \<noteq> cs_RenewEventId (sub_of st b)}"
    using n(7) g t(7) same by (auto simp: renewal_gone_def subset_iff)
  ultimately show ?case
    using n same_table_trans [OF same_table_trans [OF t(4) f(3)] n(4)] by blast
qed


lemma path_is_no_url: "gena_unsubscribe e ''/e'' k = Some UPNP_E_INVALID_URL"
proof -
  have "parse_uri (sg_net (q_g e)) (''/e'' @ [NUL]) 2 = Some (Inr \<lparr>utype = RELATIVE, scheme = null_token, path_type = ABS_PATH,
      pathquery = \<lparr>buff = Some 0, tsize = 2\<rparr>, fragment = null_token, hostport = zero_hostport\<rparr>)"
    by (simp add: parse_uri_def parse_scheme_def rd_def at_def ctype_defs parse_uric_def parse_uric_loop.simps sz_sub_def SIZE_MOD_def
        is_unreserved_def is_reserved_def is_mark_def strchr_hit_def RESERVED_def MARK_def)
  then obtain f where f: "http_FixStrUrl (sg_net (q_g e)) (''/e'' @ [NUL]) 2 = Some (Some f, UPNP_E_INVALID_URL)"
    by (simp add: http_FixStrUrl_def http_FixUrl_def token_string_casecmp_def null_token_def c_str_def)
  have "length ''/e'' = 2" "UPNP_E_INVALID_URL \<noteq> 0"
    by (simp_all add: UPNP_E_INVALID_URL_def)
  then show ?thesis
    unfolding gena_unsubscribe_def exchange_def Let_def by (simp add: f del: append.simps list.size)
qed

lemma subscriber_stays:
  assumes "locked (subscribe_end (renew_memory now) h url T rc actual uuid mem) subscriber_start = Some (st, r)"
  shows "is_client 1 st"
  using subscribe_last.locked_result [OF _ TrueI subscriber_handle(2) assms] client_ok_parts [OF client_reachable_ok [OF subscriber_reachable]]
    subscriber_handle(1) by (auto simp: same_table_def is_client_def GetHandleInfo_def slot_def)

lemma subscribed_once_cell:
  "map_option (\<lambda>(st, r). (ClientSubList st 1, map_option (\<lambda>s. (cs_Next s, cs_ActualSID s, cs_SID s)) (client_subs st 0), GlobalClientSubscribeMutex st))
     subscribed_once = Some (Some 0, Some (None, ''uuid:a'', ''uuid:1''), False)"
  by code_simp

lemma local_subscription:
  "map_option (\<lambda>(st, r). (ClientSubList st 1, map_option (\<lambda>s. (cs_EventURL s, cs_Next s, cs_RenewEventId s)) (client_subs st 0), map event_id (eventQ (cp_timer st))))
     (locked (subscribe_end (renew_memory 100) 1 ''/e'' 300 UPNP_E_SUCCESS ''uuid:a'' ''1'' True) subscriber_start) =
   Some (Some 0, Some (''/e'', None, 0), [0])"
  by code_simp


section \<open>Events\<close>

text \<open>The SID header of an event begins the SID that the device gave to a subscription.\<close>

definition matches_sid :: "string \<Rightarrow> gena_cp \<Rightarrow> nat \<Rightarrow> bool" where
  "matches_sid tok st a \<longleftrightarrow> take (length tok) (cs_ActualSID (sub_of st a)) = tok"

definition calls_of :: "string \<Rightarrow> int \<Rightarrow> xml \<Rightarrow> gena_cp \<Rightarrow> int \<Rightarrow> nat list \<Rightarrow> event_call list" where
  "calls_of tok eventKey vars st h as =
     (case (GetHandleInfo h st, find (matches_sid tok st) as) of
        ((HND_CLIENT, Some x), Some a) \<Rightarrow>
          [\<lparr>ec_callback = Callback x, ec_cookie = Cookie x, ec_key = eventKey, ec_sid = cs_SID (sub_of st a), ec_vars = vars\<rparr>]
      | _ \<Rightarrow> [])"

lemma find_by_actual_sid:
  "sub_chain (client_subs st) p as \<Longrightarrow> \<forall>a\<in>set as. length tok \<le> length (cs_ActualSID (sub_of st a)) \<Longrightarrow>
   GetClientSubActualSID p tok st = Some (find (matches_sid tok st) as)"
proof (induction as arbitrary: p)
  case Nil then show ?case by (simp add: GetClientSubActualSID.simps)
next
  case (Cons a as)
  then obtain s where s: "client_subs st a = Some s" "sub_of st a = s" by (auto simp: sub_of_def)
  have "matches_sid tok st a \<longleftrightarrow> take (length tok) (cs_ActualSID s) = tok"
    by (simp add: matches_sid_def s)
  then show ?case
    using Cons s by (subst GetClientSubActualSID.simps) (simp add: memcmp_equal_def)
qed

lemma is_client_info: "is_client h st \<longleftrightarrow> (\<exists>x. GetHandleInfo h st = (HND_CLIENT, Some x))"
  by (auto simp: is_client_def GetHandleInfo_def split: option.splits if_splits)

lemma look_for_subscription:
  assumes "\<not> GlobalHndRWLock st" and l: "is_client h st \<Longrightarrow> client_list st h as"
    and t: "is_client h st \<Longrightarrow> \<forall>a\<in>set as. length tok \<le> length (cs_ActualSID (sub_of st a))"
  shows "\<exists>r. look_for tok h st = Some r \<and>
    (case r of None \<Rightarrow> [] | Some (x, s) \<Rightarrow> [\<lparr>ec_callback = Callback x, ec_cookie = Cookie x, ec_key = k, ec_sid = cs_SID s, ec_vars = vars\<rparr>]) =
    calls_of tok k vars st h as"
proof (cases "is_client h st")
  case False
  then have "\<nexists>x. GetHandleInfo h st = (HND_CLIENT, Some x)"
    by (simp add: is_client_info)
  then show ?thesis
    using assms(1) by (auto simp: look_for_def calls_of_def split: prod.splits Upnp_Handle_Type.splits option.splits)
next
  case True
  have c: "sub_chain (client_subs st) (ClientSubList st h) as"
    using l [OF True] by (simp add: client_list_def)
  have "client_subs st a = Some (sub_of st a)" if "find (matches_sid tok st) as = Some a" for a
    using sub_chain_live [OF c, of a] that by (auto simp: sub_of_def find_Some_iff)
  then show ?thesis
    using assms(1) True find_by_actual_sid [OF c t [OF True]]
    by (cases "find (matches_sid tok st) as") (auto simp: is_client_info look_for_def calls_of_def)
qed



text \<open>
  Property C34. The SID header of an event is compared over its own length: when it is longer than the stored SID of the first subscription of some client that is
  looked at, memory behind the stored SID is read.
\<close>

theorem long_sid_reads_behind:
  assumes "h \<in> set hs" and "is_client h (seen h)" and "ClientSubList (seen h) h = Some a" and "client_subs (seen h) a = Some s"
    and "length (cs_ActualSID s) + 1 < length tok"
  shows "event_calls tok eventKey vars seen again hs = None"
  using assms(1)
proof (induction hs)
  case (Cons g hs)
  have "look_for tok h (seen h) = None"
    using assms(2-5) by (auto simp: is_client_info look_for_def GetClientSubActualSID.simps [of "Some a"] memcmp_equal_def)
  then have "event_subscription tok eventKey (seen h) (again h) h = None"
    by (simp add: event_subscription_def)
  with Cons show ?case
    by (cases "g = h") (auto split: option.splits)
qed simp

theorem long_sid_reads_behind_witness:
  "\<forall>vars. \<exists>st. is_client 1 st \<and> event_calls ''uuid:a-other'' 3 vars (\<lambda>h. st) (\<lambda>h. st) [1] = None"
proof
  fix vars
  obtain st r where st: "subscribed_once = Some (st, r)" and c: "ClientSubList st 1 = Some 0" "client_subs st 0 \<noteq> None" "cs_ActualSID (sub_of st 0) = ''uuid:a''"
    using subscribed_once_cell by (auto simp: sub_of_def)
  from c(2) obtain s where s: "client_subs st 0 = Some s"
    by auto
  have h: "is_client 1 st"
    by (rule subscriber_stays [OF st [unfolded subscribed_once_def]])
  have "event_calls ''uuid:a-other'' 3 vars (\<lambda>h. st) (\<lambda>h. st) [1] = None"
    using long_sid_reads_behind [of 1 "[1]" "\<lambda>h. st" 0 s "''uuid:a-other''" 3 vars "\<lambda>h. st"] h c s by (simp add: sub_of_def)
  with h show "\<exists>st. is_client 1 st \<and> event_calls ''uuid:a-other'' 3 vars (\<lambda>h. st) (\<lambda>h. st) [1] = None"
    by blast
qed

end
