(* ===== verification/Spec2Isabelle.thy ===== *)
theory Spec2Isabelle
  imports LinkedList HttpHeaders HttpTransfer ThreadPoolSystem TimerThread ServiceTable Subscribing SsdpDiscovery ClientProperties
begin

text \<open>
  Verification of the UPnP library (the re-engineered copy under \<^verbatim>\<open>src/compa\<close>).

  \<^bold>\<open>The program.\<close> A UPnP stack: a device or control point talks HTTP over TCP and UDP. Incoming
  messages are read into a growing byte buffer and given to an incremental HTTP parser, which uses a token scanner, a
  small format language (\<open>%s %S %w %c ...\<close>), sorted tables of names and the URI parser. Work
  is done by jobs of a thread pool with three priority queues; jobs that must run later wait in a timer thread that
  hands them to the pool. The pool and the header lists use a doubly linked list with a free list
  of nodes. A device keeps a table of its services, built from the description document, with the subscriptions of each
  service; event notification walks over the subscriptions. An event is copied into the queue of each subscription; the
  first event of a queue is a job of the pool, which sends it to a delivery URL and then moves the queue on. Control points subscribe, renew
  and unsubscribe with requests; the application registers devices, accepts subscriptions and sends events through
  the handle table, which one lock protects. Discovery uses datagrams: a device announces itself, its embedded devices and its
  services, and says good-bye; a control point searches, and every device waits a random part of the time that the search
  allows before it answers. What a control point hears is reported to the registered clients.

  \<^bold>\<open>Theories\<close>, in the order of the layers, with the source files under \<^verbatim>\<open>src/compa/src\<close>:

  \<^item> \<open>Prelude\<close>: \<open>size_t\<close> arithmetic with its wrap-around, C characters and strings (signed \<open>char\<close>, "C" locale),
    the outcome scripts of the allocator, the fact collections \<open>heap_simps\<close> and \<open>size_simps\<close>.
  \<^item> \<open>FreeList\<close>, \<open>LinkedList\<close> (\<^verbatim>\<open>threadutil/FreeList.cpp\<close>, \<^verbatim>\<open>LinkedList.cpp\<close>): a heap of blocks of
    three words; every function works on addresses as the source does. The list invariant relates the pointer structure
    with both sentinels to a sequence; each operation is shown to act on the sequence, deleted nodes are freed
    exactly once. The locale \<open>node_sequence\<close> states the contract of a queue, its interpretation is the pointer
    list; the theories above use lists for queues on this ground.
  \<^item> \<open>Membuffer\<close> (\<^verbatim>\<open>genlib/util/membuffer.cpp\<close>): buffer with capacity, explicit bounds on every access, a
    failing \<open>realloc\<close>. The locale \<open>byte_string\<close> is the contract used by a client that assembles a message.
  \<^item> \<open>StrIntMap\<close> (\<^verbatim>\<open>genlib/util/strintmap.cpp\<close>): the binary search with the signed index arithmetic of the source, shown
    total and correct on a sorted table through the locale \<open>ordered_lookup\<close> (with and without case).
  \<^item> \<open>UriEscape\<close>, \<open>Uri\<close>, \<open>UriDots\<close> (\<^verbatim>\<open>genlib/net/uri/uri.cpp\<close>): percent decoding in place, scheme, host and port,
    path and fragment, removal of dot segments in place (shown equal to the algorithm of RFC 3986, section 5.2.4)
    and relative resolution. A \<open>char*\<close> is memory with an offset; reading outside gives \<open>None\<close>.
    Name service and address conversion are the record \<open>net_env\<close>, an argument.
  \<^item> \<open>HttpScanner\<close>, \<open>HttpMatch\<close>, \<open>HttpParser\<close>, \<open>HttpHeaders\<close>, \<open>HttpEntity\<close>
    (\<^verbatim>\<open>genlib/net/http/httpparser.cpp\<close>): scanner, format matcher, tables, the parser state machine from the request line
    to the three ways to read an entity. The locale \<open>matcher\<close> is the contract of everything that reads from the
    scanner (the cursor only moves forward, an answer other than \<open>PARSE_INCOMPLETE\<close> does not change when more
    bytes arrive); ten scanner functions interpret it and the format matcher inherits it. \<open>HttpHeaders\<close> lifts
    it to the header loop, \<open>HttpEntity\<close> decodes chunked and counted entities.
  \<^item> \<open>Sock\<close>, \<open>HttpMessage\<close>, \<open>HttpTransfer\<close> (\<^verbatim>\<open>genlib/net/sock.cpp\<close>, \<^verbatim>\<open>genlib/net/http/statcodes.cpp\<close>,
    \<^verbatim>\<open>httpreadwrite.cpp\<close>): reading and writing a socket (the record \<open>os\<close> lists the outcomes of the system calls), the message maker
    with its format letters and nested calls, shown to make the text the letters stand for, sending buffers and
    files, receiving through the parser. A file sent in chunks is decoded by the parser to the same data.
  \<^item> \<open>ThreadPool\<close>, \<open>ThreadPoolSystem\<close> (\<^verbatim>\<open>threadutil/ThreadPool.cpp\<close>): every operation and the critical sections of
    a worker as functions on the pool; then pool and workers as an inductive step relation
    with the counters as an invariant of the reachable states. The locale \<open>thread_limit\<close> shows that adding workers
    keeps the limit whatever the other workers do while the mutex is given up.
  \<^item> \<open>TimerThread\<close> (\<^verbatim>\<open>threadutil/TimerThread.cpp\<close>): the queue ordered by time, scheduling and removal, one round of the
    worker, and the rounds of the worker until it waits.
  \<^item> \<open>ServiceTable\<close> (\<^verbatim>\<open>genlib/service-table/service_table.cpp\<close>, and the tag search of \<^verbatim>\<open>pupnp/ixml/src/node.cpp\<close>):
    building the table from a document, searches, subscriptions with their expiry, removal of a device on
    explicit list cells.
  \<^item> \<open>HandleTable\<close>, \<open>DeviceApi\<close> (\<^verbatim>\<open>api/upnpapi.cpp\<close>, \<^verbatim>\<open>inc/upnpapi.hpp\<close>): the table of handles and its lock, registering
    and unregistering, limits, and the four calls that accept a subscription or send an event.
  \<^item> \<open>GenaEvents\<close>, \<open>GenaRequests\<close> (\<^verbatim>\<open>gena/gena_device.cpp\<close>, \<^verbatim>\<open>gena_callback2.cpp\<close>): property sets, queues of events, the
    notification of one and of all subscribers, the job of the pool in its two critical sections, and the requests of control points. The
    state extends the handle table by the memory that queues and pool share: jobs, \<open>notify_thread_struct\<close>s and events with their reference counts.
  \<^item> \<open>GenaQueues\<close>, \<open>GenaSystem\<close>, \<open>GenaSafety\<close>: the invariant of that memory (who refers to what, what the pool was given, what waits
    behind it), kept by every operation, and which operations cannot fail under it.
  \<^item> \<open>DeviceSystem\<close>: the device as an inductive step relation of the calls of the application, the requests and the sections of the
    jobs in any order. The locale \<open>device_call\<close> is the contract that all calls share; every call interprets it, and
    the invariant of the reachable states follows.
  \<^item> \<open>DeviceProperties\<close>, \<open>Subscribing\<close>: the properties of the device side, with a device that has one subscription as example.

  \<^item> \<open>Ssdp\<close> (\<^verbatim>\<open>ssdp/ssdp_server.cpp\<close>): search targets and unique service names, the checks on a datagram.
  \<^item> \<open>SsdpPackets\<close>, \<open>SsdpDevice\<close> (\<^verbatim>\<open>ssdp/ssdp_device.cpp\<close>, \<^verbatim>\<open>ssdp_server.cpp\<close>): the messages of a device and where they are sent,
    what is announced or answered for a description, search requests and their delayed answers, reading from the socket.
    The state is the list of the datagrams sent, with the outcomes of \<open>socket\<close>, \<open>sendto\<close> and the allocations as scripts.
  \<^item> \<open>SsdpAnnounce\<close>, \<open>SsdpProperties\<close>: the abstract list of the names a description stands for, and the datagrams as the text of one
    message for each name. The locale \<open>announcer\<close> is what announcing and answering share; both interpret it.
  \<^item> \<open>SsdpCtrlpt\<close>, \<open>SsdpSearch\<close> (\<^verbatim>\<open>ssdp/ssdp_ctrlpt.cpp\<close>, \<^verbatim>\<open>api/upnpapi.cpp\<close>): advertisements and answers that reach a control point, the calls of
    the clients, searches with their entry in the list of the client and their timeout in the timer.
  \<^item> \<open>SsdpSearchSystem\<close>, \<open>SsdpDiscovery\<close>: searches, timer and timeout jobs as a step relation with its invariant; the way of a name
    from the device to the report of the control point.
  \<^item> \<open>ClientTable\<close>, \<open>GenaCtrlpt\<close>, \<open>ClientEvents\<close> (\<^verbatim>\<open>genlib/client_table\<close>, \<^verbatim>\<open>gena/gena_ctrlpt.cpp\<close>): the subscriptions of a control point as linked cells of
    a memory (\<open>client_subs\<close>, the heads in \<open>ClientSubList\<close>), subscribing, renewing, unsubscribing and unregistering with their sections under
    the lock of the handle table, the jobs that renew a subscription, and the events that arrive. The state extends the one of the searches, whose timer it shares.
  \<^item> \<open>ClientSubs\<close>, \<open>ClientSections\<close>, \<open>ClientSystem\<close>: the invariant of lists, copies and renewals; the locale \<open>client_section\<close> is the contract of
    a section under the lock, which six sections interpret; the step relation of all sections, clients that come and go, the timer and its
    jobs in any order.
  \<^item> \<open>ClientProperties\<close>: when a renewal is due, what happens when it cannot be scheduled, how a client is unregistered, whom an event reaches.

  \<^bold>\<open>Conventions.\<close> The outer \<open>None\<close> of a result is behaviour that C++ does not define: an access outside of memory or
  through a null or freed pointer. Error codes are integers as in the source. Whether an
  allocation succeeds is an argument: \<open>alloc_script\<close> and \<open>ok_script\<close> list the outcomes of the coming calls, past their end every
  call succeeds; theorems hold for all scripts unless they name an assumption on them. What other threads do while a
  function waits on a condition variable is a list of state changes (\<open>interference\<close>); a wait that is never
  ended gives \<open>None\<close>. Times are read once per critical section and are arguments.

  \<^bold>\<open>Loops.\<close> Loops are recursive functions with a termination proof. Two exceptions: \<open>parser_parse\<close> and \<open>parser_parse_entity\<close> (and the
  loops over cells of \<open>removeServiceTable\<close> and of the client table, and \<open>genaUnregisterClient\<close>, whose list other threads may extend) are \<open>partial_function\<close>s, where the theorems state the result as \<open>Some\<close>,
  so that returning is part of them. The visit of all subscriptions is given as fuel the number of
  subscriptions, one step for each, which is shown to be enough. The loop of \<open>genaNotifyAllCommon\<close> ends because the place it looks at moves
  to the end of a list that never grows.

  \<^bold>\<open>Properties.\<close> The properties are numbered (C1, C2, ...) at their theorems: invariants (the counters of the
  pool, the order of the timer queue, message buffers), equivalence with reference definitions (dot
  segments, percent decoding, header parsing in pieces), refinement (the pointer list), round trips (URL
  composition, chunked coding, add and remove of jobs), safety of memory accesses, termination, and error behaviour.
  Some state what the code does where this differs from its documentation. For the device they
  say that an event under way always has its memory and is the head of its queue, that the jobs of the pool touch no freed
  memory, that queues are bounded and drain, and what a subscription needs to be accepted. For discovery they say that exactly the names of the
  description are announced and answered, that receivers read back the names that devices send, that answers come in
  time and that every search ends with one call. For the subscriptions of a control point they say that no reachable state has a freed cell in a list
  or a renewal without its argument, that renewals are due in time, that unregistering ends and leaves nothing, and which clients an event reaches. The states of the device properties are those that are
  reached while the calls get the memory they ask for under the lock; what happens without it is modelled too, but breaks
  the invariant, as the list of findings of the development says.

  \<^bold>\<open>Not modelled.\<close> The mini server and the web server (system calls and files), the download functions of \<^verbatim>\<open>httpreadwrite.cpp\<close>, SOAP and URL configuration (they need
  the document object model), the creation of the sockets for SSDP, of the API layer the initialisation, the calls for SOAP and HTTP and the
  wrappers around the functions for subscriptions of a control point (\<^verbatim>\<open>UpnpSubscribe\<close> and its asynchronous variants),
  UUID and MD5; debug printing throughout; the
  original library under \<^verbatim>\<open>src/pupnp\<close>, of which \<^verbatim>\<open>src/compa\<close> is a copy with changes; mocks, tests, samples. In the modelled
  files: release of memory is modelled where a claim depends on it (list nodes, free
  functions of jobs, service cells, jobs and events), elsewhere a value that is not used any more. The read lock of the handle table is taken only around checks
  that change nothing; those checks are one step.

  \<^bold>\<open>Plan.\<close> An extension would take the ranges and media types of the web server and the asynchronous calls of the API.
\<close>

end
